(* ===== verification/Prelude.thy ===== *)
theory Prelude
  imports Main "HOL-Library.Word" "HOL-Library.AList"
begin

text \<open>
  Shared vocabulary of the development: the machine types of the Go program, the parts of Go's
  standard library it uses on strings and bytes, the lemma collections the component theories
  extend, the generic facts about words, lists and association lists they share, and the
  two interfaces several components implement (a byte codec and an incremental stream decoder).

  Go strings and byte slices are sequences of bytes.  A \<^verbatim>\<open>string\<close> is an Isabelle
  \<^typ>\<open>string\<close> (a \<^typ>\<open>char\<close> is one byte), a \<^verbatim>\<open>[]byte\<close> a list of 8-bit words; a nil
  slice and an empty one are the same list, since no operation of the program tells them apart.
  A Go map is an association list with distinct keys, so that its size and a walk over it are
  computable.
\<close>

unbundle bit_operations_syntax

section \<open>Machine types\<close>

type_synonym u8 = "8 word"
type_synonym u16 = "16 word"
type_synonym u32 = "32 word"
type_synonym byte = "8 word"
type_synonym bytes = "byte list"

named_theorems wire_simps \<open>unfolding rules for wire encoders and decoders\<close>
named_theorems go_string_simps \<open>evaluation rules for the Go string functions\<close>
named_theorems bit_facts \<open>bitwise facts on control and header bytes\<close>

section \<open>Shifts\<close>

definition shl :: "'a::len word \<Rightarrow> nat \<Rightarrow> 'a word" where
  "shl x n = push_bit n x"

definition shr :: "'a::len word \<Rightarrow> nat \<Rightarrow> 'a word" where
  "shr x n = drop_bit n x"

section \<open>Bytes and characters\<close>

definition byte_of_char :: "char \<Rightarrow> byte" where
  "byte_of_char c = word_of_nat (of_char c)"

definition char_of_byte :: "byte \<Rightarrow> char" where
  "char_of_byte b = char_of (unat b)"

definition to_bytes :: "string \<Rightarrow> bytes" where
  "to_bytes s = map byte_of_char s"

definition of_bytes :: "bytes \<Rightarrow> string" where
  "of_bytes bs = map char_of_byte bs"

lemma of_char_less_256: "(of_char c :: nat) < 256"
  by (cases c) (simp add: of_char_Char horner_sum_simps split: bool.split)

lemma unat_byte_of_char [simp]: "unat (byte_of_char c) = of_char c"
  using of_char_less_256 [of c] by (simp add: byte_of_char_def unat_of_nat)

lemma char_of_byte_of_char [simp]: "char_of_byte (byte_of_char c) = c"
  by (simp add: char_of_byte_def)

lemma byte_of_char_of_byte [simp]: "byte_of_char (char_of_byte b) = b"
proof -
  have "unat b < 2 ^ LENGTH(8)" by (rule unsigned_less)
  then show ?thesis by (simp add: byte_of_char_def char_of_byte_def)
qed

lemma of_bytes_to_bytes [simp]: "of_bytes (to_bytes s) = s"
  by (simp add: of_bytes_def to_bytes_def comp_def)

lemma to_bytes_of_bytes [simp]: "to_bytes (of_bytes bs) = bs"
  by (simp add: of_bytes_def to_bytes_def comp_def)

lemma length_to_bytes [simp]: "length (to_bytes s) = length s"
  by (simp add: to_bytes_def)

lemma length_of_bytes [simp]: "length (of_bytes bs) = length bs"
  by (simp add: of_bytes_def)

lemma byte_of_char_inj: "byte_of_char c = byte_of_char d \<longleftrightarrow> c = d"
  by (metis char_of_byte_of_char)

section \<open>The string functions of Go's standard library\<close>

text \<open>
  \<open>strings.ToUpper\<close> and \<open>strings.TrimSpace\<close> have an ASCII path, modelled here, and a path for
  strings with a byte above 127 that consults the Unicode tables of the Go runtime.  The tables
  are the parameter \<open>unicode\<close>: nothing is assumed about them.
\<close>

record unicode =
  uToUpper :: "string \<Rightarrow> string"
  uTrimSpace :: "string \<Rightarrow> string"

definition ascii :: "string \<Rightarrow> bool" where
  "ascii s \<longleftrightarrow> (\<forall>c\<in>set s. (of_char c :: nat) < 128)"

definition upper_char :: "char \<Rightarrow> char" where
  "upper_char c =
     (if 97 \<le> (of_char c :: nat) \<and> (of_char c :: nat) \<le> 122 then char_of (of_char c - 32 :: nat) else c)"

definition ToUpper :: "unicode \<Rightarrow> string \<Rightarrow> string" where
  "ToUpper u s = (if ascii s then map upper_char s else uToUpper u s)"

definition is_space :: "char \<Rightarrow> bool" where
  "is_space c \<longleftrightarrow> (of_char c :: nat) \<in> {9, 10, 11, 12, 13, 32}"

definition TrimSpace :: "unicode \<Rightarrow> string \<Rightarrow> string" where
  "TrimSpace u s =
     (if ascii s then rev (dropWhile is_space (rev (dropWhile is_space s))) else uTrimSpace u s)"

text \<open>\<open>strings.TrimRight\<close> with a cutset of one byte.\<close>

definition TrimRight :: "char \<Rightarrow> string \<Rightarrow> string" where
  "TrimRight c s = rev (dropWhile (\<lambda>x. x = c) (rev s))"

text \<open>\<open>strings.LastIndex\<close> for a one-byte separator: the index of its last occurrence.\<close>

definition LastIndex :: "char \<Rightarrow> string \<Rightarrow> nat option" where
  "LastIndex c s =
     (if c \<in> set s then Some (length s - Suc (length (takeWhile (\<lambda>x. x \<noteq> c) (rev s)))) else None)"

text \<open>\<open>strconv.ParseUint(s, 10, 8)\<close>: a non-empty run of decimal digits, at most 255.\<close>

definition digit_val :: "char \<Rightarrow> nat" where
  "digit_val c = of_char c - 48"

definition is_digit :: "char \<Rightarrow> bool" where
  "is_digit c \<longleftrightarrow> 48 \<le> (of_char c :: nat) \<and> (of_char c :: nat) \<le> 57"

definition ParseUint8 :: "string \<Rightarrow> nat option" where
  "ParseUint8 s =
     (if s \<noteq> [] \<and> list_all is_digit s
      then (let n = foldl (\<lambda>acc c. 10 * acc + digit_val c) 0 s in if n \<le> 255 then Some n else None)
      else None)"

text \<open>\<open>%d\<close> of a natural number.\<close>

fun show_nat :: "nat \<Rightarrow> string" where
  "show_nat n = (if n < 10 then [char_of (48 + n)] else show_nat (n div 10) @ [char_of (48 + n mod 10)])"

declare show_nat.simps [simp del]

text \<open>\<open>%02X\<close> of a byte.\<close>

definition hexDigit :: "nat \<Rightarrow> char" where
  "hexDigit n = char_of (if n < 10 then 48 + n else 55 + n)"

definition hex02X :: "byte \<Rightarrow> string" where
  "hex02X b = [hexDigit (unat b div 16), hexDigit (unat b mod 16)]"


section \<open>Facts about the string functions\<close>

lemma ascii_simps [simp]:
  "ascii []" "ascii (c # s) \<longleftrightarrow> (of_char c :: nat) < 128 \<and> ascii s"
  "ascii (s @ t) \<longleftrightarrow> ascii s \<and> ascii t"
  by (auto simp: ascii_def)

lemma ascii_ToUpper: "ascii s \<Longrightarrow> ToUpper u s = map upper_char s"
  by (simp add: ToUpper_def)

lemma TrimRight_append_replicate [simp]:
  "TrimRight c (s @ replicate n c) = TrimRight c s"
proof -
  have "dropWhile (\<lambda>x. x = c) (replicate n c @ rev s) = dropWhile (\<lambda>x. x = c) (rev s)"
    by (rule dropWhile_append2) simp
  then show ?thesis by (simp add: TrimRight_def)
qed

lemma TrimRight_id: "s = [] \<or> last s \<noteq> c \<Longrightarrow> TrimRight c s = s"
proof (induction s rule: rev_induct)
  case (snoc x xs)
  then show ?case by (simp add: TrimRight_def)
qed (simp add: TrimRight_def)

lemma LastIndex_append:
  assumes "c \<notin> set t"
  shows "LastIndex c (s @ c # t) = Some (length s)"
proof -
  have "takeWhile (\<lambda>x. x \<noteq> c) (rev t @ c # rev s) = rev t"
    using assms by (simp add: takeWhile_append)
  then show ?thesis by (simp add: LastIndex_def)
qed

lemma LastIndex_None [simp]: "LastIndex c s = None \<longleftrightarrow> c \<notin> set s"
  by (simp add: LastIndex_def)

lemma LastIndex_Some_less: "LastIndex c s = Some i \<Longrightarrow> i < length s"
  by (cases s) (auto simp: LastIndex_def split: if_splits)

lemma of_char_digit [simp]: "d < 10 \<Longrightarrow> (of_char (char_of (48 + d)) :: nat) = 48 + d"
  by simp

lemma show_nat_small: "n < 10 \<Longrightarrow> show_nat n = [char_of (48 + n)]"
  by (simp add: show_nat.simps)

lemma show_nat_big: "10 \<le> n \<Longrightarrow> show_nat n = show_nat (n div 10) @ [char_of (48 + n mod 10)]"
  by (subst show_nat.simps) simp

lemma show_nat_digits: "list_all is_digit (show_nat n) \<and> show_nat n \<noteq> []"
proof (induction n rule: show_nat.induct)
  case (1 n)
  show ?case
  proof (cases "n < 10")
    case True
    then show ?thesis by (simp add: show_nat_small is_digit_def)
  next
    case False
    then have "n mod 10 < 10" by simp
    with False "1.IH" show ?thesis by (simp add: show_nat_big is_digit_def)
  qed
qed

lemma show_nat_value: "foldl (\<lambda>acc c. 10 * acc + digit_val c) 0 (show_nat n) = n"
proof (induction n rule: show_nat.induct)
  case (1 n)
  show ?case
  proof (cases "n < 10")
    case True
    then show ?thesis by (simp add: show_nat_small digit_val_def)
  next
    case False
    then have "n mod 10 < 10" by simp
    with False "1.IH" show ?thesis by (simp add: show_nat_big digit_val_def)
  qed
qed

lemma ParseUint8_show_nat: "n \<le> 255 \<Longrightarrow> ParseUint8 (show_nat n) = Some n"
  by (simp add: ParseUint8_def show_nat_digits show_nat_value)

lemma ParseUint8_bound: "ParseUint8 s = Some n \<Longrightarrow> n \<le> 255"
  by (auto simp: ParseUint8_def Let_def split: if_splits)

lemma digit_upper: "is_digit c \<Longrightarrow> upper_char c = c \<and> c \<noteq> CHR ''-'' \<and> c \<noteq> CHR ''*'' \<and> (of_char c :: nat) < 128"
  by (auto simp: is_digit_def upper_char_def)

lemma upper_char_idem [simp]: "upper_char (upper_char c) = upper_char c"
  by (auto simp: upper_char_def)

lemma upper_char_ascii [simp]: "(of_char (upper_char c) :: nat) < 128 \<longleftrightarrow> (of_char c :: nat) < 128"
  using of_char_less_256 [of c] by (auto simp: upper_char_def)

lemma ascii_map_upper [simp]: "ascii (map upper_char s) \<longleftrightarrow> ascii s"
  by (simp add: ascii_def)

section \<open>Bits of bytes\<close>

lemma take_bit_small: "unat (x :: 'a::len word) < 2 ^ n \<Longrightarrow> take_bit n x = x"
  by (rule word_unat_eq_iff [THEN iffD2]) (simp add: unsigned_take_bit_eq take_bit_nat_eq_self)

lemma bit_small: "unat (x :: 'a::len word) < 2 ^ k \<Longrightarrow> bit x n \<Longrightarrow> n < k"
  by (metis bit_take_bit_iff take_bit_small)

text \<open>Go's \<open><<\<close> and \<open>>>\<close> on an unsigned integer, bit by bit.\<close>

lemma bit_shl [bit_facts]: "bit (shl (x :: 'a::len word) k) n \<longleftrightarrow> k \<le> n \<and> n < LENGTH('a) \<and> bit x (n - k)"
  by (auto simp: shl_def bit_simps)

lemma bit_shr [bit_facts]: "bit (shr (x :: 'a::len word) k) n \<longleftrightarrow> bit x (k + n)"
  by (simp add: shr_def bit_simps)

lemma shr_shl:
  assumes "unat (x :: 'a::len word) < 2 ^ k" and "k + m \<le> LENGTH('a)"
  shows "shr (shl x m) m = x"
  by (rule bit_word_eqI) (use bit_small [OF assms(1)] assms(2) in \<open>fastforce simp: bit_shl bit_shr\<close>)

lemma take_bit_less_u8: "k < 8 \<Longrightarrow> unat (take_bit k (x :: u8)) < 2 ^ k"
  by (simp add: unsigned_take_bit_eq)

lemma bits_below_8 [bit_facts]: "(x :: u8) < 8 \<Longrightarrow> bit x n \<Longrightarrow> n < 3"
  by (rule bit_small) (simp_all add: word_less_nat_alt)

lemma bits_below_16 [bit_facts]: "(x :: u8) < 16 \<Longrightarrow> bit x n \<Longrightarrow> n < 4"
  by (rule bit_small) (simp_all add: word_less_nat_alt)

lemma bits_below_128 [bit_facts]: "(x :: u8) < 128 \<Longrightarrow> bit x n \<Longrightarrow> n < 7"
  by (rule bit_small) (simp_all add: word_less_nat_alt)

text \<open>Masking with a low mask, and testing one bit.\<close>

lemma and_low_mask [bit_facts]:
  "(x :: u8) AND 0x01 = take_bit 1 x" "x AND 0x03 = take_bit 2 x" "x AND 0x07 = take_bit 3 x"
  "x AND 0x0F = take_bit 4 x" "x AND 0x3F = take_bit 6 x" "x AND 0x7F = take_bit 7 x"
  by (simp_all add: take_bit_eq_mask mask_numeral)

lemma and_bit_nonzero [bit_facts]:
  "(x :: u8) AND 0x01 \<noteq> 0 \<longleftrightarrow> bit x 0" "x AND 0x10 \<noteq> 0 \<longleftrightarrow> bit x 4" "x AND 0x80 \<noteq> 0 \<longleftrightarrow> bit x 7"
  using bit_iff_and_push_bit_not_eq_0 [of x 0] bit_iff_and_push_bit_not_eq_0 [of x 4]
    bit_iff_and_push_bit_not_eq_0 [of x 7]
  by simp_all

lemma bit_u8_cases: "bit (x :: u8) n \<Longrightarrow> n \<in> {0, 1, 2, 3, 4, 5, 6, 7}"
  using bit_imp_le_length [of x n] by auto

section \<open>Lists\<close>

lemma find_SomeD: "List.find P xs = Some x \<Longrightarrow> x \<in> set xs \<and> P x"
  by (auto simp: find_Some_iff)

text \<open>The Go slice \<open>xs[i:j]\<close> of a slice with at least \<open>j\<close> elements.\<close>

definition goSlice :: "nat \<Rightarrow> nat \<Rightarrow> 'a list \<Rightarrow> 'a list" where
  "goSlice i j xs = take (j - i) (drop i xs)"

section \<open>Big-endian integers\<close>

text \<open>\<open>int(a)<<8 | int(b)\<close> and its 24-bit sibling, as the program reads multi-byte fields.\<close>

definition be16 :: "byte \<Rightarrow> byte \<Rightarrow> int" where
  "be16 a b = push_bit 8 (uint a) OR uint b"

definition be24 :: "byte \<Rightarrow> byte \<Rightarrow> byte \<Rightarrow> int" where
  "be24 a b c = push_bit 16 (uint a) OR push_bit 8 (uint b) OR uint c"

text \<open>\<open>byte(x >> n)\<close>.\<close>

definition byte_at :: "nat \<Rightarrow> int \<Rightarrow> byte" where
  "byte_at n x = word_of_int (drop_bit n x)"

lemma be16_byte_at: "be16 (byte_at 8 x) (byte_at 0 x) = take_bit 16 x"
  by (rule bit_eqI) (auto simp: be16_def byte_at_def bit_simps uint_word_of_int_eq)

lemma be24_byte_at: "be24 (byte_at 16 x) (byte_at 8 x) (byte_at 0 x) = take_bit 24 x"
proof (rule bit_eqI)
  fix n
  show "bit (be24 (byte_at 16 x) (byte_at 8 x) (byte_at 0 x)) n \<longleftrightarrow> bit (take_bit 24 x) n"
    by (cases "n < 8"; cases "n < 16")
      (auto simp: be24_def byte_at_def bit_simps uint_word_of_int_eq)
qed

text \<open>\<open>encoding/binary\<close>: fixed-width integers in both byte orders.\<close>

definition bePut16 :: "u16 \<Rightarrow> bytes" where
  "bePut16 x = [ucast (shr x 8), ucast x]"

definition beUint16 :: "bytes \<Rightarrow> u16" where
  "beUint16 b = shl (ucast (b ! 0)) 8 OR ucast (b ! 1)"

definition bePut32 :: "u32 \<Rightarrow> bytes" where
  "bePut32 x = [ucast (shr x 24), ucast (shr x 16), ucast (shr x 8), ucast x]"

definition beUint32 :: "bytes \<Rightarrow> u32" where
  "beUint32 b = shl (ucast (b ! 0)) 24 OR shl (ucast (b ! 1)) 16 OR shl (ucast (b ! 2)) 8 OR ucast (b ! 3)"

definition lePut32 :: "u32 \<Rightarrow> bytes" where
  "lePut32 x = rev (bePut32 x)"

definition leUint32 :: "bytes \<Rightarrow> u32" where
  "leUint32 b = beUint32 (rev (take 4 b))"

lemma bit_u8_bound: "bit (x :: u8) n \<Longrightarrow> n < 8"
  using bit_imp_le_length [of x n] by simp

lemma beUint16_bePut16 [wire_simps]: "beUint16 (bePut16 x) = x"
proof (rule bit_word_eqI)
  fix n assume "n < LENGTH(16)"
  then show "bit (beUint16 (bePut16 x)) n = bit x n"
    by (cases "n < 8") (auto simp: beUint16_def bePut16_def bit_simps bit_shl bit_shr)
qed

lemma beUint32_bePut32 [wire_simps]: "beUint32 (bePut32 x) = x"
proof (rule bit_word_eqI)
  fix n assume "n < LENGTH(32)"
  then consider "n < 8" | "8 \<le> n" "n < 16" | "16 \<le> n" "n < 24" | "24 \<le> n" "n < 32" by fastforce
  then show "bit (beUint32 (bePut32 x)) n = bit x n"
    by cases (auto simp: beUint32_def bePut32_def bit_simps bit_shl bit_shr)
qed

lemma length_bePut [simp]: "length (bePut16 x) = 2" "length (bePut32 y) = 4" "length (lePut32 y) = 4"
  by (simp_all add: bePut16_def bePut32_def lePut32_def)

lemma leUint32_lePut32 [wire_simps]: "leUint32 (lePut32 x @ r) = x"
  by (simp add: leUint32_def lePut32_def beUint32_bePut32)

section \<open>Interfaces\<close>

text \<open>
  A wire codec: \<open>dec\<close> reads back what \<open>enc\<close> writes, for the values \<open>ok\<close> describes.
\<close>

locale wire_codec =
  fixes enc :: "'a \<Rightarrow> bytes"
    and dec :: "bytes \<Rightarrow> 'e + 'a"
    and ok :: "'a \<Rightarrow> bool"
  assumes dec_enc: "ok a \<Longrightarrow> dec (enc a) = Inr a"
begin

lemma enc_inj: "ok a \<Longrightarrow> ok b \<Longrightarrow> enc a = enc b \<Longrightarrow> a = b"
  by (metis dec_enc sum.inject(2))

lemma dec_not_error: "ok a \<Longrightarrow> dec (enc a) \<noteq> Inl e"
  by (simp add: dec_enc)

end

text \<open>
  An incremental decoder: \<open>feed\<close> consumes some bytes and returns the frames they complete; \<open>ok\<close>
  describes the states a decoder can be in between two reads.  Its contract is that the frames
  do not depend on how the stream is cut into reads.
\<close>

locale stream_decoder =
  fixes feed :: "'d \<Rightarrow> bytes \<Rightarrow> 'd \<times> 'f list"
    and ok :: "'d \<Rightarrow> bool"
  assumes feed_nil: "ok d \<Longrightarrow> feed d [] = (d, [])"
    and feed_ok: "ok d \<Longrightarrow> ok (fst (feed d p))"
    and feed_append: "ok d \<Longrightarrow> feed d (p @ q) =
      (case feed d p of (d1, fs1) \<Rightarrow> case feed d1 q of (d2, fs2) \<Rightarrow> (d2, fs1 @ fs2))"
begin

fun feed_all :: "'d \<Rightarrow> bytes list \<Rightarrow> 'd \<times> 'f list" where
  "feed_all d [] = (d, [])"
| "feed_all d (p # ps) =
     (case feed d p of (d1, fs1) \<Rightarrow> case feed_all d1 ps of (d2, fs2) \<Rightarrow> (d2, fs1 @ fs2))"

lemma feed_all_concat: "ok d \<Longrightarrow> feed_all d ps = feed d (concat ps)"
proof (induction ps arbitrary: d)
  case Nil
  then show ?case by (simp add: feed_nil)
next
  case (Cons p ps)
  obtain d1 fs1 where p: "feed d p = (d1, fs1)" by fastforce
  with feed_ok [OF Cons.prems, of p] Cons show ?case by (simp add: feed_append)
qed

lemma feed_all_cut: "ok d \<Longrightarrow> concat ps = concat qs \<Longrightarrow> feed_all d ps = feed_all d qs"
  by (simp add: feed_all_concat)

end

text \<open>
  A transition system with an invariant: \<open>init\<close> describes the start states, \<open>step\<close> one atomic
  action.  The contract is that the invariant holds at the start and that every action keeps it.
\<close>

locale invariant_system =
  fixes init :: "'s \<Rightarrow> bool"
    and step :: "'s \<Rightarrow> 's \<Rightarrow> bool"
    and inv :: "'s \<Rightarrow> bool"
  assumes inv_init: "init s \<Longrightarrow> inv s"
    and inv_step: "step s t \<Longrightarrow> inv s \<Longrightarrow> inv t"
begin

lemma inv_steps: "step\<^sup>*\<^sup>* s t \<Longrightarrow> inv s \<Longrightarrow> inv t"
  by (induction rule: rtranclp_induct) (auto intro: inv_step)

lemma reachable_inv: "init s \<Longrightarrow> step\<^sup>*\<^sup>* s t \<Longrightarrow> inv t"
  using inv_steps inv_init by blast

end

end
