(* ===== verification/Address.thy ===== *)
theory Address
  imports Prelude
begin

text \<open>
  AX.25 addresses (\<^verbatim>\<open>src/ax25/address.go\<close>): parsing of callsigns such as \<open>KU0HN-10\<close>,
  their printed form, and the 7-byte wire encoding with its C/R or H bit and its extension bit.
\<close>

section \<open>Model\<close>

record address =
  Call :: string
  SSID :: u8
  CRH :: bool

datatype addr_error = EmptyAddress | InvalidSSID string | BadCallsign string

definition checkCall :: "string \<Rightarrow> u8 \<Rightarrow> bool \<Rightarrow> addr_error + address" where
  "checkCall call ssid crh =
     (if length call = 0 \<or> length call > 6 then Inl (BadCallsign call)
      else Inr \<lparr>Call = call, SSID = ssid, CRH = crh\<rparr>)"

definition ParseAddress :: "unicode \<Rightarrow> string \<Rightarrow> addr_error + address" where
  "ParseAddress u s0 =
     (if length s0 = 0 then Inl EmptyAddress
      else
        (let crh = (last s0 = CHR ''*'');
             s = ToUpper u (if crh then butlast s0 else s0)
         in case LastIndex (CHR ''-'') s of
              Some idx \<Rightarrow>
                (let call = take idx s; suffix = drop (Suc idx) s
                 in case ParseUint8 suffix of
                      None \<Rightarrow> Inl (InvalidSSID suffix)
                    | Some n \<Rightarrow>
                        if n > 15 then Inl (InvalidSSID suffix)
                        else checkCall call (word_of_nat n) crh)
            | None \<Rightarrow> checkCall s 0 crh))"

definition addr_String :: "address \<Rightarrow> string" where
  "addr_String a = (if SSID a = 0 then Call a else Call a @ ''-'' @ show_nat (unat (SSID a)))"

definition boolBit :: "bool \<Rightarrow> byte" where
  "boolBit b = (if b then 1 else 0)"

definition pad6 :: "string \<Rightarrow> string" where
  "pad6 s = s @ replicate (6 - length s) (CHR '' '')"

definition encode :: "address \<Rightarrow> bool \<Rightarrow> bool \<Rightarrow> bytes" where
  "encode a crh ext =
     map (\<lambda>c. shl (byte_of_char c) 1) (take 6 (pad6 (Call a)))
     @ [shl (boolBit crh) 7 OR 0x60 OR shl (SSID a AND 0x0F) 1 OR boolBit ext]"

definition clean_char :: "byte \<Rightarrow> byte" where
  "clean_char c = (if c < 32 \<or> c > 126 then byte_of_char (CHR ''?'') else c)"

definition decodeAddress :: "bytes \<Rightarrow> address \<times> bool" where
  "decodeAddress b =
     (let call = map (\<lambda>c. clean_char (shr c 1)) (take 6 b);
          callStr = TrimRight (CHR '' '') (of_bytes call);
          ssidByte = b ! 6
      in (\<lparr>Call = callStr, SSID = shr ssidByte 1 AND 0x0F, CRH = (ssidByte AND 0x80 \<noteq> 0)\<rparr>,
          ssidByte AND 0x01 \<noteq> 0))"

section \<open>Well-formed addresses\<close>

definition printable :: "char \<Rightarrow> bool" where
  "printable c \<longleftrightarrow> 32 \<le> (of_char c :: nat) \<and> (of_char c :: nat) \<le> 126"

text \<open>An address whose wire form loses nothing.\<close>

definition wf_addr :: "address \<Rightarrow> bool" where
  "wf_addr a \<longleftrightarrow> length (Call a) \<le> 6 \<and> list_all printable (Call a)
     \<and> (Call a = [] \<or> last (Call a) \<noteq> CHR '' '') \<and> SSID a < 16"


section \<open>Lemmas\<close>

lemma boolBit_simps [simp]: "boolBit True = 1" "boolBit False = 0"
  by (simp_all add: boolBit_def)

lemma bit_boolBit [simp]: "bit (boolBit b) n \<longleftrightarrow> n = 0 \<and> b"
  by (auto simp: boolBit_def bit_1_iff)

lemma length_pad6 [simp]: "length s \<le> 6 \<Longrightarrow> length (pad6 s) = 6"
  by (simp add: pad6_def)

lemma length_encode [simp]: "length (encode a crh ext) = 7"
  by (simp add: encode_def pad6_def)

definition ssid_byte :: "u8 \<Rightarrow> bool \<Rightarrow> bool \<Rightarrow> byte" where
  "ssid_byte s crh ext = shl (boolBit crh) 7 OR 0x60 OR shl (s AND 0x0F) 1 OR boolBit ext"

lemma encode_nth6: "encode a crh ext ! 6 = ssid_byte (SSID a) crh ext"
proof -
  have "length (map (\<lambda>c. shl (byte_of_char c) 1) (take 6 (pad6 (Call a)))) = 6"
    by (simp add: pad6_def)
  then show ?thesis by (simp add: encode_def ssid_byte_def nth_append)
qed

lemma bit_ssid_byte:
  "bit (ssid_byte s crh ext) n \<longleftrightarrow>
     n = 7 \<and> crh \<or> n = 5 \<or> n = 6 \<or> 1 \<le> n \<and> n < 5 \<and> bit s (n - 1) \<or> n = 0 \<and> ext"
proof -
  have "bit (0x60 :: u8) n \<longleftrightarrow> n = 5 \<or> n = 6"
    using bit_u8_cases [of "0x60" n] by auto
  then show ?thesis
    by (auto simp: ssid_byte_def and_low_mask bit_shl bit_or_iff bit_take_bit_iff)
qed

lemma ssid_byte_fields:
  "s < 16 \<Longrightarrow> shr (ssid_byte s crh ext) 1 AND 0x0F = s"
  "ssid_byte s crh ext AND 0x80 \<noteq> 0 \<longleftrightarrow> crh"
  "ssid_byte s crh ext AND 0x01 \<noteq> 0 \<longleftrightarrow> ext"
proof -
  show "shr (ssid_byte s crh ext) 1 AND 0x0F = s" if "s < 16"
    by (rule bit_word_eqI)
      (use bits_below_16 [OF that] in \<open>auto simp: and_low_mask bit_shr bit_take_bit_iff bit_ssid_byte\<close>)
qed (simp_all add: and_bit_nonzero bit_ssid_byte)

lemma call_byte_roundtrip:
  assumes "printable c"
  shows "clean_char (shr (shl (byte_of_char c) 1) 1) = byte_of_char c"
proof -
  have lt: "unat (byte_of_char c) < 2 ^ 7" using assms by (simp add: printable_def)
  have "shr (shl (byte_of_char c) 1) 1 = byte_of_char c"
    using lt by (rule shr_shl) simp
  then show ?thesis
    using assms by (auto simp: clean_char_def printable_def word_less_nat_alt)
qed

lemma decode_encode:
  assumes "wf_addr a"
  shows "decodeAddress (encode a crh ext) = (a\<lparr>CRH := crh\<rparr>, ext)"
proof -
  let ?p = "pad6 (Call a)"
  have len: "length ?p = 6" using assms by (simp add: wf_addr_def)
  have pr: "\<forall>c\<in>set ?p. printable c"
    using assms by (auto simp: wf_addr_def pad6_def list_all_iff printable_def)
  have "take 6 (encode a crh ext) = map (\<lambda>c. shl (byte_of_char c) 1) ?p"
    using len by (simp add: encode_def)
  then have "map (\<lambda>c. clean_char (shr c 1)) (take 6 (encode a crh ext)) = to_bytes ?p"
    using pr by (simp add: to_bytes_def call_byte_roundtrip [unfolded One_nat_def])
  moreover have "TrimRight (CHR '' '') ?p = Call a"
    using assms by (simp add: pad6_def TrimRight_id wf_addr_def)
  ultimately show ?thesis
    using assms by (cases a) (simp add: decodeAddress_def encode_nth6 ssid_byte_fields [unfolded One_nat_def] wf_addr_def)
qed

lemma clean_char_printable: "printable (char_of_byte (clean_char b))"
  by (auto simp: printable_def clean_char_def char_of_byte_def word_less_nat_alt)

lemma set_TrimRight: "set (TrimRight c s) \<subseteq> set s"
  by (auto simp: TrimRight_def dest: set_dropWhileD)

lemma last_TrimRight: "TrimRight c s = [] \<or> last (TrimRight c s) \<noteq> c"
proof (cases "dropWhile (\<lambda>x. x = c) (rev s)")
  case (Cons x xs)
  then have "x \<noteq> c" using hd_dropWhile [of "\<lambda>x. x = c" "rev s"] by simp
  with Cons show ?thesis by (simp add: TrimRight_def)
qed (simp add: TrimRight_def)

lemma length_TrimRight: "length (TrimRight c s) \<le> length s"
  using length_dropWhile_le [of _ "rev s"] by (simp add: TrimRight_def)

lemma take_bit4_less: "(x :: u8) AND 0x0F < 16"
  using take_bit_less_u8 [of 4 x] by (simp add: and_low_mask word_less_nat_alt)

lemma decodeAddress_wf: "wf_addr (fst (decodeAddress b))"
proof -
  let ?call = "of_bytes (map (\<lambda>c. clean_char (shr c 1)) (take 6 b))"
  have "length (TrimRight (CHR '' '') ?call) \<le> 6"
    using length_TrimRight [of "CHR '' ''" ?call] by simp
  moreover have "list_all printable (TrimRight (CHR '' '') ?call)"
    using set_TrimRight [of "CHR '' ''" ?call] clean_char_printable
    by (auto simp: list_all_iff of_bytes_def)
  ultimately show ?thesis
    using last_TrimRight [of "CHR '' ''" ?call]
    by (simp add: decodeAddress_def wf_addr_def Let_def take_bit4_less)
qed


lemma checkCall_Inr:
  "checkCall call ssid crh = Inr a \<longleftrightarrow>
     call \<noteq> [] \<and> length call \<le> 6 \<and> a = \<lparr>Call = call, SSID = ssid, CRH = crh\<rparr>"
  by (auto simp: checkCall_def)

lemma ParseAddress_Inr:
  assumes "ParseAddress u s = Inr a"
  shows "Call a \<noteq> [] \<and> length (Call a) \<le> 6 \<and> SSID a < 16"
proof -
  have "n \<le> 15 \<Longrightarrow> (word_of_nat n :: u8) < 16" for n
    by (simp add: word_less_nat_alt unat_of_nat)
  then show ?thesis
    using assms
    by (auto simp: ParseAddress_def Let_def checkCall_Inr split: if_splits option.splits)
qed

text \<open>
  An address whose printed form parses back: an upper-case ASCII callsign, and, when no SSID is
  printed, none of the two characters that \<open>ParseAddress\<close> reads as punctuation.
\<close>

definition canonical :: "address \<Rightarrow> bool" where
  "canonical a \<longleftrightarrow> Call a \<noteq> [] \<and> length (Call a) \<le> 6 \<and> SSID a < 16
     \<and> list_all (\<lambda>c. upper_char c = c \<and> (of_char c :: nat) < 128) (Call a)
     \<and> (SSID a = 0 \<longrightarrow> CHR ''-'' \<notin> set (Call a) \<and> last (Call a) \<noteq> CHR ''*'')"

lemma map_upper_fixed: "list_all (\<lambda>c. upper_char c = c \<and> P c) s \<Longrightarrow> map upper_char s = s"
  by (induction s) auto

lemma last_show_nat: "last (s @ show_nat n) \<noteq> CHR ''*''"
proof -
  have "show_nat n \<noteq> []" "is_digit (last (show_nat n))"
    using show_nat_digits [of n] by (auto simp: list_all_iff)
  then show ?thesis using digit_upper by auto
qed

lemma ascii_show_nat: "ascii (show_nat n)" "map upper_char (show_nat n) = show_nat n"
    "CHR ''-'' \<notin> set (show_nat n)"
  using show_nat_digits [of n] digit_upper
  by (auto simp: ascii_def list_all_iff intro!: map_idI)

theorem ParseAddress_String:
  assumes "canonical a"
  shows "ParseAddress u (addr_String a) = Inr (a\<lparr>CRH := False\<rparr>)"
proof (cases "SSID a = 0")
  case True
  have asc: "ascii (Call a)" and up: "map upper_char (Call a) = Call a"
    using assms by (auto simp: canonical_def ascii_def list_all_iff intro!: map_idI)
  with True assms show ?thesis
    by (cases a) (simp add: canonical_def addr_String_def ParseAddress_def ToUpper_def checkCall_def Let_def
      LastIndex_None [THEN iffD2])
next
  case False
  let ?s = "Call a @ CHR ''-'' # show_nat (unat (SSID a))"
  have asc: "ascii (Call a)" and up: "map upper_char (Call a) = Call a"
    using assms by (auto simp: canonical_def ascii_def list_all_iff intro!: map_idI)
  have upd: "upper_char (CHR ''-'') = CHR ''-''" by (simp add: upper_char_def)
  have upper: "ToUpper u ?s = ?s"
    using asc up upd by (simp add: ToUpper_def ascii_show_nat)
  have idx: "LastIndex (CHR ''-'') ?s = Some (length (Call a))"
    using LastIndex_append [of "CHR ''-''" "show_nat (unat (SSID a))" "Call a"] ascii_show_nat by simp
  have le: "unat (SSID a) \<le> 15"
    using assms by (simp add: canonical_def word_less_nat_alt)
  have last: "last ?s \<noteq> CHR ''*''"
    using last_show_nat [of "Call a @ ''-''"] by simp
  have "ParseAddress u ?s = Inr \<lparr>Call = Call a, SSID = SSID a, CRH = False\<rparr>"
    using assms le by (simp only: ParseAddress_def upper last if_False Let_def option.case idx)
      (simp add: upper idx ParseUint8_show_nat checkCall_def canonical_def)
  then show ?thesis using False by (cases a) (simp add: addr_String_def)
qed

end
