(* ===== verification/Ax25_Frame.thy ===== *)
theory Ax25_Frame
  imports Address
begin

text \<open>
  The AX.25 frame codec (\<^verbatim>\<open>src/ax25/frame.go\<close>): frame types, the decoder \<open>ParseModulo\<close>
  for 1-byte (modulo 8) and 2-byte (modulo 128) control fields, and the encoder \<open>Bytes\<close>.
  The source's cursor \<open>pos\<close> is the list of bytes not read yet.
\<close>

section \<open>Model\<close>

datatype FrameType =
  UnknownType | I | RR | RNR | REJ | SREJ | UI | SABM | SABME | UA | DM | DISC | FRMR | XID

definition IsI :: "FrameType \<Rightarrow> bool" where
  "IsI t \<longleftrightarrow> t = I"

definition IsS :: "FrameType \<Rightarrow> bool" where
  "IsS t \<longleftrightarrow> t = RR \<or> t = RNR \<or> t = REJ \<or> t = SREJ"

definition IsU :: "FrameType \<Rightarrow> bool" where
  "IsU t \<longleftrightarrow> t \<in> {UI, SABM, SABME, UA, DM, DISC, FRMR, XID}"

fun FrameType_String :: "FrameType \<Rightarrow> string" where
  "FrameType_String I = ''I''"
| "FrameType_String RR = ''RR''"
| "FrameType_String RNR = ''RNR''"
| "FrameType_String REJ = ''REJ''"
| "FrameType_String SREJ = ''SREJ''"
| "FrameType_String UI = ''UI''"
| "FrameType_String SABM = ''SABM''"
| "FrameType_String SABME = ''SABME''"
| "FrameType_String UA = ''UA''"
| "FrameType_String DM = ''DM''"
| "FrameType_String DISC = ''DISC''"
| "FrameType_String FRMR = ''FRMR''"
| "FrameType_String XID = ''XID''"
| "FrameType_String UnknownType = ''UNKNOWN''"

definition MaxDigipeaters :: nat where
  "MaxDigipeaters = 8"

record frame =
  Dst :: address
  Src :: address
  Via :: "address list"
  Type :: FrameType
  NR :: u8
  NS :: u8
  PF :: bool
  Modulo :: u8
  Command :: bool
  PID :: u8
  Info :: bytes

datatype frame_error =
    FrameTooShort nat
  | DstExtBit
  | ShortSrc
  | ShortVia
  | TooManyDigipeaters
  | ShortControl
  | ShortExtI
  | ShortPidI
  | ShortExtS
  | ShortPidUI

text \<open>The base opcode of a U-frame (the control byte with its P/F bit cleared).\<close>

definition uBase :: "FrameType \<Rightarrow> byte" where
  "uBase t =
     (case t of UI \<Rightarrow> 0x03 | SABM \<Rightarrow> 0x2F | SABME \<Rightarrow> 0x6F | DISC \<Rightarrow> 0x43 | DM \<Rightarrow> 0x0F
      | UA \<Rightarrow> 0x63 | FRMR \<Rightarrow> 0x87 | XID \<Rightarrow> 0xAF | _ \<Rightarrow> 0)"

definition uType :: "byte \<Rightarrow> FrameType" where
  "uType base =
     (if base = 0x03 then UI else if base = 0x2F then SABM else if base = 0x6F then SABME
      else if base = 0x43 then DISC else if base = 0x0F then DM else if base = 0x63 then UA
      else if base = 0x87 then FRMR else if base = 0xAF then XID else UnknownType)"

definition sBitsOf :: "FrameType \<Rightarrow> byte" where
  "sBitsOf t = (case t of RNR \<Rightarrow> 1 | REJ \<Rightarrow> 2 | SREJ \<Rightarrow> 3 | _ \<Rightarrow> 0)"

definition sType :: "byte \<Rightarrow> FrameType" where
  "sType s = (if s = 0 then RR else if s = 1 then RNR else if s = 2 then REJ else SREJ)"

text \<open>The repeater addresses: at most eight, up to the one with the extension bit.\<close>

function parseVia :: "bytes \<Rightarrow> address list \<Rightarrow> frame_error + address list \<times> bytes" where
  "parseVia rest via =
     (if length rest < 7 then Inl ShortVia
      else if length via = MaxDigipeaters then Inl TooManyDigipeaters
      else (case decodeAddress (take 7 rest) of (addr, ext) \<Rightarrow>
              if ext then Inr (via @ [addr], drop 7 rest)
              else parseVia (drop 7 rest) (via @ [addr])))"
  by pat_completeness auto
termination
  by (relation "measure (\<lambda>(rest, via). length rest)") auto

declare parseVia.simps [simp del]

definition parseI :: "int \<Rightarrow> frame \<Rightarrow> byte \<Rightarrow> bytes \<Rightarrow> frame_error + frame" where
  "parseI mdl f ctl after =
     (let tail = (\<lambda>g rest. case rest of
                     [] \<Rightarrow> Inl ShortPidI
                   | pid # info \<Rightarrow> Inr (g\<lparr>PID := pid, Info := info\<rparr>))
      in if mdl = 128
         then (case after of
                 [] \<Rightarrow> Inl ShortExtI
               | ctl2 # rest \<Rightarrow>
                   tail (f\<lparr>Type := I, NS := shr ctl 1 AND 0x7F, PF := (ctl2 AND 0x01 \<noteq> 0),
                           NR := shr ctl2 1 AND 0x7F\<rparr>) rest)
         else tail (f\<lparr>Type := I, NS := shr ctl 1 AND 0x07, PF := (ctl AND 0x10 \<noteq> 0),
                      NR := shr ctl 5 AND 0x07\<rparr>) after)"

definition parseS :: "int \<Rightarrow> frame \<Rightarrow> byte \<Rightarrow> bytes \<Rightarrow> frame_error + frame" where
  "parseS mdl f ctl after =
     (let typ = sType (shr ctl 2 AND 0x03)
      in if mdl = 128
         then (case after of
                 [] \<Rightarrow> Inl ShortExtS
               | ctl2 # rest \<Rightarrow>
                   Inr (f\<lparr>Type := typ, PF := (ctl2 AND 0x01 \<noteq> 0), NR := shr ctl2 1 AND 0x7F\<rparr>))
         else Inr (f\<lparr>Type := typ, PF := (ctl AND 0x10 \<noteq> 0), NR := shr ctl 5 AND 0x07\<rparr>))"

definition parseU :: "frame \<Rightarrow> byte \<Rightarrow> bytes \<Rightarrow> frame_error + frame" where
  "parseU f ctl after =
     (let typ = uType (ctl AND NOT 0x10);
          g = f\<lparr>Type := typ, PF := (ctl AND 0x10 \<noteq> 0)\<rparr>
      in if typ = UI
         then (case after of
                 [] \<Rightarrow> Inl ShortPidUI
               | pid # info \<Rightarrow> Inr (g\<lparr>PID := pid, Info := info\<rparr>))
         else if typ = XID then Inr (g\<lparr>Info := after\<rparr>)
         else Inr g)"

definition ParseModulo :: "bytes \<Rightarrow> int \<Rightarrow> frame_error + frame" where
  "ParseModulo raw mdl =
     (if length raw < 15 then Inl (FrameTooShort (length raw))
      else case decodeAddress (take 7 raw) of (dst, dstExt) \<Rightarrow>
        if dstExt then Inl DstExtBit
        else if length (drop 7 raw) < 7 then Inl ShortSrc
        else case decodeAddress (take 7 (drop 7 raw)) of (src, srcExt) \<Rightarrow>
          (case (if srcExt then Inr ([], drop 14 raw) else parseVia (drop 14 raw) []) of
             Inl e \<Rightarrow> Inl e
           | Inr (via, []) \<Rightarrow> Inl ShortControl
           | Inr (via, ctl # after) \<Rightarrow>
               (let f = \<lparr>Dst = dst, Src = src, Via = via, Type = UnknownType, NR = 0, NS = 0,
                         PF = False, Modulo = word_of_int mdl,
                         Command = (CRH dst \<or> \<not> CRH src), PID = 0, Info = []\<rparr>
                in if ctl AND 0x01 = 0 then parseI mdl f ctl after
                   else if ctl AND 0x03 = 0x01 then parseS mdl f ctl after
                   else parseU f ctl after)))"

definition Parse :: "bytes \<Rightarrow> frame_error + frame" where
  "Parse raw = ParseModulo raw 8"

text \<open>The address list of a frame as it is written: the C/R bits follow \<open>Command\<close>.\<close>

definition frameAddrs :: "frame \<Rightarrow> address list" where
  "frameAddrs f =
     (Dst f)\<lparr>CRH := Command f\<rparr> # (Src f)\<lparr>CRH := \<not> Command f\<rparr> # Via f"

fun encodeAddrs :: "address list \<Rightarrow> bytes" where
  "encodeAddrs [] = []"
| "encodeAddrs [a] = encode a (CRH a) True"
| "encodeAddrs (a # b # as) = encode a (CRH a) False @ encodeAddrs (b # as)"

definition controlBytes :: "frame \<Rightarrow> bytes" where
  "controlBytes f =
     (if IsI (Type f) then
        (if Modulo f = 128 then [shl (NS f) 1, shl (NR f) 1 OR boolBit (PF f)]
         else [shl (NR f) 5 OR shl (boolBit (PF f)) 4 OR shl (NS f) 1])
      else if IsS (Type f) then
        (if Modulo f = 128 then [shl (sBitsOf (Type f)) 2 OR 0x01, shl (NR f) 1 OR boolBit (PF f)]
         else [shl (NR f) 5 OR shl (boolBit (PF f)) 4 OR shl (sBitsOf (Type f)) 2 OR 0x01])
      else [uBase (Type f) OR shl (boolBit (PF f)) 4])"

definition Bytes :: "frame \<Rightarrow> bytes" where
  "Bytes f =
     encodeAddrs (frameAddrs f) @ controlBytes f
     @ (if Type f = I \<or> Type f = UI then PID f # Info f else [])
     @ (if Type f = XID then Info f else [])"

section \<open>Well-formed frames\<close>

definition carriesInfo :: "FrameType \<Rightarrow> bool" where
  "carriesInfo t \<longleftrightarrow> t = I \<or> t = UI \<or> t = XID"

text \<open>
  What the control and body bytes can represent: every field that the frame type does not carry
  is zero, the sequence numbers fit the modulo, and the repeater list fits the address field.
\<close>

definition wf_fields :: "frame \<Rightarrow> bool" where
  "wf_fields f \<longleftrightarrow>
     length (Via f) \<le> MaxDigipeaters \<and> Type f \<noteq> UnknownType
     \<and> (Modulo f = 8 \<or> Modulo f = 128)
     \<and> (if IsI (Type f) then NS f < Modulo f else NS f = 0)
     \<and> (if IsI (Type f) \<or> IsS (Type f) then NR f < Modulo f else NR f = 0)
     \<and> (Type f = I \<or> Type f = UI \<or> PID f = 0)
     \<and> (carriesInfo (Type f) \<or> Info f = [])"

text \<open>A frame that \<open>Bytes\<close> represents in full: its addresses too, with C/R bits that agree with \<open>Command\<close>.\<close>

definition wf_frame :: "frame \<Rightarrow> bool" where
  "wf_frame f \<longleftrightarrow>
     wf_fields f \<and> wf_addr (Dst f) \<and> wf_addr (Src f) \<and> list_all wf_addr (Via f)
     \<and> CRH (Dst f) = Command f \<and> CRH (Src f) = (\<not> Command f)"

section \<open>Addresses on the wire\<close>

text \<open>The address a receiver reads from the encoding of \<open>a\<close>.\<close>

definition air :: "address \<Rightarrow> address" where
  "air a = fst (decodeAddress (encode a (CRH a) False))"

lemma decode_encode_air: "decodeAddress (encode a (CRH a) ext) = (air a, ext)"
proof -
  have six: "take 6 (encode a (CRH a) ext) = take 6 (encode a (CRH a) False)"
    by (simp add: encode_def pad6_def)
  have ssid: "shr (ssid_byte s c ext) 1 AND 0x0F = shr (ssid_byte s c False) 1 AND 0x0F" for s c
    by (rule bit_word_eqI) (auto simp: and_low_mask bit_take_bit_iff bit_shr bit_ssid_byte)
  show ?thesis
    unfolding air_def decodeAddress_def Let_def encode_nth6 six ssid by (simp add: ssid_byte_fields)
qed

lemma air_wf: "wf_addr (air a)"
  by (simp add: air_def decodeAddress_wf)

lemma CRH_air [simp]: "CRH (air a) = CRH a"
  by (simp add: air_def decodeAddress_def encode_nth6 ssid_byte_fields Let_def)

lemma air_id: "wf_addr a \<Longrightarrow> air a = a"
  by (simp add: air_def decode_encode)

lemma map_air_id: "list_all wf_addr as \<Longrightarrow> map air as = as"
  by (induction as) (simp_all add: air_id)

lemma parseVia_step:
  assumes "length via < MaxDigipeaters"
  shows "parseVia (encode a (CRH a) ext @ rest) via =
    (if ext then Inr (via @ [air a], rest) else parseVia rest (via @ [air a]))"
  using assms by (subst parseVia.simps) (simp add: decode_encode_air)

lemma parseVia_encode:
  "as \<noteq> [] \<Longrightarrow> length via + length as \<le> MaxDigipeaters \<Longrightarrow>
   parseVia (encodeAddrs as @ rest) via = Inr (via @ map air as, rest)"
proof (induction as arbitrary: via rule: encodeAddrs.induct)
  case (3 a b as)
  then show ?case by (simp add: parseVia_step)
qed (simp_all add: parseVia_step)

lemma encodeAddrs_Cons:
  "encodeAddrs (a # as) = encode a (CRH a) (as = []) @ encodeAddrs as"
  by (cases as) simp_all

lemma length_encodeAddrs [simp]: "length (encodeAddrs as) = 7 * length as"
  by (induction as rule: encodeAddrs.induct) simp_all

section \<open>Control bytes\<close>

lemma control_I8:
  fixes nr ns :: u8 and pf :: bool
  assumes "nr < 8" "ns < 8"
  defines "c \<equiv> shl nr 5 OR shl (boolBit pf) 4 OR shl ns 1"
  shows "c AND 0x01 = 0" "shr c 1 AND 0x07 = ns" "c AND 0x10 \<noteq> 0 \<longleftrightarrow> pf" "shr c 5 AND 0x07 = nr"
proof -
  have b: "bit c n \<longleftrightarrow> 5 \<le> n \<and> n < 8 \<and> bit nr (n - 5) \<or> n = 4 \<and> pf \<or> 1 \<le> n \<and> n < 8 \<and> bit ns (n - 1)" for n
    by (auto simp: c_def bit_or_iff bit_shl)
  note small = bits_below_8 [OF assms(1)] bits_below_8 [OF assms(2)]
  show "shr c 1 AND 0x07 = ns"
    by (rule bit_word_eqI) (use small in \<open>auto simp: and_low_mask bit_take_bit_iff bit_shr b dest: small\<close>)
  show "shr c 5 AND 0x07 = nr"
    by (rule bit_word_eqI) (use small in \<open>auto simp: and_low_mask bit_take_bit_iff bit_shr b dest: small\<close>)
  show "c AND 0x10 \<noteq> 0 \<longleftrightarrow> pf"
    using small by (auto simp: and_bit_nonzero b dest: small)
  show "c AND 0x01 = 0"
    using and_bit_nonzero(1) [of c] b [of 0] by auto
qed

lemma control_ext2:
  fixes nr :: u8 and pf :: bool
  assumes "nr < 128"
  defines "c \<equiv> shl nr 1 OR boolBit pf"
  shows "c AND 0x01 \<noteq> 0 \<longleftrightarrow> pf" "shr c 1 AND 0x7F = nr"
proof -
  have b: "bit c n \<longleftrightarrow> 1 \<le> n \<and> n < 8 \<and> bit nr (n - 1) \<or> n = 0 \<and> pf" for n
    by (auto simp: c_def bit_or_iff bit_shl)
  note small = bits_below_128 [OF assms(1)]
  show "c AND 0x01 \<noteq> 0 \<longleftrightarrow> pf"
    by (auto simp: and_bit_nonzero b)
  show "shr c 1 AND 0x7F = nr"
    by (rule bit_word_eqI) (use small in \<open>auto simp: and_low_mask bit_take_bit_iff bit_shr b dest: small\<close>)
qed

lemma control_extI:
  fixes ns :: u8
  assumes "ns < 128"
  shows "shl ns 1 AND 0x01 = 0" "shr (shl ns 1) 1 AND 0x7F = ns"
  using control_ext2 [OF assms, of False] and_bit_nonzero(1) [of "shl ns 1"] by (auto simp: bit_shl)

lemma control_S8:
  fixes nr s :: u8 and pf :: bool
  assumes "nr < 8" "s < 4"
  defines "c \<equiv> shl nr 5 OR shl (boolBit pf) 4 OR shl s 2 OR 0x01"
  shows "c AND 0x01 \<noteq> 0" "c AND 0x03 = 0x01" "shr c 2 AND 0x03 = s"
    "c AND 0x10 \<noteq> 0 \<longleftrightarrow> pf" "shr c 5 AND 0x07 = nr"
proof -
  have b: "bit c n \<longleftrightarrow> 5 \<le> n \<and> n < 8 \<and> bit nr (n - 5) \<or> n = 4 \<and> pf \<or> 2 \<le> n \<and> n < 8 \<and> bit s (n - 2) \<or> n = 0" for n
    by (auto simp: c_def bit_or_iff bit_shl bit_1_iff)
  have small: "bit nr n \<Longrightarrow> n < 3" "bit s n \<Longrightarrow> n < 2" for n
    using bits_below_8 [OF assms(1)] bit_small [of s 2] assms(2) by (auto simp: word_less_nat_alt)
  show "c AND 0x01 \<noteq> 0" by (auto simp: and_bit_nonzero b)
  show "c AND 0x03 = 0x01"
    by (rule bit_word_eqI) (use small in \<open>auto simp: and_low_mask bit_take_bit_iff bit_1_iff b dest: small\<close>)
  show "shr c 2 AND 0x03 = s"
    by (rule bit_word_eqI) (use small in \<open>auto simp: and_low_mask bit_take_bit_iff bit_shr b dest: small\<close>)
  show "c AND 0x10 \<noteq> 0 \<longleftrightarrow> pf"
    by (auto simp: and_bit_nonzero b dest: small)
  show "shr c 5 AND 0x07 = nr"
    by (rule bit_word_eqI) (use small in \<open>auto simp: and_low_mask bit_take_bit_iff bit_shr b dest: small\<close>)
qed


section \<open>The decoder inverts the encoder\<close>

definition frame0 :: "address \<Rightarrow> address \<Rightarrow> address list \<Rightarrow> int \<Rightarrow> frame" where
  "frame0 dst src via mdl =
     \<lparr>Dst = dst, Src = src, Via = via, Type = UnknownType, NR = 0, NS = 0, PF = False,
      Modulo = word_of_int mdl, Command = (CRH dst \<or> \<not> CRH src), PID = 0, Info = []\<rparr>"

definition parseControl :: "int \<Rightarrow> frame \<Rightarrow> byte \<Rightarrow> bytes \<Rightarrow> frame_error + frame" where
  "parseControl mdl f ctl after =
     (if ctl AND 0x01 = 0 then parseI mdl f ctl after
      else if ctl AND 0x03 = 0x01 then parseS mdl f ctl after
      else parseU f ctl after)"

lemma ParseModulo_addressed:
  assumes "length via \<le> MaxDigipeaters"
  shows "ParseModulo (encodeAddrs (dst # src # via) @ ctl # after) mdl =
    parseControl mdl (frame0 (air dst) (air src) (map air via) mdl) ctl after"
proof -
  let ?d = "encode dst (CRH dst) False"
  let ?s = "encode src (CRH src) (via = [])"
  let ?rest = "encodeAddrs via @ ctl # after"
  let ?raw = "?d @ ?s @ ?rest"
  have raw: "encodeAddrs (dst # src # via) @ ctl # after = ?raw"
    by (cases via) simp_all
  have t: "take 7 ?raw = ?d" "drop 7 ?raw = ?s @ ?rest" "take 7 (?s @ ?rest) = ?s" "drop 14 ?raw = ?rest"
    by simp_all
  have len: "\<not> length ?raw < 15" "\<not> length (?s @ ?rest) < 7" by simp_all
  have via: "(if via = [] then Inr ([], ?rest) else parseVia ?rest []) =
      (Inr (map air via, ctl # after) :: frame_error + address list \<times> bytes)"
    using parseVia_encode [of via "[]" "ctl # after"] assms by simp
  show ?thesis
    unfolding raw ParseModulo_def t
    by (simp only: len if_False t decode_encode_air prod.case via sum.case list.case Let_def
      frame0_def parseControl_def)
qed

lemma sType_sBitsOf: "IsS t \<Longrightarrow> sType (sBitsOf t) = t" "sBitsOf t < 4"
  by (auto simp: sType_def sBitsOf_def IsS_def split: FrameType.split)

lemma uBase_control:
  assumes "IsU t"
  defines "c pf \<equiv> uBase t OR shl (boolBit pf) 4"
  shows "c pf AND 0x01 \<noteq> 0" "c pf AND 0x03 \<noteq> 0x01" "c pf AND 0x10 \<noteq> 0 \<longleftrightarrow> pf"
    "uType (c pf AND NOT 0x10) = t"
  using assms(1) by (cases pf; auto simp: IsU_def c_def uBase_def uType_def shl_def)+

lemma FrameType_cases: "t = UnknownType \<or> IsI t \<or> IsS t \<or> IsU t"
  by (cases t) (simp_all add: IsI_def IsS_def IsU_def)

lemma IsS_not: "IsS t \<Longrightarrow> t \<noteq> I \<and> t \<noteq> UI \<and> t \<noteq> XID \<and> t \<noteq> UnknownType \<and> \<not> IsI t"
  and IsU_not: "IsU t \<Longrightarrow> t \<noteq> I \<and> \<not> IsI t \<and> \<not> IsS t \<and> t \<noteq> UnknownType"
  by (auto simp: IsS_def IsI_def IsU_def)

definition bodyBytes :: "frame \<Rightarrow> bytes" where
  "bodyBytes f = (if Type f = I \<or> Type f = UI then PID f # Info f else if Type f = XID then Info f else [])"

lemma Bytes_alt: "Bytes f = encodeAddrs (frameAddrs f) @ controlBytes f @ bodyBytes f"
  by (auto simp: Bytes_def bodyBytes_def)

text \<open>The frame a receiver reads from \<open>Bytes f\<close>.\<close>

definition onAir :: "frame \<Rightarrow> frame" where
  "onAir f =
     f\<lparr>Dst := air ((Dst f)\<lparr>CRH := Command f\<rparr>), Src := air ((Src f)\<lparr>CRH := \<not> Command f\<rparr>),
       Via := map air (Via f)\<rparr>"

lemma onAir_fields [simp]:
  "Type (onAir f) = Type f" "NR (onAir f) = NR f" "NS (onAir f) = NS f" "PF (onAir f) = PF f"
  "Modulo (onAir f) = Modulo f" "Command (onAir f) = Command f" "PID (onAir f) = PID f"
  "Info (onAir f) = Info f"
  by (simp_all add: onAir_def)

lemma onAir_id: "wf_frame f \<Longrightarrow> onAir f = f"
  by (cases f) (auto simp: onAir_def wf_frame_def air_id map_air_id wf_addr_def)

definition head0 :: "frame \<Rightarrow> frame" where
  "head0 f = frame0 (Dst (onAir f)) (Src (onAir f)) (Via (onAir f)) (uint (Modulo f))"

lemma parse_control_I:
  assumes "wf_fields f" "IsI (Type f)" "controlBytes f @ bodyBytes f = ctl # after"
  shows "parseControl (uint (Modulo f)) (head0 f) ctl after = Inr (onAir f)"
proof -
  have eq: "(head0 f)\<lparr>Type := I, NS := NS f, PF := PF f, NR := NR f, PID := PID f, Info := Info f\<rparr> = onAir f"
    using assms(1,2) by (cases f) (auto simp: head0_def onAir_def frame0_def wf_fields_def IsI_def)
  show ?thesis
  proof (cases "Modulo f = 128")
    case True
    with assms have "NS f < 128" "NR f < 128" by (auto simp: wf_fields_def)
    with True assms eq show ?thesis
      by (auto simp: parseControl_def parseI_def controlBytes_def bodyBytes_def IsI_def
        control_extI control_ext2 control_extI [unfolded One_nat_def] control_ext2 [unfolded One_nat_def])
  next
    case False
    with assms have m: "Modulo f = 8" and "NS f < 8" "NR f < 8" by (auto simp: wf_fields_def)
    with assms eq show ?thesis
      by (auto simp: parseControl_def parseI_def controlBytes_def bodyBytes_def IsI_def
        control_I8 control_I8 [unfolded One_nat_def])
  qed
qed

lemma control_S128:
  fixes s :: u8
  assumes "s < 4"
  shows "(shl s 2 OR 0x01) AND 0x01 \<noteq> 0" "(shl s 2 OR 0x01) AND 0x03 = 0x01"
    "shr (shl s 2 OR 0x01) 2 AND 0x03 = s"
  using control_S8 [of 0 s False] assms by (auto simp: shl_def)

lemma parse_control_S:
  assumes "wf_fields f" "IsS (Type f)" "controlBytes f @ bodyBytes f = ctl # after"
  shows "parseControl (uint (Modulo f)) (head0 f) ctl after = Inr (onAir f)"
proof -
  have eq: "(head0 f)\<lparr>Type := Type f, PF := PF f, NR := NR f\<rparr> = onAir f"
    using assms(1) IsS_not [OF assms(2)]
    by (cases f) (auto simp: head0_def onAir_def frame0_def wf_fields_def carriesInfo_def)
  have no: "\<not> IsI (Type f)" "bodyBytes f = []"
    using IsS_not [OF assms(2)] by (simp_all add: bodyBytes_def)
  show ?thesis
  proof (cases "Modulo f = 128")
    case True
    with assms no have nr: "NR f < 128" by (auto simp: wf_fields_def)
    from True assms no have "ctl = shl (sBitsOf (Type f)) 2 OR 0x01" "after = [shl (NR f) 1 OR boolBit (PF f)]"
      by (simp_all add: controlBytes_def)
    with True assms(2) nr show ?thesis
      by (simp add: parseControl_def parseS_def control_S128 sType_sBitsOf
        control_ext2 control_ext2 [unfolded One_nat_def] eq)
  next
    case False
    with assms no have m: "Modulo f = 8" and nr: "NR f < 8" by (auto simp: wf_fields_def)
    with assms no have "ctl = shl (NR f) 5 OR shl (boolBit (PF f)) 4 OR shl (sBitsOf (Type f)) 2 OR 0x01"
      by (simp add: controlBytes_def)
    with m assms(2) show ?thesis
      by (simp add: parseControl_def parseS_def control_S8 [OF nr sType_sBitsOf(2)] sType_sBitsOf eq)
  qed
qed

lemma parse_control_U:
  assumes "wf_fields f" "IsU (Type f)" "controlBytes f @ bodyBytes f = ctl # after"
  shows "parseControl (uint (Modulo f)) (head0 f) ctl after = Inr (onAir f)"
proof -
  have eq: "(head0 f)\<lparr>Type := Type f, PF := PF f, PID := PID f, Info := Info f\<rparr> = onAir f"
    "Type f \<noteq> UI \<Longrightarrow> (head0 f)\<lparr>Type := Type f, PF := PF f, Info := Info f\<rparr> = onAir f"
    "Type f \<noteq> UI \<Longrightarrow> Type f \<noteq> XID \<Longrightarrow> (head0 f)\<lparr>Type := Type f, PF := PF f\<rparr> = onAir f"
    using assms(1) IsU_not [OF assms(2)]
    by (cases f; auto simp: head0_def onAir_def frame0_def wf_fields_def carriesInfo_def)+
  have no: "\<not> IsI (Type f)" "\<not> IsS (Type f)" "Type f \<noteq> I"
    using IsU_not [OF assms(2)] by simp_all
  then have "ctl = uBase (Type f) OR shl (boolBit (PF f)) 4" "after = bodyBytes f"
    using assms(3) by (simp_all add: controlBytes_def)
  moreover have "uType ((uBase (Type f) OR shl (boolBit (PF f)) 4) AND - 17) = Type f"
    using uBase_control(4) [OF assms(2), of "PF f"] by simp
  ultimately show ?thesis
    using no(3) eq
    by (auto simp: parseControl_def parseU_def uBase_control [OF assms(2)] Let_def bodyBytes_def)
qed

lemma ParseModulo_Bytes_onAir:
  assumes "wf_fields f"
  shows "ParseModulo (Bytes f) (uint (Modulo f)) = Inr (onAir f)"
proof -
  obtain ctl after where ca: "controlBytes f @ bodyBytes f = ctl # after"
    by (cases "controlBytes f") (auto simp: controlBytes_def split: if_splits)
  have len: "length (Via f) \<le> MaxDigipeaters" and ty: "Type f \<noteq> UnknownType"
    using assms by (auto simp: wf_fields_def)
  have "ParseModulo (Bytes f) (uint (Modulo f)) = parseControl (uint (Modulo f)) (head0 f) ctl after"
    using ParseModulo_addressed [OF len, of "(Dst f)\<lparr>CRH := Command f\<rparr>" "(Src f)\<lparr>CRH := \<not> Command f\<rparr>"]
    by (simp add: Bytes_alt frameAddrs_def ca head0_def onAir_def)
  then show ?thesis
    using ty FrameType_cases [of "Type f"]
      parse_control_I [OF assms _ ca] parse_control_S [OF assms _ ca] parse_control_U [OF assms _ ca]
    by auto
qed

lemma ParseModulo_Bytes: "wf_frame f \<Longrightarrow> ParseModulo (Bytes f) (uint (Modulo f)) = Inr f"
  by (simp add: ParseModulo_Bytes_onAir onAir_id wf_frame_def onAir_id [unfolded wf_frame_def])

section \<open>What the decoder returns\<close>

lemma and_mask_bounds: "(x :: u8) AND 0x07 < 8" "x AND 0x7F < 128"
  using take_bit_less_u8 [of 3 x] take_bit_less_u8 [of 7 x]
  by (simp_all add: and_low_mask word_less_nat_alt)

lemma parseVia_wf:
  "parseVia rest via = Inr (v, r) \<Longrightarrow> list_all wf_addr via \<Longrightarrow> length via \<le> MaxDigipeaters \<Longrightarrow>
   list_all wf_addr v \<and> length v \<le> MaxDigipeaters"
proof (induction rest via rule: parseVia.induct)
  case (1 rest via)
  obtain a ext where d: "decodeAddress (take 7 rest) = (a, ext)" by fastforce
  then have "wf_addr a" using decodeAddress_wf [of "take 7 rest"] by simp
  moreover have "length via < MaxDigipeaters"
    using "1.prems" by (subst (asm) parseVia.simps) (auto split: if_splits)
  ultimately show ?case
    using "1.prems" d
    by (subst (asm) parseVia.simps) (auto split: if_splits dest: "1.IH" [OF _ _ d [symmetric]])
qed

text \<open>The frame with its two C/R bits set the way \<open>Bytes\<close> writes them.\<close>

definition normalizeCR :: "frame \<Rightarrow> frame" where
  "normalizeCR f =
     f\<lparr>Dst := (Dst f)\<lparr>CRH := Command f\<rparr>, Src := (Src f)\<lparr>CRH := \<not> Command f\<rparr>\<rparr>"

lemma Bytes_normalizeCR: "Bytes (normalizeCR f) = Bytes f"
  by (simp add: Bytes_def normalizeCR_def frameAddrs_def controlBytes_def)

definition parsed_ok :: "frame \<Rightarrow> bool" where
  "parsed_ok f \<longleftrightarrow>
     (Modulo f = 8 \<or> Modulo f = 128)
     \<and> (if IsI (Type f) then NS f < Modulo f else NS f = 0)
     \<and> (if IsI (Type f) \<or> IsS (Type f) then NR f < Modulo f else NR f = 0)
     \<and> (Type f = I \<or> Type f = UI \<or> PID f = 0)
     \<and> (carriesInfo (Type f) \<or> Info f = [])"

lemma sType_IsS: "IsS (sType s)" "\<not> IsI (sType s)" "sType s \<noteq> I" "sType s \<noteq> UI"
  by (simp_all add: sType_def IsS_def IsI_def)

lemma uType_not: "\<not> IsI (uType b)" "\<not> IsS (uType b)"
  by (simp_all add: uType_def IsS_def IsI_def)

lemma parseControl_ok:
  assumes "parseControl m (frame0 d s v m) ctl after = Inr f" "m = 8 \<or> m = 128"
  shows "parsed_ok f \<and> Dst f = d \<and> Src f = s \<and> Via f = v \<and> Command f = (CRH d \<or> \<not> CRH s)"
proof -
  consider "parseI m (frame0 d s v m) ctl after = Inr f" | "parseS m (frame0 d s v m) ctl after = Inr f"
    | "parseU (frame0 d s v m) ctl after = Inr f"
    using assms(1) by (auto simp: parseControl_def split: if_splits)
  then show ?thesis
  proof cases
    case 1
    then show ?thesis
      using assms(2)
      by (auto simp: parseI_def frame0_def Let_def parsed_ok_def IsI_def IsS_def carriesInfo_def
        and_mask_bounds split: if_splits list.splits)
  next
    case 2
    then show ?thesis
      using assms(2)
      by (auto simp: parseS_def frame0_def Let_def parsed_ok_def sType_IsS carriesInfo_def
        and_mask_bounds split: if_splits list.splits)
  next
    case 3
    then show ?thesis
      using assms(2)
      by (auto simp: parseU_def frame0_def Let_def parsed_ok_def uType_not carriesInfo_def IsI_def IsS_def
        split: if_splits list.splits)
  qed
qed

lemma ParseModulo_shape:
  assumes "ParseModulo raw m = Inr f"
  obtains d s v ctl after where "wf_addr d" "wf_addr s" "list_all wf_addr v" "length v \<le> MaxDigipeaters"
    "parseControl m (frame0 d s v m) ctl after = Inr f" "15 \<le> length raw"
proof -
  obtain d de where d: "decodeAddress (take 7 raw) = (d, de)" by fastforce
  obtain s se where s: "decodeAddress (take 7 (drop 7 raw)) = (s, se)" by fastforce
  have wf: "wf_addr d" "wf_addr s"
    using decodeAddress_wf [of "take 7 raw"] decodeAddress_wf [of "take 7 (drop 7 raw)"] d s by simp_all
  obtain v r where vr: "(if se then Inr ([], drop 14 raw) else parseVia (drop 14 raw) []) = Inr (v, r)"
    and r: "r \<noteq> []"
    and res: "parseControl m (frame0 d s v m) (hd r) (List.tl r) = Inr f" and len: "15 \<le> length raw"
    using assms d s
    by (auto simp: ParseModulo_def frame0_def parseControl_def Let_def split: if_splits sum.splits list.splits prod.splits)
  have "list_all wf_addr v \<and> length v \<le> MaxDigipeaters"
    using vr parseVia_wf [of "drop 14 raw" "[]" v r] by (auto split: if_splits)
  with wf res len show thesis by (blast intro: that)
qed

text \<open>The addresses do not depend on the modulo the frame is decoded at.\<close>

lemma ParseModulo_addrs:
  assumes "ParseModulo raw m = Inr f"
  shows "Dst f = fst (decodeAddress (take 7 raw)) \<and> Src f = fst (decodeAddress (take 7 (drop 7 raw)))"
proof -
  obtain d de where d: "decodeAddress (take 7 raw) = (d, de)" by fastforce
  obtain s se where s: "decodeAddress (take 7 (drop 7 raw)) = (s, se)" by fastforce
  obtain v ctl after where p: "parseControl m (frame0 d s v m) ctl after = Inr f"
    using assms d s
    by (auto simp: ParseModulo_def frame0_def parseControl_def Let_def split: if_splits sum.splits list.splits prod.splits)
  then have "Dst f = d \<and> Src f = s"
    by (auto simp: parseControl_def parseI_def parseS_def parseU_def frame0_def Let_def split: if_splits list.splits)
  with d s show ?thesis by simp
qed

lemma ParseModulo_wf:
  assumes "ParseModulo raw m = Inr f" "m = 8 \<or> m = 128" "Type f \<noteq> UnknownType"
  shows "wf_frame (normalizeCR f) \<and> Modulo f = word_of_int m"
proof -
  obtain d s v ctl after where wf: "wf_addr d" "wf_addr s" "list_all wf_addr v" "length v \<le> MaxDigipeaters"
    and p: "parseControl m (frame0 d s v m) ctl after = Inr f"
    using assms(1) by (rule ParseModulo_shape)
  have m: "Modulo f = word_of_int m"
    using p by (auto simp: parseControl_def parseI_def parseS_def parseU_def frame0_def Let_def
      split: if_splits list.splits)
  have ok: "parsed_ok f" and eqs: "Dst f = d" "Src f = s" "Via f = v"
    using parseControl_ok [OF p assms(2)] by simp_all
  have "wf_frame (normalizeCR f)"
    using ok wf assms(3)
    unfolding wf_frame_def wf_fields_def normalizeCR_def parsed_ok_def wf_addr_def by (simp add: eqs)
  with m show ?thesis by simp
qed

theorem ParseModulo_reencode:
  assumes "ParseModulo raw m = Inr f" "m = 8 \<or> m = 128" "Type f \<noteq> UnknownType"
  shows "ParseModulo (Bytes f) m = Inr (normalizeCR f)"
proof -
  have wf: "wf_frame (normalizeCR f)" and m: "Modulo f = word_of_int m"
    using ParseModulo_wf [OF assms] by simp_all
  then have "uint (Modulo (normalizeCR f)) = m" using assms(2) by (auto simp: normalizeCR_def)
  then show ?thesis
    using ParseModulo_Bytes [OF wf] by (simp add: Bytes_normalizeCR)
qed

section \<open>The frame codec at both moduli\<close>

interpretation ax25_mod8: wire_codec Bytes Parse "\<lambda>f. wf_frame f \<and> Modulo f = 8"
proof unfold_locales
  fix f assume "wf_frame f \<and> Modulo f = 8"
  then show "Parse (Bytes f) = Inr f" using ParseModulo_Bytes [of f] by (simp add: Parse_def)
qed

interpretation ax25_mod128: wire_codec Bytes "\<lambda>raw. ParseModulo raw 128" "\<lambda>f. wf_frame f \<and> Modulo f = 128"
proof unfold_locales
  fix f assume "wf_frame f \<and> Modulo f = 128"
  then show "ParseModulo (Bytes f) 128 = Inr f" using ParseModulo_Bytes [of f] by simp
qed

end
