(* ===== verification/Xid.thy ===== *)
theory Xid
  imports Ax25_Frame
begin

text \<open>
  AX.25 2.2 parameter negotiation (\<^verbatim>\<open>src/ax25/xid.go\<close>): the XID information field, a
  group of type-length-value parameters, and its decoder.  Go's \<open>int\<close> values are \<^typ>\<open>int\<close>:
  the only one that grows, the I-field length in bits, is cut to 16 bits by the two
  byte conversions, which the model keeps.
\<close>

section \<open>Model\<close>

datatype SREJMode = SREJNone | SREJSingle | SREJMulti

fun srej_rank :: "SREJMode \<Rightarrow> nat" where
  "srej_rank SREJNone = 0"
| "srej_rank SREJSingle = 1"
| "srej_rank SREJMulti = 2"

instantiation SREJMode :: linorder
begin

definition less_eq_SREJMode :: "SREJMode \<Rightarrow> SREJMode \<Rightarrow> bool" where
  "a \<le> b \<longleftrightarrow> srej_rank a \<le> srej_rank b"

definition less_SREJMode :: "SREJMode \<Rightarrow> SREJMode \<Rightarrow> bool" where
  "a < b \<longleftrightarrow> srej_rank a < srej_rank b"

instance
proof
  fix a b :: SREJMode
  show "a \<le> b \<Longrightarrow> b \<le> a \<Longrightarrow> a = b"
    by (cases a; cases b) (simp_all add: less_eq_SREJMode_def)
qed (auto simp: less_eq_SREJMode_def less_SREJMode_def)

end

record XIDParams =
  FullDuplex :: bool
  xidSREJ :: SREJMode
  xidModulo :: int
  IFieldLenRxBytes :: int
  WindowRx :: int

datatype xid_error = BadXIDHeader | XIDGroupOverflow | XIDParamOverflow

definition classesBits :: "XIDParams \<Rightarrow> int" where
  "classesBits p = 0x0100 OR (if FullDuplex p then 0x4000 else 0x2000)"

definition hdlcBits :: "XIDParams \<Rightarrow> bool \<Rightarrow> int" where
  "hdlcBits p command =
     (0x800000 OR 0x002000 OR 0x008000 OR 0x000002)
     OR (if command
         then (case xidSREJ p of
                 SREJSingle \<Rightarrow> 0x020000 OR 0x040000
               | SREJMulti \<Rightarrow> 0x020000 OR 0x040000 OR 0x000020
               | SREJNone \<Rightarrow> 0x020000)
         else (case xidSREJ p of
                 SREJSingle \<Rightarrow> 0x040000
               | SREJMulti \<Rightarrow> 0x000020
               | SREJNone \<Rightarrow> 0x020000))
     OR (if xidModulo p = 128 then 0x000800 else 0x000400)"

definition xidBody :: "XIDParams \<Rightarrow> bool \<Rightarrow> bytes" where
  "xidBody p command =
     [2, 2, byte_at 8 (classesBits p), byte_at 0 (classesBits p)]
     @ [3, 3, byte_at 16 (hdlcBits p command), byte_at 8 (hdlcBits p command), byte_at 0 (hdlcBits p command)]
     @ (if IFieldLenRxBytes p > 0
        then [6, 2, byte_at 8 (IFieldLenRxBytes p * 8), byte_at 0 (IFieldLenRxBytes p * 8)] else [])
     @ (if WindowRx p > 0 then [8, 1, byte_at 0 (WindowRx p)] else [])"

definition Encode :: "XIDParams \<Rightarrow> bool \<Rightarrow> bytes" where
  "Encode p command =
     (let body = xidBody p command
      in [0x82, 0x80, byte_at 8 (int (length body)), byte_at 0 (int (length body))] @ body)"

definition xidParam :: "byte \<Rightarrow> bytes \<Rightarrow> XIDParams \<Rightarrow> XIDParams" where
  "xidParam pi pv p =
     (if pi = 2 then
        (case pv of [a, b] \<Rightarrow> p\<lparr>FullDuplex := (be16 a b AND 0x4000 \<noteq> 0)\<rparr> | _ \<Rightarrow> p)
      else if pi = 3 then
        (case pv of
           [a, b, c] \<Rightarrow>
             (let x = be24 a b c;
                  p1 = (if x AND 0x000800 \<noteq> 0 then p\<lparr>xidModulo := 128\<rparr> else p)
              in p1\<lparr>xidSREJ := (if x AND 0x000020 \<noteq> 0 then SREJMulti
                                else if x AND 0x040000 \<noteq> 0 then SREJSingle else SREJNone)\<rparr>)
         | _ \<Rightarrow> p)
      else if pi = 6 then
        (case pv of [a, b] \<Rightarrow> p\<lparr>IFieldLenRxBytes := be16 a b div 8\<rparr> | _ \<Rightarrow> p)
      else if pi = 8 then
        (case pv of [a] \<Rightarrow> p\<lparr>WindowRx := uint a\<rparr> | _ \<Rightarrow> p)
      else p)"

function parseParams :: "bytes \<Rightarrow> XIDParams \<Rightarrow> xid_error + XIDParams" where
  "parseParams body p =
     (case body of
        pi # pl # vs \<Rightarrow>
          if length vs < unat pl then Inl XIDParamOverflow
          else parseParams (drop (unat pl) vs) (xidParam pi (take (unat pl) vs) p)
      | _ \<Rightarrow> Inr p)"
  by pat_completeness auto
termination
  by (relation "measure (\<lambda>(body, p). length body)") auto

declare parseParams.simps [simp del]

definition xidDefaults :: XIDParams where
  "xidDefaults =
     \<lparr>FullDuplex = False, xidSREJ = SREJNone, xidModulo = 8, IFieldLenRxBytes = 0, WindowRx = 0\<rparr>"

definition ParseXID :: "bytes \<Rightarrow> xid_error + XIDParams" where
  "ParseXID info =
     (case info of
        fi # gi # g1 # g0 # body \<Rightarrow>
          if fi \<noteq> 0x82 \<or> gi \<noteq> 0x80 then Inl BadXIDHeader
          else if be16 g1 g0 > int (length body) then Inl XIDGroupOverflow
          else parseParams (take (nat (be16 g1 g0)) body) xidDefaults
      | _ \<Rightarrow> Inl BadXIDHeader)"

section \<open>The decoder inverts the encoder\<close>

definition wf_xid :: "XIDParams \<Rightarrow> bool" where
  "wf_xid p \<longleftrightarrow> (xidModulo p = 8 \<or> xidModulo p = 128)
     \<and> 0 \<le> IFieldLenRxBytes p \<and> IFieldLenRxBytes p \<le> 8191 \<and> 0 \<le> WindowRx p \<and> WindowRx p \<le> 255"

lemma parseParams_param:
  assumes "unat pl = length pv"
  shows "parseParams (pi # pl # pv @ rest) p = parseParams rest (xidParam pi pv p)"
  using assms by (subst parseParams.simps) simp

lemma parseParams_Nil [simp]: "parseParams [] p = Inr p"
  by (subst parseParams.simps) simp

lemma xid_classes:
  "xidParam 2 [byte_at 8 (classesBits p), byte_at 0 (classesBits p)] q = q\<lparr>FullDuplex := FullDuplex p\<rparr>"
  by (simp add: xidParam_def be16_byte_at) (simp add: classesBits_def)

lemma xid_hdlc:
  assumes "xidModulo p = 8 \<or> xidModulo p = 128" "xidModulo q = 8"
  shows "xidParam 3 [byte_at 16 (hdlcBits p c), byte_at 8 (hdlcBits p c), byte_at 0 (hdlcBits p c)] q =
    q\<lparr>xidModulo := xidModulo p, xidSREJ := xidSREJ p\<rparr>"
  using assms
  by (cases "xidSREJ p"; cases c; cases q) (auto simp: xidParam_def be24_byte_at hdlcBits_def)

lemma xid_ifield:
  assumes "0 \<le> n" "n \<le> 8191"
  shows "xidParam 6 [byte_at 8 (n * 8), byte_at 0 (n * 8)] q = q\<lparr>IFieldLenRxBytes := n\<rparr>"
  using assms by (simp add: xidParam_def be16_byte_at take_bit_int_eq_self)

lemma xid_window:
  assumes "0 \<le> n" "n \<le> 255"
  shows "xidParam 8 [byte_at 0 n] q = q\<lparr>WindowRx := n\<rparr>"
  using assms by (simp add: xidParam_def byte_at_def uint_word_of_int_eq take_bit_int_eq_self)

lemma parseParams_xidBody:
  assumes "wf_xid p"
  shows "parseParams (xidBody p c) xidDefaults = Inr p"
  using assms
    parseParams_param [where pi = 2 and pl = 2 and pv = "[byte_at 8 (classesBits p), byte_at 0 (classesBits p)]"]
    parseParams_param [where pi = 3 and pl = 3
      and pv = "[byte_at 16 (hdlcBits p c), byte_at 8 (hdlcBits p c), byte_at 0 (hdlcBits p c)]"]
    parseParams_param [where pi = 6 and pl = 2
      and pv = "[byte_at 8 (IFieldLenRxBytes p * 8), byte_at 0 (IFieldLenRxBytes p * 8)]"]
    parseParams_param [where pi = 8 and pl = 1 and pv = "[byte_at 0 (WindowRx p)]"]
  by (cases p) (auto simp: wf_xid_def xidBody_def xidDefaults_def xid_classes xid_hdlc xid_ifield xid_window)

lemma length_xidBody: "length (xidBody p c) \<le> 16"
  by (simp add: xidBody_def)

lemma ParseXID_Encode:
  assumes "wf_xid p"
  shows "ParseXID (Encode p c) = Inr p"
proof -
  let ?n = "int (length (xidBody p c))"
  have "be16 (byte_at 8 ?n) (byte_at 0 ?n) = ?n"
    using length_xidBody [of p c] by (simp add: be16_byte_at take_bit_int_eq_self)
  then show ?thesis
    using assms by (simp add: ParseXID_def Encode_def Let_def parseParams_xidBody)
qed

interpretation xid_command: wire_codec "\<lambda>p. Encode p True" ParseXID wf_xid
  by unfold_locales (rule ParseXID_Encode)

interpretation xid_response: wire_codec "\<lambda>p. Encode p False" ParseXID wf_xid
  by unfold_locales (rule ParseXID_Encode)

end
