(* ===== verification/Props_Codec.thy ===== *)
theory Props_Codec
  imports Xid
begin

text \<open>
  The properties of the AX.25 wire formats: addresses, frames and XID parameters.  Each is stated
  over the model's own encoder and decoder and rests on the codec interpretations.
\<close>

definition sampleAddr :: address where
  "sampleAddr = \<lparr>Call = ''KU0HN'', SSID = 10, CRH = True\<rparr>"

definition sampleFrame :: frame where
  "sampleFrame =
     \<lparr>Dst = \<lparr>Call = ''KU0HN'', SSID = 10, CRH = True\<rparr>, Src = \<lparr>Call = ''N0CALL'', SSID = 0, CRH = False\<rparr>,
      Via = [\<lparr>Call = ''WIDE1'', SSID = 1, CRH = True\<rparr>], Type = I, NR = 3, NS = 100, PF = True,
      Modulo = 128, Command = True, PID = 0xF0, Info = [1, 2, 3]\<rparr>"

lemma sampleFrame_wf: "wf_frame sampleFrame"
  by (simp add: sampleFrame_def wf_frame_def wf_fields_def wf_addr_def printable_def MaxDigipeaters_def
    IsI_def IsS_def carriesInfo_def)

lemma sampleFrame_type: "Type sampleFrame \<noteq> UnknownType" "Modulo sampleFrame = 128"
  by (simp_all add: sampleFrame_def)

text \<open>
  C23.  Frame codec round trip: \<open>ParseModulo\<close> at a frame's own modulo reads back exactly the frame
  that \<open>Bytes\<close> wrote, for every well-formed frame of either modulo: addresses, repeaters with their
  H bits, control field, PID and information field.
\<close>

theorem frame_roundtrip:
  assumes "wf_frame f"
  shows "ParseModulo (Bytes f) (uint (Modulo f)) = Inr f"
  using assms by (rule ParseModulo_Bytes)

theorem frame_roundtrip_witness:
  "wf_frame sampleFrame \<and> ParseModulo (Bytes sampleFrame) 128 = Inr sampleFrame"
  using sampleFrame_wf frame_roundtrip [OF sampleFrame_wf] by (simp add: sampleFrame_type)

text \<open>
  C24.  Whatever bytes arrive, a frame that \<open>ParseModulo\<close> accepts and whose type it knows has at most
  eight repeaters, decoded addresses that the encoder represents exactly and sequence numbers below
  the modulo; encoding it and decoding it again returns the same frame, with its C/R bits
  normalised to \<open>Command\<close>.
\<close>

theorem parsed_frame_reencodes:
  assumes "ParseModulo raw m = Inr f" "m = 8 \<or> m = 128" "Type f \<noteq> UnknownType"
  shows "wf_frame (normalizeCR f) \<and> ParseModulo (Bytes f) m = Inr (normalizeCR f)"
  using ParseModulo_wf [OF assms] ParseModulo_reencode [OF assms] by simp

theorem parsed_frame_reencodes_witness:
  "wf_frame (normalizeCR sampleFrame) \<and> ParseModulo (Bytes sampleFrame) 128 = Inr (normalizeCR sampleFrame)"
  using parsed_frame_reencodes [of "Bytes sampleFrame" 128 sampleFrame] ParseModulo_Bytes [OF sampleFrame_wf]
  by (simp add: sampleFrame_type sampleFrame_wf)

text \<open>
  Parsing the printed form of a canonical address (upper-case ASCII call of one to six
  characters, SSID up to 15) returns the address, without its C/R bit, whatever the Unicode
  tables are.
\<close>

theorem address_print_parse:
  assumes "canonical a"
  shows "ParseAddress u (addr_String a) = Inr (a\<lparr>CRH := False\<rparr>)"
  using assms by (rule ParseAddress_String)

theorem address_print_parse_witness:
  "canonical sampleAddr \<and>
   ParseAddress \<lparr>uToUpper = id, uTrimSpace = id\<rparr> (addr_String sampleAddr) = Inr (sampleAddr\<lparr>CRH := False\<rparr>)"
proof -
  have c: "canonical sampleAddr" by (simp add: canonical_def sampleAddr_def upper_char_def)
  show ?thesis using c address_print_parse [OF c] by simp
qed

text \<open>
  XID negotiation fields round trip, for commands and for responses: duplex, reject mode,
  modulo, information-field length (up to 8191 bytes, the largest that fits 16 bits of bits) and
  window.
\<close>

theorem xid_roundtrip:
  assumes "wf_xid p"
  shows "ParseXID (Encode p command) = Inr p"
  using xid_command.dec_enc [OF assms] xid_response.dec_enc [OF assms] by (cases command) simp_all

theorem xid_roundtrip_witness:
  "ParseXID (Encode \<lparr>FullDuplex = False, xidSREJ = SREJSingle, xidModulo = 128, IFieldLenRxBytes = 256, WindowRx = 7\<rparr> True)
   = Inr \<lparr>FullDuplex = False, xidSREJ = SREJSingle, xidModulo = 128, IFieldLenRxBytes = 256, WindowRx = 7\<rparr>"
  using xid_roundtrip [of "\<lparr>FullDuplex = False, xidSREJ = SREJSingle, xidModulo = 128, IFieldLenRxBytes = 256, WindowRx = 7\<rparr>" True]
  by (simp add: wf_xid_def)

end
