(* ===== verification/Engine.thy ===== *)
theory Engine
  imports Prelude
begin

text \<open>
  The serialised event loop (\<^verbatim>\<open>src/internal/engine/engine.go\<close>): a FIFO queue of posted
  functions, one-shot timers that post a function when they fire, and the loop that runs the
  queue in batches.  Posted functions are values of a type \<open>'fn\<close> (the program's closures, one
  constructor per closure).  Times and durations are nanoseconds.

  The first part is the engine as its callers on the loop see it (\<open>Do\<close>, \<open>After\<close>, \<open>Cancel\<close>
  and the firing of a timer).  The second part is the interleaving of the loop with goroutines
  that post concurrently, as a step relation.
\<close>

section \<open>The engine seen from the loop\<close>

record 'fn timer =
  tmId :: nat
  tmDue :: int
  tmFn :: 'fn

record 'fn engine =
  now :: int
  nextTimer :: nat
  armed :: "'fn timer list"
  firing :: "'fn list"
  queue :: "'fn list"

definition newEngine :: "int \<Rightarrow> 'fn engine" where
  "newEngine t0 = \<lparr>now = t0, nextTimer = 0, armed = [], firing = [], queue = []\<rparr>"

definition Do :: "'fn engine \<Rightarrow> 'fn \<Rightarrow> 'fn engine" where
  "Do e fn = e\<lparr>queue := queue e @ [fn]\<rparr>"

text \<open>The closure may mention the timer that runs it, so it is built from the new timer's id.\<close>

definition After :: "'fn engine \<Rightarrow> int \<Rightarrow> (nat \<Rightarrow> 'fn) \<Rightarrow> nat \<times> 'fn engine" where
  "After e d mk =
     (let tid = nextTimer e
      in (tid, e\<lparr>nextTimer := Suc tid,
                 armed := armed e @ [\<lparr>tmId = tid, tmDue = now e + d, tmFn = mk tid\<rparr>]\<rparr>))"

text \<open>
  A due timer's callback runs on its own goroutine: it tests the cancelled flag under the timer's
  mutex (\<open>Fire\<close>) and posts its function afterwards (\<open>Post\<close>).  Between the two the function is in
  \<open>firing\<close>, where \<open>Cancel\<close> no longer reaches it.  The Go runtime decides when, at or after the due time.
\<close>

definition Cancel :: "'fn engine \<Rightarrow> nat \<Rightarrow> 'fn engine" where
  "Cancel e tid = e\<lparr>armed := filter (\<lambda>tm. tmId tm \<noteq> tid) (armed e)\<rparr>"

definition Fire :: "'fn engine \<Rightarrow> nat \<Rightarrow> 'fn engine" where
  "Fire e tid =
     (case List.find (\<lambda>tm. tmId tm = tid) (armed e) of
        None \<Rightarrow> e
      | Some tm \<Rightarrow>
          if tmDue tm \<le> now e then (Cancel e tid)\<lparr>firing := firing e @ [tmFn tm]\<rparr> else e)"

definition Post :: "'fn engine \<Rightarrow> nat \<Rightarrow> 'fn engine" where
  "Post e i =
     (if i < length (firing e)
      then Do (e\<lparr>firing := take i (firing e) @ drop (Suc i) (firing e)\<rparr>) (firing e ! i) else e)"

definition Tick :: "'fn engine \<Rightarrow> int \<Rightarrow> 'fn engine" where
  "Tick e d = (if 0 \<le> d then e\<lparr>now := now e + d\<rparr> else e)"

lemma After_simps [simp]:
  "fst (After e d mk) = nextTimer e"
  "queue (snd (After e d mk)) = queue e"
  "now (snd (After e d mk)) = now e"
  "nextTimer (snd (After e d mk)) = Suc (nextTimer e)"
  by (simp_all add: After_def Let_def)

lemma Cancel_simps [simp]:
  "queue (Cancel e tid) = queue e" "now (Cancel e tid) = now e" "nextTimer (Cancel e tid) = nextTimer e"
  by (simp_all add: Cancel_def)

lemma Do_simps [simp]:
  "queue (Do e fn) = queue e @ [fn]" "now (Do e fn) = now e" "nextTimer (Do e fn) = nextTimer e"
  "armed (Do e fn) = armed e"
  by (simp_all add: Do_def)

definition armedIds :: "'fn engine \<Rightarrow> nat set" where
  "armedIds e = tmId ` set (armed e)"

text \<open>Timer ids are unique and older than the next one to be given out.\<close>

definition engine_inv :: "'fn engine \<Rightarrow> bool" where
  "engine_inv e \<longleftrightarrow> distinct (map tmId (armed e)) \<and> (\<forall>i\<in>armedIds e. i < nextTimer e)"

lemma armedIds_After [simp]: "armedIds (snd (After e d mk)) = insert (nextTimer e) (armedIds e)"
  by (simp add: After_def armedIds_def Let_def)

lemma armedIds_Cancel [simp]: "armedIds (Cancel e tid) = armedIds e - {tid}"
  by (auto simp: Cancel_def armedIds_def)

lemma engine_inv_newEngine: "engine_inv (newEngine t0)"
  by (simp add: engine_inv_def newEngine_def armedIds_def)

lemma engine_inv_After: "engine_inv e \<Longrightarrow> engine_inv (snd (After e d mk))"
  by (auto simp: engine_inv_def After_def Let_def armedIds_def)

lemma engine_inv_Cancel: "engine_inv e \<Longrightarrow> engine_inv (Cancel e tid)"
  by (auto simp: engine_inv_def Cancel_def armedIds_def distinct_map_filter)

lemma engine_inv_Do: "engine_inv e \<Longrightarrow> engine_inv (Do e fn)"
  by (simp add: engine_inv_def armedIds_def)

lemma Fire_not_armed: "tid \<notin> armedIds e \<Longrightarrow> Fire e tid = e"
  by (auto simp: Fire_def armedIds_def split: option.split dest!: find_SomeD)

lemma Cancel_then_Fire: "Fire (Cancel e tid) tid = Cancel e tid"
  by (rule Fire_not_armed) simp

lemma Fire_early:
  assumes "engine_inv e" "\<And>tm. tm \<in> set (armed e) \<Longrightarrow> tmId tm = tid \<Longrightarrow> now e < tmDue tm"
  shows "Fire e tid = e"
proof (cases "List.find (\<lambda>tm. tmId tm = tid) (armed e)")
  case (Some tm)
  then have "now e < tmDue tm" using assms(2) find_SomeD [OF Some] by blast
  with Some show ?thesis by (simp add: Fire_def)
qed (simp add: Fire_def)

section \<open>The loop and concurrent posters\<close>

text \<open>
  \<open>Run\<close> repeats: take the whole queue as a batch, run the batch in order, leave if \<open>stop\<close> is set,
  wait for the wake signal.  A poster appends under the mutex and then makes a non-blocking send
  on the one-slot \<open>wake\<close> channel; between the two it is counted in \<open>posting\<close>.  \<open>posted\<close> and
  \<open>ran\<close> record the order of posts and of runs.  A posted item is \<open>Stop\<close>'s function or an
  ordinary one, which may itself post (it then counts as a poster).  A panicking function is
  recovered by \<open>runSafely\<close>, so running an item always ends.
\<close>

datatype 'fn item = StopFn | Fn 'fn

datatype 'fn pc = Draining | Running "'fn item list" | Checking | Waiting | Exited

record 'fn loop =
  lqueue :: "'fn item list"
  wake :: bool
  lstop :: bool
  lpc :: "'fn pc"
  posting :: nat
  posted :: "'fn item list"
  ran :: "'fn item list"

definition loop0 :: "'fn loop" where
  "loop0 = \<lparr>lqueue = [], wake = False, lstop = False, lpc = Draining, posting = 0, posted = [], ran = []\<rparr>"

inductive loop_step :: "'fn loop \<Rightarrow> 'fn loop \<Rightarrow> bool" where
  append: "loop_step s (s\<lparr>lqueue := lqueue s @ [x], posting := Suc (posting s), posted := posted s @ [x]\<rparr>)"
| signal: "posting s = Suc n \<Longrightarrow> loop_step s (s\<lparr>wake := True, posting := n\<rparr>)"
| drain: "lpc s = Draining \<Longrightarrow> loop_step s (s\<lparr>lqueue := [], lpc := Running (lqueue s)\<rparr>)"
| run: "lpc s = Running (x # xs) \<Longrightarrow>
    loop_step s (s\<lparr>lpc := Running xs, ran := ran s @ [x], lstop := (lstop s \<or> x = StopFn)\<rparr>)"
| batch_done: "lpc s = Running [] \<Longrightarrow> loop_step s (s\<lparr>lpc := Checking\<rparr>)"
| leave: "lpc s = Checking \<Longrightarrow> lstop s \<Longrightarrow> loop_step s (s\<lparr>lpc := Exited\<rparr>)"
| block: "lpc s = Checking \<Longrightarrow> \<not> lstop s \<Longrightarrow> loop_step s (s\<lparr>lpc := Waiting\<rparr>)"
| awake: "lpc s = Waiting \<Longrightarrow> wake s \<Longrightarrow> loop_step s (s\<lparr>wake := False, lpc := Draining\<rparr>)"

definition loop_reachable :: "'fn loop \<Rightarrow> bool" where
  "loop_reachable s \<longleftrightarrow> loop_step\<^sup>*\<^sup>* loop0 s"

inductive_simps loop_step_simps: "loop_step s t"

fun batch :: "'fn pc \<Rightarrow> 'fn item list" where
  "batch (Running xs) = xs"
| "batch _ = []"

definition loop_inv :: "'fn loop \<Rightarrow> bool" where
  "loop_inv s \<longleftrightarrow>
     posted s = ran s @ batch (lpc s) @ lqueue s
     \<and> (lqueue s \<noteq> [] \<longrightarrow> wake s \<or> posting s > 0 \<or> lpc s = Draining)
     \<and> (lstop s \<longleftrightarrow> StopFn \<in> set (ran s))
     \<and> (lpc s = Exited \<longrightarrow> lstop s) \<and> (lpc s = Waiting \<longrightarrow> \<not> lstop s)"

lemma loop_step_inv: "loop_step s t \<Longrightarrow> loop_inv s \<Longrightarrow> loop_inv t"
  by (induction rule: loop_step.induct) (auto simp: loop_inv_def)

interpretation loop_system: invariant_system "\<lambda>s. s = loop0" loop_step loop_inv
  by unfold_locales (simp add: loop_inv_def loop0_def, rule loop_step_inv)

lemma loop_reachable_inv: "loop_reachable s \<Longrightarrow> loop_inv s"
  unfolding loop_reachable_def by (rule loop_system.reachable_inv) simp

end
