(* ===== verification/Kiss_Framing.thy ===== *)
theory Kiss_Framing
  imports Prelude
begin

text \<open>
  KISS framing (\<^verbatim>\<open>src/kiss/framing.go\<close>): building data and command frames, and the incremental
  decoder that turns a byte stream into frames.
\<close>

section \<open>Building frames\<close>

definition FEND :: byte where "FEND = 0xC0"
definition FESC :: byte where "FESC = 0xDB"
definition TFEND :: byte where "TFEND = 0xDC"
definition TFESC :: byte where "TFESC = 0xDD"

lemmas kiss_bytes = FEND_def FESC_def TFEND_def TFESC_def

fun escapeBytes :: "bytes \<Rightarrow> bytes" where
  "escapeBytes [] = []"
| "escapeBytes (b # bs) =
     (if b = FEND then [FESC, TFEND] else if b = FESC then [FESC, TFESC] else [b]) @ escapeBytes bs"

definition WrapData :: "u8 \<Rightarrow> bytes \<Rightarrow> bytes" where
  "WrapData kissPort ax25Frame = [FEND, shl kissPort 4] @ escapeBytes ax25Frame @ [FEND]"

definition WrapCommand :: "u8 \<Rightarrow> u8 \<Rightarrow> u8 \<Rightarrow> bytes" where
  "WrapCommand kissPort cmd val =
     [FEND, shl kissPort 4 OR cmd]
     @ (if val = FEND then [FESC, TFEND] else if val = FESC then [FESC, TFESC] else [val]) @ [FEND]"

definition WrapCommandBytes :: "u8 \<Rightarrow> u8 \<Rightarrow> bytes \<Rightarrow> bytes" where
  "WrapCommandBytes kissPort cmd val = [FEND, shl kissPort 4 OR cmd] @ escapeBytes val @ [FEND]"

definition ExitFrame :: bytes where
  "ExitFrame = [0xC0, 0xFF, 0xC0]"

section \<open>The decoder\<close>

definition MaxFrameSize :: nat where
  "MaxFrameSize = 8192"

record Decoder =
  buf :: bytes
  inFrame :: bool
  esc :: bool
  DroppedOversize :: "64 word"

definition newDecoder :: Decoder where
  "newDecoder = \<lparr>buf = [], inFrame = False, esc = False, DroppedOversize = 0\<rparr>"

text \<open>Append one data byte under the size cap.\<close>

definition pushByte :: "Decoder \<Rightarrow> byte \<Rightarrow> Decoder" where
  "pushByte d b =
     (if length (buf d) \<ge> MaxFrameSize
      then d\<lparr>buf := [], inFrame := False, esc := False, DroppedOversize := DroppedOversize d + 1\<rparr>
      else d\<lparr>buf := buf d @ [b]\<rparr>)"

text \<open>The body of the loop over the bytes read.\<close>

definition feedByte :: "Decoder \<Rightarrow> byte \<Rightarrow> Decoder \<times> bytes list" where
  "feedByte d b =
     (if \<not> inFrame d then
        (if b = FEND then d\<lparr>inFrame := True, buf := [], esc := False\<rparr> else d, [])
      else if esc d then
        (pushByte (d\<lparr>esc := False\<rparr>) (if b = TFEND then FEND else if b = TFESC then FESC else b), [])
      else if b = FESC then (d\<lparr>esc := True\<rparr>, [])
      else if b = FEND then (d\<lparr>buf := []\<rparr>, if buf d \<noteq> [] then [buf d] else [])
      else (pushByte d b, []))"

fun Feed :: "Decoder \<Rightarrow> bytes \<Rightarrow> Decoder \<times> bytes list" where
  "Feed d [] = (d, [])"
| "Feed d (b # p) =
     (case feedByte d b of (d1, fs1) \<Rightarrow> case Feed d1 p of (d2, fs2) \<Rightarrow> (d2, fs1 @ fs2))"

lemma Feed_append:
  "Feed d (p @ q) = (case Feed d p of (d1, fs1) \<Rightarrow> case Feed d1 q of (d2, fs2) \<Rightarrow> (d2, fs1 @ fs2))"
  by (induction p arbitrary: d) (simp_all split: prod.split)

interpretation kiss_stream: stream_decoder Feed "\<lambda>_. True"
  by unfold_locales (simp_all add: Feed_append)

section \<open>Memory bound\<close>

definition decoder_inv :: "Decoder \<Rightarrow> bool" where
  "decoder_inv d \<longleftrightarrow> length (buf d) \<le> MaxFrameSize"

lemma feedByte_inv:
  assumes "decoder_inv d" "feedByte d b = (d', fs)"
  shows "decoder_inv d' \<and> (\<forall>f\<in>set fs. f \<noteq> [] \<and> length f \<le> MaxFrameSize)"
  using assms by (auto simp: feedByte_def pushByte_def decoder_inv_def split: if_splits)

lemma Feed_inv:
  "decoder_inv d \<Longrightarrow> Feed d p = (d', fs) \<Longrightarrow>
   decoder_inv d' \<and> (\<forall>f\<in>set fs. f \<noteq> [] \<and> length f \<le> MaxFrameSize)"
proof (induction p arbitrary: d d' fs)
  case (Cons b p)
  obtain d1 fs1 where 1: "feedByte d b = (d1, fs1)" by fastforce
  obtain d2 fs2 where 2: "Feed d1 p = (d2, fs2)" by fastforce
  have "decoder_inv d1" "\<forall>f\<in>set fs1. f \<noteq> [] \<and> length f \<le> MaxFrameSize"
    using feedByte_inv [OF Cons.prems(1) 1] by simp_all
  with Cons.IH [OF _ 2] Cons.prems(2) 1 2 show ?case by auto
qed simp

section \<open>Decoding what was built\<close>

text \<open>A decoder between two frames: nothing buffered, no escape pending.\<close>

definition at_boundary :: "Decoder \<Rightarrow> bool" where
  "at_boundary d \<longleftrightarrow> buf d = [] \<and> \<not> esc d"

lemma Feed_escape:
  assumes "inFrame d" "\<not> esc d" "length (buf d) + length xs \<le> MaxFrameSize"
  shows "Feed d (escapeBytes xs) = (d\<lparr>buf := buf d @ xs\<rparr>, [])"
  using assms
proof (induction xs arbitrary: d)
  case (Cons x xs)
  have ne: "TFEND \<noteq> FESC" "TFESC \<noteq> FESC" "TFESC \<noteq> TFEND" "FEND \<noteq> FESC" by (simp_all add: kiss_bytes)
  have "Feed d (escapeBytes (x # xs)) = Feed (d\<lparr>buf := buf d @ [x]\<rparr>) (escapeBytes xs)"
    using Cons.prems ne by (cases d) (auto simp: feedByte_def pushByte_def split: prod.split)
  then show ?case using Cons.IH [of "d\<lparr>buf := buf d @ [x]\<rparr>"] Cons.prems by simp
qed simp

lemma Feed_frame:
  assumes "at_boundary d" "cmd \<noteq> FEND" "cmd \<noteq> FESC" "length data < MaxFrameSize"
  shows "Feed d ([FEND, cmd] @ escapeBytes data @ [FEND]) = (d\<lparr>inFrame := True\<rparr>, [cmd # data])"
proof -
  let ?d = "d\<lparr>inFrame := True, buf := [cmd]\<rparr>"
  have "Feed ?d (escapeBytes data @ [FEND]) = (d\<lparr>inFrame := True\<rparr>, [cmd # data])"
    using Feed_escape [of ?d data] assms by (auto simp: Feed_append feedByte_def at_boundary_def kiss_bytes)
  moreover have "Feed d ([FEND, cmd] @ q) = Feed ?d q" for q
    using assms by (cases d) (auto simp: feedByte_def pushByte_def at_boundary_def MaxFrameSize_def kiss_bytes split: prod.split)
  ultimately show ?thesis by simp
qed

lemma at_boundary_inFrame [simp]: "at_boundary (d\<lparr>inFrame := b\<rparr>) = at_boundary d"
  by (simp add: at_boundary_def)

lemma data_cmd_byte: "shl (p :: u8) 4 = FEND \<longleftrightarrow> p AND 0x0F = 12" "shl (p :: u8) 4 \<noteq> FESC"
proof -
  have "uint (shl p 4) = uint p * 16 mod (16 * 16)"
    by (simp add: shl_def push_bit_eq_mult uint_word_ariths)
  then have l: "uint (shl p 4) = uint p mod 16 * 16" by (simp only: mod_mult_mult2)
  have r: "uint (p AND 0x0F) = uint p mod 16"
    by (simp add: and_low_mask unsigned_take_bit_eq take_bit_int_def)
  have "x * 16 = 192 \<longleftrightarrow> x = 12" "x * 16 \<noteq> 219" for x :: int by arith+
  then show "shl p 4 = FEND \<longleftrightarrow> p AND 0x0F = 12" "shl p 4 \<noteq> FESC"
    by (simp_all add: word_uint_eq_iff l r kiss_bytes)
qed

text \<open>Any sequence of frames, each with its own delimiters, comes back in order.\<close>

lemma Feed_frames:
  assumes "at_boundary d" "\<forall>(cmd, data)\<in>set fs. cmd \<noteq> FEND \<and> cmd \<noteq> FESC \<and> length data < MaxFrameSize"
  shows "snd (Feed d (concat (map (\<lambda>(cmd, data). [FEND, cmd] @ escapeBytes data @ [FEND]) fs)))
       = map (\<lambda>(cmd, data). cmd # data) fs"
  using assms
proof (induction fs arbitrary: d)
  case (Cons f fs)
  obtain cmd data where f: "f = (cmd, data)" by fastforce
  have "Feed d ([FEND, cmd] @ escapeBytes data @ [FEND]) = (d\<lparr>inFrame := True\<rparr>, [cmd # data])"
    using Cons.prems f by (intro Feed_frame) auto
  moreover have "snd (Feed (d\<lparr>inFrame := True\<rparr>) (concat (map (\<lambda>(cmd, data). [FEND, cmd] @ escapeBytes data @ [FEND]) fs)))
       = map (\<lambda>(cmd, data). cmd # data) fs"
    using Cons.prems by (intro Cons.IH) auto
  ultimately show ?case
    using Feed_append [of d "[FEND, cmd] @ escapeBytes data @ [FEND]"
        "concat (map (\<lambda>(cmd, data). [FEND, cmd] @ escapeBytes data @ [FEND]) fs)"]
    by (simp add: f split: prod.splits)
qed simp

lemma WrapCommand_bytes: "WrapCommand p cmd v = WrapCommandBytes p cmd [v]"
  by (simp add: WrapCommand_def WrapCommandBytes_def)

end
