(* ===== verification/Demux.thy ===== *)
theory Demux
  imports Kiss_Framing
begin

text \<open>
  The demultiplexer of a shared KISS and rig-control stream (\<^verbatim>\<open>src/kiss/demux.go\<close>).  The index
  into the slice being fed is the remaining suffix here.  The frames sent to the control channel
  are collected in \<open>gaiaOut\<close>, in order: \<open>ctrlRoom\<close> says for each frame whether the non-blocking
  send finds room, as the consumer's progress decides.
\<close>

section \<open>Model\<close>

definition gaiaStart :: byte where "gaiaStart = 0xFF"
definition gaiaVersion :: byte where "gaiaVersion = 0x01"
definition gaiaHeaderLen :: nat where "gaiaHeaderLen = 4"
definition gaiaMsgHeaderLen :: nat where "gaiaMsgHeaderLen = 4"
definition gaiaFlagChecksum :: byte where "gaiaFlagChecksum = 0x01"

lemmas gaia_consts = gaiaStart_def gaiaVersion_def gaiaHeaderLen_def gaiaMsgHeaderLen_def gaiaFlagChecksum_def

record demux =
  kissDec :: Decoder
  inKISS :: bool
  gaiaBuf :: bytes
  gaiaTotal :: nat
  sharedFEND :: bool
  ctrl :: "nat option"
  gaiaOut :: "(nat \<times> bytes) list"

definition newDemux :: demux where
  "newDemux = \<lparr>kissDec = newDecoder, inKISS = False, gaiaBuf = [], gaiaTotal = 0, sharedFEND = False,
     ctrl = None, gaiaOut = []\<rparr>"

definition deliverGaia :: "(nat \<Rightarrow> bytes \<Rightarrow> bool) \<Rightarrow> demux \<Rightarrow> bytes \<Rightarrow> demux" where
  "deliverGaia room d fr =
     (case ctrl d of
        None \<Rightarrow> d
      | Some ch \<Rightarrow> if room ch fr then d\<lparr>gaiaOut := gaiaOut d @ [(ch, fr)]\<rparr> else d)"

definition attach :: "demux \<Rightarrow> nat \<Rightarrow> bool \<times> demux" where
  "attach d ch = (if ctrl d \<noteq> None then (False, d) else (True, d\<lparr>ctrl := Some ch\<rparr>))"

definition detach :: "demux \<Rightarrow> nat \<Rightarrow> demux" where
  "detach d ch = (if ctrl d = Some ch then d\<lparr>ctrl := None\<rparr> else d)"

definition gaiaLength :: "bytes \<Rightarrow> nat" where
  "gaiaLength b =
     gaiaHeaderLen + (unat (b ! 3) + gaiaMsgHeaderLen) + (if b ! 2 AND gaiaFlagChecksum \<noteq> 0 then 1 else 0)"

fun feedGaia :: "(nat \<Rightarrow> bytes \<Rightarrow> bool) \<Rightarrow> demux \<Rightarrow> bytes \<Rightarrow> demux \<times> bytes" where
  "feedGaia room d [] = (d, [])"
| "feedGaia room d (b # p) =
     (if length (gaiaBuf d) = 1 then
        (if b \<noteq> gaiaVersion then (d\<lparr>gaiaBuf := []\<rparr>, b # p)
         else feedGaia room (d\<lparr>gaiaBuf := gaiaBuf d @ [b]\<rparr>) p)
      else if length (gaiaBuf d) < gaiaHeaderLen then
        (let d = d\<lparr>gaiaBuf := gaiaBuf d @ [b]\<rparr>;
             d = (if length (gaiaBuf d) = gaiaHeaderLen then d\<lparr>gaiaTotal := gaiaLength (gaiaBuf d)\<rparr> else d)
         in feedGaia room d p)
      else
        (let d = d\<lparr>gaiaBuf := gaiaBuf d @ [b]\<rparr>
         in if length (gaiaBuf d) \<ge> gaiaTotal d
            then ((deliverGaia room d (gaiaBuf d))\<lparr>gaiaBuf := [], gaiaTotal := 0\<rparr>, p)
            else feedGaia room d p))"

text \<open>The bytes up to and including the closing FEND, or all of them.\<close>

fun kissRun :: "bytes \<Rightarrow> bytes \<times> bytes \<times> bool" where
  "kissRun [] = ([], [], False)"
| "kissRun (b # p) =
     (if b = FEND then ([b], p, True)
      else (case kissRun p of (run, rest, closed) \<Rightarrow> (b # run, rest, closed)))"

definition feedKISSRun :: "demux \<Rightarrow> bytes \<Rightarrow> demux \<times> bytes \<times> bytes list" where
  "feedKISSRun d p =
     (case kissRun p of (run, rest, closed) \<Rightarrow>
        (let d = (if closed then d\<lparr>inKISS := False, sharedFEND := True\<rparr> else d)
         in case Feed (kissDec d) run of (k, fs) \<Rightarrow> (d\<lparr>kissDec := k\<rparr>, rest, fs)))"

definition scan :: "demux \<Rightarrow> byte \<Rightarrow> bytes \<Rightarrow> demux \<times> bytes \<times> bytes list" where
  "scan d b p =
     (let shared = sharedFEND d; d = d\<lparr>sharedFEND := False\<rparr>
      in if b = FEND then
           (case Feed (kissDec d) [b] of (k, fs) \<Rightarrow> (d\<lparr>inKISS := True, kissDec := k\<rparr>, p, fs))
         else if b = gaiaStart then (d\<lparr>gaiaBuf := [gaiaStart]\<rparr>, p, [])
         else if shared then feedKISSRun (d\<lparr>inKISS := True\<rparr>) (b # p)
         else (d, p, []))"

lemma kissRun_rest: "kissRun p = (run, rest, closed) \<Longrightarrow> p = run @ rest \<and> (p \<noteq> [] \<longrightarrow> length rest < length p)"
  by (induction p arbitrary: run rest closed) (auto split: prod.splits if_splits)

lemma feedGaia_rest:
  "feedGaia room d p = (d', rest) \<Longrightarrow> length rest \<le> length p \<and> (length rest = length p \<longrightarrow> p = [] \<or> gaiaBuf d' = [])"
proof (induction room d p rule: feedGaia.induct)
  case (2 room d b p)
  then show ?case by (fastforce simp: Let_def split: if_splits)
qed simp

lemma feedKISSRun_rest: "feedKISSRun d p = (d', rest, fs) \<Longrightarrow> p \<noteq> [] \<Longrightarrow> length rest < length p"
  by (auto simp: feedKISSRun_def Let_def dest: kissRun_rest split: prod.splits if_splits)

lemma scan_rest: "scan d b p = (d', rest, fs) \<Longrightarrow> length rest \<le> length p"
  using feedKISSRun_rest [of _ "b # p"] by (auto simp: scan_def Let_def split: prod.splits if_splits dest!: feedKISSRun_rest)

function demuxFeed :: "(nat \<Rightarrow> bytes \<Rightarrow> bool) \<Rightarrow> demux \<Rightarrow> bytes \<Rightarrow> demux \<times> bytes list" where
  "demuxFeed room d [] = (d, [])"
| "demuxFeed room d (b # p) =
     (if gaiaBuf d \<noteq> [] then (case feedGaia room d (b # p) of (d, rest) \<Rightarrow> demuxFeed room d rest)
      else
        (case (if inKISS d then feedKISSRun d (b # p) else scan d b p) of (d, rest, fs) \<Rightarrow>
           case demuxFeed room d rest of (d, fs') \<Rightarrow> (d, fs @ fs')))"
  by pat_completeness auto
termination
proof (relation "measures [\<lambda>(room, d, p). length p, \<lambda>(room, d, p). length (gaiaBuf d)]")
  fix room d b p d' rest
  assume "gaiaBuf d \<noteq> []" "(d', rest) = feedGaia room d (b # p)"
  then have "length rest \<le> length (b # p)" "length rest = length (b # p) \<Longrightarrow> gaiaBuf d' = []" "gaiaBuf d \<noteq> []"
    using feedGaia_rest [of room d "b # p" d' rest] by (simp_all del: feedGaia.simps)
  then show "((room, d', rest), room, d, b # p) \<in> measures [\<lambda>(room, d, p). length p, \<lambda>(room, d, p). length (gaiaBuf d)]"
    by (cases "length rest = length (b # p)") simp_all
next
  fix room d b p d' y rest fs
  assume "\<not> gaiaBuf d \<noteq> []" "(d', y) = (if inKISS d then feedKISSRun d (b # p) else scan d b p)" "(rest, fs) = y"
  then have "length rest < length (b # p)"
    using feedKISSRun_rest [of d "b # p" d' rest fs] scan_rest [of d b p d' rest fs]
    by (auto split: if_splits)
  then show "((room, d', rest), room, d, b # p) \<in> measures [\<lambda>(room, d, p). length p, \<lambda>(room, d, p). length (gaiaBuf d)]"
    by simp
qed simp

declare demuxFeed.simps(2) [simp del]

section \<open>A byte-at-a-time reference\<close>

text \<open>
  The same classification one byte at a time, with no runs and no re-examined index.  The
  program's routine is equal to it, which makes the result independent of how the stream is cut
  into reads.
\<close>

definition kissByte :: "demux \<Rightarrow> byte \<Rightarrow> demux \<times> bytes list" where
  "kissByte d b =
     (case feedByte (kissDec d) b of (k, fs) \<Rightarrow>
        (d\<lparr>kissDec := k, inKISS := (b \<noteq> FEND), sharedFEND := (b = FEND \<or> sharedFEND d)\<rparr>, fs))"

definition scanByte :: "demux \<Rightarrow> byte \<Rightarrow> demux \<times> bytes list" where
  "scanByte d b =
     (if b = FEND then
        (case feedByte (kissDec d) b of (k, fs) \<Rightarrow> (d\<lparr>sharedFEND := False, inKISS := True, kissDec := k\<rparr>, fs))
      else if b = gaiaStart then (d\<lparr>sharedFEND := False, gaiaBuf := [gaiaStart]\<rparr>, [])
      else if sharedFEND d then kissByte (d\<lparr>sharedFEND := False\<rparr>) b
      else (d, []))"

definition gaiaByte :: "(nat \<Rightarrow> bytes \<Rightarrow> bool) \<Rightarrow> demux \<Rightarrow> byte \<Rightarrow> demux" where
  "gaiaByte room d b =
     (let g = gaiaBuf d @ [b]
      in if length g < gaiaHeaderLen then d\<lparr>gaiaBuf := g\<rparr>
         else if length g = gaiaHeaderLen then d\<lparr>gaiaBuf := g, gaiaTotal := gaiaLength g\<rparr>
         else if length g \<ge> gaiaTotal d
         then (deliverGaia room (d\<lparr>gaiaBuf := g\<rparr>) g)\<lparr>gaiaBuf := [], gaiaTotal := 0\<rparr>
         else d\<lparr>gaiaBuf := g\<rparr>)"

definition demuxByte :: "(nat \<Rightarrow> bytes \<Rightarrow> bool) \<Rightarrow> demux \<Rightarrow> byte \<Rightarrow> demux \<times> bytes list" where
  "demuxByte room d b =
     (if gaiaBuf d \<noteq> [] then
        (if length (gaiaBuf d) = 1 \<and> b \<noteq> gaiaVersion then scanByte (d\<lparr>gaiaBuf := []\<rparr>) b
         else (gaiaByte room d b, []))
      else if inKISS d then kissByte d b
      else scanByte d b)"

fun refFeed :: "(nat \<Rightarrow> bytes \<Rightarrow> bool) \<Rightarrow> demux \<Rightarrow> bytes \<Rightarrow> demux \<times> bytes list" where
  "refFeed room d [] = (d, [])"
| "refFeed room d (b # p) =
     (case demuxByte room d b of (d1, fs1) \<Rightarrow> case refFeed room d1 p of (d2, fs2) \<Rightarrow> (d2, fs1 @ fs2))"

lemma refFeed_append:
  "refFeed room d (p @ q) =
     (case refFeed room d p of (d1, fs1) \<Rightarrow> case refFeed room d1 q of (d2, fs2) \<Rightarrow> (d2, fs1 @ fs2))"
  by (induction p arbitrary: d) (simp_all split: prod.split)

text \<open>A state the demultiplexer can be in: inside at most one frame.\<close>

definition demux_ok :: "demux \<Rightarrow> bool" where
  "demux_ok d \<longleftrightarrow> (gaiaBuf d \<noteq> [] \<longrightarrow> \<not> inKISS d \<and> \<not> sharedFEND d) \<and> (inKISS d \<longrightarrow> \<not> sharedFEND d)"

lemma demuxByte_gaia:
  assumes "gaiaBuf d \<noteq> []" "length (gaiaBuf d) = 1 \<Longrightarrow> b = gaiaVersion"
  shows "refFeed room d (b # p) = refFeed room (gaiaByte room d b) p"
proof -
  have "demuxByte room d b = (gaiaByte room d b, [])" using assms by (auto simp: demuxByte_def)
  then show ?thesis by simp
qed

lemma feedGaia_ref:
  "gaiaBuf d \<noteq> [] \<Longrightarrow> \<not> inKISS d \<Longrightarrow> feedGaia room d p = (d', rest) \<Longrightarrow> refFeed room d p = refFeed room d' rest"
proof (induction room d p rule: feedGaia.induct)
  case (2 room d b p)
  let ?g = "gaiaBuf d @ [b]"
  consider (resync) "length (gaiaBuf d) = 1" "b \<noteq> gaiaVersion" | (version) "length (gaiaBuf d) = 1" "b = gaiaVersion"
    | (header) "length (gaiaBuf d) \<noteq> 1" "length (gaiaBuf d) < gaiaHeaderLen" | (body) "length (gaiaBuf d) \<ge> gaiaHeaderLen"
    by fastforce
  then show ?case
  proof cases
    case resync
    then have "d' = d\<lparr>gaiaBuf := []\<rparr>" "rest = b # p" using "2.prems" by auto
    with resync "2.prems" show ?thesis by (auto simp: demuxByte_def)
  next
    case version
    then have "gaiaByte room d b = d\<lparr>gaiaBuf := ?g\<rparr>" by (simp add: gaiaByte_def gaiaHeaderLen_def)
    moreover have "refFeed room (d\<lparr>gaiaBuf := ?g\<rparr>) p = refFeed room d' rest"
      using "2.prems" version by (intro "2.IH"(1)) simp_all
    ultimately show ?thesis using demuxByte_gaia [of d b room p] "2.prems" version by simp
  next
    case header
    let ?d = "if length ?g = gaiaHeaderLen then d\<lparr>gaiaBuf := ?g, gaiaTotal := gaiaLength ?g\<rparr> else d\<lparr>gaiaBuf := ?g\<rparr>"
    have "gaiaByte room d b = ?d" using header by (auto simp: gaiaByte_def Let_def)
    moreover have "refFeed room ?d p = refFeed room d' rest"
      using "2.prems" header by (intro "2.IH"(2) [OF _ _ refl]) (auto simp: Let_def split: if_splits)
    ultimately show ?thesis using demuxByte_gaia [of d b room p] "2.prems" header by simp
  next
    case body
    then have n1: "length (gaiaBuf d) \<noteq> 1" by (simp add: gaiaHeaderLen_def)
    show ?thesis
    proof (cases "length ?g \<ge> gaiaTotal d")
      case True
      then have "d' = gaiaByte room d b" "rest = p" using "2.prems" body n1 by (auto simp: gaiaByte_def Let_def)
      then show ?thesis using demuxByte_gaia [of d b room p] "2.prems" n1 by simp
    next
      case False
      then have g: "gaiaByte room d b = d\<lparr>gaiaBuf := ?g\<rparr>" using body by (simp add: gaiaByte_def Let_def)
      have "refFeed room (d\<lparr>gaiaBuf := ?g\<rparr>) p = refFeed room d' rest"
        using "2.prems" body n1 False by (intro "2.IH"(3)) simp_all
      then show ?thesis using demuxByte_gaia [of d b room p] "2.prems" n1 g by simp
    qed
  qed
qed simp

lemma feedKISSRun_ref:
  "gaiaBuf d = [] \<Longrightarrow> inKISS d \<Longrightarrow> \<not> sharedFEND d \<Longrightarrow> feedKISSRun d p = (d', rest, fs) \<Longrightarrow>
   refFeed room d p = (case refFeed room d' rest of (e, gs) \<Rightarrow> (e, fs @ gs))"
proof (induction p arbitrary: d fs)
  case Nil
  then show ?case by (auto simp: feedKISSRun_def)
next
  case (Cons b p)
  obtain k fs1 where k: "feedByte (kissDec d) b = (k, fs1)" by fastforce
  show ?case
  proof (cases "b = FEND")
    case True
    then show ?thesis
      using Cons.prems k by (cases d) (auto simp: feedKISSRun_def demuxByte_def kissByte_def split: prod.splits)
  next
    case False
    let ?d = "d\<lparr>kissDec := k\<rparr>"
    obtain fs2 where r: "feedKISSRun ?d p = (d', rest, fs2)" and fs: "fs = fs1 @ fs2"
      using Cons.prems(4) False k by (cases d) (auto simp: feedKISSRun_def Let_def split: prod.splits if_splits)
    have "demuxByte room d b = (?d, fs1)"
      using Cons.prems False k by (cases d) (auto simp: demuxByte_def kissByte_def)
    with Cons.IH [OF _ _ _ r] Cons.prems fs show ?thesis by (simp split: prod.split)
  qed
qed

lemma scan_ref:
  assumes "gaiaBuf d = []" "\<not> inKISS d" "scan d b p = (d', rest, fs)"
  shows "refFeed room d (b # p) = (case refFeed room d' rest of (e, gs) \<Rightarrow> (e, fs @ gs))"
proof (cases "b \<noteq> FEND \<and> b \<noteq> gaiaStart \<and> sharedFEND d")
  case True
  let ?d = "d\<lparr>sharedFEND := False, inKISS := True\<rparr>"
  have "demuxByte room d b = demuxByte room ?d b"
    using True assms by (cases d) (auto simp: demuxByte_def scanByte_def kissByte_def)
  moreover have "feedKISSRun ?d (b # p) = (d', rest, fs)" using True assms by (auto simp: scan_def Let_def)
  ultimately show ?thesis
    using feedKISSRun_ref [of ?d "b # p" d' rest fs room] assms by (simp split: prod.split)
next
  case False
  then show ?thesis
    using assms by (cases d) (auto simp: scan_def scanByte_def demuxByte_def Let_def split: prod.splits if_splits)
qed

lemma demuxByte_ok: "demux_ok d \<Longrightarrow> demux_ok (fst (demuxByte room d b))"
  by (auto simp: demuxByte_def demux_ok_def kissByte_def scanByte_def gaiaByte_def deliverGaia_def Let_def
    split: prod.splits option.splits)

lemma refFeed_ok: "demux_ok d \<Longrightarrow> refFeed room d p = (d', fs) \<Longrightarrow> demux_ok d'"
proof (induction p arbitrary: d fs)
  case (Cons b p)
  then show ?case using demuxByte_ok [OF Cons.prems(1), of room b] by (auto split: prod.splits)
qed simp

lemma feedGaia_ok: "feedGaia room d p = (d', rest) \<Longrightarrow> inKISS d' = inKISS d \<and> sharedFEND d' = sharedFEND d"
proof (induction room d p rule: feedGaia.induct)
  case (2 room d b p)
  then show ?case by (auto simp: Let_def deliverGaia_def split: if_splits option.splits)
qed simp

lemma feedKISSRun_ok:
  "feedKISSRun d p = (d', rest, fs) \<Longrightarrow> gaiaBuf d = [] \<Longrightarrow> \<not> sharedFEND d \<Longrightarrow> demux_ok d'"
  by (auto simp: feedKISSRun_def demux_ok_def Let_def split: prod.splits if_splits)

lemma scan_ok: "scan d b p = (d', rest, fs) \<Longrightarrow> gaiaBuf d = [] \<Longrightarrow> \<not> inKISS d \<Longrightarrow> demux_ok d'"
  by (auto simp: scan_def demux_ok_def Let_def split: prod.splits if_splits
    dest!: feedKISSRun_ok [unfolded demux_ok_def])

lemma demuxFeed_ref: "demux_ok d \<Longrightarrow> demuxFeed room d p = refFeed room d p"
proof (induction room d p rule: demuxFeed.induct)
  case (2 room d b p)
  show ?case
  proof (cases "gaiaBuf d = []")
    case False
    obtain d' rest where f: "feedGaia room d (b # p) = (d', rest)" by fastforce
    have eq: "refFeed room d (b # p) = refFeed room d' rest"
      using False "2.prems" f by (intro feedGaia_ref) (simp_all add: demux_ok_def)
    have "demux_ok d'" using feedGaia_ok [OF f] "2.prems" False by (simp add: demux_ok_def)
    then show ?thesis using "2.IH"(1) [OF False f [symmetric]] f eq False by (simp add: demuxFeed.simps(2))
  next
    case True
    obtain d' rest fs where f: "(if inKISS d then feedKISSRun d (b # p) else scan d b p) = (d', rest, fs)"
      by (metis prod_cases3)
    have eq: "refFeed room d (b # p) = (case refFeed room d' rest of (e, gs) \<Rightarrow> (e, fs @ gs))"
      using True "2.prems" f feedKISSRun_ref [of d "b # p" d' rest fs room] scan_ref [of d b p d' rest fs room]
      by (auto simp: demux_ok_def split: if_splits)
    have "demux_ok d'"
      using f True "2.prems" feedKISSRun_ok [of d "b # p" d' rest fs] scan_ok [of d b p d' rest fs]
      by (auto simp: demux_ok_def split: if_splits)
    then show ?thesis using "2.IH"(2) [OF _ f [symmetric] refl] f eq True by (simp add: demuxFeed.simps(2))
  qed
qed simp

interpretation demux_stream: stream_decoder "demuxFeed room" demux_ok for room
proof unfold_locales
  fix d p q
  assume ok: "demux_ok d"
  obtain d1 fs1 where p: "refFeed room d p = (d1, fs1)" by fastforce
  then have "demux_ok d1" using ok refFeed_ok by blast
  then show "demux_ok (fst (demuxFeed room d p))"
    and "demuxFeed room d (p @ q) =
      (case demuxFeed room d p of (d1, fs1) \<Rightarrow> case demuxFeed room d1 q of (d2, fs2) \<Rightarrow> (d2, fs1 @ fs2))"
    using ok p by (simp_all add: demuxFeed_ref refFeed_append)
qed simp

section \<open>Interleaved streams\<close>

text \<open>A frame on the shared link, its bytes, and what the two consumers should see of it.\<close>

datatype linkFrame = KissFrame byte bytes | GaiaFrame byte byte bytes

fun linkBytes :: "linkFrame \<Rightarrow> bytes" where
  "linkBytes (KissFrame cmd data) = [FEND, cmd] @ escapeBytes data @ [FEND]"
| "linkBytes (GaiaFrame flags len body) = [gaiaStart, gaiaVersion, flags, len] @ body"

fun linkOk :: "linkFrame \<Rightarrow> bool" where
  "linkOk (KissFrame cmd data) \<longleftrightarrow> cmd \<noteq> FEND \<and> cmd \<noteq> FESC \<and> length data < MaxFrameSize"
| "linkOk (GaiaFrame flags len body) \<longleftrightarrow>
     length body = unat len + gaiaMsgHeaderLen + (if flags AND gaiaFlagChecksum \<noteq> 0 then 1 else 0)"

fun linkKiss :: "linkFrame \<Rightarrow> bytes list" where
  "linkKiss (KissFrame cmd data) = [cmd # data]"
| "linkKiss (GaiaFrame flags len body) = []"

fun linkGaia :: "linkFrame \<Rightarrow> bytes list" where
  "linkGaia (KissFrame cmd data) = []"
| "linkGaia (GaiaFrame flags len body) = [linkBytes (GaiaFrame flags len body)]"

definition idle_demux :: "demux \<Rightarrow> bool" where
  "idle_demux d \<longleftrightarrow> gaiaBuf d = [] \<and> \<not> inKISS d \<and> at_boundary (kissDec d)"

lemma FEND_not_escaped: "FEND \<notin> set (escapeBytes xs)"
  by (induction xs) (auto simp: kiss_bytes)

lemma refFeed_kissRun:
  assumes "gaiaBuf d = []" "inKISS d" "FEND \<notin> set xs" "Feed (kissDec d) xs = (k, fs)"
  shows "refFeed room d xs = (d\<lparr>kissDec := k\<rparr>, fs)"
  using assms
proof (induction xs arbitrary: d fs)
  case (Cons x xs)
  obtain k1 fs1 where 1: "feedByte (kissDec d) x = (k1, fs1)" by fastforce
  have "demuxByte room d x = (d\<lparr>kissDec := k1\<rparr>, fs1)"
    using Cons.prems 1 by (cases d) (auto simp: demuxByte_def kissByte_def)
  with Cons 1 show ?case by (auto split: prod.splits)
qed simp

lemma refFeed_kissFrame:
  assumes "idle_demux d" "linkOk (KissFrame cmd data)"
  shows "\<exists>d'. refFeed room d (linkBytes (KissFrame cmd data)) = (d', [cmd # data])
    \<and> idle_demux d' \<and> ctrl d' = ctrl d \<and> gaiaOut d' = gaiaOut d"
proof -
  let ?xs = "cmd # escapeBytes data"
  obtain k0 fs0 where 0: "feedByte (kissDec d) FEND = (k0, fs0)" by fastforce
  obtain k1 fs1 where 1: "Feed k0 ?xs = (k1, fs1)" by fastforce
  obtain k2 fs2 where 2: "feedByte k1 FEND = (k2, fs2)" by fastforce
  have "Feed (kissDec d) ([FEND] @ ?xs @ [FEND]) = ((kissDec d)\<lparr>inFrame := True\<rparr>, [cmd # data])"
    using Feed_frame [of "kissDec d" cmd data] assms by (simp add: idle_demux_def)
  then have fs: "fs0 @ fs1 @ fs2 = [cmd # data]" and k2: "k2 = (kissDec d)\<lparr>inFrame := True\<rparr>"
    unfolding Feed_append using 0 1 2 by simp_all
  let ?d0 = "d\<lparr>sharedFEND := False, inKISS := True, kissDec := k0\<rparr>"
  have "refFeed room d [FEND] = (?d0, fs0)"
    using assms(1) 0 by (simp add: idle_demux_def demuxByte_def scanByte_def)
  moreover have "refFeed room ?d0 ?xs = (?d0\<lparr>kissDec := k1\<rparr>, fs1)"
    using assms 1 FEND_not_escaped by (intro refFeed_kissRun) (auto simp: idle_demux_def)
  moreover have "refFeed room (?d0\<lparr>kissDec := k1\<rparr>) [FEND] =
      (?d0\<lparr>kissDec := k2, inKISS := False, sharedFEND := True\<rparr>, fs2)"
    using assms(1) 2 by (simp add: idle_demux_def demuxByte_def kissByte_def)
  ultimately have "refFeed room d ([FEND] @ ?xs @ [FEND]) =
      (?d0\<lparr>kissDec := k2, inKISS := False, sharedFEND := True\<rparr>, [cmd # data])"
    unfolding refFeed_append using fs by simp
  then show ?thesis using assms(1) k2 by (simp add: idle_demux_def)
qed

lemma refFeed_gaiaBody:
  assumes "gaiaHeaderLen \<le> length (gaiaBuf d)" "xs \<noteq> []" "length (gaiaBuf d) + length xs = gaiaTotal d"
  shows "refFeed room d xs = ((deliverGaia room (d\<lparr>gaiaBuf := gaiaBuf d @ xs\<rparr>) (gaiaBuf d @ xs))
    \<lparr>gaiaBuf := [], gaiaTotal := 0\<rparr>, [])"
  using assms
proof (induction xs arbitrary: d)
  case (Cons x xs)
  let ?g = "gaiaBuf d @ [x]"
  have ne: "gaiaBuf d \<noteq> []" "length (gaiaBuf d) \<noteq> 1" using Cons.prems(1) by (auto simp: gaiaHeaderLen_def)
  have step: "refFeed room d (x # xs) = refFeed room (gaiaByte room d x) xs"
    by (rule demuxByte_gaia) (use ne in auto)
  show ?case
  proof (cases "xs = []")
    case True
    then show ?thesis using Cons.prems step by (simp add: gaiaByte_def Let_def)
  next
    case False
    then have "gaiaByte room d x = d\<lparr>gaiaBuf := ?g\<rparr>" using Cons.prems by (cases xs) (simp_all add: gaiaByte_def Let_def)
    with Cons.IH [of "d\<lparr>gaiaBuf := ?g\<rparr>"] Cons.prems False step show ?thesis by simp
  qed
qed simp

lemma refFeed_gaiaFrame:
  assumes "idle_demux d" "linkOk (GaiaFrame flags len body)" "ctrl d = Some ch" "\<And>f. room ch f"
  shows "\<exists>d'. refFeed room d (linkBytes (GaiaFrame flags len body)) = (d', [])
    \<and> idle_demux d' \<and> ctrl d' = ctrl d \<and> gaiaOut d' = gaiaOut d @ [(ch, linkBytes (GaiaFrame flags len body))]"
proof -
  let ?h = "[gaiaStart, gaiaVersion, flags, len]"
  let ?d = "d\<lparr>sharedFEND := False, gaiaBuf := ?h, gaiaTotal := gaiaLength ?h\<rparr>"
  have h: "refFeed room d ?h = (?d, [])"
    using assms(1)
    by (cases d) (auto simp: idle_demux_def demuxByte_def scanByte_def gaiaByte_def Let_def kiss_bytes gaia_consts)
  have "refFeed room ?d body = ((deliverGaia room (?d\<lparr>gaiaBuf := gaiaBuf ?d @ body\<rparr>) (gaiaBuf ?d @ body))
    \<lparr>gaiaBuf := [], gaiaTotal := 0\<rparr>, [])"
    using assms(2) by (intro refFeed_gaiaBody) (auto simp: gaiaLength_def gaia_consts)
  with h have "refFeed room d (?h @ body) = ((deliverGaia room (?d\<lparr>gaiaBuf := gaiaBuf ?d @ body\<rparr>) (gaiaBuf ?d @ body))
    \<lparr>gaiaBuf := [], gaiaTotal := 0\<rparr>, [])"
    unfolding refFeed_append by simp
  then show ?thesis using assms by (simp add: idle_demux_def deliverGaia_def)
qed

text \<open>
  Whole frames of both kinds, in any order: the KISS frames reach the KISS consumer and the Gaia
  frames the control consumer, each in order and unaltered, whatever bytes they contain.
\<close>

lemma refFeed_interleaved:
  assumes "idle_demux d" "\<forall>f\<in>set fs. linkOk f" "ctrl d = Some ch" "\<And>f. room ch f"
  shows "\<exists>d'. refFeed room d (concat (map linkBytes fs)) = (d', concat (map linkKiss fs))
    \<and> idle_demux d' \<and> ctrl d' = ctrl d \<and> gaiaOut d' = gaiaOut d @ map (Pair ch) (concat (map linkGaia fs))"
  using assms(1-3)
proof (induction fs arbitrary: d)
  case (Cons f fs)
  obtain d1 where 1: "refFeed room d (linkBytes f) = (d1, linkKiss f)" "idle_demux d1" "ctrl d1 = ctrl d"
      "gaiaOut d1 = gaiaOut d @ map (Pair ch) (linkGaia f)"
  proof (cases f)
    case (KissFrame cmd data)
    then show thesis
      using that refFeed_kissFrame [of d cmd data room] Cons.prems by (auto simp del: linkBytes.simps)
  next
    case (GaiaFrame flags len body)
    then show thesis
      using that refFeed_gaiaFrame [of d flags len body ch room, OF _ _ _ assms(4)] Cons.prems by (auto simp del: linkBytes.simps)
  qed
  with Cons.IH [of d1] Cons.prems show ?case by (auto simp: refFeed_append simp del: linkBytes.simps)
qed simp

section \<open>Memory bound\<close>

definition demux_inv :: "demux \<Rightarrow> bool" where
  "demux_inv d \<longleftrightarrow> decoder_inv (kissDec d) \<and> gaiaTotal d \<le> 264
     \<and> (length (gaiaBuf d) \<ge> gaiaHeaderLen \<longrightarrow> length (gaiaBuf d) < gaiaTotal d)"

lemma gaiaLength_bounds: "gaiaHeaderLen < gaiaLength b" "gaiaLength b \<le> 264"
proof -
  have "unat (b ! 3) < 2 ^ LENGTH(8)" by (rule unsigned_less)
  then show "gaiaHeaderLen < gaiaLength b" "gaiaLength b \<le> 264" by (simp_all add: gaiaLength_def gaia_consts)
qed

lemma kissByte_inv: "demux_inv d \<Longrightarrow> demux_inv (fst (kissByte d b))"
  using feedByte_inv [of "kissDec d" b] by (auto simp: kissByte_def demux_inv_def split: prod.split)

lemma scanByte_inv: "demux_inv d \<Longrightarrow> demux_inv (fst (scanByte d b))"
  using feedByte_inv [of "kissDec d" b] kissByte_inv [of "d\<lparr>sharedFEND := False\<rparr>" b]
  by (auto simp: scanByte_def demux_inv_def gaia_consts split: prod.split)

lemma demuxByte_inv: "demux_inv d \<Longrightarrow> demux_inv (fst (demuxByte room d b))"
  using kissByte_inv [of d b] scanByte_inv [of d b] scanByte_inv [of "d\<lparr>gaiaBuf := []\<rparr>" b] gaiaLength_bounds
  by (auto simp: demuxByte_def gaiaByte_def deliverGaia_def demux_inv_def Let_def gaiaHeaderLen_def split: option.splits)

lemma refFeed_inv: "demux_inv d \<Longrightarrow> demux_inv (fst (refFeed room d p))"
proof (induction p arbitrary: d)
  case (Cons b p)
  then have "demux_inv (fst (refFeed room (fst (demuxByte room d b)) p))" by (simp add: demuxByte_inv)
  then show ?case by (simp add: case_prod_unfold)
qed simp

end
