(* ===== verification/Agwpe.thy ===== *)
theory Agwpe
  imports Prelude
begin

text \<open>
  The AGWPE wire format (\<^verbatim>\<open>src/agwpe/agwpe.go\<close>) and the reassembly of frames from a client's TCP
  stream (the read loop of \<^verbatim>\<open>src/internal/frontend/agwpe/server.go\<close>).
\<close>

section \<open>Headers and frames\<close>

definition HeaderSize :: nat where
  "HeaderSize = 36"

definition MaxPayload :: nat where
  "MaxPayload = 65536"

record Header =
  hPort :: u8
  Kind :: byte
  hPID :: u8
  CallFrom :: string
  CallTo :: string
  DataLen :: u32

datatype agwpe_error = HeaderTooShort

text \<open>The bytes before the first NUL.\<close>

definition cString :: "bytes \<Rightarrow> string" where
  "cString b = of_bytes (takeWhile (\<lambda>x. x \<noteq> 0) b)"

definition ParseHeader :: "bytes \<Rightarrow> agwpe_error + Header" where
  "ParseHeader b =
     (if length b < HeaderSize then Inl HeaderTooShort
      else Inr \<lparr>hPort = b ! 0, Kind = b ! 4, hPID = b ! 6,
                CallFrom = cString (goSlice 8 18 b), CallTo = cString (goSlice 18 28 b),
                DataLen = leUint32 (goSlice 28 32 b)\<rparr>)"

text \<open>\<open>copy\<close> into ten zero bytes.\<close>

definition pad10 :: "string \<Rightarrow> bytes" where
  "pad10 s = take 10 (to_bytes s @ replicate 10 0)"

definition Build :: "u8 \<Rightarrow> byte \<Rightarrow> u8 \<Rightarrow> string \<Rightarrow> string \<Rightarrow> bytes \<Rightarrow> bytes" where
  "Build port kind pid from to data =
     [port, 0, 0, 0, kind, 0, pid, 0] @ pad10 from @ pad10 to
     @ lePut32 (word_of_nat (length data)) @ [0, 0, 0, 0] @ data"

section \<open>Lemmas\<close>

lemma length_pad10 [simp]: "length (pad10 s) = 10"
  by (simp add: pad10_def)

text \<open>A callsign field holds at most ten bytes, none of them NUL.\<close>

definition callField :: "string \<Rightarrow> bool" where
  "callField s \<longleftrightarrow> length s \<le> 10 \<and> CHR 0x00 \<notin> set s"

lemma byte_of_char_zero: "byte_of_char c = 0 \<longleftrightarrow> c = CHR 0x00"
proof -
  have "byte_of_char (CHR 0x00) = 0" by (simp add: byte_of_char_def)
  then show ?thesis by (metis byte_of_char_inj)
qed

lemma cString_pad10: "callField s \<Longrightarrow> cString (pad10 s) = s"
proof -
  assume s: "callField s"
  have nz: "0 \<notin> set (to_bytes s)" using s by (auto simp: to_bytes_def callField_def byte_of_char_zero)
  have "pad10 s = to_bytes s @ replicate (10 - length s) 0"
    using s by (simp add: pad10_def callField_def)
  moreover have "takeWhile (\<lambda>x. x \<noteq> 0) (to_bytes s @ replicate n 0) = to_bytes s" for n
    using nz by (cases n) (auto simp: takeWhile_append)
  ultimately show ?thesis by (simp add: cString_def)
qed

lemma length_Build [simp]: "length (Build p k i f t d) = HeaderSize + length d"
  by (simp add: Build_def HeaderSize_def)

lemma Build_slices:
  "Build p k i f t d ! 0 = p" "Build p k i f t d ! 4 = k" "Build p k i f t d ! 6 = i"
  "goSlice 8 18 (Build p k i f t d) = pad10 f" "goSlice 18 28 (Build p k i f t d) = pad10 t"
  "goSlice 28 32 (Build p k i f t d) = lePut32 (word_of_nat (length d))"
  "drop HeaderSize (Build p k i f t d) = d"
  by (simp_all add: Build_def goSlice_def HeaderSize_def)

lemma ParseHeader_Build:
  assumes "callField f" "callField t"
  shows "ParseHeader (Build p k i f t d @ r) = Inr \<lparr>hPort = p, Kind = k, hPID = i, CallFrom = f, CallTo = t,
     DataLen = word_of_nat (length d)\<rparr>"
proof -
  let ?b = "Build p k i f t d"
  have nth: "(?b @ r) ! n = ?b ! n" if "n < 36" for n using that by (simp add: nth_append HeaderSize_def)
  have sl: "goSlice i j (?b @ r) = goSlice i j ?b" if "j \<le> 36" for i j
    using that by (simp add: goSlice_def HeaderSize_def)
  show ?thesis
    using leUint32_lePut32 [of "word_of_nat (length d)" "[]"] assms
    by (simp add: ParseHeader_def nth sl Build_slices cString_pad10)
qed

section \<open>Reassembly\<close>

text \<open>
  What the read loop does with its buffer: hand over every complete frame, keep the rest, or close
  the client on an oversized payload.  \<open>None\<close> is a closed client.
\<close>

function reassemble :: "bytes \<Rightarrow> (Header \<times> bytes) list \<times> bytes option" where
  "reassemble buf =
     (if length buf < HeaderSize then ([], Some buf)
      else case ParseHeader (take HeaderSize buf) of
        Inl _ \<Rightarrow> ([], Some [])
      | Inr hdr \<Rightarrow>
          (if unat (DataLen hdr) > MaxPayload then ([], None)
           else
             (let total = HeaderSize + unat (DataLen hdr)
              in if length buf < total then ([], Some buf)
                 else (case reassemble (drop total buf) of (fs, rest) \<Rightarrow>
                         ((hdr, goSlice HeaderSize total buf) # fs, rest)))))"
  by pat_completeness auto
termination
  by (relation "measure length") (auto simp: HeaderSize_def)

declare reassemble.simps [simp del]

text \<open>The client's buffer across reads; \<open>None\<close> once it has been closed.\<close>

definition clientRead :: "bytes option \<Rightarrow> bytes \<Rightarrow> bytes option \<times> (Header \<times> bytes) list" where
  "clientRead st p =
     (case st of None \<Rightarrow> (None, [])
      | Some buf \<Rightarrow> (case reassemble (buf @ p) of (fs, rest) \<Rightarrow> (rest, fs)))"

lemma ParseHeader_take: "HeaderSize \<le> length b \<Longrightarrow> ParseHeader (take HeaderSize b) = ParseHeader b"
  by (simp add: ParseHeader_def HeaderSize_def goSlice_def drop_take)

text \<open>One round of the loop, by what it finds in the buffer.\<close>

lemma reassemble_cases:
  obtains (short) "length b < HeaderSize" "reassemble b = ([], Some b)"
  | (oversize) hdr where "HeaderSize \<le> length b" "ParseHeader b = Inr hdr" "unat (DataLen hdr) > MaxPayload"
      "reassemble b = ([], None)"
  | (waiting) hdr where "HeaderSize \<le> length b" "ParseHeader b = Inr hdr" "unat (DataLen hdr) \<le> MaxPayload"
      "length b < HeaderSize + unat (DataLen hdr)" "reassemble b = ([], Some b)"
  | (frame) hdr fs rest where "HeaderSize \<le> length b" "ParseHeader b = Inr hdr" "unat (DataLen hdr) \<le> MaxPayload"
      "HeaderSize + unat (DataLen hdr) \<le> length b"
      "reassemble (drop (HeaderSize + unat (DataLen hdr)) b) = (fs, rest)"
      "reassemble b = ((hdr, goSlice HeaderSize (HeaderSize + unat (DataLen hdr)) b) # fs, rest)"
proof (cases "length b < HeaderSize")
  case True
  then show thesis using short by (simp add: reassemble.simps)
next
  case False
  then obtain hdr where h: "ParseHeader b = Inr hdr" by (simp add: ParseHeader_def)
  obtain fs rest where r: "reassemble (drop (HeaderSize + unat (DataLen hdr)) b) = (fs, rest)" by fastforce
  note eq = reassemble.simps [of b] ParseHeader_take [of b]
  consider "unat (DataLen hdr) > MaxPayload" | "unat (DataLen hdr) \<le> MaxPayload" "length b < HeaderSize + unat (DataLen hdr)"
    | "unat (DataLen hdr) \<le> MaxPayload" "HeaderSize + unat (DataLen hdr) \<le> length b" by linarith
  then show thesis
  proof cases
    case 1
    with False h eq show thesis by (intro oversize) simp_all
  next
    case 2
    with False h eq show thesis by (intro waiting) simp_all
  next
    case 3
    with False h eq r show thesis by (intro frame [of hdr fs rest]) simp_all
  qed
qed

lemma ParseHeader_append: "HeaderSize \<le> length b \<Longrightarrow> ParseHeader (b @ q) = ParseHeader b"
  by (cases b) (auto simp: ParseHeader_def HeaderSize_def goSlice_def nth_append)

lemma goSlice_append: "j \<le> length b \<Longrightarrow> goSlice i j (b @ q) = goSlice i j b"
  by (simp add: goSlice_def)

lemma reassemble_frame:
  assumes "HeaderSize \<le> length b" "ParseHeader b = Inr hdr" "unat (DataLen hdr) \<le> MaxPayload"
    "HeaderSize + unat (DataLen hdr) \<le> length b"
  shows "reassemble (b @ q) = (case reassemble (drop (HeaderSize + unat (DataLen hdr)) b @ q) of (fs, rest) \<Rightarrow>
     ((hdr, goSlice HeaderSize (HeaderSize + unat (DataLen hdr)) b) # fs, rest))"
  using assms ParseHeader_take [of "b @ q"]
  by (subst reassemble.simps) (simp add: ParseHeader_append goSlice_append Let_def del: take_append)

lemma reassemble_prefix:
  assumes "reassemble b = (fs, Some r)"
  shows "reassemble (b @ q) = (case reassemble (r @ q) of (gs, s) \<Rightarrow> (fs @ gs, s))"
  using assms
proof (induction "length b" arbitrary: b fs rule: less_induct)
  case less
  show ?case
  proof (cases b rule: reassemble_cases)
    case (frame hdr fs' rest)
    let ?n = "HeaderSize + unat (DataLen hdr)"
    have "reassemble (drop ?n b @ q) = (case reassemble (r @ q) of (gs, s) \<Rightarrow> (fs' @ gs, s))"
      using frame less.prems by (intro less.hyps) (simp_all add: HeaderSize_def)
    with reassemble_frame [OF frame(1-4), of q] frame less.prems show ?thesis by (simp split: prod.split)
  qed (use less.prems in \<open>simp_all split: prod.split\<close>)
qed

lemma reassemble_closed: "reassemble b = (fs, None) \<Longrightarrow> reassemble (b @ q) = (fs, None)"
proof (induction "length b" arbitrary: b fs rule: less_induct)
  case less
  show ?case
  proof (cases b rule: reassemble_cases)
    case (oversize hdr)
    then show ?thesis
      using less.prems ParseHeader_take [of "b @ q"]
      by (subst reassemble.simps) (simp add: ParseHeader_append del: take_append)
  next
    case (frame hdr fs' rest)
    have "reassemble (drop (HeaderSize + unat (DataLen hdr)) b @ q) = (fs', None)"
      using frame less.prems by (intro less.hyps) (simp_all add: HeaderSize_def)
    with reassemble_frame [OF frame(1-4), of q] frame less.prems show ?thesis by simp
  qed (use less.prems in simp_all)
qed

text \<open>What stays in the buffer is an incomplete frame, so the buffer is bounded.\<close>

lemma reassemble_rest: "reassemble b = (fs, Some r) \<Longrightarrow> reassemble r = ([], Some r) \<and> length r < HeaderSize + MaxPayload"
proof (induction "length b" arbitrary: b fs rule: less_induct)
  case less
  show ?case
  proof (cases b rule: reassemble_cases)
    case (frame hdr fs' rest)
    with less.prems show ?thesis
      by (intro less.hyps [of "drop (HeaderSize + unat (DataLen hdr)) b" fs']) (simp_all add: HeaderSize_def)
  qed (use less.prems in \<open>auto simp: MaxPayload_def\<close>)
qed

definition client_ok :: "bytes option \<Rightarrow> bool" where
  "client_ok st \<longleftrightarrow> (case st of None \<Rightarrow> True | Some b \<Rightarrow> reassemble b = ([], Some b))"

interpretation agwpe_stream: stream_decoder clientRead client_ok
proof unfold_locales
  fix st p q
  assume ok: "client_ok st"
  show "clientRead st [] = (st, [])" using ok by (auto simp: clientRead_def client_ok_def split: option.split)
  show "client_ok (fst (clientRead st p))"
    using ok by (auto simp: clientRead_def client_ok_def split: option.split prod.split dest: reassemble_rest)
  show "clientRead st (p @ q) =
      (case clientRead st p of (d1, fs1) \<Rightarrow> case clientRead d1 q of (d2, fs2) \<Rightarrow> (d2, fs1 @ fs2))"
  proof (cases st)
    case (Some b)
    obtain fs r where r: "reassemble (b @ p) = (fs, r)" by fastforce
    with Some reassemble_prefix [of "b @ p" fs _ q] reassemble_closed [of "b @ p" fs q] show ?thesis
      by (cases r) (auto simp: clientRead_def split: prod.split)
  qed (simp add: clientRead_def)
qed

text \<open>A client that writes frames one after the other has exactly those frames handled.\<close>

lemma reassemble_Build:
  assumes "callField f" "callField t" "length d \<le> MaxPayload"
  shows "reassemble (Build p k i f t d @ q) = (case reassemble q of (fs, r) \<Rightarrow>
     ((\<lparr>hPort = p, Kind = k, hPID = i, CallFrom = f, CallTo = t, DataLen = word_of_nat (length d)\<rparr>, d) # fs, r))"
proof -
  have n: "unat (word_of_nat (length d) :: u32) = length d"
    using assms(3) by (simp add: unsigned_of_nat take_bit_nat_eq_self MaxPayload_def)
  let ?h = "\<lparr>hPort = p, Kind = k, hPID = i, CallFrom = f, CallTo = t, DataLen = word_of_nat (length d) :: u32\<rparr>"
  have "ParseHeader (Build p k i f t d) = Inr ?h" using ParseHeader_Build [OF assms(1,2), of p k i d "[]"] by simp
  from reassemble_frame [OF _ this] n assms(3) Build_slices(7) [of p k i f t d] show ?thesis
    by (simp add: goSlice_def)
qed

end
