(* ===== verification/Benshi_Frame.thy ===== *)
theory Benshi_Frame
  imports Prelude
begin

text \<open>
  Framing and messages of the Benshi radio-control protocol (\<^verbatim>\<open>src/benshi/frame.go\<close>,
  \<^verbatim>\<open>src/benshi/message.go\<close>).
\<close>

section \<open>Frames\<close>

definition FlagChecksum :: u8 where "FlagChecksum = 1"
definition frameStart :: byte where "frameStart = 0xFF"
definition frameVersion :: byte where "frameVersion = 0x01"
definition frameHeaderLen :: nat where "frameHeaderLen = 4"
definition msgHeaderLen :: nat where "msgHeaderLen = 4"
definition maxFrameData :: nat where "maxFrameData = 255 + msgHeaderLen"

lemmas benshi_consts = FlagChecksum_def frameStart_def frameVersion_def frameHeaderLen_def
  msgHeaderLen_def maxFrameData_def

record Frame =
  Flags :: u8
  Data :: bytes

text \<open>A frame that cannot be represented is \<open>nil\<close>, the empty slice.\<close>

definition Frame_Bytes :: "Frame \<Rightarrow> bytes" where
  "Frame_Bytes f =
     (if length (Data f) < msgHeaderLen \<or> length (Data f) > maxFrameData then []
      else [frameStart, frameVersion, Flags f, word_of_nat (length (Data f) - msgHeaderLen)] @ Data f)"

definition frameTotal :: "bytes \<Rightarrow> nat" where
  "frameTotal b = frameHeaderLen + (unat (b ! 3) + msgHeaderLen) + (if b ! 2 AND FlagChecksum \<noteq> 0 then 1 else 0)"

text \<open>The loop of \<open>Decoder.Feed\<close> on its buffer: the complete frames and what is left.\<close>

function drain :: "bytes \<Rightarrow> Frame list \<times> bytes" where
  "drain buf0 =
     (let buf = dropWhile (\<lambda>b. b \<noteq> frameStart) buf0
      in if length buf < frameHeaderLen then ([], buf)
         else if buf ! 1 \<noteq> frameVersion then drain (drop 1 buf)
         else if length buf < frameTotal buf then ([], buf)
         else
           (let dataLen = unat (buf ! 3) + msgHeaderLen;
                f = \<lparr>Flags = buf ! 2, Data = goSlice frameHeaderLen (frameHeaderLen + dataLen) buf\<rparr>
            in case drain (drop (frameTotal buf) buf) of (fs, rest) \<Rightarrow> (f # fs, rest)))"
  by pat_completeness auto
termination
proof (relation "measure length")
  fix buf0 buf :: bytes
  assume b: "buf = dropWhile (\<lambda>b. b \<noteq> frameStart) buf0" "\<not> length buf < frameHeaderLen"
  have "length buf \<le> length buf0" unfolding b(1) by (rule length_dropWhile_le)
  moreover have "length buf \<ge> 4" using b(2) by (simp add: frameHeaderLen_def)
  ultimately show "(drop 1 buf, buf0) \<in> measure length" "(drop (frameTotal buf) buf, buf0) \<in> measure length"
    by (simp_all add: frameTotal_def frameHeaderLen_def)
qed simp

declare drain.simps [simp del]

definition Decoder_Feed :: "bytes \<Rightarrow> bytes \<Rightarrow> bytes \<times> Frame list" where
  "Decoder_Feed buf p = (case drain (buf @ p) of (fs, rest) \<Rightarrow> (rest, fs))"

section \<open>Decoding\<close>

lemma dropWhile_append_hit: "dropWhile P xs \<noteq> [] \<Longrightarrow> dropWhile P (xs @ ys) = dropWhile P xs @ ys"
  by (induction xs) auto

lemma drain_cases:
  obtains (short) "length (dropWhile (\<lambda>b. b \<noteq> frameStart) b) < frameHeaderLen"
      "drain b = ([], dropWhile (\<lambda>b. b \<noteq> frameStart) b)"
  | (resync) c where "c = dropWhile (\<lambda>b. b \<noteq> frameStart) b" "frameHeaderLen \<le> length c" "c ! 1 \<noteq> frameVersion"
      "drain b = drain (drop 1 c)"
  | (waiting) c where "c = dropWhile (\<lambda>b. b \<noteq> frameStart) b" "frameHeaderLen \<le> length c" "c ! 1 = frameVersion"
      "length c < frameTotal c" "drain b = ([], c)"
  | (frame) c fs rest where "c = dropWhile (\<lambda>b. b \<noteq> frameStart) b" "frameHeaderLen \<le> length c" "c ! 1 = frameVersion"
      "frameTotal c \<le> length c" "drain (drop (frameTotal c) c) = (fs, rest)"
      "drain b = (\<lparr>Flags = c ! 2, Data = goSlice frameHeaderLen (frameHeaderLen + (unat (c ! 3) + msgHeaderLen)) c\<rparr> # fs, rest)"
proof -
  let ?c = "dropWhile (\<lambda>b. b \<noteq> frameStart) b"
  obtain fs rest where r: "drain (drop (frameTotal ?c) ?c) = (fs, rest)" by fastforce
  note eq = drain.simps [of b, unfolded Let_def]
  consider "length ?c < frameHeaderLen" | "frameHeaderLen \<le> length ?c" "?c ! 1 \<noteq> frameVersion"
    | "frameHeaderLen \<le> length ?c" "?c ! 1 = frameVersion" "length ?c < frameTotal ?c"
    | "frameHeaderLen \<le> length ?c" "?c ! 1 = frameVersion" "frameTotal ?c \<le> length ?c" by linarith
  then show thesis
  proof cases
    case 1
    with eq show thesis by (intro short) simp_all
  next
    case 2
    with eq show thesis by (intro resync [OF refl]) simp_all
  next
    case 3
    with eq show thesis by (intro waiting [OF refl]) simp_all
  next
    case 4
    with eq r show thesis by (intro frame [OF refl]) simp_all
  qed
qed

abbreviation sync :: "bytes \<Rightarrow> bytes" where
  "sync \<equiv> dropWhile (\<lambda>b. b \<noteq> frameStart)"

lemma drain_sync: "sync x = sync y \<Longrightarrow> drain x = drain y"
  by (subst (1 2) drain.simps) simp

lemma sync_append: "sync (b @ q) = sync (sync b @ q)"
  by (induction b) auto

lemma sync_head: "sync b \<noteq> [] \<Longrightarrow> sync (sync b @ q) = sync b @ q"
  by (induction b) auto

lemma header_append:
  assumes "frameHeaderLen \<le> length c"
  shows "(c @ q) ! 1 = c ! 1" "(c @ q) ! 2 = c ! 2" "(c @ q) ! 3 = c ! 3" "frameTotal (c @ q) = frameTotal c"
  using assms by (simp_all add: nth_append frameHeaderLen_def frameTotal_def)

lemma drain_append:
  assumes "drain b = (fs, r)"
  shows "drain (b @ q) = (case drain (r @ q) of (gs, s) \<Rightarrow> (fs @ gs, s))"
  using assms
proof (induction "length b" arbitrary: b fs r rule: less_induct)
  case less
  let ?c = "sync b"
  have bq: "drain (b @ q) = drain (?c @ q)" by (rule drain_sync) (rule sync_append)
  have shorter: "length ?c \<le> length b" by (rule length_dropWhile_le)
  have ne: "sync (?c @ q) = ?c @ q" if "frameHeaderLen \<le> length ?c"
  proof (rule sync_head)
    have "0 < length ?c" using that unfolding frameHeaderLen_def by linarith
    then show "?c \<noteq> []" by (simp only: length_greater_0_conv simp_thms)
  qed
  show ?case
  proof (cases b rule: drain_cases)
    case short
    with less.prems bq show ?thesis by (simp split: prod.split)
  next
    case (resync c)
    have "drain (?c @ q) = drain (drop 1 ?c @ q)"
      using resync ne header_append [of ?c q] by (subst drain.simps) (auto simp: Let_def frameHeaderLen_def)
    moreover have "drain (drop 1 ?c @ q) = (case drain (r @ q) of (gs, s) \<Rightarrow> (fs @ gs, s))"
      using resync less.prems shorter by (intro less.hyps) (auto simp: frameHeaderLen_def)
    ultimately show ?thesis using bq by simp
  next
    case (waiting c)
    with less.prems bq show ?thesis by (simp split: prod.split)
  next
    case (frame c fs' rest)
    let ?f = "\<lparr>Flags = ?c ! 2, Data = goSlice frameHeaderLen (frameHeaderLen + (unat (?c ! 3) + msgHeaderLen)) ?c\<rparr>"
    have fit: "frameHeaderLen + (unat (?c ! 3) + msgHeaderLen) \<le> length ?c"
      using frame by (simp add: frameTotal_def)
    have "drain (?c @ q) = (case drain (drop (frameTotal ?c) ?c @ q) of (gs, s) \<Rightarrow> (?f # gs, s))"
      using frame ne header_append [of ?c q] fit by (subst drain.simps) (auto simp: Let_def goSlice_def)
    moreover have "drain (drop (frameTotal ?c) ?c @ q) = (case drain (r @ q) of (gs, s) \<Rightarrow> (fs' @ gs, s))"
      using frame less.prems shorter by (intro less.hyps) (auto simp: frameHeaderLen_def frameTotal_def)
    ultimately show ?thesis using bq frame less.prems by (simp split: prod.split)
  qed
qed

text \<open>What the decoder keeps is an incomplete frame: at most 264 bytes, and nothing to drain.\<close>

lemma drain_rest: "drain b = (fs, r) \<Longrightarrow> drain r = ([], r) \<and> length r < 264"
proof (induction "length b" arbitrary: b fs r rule: less_induct)
  case less
  have shorter: "length (sync b) \<le> length b" by (rule length_dropWhile_le)
  have idem: "drain (sync b) = drain b" by (rule drain_sync) simp
  show ?case
  proof (cases b rule: drain_cases)
    case short
    with less.prems idem show ?thesis by (auto simp: frameHeaderLen_def)
  next
    case (resync c)
    with less.prems shorter show ?thesis by (intro less.hyps [of "drop 1 c" fs]) (auto simp: frameHeaderLen_def)
  next
    case (waiting c)
    have "unat (c ! 3) < 2 ^ LENGTH(8)" by (rule unsigned_less)
    with waiting less.prems idem show ?thesis by (auto simp: frameTotal_def benshi_consts split: if_splits)
  next
    case (frame c fs' rest)
    with less.prems shorter show ?thesis
      by (intro less.hyps [of "drop (frameTotal c) c" fs']) (auto simp: frameHeaderLen_def frameTotal_def)
  qed
qed

interpretation benshi_stream: stream_decoder Decoder_Feed "\<lambda>buf. drain buf = ([], buf)"
proof unfold_locales
  fix buf p q
  assume "drain buf = ([], buf)"
  then show "Decoder_Feed buf [] = (buf, [])" by (simp add: Decoder_Feed_def)
  obtain fs r where r: "drain (buf @ p) = (fs, r)" by fastforce
  then show "drain (fst (Decoder_Feed buf p)) = ([], fst (Decoder_Feed buf p))"
    using drain_rest by (auto simp: Decoder_Feed_def)
  show "Decoder_Feed buf (p @ q) =
      (case Decoder_Feed buf p of (d1, fs1) \<Rightarrow> case Decoder_Feed d1 q of (d2, fs2) \<Rightarrow> (d2, fs1 @ fs2))"
    using r drain_append [OF r, of q] by (simp add: Decoder_Feed_def split: prod.split)
qed

definition wf_bframe :: "Frame \<Rightarrow> bool" where
  "wf_bframe f \<longleftrightarrow> msgHeaderLen \<le> length (Data f) \<and> length (Data f) \<le> maxFrameData \<and> Flags f AND FlagChecksum = 0"

lemma drain_Frame_Bytes:
  assumes "wf_bframe f"
  shows "drain (Frame_Bytes f @ q) = (case drain q of (fs, r) \<Rightarrow> (f # fs, r))"
proof -
  obtain k where len: "length (Data f) = k + 4" "k < 256" and fl: "Flags f AND FlagChecksum = 0"
    using assms le_Suc_ex [of 4 "length (Data f)"] by (auto simp: wf_bframe_def benshi_consts)
  have n: "unat (word_of_nat k :: u8) = k"
    using len by (simp add: unsigned_of_nat take_bit_nat_eq_self)
  have b: "Frame_Bytes f = [frameStart, frameVersion, Flags f, word_of_nat k] @ Data f"
    using len by (simp add: Frame_Bytes_def benshi_consts)
  have t: "frameTotal (Frame_Bytes f @ q) = length (Frame_Bytes f)"
    using len fl n by (simp add: frameTotal_def b frameHeaderLen_def msgHeaderLen_def)
  have "sync (Frame_Bytes f @ q) = Frame_Bytes f @ q" by (simp add: b)
  moreover have "drop (length (Frame_Bytes f)) (Frame_Bytes f @ q) = q" by simp
  moreover have "(Frame_Bytes f @ q) ! 1 = frameVersion" "(Frame_Bytes f @ q) ! 2 = Flags f"
    "(Frame_Bytes f @ q) ! 3 = word_of_nat k" "goSlice 4 (4 + (k + 4)) (Frame_Bytes f @ q) = Data f"
    "\<not> length (Frame_Bytes f @ q) < 4"
    using len by (simp_all add: b goSlice_def)
  ultimately show ?thesis
    using t len n by (cases f, subst drain.simps) (simp add: Let_def frameHeaderLen_def msgHeaderLen_def b)
qed

text \<open>Any sequence of frames comes back in order, with nothing left over.\<close>

lemma drain_frames: "list_all wf_bframe fs \<Longrightarrow> drain (concat (map Frame_Bytes fs)) = (fs, [])"
proof (induction fs)
  case Nil
  show ?case by (subst drain.simps) (simp add: frameHeaderLen_def)
next
  case (Cons f fs)
  then show ?case by (simp add: drain_Frame_Bytes)
qed

section \<open>Messages\<close>

definition replyBit :: u16 where
  "replyBit = 0x8000"

record Message =
  Group :: u16
  IsReply :: bool
  bCommand :: u16
  Body :: bytes

datatype benshi_error = ShortMessage | ShortBody | RadioRejected string u8 | ShortRFCh | ShortSettings | ShortBSS

definition Message_Bytes :: "Message \<Rightarrow> bytes" where
  "Message_Bytes m =
     (let cmd = bCommand m AND NOT replyBit; cmd = (if IsReply m then cmd OR replyBit else cmd)
      in bePut16 (Group m) @ bePut16 cmd @ Body m)"

definition DecodeMessage :: "bytes \<Rightarrow> benshi_error + Message" where
  "DecodeMessage b =
     (if length b < msgHeaderLen then Inl ShortMessage
      else
        (let cmd = beUint16 (goSlice 2 4 b)
         in Inr \<lparr>Group = beUint16 (goSlice 0 2 b), IsReply = (cmd AND replyBit \<noteq> 0),
                 bCommand = cmd AND NOT replyBit, Body = drop msgHeaderLen b\<rparr>))"

lemma replyBit_push: "replyBit = push_bit 15 1"
  by (simp add: replyBit_def)

lemma bit_replyBit: "bit replyBit n \<longleftrightarrow> n = 15"
  unfolding replyBit_push by (simp only: bit_push_bit_iff bit_1_iff) auto

lemma and_replyBit: "(x :: u16) AND replyBit \<noteq> 0 \<longleftrightarrow> bit x 15"
  using bit_iff_and_push_bit_not_eq_0 [of x 15] by (simp add: replyBit_push)

lemma below_replyBit: "x < replyBit \<Longrightarrow> \<not> bit x 15"
  using bit_small [of x 15 15] by (auto simp: replyBit_def word_less_nat_alt)

lemma DecodeMessage_Bytes:
  assumes "bCommand m < replyBit"
  shows "DecodeMessage (Message_Bytes m) = Inr m"
proof -
  let ?w = "if IsReply m then bCommand m AND NOT replyBit OR replyBit else bCommand m AND NOT replyBit"
  have c: "bCommand m AND NOT replyBit = bCommand m"
    using below_replyBit [OF assms] by (intro bit_word_eqI) (auto simp: bit_simps bit_replyBit)
  have r: "?w AND replyBit \<noteq> 0 \<longleftrightarrow> IsReply m"
    using below_replyBit [OF assms] by (auto simp: and_replyBit bit_simps bit_replyBit)
  have w: "?w AND NOT replyBit = bCommand m"
    using below_replyBit [OF assms] by (intro bit_word_eqI) (auto simp: bit_simps bit_replyBit)
  have m: "Message_Bytes m = bePut16 (Group m) @ bePut16 ?w @ Body m"
    by (simp add: Message_Bytes_def Let_def)
  have s: "goSlice 0 2 (Message_Bytes m) = bePut16 (Group m)" "goSlice 2 4 (Message_Bytes m) = bePut16 ?w"
    "drop msgHeaderLen (Message_Bytes m) = Body m" "\<not> length (Message_Bytes m) < msgHeaderLen"
    by (simp_all add: m goSlice_def msgHeaderLen_def)
  show ?thesis
    unfolding DecodeMessage_def Let_def s beUint16_bePut16 w using r s(4) by (cases m) simp
qed

interpretation benshi_message: wire_codec Message_Bytes DecodeMessage "\<lambda>m. bCommand m < replyBit"
  by unfold_locales (rule DecodeMessage_Bytes)

end
