(* ===== verification/Benshi_Records.thy ===== *)
theory Benshi_Records
  imports Benshi_Frame
begin

text \<open>
  The records the program reads from a radio and writes back (\<^verbatim>\<open>src/benshi/rfch.go\<close>,
  \<^verbatim>\<open>settings.go\<close>, \<^verbatim>\<open>settingsrec.go\<close>, \<^verbatim>\<open>bss.go\<close>, \<^verbatim>\<open>devinfo.go\<close>).  A record is held as the exact
  bytes the radio sent and patched in place; what matters is that a patch changes the field it
  is meant to change and nothing else.
\<close>

section \<open>Channel records\<close>

definition freqMask :: u32 where "freqMask = 0x3FFFFFFF"
definition RFChLen :: nat where "RFChLen = 25"
definition rfChNameOff :: nat where "rfChNameOff = 15"
definition rfChNameLen :: nat where "rfChNameLen = 10"

record RFCh =
  rfRaw :: bytes

definition ParseRFCh :: "bytes \<Rightarrow> benshi_error + RFCh" where
  "ParseRFCh b = (if length b < RFChLen then Inl ShortRFCh else Inr \<lparr>rfRaw = b\<rparr>)"

definition RFCh_ID :: "RFCh \<Rightarrow> byte" where
  "RFCh_ID c = rfRaw c ! 0"

definition TXFreqHz :: "RFCh \<Rightarrow> u32" where
  "TXFreqHz c = beUint32 (goSlice 1 5 (rfRaw c)) AND freqMask"

definition RXFreqHz :: "RFCh \<Rightarrow> u32" where
  "RXFreqHz c = beUint32 (goSlice 5 9 (rfRaw c)) AND freqMask"

definition RFCh_Name :: "RFCh \<Rightarrow> string" where
  "RFCh_Name c = rev (dropWhile (\<lambda>ch. ch = CHR 0x00)
     (rev (of_bytes (goSlice rfChNameOff (rfChNameOff + rfChNameLen) (rfRaw c)))))"

text \<open>The four bytes of a frequency word after \<open>putFreq\<close>; \<open>w0\<close> is its first byte before.\<close>

definition putFreq :: "byte \<Rightarrow> u32 \<Rightarrow> bytes" where
  "putFreq w0 hz =
     (let mdl = w0 AND 0xC0; w = bePut32 (hz AND freqMask)
      in w[0 := (w ! 0 AND 0x3F) OR mdl])"

definition WithFreq :: "RFCh \<Rightarrow> u32 \<Rightarrow> RFCh" where
  "WithFreq c hz =
     (let raw = rfRaw c
      in \<lparr>rfRaw = take 1 raw @ putFreq (raw ! 1) hz @ putFreq (raw ! 5) hz @ drop 9 raw\<rparr>)"

definition RFCh_Bytes :: "RFCh \<Rightarrow> bytes" where
  "RFCh_Bytes c = rfRaw c"

section \<open>Bit fields\<close>

text \<open>\<open>bits\<close>: \<open>n\<close> bits from offset \<open>off\<close>, most significant first; past the end they read as zero.\<close>

definition bitAt :: "bytes \<Rightarrow> nat \<Rightarrow> u32" where
  "bitAt b k = (if k div 8 < length b then ucast (shr (b ! (k div 8)) (7 - k mod 8)) AND 1 else 0)"

fun bits :: "bytes \<Rightarrow> nat \<Rightarrow> nat \<Rightarrow> u32" where
  "bits b off 0 = 0"
| "bits b off (Suc n) = shl (bits b off n) 1 OR bitAt b (off + n)"

text \<open>\<open>putBits\<close> writes one bit per round of its loop and stops at the end of the record.\<close>

definition putBit :: "bytes \<Rightarrow> nat \<Rightarrow> nat \<Rightarrow> nat \<Rightarrow> u32 \<Rightarrow> bytes" where
  "putBit b off n i v =
     (let idx = (off + i) div 8; shift = 7 - (off + i) mod 8; bt = shr v (n - 1 - i) AND 1
      in b[idx := (b ! idx AND NOT (shl 1 shift)) OR shl (ucast bt) shift])"

fun putLoop :: "bytes \<Rightarrow> nat \<Rightarrow> nat \<Rightarrow> nat list \<Rightarrow> u32 \<Rightarrow> bytes" where
  "putLoop b off n [] v = b"
| "putLoop b off n (i # is) v =
     (if (off + i) div 8 \<ge> length b then b else putLoop (putBit b off n i v) off n is v)"

definition putBits :: "bytes \<Rightarrow> nat \<Rightarrow> nat \<Rightarrow> u32 \<Rightarrow> bytes" where
  "putBits b off n v = putLoop b off n [0..<n] v"

section \<open>Settings\<close>

record Settings =
  ChannelA :: byte
  ChannelB :: byte
  DoubleChannel :: u8
  KISSEnabled :: bool

definition settingsMinLen :: nat where
  "settingsMinLen = 10"

definition ActiveChannel :: "Settings \<Rightarrow> byte \<times> bool" where
  "ActiveChannel s =
     (if DoubleChannel s = 0 \<or> DoubleChannel s = 1 then (ChannelA s, True)
      else if DoubleChannel s = 2 then (ChannelB s, True)
      else (0, False))"

definition DecodeSettings :: "bytes \<Rightarrow> benshi_error + Settings" where
  "DecodeSettings body =
     (case body of
        [] \<Rightarrow> Inl ShortSettings
      | st # b \<Rightarrow>
          if st \<noteq> 0 then Inl (RadioRejected ''READ_SETTINGS'' st)
          else if length b < settingsMinLen then Inl ShortSettings
          else Inr \<lparr>ChannelA = shl (ucast (bits b 72 4)) 4 OR ucast (bits b 0 4),
                    ChannelB = shl (ucast (bits b 76 4)) 4 OR ucast (bits b 4 4),
                    DoubleChannel = ucast (bits b 10 2),
                    KISSEnabled = (bits b 70 1 \<noteq> 0)\<rparr>)"

record SettingsRec =
  srRaw :: bytes

definition ParseSettingsRec :: "bytes \<Rightarrow> benshi_error + SettingsRec" where
  "ParseSettingsRec body =
     (case DecodeSettings body of Inl e \<Rightarrow> Inl e | Inr _ \<Rightarrow> Inr \<lparr>srRaw = drop 1 body\<rparr>)"

text \<open>The error of the decoder is discarded; the zero value is then returned.\<close>

definition SettingsRec_Settings :: "SettingsRec \<Rightarrow> Settings" where
  "SettingsRec_Settings s =
     (case DecodeSettings (0x00 # srRaw s) of
        Inr st \<Rightarrow> st
      | Inl _ \<Rightarrow> \<lparr>ChannelA = 0, ChannelB = 0, DoubleChannel = 0, KISSEnabled = False\<rparr>)"

definition WithDoubleChannel :: "SettingsRec \<Rightarrow> u8 \<Rightarrow> SettingsRec" where
  "WithDoubleChannel s dc = \<lparr>srRaw = putBits (srRaw s) 10 2 (ucast dc)\<rparr>"

definition WithChannelA :: "SettingsRec \<Rightarrow> byte \<Rightarrow> SettingsRec" where
  "WithChannelA s cid =
     \<lparr>srRaw = putBits (putBits (srRaw s) 0 4 (ucast (cid AND 0x0F))) 72 4 (ucast (shr cid 4))\<rparr>"

definition SettingsRec_Bytes :: "SettingsRec \<Rightarrow> bytes" where
  "SettingsRec_Bytes s = srRaw s"

text \<open>\<open>Equal\<close>: same length and equal bytes, compared one by one.\<close>

definition rawEqual :: "bytes \<Rightarrow> bytes \<Rightarrow> bool" where
  "rawEqual a b \<longleftrightarrow> length a = length b \<and> list_all2 (=) a b"

definition SettingsRec_Equal :: "SettingsRec \<Rightarrow> SettingsRec \<Rightarrow> bool" where
  "SettingsRec_Equal s u \<longleftrightarrow> rawEqual (srRaw s) (srRaw u)"

section \<open>Beacon settings and device information\<close>

definition bssMinLen :: nat where "bssMinLen = 2"
definition aprsEnableBit :: byte where "aprsEnableBit = 0x10"

record BSSRec =
  bssRaw :: bytes

definition ParseBSSRec :: "bytes \<Rightarrow> benshi_error + BSSRec" where
  "ParseBSSRec body =
     (case body of
        [] \<Rightarrow> Inl ShortBSS
      | st # r \<Rightarrow>
          if st \<noteq> 0 then Inl (RadioRejected ''READ_BSS_SETTINGS'' st)
          else if length r < bssMinLen then Inl ShortBSS
          else Inr \<lparr>bssRaw = r\<rparr>)"

definition APRSEnabled :: "BSSRec \<Rightarrow> bool" where
  "APRSEnabled b \<longleftrightarrow> bssRaw b ! 1 AND aprsEnableBit \<noteq> 0"

definition WithAPRSEnabled :: "BSSRec \<Rightarrow> bool \<Rightarrow> BSSRec" where
  "WithAPRSEnabled b on =
     (let raw = bssRaw b
      in \<lparr>bssRaw = raw[1 := (if on then raw ! 1 OR aprsEnableBit else raw ! 1 AND NOT aprsEnableBit)]\<rparr>)"

definition BSSRec_Bytes :: "BSSRec \<Rightarrow> bytes" where
  "BSSRec_Bytes b = bssRaw b"

definition BSSRec_Equal :: "BSSRec \<Rightarrow> BSSRec \<Rightarrow> bool" where
  "BSSRec_Equal b c \<longleftrightarrow> rawEqual (bssRaw b) (bssRaw c)"

record DevInfo =
  VendorID :: u8
  ProductID :: u16
  HWVer :: u8
  SoftVer :: u16

definition devInfoLen :: nat where "devInfoLen = 10"

definition DecodeDevInfo :: "bytes \<Rightarrow> benshi_error + DevInfo" where
  "DecodeDevInfo body =
     (case body of
        [] \<Rightarrow> Inl ShortBody
      | st # b \<Rightarrow>
          if st \<noteq> 0 then Inl (RadioRejected ''GET_DEV_INFO'' st)
          else if length b < devInfoLen then Inl ShortBody
          else Inr \<lparr>VendorID = b ! 0, ProductID = shl (ucast (b ! 1)) 8 OR ucast (b ! 2),
                    HWVer = b ! 3, SoftVer = shl (ucast (b ! 4)) 8 OR ucast (b ! 5)\<rparr>)"

definition DevInfo_String :: "DevInfo \<Rightarrow> string" where
  "DevInfo_String d =
     ''vendor '' @ show_nat (unat (VendorID d)) @ '', product '' @ show_nat (unat (ProductID d))
     @ '', hw '' @ show_nat (unat (HWVer d)) @ '', firmware '' @ show_nat (unat (SoftVer d))"

section \<open>The bits of a record\<close>

text \<open>Bit \<open>k\<close> of a record, counted from its most significant bit.\<close>

definition testBit :: "bytes \<Rightarrow> nat \<Rightarrow> bool" where
  "testBit b k \<longleftrightarrow> k div 8 < length b \<and> bit (b ! (k div 8)) (7 - k mod 8)"

lemma bit_bitAt: "bit (bitAt b k) j \<longleftrightarrow> j = 0 \<and> testBit b k"
  by (auto simp: bitAt_def testBit_def bit_simps bit_shr bit_1_iff)

lemma bit_bits: "n \<le> 32 \<Longrightarrow> bit (bits b off n) j \<longleftrightarrow> j < n \<and> testBit b (off + n - 1 - j)"
proof (induction n arbitrary: j)
  case step: (Suc n)
  have "bit (bits b off (Suc n)) j \<longleftrightarrow> 1 \<le> j \<and> j < 32 \<and> bit (bits b off n) (j - 1) \<or> j = 0 \<and> testBit b (off + n)"
    by (simp add: bit_or_iff bit_shl bit_bitAt)
  also have "\<dots> \<longleftrightarrow> j < Suc n \<and> testBit b (off + Suc n - 1 - j)"
  proof (cases j)
    case (Suc m)
    have "m < n \<Longrightarrow> m < 31" using step.prems by simp
    moreover have "bit (bits b off n) m \<longleftrightarrow> m < n \<and> testBit b (off + n - 1 - m)" using step.IH [of m] step.prems by simp
    ultimately show ?thesis unfolding Suc by auto
  qed simp
  finally show ?case .
qed simp

lemma length_putLoop [simp]: "length (putLoop b off n is v) = length b"
  by (induction b off n "is" v rule: putLoop.induct) (simp_all add: putBit_def Let_def)

lemma length_putBits [simp]: "length (putBits b off n v) = length b"
  by (simp add: putBits_def)

lemma bit_index: "k div 8 = m div 8 \<Longrightarrow> 7 - k mod 8 = 7 - m mod 8 \<longleftrightarrow> k = (m :: nat)"
proof -
  assume d: "k div 8 = m div 8"
  have "k mod 8 < 8" "m mod 8 < 8" by simp_all
  then have "7 - k mod 8 = 7 - m mod 8 \<longleftrightarrow> k mod 8 = m mod 8" by arith
  also have "\<dots> \<longleftrightarrow> k = m" using d by (metis div_mult_mod_eq)
  finally show ?thesis .
qed

declare bits.simps [simp del]

lemma testBit_putBit:
  assumes "(off + i) div 8 < length b"
  shows "testBit (putBit b off n i v) k \<longleftrightarrow> (if k = off + i then bit v (n - 1 - i) else testBit b k)"
proof (cases "k div 8 = (off + i) div 8")
  case True
  have "7 - k mod 8 < 8" by simp
  then have "bit ((x AND NOT (shl 1 s)) OR shl (ucast (shr v m AND 1)) s) (7 - k mod 8) \<longleftrightarrow>
      (if 7 - k mod 8 = s then bit v m else bit x (7 - k mod 8))" for x :: u8 and s m
    by (auto simp: bit_simps bit_shl bit_shr bit_1_iff)
  then show ?thesis
    using assms True bit_index [OF True] by (simp add: testBit_def putBit_def Let_def)
next
  case False
  then show ?thesis by (auto simp: testBit_def putBit_def Let_def)
qed

lemma length_putBit [simp]: "length (putBit b off n i v) = length b"
  by (simp add: putBit_def Let_def)

lemma testBit_putLoop:
  assumes "\<forall>i\<in>set is. (off + i) div 8 < length b"
  shows "testBit (putLoop b off n is v) k \<longleftrightarrow>
    (if off \<le> k \<and> k - off \<in> set is then bit v (n - 1 - (k - off)) else testBit b k)"
  using assms
proof (induction "is" arbitrary: b)
  case (Cons i "is")
  then have "testBit (putLoop b off n (i # is) v) k \<longleftrightarrow>
     (if off \<le> k \<and> k - off \<in> set is then bit v (n - 1 - (k - off)) else testBit (putBit b off n i v) k)"
    by (simp add: Cons.IH)
  with Cons.prems show ?case by (auto simp: testBit_putBit)
qed simp

text \<open>Inside the record \<open>putBits\<close> writes exactly the bits of its range.\<close>

lemma testBit_putBits:
  assumes "off + n \<le> 8 * length b"
  shows "testBit (putBits b off n v) k \<longleftrightarrow>
    (if off \<le> k \<and> k < off + n then bit v (n - 1 - (k - off)) else testBit b k)"
proof -
  have "(off + i) div 8 < length b" if "i < n" for i
    using assms that by (simp add: less_mult_imp_div_less mult.commute)
  then show ?thesis using testBit_putLoop [of "[0..<n]" off b n v k] by (auto simp: putBits_def)
qed

lemma bits_putBits_same:
  assumes "off + n \<le> 8 * length b" "n \<le> 32"
  shows "bits (putBits b off n v) off n = take_bit n v"
  by (rule bit_word_eqI) (use assms in \<open>auto simp: bit_bits testBit_putBits bit_take_bit_iff\<close>)

lemma bits_putBits_other:
  assumes "off + n \<le> 8 * length b" "m \<le> 32" "o' + m \<le> off \<or> off + n \<le> o'"
  shows "bits (putBits b off n v) o' m = bits b o' m"
  by (rule bit_word_eqI) (use assms in \<open>auto simp: bit_bits testBit_putBits\<close>)

text \<open>Two records of the same length with the same bits are the same record.\<close>

lemma testBit_eqI:
  assumes "length a = length b" "\<And>k. testBit a k = testBit b k"
  shows "a = b"
proof (rule nth_equalityI)
  fix i assume i: "i < length a"
  have at: "testBit c (8 * i + j) \<longleftrightarrow> i < length c \<and> bit (c ! i) (7 - j)" if "j < 8" for c j
    using that by (simp add: testBit_def)
  show "a ! i = b ! i"
  proof (rule bit_word_eqI)
    fix n assume "n < LENGTH(8)"
    then show "bit (a ! i) n = bit (b ! i) n"
      using assms(2) [of "8 * i + (7 - n)"] at [of "7 - n"] assms(1) i by simp
  qed
qed (rule assms)

lemma rawEqual_iff: "rawEqual a b \<longleftrightarrow> a = b"
  by (auto simp: rawEqual_def list.rel_eq)

section \<open>Patching settings\<close>

definition settings_ok :: "SettingsRec \<Rightarrow> bool" where
  "settings_ok s \<longleftrightarrow> settingsMinLen \<le> length (srRaw s)"

lemma ParseSettingsRec_ok: "ParseSettingsRec body = Inr s \<Longrightarrow> settings_ok s"
  by (auto simp: ParseSettingsRec_def DecodeSettings_def settings_ok_def split: list.splits if_splits)

lemma nibbles: "shl (shr (x :: u8) 4) 4 OR (x AND 0x0F) = x"
proof (rule bit_word_eqI)
  fix n assume "n < LENGTH(8)"
  then show "bit (shl (shr x 4) 4 OR (x AND 0x0F)) n = bit x n"
    by (cases "n < 4") (auto simp: bit_simps bit_shl bit_shr and_low_mask)
qed

lemma low_nibble: "take_bit 4 (ucast ((x :: u8) AND 0x0F) :: u32) = ucast (x AND 0x0F)"
  "take_bit 4 (ucast (shr (x :: u8) 4) :: u32) = ucast (shr x 4)"
  by (rule bit_word_eqI; auto simp: bit_simps and_low_mask bit_shr dest: bit_u8_bound)+

lemma ucast_ucast8: "(ucast (ucast (x :: u8) :: u32) :: u8) = x"
  by (rule bit_word_eqI) (simp add: bit_simps)

lemma Settings_WithChannelA:
  assumes "settings_ok s"
  shows "SettingsRec_Settings (WithChannelA s cid) = (SettingsRec_Settings s)\<lparr>ChannelA := cid\<rparr>"
proof -
  have l: "10 \<le> length (srRaw s)" using assms by (simp add: settings_ok_def settingsMinLen_def)
  then show ?thesis
    by (simp add: SettingsRec_Settings_def WithChannelA_def DecodeSettings_def settingsMinLen_def
      bits_putBits_same bits_putBits_other low_nibble ucast_ucast8 nibbles)
qed

lemma Settings_WithDoubleChannel:
  assumes "settings_ok s" "dc < 4"
  shows "SettingsRec_Settings (WithDoubleChannel s dc) = (SettingsRec_Settings s)\<lparr>DoubleChannel := dc\<rparr>"
proof -
  have l: "10 \<le> length (srRaw s)" using assms by (simp add: settings_ok_def settingsMinLen_def)
  have "take_bit 2 (ucast dc :: u32) = ucast dc"
    using bit_small [of dc 2] assms(2) by (intro bit_word_eqI) (auto simp: bit_simps word_less_nat_alt)
  with l show ?thesis
    by (simp add: SettingsRec_Settings_def WithDoubleChannel_def DecodeSettings_def settingsMinLen_def
      bits_putBits_same bits_putBits_other ucast_ucast8)
qed

section \<open>Patching channel records\<close>

lemma freqMask_mask: "freqMask = mask 30"
  by (simp add: freqMask_def mask_numeral)

lemma bit_freqMask: "bit (x AND freqMask) n \<longleftrightarrow> n < 30 \<and> bit (x :: u32) n"
  by (auto simp: freqMask_mask bit_simps)

lemma length_putFreq [simp]: "length (putFreq w hz) = 4"
  by (simp add: putFreq_def Let_def)

lemma putFreq_head: "bit (putFreq w hz ! 0) n \<longleftrightarrow> (if n < 6 then bit (hz AND freqMask) (24 + n) else bit w n)"
proof (cases "n < 8")
  case True
  have m: "bit (0xC0 :: u8) n \<longleftrightarrow> n = 6 \<or> n = 7" using bit_u8_cases [of "0xC0" n] by auto
  have "bit (putFreq w hz ! 0) n \<longleftrightarrow> n < 6 \<and> bit (hz AND freqMask) (24 + n) \<or> bit w n \<and> (n = 6 \<or> n = 7)"
    by (auto simp: putFreq_def bePut32_def Let_def bit_or_iff bit_and_iff and_low_mask bit_take_bit_iff
      bit_unsigned_iff bit_shr m simp del: bit_numeral_word_iff)
  with True show ?thesis by (auto simp: bit_freqMask)
next
  case False
  then show ?thesis using bit_u8_bound [of _ n] by (auto simp: bit_freqMask)
qed

lemma putFreq_tail: "putFreq w hz ! Suc i = bePut32 (hz AND freqMask) ! Suc i"
  by (simp add: putFreq_def Let_def)

lemma div_mod_8: "8 * q \<le> n \<Longrightarrow> n < 8 * q + 8 \<Longrightarrow> n div 8 = q \<and> n mod 8 = n - 8 * (q :: nat)"
proof -
  assume "8 * q \<le> n" "n < 8 * q + 8"
  then have "n div 8 = q" by (intro div_nat_eqI) simp_all
  then show ?thesis by (simp add: modulo_nat_def mult.commute)
qed

lemma bit_beUint32:
  assumes "n < 32"
  shows "bit (beUint32 b) n \<longleftrightarrow> bit (b ! (3 - n div 8)) (n mod 8)"
proof -
  have "bit (beUint32 b) n \<longleftrightarrow> (24 \<le> n \<and> bit (b ! 0) (n - 24)) \<or> (16 \<le> n \<and> bit (b ! 1) (n - 16))
      \<or> (8 \<le> n \<and> bit (b ! 2) (n - 8)) \<or> bit (b ! 3) n"
    using assms by (auto simp: beUint32_def bit_or_iff bit_shl bit_unsigned_iff)
  note spread = this
  consider "n < 8" | "8 \<le> n" "n < 16" | "16 \<le> n" "n < 24" | "24 \<le> n" "n < 32" using assms by fastforce
  then show ?thesis
  proof cases
    case 1
    then show ?thesis using spread by simp
  next
    case 2
    then have "n div 8 = 1" "n mod 8 = n - 8" "\<not> n < 8" using div_mod_8 [of 1 n] by simp_all
    with 2 show ?thesis using spread by (auto simp: numeral_2_eq_2 dest: bit_u8_bound)
  next
    case 3
    then have "n div 8 = 2" "n mod 8 = n - 16" "\<not> n < 8" "\<not> n - 8 < 8" using div_mod_8 [of 2 n] by simp_all
    with 3 show ?thesis using spread by (auto simp: numeral_2_eq_2 simp del: less_diff_conv2 dest: bit_u8_bound)
  next
    case 4
    then have "n div 8 = 3" "n mod 8 = n - 24" "\<not> n < 8" "\<not> n - 8 < 8" "\<not> n - 16 < 8"
      using div_mod_8 [of 3 n] by simp_all
    with 4 show ?thesis using spread by (auto dest: bit_u8_bound)
  qed
qed

lemma putFreq_value: "beUint32 (putFreq w hz) AND freqMask = hz AND freqMask"
proof (rule bit_word_eqI)
  fix n assume n: "n < LENGTH(32)"
  have v: "bit (hz AND freqMask) n \<longleftrightarrow> bit (bePut32 (hz AND freqMask) ! (3 - n div 8)) (n mod 8)"
    using n bit_beUint32 [of n "bePut32 (hz AND freqMask)"] by (simp add: beUint32_bePut32)
  show "bit (beUint32 (putFreq w hz) AND freqMask) n = bit (hz AND freqMask) n"
  proof (cases "n < 24")
    case True
    then have "3 - n div 8 = Suc (2 - n div 8)" by auto
    with v n True show ?thesis by (simp add: bit_freqMask bit_beUint32 putFreq_tail)
  next
    case False
    with n have "n div 8 = 3" "n mod 8 = n - 24" using div_mod_8 [of 3 n] by simp_all
    with n False have "bit (beUint32 (putFreq w hz)) n \<longleftrightarrow> (if n - 24 < 6 then bit (hz AND freqMask) n else bit w (n - 24))"
      by (simp add: bit_beUint32 putFreq_head)
    with False show ?thesis by (auto simp: bit_freqMask)
  qed
qed

definition rfch_ok :: "RFCh \<Rightarrow> bool" where
  "rfch_ok c \<longleftrightarrow> RFChLen \<le> length (rfRaw c)"

lemma ParseRFCh_ok: "ParseRFCh b = Inr c \<Longrightarrow> rfch_ok c \<and> RFCh_Bytes c = b"
  by (auto simp: ParseRFCh_def rfch_ok_def RFCh_Bytes_def split: if_splits)

lemma WithFreq_slices:
  assumes "rfch_ok c"
  shows "goSlice 1 5 (rfRaw (WithFreq c hz)) = putFreq (rfRaw c ! 1) hz"
    "goSlice 5 9 (rfRaw (WithFreq c hz)) = putFreq (rfRaw c ! 5) hz"
    "take 1 (rfRaw (WithFreq c hz)) = take 1 (rfRaw c)" "drop 9 (rfRaw (WithFreq c hz)) = drop 9 (rfRaw c)"
    "length (rfRaw (WithFreq c hz)) = length (rfRaw c)"
proof -
  obtain x xs where x: "rfRaw c = x # xs" "24 \<le> length xs"
    using assms by (cases "rfRaw c") (auto simp: rfch_ok_def RFChLen_def)
  have w: "rfRaw (WithFreq c hz) = [x] @ putFreq (rfRaw c ! 1) hz @ putFreq (rfRaw c ! 5) hz @ drop 8 xs"
    by (simp add: WithFreq_def Let_def x)
  show "goSlice 1 5 (rfRaw (WithFreq c hz)) = putFreq (rfRaw c ! 1) hz"
    "goSlice 5 9 (rfRaw (WithFreq c hz)) = putFreq (rfRaw c ! 5) hz"
    "take 1 (rfRaw (WithFreq c hz)) = take 1 (rfRaw c)" "drop 9 (rfRaw (WithFreq c hz)) = drop 9 (rfRaw c)"
    "length (rfRaw (WithFreq c hz)) = length (rfRaw c)"
    unfolding w goSlice_def using x by simp_all
qed

lemma WithFreq_freqs:
  assumes "rfch_ok c"
  shows "TXFreqHz (WithFreq c hz) = hz AND freqMask" "RXFreqHz (WithFreq c hz) = hz AND freqMask"
  using WithFreq_slices [OF assms, of hz] by (simp_all add: TXFreqHz_def RXFreqHz_def putFreq_value)

lemma WithFreq_nth:
  assumes "rfch_ok c"
  shows "rfRaw (WithFreq c hz) ! 1 = putFreq (rfRaw c ! 1) hz ! 0" "rfRaw (WithFreq c hz) ! 5 = putFreq (rfRaw c ! 5) hz ! 0"
  using assms by (auto simp: WithFreq_def Let_def nth_append rfch_ok_def RFChLen_def)

lemma WithFreq_modulation:
  assumes "rfch_ok c"
  shows "rfRaw (WithFreq c hz) ! 1 AND 0xC0 = rfRaw c ! 1 AND 0xC0" "rfRaw (WithFreq c hz) ! 5 AND 0xC0 = rfRaw c ! 5 AND 0xC0"
proof -
  have m: "bit (0xC0 :: u8) n \<longleftrightarrow> n = 6 \<or> n = 7" for n using bit_u8_cases [of "0xC0" n] by auto
  have "putFreq w hz ! 0 AND 0xC0 = w AND 0xC0" for w
    by (rule bit_word_eqI) (auto simp: bit_and_iff putFreq_head m simp del: bit_numeral_word_iff)
  then show "rfRaw (WithFreq c hz) ! 1 AND 0xC0 = rfRaw c ! 1 AND 0xC0"
    "rfRaw (WithFreq c hz) ! 5 AND 0xC0 = rfRaw c ! 5 AND 0xC0"
    by (simp_all only: WithFreq_nth [OF assms])
qed

lemma WithFreq_Name:
  assumes "rfch_ok c"
  shows "RFCh_Name (WithFreq c hz) = RFCh_Name c"
proof -
  have "goSlice 15 25 xs = take 10 (drop 6 (drop 9 xs))" for xs :: bytes by (simp add: goSlice_def)
  then have "goSlice 15 25 (rfRaw (WithFreq c hz)) = goSlice 15 25 (rfRaw c)"
    by (simp only: WithFreq_slices(4) [OF assms, of hz])
  then show ?thesis by (simp add: RFCh_Name_def rfChNameOff_def rfChNameLen_def)
qed

section \<open>Patching the beacon record\<close>

lemma aprs_bit: "x AND aprsEnableBit \<noteq> 0 \<longleftrightarrow> bit x 4"
  by (simp add: aprsEnableBit_def and_bit_nonzero)

lemma bit_aprsEnableBit: "bit aprsEnableBit n \<longleftrightarrow> n = 4"
  using bit_u8_cases [of aprsEnableBit n] by (auto simp: aprsEnableBit_def)

definition bss_ok :: "BSSRec \<Rightarrow> bool" where
  "bss_ok b \<longleftrightarrow> bssMinLen \<le> length (bssRaw b)"

lemma ParseBSSRec_ok: "ParseBSSRec body = Inr b \<Longrightarrow> bss_ok b \<and> body = 0 # BSSRec_Bytes b"
  by (auto simp: ParseBSSRec_def bss_ok_def BSSRec_Bytes_def split: list.splits if_splits)

lemma APRSEnabled_With: "bss_ok b \<Longrightarrow> APRSEnabled (WithAPRSEnabled b on) = on"
  by (auto simp: APRSEnabled_def WithAPRSEnabled_def Let_def aprs_bit bit_simps bit_aprsEnableBit bss_ok_def bssMinLen_def)

lemma With_others:
  "length (bssRaw (WithAPRSEnabled b on)) = length (bssRaw b)"
  "i \<noteq> 1 \<Longrightarrow> bssRaw (WithAPRSEnabled b on) ! i = bssRaw b ! i"
  "n \<noteq> 4 \<Longrightarrow> bss_ok b \<Longrightarrow> bit (bssRaw (WithAPRSEnabled b on) ! 1) n = bit (bssRaw b ! 1) n"
  using bit_u8_bound [of "bssRaw b ! 1" n]
  by (auto simp: WithAPRSEnabled_def Let_def bit_simps bit_aprsEnableBit bss_ok_def bssMinLen_def)

end
