(* ===== verification/Props_Link.thy ===== *)
theory Props_Link
  imports Engine Demux Agwpe Benshi_Records
begin

text \<open>
  The properties of the event loop and of the byte streams around it: KISS framing, the shared
  KISS and control stream, AGWPE clients and the radio-control protocol.
\<close>

section \<open>Event loop\<close>

text \<open>
  C26.  FIFO: in every reachable state of the loop and its concurrent posters, the functions that have
  run are a prefix, in order, of the functions posted; what has not run yet is in the current batch
  or in the queue, so nothing is lost, duplicated or reordered.
\<close>

theorem loop_fifo:
  assumes "loop_reachable s"
  shows "posted s = ran s @ batch (lpc s) @ lqueue s"
  using loop_reachable_inv [OF assms] by (simp add: loop_inv_def)

text \<open>A run that posts one function and executes it.\<close>

lemma one_post_run: "loop_reachable (loop0\<lparr>lpc := Running [], posting := 1, posted := [Fn ()], ran := [Fn ()]\<rparr>)"
proof -
  let ?a = "loop0\<lparr>lqueue := [Fn ()], posting := 1, posted := [Fn ()]\<rparr>"
  have 1: "loop_step loop0 ?a" using loop_step.append [of loop0 "Fn ()"] by (simp add: loop0_def)
  have 2: "loop_step ?a (?a\<lparr>lqueue := [], lpc := Running [Fn ()]\<rparr>)"
    using loop_step.drain [of ?a] by (simp add: loop0_def)
  have 3: "loop_step (?a\<lparr>lqueue := [], lpc := Running [Fn ()]\<rparr>)
      (loop0\<lparr>lpc := Running [], posting := 1, posted := [Fn ()], ran := [Fn ()]\<rparr>)"
    using loop_step.run [of "?a\<lparr>lqueue := [], lpc := Running [Fn ()]\<rparr>" "Fn ()" "[]"] by (simp add: loop0_def)
  show ?thesis unfolding loop_reachable_def
    by (rule rtranclp.rtrancl_into_rtrancl [OF rtranclp.rtrancl_into_rtrancl [OF r_into_rtranclp [of loop_step, OF 1] 2] 3])
qed

theorem loop_fifo_witness:
  "posted (loop0\<lparr>lpc := Running [], posting := 1, posted := [Fn ()], ran := [Fn ()]\<rparr>) = [Fn ()]"
  using loop_fifo [OF one_post_run] by (simp add: loop0_def)

text \<open>
  C27.  No lost wake-up: whenever the loop waits while functions are queued, the wake signal is set or
  a poster is about to set it, so the loop can always proceed to the queued work; and the loop waits
  only if \<open>Stop\<close> has not run.
\<close>

theorem no_lost_wakeup:
  assumes "loop_reachable s" "lpc s = Waiting"
  shows "(lqueue s = [] \<or> wake s \<or> posting s > 0) \<and> StopFn \<notin> set (ran s)"
  using loop_reachable_inv [OF assms(1)] assms(2) by (auto simp: loop_inv_def)

lemma waiting_run: "loop_reachable (loop0\<lparr>lpc := Waiting, lqueue := [Fn ()], posting := 1, posted := [Fn ()]\<rparr>)"
proof -
  let ?b = "loop0\<lparr>lpc := Running []\<rparr>" and ?c = "loop0\<lparr>lpc := Checking\<rparr>" and ?d = "loop0\<lparr>lpc := Waiting\<rparr>"
  have 1: "loop_step loop0 ?b" using loop_step.drain [of loop0] by (simp add: loop0_def)
  have 2: "loop_step ?b ?c" using loop_step.batch_done [of ?b] by (simp add: loop0_def)
  have 3: "loop_step ?c ?d" using loop_step.block [of ?c] by (simp add: loop0_def)
  have 4: "loop_step ?d (loop0\<lparr>lpc := Waiting, lqueue := [Fn ()], posting := 1, posted := [Fn ()]\<rparr>)"
    using loop_step.append [of ?d "Fn ()"] by (simp add: loop0_def)
  show ?thesis unfolding loop_reachable_def
    by (rule rtranclp.rtrancl_into_rtrancl [OF rtranclp.rtrancl_into_rtrancl
          [OF rtranclp.rtrancl_into_rtrancl [OF r_into_rtranclp [of loop_step, OF 1] 2] 3] 4])
qed

theorem no_lost_wakeup_witness:
  "StopFn \<notin> set (ran (loop0\<lparr>lpc := Waiting, lqueue := [Fn ()], posting := 1, posted := [Fn ()]\<rparr>))"
  using no_lost_wakeup [OF waiting_run] by (simp add: loop0_def)

text \<open>
  A timer cancelled before its callback has tested the cancelled flag posts nothing, however
  late it is, and cancelling it does not touch what is already queued or about to be posted.
\<close>

theorem cancelled_timer_silent:
  "Fire (Tick (Cancel e tid) d) tid = Tick (Cancel e tid) d
   \<and> queue (Cancel e tid) = queue e \<and> firing (Cancel e tid) = firing e"
proof -
  have "tid \<notin> armedIds (Tick (Cancel e tid) d)" by (auto simp: Tick_def armedIds_def Cancel_def)
  then show ?thesis using Fire_not_armed by (simp add: Cancel_def)
qed

section \<open>KISS\<close>

text \<open>
  C28.  KISS round trip: any sequence of data frames, each written by \<open>WrapData\<close> for a port other than
  12 modulo 16 (whose command byte would be FEND), is read back in order and unaltered, whatever
  bytes the payloads contain and however the stream is cut into reads.
\<close>

theorem kiss_roundtrip:
  assumes "at_boundary d" "\<forall>(p, x)\<in>set fs. p AND 0x0F \<noteq> 12 \<and> length x < MaxFrameSize"
    and "concat chunks = concat (map (\<lambda>(p, x). WrapData p x) fs)"
  shows "snd (kiss_stream.feed_all d chunks) = map (\<lambda>(p, x). shl p 4 # x) fs"
proof -
  let ?gs = "map (\<lambda>(p, x). (shl p 4, x)) fs"
  have "snd (Feed d (concat (map (\<lambda>(cmd, data). [FEND, cmd] @ escapeBytes data @ [FEND]) ?gs)))
      = map (\<lambda>(cmd, data). cmd # data) ?gs"
    using assms(2) by (intro Feed_frames [OF assms(1)]) (auto simp: data_cmd_byte)
  moreover have "concat (map (\<lambda>(cmd, data). [FEND, cmd] @ escapeBytes data @ [FEND]) ?gs) = concat chunks"
    unfolding assms(3) by (simp add: WrapData_def comp_def case_prod_unfold)
  ultimately show ?thesis
    using kiss_stream.feed_all_concat [of d chunks] by (simp add: comp_def case_prod_unfold)
qed

theorem kiss_roundtrip_witness:
  "snd (kiss_stream.feed_all newDecoder [[0xC0, 0x10, 0xDB], [0xDC, 7, 0xC0]]) = [[0x10, 0xC0, 7]]"
proof -
  have "snd (kiss_stream.feed_all newDecoder [[0xC0, 0x10, 0xDB], [0xDC, 7, 0xC0]])
      = map (\<lambda>(p, x). shl p 4 # x) [(1, [0xC0, 7])]"
    by (rule kiss_roundtrip)
      (simp_all add: at_boundary_def newDecoder_def MaxFrameSize_def WrapData_def kiss_bytes shl_def)
  then show ?thesis by (simp add: shl_def)
qed

text \<open>
  Memory bound: from any decoder within the 8192-byte cap, no input makes it buffer more, and
  every frame it returns is non-empty and within the cap.
\<close>

theorem kiss_buffer_bounded:
  assumes "decoder_inv d"
  shows "decoder_inv (fst (Feed d p)) \<and> (\<forall>f\<in>set (snd (Feed d p)). f \<noteq> [] \<and> length f \<le> MaxFrameSize)"
  using Feed_inv [OF assms, of p "fst (Feed d p)" "snd (Feed d p)"] by simp

theorem kiss_buffer_bounded_witness:
  "length (buf (fst (Feed newDecoder (replicate 10 FEND)))) \<le> MaxFrameSize"
  using kiss_buffer_bounded [of newDecoder "replicate 10 FEND"] by (simp add: decoder_inv_def newDecoder_def)

text \<open>
  C36.  A kissPort whose low four bits are 12 makes \<open>WrapData\<close> write an unescaped FEND as its
  command byte: the receiver takes the payload for the frame and its first byte for the command.
\<close>

theorem kiss_port12_corrupts:
  assumes "at_boundary d" "p AND 0x0F = 12" "x \<noteq> []" "length x \<le> MaxFrameSize"
  shows "snd (Feed d (WrapData p x)) = [x]"
proof -
  let ?d = "d\<lparr>inFrame := True\<rparr>"
  have w: "WrapData p x = [FEND, FEND] @ escapeBytes x @ [FEND]"
    using data_cmd_byte(1) [of p] assms(2) by (simp add: WrapData_def)
  have "Feed d [FEND, FEND] = (?d, [])"
    using assms(1) by (cases d) (auto simp: feedByte_def at_boundary_def kiss_bytes)
  moreover have "Feed ?d (escapeBytes x) = (?d\<lparr>buf := x\<rparr>, [])"
    using Feed_escape [of ?d x] assms by (simp add: at_boundary_def)
  moreover have "Feed (?d\<lparr>buf := x\<rparr>) [FEND] = (?d\<lparr>buf := []\<rparr>, [x])"
    using assms(1,3) by (simp add: feedByte_def at_boundary_def kiss_bytes)
  ultimately show ?thesis unfolding w Feed_append by simp
qed

theorem kiss_port12_corrupts_witness: "snd (Feed newDecoder (WrapData 12 [1, 2, 3])) = [[1, 2, 3]]"
  by (rule kiss_port12_corrupts) (simp_all add: at_boundary_def newDecoder_def MaxFrameSize_def)

section \<open>The shared stream\<close>

text \<open>
  C29.  The run-based demultiplexer equals the byte-at-a-time reference, on every input and from
  every state it can be in, so its result does not depend on how the stream is cut into reads.
\<close>

theorem demux_equals_reference:
  assumes "demux_ok d"
  shows "demux_stream.feed_all room d chunks = refFeed room d (concat chunks)"
  using demux_stream.feed_all_concat [OF assms] by (simp add: demuxFeed_ref [OF assms])

theorem demux_equals_reference_witness:
  "demux_stream.feed_all (\<lambda>_ _. True) newDemux [[0xC0, 0], [9, 0xC0]] = refFeed (\<lambda>_ _. True) newDemux [0xC0, 0, 9, 0xC0]"
  using demux_equals_reference [of newDemux "\<lambda>_ _. True" "[[0xC0, 0], [9, 0xC0]]"]
  by (simp add: demux_ok_def newDemux_def)

text \<open>
  Separation: KISS frames and radio-control frames written to one link in any interleaving,
  whatever bytes they carry, reach their own consumer in order and unaltered, and the control
  assembly never buffers more than 264 bytes.
\<close>

theorem demux_separates:
  assumes "idle_demux d" "\<forall>f\<in>set fs. linkOk f" "ctrl d = Some ch" "\<And>f. room ch f"
  shows "snd (demuxFeed room d (concat (map linkBytes fs))) = concat (map linkKiss fs)
    \<and> gaiaOut (fst (demuxFeed room d (concat (map linkBytes fs)))) = gaiaOut d @ map (Pair ch) (concat (map linkGaia fs))"
proof -
  have ok: "demux_ok d" using assms(1) by (simp add: idle_demux_def demux_ok_def)
  show ?thesis using refFeed_interleaved [of d fs ch room] assms demuxFeed_ref [OF ok, of room] by fastforce
qed

lemma idle_new: "idle_demux (newDemux\<lparr>ctrl := Some 0\<rparr>)"
  by (simp add: idle_demux_def newDemux_def newDecoder_def at_boundary_def)

theorem demux_separates_witness:
  "snd (demuxFeed (\<lambda>_ _. True) (newDemux\<lparr>ctrl := Some 0\<rparr>)
     (concat (map linkBytes [GaiaFrame 0 1 [1, 0xC0, 3, 4, 5], KissFrame 0 [0xFF, 1]]))) = [[0, 0xFF, 1]]"
proof -
  have ok: "\<forall>f\<in>set [GaiaFrame 0 1 [1, 0xC0, 3, 4, 5], KissFrame 0 [0xFF, 1]]. linkOk f"
    by (simp add: gaia_consts kiss_bytes MaxFrameSize_def)
  show ?thesis using demux_separates [OF idle_new ok, of 0 "\<lambda>_ _. True"] by simp
qed

section \<open>AGWPE clients\<close>

text \<open>
  C30.  A client that writes AGWPE frames one after the other, in any segmentation of its TCP stream,
  has exactly those frames handled, in order, with the port, kind, PID, callsigns and payload it
  wrote; nothing stays in the buffer.
\<close>

theorem agwpe_stream_roundtrip:
  assumes "\<forall>(p, k, i, f, t, x)\<in>set ms. callField f \<and> callField t \<and> length x \<le> MaxPayload"
    and "concat chunks = concat (map (\<lambda>(p, k, i, f, t, x). Build p k i f t x) ms)"
  shows "agwpe_stream.feed_all (Some []) chunks =
    (Some [], map (\<lambda>(p, k, i, f, t, x). (\<lparr>hPort = p, Kind = k, hPID = i, CallFrom = f, CallTo = t,
        DataLen = word_of_nat (length x)\<rparr>, x)) ms)"
proof -
  have empty: "reassemble [] = ([], Some [])" by (subst reassemble.simps) (simp add: HeaderSize_def)
  have "reassemble (concat (map (\<lambda>(p, k, i, f, t, x). Build p k i f t x) ms)) =
      (map (\<lambda>(p, k, i, f, t, x). (\<lparr>hPort = p, Kind = k, hPID = i, CallFrom = f, CallTo = t,
          DataLen = word_of_nat (length x)\<rparr>, x)) ms, Some [])"
    using assms(1)
  proof (induction ms)
    case (Cons m ms)
    obtain p k i f t x where "m = (p, k, i, f, t, x)" by (cases m) auto
    with Cons show ?case by (simp add: reassemble_Build)
  qed (simp add: empty)
  then show ?thesis
    using agwpe_stream.feed_all_concat [of "Some []" chunks] assms(2)
    by (simp add: clientRead_def client_ok_def empty)
qed

theorem agwpe_stream_roundtrip_witness:
  "agwpe_stream.feed_all (Some []) [take 20 (Build 0 88 0 ''KU0HN'' '''' [1, 2]), drop 20 (Build 0 88 0 ''KU0HN'' '''' [1, 2])]
   = (Some [], [(\<lparr>hPort = 0, Kind = 88, hPID = 0, CallFrom = ''KU0HN'', CallTo = '''', DataLen = 2\<rparr>, [1, 2])])"
proof -
  have "\<forall>(p, k, i, f, t, x)\<in>set [(0, 88, 0, ''KU0HN'', '''', [1, 2])].
      callField f \<and> callField t \<and> length x \<le> MaxPayload" by (simp add: callField_def MaxPayload_def)
  from agwpe_stream_roundtrip [OF this, of "[take 20 (Build 0 88 0 ''KU0HN'' '''' [1, 2]),
      drop 20 (Build 0 88 0 ''KU0HN'' '''' [1, 2])]"] show ?thesis by simp
qed

text \<open>
  Whatever a client sends, the bytes kept for it after a read are fewer than one header and the
  largest payload; a frame announcing a larger payload closes the client.
\<close>

theorem agwpe_buffer_bounded:
  assumes "clientRead st p = (Some rest, fs)"
  shows "length rest < HeaderSize + MaxPayload"
  using assms reassemble_rest by (auto simp: clientRead_def split: option.splits prod.splits)

lemma clientRead_short: "clientRead (Some []) [1, 2, 3] = (Some [1, 2, 3], [])"
  by (simp add: clientRead_def, subst reassemble.simps) (simp add: HeaderSize_def)

theorem agwpe_buffer_bounded_witness:
  "clientRead (Some []) [1, 2, 3] = (Some [1, 2, 3], []) \<and> length [1, 2, 3 :: u8] < HeaderSize + MaxPayload"
  using clientRead_short agwpe_buffer_bounded [OF clientRead_short] by simp

section \<open>Radio control\<close>

text \<open>
  Control frames round trip: any sequence of representable messages, wrapped in frames, cut
  into reads in any way, is decoded to the same messages in order, and the decoder's buffer is
  empty afterwards.
\<close>

theorem benshi_roundtrip:
  assumes "\<forall>m\<in>set ms. bCommand m < replyBit \<and> length (Body m) \<le> 255"
    and "concat chunks = concat (map (\<lambda>m. Frame_Bytes \<lparr>Flags = 0, Data = Message_Bytes m\<rparr>) ms)"
  shows "fst (benshi_stream.feed_all [] chunks) = []
    \<and> map (\<lambda>f. DecodeMessage (Data f)) (snd (benshi_stream.feed_all [] chunks)) = map Inr ms"
proof -
  let ?fs = "map (\<lambda>m. \<lparr>Flags = 0, Data = Message_Bytes m\<rparr>) ms"
  have len: "length (Message_Bytes m) = 4 + length (Body m)" for m by (simp add: Message_Bytes_def Let_def)
  have "list_all wf_bframe ?fs" using assms(1) by (simp add: list_all_iff wf_bframe_def len benshi_consts)
  from drain_frames [OF this] have "drain (concat chunks) = (?fs, [])" by (simp add: assms(2) comp_def)
  moreover have "drain [] = ([], [])" by (subst drain.simps) (simp add: frameHeaderLen_def)
  ultimately have "benshi_stream.feed_all [] chunks = ([], ?fs)"
    using benshi_stream.feed_all_concat [of "[]" chunks] by (simp add: Decoder_Feed_def)
  then show ?thesis using assms(1) by (simp add: benshi_message.dec_enc)
qed

theorem benshi_roundtrip_witness:
  "map (\<lambda>f. DecodeMessage (Data f)) (snd (benshi_stream.feed_all [] [[0xFF, 1, 0], [1, 0, 2, 0, 10, 7]]))
   = [Inr \<lparr>Group = 2, IsReply = False, bCommand = 10, Body = [7]\<rparr>]"
proof -
  let ?m = "\<lparr>Group = 2, IsReply = False, bCommand = 10, Body = [7]\<rparr> :: Message"
  have "concat [[0xFF, 1, 0], [1, 0, 2, 0, 10, 7]] = concat (map (\<lambda>m. Frame_Bytes \<lparr>Flags = 0, Data = Message_Bytes m\<rparr>) [?m])"
    by (simp add: Frame_Bytes_def Message_Bytes_def benshi_consts bePut16_def shr_def replyBit_def)
  from benshi_roundtrip [OF _ this] show ?thesis by (simp add: replyBit_def)
qed

text \<open>
  Retuning patches a channel record exactly: both frequencies become the requested one (its
  low 30 bits), while the modulation bits, the channel id, the name, everything from byte 9 on and
  the record's length are the radio's own.
\<close>

theorem retune_patches_exactly:
  assumes "ParseRFCh raw = Inr c"
  shows "TXFreqHz (WithFreq c hz) = hz AND freqMask \<and> RXFreqHz (WithFreq c hz) = hz AND freqMask
    \<and> rfRaw (WithFreq c hz) ! 1 AND 0xC0 = raw ! 1 AND 0xC0 \<and> rfRaw (WithFreq c hz) ! 5 AND 0xC0 = raw ! 5 AND 0xC0
    \<and> take 1 (rfRaw (WithFreq c hz)) = take 1 raw \<and> drop 9 (rfRaw (WithFreq c hz)) = drop 9 raw
    \<and> length (rfRaw (WithFreq c hz)) = length raw \<and> RFCh_Name (WithFreq c hz) = RFCh_Name c"
proof -
  have ok: "rfch_ok c" and raw: "rfRaw c = raw" using ParseRFCh_ok [OF assms] by (simp_all add: RFCh_Bytes_def)
  note facts = WithFreq_freqs [OF ok] WithFreq_modulation [OF ok] WithFreq_slices [OF ok] WithFreq_Name [OF ok]
  show ?thesis unfolding raw [symmetric] using facts by (simp only: simp_thms)
qed

theorem retune_patches_exactly_witness:
  "TXFreqHz (WithFreq \<lparr>rfRaw = replicate 25 0xFF\<rparr> 146520000) = 146520000"
  using retune_patches_exactly [of "replicate 25 0xFF" "\<lparr>rfRaw = replicate 25 0xFF\<rparr>" 146520000]
  by (simp add: ParseRFCh_def RFChLen_def freqMask_def)

text \<open>
  Settings writes: selecting channel A or the dual-watch mode in a settings record accepted
  from the radio changes that setting alone, as the decoder reads the record back, and keeps its length.
\<close>

theorem settings_patches_exactly:
  assumes "ParseSettingsRec body = Inr s" "dc < 4"
  shows "SettingsRec_Settings (WithChannelA s cid) = (SettingsRec_Settings s)\<lparr>ChannelA := cid\<rparr>
    \<and> SettingsRec_Settings (WithDoubleChannel s dc) = (SettingsRec_Settings s)\<lparr>DoubleChannel := dc\<rparr>
    \<and> length (srRaw (WithChannelA s cid)) = length (srRaw s) \<and> length (srRaw (WithDoubleChannel s dc)) = length (srRaw s)"
proof -
  have ok: "settings_ok s" using assms(1) by (rule ParseSettingsRec_ok)
  show ?thesis
    using Settings_WithChannelA [OF ok] Settings_WithDoubleChannel [OF ok assms(2)]
    by (simp add: WithChannelA_def WithDoubleChannel_def)
qed

lemma parse_zero_settings: "ParseSettingsRec (replicate 11 0) = Inr \<lparr>srRaw = replicate 10 0\<rparr>"
  by (simp add: ParseSettingsRec_def DecodeSettings_def settingsMinLen_def numeral_eq_Suc)

theorem settings_patches_exactly_witness:
  "ChannelA (SettingsRec_Settings (WithChannelA \<lparr>srRaw = replicate 10 0\<rparr> 0x2A)) = 0x2A"
  using settings_patches_exactly [OF parse_zero_settings, of 1 "0x2A"] by simp

text \<open>
  Switching APRS in a beacon record sets that bit as requested and leaves every other byte of
  the record and every other bit of its byte as the radio sent it.
\<close>

theorem aprs_patches_exactly:
  assumes "ParseBSSRec body = Inr b"
  shows "APRSEnabled (WithAPRSEnabled b on) = on
    \<and> length (bssRaw (WithAPRSEnabled b on)) = length (bssRaw b)
    \<and> (\<forall>i. i \<noteq> 1 \<longrightarrow> bssRaw (WithAPRSEnabled b on) ! i = bssRaw b ! i)
    \<and> (\<forall>n. n \<noteq> 4 \<longrightarrow> bit (bssRaw (WithAPRSEnabled b on) ! 1) n = bit (bssRaw b ! 1) n)"
proof -
  have ok: "bss_ok b" using ParseBSSRec_ok [OF assms] by simp
  show ?thesis using APRSEnabled_With [OF ok] With_others ok by simp
qed

theorem aprs_patches_exactly_witness: "APRSEnabled (WithAPRSEnabled \<lparr>bssRaw = [1, 2, 3]\<rparr> True)"
  using aprs_patches_exactly [of "[0, 1, 2, 3]" "\<lparr>bssRaw = [1, 2, 3]\<rparr>" True] by (simp add: ParseBSSRec_def bssMinLen_def)

end
