(* ===== verification/L2_Conn.thy ===== *)
theory L2_Conn
  imports Complex_Main Ax25_Frame Xid Engine
begin

text \<open>
  The data of the connected-mode layer (\<^verbatim>\<open>src/ax25/l2/conn.go\<close> and the head of
  \<^verbatim>\<open>src/ax25/l2/l2.go\<close>): the per-connection record, the port parameters and their derivation
  from the link speed, the hooks, and the connection table.

  A \<open>*Conn\<close> is a reference into a store of cells, so that a timer or a deferred function that
  still holds a removed connection is modelled as it is.  The hooks the table calls are
  recorded, in order, in the field \<open>out\<close>; a hook left nil is one whose flag is false.
  Durations are nanoseconds.
\<close>

section \<open>Connections\<close>

datatype ConnState = Disconnected | Connecting | Connected | Disconnecting

fun ConnState_String :: "ConnState \<Rightarrow> string" where
  "ConnState_String Disconnected = ''DISCONNECTED''"
| "ConnState_String Connecting = ''CONNECTING''"
| "ConnState_String Connected = ''CONNECTED''"
| "ConnState_String Disconnecting = ''DISCONNECTING''"

record outEntry =
  oePid :: u8
  oeData :: bytes

record rxEntry =
  rePid :: u8
  reInfo :: bytes

text \<open>\<open>srejSent\<close>, a map from sequence numbers to \<open>true\<close>, is the list of its keys.\<close>

record conn =
  cPort :: int
  Local :: string
  Remote :: string
  cVia :: "string list"
  State :: ConnState
  Owner :: "nat option"
  cModulo :: u8
  sendSeq :: u8
  recvSeq :: u8
  unacked :: u8
  lastAcked :: u8
  outQueue :: "outEntry list"
  retransmitBuf :: "(u8 \<times> bytes) list"
  t1 :: "nat option"
  t2 :: "nat option"
  t3 :: "nat option"
  t1Polls :: int
  t1Value :: int
  remoteBusy :: bool
  polling :: bool
  rejSent :: bool
  t2Src :: string
  t2Dst :: string
  incoming :: bool
  triedFallback :: bool
  xidPending :: bool
  srejEnabled :: bool
  rxBuf :: "(u8 \<times> rxEntry) list"
  srejSent :: "u8 list"
  srtt :: int
  rttvar :: int
  iframeTimestamps :: "(u8 \<times> int) list"

definition newConn :: "int \<Rightarrow> string \<Rightarrow> string \<Rightarrow> conn" where
  "newConn port local remote =
     \<lparr>cPort = port, Local = local, Remote = remote, cVia = [], State = Disconnected, Owner = None,
      cModulo = 8, sendSeq = 0, recvSeq = 0, unacked = 0, lastAcked = 0, outQueue = [],
      retransmitBuf = [], t1 = None, t2 = None, t3 = None, t1Polls = 0, t1Value = 0,
      remoteBusy = False, polling = False, rejSent = False, t2Src = '''', t2Dst = '''',
      incoming = False, triedFallback = False, xidPending = False, srejEnabled = False,
      rxBuf = [], srejSent = [], srtt = 0, rttvar = 0, iframeTimestamps = []\<rparr>"

definition resetSeqs :: "conn \<Rightarrow> conn" where
  "resetSeqs c =
     c\<lparr>sendSeq := 0, recvSeq := 0, unacked := 0, lastAcked := 0, retransmitBuf := [],
       iframeTimestamps := [], outQueue := [], remoteBusy := False, polling := False,
       rejSent := False, xidPending := False, srejEnabled := False, rxBuf := [], srejSent := []\<rparr>"

section \<open>Port parameters\<close>

record PortParams =
  MaxWindow :: int
  T1Floor :: int
  N2Retry :: int
  ppT1 :: int
  T1Setup :: int
  ppT2 :: int
  ppT3 :: int
  AX25Version :: int
  ppSREJ :: bool

definition second :: int where
  "second = 1000000000"

definition defaultT1Setup :: int where
  "defaultT1Setup = 3 * second"

definition setupT1 :: "int \<Rightarrow> int \<Rightarrow> int" where
  "setupT1 base0 digis0 =
     (let base = (if base0 \<le> 0 then defaultT1Setup else base0);
          digis = (if digis0 < 0 then 0 else digis0)
      in base * (2 * digis + 1))"

text \<open>Go's integer division truncates towards zero.\<close>

definition go_div :: "int \<Rightarrow> int \<Rightarrow> int" where
  "go_div a b = sgn a * sgn b * (\<bar>a\<bar> div \<bar>b\<bar>)"

text \<open>
  The derivation computes in \<open>float64\<close>.  \<open>fl\<close> is the rounding of an exact result to the nearest
  \<open>float64\<close>, applied after every operation and to every constant; the conversion to a
  \<open>time.Duration\<close> truncates.
\<close>

definition ax25Overhead :: int where
  "ax25Overhead = 20"

definition frameTime :: "(rat \<Rightarrow> rat) \<Rightarrow> int \<Rightarrow> rat" where
  "frameTime fl otaBaud = fl (fl (of_int ((256 + ax25Overhead) * 8)) / fl (of_int otaBaud))"

definition duration :: "(rat \<Rightarrow> rat) \<Rightarrow> rat \<Rightarrow> int" where
  "duration fl sec = (let x = fl (sec * fl (of_int second)) in if 0 \<le> x then \<lfloor>x\<rfloor> else \<lceil>x\<rceil>)"

definition DeriveParams :: "(rat \<Rightarrow> rat) \<Rightarrow> int \<Rightarrow> int \<Rightarrow> int \<Rightarrow> int \<Rightarrow> PortParams" where
  "DeriveParams fl otaBaud0 maxWindow n2Retry t3Seconds =
     (let otaBaud = (if otaBaud0 \<le> 0 then 1200 else otaBaud0);
          ft = frameTime fl otaBaud;
          turnaround = fl 1;
          v1 = fl (fl 2 * fl (fl (fl (of_int maxWindow) * ft) + turnaround));
          t1Sec = (if v1 > fl 3 then v1 else fl 3);
          v2 = fl (fl (fl (of_int maxWindow) * ft) + turnaround);
          t1FloorSec = (if v2 > fl 3 then v2 else fl 3);
          v3 = fl (fl (12 / 10) * ft);
          t2Sec = (if v3 > fl (1 / 10) then v3 else fl (1 / 10))
      in \<lparr>MaxWindow = maxWindow, T1Floor = duration fl t1FloorSec, N2Retry = n2Retry,
          ppT1 = duration fl t1Sec, T1Setup = defaultT1Setup, ppT2 = duration fl t2Sec,
          ppT3 = t3Seconds * second, AX25Version = 0, ppSREJ = False\<rparr>)"

text \<open>What is assumed of the rounding: it is monotone, idempotent and exact on integers below 2^53.\<close>

definition rounding :: "(rat \<Rightarrow> rat) \<Rightarrow> bool" where
  "rounding fl \<longleftrightarrow> mono fl \<and> (\<forall>x. fl (fl x) = fl x) \<and> (\<forall>n. 0 \<le> n \<and> n < 2 ^ 53 \<longrightarrow> fl (of_int n) = of_int n)"

lemma rounding_int: "rounding fl \<Longrightarrow> 0 \<le> n \<Longrightarrow> n < 2 ^ 53 \<Longrightarrow> fl (of_int n) = of_int n"
  by (simp add: rounding_def)

lemma rounding_consts:
  assumes "rounding fl"
  shows "fl 1 = 1" "fl 2 = 2" "fl 3 = 3" "fl (of_int second) = of_int second" "fl 3000000000 = 3000000000"
  using rounding_int [OF assms, of 1] rounding_int [OF assms, of 2] rounding_int [OF assms, of 3]
    rounding_int [OF assms, of second] rounding_int [OF assms, of 3000000000]
  by (simp_all add: second_def)

lemma duration_mono: "rounding fl \<Longrightarrow> 0 \<le> x \<Longrightarrow> x \<le> y \<Longrightarrow> duration fl x \<le> duration fl y"
proof -
  assume r: "rounding fl" and x: "0 \<le> x" "x \<le> y"
  let ?s = "fl (of_int second)"
  have s: "?s = 1000000000" using rounding_consts(4) [OF r] by (simp add: second_def)
  have z: "fl 0 = 0" using rounding_int [OF r, of 0] by simp
  have m: "mono fl" using r by (simp add: rounding_def)
  have "0 \<le> fl (x * ?s)" using monoD [OF m, of 0 "x * ?s"] x s z by simp
  moreover have "fl (x * ?s) \<le> fl (y * ?s)" using x s by (intro monoD [OF m]) simp
  ultimately show ?thesis by (simp add: duration_def Let_def floor_mono)
qed

section \<open>Hooks and the table\<close>

type_synonym ref = nat

datatype FailReason = FailTimeout | FailDM

datatype hookCall =
    SendAX25 int frame
  | HConnected ref bool
  | HConnectFailed ref FailReason
  | HData ref u8 bytes
  | HDisconnected ref
  | HPortSessions int nat

record hooks =
  hSendAX25 :: bool
  hConnected :: bool
  hConnectFailed :: bool
  hData :: bool
  hDisconnected :: bool
  hDefer :: bool
  hPortSessions :: bool
  hIsLocal :: "(int \<Rightarrow> string \<Rightarrow> bool) option"

text \<open>The closures posted to the engine: the three timer expiries and the deferred poll response.\<close>

datatype closure = T1Fn ref nat | T2Fn ref nat | T3Fn ref nat | RRFn ref string string

type_synonym connKey = "int \<times> string \<times> string"

record table =
  uni :: unicode
  thooks :: hooks
  params :: "PortParams list"
  conns :: "(connKey \<times> ref) list"
  cells :: "ref \<Rightarrow> conn"
  nextConn :: ref
  eng :: "closure engine"
  out :: "hookCall list"

definition maxConnections :: nat where
  "maxConnections = 64"

definition makeKey :: "unicode \<Rightarrow> int \<Rightarrow> string \<Rightarrow> string \<Rightarrow> connKey" where
  "makeKey u port local remote =
     (port, ToUpper u (TrimSpace u local), ToUpper u (TrimSpace u remote))"

definition NewTable :: "unicode \<Rightarrow> int \<Rightarrow> hooks \<Rightarrow> PortParams list \<Rightarrow> table" where
  "NewTable u t0 h ps =
     \<lparr>uni = u, thooks = h, params = ps, conns = [], cells = (\<lambda>_. newConn 0 '''' ''''),
      nextConn = 0, eng = newEngine t0, out = []\<rparr>"

definition portParams :: "table \<Rightarrow> int \<Rightarrow> PortParams" where
  "portParams t port =
     (if port < 0 \<or> params t = []
      then \<lparr>MaxWindow = 0, T1Floor = defaultT1Setup, N2Retry = 10, ppT1 = 3 * second,
            T1Setup = defaultT1Setup, ppT2 = 0, ppT3 = 0, AX25Version = 0, ppSREJ = False\<rparr>
      else if port \<ge> int (length (params t)) then last (params t)
      else params t ! nat port)"

text \<open>Reading and writing through a \<open>*Conn\<close>, and calling a hook.\<close>

abbreviation cell :: "table \<Rightarrow> ref \<Rightarrow> conn" where
  "cell t r \<equiv> cells t r"

definition upd :: "table \<Rightarrow> ref \<Rightarrow> (conn \<Rightarrow> conn) \<Rightarrow> table" where
  "upd t r f = t\<lparr>cells := (cells t)(r := f (cells t r))\<rparr>"

definition emit :: "table \<Rightarrow> bool \<Rightarrow> hookCall \<Rightarrow> table" where
  "emit t installed h = (if installed then t\<lparr>out := out t @ [h]\<rparr> else t)"

lemma upd_simps [simp]:
  "cells (upd t r f) = (cells t)(r := f (cells t r))"
  "conns (upd t r f) = conns t" "uni (upd t r f) = uni t" "thooks (upd t r f) = thooks t"
  "params (upd t r f) = params t" "nextConn (upd t r f) = nextConn t" "eng (upd t r f) = eng t"
  "out (upd t r f) = out t"
  by (simp_all add: upd_def)

lemma emit_simps [simp]:
  "cells (emit t b h) = cells t" "conns (emit t b h) = conns t" "uni (emit t b h) = uni t"
  "thooks (emit t b h) = thooks t" "params (emit t b h) = params t"
  "nextConn (emit t b h) = nextConn t" "eng (emit t b h) = eng t"
  "out (emit t b h) = (if b then out t @ [h] else out t)"
  by (simp_all add: emit_def)

lemma portParams_cong: "params t = params t' \<Longrightarrow> portParams t = portParams t'"
  by (simp add: portParams_def fun_eq_iff)

end
