(* ===== verification/L2_Table.thy ===== *)
theory L2_Table
  imports L2_Conn
begin

text \<open>
  The connection table and its timers (\<^verbatim>\<open>src/ax25/l2/l2.go\<close>): lookup, creation and removal of
  connections, the three timers, frame construction and transmission.
\<close>

section \<open>Lookup\<close>

definition Get :: "table \<Rightarrow> int \<Rightarrow> string \<Rightarrow> string \<Rightarrow> ref option" where
  "Get t port local remote = map_of (conns t) (makeKey (uni t) port local remote)"

definition notifyPortSessions :: "table \<Rightarrow> int \<Rightarrow> table" where
  "notifyPortSessions t port =
     emit t (hPortSessions (thooks t))
       (HPortSessions port (length (filter (\<lambda>(k, r). fst k = port) (conns t))))"

definition getOrCreate :: "table \<Rightarrow> int \<Rightarrow> string \<Rightarrow> string \<Rightarrow> ref option \<times> table" where
  "getOrCreate t port local remote =
     (let k = makeKey (uni t) port local remote
      in case map_of (conns t) k of
           Some r \<Rightarrow> (Some r, t)
         | None \<Rightarrow>
             if length (conns t) \<ge> maxConnections then (None, t)
             else
               (let r = nextConn t;
                    c = (newConn (fst k) (fst (snd k)) (snd (snd k)))
                          \<lparr>t1Value := ppT1 (portParams t port)\<rparr>;
                    t = t\<lparr>cells := (cells t)(r := c), nextConn := Suc r, conns := conns t @ [(k, r)]\<rparr>
                in (Some r, notifyPortSessions t port)))"

section \<open>Timers\<close>

definition cancelTimer :: "table \<Rightarrow> nat option \<Rightarrow> table" where
  "cancelTimer t tm = (case tm of None \<Rightarrow> t | Some i \<Rightarrow> t\<lparr>eng := Cancel (eng t) i\<rparr>)"

definition cancelT1 :: "table \<Rightarrow> ref \<Rightarrow> table" where
  "cancelT1 t r = upd (cancelTimer t (t1 (cell t r))) r (\<lambda>c. c\<lparr>t1 := None\<rparr>)"

definition cancelT2 :: "table \<Rightarrow> ref \<Rightarrow> table" where
  "cancelT2 t r = upd (cancelTimer t (t2 (cell t r))) r (\<lambda>c. c\<lparr>t2 := None\<rparr>)"

definition cancelT3 :: "table \<Rightarrow> ref \<Rightarrow> table" where
  "cancelT3 t r = upd (cancelTimer t (t3 (cell t r))) r (\<lambda>c. c\<lparr>t3 := None\<rparr>)"

definition cancelAll :: "table \<Rightarrow> ref \<Rightarrow> table" where
  "cancelAll t r = cancelT3 (cancelT2 (cancelT1 t r) r) r"

definition startT1 :: "table \<Rightarrow> ref \<Rightarrow> table" where
  "startT1 t r =
     (let t = cancelT1 t r;
          d = (if t1Value (cell t r) \<le> 0 then ppT1 (portParams t (cPort (cell t r)))
               else t1Value (cell t r))
      in case After (eng t) d (T1Fn r) of (tid, e) \<Rightarrow>
           upd (t\<lparr>eng := e\<rparr>) r (\<lambda>c. c\<lparr>t1 := Some tid\<rparr>))"

definition scheduleT2 :: "table \<Rightarrow> ref \<Rightarrow> string \<Rightarrow> string \<Rightarrow> table" where
  "scheduleT2 t r src dst =
     (let t = upd (cancelT2 t r) r (\<lambda>c. c\<lparr>t2Src := src, t2Dst := dst\<rparr>)
      in case After (eng t) (ppT2 (portParams t (cPort (cell t r)))) (T2Fn r) of (tid, e) \<Rightarrow>
           upd (t\<lparr>eng := e\<rparr>) r (\<lambda>c. c\<lparr>t2 := Some tid\<rparr>))"

definition startT3 :: "table \<Rightarrow> ref \<Rightarrow> table" where
  "startT3 t r =
     (let t = cancelT3 t r; d = ppT3 (portParams t (cPort (cell t r)))
      in if d \<le> 0 then t
         else case After (eng t) d (T3Fn r) of (tid, e) \<Rightarrow>
           upd (t\<lparr>eng := e\<rparr>) r (\<lambda>c. c\<lparr>t3 := Some tid\<rparr>))"

section \<open>Removal\<close>

definition remove :: "table \<Rightarrow> int \<Rightarrow> string \<Rightarrow> string \<Rightarrow> table" where
  "remove t port local remote =
     (let k = makeKey (uni t) port local remote
      in case map_of (conns t) k of
           None \<Rightarrow> t
         | Some r \<Rightarrow>
             (let t = cancelAll t r; t = t\<lparr>conns := AList.delete k (conns t)\<rparr>
              in notifyPortSessions t port))"

definition removeConn :: "table \<Rightarrow> ref \<Rightarrow> table" where
  "removeConn t r = remove t (cPort (cell t r)) (Local (cell t r)) (Remote (cell t r))"

section \<open>Frames\<close>

definition ModuloFor :: "table \<Rightarrow> int \<Rightarrow> string \<Rightarrow> string \<Rightarrow> int" where
  "ModuloFor t port local remote =
     (case Get t port local remote of Some r \<Rightarrow> uint (cModulo (cell t r)) | None \<Rightarrow> 8)"

definition sendFrame :: "table \<Rightarrow> int \<Rightarrow> frame \<Rightarrow> table" where
  "sendFrame t port f =
     (let f = (if Modulo f = 0 \<and> (Type f = I \<or> IsS (Type f))
               then f\<lparr>Modulo := word_of_int (ModuloFor t port (addr_String (Src f)) (addr_String (Dst f)))\<rparr>
               else f)
      in emit t (hSendAX25 (thooks t)) (SendAX25 port f))"

text \<open>The value of a call to \<open>ParseAddress\<close> whose error is discarded.\<close>

definition addrOrZero :: "unicode \<Rightarrow> string \<Rightarrow> address" where
  "addrOrZero u s =
     (case ParseAddress u s of Inr a \<Rightarrow> a | Inl _ \<Rightarrow> \<lparr>Call = '''', SSID = 0, CRH = False\<rparr>)"

definition mkFrame :: "unicode \<Rightarrow> bool \<Rightarrow> string \<Rightarrow> string \<Rightarrow> string list \<Rightarrow> FrameType \<Rightarrow> bool \<Rightarrow> frame" where
  "mkFrame u command dst src via ft pf =
     \<lparr>Dst = addrOrZero u dst, Src = addrOrZero u src, Via = map (addrOrZero u) via, Type = ft,
      NR = 0, NS = 0, PF = pf, Modulo = 0, Command = command, PID = 0, Info = []\<rparr>"

definition cmdFrame :: "unicode \<Rightarrow> string \<Rightarrow> string \<Rightarrow> string list \<Rightarrow> FrameType \<Rightarrow> bool \<Rightarrow> frame" where
  "cmdFrame u = mkFrame u True"

definition respFrame :: "unicode \<Rightarrow> string \<Rightarrow> string \<Rightarrow> string list \<Rightarrow> FrameType \<Rightarrow> bool \<Rightarrow> frame" where
  "respFrame u = mkFrame u False"

definition iFrame :: "unicode \<Rightarrow> conn \<Rightarrow> u8 \<Rightarrow> u8 \<Rightarrow> bytes \<Rightarrow> frame" where
  "iFrame u c ns pid info =
     (cmdFrame u (Remote c) (Local c) (cVia c) I False)
       \<lparr>NS := ns, NR := recvSeq c, PID := pid, Info := info, Modulo := cModulo c\<rparr>"

definition isLocal :: "table \<Rightarrow> int \<Rightarrow> string \<Rightarrow> bool" where
  "isLocal t port call = (case hIsLocal (thooks t) of None \<Rightarrow> True | Some f \<Rightarrow> f port call)"

definition sendCmd :: "table \<Rightarrow> ref \<Rightarrow> FrameType \<Rightarrow> table" where
  "sendCmd t r ft =
     sendFrame t (cPort (cell t r))
       (cmdFrame (uni t) (Remote (cell t r)) (Local (cell t r)) (cVia (cell t r)) ft True)"

definition sendSABM :: "table \<Rightarrow> ref \<Rightarrow> table" where
  "sendSABM t r = sendCmd t r SABM"

definition sendSABME :: "table \<Rightarrow> ref \<Rightarrow> table" where
  "sendSABME t r = sendCmd t r SABME"

definition sendEnquiry :: "table \<Rightarrow> ref \<Rightarrow> table" where
  "sendEnquiry t r =
     (let c = cell t r;
          rr = (cmdFrame (uni t) (Remote c) (Local c) (cVia c) RR True)\<lparr>NR := recvSeq c\<rparr>
      in upd (sendFrame t (cPort c) rr) r (\<lambda>c. c\<lparr>polling := True\<rparr>))"

definition sendRRResponse :: "table \<Rightarrow> ref \<Rightarrow> string \<Rightarrow> string \<Rightarrow> table" where
  "sendRRResponse t r src dst =
     (let c = cell t r; rr = (respFrame (uni t) src dst (cVia c) RR True)\<lparr>NR := recvSeq c\<rparr>
      in sendFrame t (cPort c) rr)"

definition t2Expired :: "table \<Rightarrow> ref \<Rightarrow> table" where
  "t2Expired t r =
     (let t = upd t r (\<lambda>c. c\<lparr>t2 := None\<rparr>); c = cell t r
      in if State c \<noteq> Connected then t
         else sendFrame t (cPort c)
                ((respFrame (uni t) (t2Src c) (t2Dst c) (cVia c) RR False)\<lparr>NR := recvSeq c\<rparr>))"

definition t3Expired :: "table \<Rightarrow> ref \<Rightarrow> table" where
  "t3Expired t r =
     (let t = upd t r (\<lambda>c. c\<lparr>t3 := None\<rparr>)
      in if State (cell t r) \<noteq> Connected then t
         else startT1 (sendEnquiry (upd t r (\<lambda>c. c\<lparr>t1Polls := 0\<rparr>)) r) r)"

definition enterConnected :: "table \<Rightarrow> ref \<Rightarrow> table" where
  "enterConnected t r =
     upd t r (\<lambda>c. c\<lparr>State := Connected, t1Value := ppT1 (portParams t (cPort c))\<rparr>)"

definition fallbackToSABM :: "table \<Rightarrow> ref \<Rightarrow> bool \<times> table" where
  "fallbackToSABM t r =
     (if cModulo (cell t r) \<noteq> 128 \<or> triedFallback (cell t r) then (False, t)
      else (True, startT1 (sendSABM (upd t r (\<lambda>c. c\<lparr>cModulo := 8, triedFallback := True\<rparr>)) r) r))"

section \<open>What these operations leave alone\<close>

text \<open>
  A table's configuration never changes; most operations also keep the set of connections.
  \<open>same_conf\<close> and \<open>same_conns\<close> are those two frame conditions.
\<close>

definition same_conf :: "table \<Rightarrow> table \<Rightarrow> bool" where
  "same_conf t t' \<longleftrightarrow> uni t' = uni t \<and> thooks t' = thooks t \<and> params t' = params t"

named_theorems frame_simps \<open>fields that an operation leaves unchanged\<close>

lemma cancelTimer_frame [frame_simps, simp]:
  "uni (cancelTimer t x) = uni t" "thooks (cancelTimer t x) = thooks t" "params (cancelTimer t x) = params t"
  "conns (cancelTimer t x) = conns t" "cells (cancelTimer t x) = cells t" "out (cancelTimer t x) = out t"
  "nextConn (cancelTimer t x) = nextConn t"
  by (simp_all add: cancelTimer_def split: option.split)

lemma cancelT_frame [frame_simps, simp]:
  "uni (cancelT1 t r) = uni t" "thooks (cancelT1 t r) = thooks t" "params (cancelT1 t r) = params t"
  "conns (cancelT1 t r) = conns t" "out (cancelT1 t r) = out t" "nextConn (cancelT1 t r) = nextConn t"
  "cells (cancelT1 t r) = (cells t)(r := (cells t r)\<lparr>t1 := None\<rparr>)"
  "uni (cancelT2 t r) = uni t" "thooks (cancelT2 t r) = thooks t" "params (cancelT2 t r) = params t"
  "conns (cancelT2 t r) = conns t" "out (cancelT2 t r) = out t" "nextConn (cancelT2 t r) = nextConn t"
  "cells (cancelT2 t r) = (cells t)(r := (cells t r)\<lparr>t2 := None\<rparr>)"
  "uni (cancelT3 t r) = uni t" "thooks (cancelT3 t r) = thooks t" "params (cancelT3 t r) = params t"
  "conns (cancelT3 t r) = conns t" "out (cancelT3 t r) = out t" "nextConn (cancelT3 t r) = nextConn t"
  "cells (cancelT3 t r) = (cells t)(r := (cells t r)\<lparr>t3 := None\<rparr>)"
  by (simp_all add: cancelT1_def cancelT2_def cancelT3_def)

lemma cancelAll_frame [frame_simps, simp]:
  "uni (cancelAll t r) = uni t" "thooks (cancelAll t r) = thooks t" "params (cancelAll t r) = params t"
  "conns (cancelAll t r) = conns t" "out (cancelAll t r) = out t" "nextConn (cancelAll t r) = nextConn t"
  "cells (cancelAll t r) = (cells t)(r := (cells t r)\<lparr>t1 := None, t2 := None, t3 := None\<rparr>)"
  by (simp_all add: cancelAll_def)

lemma startT1_frame [frame_simps, simp]:
  "uni (startT1 t r) = uni t" "thooks (startT1 t r) = thooks t" "params (startT1 t r) = params t"
  "conns (startT1 t r) = conns t" "out (startT1 t r) = out t" "nextConn (startT1 t r) = nextConn t"
  by (simp_all add: startT1_def Let_def split: prod.split)

lemma nextTimer_cancelTimer [simp]: "nextTimer (eng (cancelTimer t x)) = nextTimer (eng t)"
  by (simp add: cancelTimer_def split: option.split)

lemma cells_startT1 [frame_simps, simp]:
  "cells (startT1 t r) = (cells t)(r := (cells t r)\<lparr>t1 := Some (nextTimer (eng t))\<rparr>)"
  by (simp add: startT1_def Let_def After_def cancelT1_def)

lemma scheduleT2_frame [frame_simps, simp]:
  "uni (scheduleT2 t r s d) = uni t" "thooks (scheduleT2 t r s d) = thooks t"
  "params (scheduleT2 t r s d) = params t" "conns (scheduleT2 t r s d) = conns t"
  "out (scheduleT2 t r s d) = out t" "nextConn (scheduleT2 t r s d) = nextConn t"
  by (simp_all add: scheduleT2_def Let_def split: prod.split)

lemma cells_scheduleT2 [frame_simps, simp]:
  "cells (scheduleT2 t r s d) =
     (cells t)(r := (cells t r)\<lparr>t2Src := s, t2Dst := d, t2 := Some (nextTimer (eng t))\<rparr>)"
  by (simp add: scheduleT2_def Let_def After_def cancelT2_def)

lemma startT3_frame [frame_simps, simp]:
  "uni (startT3 t r) = uni t" "thooks (startT3 t r) = thooks t" "params (startT3 t r) = params t"
  "conns (startT3 t r) = conns t" "out (startT3 t r) = out t" "nextConn (startT3 t r) = nextConn t"
  by (simp_all add: startT3_def Let_def split: prod.split)

lemma cells_startT3 [frame_simps, simp]:
  "cells (startT3 t r) = (cells t)(r := (cells t r)
     \<lparr>t3 := (if ppT3 (portParams t (cPort (cells t r))) \<le> 0 then None else Some (nextTimer (eng t)))\<rparr>)"
  by (simp add: startT3_def Let_def After_def cancelT3_def portParams_def)

lemma notifyPortSessions_frame [frame_simps, simp]:
  "uni (notifyPortSessions t p) = uni t" "thooks (notifyPortSessions t p) = thooks t"
  "params (notifyPortSessions t p) = params t" "conns (notifyPortSessions t p) = conns t"
  "cells (notifyPortSessions t p) = cells t" "nextConn (notifyPortSessions t p) = nextConn t"
  "eng (notifyPortSessions t p) = eng t"
  by (simp_all add: notifyPortSessions_def)

lemma sendFrame_frame [frame_simps, simp]:
  "uni (sendFrame t p f) = uni t" "thooks (sendFrame t p f) = thooks t" "params (sendFrame t p f) = params t"
  "conns (sendFrame t p f) = conns t" "cells (sendFrame t p f) = cells t"
  "nextConn (sendFrame t p f) = nextConn t" "eng (sendFrame t p f) = eng t"
  by (simp_all add: sendFrame_def Let_def)

lemma sendCmd_frame [frame_simps, simp]:
  "uni (sendCmd t r ft) = uni t" "thooks (sendCmd t r ft) = thooks t" "params (sendCmd t r ft) = params t"
  "conns (sendCmd t r ft) = conns t" "cells (sendCmd t r ft) = cells t"
  "nextConn (sendCmd t r ft) = nextConn t" "eng (sendCmd t r ft) = eng t"
  by (simp_all add: sendCmd_def)

lemma sendRRResponse_frame [frame_simps, simp]:
  "uni (sendRRResponse t r s d) = uni t" "thooks (sendRRResponse t r s d) = thooks t"
  "params (sendRRResponse t r s d) = params t" "conns (sendRRResponse t r s d) = conns t"
  "cells (sendRRResponse t r s d) = cells t" "nextConn (sendRRResponse t r s d) = nextConn t"
  "eng (sendRRResponse t r s d) = eng t"
  by (simp_all add: sendRRResponse_def Let_def)

lemma sendEnquiry_frame [frame_simps, simp]:
  "uni (sendEnquiry t r) = uni t" "thooks (sendEnquiry t r) = thooks t" "params (sendEnquiry t r) = params t"
  "conns (sendEnquiry t r) = conns t" "nextConn (sendEnquiry t r) = nextConn t" "eng (sendEnquiry t r) = eng t"
  "cells (sendEnquiry t r) = (cells t)(r := (cells t r)\<lparr>polling := True\<rparr>)"
  by (simp_all add: sendEnquiry_def Let_def)

lemma remove_frame [frame_simps, simp]:
  "uni (remove t p l m) = uni t" "thooks (remove t p l m) = thooks t" "params (remove t p l m) = params t"
  "nextConn (remove t p l m) = nextConn t"
  "conns (remove t p l m) = AList.delete (makeKey (uni t) p l m) (conns t)"
  by (auto simp: remove_def Let_def split: option.split intro!: AList.delete_id [symmetric] simp: map_of_eq_None_iff)

end
