(* ===== verification/L2_Data.thy ===== *)
theory L2_Data
  imports L2_Table
begin

text \<open>
  Information transfer (\<^verbatim>\<open>src/ax25/l2/l2.go\<close>): fragmentation and queueing of client data, the
  send window, cumulative acknowledgement with round-trip estimation, and retransmission.
  Sequence arithmetic is Go's \<open>uint8\<close> arithmetic: it wraps at 256, then \<open>%\<close> reduces it.
\<close>

section \<open>Queueing\<close>

definition maxOutboundQueue :: nat where
  "maxOutboundQueue = 512"

definition maxIFrameInfo :: nat where
  "maxIFrameInfo = 256"

function pieces :: "bytes \<Rightarrow> bytes list" where
  "pieces data =
     (if data = [] then [] else take maxIFrameInfo data # pieces (drop maxIFrameInfo data))"
  by pat_completeness auto
termination
  by (relation "measure length") (auto simp: maxIFrameInfo_def)

declare pieces.simps [simp del]

definition fragment :: "bytes \<Rightarrow> bytes list" where
  "fragment data = (if data = [] then [[]] else pieces data)"

fun enqueue :: "outEntry list \<Rightarrow> u8 \<Rightarrow> bytes list \<Rightarrow> outEntry list \<times> nat" where
  "enqueue q pid [] = (q, 0)"
| "enqueue q pid (chunk # chunks) =
     (if length q \<ge> maxOutboundQueue then (q, length (chunk # chunks))
      else enqueue (q @ [\<lparr>oePid = pid, oeData = chunk\<rparr>]) pid chunks)"

section \<open>The send window\<close>

text \<open>Adjacent entries with the same PID join the chunk while it stays within 256 bytes.\<close>

fun coalesce :: "u8 \<Rightarrow> bytes \<Rightarrow> outEntry list \<Rightarrow> bytes \<times> outEntry list" where
  "coalesce pid chunk [] = (chunk, [])"
| "coalesce pid chunk (e # q) =
     (if length chunk < maxIFrameInfo
         \<and> \<not> (oePid e \<noteq> pid \<or> length chunk + length (oeData e) > maxIFrameInfo)
      then coalesce pid (chunk @ oeData e) q
      else (chunk, e # q))"

definition drainStep :: "table \<Rightarrow> ref \<Rightarrow> table" where
  "drainStep t r =
     (case outQueue (cell t r) of
        [] \<Rightarrow> t
      | entry # q \<Rightarrow>
          (case coalesce (oePid entry) (oeData entry) q of (chunk, q') \<Rightarrow>
             (let ns = sendSeq (cell t r);
                  f = iFrame (uni t) (cell t r) ns (oePid entry) chunk;
                  t = upd t r (\<lambda>c. c\<lparr>outQueue := q',
                        retransmitBuf := AList.update ns (Bytes f) (retransmitBuf c),
                        iframeTimestamps := AList.update ns (now (eng t)) (iframeTimestamps c),
                        sendSeq := (ns + 1) mod cModulo c, unacked := unacked c + 1\<rparr>)
              in sendFrame t (cPort (cell t r)) f)))"

lemma coalesce_shorter: "length (snd (coalesce pid chunk q)) \<le> length q"
  by (induction pid chunk q rule: coalesce.induct) auto

lemma cells_drainStep:
  "outQueue (cell t r) = entry # q \<Longrightarrow> coalesce (oePid entry) (oeData entry) q = (chunk, q') \<Longrightarrow>
   cells (drainStep t r) = (cells t)(r := (cells t r)
     \<lparr>outQueue := q',
      retransmitBuf := AList.update (sendSeq (cell t r))
        (Bytes (iFrame (uni t) (cell t r) (sendSeq (cell t r)) (oePid entry) chunk)) (retransmitBuf (cell t r)),
      iframeTimestamps := AList.update (sendSeq (cell t r)) (now (eng t)) (iframeTimestamps (cell t r)),
      sendSeq := (sendSeq (cell t r) + 1) mod cModulo (cell t r), unacked := unacked (cell t r) + 1\<rparr>)"
  by (simp add: drainStep_def Let_def)

lemma drainStep_shorter:
  assumes "outQueue (cell t r) \<noteq> []"
  shows "length (outQueue (cell (drainStep t r) r)) < length (outQueue (cell t r))"
proof -
  obtain e q where q: "outQueue (cell t r) = e # q" using assms by (cases "outQueue (cell t r)") auto
  obtain chunk q' where c: "coalesce (oePid e) (oeData e) q = (chunk, q')" by fastforce
  with coalesce_shorter [of "oePid e" "oeData e" q] show ?thesis
    by (simp add: cells_drainStep [OF q c] q)
qed

function drainLoop :: "table \<Rightarrow> ref \<Rightarrow> table" where
  "drainLoop t r =
     (if outQueue (cell t r) \<noteq> []
         \<and> uint (unacked (cell t r)) < MaxWindow (portParams t (cPort (cell t r)))
      then drainLoop (drainStep t r) r else t)"
  by pat_completeness auto
termination
  by (relation "measure (\<lambda>(t, r). length (outQueue (cell t r)))") (auto intro: drainStep_shorter)

declare drainLoop.simps [simp del]

definition windowOpen :: "table \<Rightarrow> ref \<Rightarrow> bool" where
  "windowOpen t r \<longleftrightarrow> outQueue (cell t r) \<noteq> []
     \<and> uint (unacked (cell t r)) < MaxWindow (portParams t (cPort (cell t r)))"

text \<open>\<open>sentAny\<close> is true exactly when the loop body runs once.\<close>

definition drainOutbound :: "table \<Rightarrow> ref \<Rightarrow> table" where
  "drainOutbound t r =
     (if remoteBusy (cell t r) then t
      else if windowOpen t r then startT1 (cancelT2 (drainLoop t r) r) r
      else t)"

definition SendData :: "table \<Rightarrow> ref \<Rightarrow> u8 \<Rightarrow> bytes \<Rightarrow> nat \<times> table" where
  "SendData t r pid data =
     (case enqueue (outQueue (cell t r)) pid (fragment data) of (q, dropped) \<Rightarrow>
        (dropped, drainOutbound (upd t r (\<lambda>c. c\<lparr>outQueue := q\<rparr>)) r))"

definition Outstanding :: "table \<Rightarrow> ref \<Rightarrow> int" where
  "Outstanding t r = uint (unacked (cell t r)) + int (length (outQueue (cell t r)))"

section \<open>Acknowledgement\<close>

definition t1Ceil :: int where
  "t1Ceil = 60 * second"

definition srttStep :: "int \<Rightarrow> conn \<Rightarrow> int \<Rightarrow> conn" where
  "srttStep floor0 c rtt =
     (let t1Floor = (if floor0 \<le> 0 then defaultT1Setup else floor0);
          c = (if srtt c = 0 then c\<lparr>srtt := rtt, rttvar := go_div rtt 2\<rparr>
               else
                 (let diff = (if srtt c - rtt < 0 then - (srtt c - rtt) else srtt c - rtt)
                  in c\<lparr>rttvar := go_div (3 * rttvar c + diff) 4, srtt := go_div (7 * srtt c + rtt) 8\<rparr>));
          v = srtt c + 4 * rttvar c;
          v = (if v < t1Floor then t1Floor else v);
          v = (if v > t1Ceil then t1Ceil else v)
      in c\<lparr>t1Value := v\<rparr>)"

definition updateSRTT :: "table \<Rightarrow> ref \<Rightarrow> int \<Rightarrow> table" where
  "updateSRTT t r rtt = upd t r (\<lambda>c. srttStep (T1Floor (portParams t (cPort c))) c rtt)"

fun sampleRTT :: "nat \<Rightarrow> table \<Rightarrow> ref \<Rightarrow> u8 \<Rightarrow> table" where
  "sampleRTT 0 t r seq = t"
| "sampleRTT (Suc n) t r seq =
     (let t = (case map_of (iframeTimestamps (cell t r)) seq of
                 None \<Rightarrow> t
               | Some sendTime \<Rightarrow>
                   updateSRTT (upd t r (\<lambda>c. c\<lparr>iframeTimestamps := AList.delete seq (iframeTimestamps c)\<rparr>))
                     r (now (eng t) - sendTime))
      in sampleRTT n t r ((seq + 1) mod cModulo (cell t r)))"

fun purge :: "nat \<Rightarrow> u8 \<Rightarrow> u8 \<Rightarrow> (u8 \<times> 'a) list \<Rightarrow> (u8 \<times> 'a) list" where
  "purge 0 m seq buf = buf"
| "purge (Suc n) m seq buf = purge n m ((seq + 1) mod m) (AList.delete seq buf)"

definition ackFrames :: "table \<Rightarrow> ref \<Rightarrow> u8 \<Rightarrow> table" where
  "ackFrames t r nr =
     (let c = cell t r;
          newlyAcked = (nr - lastAcked c) mod cModulo c;
          outstanding = (sendSeq c - lastAcked c) mod cModulo c
      in if newlyAcked > outstanding then t
         else if newlyAcked = 0 then t
         else
           (let t = upd t r (\<lambda>c. c\<lparr>t1Polls := 0\<rparr>);
                t = sampleRTT (unat newlyAcked) t r (lastAcked c);
                t = upd t r (\<lambda>c. c\<lparr>
                      retransmitBuf := purge (unat newlyAcked) (cModulo c) (lastAcked c) (retransmitBuf c),
                      lastAcked := nr,
                      unacked := (if uint (unacked c) > uint newlyAcked then unacked c - newlyAcked else 0)\<rparr>);
                t = (if retransmitBuf (cell t r) \<noteq> [] then startT1 t r else cancelT1 t r)
            in drainOutbound t r))"

section \<open>Retransmission\<close>

text \<open>
  The loop ends when it reaches \<open>toSeq\<close>, at a hole in the buffer, or at a frame that does not
  decode.  The fuel is the number of sequence numbers; \<open>None\<close> is fuel that ran out.
\<close>

fun retransmitLoop :: "nat \<Rightarrow> table \<Rightarrow> ref \<Rightarrow> u8 \<Rightarrow> u8 \<Rightarrow> table option" where
  "retransmitLoop 0 t r seq toSeq = None"
| "retransmitLoop (Suc n) t r seq toSeq =
     (if seq = toSeq then Some t
      else case map_of (retransmitBuf (cell t r)) seq of
             None \<Rightarrow> Some t
           | Some raw \<Rightarrow>
               (case ParseModulo raw (uint (cModulo (cell t r))) of
                  Inl _ \<Rightarrow> Some t
                | Inr orig \<Rightarrow>
                    (let f = (iFrame (uni t) (cell t r) (NS orig) (PID orig) (Info orig))\<lparr>PF := PF orig\<rparr>;
                         t = upd t r (\<lambda>c. c\<lparr>
                               retransmitBuf := AList.update seq (Bytes f) (retransmitBuf c),
                               iframeTimestamps := AList.delete seq (iframeTimestamps c)\<rparr>);
                         t = sendFrame t (cPort (cell t r)) f
                     in retransmitLoop n t r ((seq + 1) mod cModulo (cell t r)) toSeq)))"

definition retransmitRange :: "table \<Rightarrow> ref \<Rightarrow> u8 \<Rightarrow> u8 \<Rightarrow> table" where
  "retransmitRange t r fromSeq toSeq =
     (case retransmitLoop 256 t r fromSeq toSeq of Some t' \<Rightarrow> t' | None \<Rightarrow> t)"

definition retransmitFrom :: "table \<Rightarrow> ref \<Rightarrow> u8 \<Rightarrow> table" where
  "retransmitFrom t r fromSeq = retransmitRange t r fromSeq (sendSeq (cell t r))"

section \<open>T1 expiry\<close>

definition t1Expired :: "table \<Rightarrow> ref \<Rightarrow> table" where
  "t1Expired t r =
     (let t = upd t r (\<lambda>c. c\<lparr>t1 := None\<rparr>);
          pp = portParams t (cPort (cell t r))
      in if State (cell t r) = Disconnecting then
           (let t = upd t r (\<lambda>c. c\<lparr>t1Polls := t1Polls c + 1\<rparr>)
            in if t1Polls (cell t r) > N2Retry pp then
                 (let t = upd t r (\<lambda>c. c\<lparr>State := Disconnected\<rparr>);
                      t = emit t (hDisconnected (thooks t)) (HDisconnected r)
                  in removeConn t r)
               else
                 (let t = upd t r (\<lambda>c. c\<lparr>t1Value := setupT1 (T1Setup pp) (int (length (cVia c)))\<rparr>)
                  in startT1 (sendCmd t r DISC) r))
         else if State (cell t r) = Connecting then
           (let t = upd t r (\<lambda>c. c\<lparr>t1Polls := t1Polls c + 1\<rparr>);
                maxV22 = go_div (N2Retry pp) 3;
                t = (if cModulo (cell t r) = 128 \<and> \<not> triedFallback (cell t r)
                        \<and> t1Polls (cell t r) \<ge> maxV22
                     then upd t r (\<lambda>c. c\<lparr>cModulo := 8, triedFallback := True\<rparr>) else t)
            in if t1Polls (cell t r) > N2Retry pp then
                 (let t = upd t r (\<lambda>c. c\<lparr>State := Disconnected\<rparr>);
                      t = emit t (hConnectFailed (thooks t)) (HConnectFailed r FailTimeout)
                  in removeConn t r)
               else
                 (let t = upd t r (\<lambda>c. c\<lparr>t1Value := setupT1 (T1Setup pp) (int (length (cVia c)))\<rparr>);
                      t = (if cModulo (cell t r) = 128 then sendSABME t r else sendSABM t r)
                  in startT1 t r))
         else if State (cell t r) \<noteq> Connected then t
         else
           (let t = upd t r (\<lambda>c. c\<lparr>t1Polls := t1Polls c + 1\<rparr>)
            in if t1Polls (cell t r) > N2Retry pp then
                 (let t = upd t r (\<lambda>c. c\<lparr>State := Disconnected\<rparr>);
                      t = emit t (hDisconnected (thooks t)) (HDisconnected r)
                  in removeConn t r)
               else
                 (let t = sendEnquiry t r;
                      t = (if t1Polls (cell t r) > 1
                           then retransmitFrom t r (lastAcked (cell t r)) else t);
                      t = (if t1Value (cell t r) > 0
                           then upd t r (\<lambda>c. c\<lparr>t1Value :=
                                  (if t1Value c * 2 > t1Ceil then t1Ceil else t1Value c * 2)\<rparr>)
                           else t)
                  in startT1 t r)))"

section \<open>Connect and disconnect\<close>

datatype connect_error = ConnectBadCall addr_error | ConnectionLimit

fun firstBadCall :: "unicode \<Rightarrow> string list \<Rightarrow> addr_error option" where
  "firstBadCall u [] = None"
| "firstBadCall u (s # ss) =
     (case ParseAddress u s of Inl e \<Rightarrow> Some e | Inr _ \<Rightarrow> firstBadCall u ss)"

definition Connect ::
  "table \<Rightarrow> int \<Rightarrow> string \<Rightarrow> string \<Rightarrow> string list \<Rightarrow> (connect_error + ref) \<times> table" where
  "Connect t port local remote via =
     (case firstBadCall (uni t) ([local, remote] @ via) of
        Some e \<Rightarrow> (Inl (ConnectBadCall e), t)
      | None \<Rightarrow>
          (case getOrCreate t port local remote of
             (None, t) \<Rightarrow> (Inl ConnectionLimit, t)
           | (Some r, t) \<Rightarrow>
               (let t = upd t r (\<lambda>c. (resetSeqs (c\<lparr>State := Connecting\<rparr>))
                          \<lparr>t1Polls := 0, triedFallback := False, cVia := via,
                           t1Value := setupT1 (T1Setup (portParams t port)) (int (length via))\<rparr>);
                    t = (if AX25Version (portParams t port) \<ge> 22
                         then sendSABME (upd t r (\<lambda>c. c\<lparr>cModulo := 128\<rparr>)) r
                         else sendSABM (upd t r (\<lambda>c. c\<lparr>cModulo := 8\<rparr>)) r)
                in (Inr r, startT1 t r))))"

definition Disconnect :: "table \<Rightarrow> ref \<Rightarrow> table" where
  "Disconnect t r =
     (let t = cancelT1 t r;
          t = upd t r (\<lambda>c. c\<lparr>State := Disconnecting, t1Polls := 0\<rparr>)
      in startT1 (sendCmd t r DISC) r)"

end
