(* ===== verification/L2_Dispatch.thy ===== *)
theory L2_Dispatch
  imports L2_Data "HOL-Library.Char_ord" "HOL-Library.List_Lexorder" "HOL-Library.Product_Lexorder"
begin

text \<open>
  Inbound frames (\<^verbatim>\<open>src/ax25/l2/l2.go\<close>, the dispatch handlers, and
  \<^verbatim>\<open>src/ax25/l2/snapshot.go\<close>): one definition per handler, the dispatcher \<open>OnFrame\<close>, the
  bulk removals, and the functions the engine runs for this component.

  Go iterates over a map in an unspecified order.  Where the order of effects depends on it
  (\<open>RemoveOwned\<close>, \<open>PortOffline\<close>, \<open>Snapshot\<close>) the order is the parameter \<open>ord\<close>, a function that
  rearranges the connections found.
\<close>

section \<open>Helpers\<close>

definition connsByPair :: "table \<Rightarrow> string \<Rightarrow> string \<Rightarrow> (int \<times> ref) list" where
  "connsByPair t local remote =
     (let lk = ToUpper (uni t) (TrimSpace (uni t) local);
          rk = ToUpper (uni t) (TrimSpace (uni t) remote)
      in map (\<lambda>(k, r). (fst k, r)) (filter (\<lambda>(k, r). snd k = (lk, rk)) (conns t)))"

text \<open>Some connection of the pair on another port is in one of the given states.\<close>

definition overheard :: "table \<Rightarrow> int \<Rightarrow> string \<Rightarrow> string \<Rightarrow> ConnState list \<Rightarrow> bool" where
  "overheard t port local remote states \<longleftrightarrow>
     list_ex (\<lambda>(p, r). p \<noteq> port \<and> State (cell t r) \<in> set states) (connsByPair t local remote)"

definition addrSliceToStrings :: "address list \<Rightarrow> string list" where
  "addrSliceToStrings as = map addr_String as"

definition reversed :: "string list \<Rightarrow> string list" where
  "reversed s = rev s"

definition deliverData :: "table \<Rightarrow> ref \<Rightarrow> u8 \<Rightarrow> bytes \<Rightarrow> table" where
  "deliverData t r pid info = emit t (hData (thooks t)) (HData r pid info)"

definition negotiateSREJ :: "table \<Rightarrow> ref \<Rightarrow> SREJMode \<Rightarrow> SREJMode" where
  "negotiateSREJ t r peerSREJ =
     (if ppSREJ (portParams t (cPort (cell t r))) \<and> cModulo (cell t r) = 128 \<and> peerSREJ \<ge> SREJSingle
      then SREJSingle else SREJNone)"

definition sendXIDCommand :: "table \<Rightarrow> ref \<Rightarrow> table" where
  "sendXIDCommand t r =
     (let c = cell t r;
          xp = \<lparr>FullDuplex = False, xidSREJ = SREJSingle, xidModulo = 128, IFieldLenRxBytes = 256,
                WindowRx = MaxWindow (portParams t (cPort c))\<rparr>;
          f = (cmdFrame (uni t) (Remote c) (Local c) (cVia c) XID True)\<lparr>Info := Encode xp True\<rparr>
      in upd (sendFrame t (cPort c) f) r (\<lambda>c. c\<lparr>xidPending := True\<rparr>))"

section \<open>Connection establishment and release\<close>

text \<open>The part that SABM and SABME share once the connection exists.\<close>

definition acceptSABM :: "table \<Rightarrow> ref \<Rightarrow> int \<Rightarrow> string list \<Rightarrow> string \<Rightarrow> string \<Rightarrow> bool \<Rightarrow> u8 \<Rightarrow> table" where
  "acceptSABM t r port returnVia src dst pf m =
     (let t = sendFrame t port (respFrame (uni t) src dst returnVia UA pf);
          t = enterConnected (upd t r (\<lambda>c. c\<lparr>cVia := returnVia\<rparr>)) r;
          t = upd t r (\<lambda>c. resetSeqs (c\<lparr>cModulo := m\<rparr>));
          t = cancelAll t r
      in if hConnected (thooks t)
         then emit (upd t r (\<lambda>c. c\<lparr>incoming := True\<rparr>)) True (HConnected r True) else t)"

definition dispatchSABM :: "table \<Rightarrow> int \<Rightarrow> frame \<Rightarrow> string \<Rightarrow> string \<Rightarrow> table" where
  "dispatchSABM t port f src dst =
     (if overheard t port dst src [Connecting, Connected] then t
      else if \<not> isLocal t port dst then t
      else
        (let returnVia = reversed (addrSliceToStrings (Via f))
         in case getOrCreate t port dst src of
              (None, t) \<Rightarrow> sendFrame t port (respFrame (uni t) src dst returnVia DM (PF f))
            | (Some r, t) \<Rightarrow> acceptSABM t r port returnVia src dst (PF f) 8))"

definition dispatchSABME :: "table \<Rightarrow> int \<Rightarrow> frame \<Rightarrow> string \<Rightarrow> string \<Rightarrow> table" where
  "dispatchSABME t port f src dst =
     (if overheard t port dst src [Connecting, Connected] then t
      else if \<not> isLocal t port dst then t
      else if AX25Version (portParams t port) < 22
      then sendFrame t port (respFrame (uni t) src dst [] DM True)
      else
        (let returnVia = reversed (addrSliceToStrings (Via f))
         in case getOrCreate t port dst src of
              (None, t) \<Rightarrow> sendFrame t port (respFrame (uni t) src dst returnVia DM (PF f))
            | (Some r, t) \<Rightarrow> acceptSABM t r port returnVia src dst (PF f) 128))"

definition notifyConnectedOut :: "table \<Rightarrow> ref \<Rightarrow> table" where
  "notifyConnectedOut t r =
     (if hConnected (thooks t)
      then emit (upd t r (\<lambda>c. c\<lparr>incoming := False\<rparr>)) True (HConnected r False) else t)"

definition dispatchUA :: "table \<Rightarrow> int \<Rightarrow> frame \<Rightarrow> string \<Rightarrow> string \<Rightarrow> table" where
  "dispatchUA t port f src dst =
     (case Get t port dst src of
        None \<Rightarrow> t
      | Some r \<Rightarrow>
          (if State (cell t r) = Connecting then
             (let t = enterConnected (cancelT1 t r) r;
                  t = upd t r (\<lambda>c. c\<lparr>sendSeq := 0, recvSeq := 0, t1Polls := 0\<rparr>);
                  t = notifyConnectedOut t r
              in if ppSREJ (portParams t port) \<and> cModulo (cell t r) = 128 then sendXIDCommand t r else t)
           else if State (cell t r) = Disconnecting then
             removeConn (emit t (hDisconnected (thooks t)) (HDisconnected r)) r
           else t))"

definition dispatchDM :: "table \<Rightarrow> int \<Rightarrow> frame \<Rightarrow> string \<Rightarrow> string \<Rightarrow> table" where
  "dispatchDM t port f src dst =
     (case Get t port dst src of
        None \<Rightarrow> t
      | Some r \<Rightarrow>
          (if State (cell t r) = Connecting \<and> cModulo (cell t r) = 128 \<and> \<not> triedFallback (cell t r)
           then snd (fallbackToSABM t r)
           else if State (cell t r) = Connected \<and> xidPending (cell t r)
           then upd t r (\<lambda>c. c\<lparr>xidPending := False, srejEnabled := False\<rparr>)
           else
             removeConn
               (if State (cell t r) = Connecting
                then emit t (hConnectFailed (thooks t)) (HConnectFailed r FailDM)
                else emit t (hDisconnected (thooks t)) (HDisconnected r)) r))"

definition dispatchDISC :: "table \<Rightarrow> int \<Rightarrow> frame \<Rightarrow> string \<Rightarrow> string \<Rightarrow> table" where
  "dispatchDISC t port f src dst =
     (case Get t port dst src of
        None \<Rightarrow>
          (if overheard t port dst src [Connecting, Connected, Disconnecting] then t
           else if isLocal t port dst
           then sendFrame t port (respFrame (uni t) src dst [] DM (PF f))
           else t)
      | Some r \<Rightarrow>
          (let t = sendFrame t port (respFrame (uni t) src dst (cVia (cell t r)) UA (PF f));
               t = emit t (hDisconnected (thooks t)) (HDisconnected r)
           in removeConn t r))"

definition dispatchFRMR :: "table \<Rightarrow> int \<Rightarrow> frame \<Rightarrow> string \<Rightarrow> string \<Rightarrow> table" where
  "dispatchFRMR t port f src dst =
     (case Get t port dst src of
        None \<Rightarrow> t
      | Some r \<Rightarrow>
          (if State (cell t r) = Connecting \<and> cModulo (cell t r) = 128 \<and> \<not> triedFallback (cell t r)
           then snd (fallbackToSABM t r)
           else if State (cell t r) = Connected \<and> xidPending (cell t r)
           then upd t r (\<lambda>c. c\<lparr>xidPending := False, srejEnabled := False\<rparr>)
           else if State (cell t r) \<noteq> Connected then t
           else
             (let t = upd t r (\<lambda>c. (resetSeqs (c\<lparr>State := Connecting\<rparr>))
                        \<lparr>remoteBusy := remoteBusy c, t1Polls := 0, triedFallback := False\<rparr>);
                  t = cancelAll t r;
                  t = (if cModulo (cell t r) = 128 then sendSABME t r else sendSABM t r)
              in startT1 t r)))"

section \<open>Information frames\<close>

definition ackOrDelay :: "table \<Rightarrow> ref \<Rightarrow> bool \<Rightarrow> string \<Rightarrow> string \<Rightarrow> table" where
  "ackOrDelay t r pf src dst =
     (if pf then sendRRResponse (cancelT2 t r) r src dst else scheduleT2 t r src dst)"

fun srejHoles :: "nat list \<Rightarrow> table \<Rightarrow> ref \<Rightarrow> string \<Rightarrow> string \<Rightarrow> u8 \<Rightarrow> table" where
  "srejHoles [] t r src dst limit = t"
| "srejHoles (i # is) t r src dst limit =
     (let c = cell t r; ns = (recvSeq c + word_of_nat i) mod cModulo c
      in if ns = limit then t
         else if map_of (rxBuf c) ns \<noteq> None then srejHoles is t r src dst limit
         else if ns \<in> set (srejSent c) then srejHoles is t r src dst limit
         else
           (let srej = (respFrame (uni t) src dst (cVia c) SREJ (ns = recvSeq c))\<lparr>NR := ns\<rparr>;
                t = upd t r (\<lambda>c. c\<lparr>srejSent := ns # srejSent c\<rparr>);
                t = sendFrame t (cPort c) srej
            in srejHoles is t r src dst limit))"

definition sendSREJHoles :: "table \<Rightarrow> ref \<Rightarrow> string \<Rightarrow> string \<Rightarrow> u8 \<Rightarrow> table" where
  "sendSREJHoles t r src dst limit = srejHoles [0..<unat (cModulo (cell t r))] t r src dst limit"

definition flushStep :: "table \<Rightarrow> ref \<Rightarrow> rxEntry \<Rightarrow> table" where
  "flushStep t r e =
     (let seq = recvSeq (cell t r);
          t = upd t r (\<lambda>c. c\<lparr>rxBuf := AList.delete seq (rxBuf c), srejSent := removeAll seq (srejSent c)\<rparr>);
          t = deliverData t r (rePid e) (reInfo e)
      in upd t r (\<lambda>c. c\<lparr>recvSeq := (seq + 1) mod cModulo c\<rparr>))"

lemma deliverData_frame [frame_simps, simp]:
  "uni (deliverData t r p i) = uni t" "thooks (deliverData t r p i) = thooks t"
  "params (deliverData t r p i) = params t" "conns (deliverData t r p i) = conns t"
  "cells (deliverData t r p i) = cells t" "nextConn (deliverData t r p i) = nextConn t"
  "eng (deliverData t r p i) = eng t"
  by (simp_all add: deliverData_def)

lemma cells_flushStep [simp]:
  "cells (flushStep t r e) = (cells t)(r := (cells t r)
     \<lparr>rxBuf := AList.delete (recvSeq (cell t r)) (rxBuf (cell t r)),
      srejSent := removeAll (recvSeq (cell t r)) (srejSent (cell t r)),
      recvSeq := (recvSeq (cell t r) + 1) mod cModulo (cell t r)\<rparr>)"
  by (simp add: flushStep_def Let_def)

lemma flushStep_shorter:
  assumes "map_of (rxBuf (cell t r)) (recvSeq (cell t r)) = Some e"
  shows "length (rxBuf (cell (flushStep t r e) r)) < length (rxBuf (cell t r))"
proof -
  have "(recvSeq (cell t r), e) \<in> set (rxBuf (cell t r))" using assms by (rule map_of_SomeD)
  then show ?thesis
    by (auto simp: AList.delete_eq intro!: length_filter_less)
qed

function flushRx :: "table \<Rightarrow> ref \<Rightarrow> table" where
  "flushRx t r =
     (case map_of (rxBuf (cell t r)) (recvSeq (cell t r)) of
        None \<Rightarrow> t
      | Some e \<Rightarrow> flushRx (flushStep t r e) r)"
  by pat_completeness auto
termination
  by (relation "measure (\<lambda>(t, r). length (rxBuf (cell t r)))") (auto simp del: cells_flushStep intro: flushStep_shorter)

declare flushRx.simps [simp del]

text \<open>The receiver with selective reject negotiated.\<close>

definition recvSREJ :: "table \<Rightarrow> ref \<Rightarrow> PortParams \<Rightarrow> frame \<Rightarrow> string \<Rightarrow> string \<Rightarrow> table" where
  "recvSREJ t r pp f src dst =
     (let gap = (NS f - recvSeq (cell t r)) mod cModulo (cell t r)
      in if gap > 0 then
           (if uint gap > MaxWindow pp then ackOrDelay t r (PF f) src dst
            else
              (let t = upd t r (\<lambda>c. c\<lparr>
                         rxBuf := AList.update (NS f) \<lparr>rePid = PID f, reInfo = Info f\<rparr> (rxBuf c),
                         srejSent := removeAll (NS f) (srejSent c)\<rparr>)
               in sendSREJHoles (cancelT2 t r) r src dst (NS f)))
         else
           (let t = upd t r (\<lambda>c. c\<lparr>srejSent := removeAll (NS f) (srejSent c)\<rparr>);
                t = deliverData t r (PID f) (Info f);
                t = upd t r (\<lambda>c. c\<lparr>recvSeq := (NS f + 1) mod cModulo c\<rparr>);
                t = flushRx t r
            in ackOrDelay t r (PF f) src dst))"

text \<open>The go-back-N receiver: one REJ per gap.\<close>

definition recvREJ :: "table \<Rightarrow> ref \<Rightarrow> int \<Rightarrow> PortParams \<Rightarrow> frame \<Rightarrow> string \<Rightarrow> string \<Rightarrow> table" where
  "recvREJ t r port pp f src dst =
     (let expectedNS = recvSeq (cell t r)
      in if NS f \<noteq> expectedNS then
           (let gap = (NS f - expectedNS) mod cModulo (cell t r)
            in if gap > 0 \<and> uint gap \<le> MaxWindow pp \<and> rejSent (cell t r) then
                 (if PF f then sendRRResponse (cancelT2 t r) r src dst else t)
               else if gap > 0 \<and> uint gap \<le> MaxWindow pp then
                 (let t = cancelT2 t r;
                      rej = (respFrame (uni t) src dst (cVia (cell t r)) REJ (PF f))\<lparr>NR := expectedNS\<rparr>;
                      t = sendFrame t port rej
                  in upd t r (\<lambda>c. c\<lparr>rejSent := True\<rparr>))
               else ackOrDelay t r (PF f) src dst)
         else
           (let t = upd t r (\<lambda>c. c\<lparr>rejSent := False, recvSeq := (NS f + 1) mod cModulo c\<rparr>);
                t = ackOrDelay t r (PF f) src dst
            in deliverData t r (PID f) (Info f)))"

definition promote :: "table \<Rightarrow> ref option \<Rightarrow> table" where
  "promote t ro =
     (case ro of
        None \<Rightarrow> t
      | Some r \<Rightarrow>
          if State (cell t r) = Connecting
          then notifyConnectedOut
                 (upd (cancelT1 (enterConnected t r) r) r
                    (\<lambda>c. c\<lparr>t1Polls := 0, sendSeq := 0, recvSeq := 0\<rparr>)) r
          else t)"

definition dispatchI :: "table \<Rightarrow> int \<Rightarrow> frame \<Rightarrow> string \<Rightarrow> string \<Rightarrow> table" where
  "dispatchI t port f src dst =
     (let ro = Get t port dst src; t = promote t ro;
          idle = (if overheard t port dst src [Connecting, Connected] then t
                  else if PF f \<and> isLocal t port dst
                  then sendFrame t port (respFrame (uni t) src dst [] DM True)
                  else t)
      in case ro of
           None \<Rightarrow> idle
         | Some r \<Rightarrow>
             if State (cell t r) \<noteq> Connected then idle
             else
               (let t = ackFrames t r (NR f); pp = portParams t port
                in if srejEnabled (cell t r) then recvSREJ t r pp f src dst
                   else recvREJ t r port pp f src dst))"

section \<open>Supervisory frames\<close>

definition resendOne :: "table \<Rightarrow> ref \<Rightarrow> u8 \<Rightarrow> table" where
  "resendOne t r nr =
     (case map_of (retransmitBuf (cell t r)) nr of
        None \<Rightarrow> t
      | Some raw \<Rightarrow>
          (case ParseModulo raw (uint (cModulo (cell t r))) of
             Inl _ \<Rightarrow> t
           | Inr orig \<Rightarrow>
               (let rf = iFrame (uni t) (cell t r) (NS orig) (PID orig) (Info orig);
                    t = upd t r (\<lambda>c. c\<lparr>retransmitBuf := AList.update nr (Bytes rf) (retransmitBuf c),
                          iframeTimestamps := AList.delete nr (iframeTimestamps c)\<rparr>)
                in sendFrame t (cPort (cell t r)) rf)))"

definition answerDeferred :: "table \<Rightarrow> ref \<Rightarrow> string \<Rightarrow> string \<Rightarrow> table" where
  "answerDeferred t r src dst =
     (if State (cell t r) = Connected then sendRRResponse t r src dst else t)"

definition deferRR :: "table \<Rightarrow> ref \<Rightarrow> string \<Rightarrow> string \<Rightarrow> table" where
  "deferRR t r src dst =
     (if hDefer (thooks t) then t\<lparr>eng := Do (eng t) (RRFn r src dst)\<rparr>
      else answerDeferred t r src dst)"

definition timerRecovery :: "table \<Rightarrow> ref \<Rightarrow> frame \<Rightarrow> u8 \<Rightarrow> table" where
  "timerRecovery t r f vsBefore =
     (if \<not> Command f \<and> PF f \<and> polling (cell t r) then
        (let t = upd t r (\<lambda>c. c\<lparr>polling := False\<rparr>);
             t = (if Type f \<noteq> REJ \<and> \<not> remoteBusy (cell t r) \<and> retransmitBuf (cell t r) \<noteq> []
                  then startT1 (retransmitRange t r (lastAcked (cell t r)) vsBefore) r else t)
         in if retransmitBuf (cell t r) = []
            then upd (cancelT1 t r) r (\<lambda>c. c\<lparr>t1Polls := 0\<rparr>) else t)
      else t)"

definition answerPoll :: "table \<Rightarrow> int \<Rightarrow> frame \<Rightarrow> string \<Rightarrow> string \<Rightarrow> table" where
  "answerPoll t port f src dst =
     (if PF f \<and> Command f then
        (case Get t port dst src of
           None \<Rightarrow> t
         | Some r2 \<Rightarrow>
             if State (cell t r2) = Connected then
               (if Type f = REJ then sendRRResponse t r2 src dst else deferRR t r2 src dst)
             else t)
      else t)"

definition dispatchS :: "table \<Rightarrow> int \<Rightarrow> frame \<Rightarrow> string \<Rightarrow> string \<Rightarrow> table" where
  "dispatchS t port f src dst =
     (case Get t port dst src of
        None \<Rightarrow> t
      | Some r \<Rightarrow>
          if State (cell t r) \<noteq> Connected then t
          else
            (let vsBefore = sendSeq (cell t r);
                 t = (if Type f \<noteq> SREJ \<or> PF f then ackFrames t r (NR f) else t)
             in if Type f = SREJ then
                  resendOne (upd t r (\<lambda>c. c\<lparr>remoteBusy := False\<rparr>)) r (NR f)
                else
                  (let t = (if Type f = RNR then upd t r (\<lambda>c. c\<lparr>remoteBusy := True\<rparr>)
                            else if Type f = RR \<and> remoteBusy (cell t r)
                            then drainOutbound (upd t r (\<lambda>c. c\<lparr>remoteBusy := False\<rparr>)) r
                            else t);
                       t = (if Type f = REJ
                            then retransmitFrom (upd t r (\<lambda>c. c\<lparr>remoteBusy := False\<rparr>)) r (NR f) else t);
                       t = timerRecovery t r f vsBefore
                   in answerPoll t port f src dst)))"

section \<open>Parameter negotiation\<close>

definition dispatchXID :: "table \<Rightarrow> int \<Rightarrow> frame \<Rightarrow> string \<Rightarrow> string \<Rightarrow> table" where
  "dispatchXID t port f src dst =
     (if \<not> isLocal t port dst then t
      else case Get t port dst src of
        None \<Rightarrow> t
      | Some r \<Rightarrow>
          (case ParseXID (Info f) of
             Inl _ \<Rightarrow> t
           | Inr their \<Rightarrow>
               if \<not> Command f then
                 (if State (cell t r) \<noteq> Connected then t
                  else upd t r (\<lambda>c. c\<lparr>xidPending := False,
                         srejEnabled := (negotiateSREJ t r (xidSREJ their) \<ge> SREJSingle)\<rparr>))
               else if \<not> PF f then t
               else
                 (let neg = negotiateSREJ t r (xidSREJ their);
                      t = upd t r (\<lambda>c. c\<lparr>srejEnabled := (neg \<ge> SREJSingle)\<rparr>);
                      w = MaxWindow (portParams t port);
                      window = (if WindowRx their > 0 \<and> WindowRx their < w then WindowRx their else w);
                      rsp = \<lparr>FullDuplex = False, xidSREJ = neg, xidModulo = uint (cModulo (cell t r)),
                             IFieldLenRxBytes = 256, WindowRx = window\<rparr>
                  in sendFrame t port
                       ((respFrame (uni t) src dst (cVia (cell t r)) XID True)\<lparr>Info := Encode rsp False\<rparr>))))"

section \<open>The dispatcher\<close>

definition dispatch :: "table \<Rightarrow> int \<Rightarrow> frame \<Rightarrow> string \<Rightarrow> string \<Rightarrow> table" where
  "dispatch t port f src dst =
     (case Type f of
        SABM \<Rightarrow> dispatchSABM t port f src dst
      | SABME \<Rightarrow> dispatchSABME t port f src dst
      | UA \<Rightarrow> dispatchUA t port f src dst
      | DM \<Rightarrow> dispatchDM t port f src dst
      | DISC \<Rightarrow> dispatchDISC t port f src dst
      | FRMR \<Rightarrow> dispatchFRMR t port f src dst
      | I \<Rightarrow> dispatchI t port f src dst
      | RR \<Rightarrow> dispatchS t port f src dst
      | RNR \<Rightarrow> dispatchS t port f src dst
      | REJ \<Rightarrow> dispatchS t port f src dst
      | SREJ \<Rightarrow> dispatchS t port f src dst
      | XID \<Rightarrow> dispatchXID t port f src dst
      | UI \<Rightarrow> t
      | UnknownType \<Rightarrow> t)"

definition OnFrame :: "table \<Rightarrow> int \<Rightarrow> frame \<Rightarrow> table" where
  "OnFrame t port f =
     (let src = addr_String (Src f); dst = addr_String (Dst f);
          t = dispatch t port f src dst
      in case Get t port dst src of
           Some r \<Rightarrow> if State (cell t r) = Connected then startT3 t r else t
         | None \<Rightarrow> t)"

section \<open>Bulk removal\<close>

definition dropOwned :: "table \<Rightarrow> ref \<Rightarrow> table" where
  "dropOwned t r =
     (let t = cancelAll t r;
          t = (if State (cell t r) = Connected \<or> State (cell t r) = Connecting
               then sendCmd t r DISC else t)
      in removeConn t r)"

definition RemoveOwned :: "(ref list \<Rightarrow> ref list) \<Rightarrow> table \<Rightarrow> nat option \<Rightarrow> table" where
  "RemoveOwned ord t owner =
     foldl dropOwned t (ord (filter (\<lambda>r. Owner (cell t r) = owner) (map snd (conns t))))"

definition dropOffline :: "table \<Rightarrow> ref \<Rightarrow> table" where
  "dropOffline t r =
     (let t = cancelAll t r;
          t = emit t (hDisconnected (thooks t)) (HDisconnected r)
      in removeConn t r)"

definition PortOffline :: "(ref list \<Rightarrow> ref list) \<Rightarrow> table \<Rightarrow> int \<Rightarrow> table" where
  "PortOffline ord t port =
     foldl dropOffline t
       (ord (filter (\<lambda>r. cPort (cell t r) = port \<and> State (cell t r) \<in> {Connected, Connecting, Disconnecting})
               (map snd (conns t))))"

section \<open>Functions run by the engine\<close>

definition runClosure :: "table \<Rightarrow> closure \<Rightarrow> table" where
  "runClosure t fn =
     (case fn of
        T1Fn r tid \<Rightarrow> if t1 (cell t r) \<noteq> Some tid then t else t1Expired t r
      | T2Fn r tid \<Rightarrow> if t2 (cell t r) \<noteq> Some tid then t else t2Expired t r
      | T3Fn r tid \<Rightarrow> if t3 (cell t r) \<noteq> Some tid then t else t3Expired t r
      | RRFn r src dst \<Rightarrow> answerDeferred t r src dst)"

text \<open>One turn of the loop: take the queue as a batch and run it in order.\<close>

definition runBatch :: "table \<Rightarrow> table" where
  "runBatch t = foldl runClosure (t\<lparr>eng := (eng t)\<lparr>queue := []\<rparr>\<rparr>) (queue (eng t))"

section \<open>Snapshots\<close>

record ConnInfo =
  ciPort :: int
  ciLocal :: string
  ciRemote :: string
  ciVia :: "string list"
  ciState :: string
  ciIncoming :: bool
  ciModulo :: u8
  ciSendSeq :: u8
  ciRecvSeq :: u8
  ciUnacked :: u8
  ciSendQueue :: nat
  ciT1Retries :: int
  ciRemoteBusy :: bool
  ciSRTTms :: int
  ciSREJ :: bool

definition lower_char :: "char \<Rightarrow> char" where
  "lower_char c =
     (if 65 \<le> (of_char c :: nat) \<and> (of_char c :: nat) \<le> 90 then char_of (of_char c + 32 :: nat) else c)"

definition connInfo :: "conn \<Rightarrow> ConnInfo" where
  "connInfo c =
     \<lparr>ciPort = cPort c, ciLocal = Local c, ciRemote = Remote c, ciVia = cVia c,
      ciState = map lower_char (ConnState_String (State c)), ciIncoming = incoming c,
      ciModulo = cModulo c, ciSendSeq = sendSeq c, ciRecvSeq = recvSeq c, ciUnacked = unacked c,
      ciSendQueue = length (outQueue c), ciT1Retries = t1Polls c, ciRemoteBusy = remoteBusy c,
      ciSRTTms = go_div (srtt c) 1000000, ciSREJ = srejEnabled c\<rparr>"

definition infoKey :: "ConnInfo \<Rightarrow> int \<times> string \<times> string" where
  "infoKey ci = (ciPort ci, ciLocal ci, ciRemote ci)"

definition Snapshot :: "(ref list \<Rightarrow> ref list) \<Rightarrow> table \<Rightarrow> ConnInfo list" where
  "Snapshot ord t =
     sort_key infoKey
       (map (\<lambda>r. connInfo (cell t r))
          (filter (\<lambda>r. State (cell t r) \<in> {Connecting, Connected, Disconnecting}) (ord (map snd (conns t)))))"

end
