(* ===== verification/Seq_Space.thy ===== *)
theory Seq_Space
  imports Prelude
begin

text \<open>
  Arithmetic on AX.25 sequence numbers.  The program computes with \<open>uint8\<close> values that wrap at
  256 and then reduces with \<open>% modulo\<close>.  Both moduli divide 256, so the two reductions agree with
  arithmetic modulo 8 or 128; the lemmas here say what a window of sequence numbers is and how
  it changes when a frame is sent or acknowledged.
\<close>

text \<open>\<open>k\<close> is one of the \<open>n\<close> sequence numbers that start at \<open>a\<close>.\<close>

definition inWin :: "u8 \<Rightarrow> u8 \<Rightarrow> u8 \<Rightarrow> u8 \<Rightarrow> bool" where
  "inWin m a n k \<longleftrightarrow> k < m \<and> (k - a) mod m < n"

locale seq_space =
  fixes m :: u8
  assumes modulus: "m = 8 \<or> m = 128"
begin

abbreviation M :: int where
  "M \<equiv> uint m"

lemma M_cases: "M = 8 \<or> M = 128"
  using modulus by auto

lemma M_dvd: "M dvd 256"
  using M_cases by auto

lemma uint_mod: "uint (x mod m) = uint x mod M"
  by (rule uint_mod)

lemma uint_diff: "uint ((x - y) mod m) = (uint x - uint y) mod M"
  using M_dvd by (simp add: uint_mod uint_word_ariths mod_mod_cancel)

lemma uint_add: "uint ((x + y) mod m) = (uint x + uint y) mod M"
  using M_dvd by (simp add: uint_mod uint_word_ariths mod_mod_cancel)

lemma less_M: "k < m \<longleftrightarrow> uint k < M"
  by (simp add: word_less_alt)

lemma mod_less: "x mod m < m"
  using M_cases by (auto simp: less_M uint_mod)

lemma uint_ge0: "0 \<le> uint (x :: u8)"
  by simp

lemma inWin_int: "inWin m a n k \<longleftrightarrow> uint k < M \<and> (uint k - uint a) mod M < uint n"
  by (simp add: inWin_def less_M word_less_alt uint_diff)

lemma diff_zero: "a < m \<Longrightarrow> (a - a) mod m = 0"
  by simp

text \<open>A number below the modulus is determined by its distance from \<open>a\<close>.\<close>

lemma dist_inj:
  assumes "j < m" "k < m" "(j - a) mod m = (k - a) mod m"
  shows "j = k"
proof -
  have "(uint j - uint a) mod M = (uint k - uint a) mod M"
    using assms(3) by (metis uint_diff)
  then have "uint j mod M = uint k mod M"
    using mod_diff_cong [of "uint j - uint a" M "uint k - uint a" "- uint a" "- uint a"] by simp
  then show ?thesis
    using assms(1,2) by (simp add: less_M word_uint_eq_iff)
qed

lemma uint_succ: "uint (n :: u8) + 1 < M \<Longrightarrow> uint (n + 1) = uint n + 1"
  using M_cases by (auto simp: uint_word_ariths)

lemma dist_succ:
  assumes "(s - a) mod m = n" "uint n + 1 < M"
  shows "((s + 1) mod m - a) mod m = n + 1"
proof -
  have n: "uint n = (uint s - uint a) mod M" using assms(1) uint_diff by metis
  have "uint (((s + 1) mod m - a) mod m) = ((uint s + 1) mod M - uint a) mod M"
    by (simp add: uint_diff uint_add)
  also have "\<dots> = ((uint s - uint a) mod M + 1) mod M"
    by (metis add_diff_eq diff_add_eq mod_add_left_eq mod_diff_left_eq)
  also have "\<dots> = uint n + 1"
    unfolding n [symmetric] using assms(2) by (intro mod_pos_pos_trivial) simp_all
  finally have "uint (((s + 1) mod m - a) mod m) = uint n + 1" .
  moreover have "uint (n + 1) = uint n + 1" using assms(2) by (rule uint_succ)
  ultimately show ?thesis by (simp add: word_uint_eq_iff)
qed

text \<open>Sending one more frame adds its sequence number to the window.\<close>

lemma inWin_send:
  assumes "(s - a) mod m = n" "s < m" "uint n + 1 < M"
  shows "inWin m a (n + 1) k \<longleftrightarrow> k = s \<or> inWin m a n k"
proof -
  have n1: "uint (n + 1) = uint n + 1" using assms(3) by (rule uint_succ)
  have n: "uint n = (uint s - uint a) mod M" using assms(1) uint_diff by metis
  have "(uint k - uint a) mod M = uint n \<longleftrightarrow> k = s" if "k < m"
    using dist_inj [OF that assms(2), of a] n by (metis uint_diff word_uint_eq_iff)
  then show ?thesis
    using assms(2) n n1 by (auto simp: inWin_int less_M)
qed

lemma inWin_zero: "\<not> inWin m a 0 k"
  by (simp add: inWin_def)

text \<open>Acknowledging up to \<open>nr\<close> leaves the window from \<open>nr\<close> on.\<close>

lemma dist_ack:
  assumes "(nr - a) mod m \<le> (s - a) mod m"
  shows "(s - nr) mod m = (s - a) mod m - (nr - a) mod m"
proof -
  define x where "x = (uint s - uint a) mod M"
  define d where "d = (uint nr - uint a) mod M"
  have le: "d \<le> x" using assms by (simp add: x_def d_def word_le_def uint_diff)
  have b: "0 \<le> d" "x < M" using M_cases by (auto simp: x_def d_def)
  have "(uint s - uint nr) mod M = (x - d) mod M"
    by (simp add: x_def d_def mod_diff_eq)
  also have "\<dots> = x - d" using le b by simp
  finally have "uint ((s - nr) mod m) = x - d" by (simp add: uint_diff)
  moreover have "uint ((s - a) mod m - (nr - a) mod m) = x - d"
    using le b assms by (simp add: uint_sub_if' word_le_def uint_diff x_def d_def)
  ultimately show ?thesis by (simp add: word_uint_eq_iff)
qed

lemma inWin_ack:
  assumes "(nr - a) mod m \<le> n" "uint n < M"
  shows "inWin m nr (n - (nr - a) mod m) k \<longleftrightarrow> inWin m a n k \<and> \<not> inWin m a ((nr - a) mod m) k"
proof -
  define x where "x = (uint k - uint a) mod M"
  define d where "d = (uint nr - uint a) mod M"
  have le: "d \<le> uint n" using assms(1) by (simp add: d_def word_le_def uint_diff)
  have b: "0 \<le> d" "0 \<le> x" "x < M" "d < M" using M_cases by (auto simp: x_def d_def)
  have nd: "uint (n - (nr - a) mod m) = uint n - d"
    using assms(1) by (simp add: uint_sub_if' word_le_def uint_diff d_def)
  have xd: "(uint k - uint nr) mod M = (if d \<le> x then x - d else x - d + M)"
  proof -
    have "(uint k - uint nr) mod M = (x - d) mod M"
      by (simp add: x_def d_def mod_diff_eq)
    also have "\<dots> = (if d \<le> x then x - d else x - d + M)"
      using b mod_add_self2 [of "x - d" M] mod_pos_pos_trivial [of "x - d + M" M] by auto
    finally show ?thesis .
  qed
  show ?thesis
    using le b assms(2) by (auto simp: inWin_int nd xd uint_diff simp flip: x_def d_def)
qed

lemma inWin_self: "inWin m a n a \<longleftrightarrow> a < m \<and> 0 < n"
  by (simp add: inWin_def)

text \<open>The window that starts at \<open>a\<close> is \<open>a\<close> followed by the window that starts after it.\<close>

lemma inWin_first:
  assumes "a < m" "uint n + 1 < M"
  shows "inWin m a (n + 1) k \<longleftrightarrow> k = a \<or> inWin m ((a + 1) mod m) n k"
proof -
  have d: "((a + 1) mod m - a) mod m = 1"
    using dist_succ [of a a 0] assms M_cases by auto
  have n1: "uint (n + 1) = uint n + 1" using assms(2) by (rule uint_succ)
  have "1 \<le> n + 1" using n1 by (simp add: word_le_def)
  with inWin_ack [of "(a + 1) mod m" a "n + 1" k] d n1 assms(2)
  have "inWin m ((a + 1) mod m) n k \<longleftrightarrow> inWin m a (n + 1) k \<and> \<not> inWin m a 1 k"
    by simp
  moreover have "inWin m a 1 k \<longleftrightarrow> k = a"
    using inWin_send [of a a 0 k] assms(1) M_cases by (auto simp: inWin_zero)
  moreover have "inWin m a (n + 1) a" using assms(1) n1 by (simp add: inWin_self word_less_alt)
  ultimately show ?thesis by blast
qed

lemma inWin_mod: "inWin m a n k \<Longrightarrow> k mod m = k"
  using M_cases by (auto simp: inWin_int word_uint_eq_iff uint_mod)

lemma add_one_less: "(s + 1) mod m < m"
  by (rule mod_less)

end

interpretation seq8: seq_space 8
  by unfold_locales simp

interpretation seq128: seq_space 128
  by unfold_locales simp

end
