(* ===== verification/L2_Inv.thy ===== *)
theory L2_Inv
  imports L2_Dispatch Seq_Space
begin

text \<open>
  The invariant of the connected-mode layer and its preservation by every operation on a
  connection.  \<open>conn_inv\<close> ties the send variables, the retransmission buffer, the round-trip
  timestamps and the window together; \<open>table_inv\<close> is the invariant of the whole table.
\<close>

section \<open>The invariant of one connection\<close>

text \<open>A stored frame: the encoding of an I-frame with the number it is stored under.\<close>

definition stored :: "u8 \<Rightarrow> u8 \<Rightarrow> bytes \<Rightarrow> bool" where
  "stored m k raw \<longleftrightarrow>
     (\<exists>f. raw = Bytes f \<and> wf_fields f \<and> Type f = I \<and> NS f = k \<and> Modulo f = m \<and> \<not> PF f)"

definition all_stored :: "u8 \<Rightarrow> (u8 \<times> bytes) list \<Rightarrow> bool" where
  "all_stored m buf \<longleftrightarrow> (\<forall>(k, raw)\<in>set buf. stored m k raw)"

lemma all_stored_nil [simp]: "all_stored m []"
  by (simp add: all_stored_def)

definition seq_ok :: "conn \<Rightarrow> bool" where
  "seq_ok c \<longleftrightarrow> (cModulo c = 8 \<or> cModulo c = 128)
     \<and> sendSeq c < cModulo c \<and> recvSeq c < cModulo c \<and> lastAcked c < cModulo c"

definition win_ok :: "int \<Rightarrow> conn \<Rightarrow> bool" where
  "win_ok w c \<longleftrightarrow> unacked c = (sendSeq c - lastAcked c) mod cModulo c \<and> uint (unacked c) \<le> w"

definition buf_ok :: "conn \<Rightarrow> bool" where
  "buf_ok c \<longleftrightarrow> distinct (map fst (retransmitBuf c))
     \<and> (\<forall>k. k \<in> fst ` set (retransmitBuf c) \<longleftrightarrow> inWin (cModulo c) (lastAcked c) (unacked c) k)
     \<and> all_stored (cModulo c) (retransmitBuf c)"

definition stamps_ok :: "conn \<Rightarrow> bool" where
  "stamps_ok c \<longleftrightarrow> distinct (map fst (iframeTimestamps c))
     \<and> (\<forall>k\<in>fst ` set (iframeTimestamps c). inWin (cModulo c) (lastAcked c) (unacked c) k)"

definition queue_ok :: "conn \<Rightarrow> bool" where
  "queue_ok c \<longleftrightarrow> length (outQueue c) \<le> maxOutboundQueue
     \<and> (\<forall>e\<in>set (outQueue c). length (oeData e) \<le> maxIFrameInfo)"

definition pristine :: "conn \<Rightarrow> bool" where
  "pristine c \<longleftrightarrow> sendSeq c = 0 \<and> recvSeq c = 0 \<and> unacked c = 0 \<and> lastAcked c = 0
     \<and> outQueue c = [] \<and> retransmitBuf c = [] \<and> iframeTimestamps c = []"

definition conn_inv :: "int \<Rightarrow> conn \<Rightarrow> bool" where
  "conn_inv w c \<longleftrightarrow> seq_ok c \<and> win_ok w c \<and> buf_ok c \<and> stamps_ok c \<and> queue_ok c
     \<and> length (cVia c) \<le> MaxDigipeaters \<and> (State c = Connecting \<longrightarrow> pristine c)"

lemmas conn_inv_defs = conn_inv_def seq_ok_def win_ok_def buf_ok_def stamps_ok_def queue_ok_def pristine_def

lemma conn_inv_irrelevant [simp]:
  "conn_inv w (c\<lparr>t1 := x1\<rparr>) = conn_inv w c" "conn_inv w (c\<lparr>t2 := x1\<rparr>) = conn_inv w c"
  "conn_inv w (c\<lparr>t3 := x1\<rparr>) = conn_inv w c" "conn_inv w (c\<lparr>t1Polls := i\<rparr>) = conn_inv w c"
  "conn_inv w (c\<lparr>t1Value := i\<rparr>) = conn_inv w c" "conn_inv w (c\<lparr>remoteBusy := b\<rparr>) = conn_inv w c"
  "conn_inv w (c\<lparr>polling := b\<rparr>) = conn_inv w c" "conn_inv w (c\<lparr>rejSent := b\<rparr>) = conn_inv w c"
  "conn_inv w (c\<lparr>t2Src := s\<rparr>) = conn_inv w c" "conn_inv w (c\<lparr>t2Dst := s\<rparr>) = conn_inv w c"
  "conn_inv w (c\<lparr>incoming := b\<rparr>) = conn_inv w c" "conn_inv w (c\<lparr>triedFallback := b\<rparr>) = conn_inv w c"
  "conn_inv w (c\<lparr>xidPending := b\<rparr>) = conn_inv w c" "conn_inv w (c\<lparr>srejEnabled := b\<rparr>) = conn_inv w c"
  "conn_inv w (c\<lparr>rxBuf := rb\<rparr>) = conn_inv w c" "conn_inv w (c\<lparr>srejSent := ss\<rparr>) = conn_inv w c"
  "conn_inv w (c\<lparr>srtt := i\<rparr>) = conn_inv w c" "conn_inv w (c\<lparr>rttvar := i\<rparr>) = conn_inv w c"
  "conn_inv w (c\<lparr>Owner := ow\<rparr>) = conn_inv w c"
  by (simp_all add: conn_inv_defs)

lemma parts_irrelevant [simp]:
  "seq_ok (c\<lparr>State := st\<rparr>) = seq_ok c" "win_ok w (c\<lparr>State := st\<rparr>) = win_ok w c"
  "buf_ok (c\<lparr>State := st\<rparr>) = buf_ok c" "stamps_ok (c\<lparr>State := st\<rparr>) = stamps_ok c"
  "queue_ok (c\<lparr>State := st\<rparr>) = queue_ok c"
  "win_ok w (c\<lparr>recvSeq := v\<rparr>) = win_ok w c" "buf_ok (c\<lparr>recvSeq := v\<rparr>) = buf_ok c"
  "stamps_ok (c\<lparr>recvSeq := v\<rparr>) = stamps_ok c" "queue_ok (c\<lparr>recvSeq := v\<rparr>) = queue_ok c"
  "seq_ok (c\<lparr>outQueue := oq\<rparr>) = seq_ok c" "win_ok w (c\<lparr>outQueue := oq\<rparr>) = win_ok w c"
  "buf_ok (c\<lparr>outQueue := oq\<rparr>) = buf_ok c" "stamps_ok (c\<lparr>outQueue := oq\<rparr>) = stamps_ok c"
  by (simp_all add: seq_ok_def win_ok_def buf_ok_def stamps_ok_def queue_ok_def)

lemma conn_inv_State: "s \<noteq> Connecting \<Longrightarrow> conn_inv w c \<Longrightarrow> conn_inv w (c\<lparr>State := s\<rparr>)"
  by (simp add: conn_inv_def)

lemma conn_inv_recvSeq:
  "State c \<noteq> Connecting \<Longrightarrow> conn_inv w c \<Longrightarrow> v < cModulo c \<Longrightarrow> conn_inv w (c\<lparr>recvSeq := v\<rparr>)"
  by (simp add: conn_inv_def) (simp add: seq_ok_def)

text \<open>A connection with nothing sent, queued or received satisfies the invariant at either modulo.\<close>

lemma conn_inv_pristine:
  assumes "pristine c" "cModulo c = 8 \<or> cModulo c = 128" "0 \<le> w" "length (cVia c) \<le> MaxDigipeaters"
  shows "conn_inv w c"
  using assms by (auto simp: conn_inv_defs inWin_def)

lemma pristine_resetSeqs: "pristine (resetSeqs c)"
  by (simp add: resetSeqs_def pristine_def)

lemma pristine_irrelevant [simp]:
  "pristine (c\<lparr>t1 := x1\<rparr>) = pristine c" "pristine (c\<lparr>t2 := x1\<rparr>) = pristine c"
  "pristine (c\<lparr>t3 := x1\<rparr>) = pristine c" "pristine (c\<lparr>t1Polls := i\<rparr>) = pristine c"
  "pristine (c\<lparr>t1Value := i\<rparr>) = pristine c" "pristine (c\<lparr>remoteBusy := b\<rparr>) = pristine c"
  "pristine (c\<lparr>triedFallback := b\<rparr>) = pristine c" "pristine (c\<lparr>cModulo := m\<rparr>) = pristine c"
  "pristine (c\<lparr>cVia := v\<rparr>) = pristine c" "pristine (c\<lparr>State := st\<rparr>) = pristine c"
  "pristine (c\<lparr>incoming := b\<rparr>) = pristine c"
  by (simp_all add: pristine_def)

section \<open>Tables\<close>

definition params_ok :: "table \<Rightarrow> bool" where
  "params_ok t \<longleftrightarrow> (\<forall>pp\<in>set (params t). 0 \<le> MaxWindow pp \<and> MaxWindow pp \<le> 7)"

lemma portParams_window: "params_ok t \<Longrightarrow> 0 \<le> MaxWindow (portParams t p) \<and> MaxWindow (portParams t p) \<le> 7"
proof -
  assume ok: "params_ok t"
  have "last (params t) \<in> set (params t)" if "params t \<noteq> []" using that by simp
  moreover have "params t ! nat p \<in> set (params t)" if "0 \<le> p" "p < int (length (params t))"
    using that by (intro nth_mem) linarith
  ultimately show ?thesis using ok by (auto simp: portParams_def params_ok_def)
qed

definition window :: "table \<Rightarrow> ref \<Rightarrow> int" where
  "window t r = MaxWindow (portParams t (cPort (cell t r)))"

definition cinv :: "table \<Rightarrow> ref \<Rightarrow> bool" where
  "cinv t r \<longleftrightarrow> conn_inv (window t r) (cell t r)"

definition ident :: "conn \<Rightarrow> int \<times> string \<times> string" where
  "ident c = (cPort c, Local c, Remote c)"

text \<open>
  \<open>keeps r t t'\<close>: a step that works on connection \<open>r\<close> only, does not change which connections
  exist, and preserves the invariant of \<open>r\<close>.
\<close>

definition keeps :: "ref \<Rightarrow> table \<Rightarrow> table \<Rightarrow> bool" where
  "keeps r t t' \<longleftrightarrow> same_conf t t' \<and> conns t' = conns t \<and> nextConn t' = nextConn t
     \<and> (\<forall>q. q \<noteq> r \<longrightarrow> cells t' q = cells t q) \<and> ident (cells t' r) = ident (cells t r)
     \<and> (params_ok t \<and> cinv t r \<longrightarrow> cinv t' r)"

named_theorems keeps_intros \<open>operations that keep the invariant of their connection\<close>

lemma keeps_refl [keeps_intros, simp]: "keeps r t t"
  by (simp add: keeps_def same_conf_def)

lemma keeps_trans: "keeps r t t' \<Longrightarrow> keeps r t' t'' \<Longrightarrow> keeps r t t''"
  by (auto simp: keeps_def same_conf_def params_ok_def)

lemma keepsI:
  assumes "same_conf t t'" "conns t' = conns t" "nextConn t' = nextConn t"
    and "cells t' = (cells t)(r := c)" "ident c = ident (cells t r)"
    and "params_ok t \<Longrightarrow> conn_inv (window t r) (cells t r) \<Longrightarrow> conn_inv (window t r) c"
  shows "keeps r t t'"
proof -
  have "portParams t' = portParams t" using assms(1) by (intro portParams_cong) (simp add: same_conf_def)
  then have "window t' r = window t r" using assms(4,5) by (simp add: window_def ident_def)
  then show ?thesis using assms by (auto simp: keeps_def cinv_def params_ok_def)
qed

lemma keeps_upd:
  assumes "ident (f (cells t r)) = ident (cells t r)"
    and "params_ok t \<Longrightarrow> conn_inv (window t r) (cells t r) \<Longrightarrow> conn_inv (window t r) (f (cells t r))"
  shows "keeps r t (upd t r f)"
  using assms by (intro keepsI [where c = "f (cells t r)"]) (simp_all add: same_conf_def)

lemma keeps_eqcells: "same_conf t t' \<Longrightarrow> conns t' = conns t \<Longrightarrow> nextConn t' = nextConn t \<Longrightarrow>
    cells t' = cells t \<Longrightarrow> keeps r t t'"
  by (rule keepsI [where c = "cells t r"]) simp_all

lemma keeps_simple [keeps_intros, simp]:
  "keeps r t (emit t b h)" "keeps r t (sendFrame t p f)" "keeps r t (sendCmd t r ft)"
  "keeps r t (sendRRResponse t r s d)" "keeps r t (deliverData t r pid i)"
  "keeps r t (t\<lparr>eng := e\<rparr>)"
  by (auto intro!: keeps_eqcells simp: same_conf_def)

lemmas keeps_cells = keepsI [OF _ _ _ cancelT_frame(7)] keepsI [OF _ _ _ cancelT_frame(14)]
  keepsI [OF _ _ _ cancelT_frame(21)] keepsI [OF _ _ _ cancelAll_frame(7)]
  keepsI [OF _ _ _ cells_startT1] keepsI [OF _ _ _ cells_startT3] keepsI [OF _ _ _ cells_scheduleT2]
  keepsI [OF _ _ _ sendEnquiry_frame(7)]

lemma keeps_timers [keeps_intros, simp]:
  "keeps r t (cancelT1 t r)" "keeps r t (cancelT2 t r)" "keeps r t (cancelT3 t r)"
  "keeps r t (cancelAll t r)" "keeps r t (startT1 t r)" "keeps r t (startT3 t r)"
  "keeps r t (scheduleT2 t r s d)" "keeps r t (sendEnquiry t r)"
  by (rule keeps_cells, simp_all add: same_conf_def ident_def)+

lemma keeps_ackOrDelay [keeps_intros, simp]: "keeps r t (ackOrDelay t r pf s d)"
  using keeps_trans [OF keeps_timers(2) keeps_simple(4)] by (simp add: ackOrDelay_def)

lemma keeps_t2Expired [keeps_intros, simp]: "keeps r t (t2Expired t r)"
proof -
  have "keeps r t (upd t r (\<lambda>c. c\<lparr>t2 := None\<rparr>))" by (rule keeps_upd) (simp_all add: ident_def)
  then show ?thesis by (auto simp: t2Expired_def Let_def intro: keeps_trans)
qed

lemma keeps_t3Expired [keeps_intros, simp]: "keeps r t (t3Expired t r)"
proof -
  have 1: "keeps r t (upd t r (\<lambda>c. c\<lparr>t3 := None\<rparr>))"
    and 2: "keeps r u (upd u r (\<lambda>c. c\<lparr>t1Polls := 0\<rparr>))" for t u
    by (rule keeps_upd; simp add: ident_def)+
  show ?thesis
    unfolding t3Expired_def Let_def
    by (auto intro: 1 keeps_trans [OF 1 keeps_trans [OF 2 keeps_trans [OF keeps_timers(8) keeps_timers(5)]]])
qed

lemma keeps_enterConnected [keeps_intros, simp]: "keeps r t (enterConnected t r)"
  unfolding enterConnected_def
  by (rule keeps_upd) (auto simp: ident_def intro: conn_inv_State)

section \<open>Sending\<close>

lemma wf_fields_iFrame:
  assumes "conn_inv w c" "ns < cModulo c"
  shows "wf_fields (iFrame u c ns pid info)"
  using assms
  by (auto simp: conn_inv_def seq_ok_def wf_fields_def iFrame_def cmdFrame_def mkFrame_def IsI_def IsS_def carriesInfo_def)

lemma iFrame_simps [simp]:
  "Type (iFrame u c ns pid info) = I" "NS (iFrame u c ns pid info) = ns"
  "NR (iFrame u c ns pid info) = recvSeq c" "PID (iFrame u c ns pid info) = pid"
  "Info (iFrame u c ns pid info) = info" "Modulo (iFrame u c ns pid info) = cModulo c"
  "PF (iFrame u c ns pid info) = False" "Command (iFrame u c ns pid info) = True"
  by (simp_all add: iFrame_def cmdFrame_def mkFrame_def)

lemma stored_iFrame:
  assumes "conn_inv w c" "ns < cModulo c"
  shows "stored (cModulo c) ns (Bytes (iFrame u c ns pid info))"
  unfolding stored_def
  by (rule exI [of _ "iFrame u c ns pid info"]) (simp add: wf_fields_iFrame [OF assms])

lemma all_stored_update: "all_stored m buf \<Longrightarrow> stored m k raw \<Longrightarrow> all_stored m (AList.update k raw buf)"
  unfolding all_stored_def by (induction buf) (auto split: if_splits)

lemma all_stored_subset: "all_stored m buf \<Longrightarrow> set buf' \<subseteq> set buf \<Longrightarrow> all_stored m buf'"
  unfolding all_stored_def by blast

lemma all_stored_lookup: "all_stored m buf \<Longrightarrow> map_of buf k = Some raw \<Longrightarrow> stored m k raw"
  unfolding all_stored_def by (blast dest: map_of_SomeD)

lemma keys_update: "fst ` set (AList.update k v al) = insert k (fst ` set al)"
  by (simp only: AList.dom_update insert_is_Un [symmetric])

lemma distinct_update_keys: "distinct (map fst al) \<Longrightarrow> distinct (map fst (AList.update k v al))"
  by (rule AList.distinct_update)

lemma keys_delete: "fst ` set (AList.delete k al) = fst ` set al - {k}"
  by (auto simp: AList.delete_eq image_iff)

end
