(* ===== verification/L2_Transfer.thy ===== *)
theory L2_Transfer
  imports L2_Inv
begin

text \<open>
  Information transfer keeps the connection invariant: opening the window, cumulative
  acknowledgement, and retransmission.  The sequence-number facts come from the interpretation
  of \<open>seq_space\<close> at the connection's modulo.
\<close>

lemma seq_ok_space: "seq_ok c \<Longrightarrow> seq_space (cModulo c)"
  by (simp add: seq_space_def seq_ok_def)

text \<open>The fields the invariant speaks about.\<close>

lemma conn_inv_cong:
  assumes "cModulo c = cModulo c'" "sendSeq c = sendSeq c'" "recvSeq c = recvSeq c'" "lastAcked c = lastAcked c'"
    "unacked c = unacked c'" "retransmitBuf c = retransmitBuf c'" "iframeTimestamps c = iframeTimestamps c'"
    "outQueue c = outQueue c'" "cVia c = cVia c'" "State c = State c'"
  shows "conn_inv w c \<longleftrightarrow> conn_inv w c'"
  unfolding conn_inv_defs assms ..

section \<open>Sending a new frame\<close>

lemma coalesce_bounded:
  assumes "coalesce pid chunk q = (chunk', q')" "\<forall>e\<in>set q. length (oeData e) \<le> maxIFrameInfo"
    and "length chunk \<le> maxIFrameInfo"
  shows "length chunk' \<le> maxIFrameInfo \<and> set q' \<subseteq> set q \<and> length q' \<le> length q"
  using assms
proof (induction pid chunk q arbitrary: chunk' q' rule: coalesce.induct)
  case (2 pid chunk e q)
  then show ?case by (fastforce split: if_splits)
qed auto

lemma win_small: "conn_inv w c \<Longrightarrow> w \<le> 7 \<Longrightarrow> uint (unacked c) < w \<Longrightarrow> uint (unacked c) + 1 < uint (cModulo c)"
  by (auto simp: conn_inv_def seq_ok_def)

lemma conn_inv_send:
  assumes inv: "conn_inv w c" and w: "w \<le> 7" "uint (unacked c) < w" and st: "State c \<noteq> Connecting"
    and q: "queue_ok (c\<lparr>outQueue := q'\<rparr>)" and raw: "stored (cModulo c) (sendSeq c) raw"
  shows "conn_inv w (c\<lparr>outQueue := q', retransmitBuf := AList.update (sendSeq c) raw (retransmitBuf c),
           iframeTimestamps := AList.update (sendSeq c) ts (iframeTimestamps c),
           sendSeq := (sendSeq c + 1) mod cModulo c, unacked := unacked c + 1\<rparr>)" (is "conn_inv w ?c")
proof -
  let ?m = "cModulo c"
  have sp: "seq_space ?m" using inv by (auto simp: conn_inv_def intro: seq_ok_space)
  have un: "unacked c = (sendSeq c - lastAcked c) mod ?m" and s: "sendSeq c < ?m"
    using inv by (auto simp: conn_inv_def win_ok_def seq_ok_def)
  have small: "uint (unacked c) + 1 < uint ?m" using win_small [OF inv w] .
  have win: "inWin ?m (lastAcked c) (unacked c + 1) k \<longleftrightarrow> k = sendSeq c \<or> inWin ?m (lastAcked c) (unacked c) k" for k
    by (rule seq_space.inWin_send [OF sp un [symmetric] s small])
  have "seq_ok ?c" using inv seq_space.mod_less [OF sp] by (auto simp: conn_inv_def seq_ok_def)
  moreover have "win_ok w ?c"
    using seq_space.dist_succ [OF sp un [symmetric] small] seq_space.uint_succ [OF sp small] w
    by (simp add: win_ok_def)
  moreover have "buf_ok ?c"
    using inv all_stored_update [OF _ raw] by (simp add: conn_inv_def buf_ok_def win keys_update distinct_update_keys)
  moreover have "stamps_ok ?c"
    using inv by (auto simp: conn_inv_def stamps_ok_def win keys_update distinct_update_keys)
  ultimately show ?thesis using inv q st by (simp add: conn_inv_def queue_ok_def)
qed

text \<open>Sending a stored frame again replaces its encoding and drops its timestamp (Karn's rule).\<close>

lemma conn_inv_resend:
  assumes inv: "conn_inv w c" and k: "k \<in> fst ` set (retransmitBuf c)" and raw: "stored (cModulo c) k raw"
  shows "conn_inv w (c\<lparr>retransmitBuf := AList.update k raw (retransmitBuf c),
           iframeTimestamps := AList.delete k (iframeTimestamps c)\<rparr>)" (is "conn_inv w ?c")
proof -
  have "buf_ok ?c"
    using inv all_stored_update [OF _ raw] insert_absorb [OF k]
    by (simp add: conn_inv_def buf_ok_def keys_update distinct_update_keys)
  moreover have "stamps_ok ?c"
    using inv by (auto simp: conn_inv_def stamps_ok_def keys_delete AList.distinct_delete)
  moreover have "retransmitBuf c \<noteq> []" using k by auto
  ultimately show ?thesis
    using inv by (auto simp: conn_inv_def seq_ok_def win_ok_def queue_ok_def pristine_def)
qed

section \<open>Acknowledgement\<close>

lemma conn_inv_ack:
  assumes inv: "conn_inv w c" and st: "State c \<noteq> Connecting" and nr: "nr < cModulo c"
    and le: "(nr - lastAcked c) mod cModulo c \<le> unacked c"
    and buf: "distinct (map fst buf)" "set buf \<subseteq> set (retransmitBuf c)"
      "\<And>k. k \<in> fst ` set buf \<longleftrightarrow> k \<in> fst ` set (retransmitBuf c)
             \<and> \<not> inWin (cModulo c) (lastAcked c) ((nr - lastAcked c) mod cModulo c) k"
    and ts: "distinct (map fst ts)"
      "\<And>k. k \<in> fst ` set ts \<longleftrightarrow> k \<in> fst ` set (iframeTimestamps c)
             \<and> \<not> inWin (cModulo c) (lastAcked c) ((nr - lastAcked c) mod cModulo c) k"
  shows "conn_inv w (c\<lparr>retransmitBuf := buf, iframeTimestamps := ts, lastAcked := nr,
           unacked := unacked c - (nr - lastAcked c) mod cModulo c\<rparr>)" (is "conn_inv w ?c")
proof -
  let ?m = "cModulo c" and ?d = "(nr - lastAcked c) mod cModulo c"
  have sp: "seq_space ?m" using inv by (auto simp: conn_inv_def intro: seq_ok_space)
  have un: "unacked c = (sendSeq c - lastAcked c) mod ?m" "uint (unacked c) \<le> w"
    using inv by (auto simp: conn_inv_def win_ok_def)
  have small: "uint (unacked c) < uint ?m"
    using seq_space.mod_less [OF sp, of "sendSeq c - lastAcked c"] un by (simp add: word_less_alt)
  note win = seq_space.inWin_ack [OF sp le small]
  have "uint (unacked c - ?d) = uint (unacked c) - uint ?d"
    using le by (simp add: uint_sub_if' word_le_def)
  moreover have "0 \<le> uint ?d" by simp
  ultimately have "uint (unacked c - ?d) \<le> w" using un(2) by linarith
  then have "win_ok w ?c"
    using seq_space.dist_ack [OF sp, of nr "lastAcked c" "sendSeq c"] le un(1) by (simp add: win_ok_def)
  moreover have "seq_ok ?c" using inv nr by (simp add: conn_inv_def seq_ok_def)
  moreover have "buf_ok ?c"
    using inv buf all_stored_subset [OF _ buf(2)] by (auto simp: conn_inv_def buf_ok_def win)
  moreover have "stamps_ok ?c"
  proof -
    have "\<forall>k\<in>fst ` set (iframeTimestamps c). inWin ?m (lastAcked c) (unacked c) k"
      using inv by (simp add: conn_inv_def stamps_ok_def)
    then have "\<forall>k\<in>fst ` set ts. inWin ?m nr (unacked c - ?d) k"
      unfolding win using ts(2) by blast
    then show ?thesis using ts(1) by (simp add: stamps_ok_def)
  qed
  ultimately show ?thesis using inv st by (simp add: conn_inv_def queue_ok_def)
qed

text \<open>\<open>purge\<close> deletes the \<open>n\<close> sequence numbers from \<open>seq\<close> on.\<close>

lemma purge_subset: "set (purge n m seq buf) \<subseteq> set buf"
  by (induction n m seq buf rule: purge.induct) (auto simp: AList.delete_eq)

lemma purge_distinct: "distinct (map fst buf) \<Longrightarrow> distinct (map fst (purge n m seq buf))"
  by (induction n m seq buf rule: purge.induct) (auto intro: AList.distinct_delete)

lemma purge_keys:
  assumes "seq_space m" "seq < m" "int n < uint m"
  shows "k \<in> fst ` set (purge n m seq buf) \<longleftrightarrow> k \<in> fst ` set buf \<and> \<not> inWin m seq (word_of_nat n) k"
  using assms(2,3)
proof (induction n arbitrary: seq buf)
  case 0
  then show ?case by (simp add: seq_space.inWin_zero [OF assms(1)])
next
  case (Suc n)
  have M: "uint m < 256" using uint_lt2p [of m] by simp
  have u: "uint (word_of_nat n :: u8) = int n"
    using Suc.prems M by (simp add: unsigned_of_nat take_bit_nat_eq_self)
  have "inWin m seq (word_of_nat n + 1) k \<longleftrightarrow> k = seq \<or> inWin m ((seq + 1) mod m) (word_of_nat n) k"
    using Suc.prems u by (intro seq_space.inWin_first [OF assms(1)]) simp_all
  moreover have "(word_of_nat (Suc n) :: u8) = word_of_nat n + 1" by simp
  moreover have "k \<in> fst ` set (purge n m ((seq + 1) mod m) (AList.delete seq buf)) \<longleftrightarrow>
      k \<in> fst ` set (AList.delete seq buf) \<and> \<not> inWin m ((seq + 1) mod m) (word_of_nat n) k"
    using Suc.prems by (intro Suc.IH seq_space.add_one_less [OF assms(1)]) simp_all
  ultimately show ?case unfolding purge.simps keys_delete by (metis DiffD1 DiffD2 DiffI singletonD singletonI)
qed

section \<open>The operations on a table\<close>

lemma cinv_conn: "params_ok t \<Longrightarrow> 0 \<le> window t r \<and> window t r \<le> 7"
  unfolding window_def by (rule portParams_window)

lemma keeps_drainStep:
  assumes "windowOpen t r"
  shows "keeps r t (drainStep t r)"
proof -
  obtain e q where q: "outQueue (cell t r) = e # q"
    using assms by (cases "outQueue (cell t r)") (auto simp: windowOpen_def)
  obtain chunk q' where c: "coalesce (oePid e) (oeData e) q = (chunk, q')" by fastforce
  show ?thesis
  proof (rule keepsI [OF _ _ _ cells_drainStep [OF q c]])
    assume ok: "params_ok t" and inv: "conn_inv (window t r) (cell t r)"
    have w: "window t r \<le> 7" "uint (unacked (cell t r)) < window t r"
      using cinv_conn [OF ok] assms by (auto simp: windowOpen_def window_def)
    have st: "State (cell t r) \<noteq> Connecting" using inv q by (auto simp: conn_inv_def pristine_def)
    have qok: "length (oeData e) \<le> maxIFrameInfo" "\<forall>e\<in>set q. length (oeData e) \<le> maxIFrameInfo"
        "Suc (length q) \<le> maxOutboundQueue"
      using inv q by (auto simp: conn_inv_def queue_ok_def)
    have "queue_ok ((cell t r)\<lparr>outQueue := q'\<rparr>)"
      using coalesce_bounded [OF c qok(2,1)] qok by (auto simp: queue_ok_def)
    moreover have "sendSeq (cell t r) < cModulo (cell t r)" using inv by (simp add: conn_inv_def seq_ok_def)
    ultimately show "conn_inv (window t r) ((cells t r)
     \<lparr>outQueue := q',
      retransmitBuf := AList.update (sendSeq (cell t r))
        (Bytes (iFrame (uni t) (cell t r) (sendSeq (cell t r)) (oePid e) chunk)) (retransmitBuf (cell t r)),
      iframeTimestamps := AList.update (sendSeq (cell t r)) (now (eng t)) (iframeTimestamps (cell t r)),
      sendSeq := (sendSeq (cell t r) + 1) mod cModulo (cell t r), unacked := unacked (cell t r) + 1\<rparr>)"
      using inv st w by (intro conn_inv_send stored_iFrame)
  qed (simp_all add: drainStep_def q c Let_def same_conf_def ident_def)
qed

text \<open>The loop runs \<open>drainStep\<close> while the window is open, and ends with it closed.\<close>

lemma drainLoop_windowOpen:
  "drainLoop t r = (if windowOpen t r then drainLoop (drainStep t r) r else t)"
  by (subst drainLoop.simps) (simp add: windowOpen_def)

lemma drainLoop_invariant:
  assumes "P t" "\<And>u. P u \<Longrightarrow> windowOpen u r \<Longrightarrow> P (drainStep u r)"
  shows "P (drainLoop t r) \<and> \<not> windowOpen (drainLoop t r) r"
  using assms
proof (induction t r rule: drainLoop.induct)
  case (1 t r)
  show ?case
  proof (cases "windowOpen t r")
    case True
    moreover have "P (drainLoop (drainStep t r) r) \<and> \<not> windowOpen (drainLoop (drainStep t r) r) r"
      by (rule "1.IH") (use True "1.prems" in \<open>simp_all add: windowOpen_def\<close>)
    ultimately show ?thesis by (simp add: drainLoop_windowOpen [of t])
  next
    case False
    with "1.prems" show ?thesis by (simp add: drainLoop_windowOpen [of t])
  qed
qed

lemma keeps_drainLoop: "keeps r t (drainLoop t r)"
  using drainLoop_invariant [of "keeps r t" t r] keeps_trans [OF _ keeps_drainStep] by simp

lemma keeps_drainOutbound [keeps_intros, simp]: "keeps r t (drainOutbound t r)"
  using keeps_trans [OF keeps_drainLoop keeps_trans [OF keeps_timers(2) keeps_timers(5)]]
  by (simp add: drainOutbound_def)

text \<open>\<open>sampleRTT\<close> changes the round-trip variables and drops the timestamps it used.\<close>

lemma srttStep_fields:
  "srttStep fl c rtt = c\<lparr>srtt := srtt (srttStep fl c rtt), rttvar := rttvar (srttStep fl c rtt),
     t1Value := t1Value (srttStep fl c rtt)\<rparr>"
  by (simp add: srttStep_def Let_def)

lemma updateSRTT_cells: "\<exists>a b v. cells (updateSRTT t r rtt) =
    (cells t)(r := (cells t r)\<lparr>srtt := a, rttvar := b, t1Value := v\<rparr>)"
  using srttStep_fields unfolding updateSRTT_def upd_simps by metis

lemma updateSRTT_frame [simp]:
  "uni (updateSRTT t r x) = uni t" "thooks (updateSRTT t r x) = thooks t" "params (updateSRTT t r x) = params t"
  "conns (updateSRTT t r x) = conns t" "nextConn (updateSRTT t r x) = nextConn t" "eng (updateSRTT t r x) = eng t"
  "out (updateSRTT t r x) = out t"
  by (simp_all add: updateSRTT_def)

lemma sampleRTT_frame [simp]:
  "uni (sampleRTT n t r k) = uni t" "thooks (sampleRTT n t r k) = thooks t"
  "params (sampleRTT n t r k) = params t" "conns (sampleRTT n t r k) = conns t"
  "nextConn (sampleRTT n t r k) = nextConn t" "eng (sampleRTT n t r k) = eng t" "out (sampleRTT n t r k) = out t"
  by (induction n t r k rule: sampleRTT.induct) (simp_all add: Let_def split: option.split)

lemma cells_sampleRTT: "\<exists>a b v. cells (sampleRTT n t r k) = (cells t)(r := (cells t r)
    \<lparr>iframeTimestamps := purge n (cModulo (cells t r)) k (iframeTimestamps (cells t r)),
     srtt := a, rttvar := b, t1Value := v\<rparr>)"
proof (induction n t r k rule: sampleRTT.induct)
  case (1 t r k)
  show ?case by (rule exI [of _ "srtt (cells t r)"], rule exI [of _ "rttvar (cells t r)"],
        rule exI [of _ "t1Value (cells t r)"]) simp
next
  case (2 n t r k)
  define t' where "t' = (case map_of (iframeTimestamps (cell t r)) k of
                 None \<Rightarrow> t
               | Some sendTime \<Rightarrow>
                   updateSRTT (upd t r (\<lambda>c. c\<lparr>iframeTimestamps := AList.delete k (iframeTimestamps c)\<rparr>))
                     r (now (eng t) - sendTime))"
  have "\<exists>a b v. cells t' = (cells t)(r := (cells t r)
      \<lparr>iframeTimestamps := AList.delete k (iframeTimestamps (cells t r)), srtt := a, rttvar := b, t1Value := v\<rparr>)"
  proof (cases "map_of (iframeTimestamps (cell t r)) k")
    case None
    then have "AList.delete k (iframeTimestamps (cell t r)) = iframeTimestamps (cell t r)"
      by (simp add: AList.delete_id map_of_eq_None_iff)
    with None show ?thesis
      by (intro exI [of _ "srtt (cells t r)"] exI [of _ "rttvar (cells t r)"] exI [of _ "t1Value (cells t r)"])
        (simp add: t'_def)
  next
    case (Some st)
    with updateSRTT_cells [of "upd t r (\<lambda>c. c\<lparr>iframeTimestamps := AList.delete k (iframeTimestamps c)\<rparr>)" r "now (eng t) - st"]
    show ?thesis by (simp add: t'_def)
  qed
  then obtain a b v where t': "cells t' = (cells t)(r := (cells t r)
      \<lparr>iframeTimestamps := AList.delete k (iframeTimestamps (cells t r)), srtt := a, rttvar := b, t1Value := v\<rparr>)"
    by blast
  obtain a' b' v' where IH: "cells (sampleRTT n t' r ((k + 1) mod cModulo (cells t' r))) = (cells t')(r := (cells t' r)
      \<lparr>iframeTimestamps := purge n (cModulo (cells t' r)) ((k + 1) mod cModulo (cells t' r)) (iframeTimestamps (cells t' r)),
       srtt := a', rttvar := b', t1Value := v'\<rparr>)"
    using 2 [OF t'_def] by blast
  have step: "sampleRTT (Suc n) t r k = sampleRTT n t' r ((k + 1) mod cModulo (cells t' r))"
    by (simp add: t'_def Let_def)
  show ?case
    unfolding step IH by (intro exI [of _ a'] exI [of _ b'] exI [of _ v']) (simp add: t')
qed

text \<open>
  The state part of a valid acknowledgement: \<open>ackFrames\<close> is the identity, or \<open>ackCore\<close> followed by
  the timer and the window.
\<close>

definition ackCore :: "table \<Rightarrow> ref \<Rightarrow> u8 \<Rightarrow> u8 \<Rightarrow> table" where
  "ackCore t r nr d =
     upd (sampleRTT (unat d) (upd t r (\<lambda>c. c\<lparr>t1Polls := 0\<rparr>)) r (lastAcked (cell t r))) r
       (\<lambda>c. c\<lparr>retransmitBuf := purge (unat d) (cModulo c) (lastAcked c) (retransmitBuf c), lastAcked := nr,
              unacked := (if uint (unacked c) > uint d then unacked c - d else 0)\<rparr>)"

lemma ackFrames_core:
  "ackFrames t r nr =
     (let d = (nr - lastAcked (cell t r)) mod cModulo (cell t r);
          out = (sendSeq (cell t r) - lastAcked (cell t r)) mod cModulo (cell t r)
      in if d > out \<or> d = 0 then t
         else drainOutbound (if retransmitBuf (cell (ackCore t r nr d) r) \<noteq> []
                             then startT1 (ackCore t r nr d) r else cancelT1 (ackCore t r nr d) r) r)"
  by (simp add: ackFrames_def ackCore_def Let_def)

lemma ackCore_cells:
  assumes "d = (nr - lastAcked (cell t r)) mod cModulo (cell t r)"
  shows "\<exists>a b v. cells (ackCore t r nr d) = (cells t)(r := (cells t r)
    \<lparr>t1Polls := 0, iframeTimestamps := purge (unat d) (cModulo (cells t r)) (lastAcked (cells t r)) (iframeTimestamps (cells t r)),
     srtt := a, rttvar := b, t1Value := v,
     retransmitBuf := purge (unat d) (cModulo (cells t r)) (lastAcked (cells t r)) (retransmitBuf (cells t r)),
     lastAcked := nr, unacked := (if uint (unacked (cells t r)) > uint d then unacked (cells t r) - d else 0)\<rparr>)"
proof -
  obtain a b v where "cells (sampleRTT (unat d) (upd t r (\<lambda>c. c\<lparr>t1Polls := 0\<rparr>)) r (lastAcked (cell t r))) =
     (cells t)(r := (cells t r)\<lparr>t1Polls := 0, iframeTimestamps :=
        purge (unat d) (cModulo (cells t r)) (lastAcked (cells t r)) (iframeTimestamps (cells t r)),
        srtt := a, rttvar := b, t1Value := v\<rparr>)"
    using cells_sampleRTT [of "unat d" "upd t r (\<lambda>c. c\<lparr>t1Polls := 0\<rparr>)" r "lastAcked (cell t r)"] by auto
  then show ?thesis
    by (rule_tac x = a in exI, rule_tac x = b in exI, rule_tac x = v in exI) (simp add: ackCore_def)
qed

lemma ackCore_frame [simp]:
  "uni (ackCore t r nr d) = uni t" "thooks (ackCore t r nr d) = thooks t" "params (ackCore t r nr d) = params t"
  "conns (ackCore t r nr d) = conns t" "nextConn (ackCore t r nr d) = nextConn t" "eng (ackCore t r nr d) = eng t"
  "out (ackCore t r nr d) = out t"
  by (simp_all add: ackCore_def)

lemma keeps_ackCore:
  assumes st: "State (cell t r) \<noteq> Connecting" and nr: "nr < cModulo (cell t r)"
    and d: "d = (nr - lastAcked (cell t r)) mod cModulo (cell t r)"
    and le: "d \<le> (sendSeq (cell t r) - lastAcked (cell t r)) mod cModulo (cell t r)"
  shows "keeps r t (ackCore t r nr d)"
proof -
  let ?c = "cells t r"
  obtain a b v where cells: "cells (ackCore t r nr d) = (cells t)(r := ?c
    \<lparr>t1Polls := 0, iframeTimestamps := purge (unat d) (cModulo ?c) (lastAcked ?c) (iframeTimestamps ?c),
     srtt := a, rttvar := b, t1Value := v,
     retransmitBuf := purge (unat d) (cModulo ?c) (lastAcked ?c) (retransmitBuf ?c),
     lastAcked := nr, unacked := (if uint (unacked ?c) > uint d then unacked ?c - d else 0)\<rparr>)"
    using ackCore_cells [OF d] by blast
  show ?thesis
  proof (rule keepsI [OF _ _ _ cells])
    assume inv: "conn_inv (window t r) ?c"
    then have sp: "seq_space (cModulo ?c)" and un: "unacked ?c = (sendSeq ?c - lastAcked ?c) mod cModulo ?c"
      and la: "lastAcked ?c < cModulo ?c"
      and dist: "distinct (map fst (retransmitBuf ?c))" "distinct (map fst (iframeTimestamps ?c))"
      by (auto simp: conn_inv_def win_ok_def seq_ok_def buf_ok_def stamps_ok_def intro: seq_ok_space)
    have dm: "d < cModulo ?c" unfolding d by (rule seq_space.mod_less [OF sp])
    then have n: "int (unat d) < uint (cModulo ?c)" by (simp add: word_less_alt)
    have u: "(if uint (unacked ?c) > uint d then unacked ?c - d else 0) = unacked ?c - d"
      using le un by (auto simp: word_le_def word_uint_eq_iff uint_sub_if')
    have "conn_inv (window t r) (?c\<lparr>retransmitBuf := purge (unat d) (cModulo ?c) (lastAcked ?c) (retransmitBuf ?c),
      iframeTimestamps := purge (unat d) (cModulo ?c) (lastAcked ?c) (iframeTimestamps ?c),
      lastAcked := nr, unacked := unacked ?c - (nr - lastAcked ?c) mod cModulo ?c\<rparr>)"
      using st nr le un dist inv
      by (intro conn_inv_ack) (simp_all add: d [symmetric] purge_distinct purge_keys [OF sp la n] purge_subset)
    then show "conn_inv (window t r) (?c
    \<lparr>t1Polls := 0, iframeTimestamps := purge (unat d) (cModulo ?c) (lastAcked ?c) (iframeTimestamps ?c),
     srtt := a, rttvar := b, t1Value := v,
     retransmitBuf := purge (unat d) (cModulo ?c) (lastAcked ?c) (retransmitBuf ?c),
     lastAcked := nr, unacked := (if uint (unacked ?c) > uint d then unacked ?c - d else 0)\<rparr>)"
      unfolding u d [symmetric] by (rule conn_inv_cong [THEN iffD1, rotated -1]) simp_all
  qed (simp_all add: same_conf_def ident_def)
qed

lemma keeps_ackFrames:
  assumes "State (cell t r) \<noteq> Connecting" "nr < cModulo (cell t r)"
  shows "keeps r t (ackFrames t r nr)"
  unfolding ackFrames_core Let_def
  using keeps_ackCore [OF assms refl]
  by (auto simp: not_less intro!: keeps_trans [OF _ keeps_drainOutbound] intro: keeps_trans [OF _ keeps_timers(1)] keeps_trans [OF _ keeps_timers(5)])

section \<open>Retransmission\<close>

lemma stored_parse:
  assumes "stored m k raw"
  obtains orig where "ParseModulo raw (uint m) = Inr orig" "NS orig = k" "PF orig = False"
  using assms ParseModulo_Bytes_onAir unfolding stored_def by fastforce

definition resendStep :: "table \<Rightarrow> ref \<Rightarrow> u8 \<Rightarrow> frame \<Rightarrow> table" where
  "resendStep t r k f =
     sendFrame (upd t r (\<lambda>c. c\<lparr>retransmitBuf := AList.update k (Bytes f) (retransmitBuf c),
       iframeTimestamps := AList.delete k (iframeTimestamps c)\<rparr>)) (cPort (cell t r)) f"

lemma cells_resendStep: "cells (resendStep t r k f) = (cells t)(r := (cells t r)
    \<lparr>retransmitBuf := AList.update k (Bytes f) (retransmitBuf (cells t r)),
     iframeTimestamps := AList.delete k (iframeTimestamps (cells t r))\<rparr>)"
  by (simp add: resendStep_def)

lemma keeps_resendStep:
  assumes raw: "map_of (retransmitBuf (cell t r)) k = Some raw"
    and orig: "ParseModulo raw (uint (cModulo (cell t r))) = Inr orig"
    and f: "f = (iFrame (uni t) (cell t r) (NS orig) (PID orig) (Info orig))\<lparr>PF := p\<rparr>" "\<not> PF orig \<Longrightarrow> \<not> p"
  shows "keeps r t (resendStep t r k f)"
proof (rule keepsI [OF _ _ _ cells_resendStep])
  assume inv: "conn_inv (window t r) (cells t r)"
  let ?c = "cells t r"
  have k: "k \<in> fst ` set (retransmitBuf ?c)" using map_of_SomeD [OF raw] by force
  then have km: "k < cModulo ?c" using inv by (auto simp: conn_inv_def buf_ok_def inWin_def)
  have "stored (cModulo ?c) k raw"
    using inv raw by (auto simp: conn_inv_def buf_ok_def intro: all_stored_lookup)
  with orig have "NS orig = k" "\<not> PF orig" by (auto elim!: stored_parse)
  with f have "f = iFrame (uni t) ?c k (PID orig) (Info orig)"
    by (simp add: iFrame_def cmdFrame_def mkFrame_def)
  then show "conn_inv (window t r) (?c\<lparr>retransmitBuf := AList.update k (Bytes f) (retransmitBuf ?c),
     iframeTimestamps := AList.delete k (iframeTimestamps ?c)\<rparr>)"
    using conn_inv_resend [OF inv k stored_iFrame [OF inv km]] by simp
qed (simp_all add: resendStep_def same_conf_def ident_def)

lemma retransmitLoop_step:
  assumes "seq \<noteq> toSeq" "map_of (retransmitBuf (cell t r)) seq = Some raw"
    "ParseModulo raw (uint (cModulo (cell t r))) = Inr orig"
  shows "retransmitLoop (Suc n) t r seq toSeq =
    retransmitLoop n (resendStep t r seq ((iFrame (uni t) (cell t r) (NS orig) (PID orig) (Info orig))\<lparr>PF := PF orig\<rparr>))
      r ((seq + 1) mod cModulo (cell t r)) toSeq"
  using assms by (simp add: Let_def resendStep_def)

lemma retransmitLoop_stop:
  "seq = toSeq \<or> map_of (retransmitBuf (cell t r)) seq = None
   \<or> (\<exists>raw e. map_of (retransmitBuf (cell t r)) seq = Some raw \<and> ParseModulo raw (uint (cModulo (cell t r))) = Inl e)
   \<Longrightarrow> retransmitLoop (Suc n) t r seq toSeq = Some t"
  by auto

lemma keeps_retransmitLoop: "retransmitLoop n t r seq toSeq = Some t' \<Longrightarrow> keeps r t t'"
proof (induction n arbitrary: t seq)
  case (Suc n)
  consider (stop) "retransmitLoop (Suc n) t r seq toSeq = Some t"
    | (go) raw orig where "seq \<noteq> toSeq" "map_of (retransmitBuf (cell t r)) seq = Some raw"
        "ParseModulo raw (uint (cModulo (cell t r))) = Inr orig"
    using retransmitLoop_stop [of seq toSeq t r n] by (metis not_None_eq sum.exhaust)
  then show ?case
  proof cases
    case stop
    with Suc.prems show ?thesis by simp
  next
    case go
    note step = retransmitLoop_step [OF go, of n]
    from go Suc.prems [unfolded step] have "keeps r (resendStep t r seq
        ((iFrame (uni t) (cell t r) (NS orig) (PID orig) (Info orig))\<lparr>PF := PF orig\<rparr>)) t'"
      by (rule_tac Suc.IH)
    with keeps_resendStep [OF go(2,3) refl] show ?thesis by (blast intro: keeps_trans)
  qed
qed simp

lemma keeps_retransmitRange [keeps_intros, simp]: "keeps r t (retransmitRange t r a b)"
  by (auto simp: retransmitRange_def split: option.split intro: keeps_retransmitLoop)

lemma keeps_retransmitFrom [keeps_intros, simp]: "keeps r t (retransmitFrom t r a)"
  by (simp add: retransmitFrom_def)

lemma keeps_resendOne [keeps_intros, simp]: "keeps r t (resendOne t r nr)"
proof -
  have "keeps r t (resendStep t r nr (iFrame (uni t) (cell t r) (NS orig) (PID orig) (Info orig)))"
    if "map_of (retransmitBuf (cell t r)) nr = Some raw" "ParseModulo raw (uint (cModulo (cell t r))) = Inr orig"
    for raw orig
    using that by (rule keeps_resendStep [where p = False]) (simp_all add: iFrame_def cmdFrame_def mkFrame_def)
  then show ?thesis
    by (auto simp: resendOne_def resendStep_def Let_def split: option.split sum.split)
qed

text \<open>
  The fuel is enough: inside the window every step moves one number on, and the number after the
  last unacknowledged one is a hole.
\<close>

definition ahead :: "conn \<Rightarrow> u8 \<Rightarrow> int" where
  "ahead c seq = (if inWin (cModulo c) (lastAcked c) (unacked c) seq
                  then uint (unacked c) - uint ((seq - lastAcked c) mod cModulo c) else 0)"

lemma ahead_step:
  assumes inv: "conn_inv w c" "w \<le> 7" and inW: "inWin (cModulo c) (lastAcked c) (unacked c) seq"
  shows "ahead c ((seq + 1) mod cModulo c) < ahead c seq" "0 \<le> ahead c seq"
proof -
  let ?m = "cModulo c" and ?d = "(seq - lastAcked c) mod cModulo c"
  have sp: "seq_space ?m" using inv by (auto simp: conn_inv_def intro: seq_ok_space)
  have d: "uint ?d < uint (unacked c)" using inW by (simp add: inWin_def word_less_alt)
  have small: "uint ?d + 1 < uint ?m" using d inv by (auto simp: conn_inv_def win_ok_def seq_ok_def)
  have "uint (((seq + 1) mod ?m - lastAcked c) mod ?m) = uint ?d + 1"
    using seq_space.dist_succ [OF sp refl small] seq_space.uint_succ [OF sp small] by simp
  with inW d show "ahead c ((seq + 1) mod ?m) < ahead c seq" "0 \<le> ahead c seq"
    by (auto simp: ahead_def)
qed

lemma retransmitLoop_total:
  assumes "params_ok t" "cinv t r" "ahead (cell t r) seq < int n"
  shows "\<exists>t'. retransmitLoop n t r seq toSeq = Some t'"
  using assms
proof (induction n arbitrary: t seq)
  case 0
  then show ?case
    using ahead_step(2) [of "window t r" "cell t r" seq] cinv_conn [of t r]
    by (auto simp: cinv_def ahead_def split: if_splits)
next
  case (Suc n)
  let ?c = "cell t r"
  have inv: "conn_inv (window t r) ?c" "window t r \<le> 7" using Suc.prems cinv_conn by (auto simp: cinv_def)
  show ?case
  proof (cases "seq = toSeq \<or> map_of (retransmitBuf ?c) seq = None")
    case True
    then show ?thesis using retransmitLoop_stop by blast
  next
    case False
    then obtain raw where raw: "map_of (retransmitBuf ?c) seq = Some raw" by auto
    then have k: "inWin (cModulo ?c) (lastAcked ?c) (unacked ?c) seq"
      using inv by (force simp: conn_inv_def buf_ok_def dest: map_of_SomeD)
    have "stored (cModulo ?c) seq raw"
      using inv raw by (auto simp: conn_inv_def buf_ok_def intro: all_stored_lookup)
    then obtain orig where orig: "ParseModulo raw (uint (cModulo ?c)) = Inr orig" by (rule stored_parse)
    let ?t = "resendStep t r seq ((iFrame (uni t) ?c (NS orig) (PID orig) (Info orig))\<lparr>PF := PF orig\<rparr>)"
    have keeps: "keeps r t ?t" using keeps_resendStep [OF raw orig refl] by blast
    have "ahead (cell ?t r) ((seq + 1) mod cModulo ?c) = ahead ?c ((seq + 1) mod cModulo ?c)"
      by (simp add: cells_resendStep ahead_def)
    with ahead_step(1) [OF inv k] Suc.prems have "ahead (cell ?t r) ((seq + 1) mod cModulo ?c) < int n" by simp
    moreover have "params_ok ?t" "cinv ?t r"
      using keeps Suc.prems by (simp_all add: keeps_def params_ok_def same_conf_def)
    ultimately have "\<exists>t'. retransmitLoop n ?t r ((seq + 1) mod cModulo ?c) toSeq = Some t'"
      by (rule_tac Suc.IH)
    moreover have "seq \<noteq> toSeq" using False by simp
    ultimately show ?thesis unfolding retransmitLoop_step [OF \<open>seq \<noteq> toSeq\<close> raw orig] by blast
  qed
qed

lemma retransmitRange_total:
  assumes "params_ok t" "cinv t r"
  shows "\<exists>t'. retransmitLoop 256 t r seq toSeq = Some t'"
proof (rule retransmitLoop_total [OF assms])
  have "uint (unacked (cell t r)) \<le> 7"
    using assms cinv_conn [OF assms(1), of r] by (auto simp: cinv_def conn_inv_def win_ok_def)
  moreover have "0 \<le> uint ((seq - lastAcked (cell t r)) mod cModulo (cell t r))" by simp
  ultimately have "uint (unacked (cell t r)) - uint ((seq - lastAcked (cell t r)) mod cModulo (cell t r)) < 256"
    by linarith
  then show "ahead (cell t r) seq < int 256" by (simp add: ahead_def)
qed

end
