(* ===== verification/L2_Handlers.thy ===== *)
theory L2_Handlers
  imports L2_Transfer
begin

text \<open>
  Every handler that works on an existing connection keeps that connection's invariant and
  touches no other connection.
\<close>

lemma keeps_if: "(b \<Longrightarrow> keeps r t u) \<Longrightarrow> (\<not> b \<Longrightarrow> keeps r t v) \<Longrightarrow> keeps r t (if b then u else v)"
  by simp

section \<open>Fields that the data path leaves alone\<close>

definition same_link :: "ref \<Rightarrow> table \<Rightarrow> table \<Rightarrow> bool" where
  "same_link r t t' \<longleftrightarrow> State (cells t' r) = State (cells t r) \<and> cModulo (cells t' r) = cModulo (cells t r)
     \<and> recvSeq (cells t' r) = recvSeq (cells t r) \<and> rxBuf (cells t' r) = rxBuf (cells t r)
     \<and> srejEnabled (cells t' r) = srejEnabled (cells t r)"

lemma same_link_drainStep: "same_link r t (drainStep t r)"
  by (auto simp: same_link_def drainStep_def Let_def split: list.split prod.split)

lemma same_link_trans: "same_link r t t' \<Longrightarrow> same_link r t' t'' \<Longrightarrow> same_link r t t''"
  by (simp add: same_link_def)

lemma same_link_drainLoop: "same_link r t (drainLoop t r)"
  using drainLoop_invariant [of "same_link r t" t r] same_link_trans [OF _ same_link_drainStep]
  by (simp add: same_link_def [of r t t])

lemma same_link_drainOutbound: "same_link r t (drainOutbound t r)"
  using same_link_drainLoop [of r t] by (simp add: drainOutbound_def same_link_def)

lemma same_link_ackCore: "same_link r t (ackCore t r nr d)"
  using cells_sampleRTT [of "unat d" "upd t r (\<lambda>c. c\<lparr>t1Polls := 0\<rparr>)" r "lastAcked (cell t r)"]
  by (auto simp: ackCore_def same_link_def)

lemma same_link_ackFrames: "same_link r t (ackFrames t r nr)"
proof -
  have "same_link r t (startT1 (ackCore t r nr d) r)" "same_link r t (cancelT1 (ackCore t r nr d) r)" for d
    using same_link_ackCore [of r t nr d] by (simp_all add: same_link_def)
  then show ?thesis
    unfolding ackFrames_core Let_def
    by (auto intro: same_link_trans [OF _ same_link_drainOutbound]) (simp add: same_link_def)+
qed

section \<open>The receivers\<close>

lemma keeps_srejHoles [keeps_intros, simp]: "keeps r t (srejHoles is t r src dst limit)"
proof (induction "is" arbitrary: t)
  case (Cons i "is")
  have "keeps r t (srejHoles is (sendFrame (upd t r (\<lambda>c. c\<lparr>srejSent := ns # srejSent c\<rparr>)) p f) r src dst limit)"
    for ns p f
    by (rule keeps_trans [OF keeps_trans [OF keeps_upd keeps_simple(2)] Cons.IH]) (simp_all add: ident_def)
  then show ?case using Cons.IH by (simp add: Let_def)
qed simp

lemma conn_inv_mod: "conn_inv w c \<Longrightarrow> x mod cModulo c < cModulo c"
  by (auto simp: conn_inv_def intro: seq_space.mod_less [OF seq_ok_space])

lemma keeps_flushStep: "State (cell t r) \<noteq> Connecting \<Longrightarrow> keeps r t (flushStep t r e)"
  by (rule keepsI [OF _ _ _ cells_flushStep])
    (simp_all add: flushStep_def Let_def same_conf_def ident_def conn_inv_recvSeq conn_inv_mod)

lemma keeps_flushRx: "State (cell t r) \<noteq> Connecting \<Longrightarrow> keeps r t (flushRx t r)"
proof (induction t r rule: flushRx.induct)
  case (1 t r)
  show ?case
  proof (cases "map_of (rxBuf (cell t r)) (recvSeq (cell t r))")
    case None
    then show ?thesis by (subst flushRx.simps) simp
  next
    case (Some e)
    with 1 have "keeps r (flushStep t r e) (flushRx (flushStep t r e) r)" by simp
    with keeps_flushStep [OF "1.prems"] have "keeps r t (flushRx (flushStep t r e) r)" by (rule keeps_trans)
    with Some show ?thesis by (subst flushRx.simps) simp
  qed
qed

lemma keeps_recvSREJ:
  assumes "State (cell t r) \<noteq> Connecting"
  shows "keeps r t (recvSREJ t r pp f src dst)"
proof -
  have 1: "keeps r t (upd t r (\<lambda>c. c\<lparr>rxBuf := g c, srejSent := h c\<rparr>))" for g h
    by (rule keeps_upd) (simp_all add: ident_def)
  have 2: "keeps r t (deliverData (upd t r (\<lambda>c. c\<lparr>srejSent := h c\<rparr>)) r pid i)" for h pid i
    by (rule keeps_trans [OF keeps_upd keeps_simple(5)]) (simp_all add: ident_def)
  have 3: "keeps r u (upd u r (\<lambda>c. c\<lparr>recvSeq := (x + 1) mod cModulo c\<rparr>))"
    if "State (cell u r) \<noteq> Connecting" for u x
    using that by (intro keeps_upd) (simp_all add: ident_def conn_inv_recvSeq conn_inv_mod)
  have 4: "keeps r t (flushRx (upd (deliverData (upd t r (\<lambda>c. c\<lparr>srejSent := h c\<rparr>)) r pid i) r
      (\<lambda>c. c\<lparr>recvSeq := (x + 1) mod cModulo c\<rparr>)) r)" for h pid i x
    using assms by (intro keeps_trans [OF 2 keeps_trans [OF 3 keeps_flushRx]]) simp_all
  show ?thesis
    unfolding recvSREJ_def Let_def sendSREJHoles_def
    by (simp add: keeps_trans [OF 4 keeps_ackOrDelay] keeps_trans [OF keeps_trans [OF 1 keeps_timers(2)] keeps_srejHoles])
qed

lemma keeps_recvREJ:
  assumes "State (cell t r) \<noteq> Connecting"
  shows "keeps r t (recvREJ t r port pp f src dst)"
proof -
  have 1: "keeps r t (upd (sendFrame (cancelT2 t r) p g) r (\<lambda>c. c\<lparr>rejSent := True\<rparr>))" for p g
    by (rule keeps_trans [OF keeps_timers(2) keeps_trans [OF keeps_simple(2) keeps_upd]]) (simp_all add: ident_def)
  have 2: "keeps r t (upd t r (\<lambda>c. c\<lparr>rejSent := False, recvSeq := (x + 1) mod cModulo c\<rparr>))" for x
    using assms by (intro keeps_upd) (simp_all add: ident_def conn_inv_recvSeq conn_inv_mod)
  show ?thesis
    unfolding recvREJ_def Let_def
    by (auto intro: 1 keeps_trans [OF keeps_timers(2) keeps_simple(4)]
        keeps_trans [OF 2 keeps_trans [OF keeps_ackOrDelay keeps_simple(5)]])
qed

section \<open>Establishment\<close>

lemma keeps_notifyConnectedOut [keeps_intros, simp]: "keeps r t (notifyConnectedOut t r)"
  unfolding notifyConnectedOut_def
  by (auto intro!: keeps_trans [OF keeps_upd keeps_simple(1)] simp: ident_def)

lemma connecting_pristine: "conn_inv w c \<Longrightarrow> State c = Connecting \<Longrightarrow> pristine c"
  by (simp add: conn_inv_def)

lemma conn_inv_basics: "conn_inv w c \<Longrightarrow> (cModulo c = 8 \<or> cModulo c = 128) \<and> length (cVia c) \<le> MaxDigipeaters"
  by (simp add: conn_inv_def seq_ok_def)

lemma keeps_fresh:
  assumes "\<And>c. ident (g c) = ident c"
    and "\<And>c w. conn_inv w c \<Longrightarrow> P c \<Longrightarrow> pristine (g c) \<and> (cModulo (g c) = 8 \<or> cModulo (g c) = 128)
           \<and> length (cVia (g c)) \<le> MaxDigipeaters"
    and "P (cell t r)"
  shows "keeps r t (upd t r g)"
proof (rule keeps_upd)
  assume "params_ok t" "conn_inv (window t r) (cells t r)"
  then show "conn_inv (window t r) (g (cells t r))"
    using assms(2) [OF _ assms(3)] cinv_conn by (blast intro: conn_inv_pristine)
qed (simp add: assms)

lemma keeps_promoted:
  assumes "State (cell t r) = Connecting" "t' = cancelT1 (enterConnected t r) r \<or> t' = enterConnected (cancelT1 t r) r"
  shows "keeps r t (upd t' r (\<lambda>c. c\<lparr>t1Polls := 0, sendSeq := 0, recvSeq := 0\<rparr>))"
proof (rule keepsI [where c = "(cell t r)\<lparr>State := Connected, t1Value := ppT1 (portParams t (cPort (cell t r))),
    t1 := None, t1Polls := 0, sendSeq := 0, recvSeq := 0\<rparr>"])
  assume ok: "params_ok t" and inv: "conn_inv (window t r) (cell t r)"
  then show "conn_inv (window t r) ((cell t r)\<lparr>State := Connected, t1Value := ppT1 (portParams t (cPort (cell t r))),
    t1 := None, t1Polls := 0, sendSeq := 0, recvSeq := 0\<rparr>)"
    using connecting_pristine [OF inv assms(1)] conn_inv_basics [OF inv] cinv_conn [OF ok, of r]
    by (intro conn_inv_pristine) (simp_all add: pristine_def)
qed (use assms(2) in \<open>auto simp: same_conf_def enterConnected_def ident_def portParams_def\<close>)

lemma keeps_promote: "keeps r t (promote t (Some r))"
  using keeps_trans [OF keeps_promoted [OF _ disjI1 [OF refl]] keeps_notifyConnectedOut]
  by (simp add: promote_def)

lemma sendSAB_simps [simp]:
  "keeps r t (sendSABM t r')" "keeps r t (sendSABME t r')"
  by (auto intro!: keeps_eqcells simp: sendSABM_def sendSABME_def same_conf_def)

lemma keeps_fallback:
  assumes "State (cell t r) = Connecting"
  shows "keeps r t (upd t r (\<lambda>c. c\<lparr>cModulo := 8, triedFallback := True\<rparr>))"
  by (rule keeps_fresh [where P = "\<lambda>c. State c = Connecting"])
    (use assms in \<open>auto simp: ident_def conn_inv_def\<close>)

lemma keeps_fallbackToSABM: "State (cell t r) = Connecting \<Longrightarrow> keeps r t (snd (fallbackToSABM t r))"
  by (auto simp: fallbackToSABM_def intro: keeps_trans [OF keeps_fallback keeps_trans [OF sendSAB_simps(1) keeps_timers(5)]])

lemma keeps_sendXIDCommand [keeps_intros, simp]: "keeps r t (sendXIDCommand t r)"
  unfolding sendXIDCommand_def Let_def
  by (rule keeps_trans [OF keeps_simple(2) keeps_upd]) (simp_all add: ident_def)

lemma keeps_acceptSABM:
  assumes "length returnVia \<le> MaxDigipeaters" "m = 8 \<or> m = 128"
  shows "keeps r t (acceptSABM t r port returnVia src dst pf m)"
proof -
  let ?g = "\<lambda>t c. resetSeqs (c\<lparr>cVia := returnVia, State := Connected, t1Value := ppT1 (portParams t (cPort c)), cModulo := m\<rparr>)"
  have "keeps r u (upd (enterConnected (upd u r (\<lambda>c. c\<lparr>cVia := returnVia\<rparr>)) r) r (\<lambda>c. resetSeqs (c\<lparr>cModulo := m\<rparr>)))" for u
  proof (rule keepsI [where c = "?g u (cell u r)"])
    assume "params_ok u"
    then show "conn_inv (window u r) (?g u (cell u r))"
      using assms cinv_conn by (intro conn_inv_pristine pristine_resetSeqs) (simp_all add: resetSeqs_def)
  qed (simp_all add: enterConnected_def same_conf_def ident_def resetSeqs_def portParams_def)
  note core = keeps_trans [OF keeps_simple(2) keeps_trans [OF this keeps_timers(4)]]
  have "keeps r u (emit (upd u r (\<lambda>c. c\<lparr>incoming := True\<rparr>)) b h)" for u b h
    by (rule keeps_trans [OF keeps_upd keeps_simple(1)]) (simp_all add: ident_def)
  then show ?thesis unfolding acceptSABM_def Let_def by (auto intro: core keeps_trans [OF core])
qed

section \<open>Supervisory frames\<close>

lemma keeps_answerDeferred [keeps_intros, simp]: "keeps r t (answerDeferred t q src dst)"
  by (auto intro!: keeps_eqcells simp: same_conf_def answerDeferred_def)

lemma keeps_deferRR [keeps_intros, simp]: "keeps r t (deferRR t q src dst)"
  by (auto intro!: keeps_eqcells simp: same_conf_def deferRR_def answerDeferred_def)

lemma keeps_answerPoll [keeps_intros, simp]: "keeps r t (answerPoll t port f src dst)"
proof -
  have "keeps r t (sendRRResponse t q src dst)" for q
    by (auto intro!: keeps_eqcells simp: same_conf_def)
  then show ?thesis by (simp add: answerPoll_def split: option.split)
qed

lemma keeps_flags [keeps_intros, simp]:
  "keeps r t (upd t r (\<lambda>c. c\<lparr>remoteBusy := b\<rparr>))" "keeps r t (upd t r (\<lambda>c. c\<lparr>polling := b\<rparr>))"
  "keeps r t (upd t r (\<lambda>c. c\<lparr>t1Polls := i\<rparr>))" "keeps r t (upd t r (\<lambda>c. c\<lparr>t1Polls := t1Polls c + 1\<rparr>))"
  "keeps r t (upd t r (\<lambda>c. c\<lparr>t1 := tm\<rparr>))" "keeps r t (upd t r (\<lambda>c. c\<lparr>t1Value := g c\<rparr>))"
  "keeps r t (upd t r (\<lambda>c. c\<lparr>xidPending := b, srejEnabled := b'\<rparr>))"
  "keeps r t (upd t r (\<lambda>c. c\<lparr>srejEnabled := b\<rparr>))" "keeps r t (upd t r (\<lambda>c. c\<lparr>Owner := ow\<rparr>))"
  by (rule keeps_upd; simp add: ident_def)+

lemma keeps_timerRecovery [keeps_intros, simp]: "keeps r t (timerRecovery t r f vs)"
proof -
  let ?p = "upd t r (\<lambda>c. c\<lparr>polling := False\<rparr>)"
  let ?q = "if Type f \<noteq> REJ \<and> \<not> remoteBusy (cell ?p r) \<and> retransmitBuf (cell ?p r) \<noteq> []
            then startT1 (retransmitRange ?p r (lastAcked (cell ?p r)) vs) r else ?p"
  have q: "keeps r t ?q"
    using keeps_trans [OF keeps_flags(2) keeps_trans [OF keeps_retransmitRange keeps_timers(5)]] by simp
  then show ?thesis
    unfolding timerRecovery_def Let_def
    by (intro keeps_trans [OF q keeps_trans [OF keeps_timers(1) keeps_flags(3)]] q keeps_refl keeps_if)
qed

text \<open>What \<open>dispatchS\<close> does once it has found a connected link.\<close>

definition busyStep :: "table \<Rightarrow> ref \<Rightarrow> frame \<Rightarrow> table" where
  "busyStep t r f =
     (if Type f = RNR then upd t r (\<lambda>c. c\<lparr>remoteBusy := True\<rparr>)
      else if Type f = RR \<and> remoteBusy (cell t r) then drainOutbound (upd t r (\<lambda>c. c\<lparr>remoteBusy := False\<rparr>)) r
      else t)"

definition rejStep :: "table \<Rightarrow> ref \<Rightarrow> frame \<Rightarrow> table" where
  "rejStep t r f =
     (if Type f = REJ then retransmitFrom (upd t r (\<lambda>c. c\<lparr>remoteBusy := False\<rparr>)) r (NR f) else t)"

definition superCore :: "table \<Rightarrow> ref \<Rightarrow> int \<Rightarrow> frame \<Rightarrow> string \<Rightarrow> string \<Rightarrow> table" where
  "superCore t r port f src dst =
     (let vs = sendSeq (cell t r);
          t = (if Type f \<noteq> SREJ \<or> PF f then ackFrames t r (NR f) else t)
      in if Type f = SREJ then resendOne (upd t r (\<lambda>c. c\<lparr>remoteBusy := False\<rparr>)) r (NR f)
         else answerPoll (timerRecovery (rejStep (busyStep t r f) r f) r f vs) port f src dst)"

lemma dispatchS_core:
  "dispatchS t port f src dst =
     (case Get t port dst src of None \<Rightarrow> t
      | Some r \<Rightarrow> if State (cell t r) \<noteq> Connected then t else superCore t r port f src dst)"
  by (simp add: dispatchS_def superCore_def busyStep_def rejStep_def Let_def split: option.split)

lemma keeps_busyStep [keeps_intros, simp]: "keeps r t (busyStep t r f)"
  using keeps_trans [OF keeps_flags(1) keeps_drainOutbound] by (simp add: busyStep_def)

lemma keeps_rejStep [keeps_intros, simp]: "keeps r t (rejStep t r f)"
  using keeps_trans [OF keeps_flags(1) keeps_retransmitFrom] by (simp add: rejStep_def)

lemma keeps_superCore:
  assumes "State (cell t r) = Connected" "NR f < cModulo (cell t r)"
  shows "keeps r t (superCore t r port f src dst)"
proof -
  have 1: "keeps r t (if Type f \<noteq> SREJ \<or> PF f then ackFrames t r (NR f) else t)"
    using keeps_ackFrames [of t r "NR f"] assms by simp
  note 2 = keeps_trans [OF keeps_busyStep keeps_trans [OF keeps_rejStep keeps_trans [OF keeps_timerRecovery keeps_answerPoll]]]
  show ?thesis
    unfolding superCore_def Let_def
    by (intro keeps_if keeps_trans [OF 1 2] keeps_trans [OF 1 keeps_trans [OF keeps_flags(1) keeps_resendOne]])
qed

end
