(* ===== verification/L2_Invariant.thy ===== *)
theory L2_Invariant
  imports L2_Handlers "HOL-Library.Multiset"
begin

text \<open>
  The invariant of the connection table, and its preservation by every operation the program
  performs on it: received frames, client requests, timers, deferred functions and the bulk
  removals.
\<close>

section \<open>The invariant of the table\<close>

text \<open>
  Normalising a callsign twice is normalising it once.  It holds of the ASCII path; for the Unicode
  tables it is the documented behaviour of \<open>strings.ToUpper\<close> and \<open>strings.TrimSpace\<close>.
\<close>

definition unicode_ok :: "unicode \<Rightarrow> bool" where
  "unicode_ok u \<longleftrightarrow> (\<forall>s. ToUpper u (TrimSpace u (ToUpper u (TrimSpace u s))) = ToUpper u (TrimSpace u s))"

definition live :: "table \<Rightarrow> ref \<Rightarrow> bool" where
  "live t r \<longleftrightarrow> r \<in> snd ` set (conns t)"

definition entry_ok :: "table \<Rightarrow> connKey \<times> ref \<Rightarrow> bool" where
  "entry_ok t e \<longleftrightarrow> snd e < nextConn t \<and> fst e = ident (cell t (snd e))
     \<and> makeKey (uni t) (fst (fst e)) (fst (snd (fst e))) (snd (snd (fst e))) = fst e"

definition conns_ok :: "table \<Rightarrow> bool" where
  "conns_ok t \<longleftrightarrow> distinct (map fst (conns t)) \<and> distinct (map snd (conns t))
     \<and> length (conns t) \<le> maxConnections \<and> (\<forall>e\<in>set (conns t). entry_ok t e)"

definition idle_timers :: "conn \<Rightarrow> bool" where
  "idle_timers c \<longleftrightarrow> t1 c = None \<and> t2 c = None \<and> t3 c = None"

definition cells_ok :: "table \<Rightarrow> bool" where
  "cells_ok t \<longleftrightarrow> (\<forall>r<nextConn t. cinv t r) \<and> (\<forall>r. \<not> live t r \<longrightarrow> idle_timers (cell t r))"

definition table_inv :: "table \<Rightarrow> bool" where
  "table_inv t \<longleftrightarrow> unicode_ok (uni t) \<and> params_ok t \<and> conns_ok t \<and> cells_ok t"

section \<open>Operations on one connection\<close>

lemma keeps_live: "keeps r t t' \<Longrightarrow> live t' q = live t q"
  by (simp add: keeps_def live_def)

lemma live_bound: "table_inv t \<Longrightarrow> live t r \<Longrightarrow> r < nextConn t"
  by (auto simp: table_inv_def conns_ok_def entry_ok_def live_def)

lemma live_cinv: "table_inv t \<Longrightarrow> live t r \<Longrightarrow> params_ok t \<and> cinv t r"
  using live_bound [of t r] by (auto simp: table_inv_def cells_ok_def)

lemma same_conf_portParams: "same_conf t t' \<Longrightarrow> portParams t' = portParams t"
  by (intro portParams_cong) (simp add: same_conf_def)

lemma cinv_same: "same_conf t t' \<Longrightarrow> cells t' q = cells t q \<Longrightarrow> cinv t' q = cinv t q"
  by (simp add: cinv_def window_def same_conf_portParams)

lemma table_keeps:
  assumes inv: "table_inv t" and r: "live t r" and k: "keeps r t t'"
  shows "table_inv t'"
proof -
  have conf: "same_conf t t'" and cs: "conns t' = conns t" "nextConn t' = nextConn t"
    and oth: "\<And>q. q \<noteq> r \<Longrightarrow> cells t' q = cells t q" and id: "ident (cells t' r) = ident (cells t r)"
    using k by (simp_all add: keeps_def)
  have "ident (cells t' q) = ident (cells t q)" for q using oth id by (cases "q = r") simp_all
  then have "entry_ok t' e = entry_ok t e" for e using conf cs by (simp add: entry_ok_def same_conf_def)
  then have "conns_ok t'" using inv cs by (simp add: table_inv_def conns_ok_def)
  moreover have "cinv t' q" if "q < nextConn t" for q
    using k live_cinv [OF inv r] that inv oth cinv_same [OF conf]
    by (cases "q = r") (auto simp: keeps_def table_inv_def cells_ok_def)
  moreover have "idle_timers (cells t' q)" if "\<not> live t' q" for q
    using that r inv oth keeps_live [OF k] by (cases "q = r") (auto simp: table_inv_def cells_ok_def)
  ultimately show ?thesis
    using inv conf cs by (simp add: table_inv_def cells_ok_def same_conf_def params_ok_def)
qed

text \<open>Operations that leave every cell alone keep the table's invariant too.\<close>

lemma table_eqcells:
  assumes "table_inv t" "same_conf t t'" "conns t' = conns t" "nextConn t' = nextConn t" "cells t' = cells t"
  shows "table_inv t'"
  using assms cinv_same [OF assms(2)]
  by (auto simp: table_inv_def conns_ok_def entry_ok_def cells_ok_def live_def same_conf_def params_ok_def)

lemma table_sendFrame [simp]: "table_inv t \<Longrightarrow> table_inv (sendFrame t p f)"
  by (erule table_eqcells) (simp_all add: same_conf_def)

lemma table_emit [simp]: "table_inv t \<Longrightarrow> table_inv (emit t b h)"
  by (erule table_eqcells) (simp_all add: same_conf_def)

lemma Get_live: "Get t p l m = Some r \<Longrightarrow> live t r"
  by (force simp: Get_def live_def dest: map_of_SomeD)

section \<open>Removal\<close>

lemma live_entry:
  assumes "table_inv t" "live t r"
  shows "map_of (conns t) (ident (cell t r)) = Some r"
    "makeKey (uni t) (cPort (cell t r)) (Local (cell t r)) (Remote (cell t r)) = ident (cell t r)"
proof -
  obtain k where k: "(k, r) \<in> set (conns t)" using assms(2) by (auto simp: live_def)
  then have e: "entry_ok t (k, r)" and d: "distinct (map fst (conns t))"
    using assms(1) by (auto simp: table_inv_def conns_ok_def)
  then show "map_of (conns t) (ident (cell t r)) = Some r" using k by (simp add: entry_ok_def)
  show "makeKey (uni t) (cPort (cell t r)) (Local (cell t r)) (Remote (cell t r)) = ident (cell t r)"
    using e by (auto simp: entry_ok_def ident_def)
qed

lemma removeConn_eqs:
  assumes "table_inv t" "live t r"
  shows "conns (removeConn t r) = AList.delete (ident (cell t r)) (conns t)"
    "cells (removeConn t r) = (cells t)(r := (cells t r)\<lparr>t1 := None, t2 := None, t3 := None\<rparr>)"
    "same_conf t (removeConn t r)" "nextConn (removeConn t r) = nextConn t"
  using live_entry [OF assms] by (simp_all add: removeConn_def remove_def Let_def same_conf_def)

lemma conns_after_remove:
  assumes "table_inv t" "live t r"
  shows "set (conns (removeConn t r)) = {e \<in> set (conns t). snd e \<noteq> r}"
proof -
  have m: "map_of (conns t) (ident (cell t r)) = Some r" by (rule live_entry(1) [OF assms])
  have "fst e = ident (cell t r) \<longleftrightarrow> snd e = r" if "e \<in> set (conns t)" for e
    using that m assms(1)
    by (auto simp: table_inv_def conns_ok_def entry_ok_def prod_eq_iff dest: map_of_SomeD)
       (metis map_of_is_SomeI option.inject prod.collapse)
  then show ?thesis
    unfolding removeConn_eqs(1) [OF assms] AList.delete_eq set_filter case_prod_unfold by metis
qed

lemma table_removeConn:
  assumes inv: "table_inv t" and r: "live t r"
  shows "table_inv (removeConn t r)" "\<not> live (removeConn t r) r"
    "q \<noteq> r \<Longrightarrow> live (removeConn t r) q = live t q"
proof -
  note eqs = removeConn_eqs [OF inv r] and cs = conns_after_remove [OF inv r]
  show nl: "\<not> live (removeConn t r) r" "q \<noteq> r \<Longrightarrow> live (removeConn t r) q = live t q" for q
    by (auto simp: live_def cs)
  have conf: "same_conf t (removeConn t r)" by (rule eqs)
  have "entry_ok (removeConn t r) e" if "e \<in> set (conns (removeConn t r))" for e
    using that cs inv eqs conf by (auto simp: table_inv_def conns_ok_def entry_ok_def same_conf_def)
  moreover have "distinct (map fst (conns (removeConn t r)))" "distinct (map snd (conns (removeConn t r)))"
    "length (conns (removeConn t r)) \<le> maxConnections"
    using inv by (auto simp: eqs table_inv_def conns_ok_def AList.delete_eq distinct_map_filter intro: le_trans [OF length_filter_le])
  moreover have "cinv (removeConn t r) q" if "q < nextConn t" for q
    using that inv same_conf_portParams [OF conf]
    by (auto simp: table_inv_def cells_ok_def cinv_def window_def eqs)
  moreover have "idle_timers (cell (removeConn t r) q)" if "\<not> live (removeConn t r) q" for q
    using that inv nl by (cases "q = r") (auto simp: eqs idle_timers_def table_inv_def cells_ok_def)
  ultimately show "table_inv (removeConn t r)"
    using inv conf by (simp add: table_inv_def conns_ok_def cells_ok_def eqs(4) same_conf_def params_ok_def)
qed

lemma removeConn_out:
  assumes "table_inv t" "live t r"
  shows "out (removeConn t r) = out t @ (if hPortSessions (thooks t) then
    [HPortSessions (cPort (cell t r)) (length (filter (\<lambda>(k, q). fst k = cPort (cell t r)) (conns (removeConn t r))))] else [])"
  using live_entry [OF assms] removeConn_eqs(1) [OF assms]
  by (simp add: removeConn_def remove_def Let_def notifyPortSessions_def)

section \<open>Creation\<close>

lemma cinv_newConn: "params_ok t \<Longrightarrow> cell t r = (newConn p l m)\<lparr>t1Value := v\<rparr> \<Longrightarrow> cinv t r"
  using cinv_conn [of t r] by (auto simp: cinv_def newConn_def MaxDigipeaters_def pristine_def intro!: conn_inv_pristine)

lemma getOrCreate_cases:
  assumes "getOrCreate t p l m = (ro, t')"
  obtains (found) r where "ro = Some r" "t' = t" "Get t p l m = Some r"
  | (full) "ro = None" "t' = t" "length (conns t) \<ge> maxConnections" "Get t p l m = None"
  | (created) "ro = Some (nextConn t)" "Get t p l m = None" "length (conns t) < maxConnections"
      "t' = notifyPortSessions (t\<lparr>cells := (cells t)(nextConn t :=
          (newConn (fst (makeKey (uni t) p l m)) (fst (snd (makeKey (uni t) p l m)))
            (snd (snd (makeKey (uni t) p l m))))\<lparr>t1Value := ppT1 (portParams t p)\<rparr>),
        nextConn := Suc (nextConn t), conns := conns t @ [(makeKey (uni t) p l m, nextConn t)]\<rparr>) p"
proof (cases "map_of (conns t) (makeKey (uni t) p l m)")
  case None
  with assms full created show thesis
    by (auto simp: getOrCreate_def Get_def Let_def split: if_splits)
next
  case (Some r)
  with assms found [of r] show thesis by (simp add: getOrCreate_def Get_def Let_def)
qed

lemma makeKey_idem:
  "unicode_ok u \<Longrightarrow> makeKey u (fst (makeKey u p l m)) (fst (snd (makeKey u p l m))) (snd (snd (makeKey u p l m)))
    = makeKey u p l m"
  by (simp add: unicode_ok_def makeKey_def)

lemma table_getOrCreate:
  assumes inv: "table_inv t" and g: "getOrCreate t p l m = (Some r, t')"
  shows "table_inv t'" "live t' r" "same_conf t t'"
proof -
  have "table_inv t' \<and> live t' r \<and> same_conf t t'"
    using g
  proof (cases rule: getOrCreate_cases)
    case (found q)
    then show ?thesis using inv Get_live by (auto simp: same_conf_def)
  next
    case created
    let ?k = "makeKey (uni t) p l m" and ?n = "nextConn t"
    have u: "unicode_ok (uni t)" and pok: "params_ok t" using inv by (simp_all add: table_inv_def)
    have conns': "conns t' = conns t @ [(?k, ?n)]" and n': "nextConn t' = Suc ?n" and conf: "same_conf t t'"
      and cells': "cells t' = (cells t)(?n := (newConn (fst ?k) (fst (snd ?k)) (snd (snd ?k)))
          \<lparr>t1Value := ppT1 (portParams t p)\<rparr>)" and r: "r = ?n"
      using created by (simp_all add: same_conf_def)
    have new: "?k \<notin> fst ` set (conns t)" using created by (simp add: Get_def map_of_eq_None_iff)
    have old: "snd e < ?n" if "e \<in> set (conns t)" for e
      using that inv by (auto simp: table_inv_def conns_ok_def entry_ok_def)
    have "entry_ok t' e" if "e \<in> set (conns t')" for e
    proof (cases "e \<in> set (conns t)")
      case True
      then show ?thesis
        using inv old [OF True] conf n' by (auto simp: table_inv_def conns_ok_def entry_ok_def cells' same_conf_def)
    next
      case False
      then show ?thesis
        using that conf n' makeKey_idem [OF u, of p l m]
        by (auto simp: conns' entry_ok_def cells' ident_def newConn_def same_conf_def)
    qed
    moreover have "distinct (map fst (conns t'))" "distinct (map snd (conns t'))" "length (conns t') \<le> maxConnections"
      using inv new old created by (force simp: conns' table_inv_def conns_ok_def)+
    ultimately have "conns_ok t'" by (simp add: conns_ok_def)
    moreover have "params_ok t'" using pok conf by (simp add: params_ok_def same_conf_def)
    moreover have "cinv t' q" if "q < nextConn t'" for q
    proof (cases "q = ?n")
      case True
      then show ?thesis using \<open>params_ok t'\<close> by (intro cinv_newConn) (simp_all add: cells')
    next
      case False
      with that inv cinv_same [OF conf] show ?thesis by (auto simp: n' table_inv_def cells_ok_def cells')
    qed
    moreover have "idle_timers (cell t' q)" if "\<not> live t' q" for q
      using that inv by (auto simp: table_inv_def cells_ok_def cells' live_def conns')
    ultimately show ?thesis
      using u conf by (auto simp: table_inv_def cells_ok_def live_def conns' r same_conf_def)
  qed auto
  then show "table_inv t'" "live t' r" "same_conf t t'" by simp_all
qed

section \<open>Client requests\<close>

lemma table_getOrCreate_None: "getOrCreate t p l m = (None, t') \<Longrightarrow> t' = t"
  by (erule getOrCreate_cases) simp_all

lemma keeps_connectReset:
  assumes "length via \<le> MaxDigipeaters" "m = 8 \<or> m = 128"
  shows "keeps r t (upd (upd t r (\<lambda>c. (resetSeqs (c\<lparr>State := Connecting\<rparr>))
           \<lparr>t1Polls := 0, triedFallback := False, cVia := via, t1Value := v\<rparr>)) r (\<lambda>c. c\<lparr>cModulo := m\<rparr>))"
proof -
  let ?g = "\<lambda>c. (resetSeqs (c\<lparr>State := Connecting\<rparr>))
           \<lparr>t1Polls := 0, triedFallback := False, cVia := via, t1Value := v, cModulo := m\<rparr>"
  have "keeps r t (upd t r ?g)"
    using assms by (intro keeps_fresh [where P = "\<lambda>_. True"]) (auto simp: ident_def pristine_resetSeqs resetSeqs_def pristine_def)
  then show ?thesis by (simp add: upd_def)
qed

lemma table_Connect:
  assumes inv: "table_inv t" and via: "length via \<le> MaxDigipeaters"
  shows "table_inv (snd (Connect t port l m via))"
proof (cases "firstBadCall (uni t) ([l, m] @ via)")
  case None
  obtain ro t' where g: "getOrCreate t port l m = (ro, t')" by fastforce
  show ?thesis
  proof (cases ro)
    case ro: None
    with g None inv table_getOrCreate_None show ?thesis by (fastforce simp: Connect_def)
  next
    case (Some r)
    note t' = table_getOrCreate [OF inv g [unfolded Some]]
    note k = keeps_connectReset [OF via]
    have "keeps r t' (startT1 (sendSABME (upd (upd t' r (\<lambda>c. (resetSeqs (c\<lparr>State := Connecting\<rparr>))
           \<lparr>t1Polls := 0, triedFallback := False, cVia := via, t1Value := v\<rparr>)) r (\<lambda>c. c\<lparr>cModulo := 128\<rparr>)) r) r)"
      "keeps r t' (startT1 (sendSABM (upd (upd t' r (\<lambda>c. (resetSeqs (c\<lparr>State := Connecting\<rparr>))
           \<lparr>t1Polls := 0, triedFallback := False, cVia := via, t1Value := v\<rparr>)) r (\<lambda>c. c\<lparr>cModulo := 8\<rparr>)) r) r)" for v
      by (rule keeps_trans [OF k keeps_trans [OF sendSAB_simps(2) keeps_timers(5)]], simp)
         (rule keeps_trans [OF k keeps_trans [OF sendSAB_simps(1) keeps_timers(5)]], simp)
    with table_keeps [OF t'(1,2)] show ?thesis
      unfolding Connect_def None g Some by (simp add: Let_def)
  qed
qed (simp add: Connect_def inv)

lemma table_Disconnect:
  assumes "table_inv t" "live t r"
  shows "table_inv (Disconnect t r)"
proof -
  have "keeps r u (upd u r (\<lambda>c. c\<lparr>State := Disconnecting, t1Polls := 0\<rparr>))" for u
    by (rule keeps_upd) (simp_all add: ident_def conn_inv_State)
  from keeps_trans [OF keeps_timers(1) keeps_trans [OF this keeps_trans [OF keeps_simple(3) keeps_timers(5)]]]
  show ?thesis unfolding Disconnect_def Let_def using table_keeps [OF assms] by blast
qed

lemma pieces_bounded: "c \<in> set (pieces data) \<Longrightarrow> length c \<le> maxIFrameInfo"
proof (induction data rule: pieces.induct)
  case (1 data)
  then show ?case by (subst (asm) (2) pieces.simps) (auto split: if_splits)
qed

lemma fragment_bounded: "c \<in> set (fragment data) \<Longrightarrow> length c \<le> maxIFrameInfo"
  by (auto simp: fragment_def pieces_bounded split: if_splits)

lemma enqueue_ok:
  assumes "\<forall>c\<in>set cs. length c \<le> maxIFrameInfo" "\<forall>e\<in>set q. length (oeData e) \<le> maxIFrameInfo"
    and "length q \<le> maxOutboundQueue"
  shows "length (fst (enqueue q pid cs)) \<le> maxOutboundQueue
    \<and> (\<forall>e\<in>set (fst (enqueue q pid cs)). length (oeData e) \<le> maxIFrameInfo)"
  using assms by (induction q pid cs rule: enqueue.induct) auto

lemma keeps_SendData:
  assumes "State (cell t r) \<noteq> Connecting"
  shows "keeps r t (snd (SendData t r pid data))"
proof -
  have "keeps r t (upd t r (\<lambda>c. c\<lparr>outQueue := fst (enqueue (outQueue (cell t r)) pid (fragment data))\<rparr>))"
  proof (rule keeps_upd)
    assume inv: "conn_inv (window t r) (cells t r)"
    show "conn_inv (window t r) ((cells t r)\<lparr>outQueue := fst (enqueue (outQueue (cell t r)) pid (fragment data))\<rparr>)"
      using inv assms enqueue_ok [of "fragment data" "outQueue (cell t r)" pid] fragment_bounded [of _ data]
      by (simp add: conn_inv_def queue_ok_def)
  qed (simp add: ident_def)
  from keeps_trans [OF this keeps_drainOutbound] show ?thesis
    by (simp add: SendData_def split: prod.split) (metis fst_conv)
qed

section \<open>Received frames\<close>

text \<open>
  What the receive path guarantees of a frame it hands to \<open>OnFrame\<close>: at most eight digipeaters,
  and an N(R) below the modulo of the link it belongs to.
\<close>

definition rx_ok :: "table \<Rightarrow> int \<Rightarrow> frame \<Rightarrow> bool" where
  "rx_ok t port f \<longleftrightarrow> length (Via f) \<le> MaxDigipeaters
     \<and> uint (NR f) < ModuloFor t port (addr_String (Dst f)) (addr_String (Src f))"

lemma live_simps [simp]:
  "live (emit t b h) r = live t r" "live (sendFrame t p f) r = live t r"
  "live (upd t q g) r = live t r" "live (cancelAll t q) r = live t r" "live (sendCmd t q ft) r = live t r"
  by (simp_all add: live_def)

lemma keeps_table: "table_inv t \<Longrightarrow> Get t p l m = Some r \<Longrightarrow> keeps r t t' \<Longrightarrow> table_inv t'"
  by (blast intro: table_keeps Get_live)

lemma table_drop:
  assumes "table_inv t" "Get t p l m = Some r"
  shows "table_inv (removeConn (emit t b h) r)"
  using assms by (intro table_removeConn(1)) (simp_all add: Get_live)

lemma table_dispatchSABM:
  assumes "table_inv t" "length (Via f) \<le> MaxDigipeaters"
  shows "table_inv (dispatchSABM t port f src dst)" "table_inv (dispatchSABME t port f src dst)"
proof -
  have acc: "table_inv (case getOrCreate t port dst src of
          (None, t) \<Rightarrow> sendFrame t port (respFrame (uni t) src dst v DM (PF f))
        | (Some r, t) \<Rightarrow> acceptSABM t r port (reversed (addrSliceToStrings (Via f))) src dst (PF f) m)"
    if "m = 8 \<or> m = 128" for m v
  proof -
    obtain ro t' where g: "getOrCreate t port dst src = (ro, t')" by fastforce
    show ?thesis
    proof (cases ro)
      case None
      with g assms(1) table_getOrCreate_None show ?thesis by fastforce
    next
      case (Some r)
      have "length (reversed (addrSliceToStrings (Via f))) \<le> MaxDigipeaters"
        using assms(2) by (simp add: reversed_def addrSliceToStrings_def)
      with table_keeps [OF table_getOrCreate(1,2) keeps_acceptSABM] g Some assms(1) that show ?thesis by simp
    qed
  qed
  show "table_inv (dispatchSABM t port f src dst)" "table_inv (dispatchSABME t port f src dst)"
    using assms acc [of 8] acc [of 128] by (simp_all add: dispatchSABM_def dispatchSABME_def Let_def)
qed

lemma table_dispatchUA:
  assumes inv: "table_inv t"
  shows "table_inv (dispatchUA t port f src dst)"
proof (cases "Get t port dst src")
  case (Some r)
  have order: "(\<lambda>c. c\<lparr>sendSeq := 0, recvSeq := 0, t1Polls := 0\<rparr>) = (\<lambda>c :: conn. c\<lparr>t1Polls := 0, sendSeq := 0, recvSeq := 0\<rparr>)"
    by (simp add: fun_eq_iff)
  let ?t = "notifyConnectedOut (upd (enterConnected (cancelT1 t r) r) r (\<lambda>c. c\<lparr>t1Polls := 0, sendSeq := 0, recvSeq := 0\<rparr>)) r"
  have "keeps r t ?t" if "State (cell t r) = Connecting"
    using keeps_trans [OF keeps_promoted [OF that disjI2 [OF refl]] keeps_notifyConnectedOut] .
  then have "table_inv ?t" "table_inv (sendXIDCommand ?t r)" if "State (cell t r) = Connecting"
    using keeps_table [OF inv Some] keeps_trans [OF _ keeps_sendXIDCommand] that by blast+
  then show ?thesis
    using inv table_drop [OF inv Some] unfolding dispatchUA_def Some Let_def order by simp
qed (simp add: dispatchUA_def inv)

lemma table_dispatchDM: "table_inv t \<Longrightarrow> table_inv (dispatchDM t port f src dst)"
  by (auto simp: dispatchDM_def split: option.split intro: table_drop keeps_table keeps_fallbackToSABM keeps_flags)

lemma table_dispatchDISC: "table_inv t \<Longrightarrow> table_inv (dispatchDISC t port f src dst)"
  by (auto simp: dispatchDISC_def Let_def Get_live split: option.split intro: table_removeConn(1))

lemma table_dispatchFRMR:
  assumes inv: "table_inv t"
  shows "table_inv (dispatchFRMR t port f src dst)"
proof (cases "Get t port dst src")
  case (Some r)
  let ?g = "\<lambda>c. (resetSeqs (c\<lparr>State := Connecting\<rparr>))\<lparr>remoteBusy := remoteBusy c, t1Polls := 0, triedFallback := False\<rparr>"
  have "keeps r t (upd t r ?g)"
    by (rule keeps_fresh [where P = "\<lambda>_. True"])
      (auto simp: ident_def pristine_resetSeqs conn_inv_def seq_ok_def resetSeqs_def pristine_def)
  note k = keeps_trans [OF this keeps_trans [OF keeps_timers(4) keeps_trans [OF _ keeps_timers(5)]]]
  show ?thesis
    unfolding dispatchFRMR_def Some Let_def option.case
    using inv keeps_table [OF inv Some keeps_fallbackToSABM] keeps_table [OF inv Some keeps_flags(7)]
      keeps_table [OF inv Some k [OF sendSAB_simps(1)]] keeps_table [OF inv Some k [OF sendSAB_simps(2)]]
    by simp
qed (simp add: dispatchFRMR_def inv)

lemma promote_modulo: "cModulo (cell (promote t (Some r)) r) = cModulo (cell t r)"
  by (simp add: promote_def notifyConnectedOut_def enterConnected_def)

lemma table_dispatchI:
  assumes inv: "table_inv t" and nr: "uint (NR f) < ModuloFor t port dst src"
  shows "table_inv (dispatchI t port f src dst)"
proof (cases "Get t port dst src")
  case None
  then show ?thesis using inv by (simp add: dispatchI_def promote_def)
next
  case (Some r)
  let ?t = "promote t (Some r)"
  let ?a = "ackFrames ?t r (NR f)"
  have inv': "table_inv ?t" by (rule keeps_table [OF inv Some keeps_promote])
  have lv: "live ?t r" using Get_live [OF Some] by (simp add: keeps_live [OF keeps_promote])
  have "keeps r ?t (if srejEnabled (cell ?a r) then recvSREJ ?a r pp f src dst else recvREJ ?a r port pp f src dst)"
    if st: "State (cell ?t r) = Connected" for pp
  proof -
    have "NR f < cModulo (cell ?t r)" using nr Some by (simp add: promote_modulo ModuloFor_def word_less_alt)
    then have 1: "keeps r ?t ?a" using st by (intro keeps_ackFrames) simp_all
    have "State (cell ?a r) \<noteq> Connecting" using same_link_ackFrames [of r ?t "NR f"] st by (simp add: same_link_def)
    then show ?thesis using keeps_trans [OF 1 keeps_recvSREJ] keeps_trans [OF 1 keeps_recvREJ] by simp
  qed
  with table_keeps [OF inv' lv] inv' show ?thesis
    unfolding dispatchI_def Some Let_def option.case by simp
qed

lemma table_dispatchS:
  assumes inv: "table_inv t" and nr: "uint (NR f) < ModuloFor t port dst src"
  shows "table_inv (dispatchS t port f src dst)"
  using inv keeps_table [OF inv _ keeps_superCore] nr
  by (auto simp: dispatchS_core ModuloFor_def word_less_alt split: option.split)

lemma table_dispatchXID:
  assumes inv: "table_inv t"
  shows "table_inv (dispatchXID t port f src dst)"
  using inv keeps_table [OF inv _ keeps_flags(7)] keeps_table [OF inv _ keeps_trans [OF keeps_flags(8) keeps_simple(2)]]
  by (auto simp: dispatchXID_def Let_def split: option.split sum.split)

lemma table_OnFrame:
  assumes inv: "table_inv t" and rx: "rx_ok t port f"
  shows "table_inv (OnFrame t port f)"
proof -
  let ?t = "dispatch t port f (addr_String (Src f)) (addr_String (Dst f))"
  have "table_inv ?t"
    using inv rx
    by (cases "Type f") (simp_all add: dispatch_def rx_ok_def table_dispatchSABM table_dispatchUA table_dispatchDM
      table_dispatchDISC table_dispatchFRMR table_dispatchI table_dispatchS table_dispatchXID)
  then show ?thesis
    using keeps_table [OF _ _ keeps_timers(6)] by (auto simp: OnFrame_def Let_def split: option.split)
qed

section \<open>Timers and deferred functions\<close>

lemma keeps_t1Expired_prefix:
  "keeps r t (upd (upd t r (\<lambda>c. c\<lparr>t1 := None\<rparr>)) r (\<lambda>c. c\<lparr>t1Polls := t1Polls c + 1\<rparr>))"
  by (rule keeps_trans [OF keeps_flags(5) keeps_flags(4)])

lemma keeps_state: "s \<noteq> Connecting \<Longrightarrow> keeps r t (upd t r (\<lambda>c. c\<lparr>State := s\<rparr>))"
  by (rule keeps_upd) (simp_all add: ident_def conn_inv_State)

lemma table_give_up:
  assumes "table_inv t" "live t r" "keeps r t t'"
  shows "table_inv (removeConn (emit (upd t' r (\<lambda>c. c\<lparr>State := Disconnected\<rparr>)) b h) r)"
proof (rule table_removeConn(1))
  show "table_inv (emit (upd t' r (\<lambda>c. c\<lparr>State := Disconnected\<rparr>)) b h)"
    using table_keeps [OF assms(1,2) keeps_trans [OF assms(3) keeps_state]] by simp
qed (use assms keeps_live [OF assms(3)] in simp)

text \<open>The four outcomes of a T1 expiry: give up, repeat the link request, enquire, or nothing.\<close>

definition enquire :: "table \<Rightarrow> ref \<Rightarrow> table" where
  "enquire t r =
     (let t = sendEnquiry t r;
          t = (if t1Polls (cell t r) > 1 then retransmitFrom t r (lastAcked (cell t r)) else t);
          t = (if t1Value (cell t r) > 0
               then upd t r (\<lambda>c. c\<lparr>t1Value := (if t1Value c * 2 > t1Ceil then t1Ceil else t1Value c * 2)\<rparr>)
               else t)
      in startT1 t r)"

definition fallBack :: "table \<Rightarrow> ref \<Rightarrow> int \<Rightarrow> table" where
  "fallBack t r n2 =
     (if cModulo (cell t r) = 128 \<and> \<not> triedFallback (cell t r) \<and> t1Polls (cell t r) \<ge> go_div n2 3
      then upd t r (\<lambda>c. c\<lparr>cModulo := 8, triedFallback := True\<rparr>) else t)"

definition giveUp :: "table \<Rightarrow> ref \<Rightarrow> bool \<Rightarrow> hookCall \<Rightarrow> table" where
  "giveUp t r b h = removeConn (emit (upd t r (\<lambda>c. c\<lparr>State := Disconnected\<rparr>)) b h) r"

definition setupTimer :: "PortParams \<Rightarrow> conn \<Rightarrow> conn" where
  "setupTimer pp c = c\<lparr>t1Value := setupT1 (T1Setup pp) (int (length (cVia c)))\<rparr>"

definition polled :: "table \<Rightarrow> ref \<Rightarrow> table" where
  "polled t r = upd (upd t r (\<lambda>c. c\<lparr>t1 := None\<rparr>)) r (\<lambda>c. c\<lparr>t1Polls := t1Polls c + 1\<rparr>)"

lemma t1Expired_alt:
  "t1Expired t r =
     (let pp = portParams t (cPort (cell t r)); n = N2Retry pp; u = polled t r
      in case State (cell t r) of
           Disconnecting \<Rightarrow>
             if t1Polls (cell u r) > n then giveUp u r (hDisconnected (thooks t)) (HDisconnected r)
             else startT1 (sendCmd (upd u r (setupTimer pp)) r DISC) r
         | Connecting \<Rightarrow>
             let v = fallBack u r n
             in if t1Polls (cell u r) > n then giveUp v r (hConnectFailed (thooks t)) (HConnectFailed r FailTimeout)
                else let w = upd v r (setupTimer pp)
                     in startT1 (if cModulo (cell w r) = 128 then sendSABME w r else sendSABM w r) r
         | Connected \<Rightarrow>
             if t1Polls (cell u r) > n then giveUp u r (hDisconnected (thooks t)) (HDisconnected r)
             else enquire u r
         | Disconnected \<Rightarrow> upd t r (\<lambda>c. c\<lparr>t1 := None\<rparr>))"
proof -
  have pp: "portParams (upd t r g) = portParams t" for g by (rule portParams_cong) simp
  show ?thesis
    by (cases "State (cell t r)")
      (simp_all add: t1Expired_def Let_def pp polled_def giveUp_def setupTimer_def [abs_def] enquire_def fallBack_def)
qed

lemma keeps_polled [simp]: "keeps r t (polled t r)"
  unfolding polled_def by (rule keeps_trans [OF keeps_flags(5) keeps_flags(4)])

lemma keeps_enquire: "keeps r t (enquire t r)"
proof -
  let ?a = "sendEnquiry t r"
  let ?b = "if t1Polls (cell ?a r) > 1 then retransmitFrom ?a r (lastAcked (cell ?a r)) else ?a"
  have b: "keeps r t ?b" using keeps_trans [OF keeps_timers(8) keeps_retransmitFrom] by simp
  show ?thesis
    unfolding enquire_def Let_def
    by (intro keeps_trans [OF _ keeps_timers(5)] keeps_if keeps_trans [OF b keeps_flags(6)] b)
qed

lemma keeps_fallBack: "State (cell t r) = Connecting \<Longrightarrow> keeps r t (fallBack t r n)"
  by (simp add: fallBack_def keeps_fallback)

lemma keeps_setupTimer: "keeps r t (upd t r (setupTimer pp))"
  using keeps_flags(6) [of r t "\<lambda>c. setupT1 (T1Setup pp) (int (length (cVia c)))"] by (simp add: setupTimer_def [abs_def])

lemma table_giveUp: "table_inv t \<Longrightarrow> live t r \<Longrightarrow> keeps r t t' \<Longrightarrow> table_inv (giveUp t' r b h)"
  unfolding giveUp_def by (rule table_give_up)

lemma table_t1Expired:
  assumes inv: "table_inv t" and r: "live t r"
  shows "table_inv (t1Expired t r)"
proof -
  note tk = table_keeps [OF inv r] and gu = table_giveUp [OF inv r]
  have "keeps r t (fallBack (polled t r) r n)" if "State (cell t r) = Connecting" for n
    using that by (intro keeps_trans [OF keeps_polled keeps_fallBack]) (simp add: polled_def)
  note fb = gu [OF this] tk [OF keeps_trans [OF keeps_trans [OF this keeps_setupTimer]
        keeps_trans [OF sendSAB_simps(1) keeps_timers(5)]]]
    tk [OF keeps_trans [OF keeps_trans [OF this keeps_setupTimer] keeps_trans [OF sendSAB_simps(2) keeps_timers(5)]]]
  show ?thesis
    unfolding t1Expired_alt Let_def
    by (cases "State (cell t r)")
      (simp_all add: fb gu [OF keeps_polled] tk [OF keeps_flags(5)] tk [OF keeps_trans [OF keeps_polled keeps_enquire]]
        tk [OF keeps_trans [OF keeps_trans [OF keeps_polled keeps_setupTimer] keeps_trans [OF keeps_simple(3) keeps_timers(5)]]])
qed

lemma timer_live:
  assumes "table_inv t"
  shows "t1 (cell t r) = Some i \<Longrightarrow> live t r" "t2 (cell t r) = Some i \<Longrightarrow> live t r" "t3 (cell t r) = Some i \<Longrightarrow> live t r"
  using assms by (auto simp: table_inv_def cells_ok_def idle_timers_def)

lemma table_runClosure:
  assumes inv: "table_inv t"
  shows "table_inv (runClosure t fn)"
proof (cases fn)
  case (RRFn r src dst)
  then show ?thesis
    using inv by (simp add: runClosure_def answerDeferred_def sendRRResponse_def Let_def)
qed (use inv timer_live [OF inv] table_t1Expired [OF inv] table_keeps [OF inv _ keeps_t2Expired]
      table_keeps [OF inv _ keeps_t3Expired] in \<open>auto simp: runClosure_def\<close>)

lemma table_eng [simp]: "table_inv (t\<lparr>eng := e\<rparr>) = table_inv t"
  using table_eqcells [of t "t\<lparr>eng := e\<rparr>"] table_eqcells [of "t\<lparr>eng := e\<rparr>" t] by (auto simp: same_conf_def)

lemma table_runBatch: "table_inv t \<Longrightarrow> table_inv (runBatch t)"
proof -
  have "table_inv u \<Longrightarrow> table_inv (foldl runClosure u fns)" for u fns
    by (induction fns arbitrary: u) (simp_all add: table_runClosure)
  then show "table_inv t \<Longrightarrow> table_inv (runBatch t)" by (simp add: runBatch_def)
qed

section \<open>Bulk removal\<close>

lemma table_dropOwned:
  assumes "table_inv t" "live t r"
  shows "table_inv (dropOwned t r)" "\<not> live (dropOwned t r) r" "q \<noteq> r \<Longrightarrow> live (dropOwned t r) q = live t q"
proof -
  let ?u = "if State (cell (cancelAll t r) r) = Connected \<or> State (cell (cancelAll t r) r) = Connecting
            then sendCmd (cancelAll t r) r DISC else cancelAll t r"
  have k: "keeps r t ?u" using keeps_trans [OF keeps_timers(4) keeps_simple(3)] by simp
  have u: "table_inv ?u" "live ?u r" using table_keeps [OF assms k] assms(2) keeps_live [OF k] by blast+
  show "table_inv (dropOwned t r)" "\<not> live (dropOwned t r) r" "q \<noteq> r \<Longrightarrow> live (dropOwned t r) q = live t q"
    unfolding dropOwned_def Let_def using table_removeConn [OF u] keeps_live [OF k] by blast+
qed

lemma table_dropOffline:
  assumes "table_inv t" "live t r"
  shows "table_inv (dropOffline t r)" "\<not> live (dropOffline t r) r" "q \<noteq> r \<Longrightarrow> live (dropOffline t r) q = live t q"
proof -
  let ?u = "emit (cancelAll t r) (hDisconnected (thooks (cancelAll t r))) (HDisconnected r)"
  have k: "keeps r t ?u" by (rule keeps_trans [OF keeps_timers(4) keeps_simple(1)])
  have u: "table_inv ?u" "live ?u r" using table_keeps [OF assms k] assms(2) keeps_live [OF k] by blast+
  show "table_inv (dropOffline t r)" "\<not> live (dropOffline t r) r" "q \<noteq> r \<Longrightarrow> live (dropOffline t r) q = live t q"
    unfolding dropOffline_def Let_def using table_removeConn [OF u] keeps_live [OF k] by blast+
qed

text \<open>The two bulk removals are instances of one fold.\<close>

locale bulk_drop =
  fixes drop1 :: "table \<Rightarrow> ref \<Rightarrow> table"
  assumes drop_inv: "table_inv t \<Longrightarrow> live t r \<Longrightarrow> table_inv (drop1 t r)"
    and drop_gone: "table_inv t \<Longrightarrow> live t r \<Longrightarrow> \<not> live (drop1 t r) r"
    and drop_other: "table_inv t \<Longrightarrow> live t r \<Longrightarrow> q \<noteq> r \<Longrightarrow> live (drop1 t r) q = live t q"
begin

lemma drop_all:
  "table_inv t \<Longrightarrow> distinct rs \<Longrightarrow> \<forall>r\<in>set rs. live t r \<Longrightarrow>
   table_inv (foldl drop1 t rs) \<and> (\<forall>q. live (foldl drop1 t rs) q \<longleftrightarrow> live t q \<and> q \<notin> set rs)"
proof (induction rs arbitrary: t)
  case (Cons r rs)
  have "table_inv (drop1 t r)" "\<forall>q\<in>set rs. live (drop1 t r) q"
    using Cons.prems drop_inv drop_other by (auto, metis)
  with Cons.IH [of "drop1 t r"] Cons.prems show ?case
    using drop_gone drop_other by (auto, metis+)
qed simp

end

interpretation drop_owned: bulk_drop dropOwned
  by unfold_locales (rule table_dropOwned, assumption+)+

interpretation drop_offline: bulk_drop dropOffline
  by unfold_locales (rule table_dropOffline, assumption+)+

text \<open>An order in which Go may walk a map: every element once.\<close>

definition map_order :: "('a list \<Rightarrow> 'a list) \<Rightarrow> bool" where
  "map_order ord \<longleftrightarrow> (\<forall>xs. mset (ord xs) = mset xs)"

lemma map_order_facts:
  assumes "map_order ord"
  shows "set (ord xs) = set xs" "distinct (ord xs) = distinct xs"
  using assms mset_eq_setD mset_eq_imp_distinct_iff unfolding map_order_def by blast+

lemma removed_set:
  assumes "map_order ord" "table_inv t"
  shows "distinct (ord (filter P (map snd (conns t))))"
    "set (ord (filter P (map snd (conns t)))) = {r. live t r \<and> P r}"
  using assms by (auto simp: map_order_facts [OF assms(1)] live_def table_inv_def conns_ok_def)

lemma table_RemoveOwned:
  assumes "map_order ord" "table_inv t"
  shows "table_inv (RemoveOwned ord t ow)"
    "live (RemoveOwned ord t ow) q \<longleftrightarrow> live t q \<and> Owner (cell t q) \<noteq> ow"
  using drop_owned.drop_all [OF assms(2) removed_set(1) [OF assms], of "\<lambda>r. Owner (cell t r) = ow"]
    removed_set(2) [OF assms, of "\<lambda>r. Owner (cell t r) = ow"]
  by (auto simp: RemoveOwned_def)

lemma table_PortOffline:
  assumes "map_order ord" "table_inv t"
  shows "table_inv (PortOffline ord t port)"
    "live (PortOffline ord t port) q \<longleftrightarrow>
       live t q \<and> \<not> (cPort (cell t q) = port \<and> State (cell t q) \<in> {Connected, Connecting, Disconnecting})"
  using drop_offline.drop_all [OF assms(2) removed_set(1) [OF assms],
      of "\<lambda>r. cPort (cell t r) = port \<and> State (cell t r) \<in> {Connected, Connecting, Disconnecting}"]
    removed_set(2) [OF assms, of "\<lambda>r. cPort (cell t r) = port \<and> State (cell t r) \<in> {Connected, Connecting, Disconnecting}"]
  by (auto simp: PortOffline_def)

section \<open>The layer as a transition system\<close>

text \<open>
  The first stage of the receive path (\<^verbatim>\<open>src/internal/bridge/bridge.go\<close>, \<open>OnKISSFrame\<close>): decode at
  modulo 8, and decode I and S frames again when the link they belong to is modulo 128.
\<close>

definition rxParse :: "table \<Rightarrow> int \<Rightarrow> bytes \<Rightarrow> frame_error + frame" where
  "rxParse t port raw =
     (case Parse raw of
        Inl e \<Rightarrow> Inl e
      | Inr f \<Rightarrow>
          if (Type f = I \<or> IsS (Type f)) \<and> ModuloFor t port (addr_String (Dst f)) (addr_String (Src f)) = 128
          then (case ParseModulo raw 128 of Inr ext \<Rightarrow> Inr ext | Inl _ \<Rightarrow> Inr f)
          else Inr f)"

inductive l2_step :: "table \<Rightarrow> table \<Rightarrow> bool" where
  rx: "rxParse t port raw = Inr f \<Longrightarrow> l2_step t (OnFrame t port f)"
| connect: "length via \<le> MaxDigipeaters \<Longrightarrow> l2_step t (snd (Connect t port l m via))"
| own: "Get t port l m = Some r \<Longrightarrow> l2_step t (upd t r (\<lambda>c. c\<lparr>Owner := ow\<rparr>))"
| send: "Get t port l m = Some r \<Longrightarrow> State (cell t r) = Connected \<Longrightarrow> l2_step t (snd (SendData t r pid data))"
| disconnect: "Get t port l m = Some r \<Longrightarrow> l2_step t (Disconnect t r)"
| removeOwned: "map_order ord \<Longrightarrow> l2_step t (RemoveOwned ord t ow)"
| portOffline: "map_order ord \<Longrightarrow> l2_step t (PortOffline ord t port)"
| tick: "l2_step t (t\<lparr>eng := Tick (eng t) d\<rparr>)"
| fire: "l2_step t (t\<lparr>eng := Fire (eng t) tid\<rparr>)"
| post: "l2_step t (t\<lparr>eng := Post (eng t) i\<rparr>)"
| run: "queue (eng t) = fn # fns \<Longrightarrow> l2_step t (runClosure (t\<lparr>eng := (eng t)\<lparr>queue := fns\<rparr>\<rparr>) fn)"

inductive_cases l2_stepE: "l2_step t t'"

lemma ModuloFor_cases:
  assumes "table_inv t"
  shows "ModuloFor t p l m = 8 \<or> ModuloFor t p l m = 128"
proof (cases "Get t p l m")
  case (Some r)
  then have "conn_inv (window t r) (cell t r)" using live_cinv [OF assms Get_live] by (auto simp: cinv_def)
  then show ?thesis using Some by (auto simp: ModuloFor_def conn_inv_def seq_ok_def)
qed (simp add: ModuloFor_def)

lemma ParseModulo_NR:
  assumes "ParseModulo raw m = Inr f" "m = 8 \<or> m = 128"
  shows "uint (NR f) < m" "length (Via f) \<le> MaxDigipeaters"
proof -
  obtain d s v ctl after where v: "length v \<le> MaxDigipeaters"
    and p: "parseControl m (frame0 d s v m) ctl after = Inr f"
    using assms(1) by (rule ParseModulo_shape)
  have "parsed_ok f" "Via f = v" using parseControl_ok [OF p assms(2)] by auto
  moreover have "uint (Modulo f) = m"
    using p assms(2) by (auto simp: parseControl_def parseI_def parseS_def parseU_def frame0_def Let_def
      split: if_splits list.splits)
  ultimately show "uint (NR f) < m" "length (Via f) \<le> MaxDigipeaters"
    using v assms(2) by (auto simp: parsed_ok_def word_less_alt split: if_splits)
qed

lemma rxParse_ok:
  assumes inv: "table_inv t" and rx: "rxParse t port raw = Inr f"
  shows "rx_ok t port f"
proof -
  obtain g where g: "ParseModulo raw 8 = Inr g" using rx by (auto simp: rxParse_def Parse_def split: sum.splits)
  consider "f = g" | "ParseModulo raw 128 = Inr f" "ModuloFor t port (addr_String (Dst g)) (addr_String (Src g)) = 128"
    using rx g by (auto simp: rxParse_def Parse_def split: sum.splits if_splits)
  then show ?thesis
  proof cases
    case 1
    then show ?thesis
      using ParseModulo_NR [OF g] ModuloFor_cases [OF inv, of port "addr_String (Dst f)" "addr_String (Src f)"]
      by (auto simp: rx_ok_def)
  next
    case 2
    then show ?thesis
      using ParseModulo_NR [OF 2(1)] ParseModulo_addrs [OF g] ParseModulo_addrs [OF 2(1)] by (simp add: rx_ok_def)
  qed
qed

lemma l2_step_inv: "l2_step t t' \<Longrightarrow> table_inv t \<Longrightarrow> table_inv t'"
proof (induction rule: l2_step.induct)
  case (rx t port raw f)
  then show ?case by (simp add: table_OnFrame rxParse_ok)
next
  case (send t port l m r pid data)
  then show ?case by (intro keeps_table [OF _ _ keeps_SendData]) simp_all
next
  case (own t port l m r ow)
  then show ?case by (blast intro: keeps_table keeps_flags(9))
next
  case (run t fn fns)
  then show ?case by (intro table_runClosure) simp
qed (auto simp: table_Connect table_Disconnect Get_live table_RemoveOwned table_PortOffline)

definition l2_init :: "table \<Rightarrow> bool" where
  "l2_init t \<longleftrightarrow> (\<exists>u t0 h ps. t = NewTable u t0 h ps \<and> unicode_ok u
     \<and> (\<forall>pp\<in>set ps. 0 \<le> MaxWindow pp \<and> MaxWindow pp \<le> 7))"

lemma l2_init_inv: "l2_init t \<Longrightarrow> table_inv t"
  by (auto simp: l2_init_def table_inv_def NewTable_def params_ok_def conns_ok_def cells_ok_def live_def
    idle_timers_def newConn_def)

interpretation l2_system: invariant_system l2_init l2_step table_inv
  by unfold_locales (blast intro: l2_init_inv l2_step_inv)+

end
