(* ===== verification/L2_Delivery.thy ===== *)
theory L2_Delivery
  imports L2_Invariant
begin

text \<open>
  What the receiving side delivers.  An abstract receiver works on the sender's stream of
  unbounded indices; the handlers of the program, which see sequence numbers modulo 8 or 128,
  refine it as long as every frame that arrives is within the distance the modulo can tell apart.
\<close>

section \<open>Sequence numbers of a stream\<close>

definition num :: "u8 \<Rightarrow> nat \<Rightarrow> u8" where
  "num m i = word_of_nat (i mod unat m)"

context seq_space
begin

lemma int_M: "int (unat m) = uint m"
  by simp

lemma uint_num: "uint (num m i) = int i mod uint m"
proof -
  have "i mod unat m < 256" using modulus by auto
  then have "uint (num m i) = int (i mod unat m)"
    by (simp add: num_def uint_word_of_int_eq take_bit_int_eq_self unsigned_of_nat take_bit_nat_eq_self)
  then show ?thesis by (simp add: of_nat_mod)
qed

lemma num_succ: "(num m i + 1) mod m = num m (Suc i)"
  by (simp add: word_uint_eq_iff uint_add uint_num mod_simps add.commute)

lemma num_diff: "uint ((num m i - num m n) mod m) = (int i - int n) mod uint m"
  by (simp add: uint_diff uint_num mod_simps)

lemma num_eq: "i < n + unat m \<Longrightarrow> n < i + unat m \<Longrightarrow> num m i = num m n \<longleftrightarrow> i = n"
proof -
  assume "i < n + unat m" "n < i + unat m"
  then have lt: "\<bar>int i - int n\<bar> < uint m" using int_M by linarith
  have "num m i = num m n \<longleftrightarrow> int i mod uint m = int n mod uint m"
    by (simp add: word_uint_eq_iff uint_num)
  also have "\<dots> \<longleftrightarrow> uint m dvd int i - int n" by (simp add: mod_eq_dvd_iff)
  also have "\<dots> \<longleftrightarrow> i = n" using lt zdvd_not_zless [of "\<bar>int i - int n\<bar>" "uint m"] by auto
  finally show ?thesis .
qed

text \<open>The distance from \<open>n\<close> of a newer and of an older index.\<close>

lemma num_newer: "n \<le> i \<Longrightarrow> i < n + unat m \<Longrightarrow> uint ((num m i - num m n) mod m) = int (i - n)"
  unfolding num_diff using int_M by (subst mod_pos_pos_trivial) linarith+

lemma num_older: "i < n \<Longrightarrow> n < i + unat m \<Longrightarrow> uint ((num m i - num m n) mod m) = uint m - int (n - i)"
proof -
  assume a: "i < n" "n < i + unat m"
  have "(int i - int n) mod uint m = (int i - int n + uint m) mod uint m" by simp
  also have "\<dots> = int i - int n + uint m" using a int_M by (intro mod_pos_pos_trivial) linarith+
  finally show ?thesis using a unfolding num_diff by linarith
qed

end

section \<open>The abstract receivers\<close>

text \<open>Go-back-N: the next index is delivered, everything else is dropped.\<close>

fun gbn_rx :: "nat \<Rightarrow> nat list \<Rightarrow> nat" where
  "gbn_rx n [] = n"
| "gbn_rx n (i # is) = gbn_rx (if i = n then Suc n else n) is"

fun gbn_range :: "nat \<Rightarrow> nat \<Rightarrow> nat list \<Rightarrow> bool" where
  "gbn_range m n [] \<longleftrightarrow> True"
| "gbn_range m n (i # is) \<longleftrightarrow> i < n + m \<and> n < i + m \<and> gbn_range m (if i = n then Suc n else n) is"

text \<open>Selective reject: indices up to \<open>w\<close> ahead are kept until the gap before them is filled.\<close>

function adv :: "nat \<Rightarrow> nat list \<Rightarrow> nat \<times> nat list" where
  "adv n B = (if n \<in> set B then adv (Suc n) (removeAll n B) else (n, B))"
  by pat_completeness auto
termination
proof (relation "measure (\<lambda>(n, B). length B)")
  fix n :: nat and B
  assume "n \<in> set B"
  then show "((Suc n, removeAll n B), n, B) \<in> measure (\<lambda>(n, B). length B)"
    by (simp add: length_removeAll_less)
qed simp

declare adv.simps [simp del]

definition srej_step :: "nat \<Rightarrow> nat \<times> nat list \<Rightarrow> nat \<Rightarrow> nat \<times> nat list" where
  "srej_step w s i =
     (case s of (n, B) \<Rightarrow>
        if i = n then adv (Suc n) B else if n < i \<and> i \<le> n + w then (n, i # B) else (n, B))"

fun srej_rx :: "nat \<Rightarrow> nat \<times> nat list \<Rightarrow> nat list \<Rightarrow> nat \<times> nat list" where
  "srej_rx w s [] = s"
| "srej_rx w s (i # is) = srej_rx w (srej_step w s i) is"

fun srej_range :: "nat \<Rightarrow> nat \<Rightarrow> nat \<times> nat list \<Rightarrow> nat list \<Rightarrow> bool" where
  "srej_range m w s [] \<longleftrightarrow> True"
| "srej_range m w s (i # is) \<longleftrightarrow>
     i < fst s + m \<and> fst s + w < i + m \<and> srej_range m w (srej_step w s i) is"

section \<open>The data handed to a client\<close>

text \<open>The stream, and a frame that carries its \<open>i\<close>th element.\<close>

definition carries :: "u8 \<Rightarrow> (nat \<Rightarrow> u8 \<times> bytes) \<Rightarrow> frame \<Rightarrow> nat \<Rightarrow> bool" where
  "carries m stream f i \<longleftrightarrow> NS f = num m i \<and> (PID f, Info f) = stream i"

fun hdata :: "ref \<Rightarrow> hookCall list \<Rightarrow> (u8 \<times> bytes) list" where
  "hdata r [] = []"
| "hdata r (HData q pid info # hs) = (if q = r then [(pid, info)] else []) @ hdata r hs"
| "hdata r (_ # hs) = hdata r hs"

lemma hdata_append [simp]: "hdata r (hs @ gs) = hdata r hs @ hdata r gs"
  by (induction r hs rule: hdata.induct) simp_all

abbreviation delivered :: "ref \<Rightarrow> table \<Rightarrow> (u8 \<times> bytes) list" where
  "delivered r t \<equiv> hdata r (out t)"

lemma delivered_sendFrame [simp]: "delivered r (sendFrame t p f) = delivered r t"
  by (simp add: sendFrame_def Let_def)

lemma delivered_sendRRResponse [simp]: "delivered r (sendRRResponse t q s d) = delivered r t"
  by (simp add: sendRRResponse_def Let_def)

lemma delivered_deliverData [simp]:
  "hData (thooks t) \<Longrightarrow> delivered r (deliverData t q pid i) = delivered r t @ (if q = r then [(pid, i)] else [])"
  by (simp add: deliverData_def)

lemma delivered_ackOrDelay [simp]: "delivered r (ackOrDelay t q pf s d) = delivered r t"
  by (simp add: ackOrDelay_def)

lemma delivered_drainStep [simp]: "delivered r (drainStep t q) = delivered r t"
  by (simp add: drainStep_def Let_def split: list.split prod.split)

lemma delivered_drainLoop [simp]: "delivered r (drainLoop t q) = delivered r t"
  using drainLoop_invariant [of "\<lambda>u. delivered r u = delivered r t" t q] by simp

lemma delivered_drainOutbound [simp]: "delivered r (drainOutbound t q) = delivered r t"
  by (simp add: drainOutbound_def)

lemma delivered_ackFrames [simp]: "delivered r (ackFrames t q nr) = delivered r t"
  by (simp add: ackFrames_core ackCore_def Let_def)

lemma delivered_srejHoles [simp]: "delivered r (srejHoles is t q s d l) = delivered r t"
  by (induction "is" t q s d l rule: srejHoles.induct) (simp_all add: Let_def)


section \<open>Go-back-N\<close>

text \<open>What an I-frame leaves alone: everything that decides how the next one is received.\<close>

definition link_fixed :: "ref \<Rightarrow> table \<Rightarrow> table \<Rightarrow> bool" where
  "link_fixed r t t' \<longleftrightarrow> same_conf t t' \<and> conns t' = conns t
     \<and> State (cells t' r) = State (cells t r) \<and> cModulo (cells t' r) = cModulo (cells t r)
     \<and> srejEnabled (cells t' r) = srejEnabled (cells t r) \<and> cPort (cells t' r) = cPort (cells t r)"

lemma link_fixed_refl [simp]: "link_fixed r t t"
  by (simp add: link_fixed_def same_conf_def)

lemma link_fixed_trans: "link_fixed r t u \<Longrightarrow> link_fixed r u v \<Longrightarrow> link_fixed r t v"
  by (auto simp: link_fixed_def same_conf_def)

lemma link_fixed_drainStep: "link_fixed r t (drainStep t r)"
  by (auto simp: link_fixed_def same_conf_def drainStep_def Let_def split: list.split prod.split)

lemma link_fixed_drainOutbound: "link_fixed r t (drainOutbound t r)"
  using drainLoop_invariant [of "link_fixed r t" t r] link_fixed_trans [OF _ link_fixed_drainStep]
  by (auto simp: drainOutbound_def link_fixed_def same_conf_def)

lemma link_fixed_ackCore: "link_fixed r t (ackCore t r nr d)"
  using cells_sampleRTT [of "unat d" "upd t r (\<lambda>c. c\<lparr>t1Polls := 0\<rparr>)" r "lastAcked (cell t r)"]
  by (auto simp: ackCore_def link_fixed_def same_conf_def)

lemma link_fixed_timers:
  "link_fixed r t u \<Longrightarrow> link_fixed r t (startT1 u r)" "link_fixed r t u \<Longrightarrow> link_fixed r t (cancelT1 u r)"
  "link_fixed r t u \<Longrightarrow> link_fixed r t (cancelT2 u r)" "link_fixed r t u \<Longrightarrow> link_fixed r t (scheduleT2 u r a b)"
  "link_fixed r t u \<Longrightarrow> link_fixed r t (sendRRResponse u r a b)" "link_fixed r t u \<Longrightarrow> link_fixed r t (sendFrame u p f)"
  by (simp_all add: link_fixed_def same_conf_def)

lemma link_fixed_ackFrames: "link_fixed r t (ackFrames t r nr)"
  unfolding ackFrames_core Let_def
  using link_fixed_trans [OF link_fixed_timers(1) [OF link_fixed_ackCore] link_fixed_drainOutbound]
    link_fixed_trans [OF link_fixed_timers(2) [OF link_fixed_ackCore] link_fixed_drainOutbound]
  by simp

lemma ackOrDelay_fields:
  "recvSeq (cells (ackOrDelay t r pf s d) r) = recvSeq (cells t r)"
  "rxBuf (cells (ackOrDelay t r pf s d) r) = rxBuf (cells t r)"
  "link_fixed r t (ackOrDelay t r pf s d)" "thooks (ackOrDelay t r pf s d) = thooks t"
  by (simp_all add: ackOrDelay_def link_fixed_timers)

lemma recvREJ_receives:
  assumes "hData (thooks t)"
  shows "recvSeq (cells (recvREJ t r port pp f src dst) r) =
      (if NS f = recvSeq (cells t r) then (NS f + 1) mod cModulo (cells t r) else recvSeq (cells t r))"
    "delivered r (recvREJ t r port pp f src dst) =
      delivered r t @ (if NS f = recvSeq (cells t r) then [(PID f, Info f)] else [])"
    "link_fixed r t (recvREJ t r port pp f src dst)"
proof -
  show "recvSeq (cells (recvREJ t r port pp f src dst) r) =
      (if NS f = recvSeq (cells t r) then (NS f + 1) mod cModulo (cells t r) else recvSeq (cells t r))"
    by (simp add: recvREJ_def Let_def ackOrDelay_fields)
  show "delivered r (recvREJ t r port pp f src dst) =
      delivered r t @ (if NS f = recvSeq (cells t r) then [(PID f, Info f)] else [])"
    using assms by (simp add: recvREJ_def Let_def ackOrDelay_fields)
  have fx: "link_fixed r t (ackOrDelay (upd t r (\<lambda>c. c\<lparr>rejSent := False, recvSeq := (x + 1) mod cModulo c\<rparr>)) r pf src dst)"
    for x pf by (rule link_fixed_trans [OF _ ackOrDelay_fields(3)]) (simp add: link_fixed_def same_conf_def)
  have d: "link_fixed r t (deliverData v r p i)" if "link_fixed r t v" for v p i
    using that by (simp add: link_fixed_def same_conf_def)
  have j: "link_fixed r t (upd (sendFrame (cancelT2 t r) p g) r (\<lambda>c. c\<lparr>rejSent := True\<rparr>))" for p g
    by (simp add: link_fixed_def same_conf_def)
  show "link_fixed r t (recvREJ t r port pp f src dst)"
    by (simp add: recvREJ_def Let_def d [OF fx] j ackOrDelay_fields(3) link_fixed_timers)
qed

text \<open>A link on which data flows in.\<close>

definition receiving :: "table \<Rightarrow> int \<Rightarrow> string \<Rightarrow> string \<Rightarrow> ref \<Rightarrow> bool" where
  "receiving t port src dst r \<longleftrightarrow> Get t port dst src = Some r \<and> State (cell t r) = Connected
     \<and> hData (thooks t) \<and> (cModulo (cell t r) = 8 \<or> cModulo (cell t r) = 128)"

lemma receiving_fixed: "receiving t port src dst r \<Longrightarrow> link_fixed r t t' \<Longrightarrow> receiving t' port src dst r"
  by (auto simp: receiving_def link_fixed_def same_conf_def Get_def)

lemma dispatchI_receiving:
  assumes "receiving t port src dst r"
  shows "dispatchI t port f src dst =
    (let u = ackFrames t r (NR f); pp = portParams u port
     in if srejEnabled (cell t r) then recvSREJ u r pp f src dst else recvREJ u r port pp f src dst)"
  using assms link_fixed_ackFrames [of r t "NR f"]
  by (simp add: receiving_def dispatchI_def promote_def Let_def link_fixed_def)

lemma gbn_step:
  assumes rx: "receiving t port src dst r" "\<not> srejEnabled (cell t r)"
    and n: "recvSeq (cell t r) = num (cModulo (cell t r)) n"
    and f: "carries (cModulo (cell t r)) stream f i" "i < n + unat (cModulo (cell t r))" "n < i + unat (cModulo (cell t r))"
  defines "t' \<equiv> dispatchI t port f src dst"
  shows "link_fixed r t t' \<and> recvSeq (cell t' r) = num (cModulo (cell t r)) (if i = n then Suc n else n)
    \<and> delivered r t' = delivered r t @ (if i = n then [stream n] else [])"
proof -
  let ?m = "cModulo (cell t r)" and ?u = "ackFrames t r (NR f)"
  have sp: "seq_space ?m" using rx(1) by (auto simp: receiving_def seq_space_def)
  have u: "recvSeq (cell ?u r) = num ?m n" "cModulo (cell ?u r) = ?m" "hData (thooks ?u)" "link_fixed r t ?u"
    using same_link_ackFrames [of r t "NR f"] link_fixed_ackFrames [of r t "NR f"] n rx(1)
    by (auto simp: same_link_def link_fixed_def same_conf_def receiving_def)
  have eq: "NS f = num ?m n \<longleftrightarrow> i = n" using seq_space.num_eq [OF sp f(2,3)] f(1) by (simp add: carries_def)
  have t': "t' = recvREJ ?u r port (portParams ?u port) f src dst"
    unfolding t'_def dispatchI_receiving [OF rx(1)] by (simp add: rx(2) Let_def)
  show ?thesis
    unfolding t' using recvREJ_receives [OF u(3)] u f(1) eq seq_space.num_succ [OF sp] link_fixed_trans [OF u(4)]
    by (auto simp: carries_def)
qed

text \<open>
  The receiver refines the abstract one: it delivers the stream in order, each element once.
\<close>

lemma gbn_refines:
  assumes "receiving t port src dst r" "\<not> srejEnabled (cell t r)" "m = cModulo (cell t r)"
    and "recvSeq (cell t r) = num m n" "list_all2 (carries m stream) fs is" "gbn_range (unat m) n is"
  defines "t' \<equiv> foldl (\<lambda>t f. dispatchI t port f src dst) t fs"
  shows "delivered r t' = delivered r t @ map stream [n..<gbn_rx n is] \<and> recvSeq (cell t' r) = num m (gbn_rx n is)
    \<and> n \<le> gbn_rx n is"
  using assms(5,1-4,6) unfolding t'_def
proof (induction fs "is" arbitrary: t n rule: list_all2_induct)
  case (Cons f fs i "is")
  let ?t = "dispatchI t port f src dst" and ?n = "if i = n then Suc n else n"
  have step: "link_fixed r t ?t \<and> recvSeq (cell ?t r) = num m ?n \<and> delivered r ?t = delivered r t @ (if i = n then [stream n] else [])"
    using gbn_step [of t port src dst r n stream f i] Cons by simp
  then have "delivered r (foldl (\<lambda>t f. dispatchI t port f src dst) ?t fs) = delivered r ?t @ map stream [?n..<gbn_rx ?n is]
      \<and> recvSeq (cell (foldl (\<lambda>t f. dispatchI t port f src dst) ?t fs) r) = num m (gbn_rx ?n is) \<and> ?n \<le> gbn_rx ?n is"
    using Cons.prems by (intro Cons.IH) (auto simp: link_fixed_def intro: receiving_fixed)
  with step show ?case by (auto simp: upt_conv_Cons)
qed simp

section \<open>Selective reject\<close>

definition rx_rel :: "(nat \<Rightarrow> u8 \<times> bytes) \<Rightarrow> conn \<Rightarrow> nat \<Rightarrow> nat list \<Rightarrow> bool" where
  "rx_rel stream c n B \<longleftrightarrow> recvSeq c = num (cModulo c) n
     \<and> (\<forall>j\<in>set B. n \<le> j \<and> j < n + unat (cModulo c)
          \<and> map_of (rxBuf c) (num (cModulo c) j) = Some \<lparr>rePid = fst (stream j), reInfo = snd (stream j)\<rparr>)
     \<and> (\<forall>k. map_of (rxBuf c) k \<noteq> None \<longrightarrow> k \<in> num (cModulo c) ` set B)"

lemma rx_rel_cong:
  "recvSeq c' = recvSeq c \<Longrightarrow> rxBuf c' = rxBuf c \<Longrightarrow> cModulo c' = cModulo c \<Longrightarrow> rx_rel stream c' n B = rx_rel stream c n B"
  by (simp add: rx_rel_def)

lemma rx_rel_key:
  assumes "rx_rel stream c n B" "map_of (rxBuf c) k \<noteq> None"
  obtains j where "j \<in> set B" "k = num (cModulo c) j"
  using assms unfolding rx_rel_def by (elim conjE) (drule spec [of _ k], auto)

lemma rx_rel_bounds: "rx_rel stream c n B \<Longrightarrow> j \<in> set B \<Longrightarrow> n \<le> j \<and> j < n + unat (cModulo c)"
  by (simp add: rx_rel_def)

lemma rx_rel_next:
  assumes "rx_rel stream c n B" "cModulo c = 8 \<or> cModulo c = 128"
  shows "map_of (rxBuf c) (num (cModulo c) n) =
    (if n \<in> set B then Some \<lparr>rePid = fst (stream n), reInfo = snd (stream n)\<rparr> else None)"
proof -
  have sp: "seq_space (cModulo c)" using assms(2) by (simp add: seq_space_def)
  have pos: "0 < unat (cModulo c)" using assms(2) by auto
  have "n \<in> set B" if hit: "map_of (rxBuf c) (num (cModulo c) n) \<noteq> None"
  proof -
    obtain j where j: "j \<in> set B" "num (cModulo c) n = num (cModulo c) j"
      using assms(1) hit by (rule rx_rel_key)
    then have "n \<le> j" "j < n + unat (cModulo c)" using rx_rel_bounds [OF assms(1)] by simp_all
    then have "j = n" using seq_space.num_eq [OF sp, of j n] j(2) pos by simp
    with j show ?thesis by simp
  qed
  with assms(1) show ?thesis unfolding rx_rel_def by auto
qed

lemma rx_rel_delete:
  assumes rel: "rx_rel stream c n B" and m: "cModulo c = 8 \<or> cModulo c = 128"
  shows "rx_rel stream (c\<lparr>rxBuf := AList.delete (recvSeq c) (rxBuf c), srejSent := ss,
           recvSeq := (recvSeq c + 1) mod cModulo c\<rparr>) (Suc n) (removeAll n B)"
proof -
  have sp: "seq_space (cModulo c)" using m by (simp add: seq_space_def)
  have "num (cModulo c) j \<noteq> num (cModulo c) n" if "j \<in> set B" "j \<noteq> n" for j
    using that rel seq_space.num_eq [OF sp, of j n] m by (auto simp: rx_rel_def)
  with rel show ?thesis
    unfolding rx_rel_def by (auto simp: seq_space.num_succ [OF sp] AList.delete_conv' less_eq_Suc_le)
qed

lemma flushRx_refines:
  assumes "rx_rel stream (cell t r) n B" "cModulo (cell t r) = 8 \<or> cModulo (cell t r) = 128" "hData (thooks t)"
    and "adv n B = (n', B')"
  shows "rx_rel stream (cell (flushRx t r) r) n' B' \<and> n' \<notin> set B' \<and> n \<le> n' \<and> link_fixed r t (flushRx t r)
    \<and> delivered r (flushRx t r) = delivered r t @ map stream [n..<n']"
  using assms
proof (induction t r arbitrary: n B rule: flushRx.induct)
  case (1 t r)
  note nx = rx_rel_next [OF "1.prems"(1,2)]
  have seq: "recvSeq (cell t r) = num (cModulo (cell t r)) n" using "1.prems"(1) by (simp add: rx_rel_def)
  show ?case
  proof (cases "n \<in> set B")
    case False
    with nx seq have "flushRx t r = t" by (subst flushRx.simps) simp
    moreover have "n' = n" "B' = B" using False "1.prems"(4) by (simp_all add: adv.simps [of n])
    ultimately show ?thesis using False "1.prems"(1) by simp
  next
    case True
    let ?e = "\<lparr>rePid = fst (stream n), reInfo = snd (stream n)\<rparr>" and ?u = "flushStep t r \<lparr>rePid = fst (stream n), reInfo = snd (stream n)\<rparr>"
    have e: "map_of (rxBuf (cell t r)) (recvSeq (cell t r)) = Some ?e" using True nx seq by simp
    have fl: "flushRx t r = flushRx ?u r" using e by (subst flushRx.simps) simp
    have th: "thooks ?u = thooks t" and lf: "link_fixed r t ?u"
      by (simp_all add: flushStep_def Let_def link_fixed_def same_conf_def)
    have dl: "delivered r ?u = delivered r t @ [stream n]" using "1.prems"(3) by (simp add: flushStep_def Let_def)
    have ad: "adv (Suc n) (removeAll n B) = (n', B')" using True "1.prems"(4) by (simp add: adv.simps [of n])
    have "rx_rel stream (cell ?u r) (Suc n) (removeAll n B)"
      using rx_rel_delete [OF "1.prems"(1,2)] by simp
    from "1.IH" [OF e this _ _ ad] "1.prems"(2,3) th
    have IH: "rx_rel stream (cell (flushRx ?u r) r) n' B' \<and> n' \<notin> set B' \<and> Suc n \<le> n' \<and> link_fixed r ?u (flushRx ?u r)
      \<and> delivered r (flushRx ?u r) = delivered r ?u @ map stream [Suc n..<n']" by simp
    then show ?thesis unfolding fl using dl link_fixed_trans [OF lf] by (auto simp: upt_conv_Cons)
  qed
qed

lemma srejHoles_core:
  "recvSeq (cells (srejHoles is t r s d l) r) = recvSeq (cells t r)
   \<and> rxBuf (cells (srejHoles is t r s d l) r) = rxBuf (cells t r) \<and> link_fixed r t (srejHoles is t r s d l)"
proof (induction "is" arbitrary: t)
  case (Cons i "is")
  have "link_fixed r t (sendFrame (upd t r (\<lambda>c. c\<lparr>srejSent := ns # srejSent c\<rparr>)) p f)" for ns p f
    by (simp add: link_fixed_def same_conf_def)
  with Cons link_fixed_trans show ?case by (simp add: Let_def) blast
qed simp

lemmas srejHoles_fields = srejHoles_core [THEN conjunct1] srejHoles_core [THEN conjunct2, THEN conjunct1]
  srejHoles_core [THEN conjunct2, THEN conjunct2]

lemma rx_rel_store:
  assumes rel: "rx_rel stream c n B" and m: "cModulo c = 8 \<or> cModulo c = 128"
    and i: "n < i" "i < n + unat (cModulo c)"
  shows "rx_rel stream (c\<lparr>rxBuf := AList.update (num (cModulo c) i) \<lparr>rePid = fst (stream i), reInfo = snd (stream i)\<rparr> (rxBuf c),
           srejSent := ss\<rparr>) n (i # B)"
proof -
  have sp: "seq_space (cModulo c)" using m by (simp add: seq_space_def)
  have "num (cModulo c) j \<noteq> num (cModulo c) i" if "j \<in> set B" "j \<noteq> i" for j
    using that rel i seq_space.num_eq [OF sp, of j i] by (auto simp: rx_rel_def)
  with rel i show ?thesis unfolding rx_rel_def by (auto simp: AList.update_conv')
qed

text \<open>One frame at the selective-reject receiver.\<close>

lemma recvSREJ_refines:
  fixes src dst :: string
  assumes rel: "rx_rel stream (cell t r) n B" "n \<notin> set B" and m: "cModulo (cell t r) = 8 \<or> cModulo (cell t r) = 128"
    and h: "hData (thooks t)" and f: "carries (cModulo (cell t r)) stream f i"
    and i: "i < n + unat (cModulo (cell t r))" "n + w < i + unat (cModulo (cell t r))" "MaxWindow pp = int w"
    and st: "srej_step w (n, B) i = (n', B')"
  defines "t' \<equiv> recvSREJ t r pp f src dst"
  shows "rx_rel stream (cell t' r) n' B' \<and> n' \<notin> set B' \<and> n \<le> n' \<and> link_fixed r t t'
    \<and> delivered r t' = delivered r t @ map stream [n..<n']"
proof -
  let ?m = "cModulo (cell t r)"
  let ?gap = "(NS f - recvSeq (cell t r)) mod ?m"
  have sp: "seq_space ?m" using m by (simp add: seq_space_def)
  have ns: "NS f = num ?m i" and seq: "recvSeq (cell t r) = num ?m n" and body: "PID f = fst (stream i)" "Info f = snd (stream i)"
    using f rel(1) by (auto simp: carries_def rx_rel_def prod_eq_iff)
  note ignore = rx_rel_cong [OF ackOrDelay_fields(1) ackOrDelay_fields(2)] ackOrDelay_fields(3)
  consider (same) "i = n" | (ahead) "n < i" "i \<le> n + w" | (far) "n + w < i" | (old) "i < n" by linarith
  then show ?thesis
  proof cases
    case same
    let ?u = "upd (deliverData (upd t r (\<lambda>c. c\<lparr>srejSent := removeAll (NS f) (srejSent c)\<rparr>)) r (PID f) (Info f)) r
      (\<lambda>c. c\<lparr>recvSeq := (NS f + 1) mod cModulo c\<rparr>)"
    have gap: "?gap = 0" using same ns seq by simp
    have t': "t' = ackOrDelay (flushRx ?u r) r (PF f) src dst" using gap by (simp add: t'_def recvSREJ_def Let_def)
    have past: "\<forall>j\<in>set B. Suc n \<le> j"
      using rx_rel_bounds [OF rel(1)] rel(2) by (metis Suc_leI le_neq_implies_less)
    have "rx_rel stream (cell ?u r) (Suc n) B"
      using rel(1) past same ns seq_space.num_succ [OF sp] by (simp add: rx_rel_def less_SucI)
    moreover have "adv (Suc n) B = (n', B')" using st same by (simp add: srej_step_def)
    ultimately have fl: "rx_rel stream (cell (flushRx ?u r) r) n' B' \<and> n' \<notin> set B' \<and> Suc n \<le> n' \<and> link_fixed r ?u (flushRx ?u r)
        \<and> delivered r (flushRx ?u r) = delivered r ?u @ map stream [Suc n..<n']"
      using m h by (intro flushRx_refines) simp_all
    have lf: "link_fixed r t ?u" by (simp add: link_fixed_def same_conf_def)
    have "cModulo (cell t' r) = cModulo (cell (flushRx ?u r) r)" using ignore(2) by (simp add: t' link_fixed_def)
    with fl have "rx_rel stream (cell t' r) n' B'" using rx_rel_cong [OF ackOrDelay_fields(1) ackOrDelay_fields(2)] by (simp add: t')
    moreover have "delivered r t' = delivered r t @ map stream [n..<n']"
      using fl h body same by (simp add: t' upt_conv_Cons)
    ultimately show ?thesis using fl link_fixed_trans [OF link_fixed_trans [OF lf] ackOrDelay_fields(3)] by (simp add: t')
  next
    case ahead
    let ?u = "upd t r (\<lambda>c. c\<lparr>rxBuf := AList.update (NS f) \<lparr>rePid = PID f, reInfo = Info f\<rparr> (rxBuf c),
      srejSent := removeAll (NS f) (srejSent c)\<rparr>)"
    have g: "uint ?gap = int (i - n)" using seq_space.num_newer [OF sp, of n i] ahead i(1) ns seq by simp
    then have gap: "0 < ?gap" "\<not> uint ?gap > MaxWindow pp" using ahead i(3) by (simp_all add: word_less_alt)
    have t': "t' = sendSREJHoles (cancelT2 ?u r) r src dst (NS f)" using gap by (simp add: t'_def recvSREJ_def Let_def)
    have "rx_rel stream (cell ?u r) n (i # B)" using rx_rel_store [OF rel(1) m ahead(1) i(1)] ns body by simp
    moreover have "n' = n" "B' = i # B" using st ahead by (auto simp: srej_step_def)
    moreover have lf: "link_fixed r t t'"
      unfolding t' sendSREJHoles_def by (rule link_fixed_trans [OF _ srejHoles_fields(3)]) (simp add: link_fixed_def same_conf_def)
    ultimately show ?thesis
      using rel(2) ahead srejHoles_fields(1,2) [of _ "cancelT2 ?u r" r src dst "NS f"] rx_rel_cong [of "cell t' r" "cell ?u r" stream n "i # B"]
      by (simp add: t' sendSREJHoles_def link_fixed_def)
  next
    case far
    then have g: "uint ?gap = int (i - n)" using seq_space.num_newer [OF sp, of n i] i(1) ns seq by simp
    then have t': "t' = ackOrDelay t r (PF f) src dst" using far i(3) by (simp add: t'_def recvSREJ_def Let_def word_less_alt)
    have "n' = n" "B' = B" using st far by (auto simp: srej_step_def)
    then show ?thesis using rel ackOrDelay_fields rx_rel_cong [of "cell t' r" "cell t r" stream n B] by (simp add: t' link_fixed_def)
  next
    case old
    then have g: "uint ?gap = uint ?m - int (n - i)" using seq_space.num_older [OF sp, of i n] i(2) ns seq by simp
    then have "uint ?gap > int w" using i(2) old seq_space.int_M [OF sp] by linarith
    then have t': "t' = ackOrDelay t r (PF f) src dst" using i(3) by (simp add: t'_def recvSREJ_def Let_def word_less_alt)
    have "n' = n" "B' = B" using st old by (auto simp: srej_step_def)
    then show ?thesis using rel ackOrDelay_fields rx_rel_cong [of "cell t' r" "cell t r" stream n B] by (simp add: t' link_fixed_def)
  qed
qed

text \<open>
  The selective-reject receiver refines the abstract one: frames may arrive in any order within the
  window, and the stream is still delivered in order, each element once.
\<close>

lemma srej_frame:
  assumes rx: "receiving t port src dst r" "srejEnabled (cell t r)" "MaxWindow (portParams t port) = int w"
    and rel: "rx_rel stream (cell t r) n B" "n \<notin> set B" and f: "carries (cModulo (cell t r)) stream f i"
    and i: "i < n + unat (cModulo (cell t r))" "n + w < i + unat (cModulo (cell t r))"
    and st: "srej_step w (n, B) i = (n', B')"
  defines "t' \<equiv> dispatchI t port f src dst"
  shows "rx_rel stream (cell t' r) n' B' \<and> n' \<notin> set B' \<and> n \<le> n' \<and> link_fixed r t t'
    \<and> delivered r t' = delivered r t @ map stream [n..<n']"
proof -
  let ?u = "ackFrames t r (NR f)"
  have lf: "link_fixed r t ?u" by (rule link_fixed_ackFrames)
  have pp: "portParams ?u port = portParams t port"
    using lf portParams_cong [of ?u t] by (simp add: link_fixed_def same_conf_def)
  have d: "t' = recvSREJ ?u r (portParams t port) f src dst"
    using rx(2) pp unfolding t'_def dispatchI_receiving [OF rx(1)] by (simp add: Let_def)
  have u: "rx_rel stream (cell ?u r) n B"
    using rel(1) same_link_ackFrames [of r t "NR f"] rx_rel_cong [of "cell ?u r" "cell t r"] by (simp add: same_link_def)
  have "rx_rel stream (cell t' r) n' B' \<and> n' \<notin> set B' \<and> n \<le> n' \<and> link_fixed r ?u t'
      \<and> delivered r t' = delivered r ?u @ map stream [n..<n']"
    unfolding d using rx rel(2) f i st lf
    by (intro recvSREJ_refines [OF u]) (auto simp: link_fixed_def same_conf_def receiving_def)
  then show ?thesis using link_fixed_trans [OF lf] by simp
qed

lemma srej_refines:
  assumes "receiving t port src dst r" "srejEnabled (cell t r)" "m = cModulo (cell t r)"
    and "MaxWindow (portParams t port) = int w" "rx_rel stream (cell t r) n B" "n \<notin> set B"
    and "list_all2 (carries m stream) fs is" "srej_range (unat m) w (n, B) is" "srej_rx w (n, B) is = (n', B')"
  defines "t' \<equiv> foldl (\<lambda>t f. dispatchI t port f src dst) t fs"
  shows "delivered r t' = delivered r t @ map stream [n..<n'] \<and> rx_rel stream (cell t' r) n' B' \<and> n \<le> n'"
  using assms(7,1-6,8,9) unfolding t'_def
proof (induction fs "is" arbitrary: t n B rule: list_all2_induct)
  case (Cons f fs i "is")
  let ?t = "dispatchI t port f src dst"
  obtain n1 B1 where st: "srej_step w (n, B) i = (n1, B1)" by fastforce
  note step = srej_frame [OF Cons.prems(1,2,4,5,6) _ _ _ st, of f]
  have step: "rx_rel stream (cell ?t r) n1 B1 \<and> n1 \<notin> set B1 \<and> n \<le> n1 \<and> link_fixed r t ?t
      \<and> delivered r ?t = delivered r t @ map stream [n..<n1]"
    using Cons.prems Cons.hyps by (intro step) simp_all
  have "delivered r (foldl (\<lambda>t f. dispatchI t port f src dst) ?t fs) = delivered r ?t @ map stream [n1..<n']
      \<and> rx_rel stream (cell (foldl (\<lambda>t f. dispatchI t port f src dst) ?t fs) r) n' B' \<and> n1 \<le> n'"
    using Cons.prems step st portParams_cong [of ?t t]
    by (intro Cons.IH) (auto simp: link_fixed_def same_conf_def intro: receiving_fixed)
  moreover have "[n..<n'] = [n..<n1] @ [n1..<n']" if "n1 \<le> n'"
    using that step by (metis le_Suc_ex upt_add_eq_append)
  ultimately show ?case using step by auto
qed simp

end
