(* ===== verification/L2_Sending.thy ===== *)
theory L2_Sending
  imports L2_Delivery
begin

text \<open>
  What the sending side puts on the air: queued client data is neither lost nor reordered on its
  way into I-frames, retransmission repeats the frames it stored, and an expiry of T1 either uses
  one retry or gives the link up.
\<close>

section \<open>From the queue to the air\<close>

text \<open>Every byte with the protocol identifier it travels under.\<close>

definition tag :: "u8 \<Rightarrow> bytes \<Rightarrow> (u8 \<times> byte) list" where
  "tag pid bs = map (Pair pid) bs"

definition queued :: "outEntry list \<Rightarrow> (u8 \<times> byte) list" where
  "queued q = concat (map (\<lambda>e. tag (oePid e) (oeData e)) q)"

definition carried :: "frame list \<Rightarrow> (u8 \<times> byte) list" where
  "carried fs = concat (map (\<lambda>f. tag (PID f) (Info f)) fs)"

lemma tag_simps [simp]: "tag p [] = []" "tag p (a @ b) = tag p a @ tag p b"
  by (simp_all add: tag_def)

lemma queued_simps [simp]: "queued [] = []" "queued (e # q) = tag (oePid e) (oeData e) @ queued q"
    "queued (a @ b) = queued a @ queued b"
  by (simp_all add: queued_def)

lemma carried_simps [simp]: "carried [] = []" "carried (f # fs) = tag (PID f) (Info f) @ carried fs"
    "carried (a @ b) = carried a @ carried b"
  by (simp_all add: carried_def)

text \<open>The frames' N(S) run from \<open>s\<close> to just before \<open>e\<close>.\<close>

fun numbered :: "u8 \<Rightarrow> u8 \<Rightarrow> frame list \<Rightarrow> u8 \<Rightarrow> bool" where
  "numbered m s [] e \<longleftrightarrow> s = e"
| "numbered m s (f # fs) e \<longleftrightarrow> NS f = s \<and> numbered m ((s + 1) mod m) fs e"

lemma coalesce_queued:
  "coalesce pid chunk q = (chunk', q') \<Longrightarrow> tag pid chunk' @ queued q' = tag pid chunk @ queued q"
  by (induction pid chunk q rule: coalesce.induct) (auto split: if_splits)

text \<open>The frames that \<open>t'\<close> has sent since \<open>t\<close>.\<close>

definition sends :: "table \<Rightarrow> table \<Rightarrow> int \<Rightarrow> frame list \<Rightarrow> bool" where
  "sends t t' p fs \<longleftrightarrow> out t' = out t @ map (SendAX25 p) fs"

lemma sends_trans: "sends t u p fs \<Longrightarrow> sends u v p gs \<Longrightarrow> sends t v p (fs @ gs)"
  by (simp add: sends_def)

lemma out_sendFrame:
  "hSendAX25 (thooks t) \<Longrightarrow> Modulo f \<noteq> 0 \<Longrightarrow> out (sendFrame t p f) = out t @ [SendAX25 p f]"
  by (simp add: sendFrame_def)

definition drained :: "ref \<Rightarrow> table \<Rightarrow> frame list \<Rightarrow> table \<Rightarrow> bool" where
  "drained r t fs t' \<longleftrightarrow> sends t t' (cPort (cell t r)) fs \<and> (\<forall>f\<in>set fs. Type f = I \<and> length (Info f) \<le> maxIFrameInfo)
     \<and> carried fs @ queued (outQueue (cell t' r)) = queued (outQueue (cell t r))
     \<and> numbered (cModulo (cell t r)) (sendSeq (cell t r)) fs (sendSeq (cell t' r))
     \<and> link_fixed r t t'"

definition small_queue :: "conn \<Rightarrow> bool" where
  "small_queue c \<longleftrightarrow> (\<forall>e\<in>set (outQueue c). length (oeData e) \<le> maxIFrameInfo)"

lemma drained_step:
  assumes "hSendAX25 (thooks t)" "cModulo (cell t r) \<noteq> 0" "small_queue (cell t r)" "outQueue (cell t r) = e # q"
  shows "\<exists>f. drained r t [f] (drainStep t r) \<and> small_queue (cell (drainStep t r) r)"
proof -
  obtain chunk q' where c: "coalesce (oePid e) (oeData e) q = (chunk, q')" by fastforce
  let ?f = "iFrame (uni t) (cell t r) (sendSeq (cell t r)) (oePid e) chunk"
  have b: "length chunk \<le> maxIFrameInfo" "set q' \<subseteq> set q"
    using coalesce_bounded [OF c] assms(3,4) by (auto simp: small_queue_def)
  have "out (drainStep t r) = out t @ [SendAX25 (cPort (cell t r)) ?f]"
    using assms(1,2,4) c by (simp add: drainStep_def Let_def out_sendFrame)
  then have "drained r t [?f] (drainStep t r)"
    using b(1) coalesce_queued [OF c] assms(4) link_fixed_drainStep [of r t]
    by (simp add: drained_def sends_def cells_drainStep [OF assms(4) c])
  moreover have "small_queue (cell (drainStep t r) r)"
    using b(2) assms(3,4) by (auto simp: small_queue_def cells_drainStep [OF assms(4) c])
  ultimately show ?thesis by blast
qed

lemma numbered_append: "numbered m s fs e \<Longrightarrow> numbered m e gs e' \<Longrightarrow> numbered m s (fs @ gs) e'"
  by (induction m s fs e rule: numbered.induct) auto

lemma drained_trans: "drained r t fs u \<Longrightarrow> drained r u gs v \<Longrightarrow> drained r t (fs @ gs) v"
  by (auto simp: drained_def link_fixed_def same_conf_def intro: sends_trans numbered_append)

lemma drained_loop:
  assumes "hSendAX25 (thooks t)" "cModulo (cell t r) \<noteq> 0" "small_queue (cell t r)"
  shows "\<exists>fs. drained r t fs (drainLoop t r)"
proof -
  let ?P = "\<lambda>u. small_queue (cell u r) \<and> (\<exists>fs. drained r t fs u)"
  have "?P (drainLoop t r) \<and> \<not> windowOpen (drainLoop t r) r"
  proof (rule drainLoop_invariant)
    have "drained r t [] t" by (simp add: drained_def sends_def)
    with assms(3) show "?P t" by blast
    fix u assume P: "?P u" and w: "windowOpen u r"
    then obtain fs e q where fs: "drained r t fs u" and q: "outQueue (cell u r) = e # q"
      by (cases "outQueue (cell u r)") (auto simp: windowOpen_def)
    have "hSendAX25 (thooks u)" "cModulo (cell u r) \<noteq> 0"
      using fs assms by (auto simp: drained_def link_fixed_def same_conf_def)
    with drained_step [OF _ _ _ q] P show "?P (drainStep u r)" using drained_trans [OF fs] by blast
  qed
  then show ?thesis by blast
qed

lemma drained_outbound:
  assumes "hSendAX25 (thooks t)" "cModulo (cell t r) \<noteq> 0" "small_queue (cell t r)"
  shows "\<exists>fs. drained r t fs (drainOutbound t r)"
proof -
  have "drained r t [] t" by (simp add: drained_def sends_def)
  moreover have "drained r t fs (startT1 (cancelT2 u r) r)" if "drained r t fs u" for u fs
    using that by (simp add: drained_def sends_def link_fixed_timers)
  ultimately show ?thesis using drained_loop [OF assms] unfolding drainOutbound_def by auto
qed

section \<open>Accepting client data\<close>

lemma concat_pieces: "concat (pieces data) = data"
proof (induction data rule: pieces.induct)
  case (1 data)
  then show ?case by (subst pieces.simps) simp
qed

lemma concat_fragment: "concat (fragment data) = data"
  by (simp add: fragment_def concat_pieces)

lemma enqueue_exact:
  "enqueue q pid cs =
     (q @ map (\<lambda>c. \<lparr>oePid = pid, oeData = c\<rparr>) (take (maxOutboundQueue - length q) cs),
      length cs - (maxOutboundQueue - length q))"
proof (induction q pid cs rule: enqueue.induct)
  case (2 q pid chunk chunks)
  show ?case
  proof (cases "length q \<ge> maxOutboundQueue")
    case False
    define k where "k = maxOutboundQueue - Suc (length q)"
    have k: "maxOutboundQueue - length q = Suc k" using False by (simp add: k_def)
    have "enqueue q pid (chunk # chunks) = (q @ \<lparr>oePid = pid, oeData = chunk\<rparr> #
        map (\<lambda>c. \<lparr>oePid = pid, oeData = c\<rparr>) (take k chunks), length chunks - k)"
      using False 2 by (simp add: k_def)
    then show ?thesis by (simp only: k take_Suc_Cons list.map length_Cons diff_Suc_Suc)
  qed simp
qed simp

lemma queued_entries: "queued (map (\<lambda>c. \<lparr>oePid = pid, oeData = c\<rparr>) cs) = tag pid (concat cs)"
  by (induction cs) simp_all

lemma SendData_conserves:
  assumes "hSendAX25 (thooks t)" "conn_inv w (cell t r)" "SendData t r pid data = (dropped, t')"
  defines "room \<equiv> maxOutboundQueue - length (outQueue (cell t r))"
  shows "dropped = length (fragment data) - room"
    and "\<exists>fs. sends t t' (cPort (cell t r)) fs \<and> (\<forall>f\<in>set fs. Type f = I \<and> length (Info f) \<le> maxIFrameInfo)
      \<and> carried fs @ queued (outQueue (cell t' r)) =
          queued (outQueue (cell t r)) @ tag pid (concat (take room (fragment data)))
      \<and> numbered (cModulo (cell t r)) (sendSeq (cell t r)) fs (sendSeq (cell t' r))"
proof -
  let ?q = "outQueue (cell t r) @ map (\<lambda>c. \<lparr>oePid = pid, oeData = c\<rparr>) (take room (fragment data))"
  let ?u = "upd t r (\<lambda>c. c\<lparr>outQueue := ?q\<rparr>)"
  have t': "t' = drainOutbound ?u r" and d: "dropped = length (fragment data) - room"
    using assms(3) by (simp_all add: SendData_def enqueue_exact room_def)
  show "dropped = length (fragment data) - room" by (rule d)
  have "small_queue (cell ?u r)"
    using assms(2) fragment_bounded by (auto simp: conn_inv_def queue_ok_def small_queue_def dest!: in_set_takeD)
  moreover have "cModulo (cell ?u r) \<noteq> 0" using assms(2) by (auto simp: conn_inv_def seq_ok_def)
  ultimately obtain fs where "drained r ?u fs t'"
    using drained_outbound [of ?u r] assms(1) by (auto simp: t')
  then show "\<exists>fs. sends t t' (cPort (cell t r)) fs \<and> (\<forall>f\<in>set fs. Type f = I \<and> length (Info f) \<le> maxIFrameInfo)
      \<and> carried fs @ queued (outQueue (cell t' r)) =
          queued (outQueue (cell t r)) @ tag pid (concat (take room (fragment data)))
      \<and> numbered (cModulo (cell t r)) (sendSeq (cell t r)) fs (sendSeq (cell t' r))"
    by (intro exI [of _ fs]) (simp add: drained_def sends_def queued_entries)
qed

section \<open>Retransmission\<close>

text \<open>The frame \<open>f\<close> repeats the one stored under its number in \<open>buf\<close>: same protocol, same data.\<close>

definition repeats :: "u8 \<Rightarrow> (u8 \<times> bytes) list \<Rightarrow> frame \<Rightarrow> bool" where
  "repeats m buf f \<longleftrightarrow> Type f = I \<and> (\<exists>raw orig. map_of buf (NS f) = Some raw
     \<and> ParseModulo raw (uint m) = Inr orig \<and> NS orig = NS f \<and> PID orig = PID f \<and> Info orig = Info f)"

lemma iFrame_PF [simp]:
  "(iFrame u c ns pid info)\<lparr>PF := False\<rparr> = iFrame u c ns pid info"
  by (simp add: iFrame_def cmdFrame_def mkFrame_def)

text \<open>One round of the loop inside the window.\<close>

lemma resend_round:
  assumes inv: "conn_inv w (cell t r)" and h: "hSendAX25 (thooks t)"
    and k: "inWin (cModulo (cell t r)) (lastAcked (cell t r)) (unacked (cell t r)) seq"
  obtains raw orig where "map_of (retransmitBuf (cell t r)) seq = Some raw"
    "ParseModulo raw (uint (cModulo (cell t r))) = Inr orig" "\<not> PF orig"
    "repeats (cModulo (cell t r)) (retransmitBuf (cell t r)) (iFrame (uni t) (cell t r) seq (PID orig) (Info orig))"
    "sends t (resendStep t r seq (iFrame (uni t) (cell t r) seq (PID orig) (Info orig))) (cPort (cell t r))
       [iFrame (uni t) (cell t r) seq (PID orig) (Info orig)]" "NS orig = seq"
proof -
  let ?c = "cell t r"
  have "seq \<in> fst ` set (retransmitBuf ?c)" using inv k by (simp add: conn_inv_def buf_ok_def)
  then obtain raw where raw: "map_of (retransmitBuf ?c) seq = Some raw"
    by (metis map_of_eq_None_iff not_None_eq)
  have "stored (cModulo ?c) seq raw" using inv raw by (auto simp: conn_inv_def buf_ok_def intro: all_stored_lookup)
  then obtain orig where o: "ParseModulo raw (uint (cModulo ?c)) = Inr orig" "NS orig = seq" "PF orig = False"
    by (rule stored_parse)
  let ?f = "iFrame (uni t) ?c seq (PID orig) (Info orig)"
  have "cModulo ?c \<noteq> 0" using inv by (auto simp: conn_inv_def seq_ok_def)
  then have "sends t (resendStep t r seq ?f) (cPort ?c) [?f]"
    using h by (simp add: sends_def resendStep_def out_sendFrame)
  moreover have "repeats (cModulo ?c) (retransmitBuf ?c) ?f" using raw o by (simp add: repeats_def)
  ultimately show thesis using that raw o by blast
qed

lemma window_next:
  assumes inv: "conn_inv w c" "w \<le> 7" and k: "inWin (cModulo c) (lastAcked c) (unacked c) seq"
  defines "d \<equiv> (seq - lastAcked c) mod cModulo c" and "s \<equiv> (seq + 1) mod cModulo c"
  shows "(s - lastAcked c) mod cModulo c = d + 1" "uint (d + 1) = uint d + 1"
    "inWin (cModulo c) (lastAcked c) (unacked c) s \<or> s = sendSeq c"
proof -
  have sp: "seq_space (cModulo c)" using inv by (auto simp: conn_inv_def intro: seq_ok_space)
  have un: "unacked c = (sendSeq c - lastAcked c) mod cModulo c" and lt: "sendSeq c < cModulo c"
    using inv by (auto simp: conn_inv_def win_ok_def seq_ok_def)
  have d: "uint d < uint (unacked c)" using k by (simp add: inWin_def word_less_alt d_def)
  have small: "uint d + 1 < uint (cModulo c)" using d inv by (auto simp: conn_inv_def win_ok_def seq_ok_def)
  show ds: "(s - lastAcked c) mod cModulo c = d + 1"
    unfolding s_def by (rule seq_space.dist_succ [OF sp _ small]) (simp add: d_def)
  show ud: "uint (d + 1) = uint d + 1" by (rule seq_space.uint_succ [OF sp small])
  have sm: "s < cModulo c" unfolding s_def by (rule seq_space.mod_less [OF sp])
  show "inWin (cModulo c) (lastAcked c) (unacked c) s \<or> s = sendSeq c"
  proof (cases "d + 1 = unacked c")
    case True
    then show ?thesis using seq_space.dist_inj [OF sp sm lt, of "lastAcked c"] ds un by simp
  next
    case False
    then have "uint (d + 1) < uint (unacked c)" using d ud by (metis add1_zle_eq le_neq_trans word_uint_eq_iff)
    then show ?thesis using ds sm by (simp add: inWin_def word_less_alt)
  qed
qed

lemma ahead_nonneg: "0 \<le> ahead c seq"
  by (auto simp: ahead_def inWin_def word_less_alt)

lemma retransmit_repeats:
  assumes "params_ok t" "cinv t r" "hSendAX25 (thooks t)" "toSeq = sendSeq (cell t r)"
    and "inWin (cModulo (cell t r)) (lastAcked (cell t r)) (unacked (cell t r)) seq \<or> seq = toSeq"
    and "ahead (cell t r) seq < int n"
    and "\<And>k. inWin (cModulo (cell t r)) (lastAcked (cell t r)) (unacked (cell t r)) k \<Longrightarrow>
           (seq - lastAcked (cell t r)) mod cModulo (cell t r) \<le> (k - lastAcked (cell t r)) mod cModulo (cell t r) \<Longrightarrow>
           map_of (retransmitBuf (cell t r)) k = map_of buf k"
  shows "\<exists>t' fs. retransmitLoop n t r seq toSeq = Some t' \<and> sends t t' (cPort (cell t r)) fs
     \<and> numbered (cModulo (cell t r)) seq fs toSeq \<and> (\<forall>f\<in>set fs. repeats (cModulo (cell t r)) buf f)
     \<and> int (length fs) \<le> ahead (cell t r) seq"
  using assms
proof (induction n arbitrary: t seq)
  case 0
  have "0 \<le> ahead (cell t r) seq"
    using ahead_step(2) [of "window t r" "cell t r" seq] 0(2) cinv_conn [OF 0(1)]
    by (auto simp: cinv_def ahead_def split: if_splits)
  with 0(6) show ?case by simp
next
  case (Suc n)
  let ?c = "cell t r" and ?m = "cModulo (cell t r)"
  have inv: "conn_inv (window t r) ?c" "window t r \<le> 7" using Suc.prems cinv_conn by (auto simp: cinv_def)
  show ?case
  proof (cases "seq = toSeq")
    case True
    then show ?thesis by (intro exI [of _ t] exI [of _ "[]"]) (simp add: sends_def ahead_nonneg)
  next
    case False
    then have k: "inWin ?m (lastAcked ?c) (unacked ?c) seq" using Suc.prems(5) by blast
    obtain raw orig where ro: "map_of (retransmitBuf ?c) seq = Some raw" "ParseModulo raw (uint ?m) = Inr orig" "\<not> PF orig"
      and rep: "repeats ?m (retransmitBuf ?c) (iFrame (uni t) ?c seq (PID orig) (Info orig))"
      and snd: "sends t (resendStep t r seq (iFrame (uni t) ?c seq (PID orig) (Info orig))) (cPort ?c)
          [iFrame (uni t) ?c seq (PID orig) (Info orig)]" and ns: "NS orig = seq"
      using resend_round [OF inv(1) Suc.prems(3) k] .
    let ?f = "iFrame (uni t) ?c seq (PID orig) (Info orig)"
    let ?t = "resendStep t r seq ?f" and ?s = "(seq + 1) mod ?m"
    have step: "retransmitLoop (Suc n) t r seq toSeq = retransmitLoop n ?t r ?s toSeq"
      using retransmitLoop_step [OF False ro(1,2), of n] ro(3) ns by simp
    have keeps: "keeps r t ?t" using keeps_resendStep [OF ro(1,2), of ?f False] ro(3) ns by simp
    have cell: "cell ?t r = ?c\<lparr>retransmitBuf := AList.update seq (Bytes ?f) (retransmitBuf ?c),
        iframeTimestamps := AList.delete seq (iframeTimestamps ?c)\<rparr>" by (simp add: cells_resendStep)
    let ?d = "(seq - lastAcked ?c) mod ?m"
    note nxt = window_next [OF inv k]
    have "\<exists>t' fs. retransmitLoop n ?t r ?s toSeq = Some t' \<and> sends ?t t' (cPort (cell ?t r)) fs
        \<and> numbered (cModulo (cell ?t r)) ?s fs toSeq \<and> (\<forall>f\<in>set fs. repeats (cModulo (cell ?t r)) buf f)
        \<and> int (length fs) \<le> ahead (cell ?t r) ?s"
    proof (rule Suc.IH)
      show "params_ok ?t" "cinv ?t r" "hSendAX25 (thooks ?t)"
        using keeps Suc.prems(1-3) by (simp_all add: keeps_def params_ok_def same_conf_def)
      show "toSeq = sendSeq (cell ?t r)" using Suc.prems(4) by (simp add: cell)
      show "inWin (cModulo (cell ?t r)) (lastAcked (cell ?t r)) (unacked (cell ?t r)) ?s \<or> ?s = toSeq"
        using nxt(3) Suc.prems(4) by (simp add: cell)
      have "ahead (cell ?t r) ?s = ahead ?c ?s" by (simp add: cell ahead_def)
      with ahead_step(1) [OF inv k] Suc.prems(6) show "ahead (cell ?t r) ?s < int n" by simp
      fix q
      assume q: "inWin (cModulo (cell ?t r)) (lastAcked (cell ?t r)) (unacked (cell ?t r)) q"
        "(?s - lastAcked (cell ?t r)) mod cModulo (cell ?t r) \<le> (q - lastAcked (cell ?t r)) mod cModulo (cell ?t r)"
      then have le: "?d + 1 \<le> (q - lastAcked ?c) mod ?m" by (simp add: cell nxt(1))
      then have gt: "uint ?d < uint ((q - lastAcked ?c) mod ?m)" using nxt(2) by (simp add: word_le_def)
      then have "q \<noteq> seq" by auto
      moreover have "map_of (retransmitBuf ?c) q = map_of buf q"
        using Suc.prems(7) [of q] q(1) gt by (simp add: cell word_le_def)
      ultimately show "map_of (retransmitBuf (cell ?t r)) q = map_of buf q" by (simp add: cell AList.update_conv')
    qed
    then obtain t' fs where r: "retransmitLoop n ?t r ?s toSeq = Some t'" "sends ?t t' (cPort ?c) fs"
        "numbered ?m ?s fs toSeq" "\<forall>f\<in>set fs. repeats ?m buf f" "int (length fs) \<le> ahead (cell ?t r) ?s" by (auto simp: cell)
    have "ahead (cell ?t r) ?s = ahead ?c ?s" by (simp add: cell ahead_def)
    with r(5) ahead_step(1) [OF inv k] have len: "int (length (?f # fs)) \<le> ahead ?c seq" by simp
    have "repeats ?m buf ?f" using rep Suc.prems(7) [OF k] by (simp add: repeats_def)
    with r(1-4) len step snd show ?thesis
      by (intro exI [of _ t'] exI [of _ "?f # fs"]) (auto dest: sends_trans)
  qed
qed

text \<open>From the oldest unacknowledged frame: everything outstanding, in order.\<close>

lemma retransmitFrom_repeats:
  assumes "params_ok t" "cinv t r" "hSendAX25 (thooks t)"
    and "inWin (cModulo (cell t r)) (lastAcked (cell t r)) (unacked (cell t r)) seq \<or> seq = sendSeq (cell t r)"
  shows "\<exists>fs. sends t (retransmitFrom t r seq) (cPort (cell t r)) fs
     \<and> numbered (cModulo (cell t r)) seq fs (sendSeq (cell t r))
     \<and> (\<forall>f\<in>set fs. repeats (cModulo (cell t r)) (retransmitBuf (cell t r)) f)
     \<and> int (length fs) \<le> uint (unacked (cell t r))"
proof -
  have "uint (unacked (cell t r)) \<le> 7"
    using assms cinv_conn [OF assms(1), of r] by (auto simp: cinv_def conn_inv_def win_ok_def)
  moreover have "0 \<le> uint ((seq - lastAcked (cell t r)) mod cModulo (cell t r))" by simp
  ultimately have "uint (unacked (cell t r)) - uint ((seq - lastAcked (cell t r)) mod cModulo (cell t r)) < 256"
    by linarith
  then have "ahead (cell t r) seq < int 256" by (simp add: ahead_def)
  from retransmit_repeats [OF assms(1-3) refl assms(4) this refl] obtain t' fs where
      "retransmitLoop 256 t r seq (sendSeq (cell t r)) = Some t'" "sends t t' (cPort (cell t r)) fs"
      "numbered (cModulo (cell t r)) seq fs (sendSeq (cell t r))" "int (length fs) \<le> ahead (cell t r) seq"
      "\<forall>f\<in>set fs. repeats (cModulo (cell t r)) (retransmitBuf (cell t r)) f" by blast
  moreover have "ahead (cell t r) seq \<le> uint (unacked (cell t r))" by (simp add: ahead_def)
  ultimately show ?thesis by (intro exI [of _ fs]) (auto simp: retransmitFrom_def retransmitRange_def)
qed

section \<open>Giving up\<close>

lemma giveUp_gone:
  assumes "table_inv t" "live t r" "keeps r t t'"
  shows "\<not> live (giveUp t' r b h) r" "b \<Longrightarrow> h \<in> set (out (giveUp t' r b h))"
proof -
  let ?u = "emit (upd t' r (\<lambda>c. c\<lparr>State := Disconnected\<rparr>)) b h"
  have "table_inv t'" using assms by (rule table_keeps)
  moreover have l: "live t' r" using assms by (simp add: keeps_live)
  ultimately have u: "table_inv ?u" using table_keeps [OF _ l keeps_state [of Disconnected r t']] by simp
  have lu: "live ?u r" using l by simp
  show "\<not> live (giveUp t' r b h) r" unfolding giveUp_def by (rule table_removeConn(2) [OF u lu])
  show "h \<in> set (out (giveUp t' r b h))" if b
    unfolding giveUp_def removeConn_out [OF u lu] using that by simp
qed

text \<open>One expiry of T1 on a live link: the link is given up, or the retry count grows by one.\<close>

definition retrying :: "table \<Rightarrow> ref \<Rightarrow> bool" where
  "retrying t r \<longleftrightarrow> table_inv t \<and> live t r \<and> State (cell t r) \<noteq> Disconnected"

definition retries :: "table \<Rightarrow> ref \<Rightarrow> int" where
  "retries t r = N2Retry (portParams t (cPort (cell t r)))"

lemma polled_fields:
  "t1Polls (cell (polled t r) r) = t1Polls (cell t r) + 1" "State (cell (polled t r) r) = State (cell t r)"
  "cPort (cell (polled t r) r) = cPort (cell t r)" "params (polled t r) = params t"
  by (simp_all add: polled_def)

definition still :: "ref \<Rightarrow> table \<Rightarrow> table \<Rightarrow> bool" where
  "still r t t' \<longleftrightarrow> State (cell t' r) = State (cell t r) \<and> t1Polls (cell t' r) = t1Polls (cell t r)"

lemma still_refl [simp]: "still r t t"
  by (simp add: still_def)

lemma still_resendStep: "still r t (resendStep t r k f)"
  by (simp add: still_def cells_resendStep)

lemma still_retransmitLoop: "retransmitLoop n t r seq toSeq = Some t' \<Longrightarrow> still r t t'"
proof (induction n arbitrary: t seq)
  case (Suc n)
  have IH: "still r t t'" if "retransmitLoop n (resendStep t r seq f) r s toSeq = Some t'" for s f
    using Suc.IH [OF that] still_resendStep [of r t seq f] by (simp add: still_def)
  then show ?case
    using Suc.prems by (auto simp: Let_def resendStep_def split: if_splits option.splits sum.splits)
qed simp

lemma still_retransmitFrom: "still r t (retransmitFrom t r seq)"
  by (auto simp: retransmitFrom_def retransmitRange_def split: option.split intro: still_retransmitLoop)

lemma still_enquire: "still r t (enquire t r)"
  using still_retransmitFrom [of r "sendEnquiry t r" "lastAcked (cell t r)"]
  by (simp add: enquire_def Let_def still_def)

lemma t1Expired_retry:
  assumes "retrying t r" "t1Polls (cell t r) < retries t r"
  defines "t' \<equiv> t1Expired t r"
  shows "retrying t' r \<and> t1Polls (cell t' r) = t1Polls (cell t r) + 1 \<and> retries t' r = retries t r"
proof -
  have inv: "table_inv t" "live t r" using assms(1) by (simp_all add: retrying_def)
  have no: "\<not> t1Polls (cell (polled t r) r) > N2Retry (portParams t (cPort (cell t r)))"
    using assms(2) by (simp add: polled_fields retries_def)
  have k: "keeps r t t'"
  proof -
    have 1: "keeps r t (startT1 (sendCmd (upd (polled t r) r (setupTimer pp)) r DISC) r)" for pp
      by (rule keeps_trans [OF keeps_polled keeps_trans [OF keeps_setupTimer keeps_trans [OF keeps_simple(3) keeps_timers(5)]]])
    have 2: "keeps r t (enquire (polled t r) r)" by (rule keeps_trans [OF keeps_polled keeps_enquire])
    have 3: "keeps r t (upd (fallBack (polled t r) r n) r (setupTimer pp))" if "State (cell t r) = Connecting" for n pp
      using that by (intro keeps_trans [OF keeps_polled keeps_trans [OF keeps_fallBack keeps_setupTimer]]) (simp add: polled_fields)
    have 4: "keeps r t (startT1 (if b then sendSABME u r else sendSABM u r) r)" if "keeps r t u" for b u
      using that by (cases b) (auto simp: sendSABME_def sendSABM_def intro!: keeps_trans [OF _ keeps_timers(5)] keeps_trans [OF _ keeps_simple(3)])
    show ?thesis
      using assms(1) no 1 2 4 [OF 3] unfolding t'_def t1Expired_alt Let_def
      by (cases "State (cell t r)") (simp_all add: retrying_def)
  qed
  have s: "State (cell t' r) = State (cell t r) \<and> t1Polls (cell t' r) = t1Polls (cell t r) + 1"
    using assms(1) no still_enquire [of r "polled t r"] unfolding t'_def t1Expired_alt Let_def
    by (cases "State (cell t r)")
      (simp_all add: retrying_def polled_fields setupTimer_def fallBack_def sendSABME_def sendSABM_def still_def)
  have "cPort (cell t' r) = cPort (cell t r)" "params t' = params t"
    using k by (simp_all add: keeps_def same_conf_def ident_def)
  then have "retries t' r = retries t r" using portParams_cong [of t' t] by (simp add: retries_def)
  with s assms(1) table_keeps [OF inv k] keeps_live [OF k] inv show ?thesis by (simp add: retrying_def)
qed

lemma t1Expired_gives_up:
  assumes "retrying t r" "t1Polls (cell t r) \<ge> retries t r"
  shows "\<not> live (t1Expired t r) r"
    "hDisconnected (thooks t) \<Longrightarrow> State (cell t r) \<noteq> Connecting \<Longrightarrow> HDisconnected r \<in> set (out (t1Expired t r))"
    "hConnectFailed (thooks t) \<Longrightarrow> State (cell t r) = Connecting \<Longrightarrow> HConnectFailed r FailTimeout \<in> set (out (t1Expired t r))"
proof -
  have inv: "table_inv t" "live t r" using assms(1) by (simp_all add: retrying_def)
  have yes: "t1Polls (cell (polled t r) r) > N2Retry (portParams t (cPort (cell t r)))"
    using assms(2) by (simp add: polled_fields retries_def)
  have fb: "keeps r t (fallBack (polled t r) r n)" if "State (cell t r) = Connecting" for n
    using that by (intro keeps_trans [OF keeps_polled keeps_fallBack]) (simp add: polled_fields)
  note gone = giveUp_gone [OF inv keeps_polled] giveUp_gone [OF inv fb]
  show "\<not> live (t1Expired t r) r"
    using assms(1) yes gone unfolding t1Expired_alt Let_def by (cases "State (cell t r)") (simp_all add: retrying_def)
  show "HDisconnected r \<in> set (out (t1Expired t r))" if "hDisconnected (thooks t)" "State (cell t r) \<noteq> Connecting"
    using assms(1) yes gone that unfolding t1Expired_alt Let_def by (cases "State (cell t r)") (simp_all add: retrying_def)
  show "HConnectFailed r FailTimeout \<in> set (out (t1Expired t r))" if "hConnectFailed (thooks t)" "State (cell t r) = Connecting"
    using assms(1) yes gone that unfolding t1Expired_alt Let_def by (cases "State (cell t r)") (simp_all add: retrying_def)
qed

end
