(* ===== verification/L2_Timers.thy ===== *)
theory L2_Timers
  imports L2_Invariant
begin

text \<open>
  The timers of the connected-mode layer.  A connection stores the id of each timer it started, and
  the timer's function runs only if that id is still stored.  Two invariants of every reachable
  table tie the two sides together: \<open>clock_ok\<close>, a stored timer's function is still on its way
  (armed, firing or posted) and no two functions on their way share an id, so that cancelling
  one timer never stops another; and \<open>tended\<close>, a connection that waits for an answer has T1 stored.
\<close>

section \<open>Functions on their way to the loop\<close>

definition scheduled :: "'fn engine \<Rightarrow> 'fn set" where
  "scheduled e = tmFn ` set (armed e) \<union> set (firing e) \<union> set (queue e)"

fun timerId :: "closure \<Rightarrow> nat option" where
  "timerId (T1Fn r i) = Some i"
| "timerId (T2Fn r i) = Some i"
| "timerId (T3Fn r i) = Some i"
| "timerId (RRFn r s d) = None"

text \<open>The functions whose ids a table's connections store.\<close>

inductive stores :: "table \<Rightarrow> closure \<Rightarrow> bool" where
  "t1 (cell t r) = Some i \<Longrightarrow> stores t (T1Fn r i)"
| "t2 (cell t r) = Some i \<Longrightarrow> stores t (T2Fn r i)"
| "t3 (cell t r) = Some i \<Longrightarrow> stores t (T3Fn r i)"

inductive_simps stores_simps [simp]: "stores t (T1Fn r i)" "stores t (T2Fn r i)" "stores t (T3Fn r i)" "stores t (RRFn r s d)"

definition ids_ok :: "closure engine \<Rightarrow> bool" where
  "ids_ok e \<longleftrightarrow> (\<forall>tm\<in>set (armed e). timerId (tmFn tm) = Some (tmId tm))
     \<and> (\<forall>f\<in>scheduled e. \<forall>g\<in>scheduled e. timerId f = timerId g \<longrightarrow> timerId f = None \<or> f = g)
     \<and> (\<forall>f\<in>scheduled e. \<forall>i. timerId f = Some i \<longrightarrow> i < nextTimer e)"

definition clock_ok :: "table \<Rightarrow> bool" where
  "clock_ok t \<longleftrightarrow> ids_ok (eng t) \<and> (\<forall>f. stores t f \<longrightarrow> f \<in> scheduled (eng t))"

lemma clockD: "clock_ok t \<Longrightarrow> stores t f \<Longrightarrow> f \<in> scheduled (eng t)"
  by (simp add: clock_ok_def)

subsection \<open>Engine operations\<close>

lemma scheduled_Cancel: "ids_ok e \<Longrightarrow> scheduled (Cancel e i) \<subseteq> scheduled e"
    "ids_ok e \<Longrightarrow> f \<in> scheduled e \<Longrightarrow> timerId f \<noteq> Some i \<Longrightarrow> f \<in> scheduled (Cancel e i)"
  by (force simp: scheduled_def Cancel_def ids_ok_def)+

lemma ids_mono:
  assumes "ids_ok e" "set (armed e') \<subseteq> set (armed e)" "scheduled e' \<subseteq> scheduled e" "nextTimer e' = nextTimer e"
  shows "ids_ok e'"
  using assms(1-3) unfolding ids_ok_def assms(4) subset_iff by (elim conjE) (intro conjI; blast)

lemma ids_eq: "ids_ok e \<Longrightarrow> f \<in> scheduled e \<Longrightarrow> g \<in> scheduled e \<Longrightarrow> timerId f = Some i \<Longrightarrow> timerId g = Some i \<Longrightarrow> f = g"
  unfolding ids_ok_def by (metis option.distinct(1))

lemma ids_bound: "ids_ok e \<Longrightarrow> f \<in> scheduled e \<Longrightarrow> timerId f = Some i \<Longrightarrow> i < nextTimer e"
  unfolding ids_ok_def by blast

lemma ids_Cancel: "ids_ok e \<Longrightarrow> ids_ok (Cancel e i)"
  by (erule ids_mono) (auto simp: Cancel_def scheduled_def)

lemma scheduled_After: "scheduled (snd (After e d mk)) = insert (mk (nextTimer e)) (scheduled e)"
  by (auto simp: scheduled_def After_def Let_def)

lemma ids_After:
  assumes "ids_ok e" "\<And>i. timerId (mk i) = Some i"
  shows "ids_ok (snd (After e d mk))"
proof -
  have "\<forall>tm\<in>set (armed (snd (After e d mk))). timerId (tmFn tm) = Some (tmId tm)"
    using assms by (auto simp: ids_ok_def After_def Let_def)
  then show ?thesis
    using assms unfolding ids_ok_def scheduled_After by (auto simp: less_Suc_eq) (metis less_irrefl)+
qed

lemma scheduled_Fire:
  assumes ok: "ids_ok e"
  shows "scheduled (Fire e i) = scheduled e"
proof (cases "List.find (\<lambda>tm. tmId tm = i) (armed e)")
  case (Some tm)
  have tm: "tm \<in> set (armed e)" "tmId tm = i" using find_SomeD [OF Some] by auto
  have same: "tmFn x = tmFn tm" if "x \<in> set (armed e)" "tmId x = i" for x
    using tm that ok by (intro ids_eq [OF ok, of _ _ i]) (simp_all add: ids_ok_def scheduled_def)
  have "tmFn ` set (armed e) = insert (tmFn tm) (tmFn ` {x \<in> set (armed e). tmId x \<noteq> i})"
  proof (intro equalityI subsetI)
    fix f assume "f \<in> tmFn ` set (armed e)"
    then obtain x where x: "x \<in> set (armed e)" "f = tmFn x" by blast
    then show "f \<in> insert (tmFn tm) (tmFn ` {x \<in> set (armed e). tmId x \<noteq> i})" using same [of x] by (cases "tmId x = i") auto
  qed (use tm in auto)
  then show ?thesis using Some by (simp add: Fire_def scheduled_def Cancel_def)
qed (simp add: Fire_def)

lemma scheduled_Post: "scheduled (Post e i) = scheduled e"
proof (cases "i < length (firing e)")
  case True
  then have "set (firing e) = insert (firing e ! i) (set (take i (firing e)) \<union> set (drop (Suc i) (firing e)))"
    by (metis Un_insert_right append_take_drop_id Cons_nth_drop_Suc list.simps(15) set_append)
  then show ?thesis using True by (auto simp: Post_def Do_def scheduled_def)
qed (simp add: Post_def)

lemma engine_ids:
  "armed (Tick e d) = armed e" "nextTimer (Tick e d) = nextTimer e" "scheduled (Tick e d) = scheduled e"
  "set (armed (Fire e i)) \<subseteq> set (armed e)" "nextTimer (Fire e i) = nextTimer e"
  "armed (Post e i) = armed e" "nextTimer (Post e i) = nextTimer e"
  "armed (Do e fn) = armed e" "scheduled (Do e fn) = insert fn (scheduled e)"
  by (auto simp: Tick_def Fire_def Post_def Do_def Cancel_def scheduled_def split: option.split)

lemma ids_queue: "ids_ok e \<Longrightarrow> set q \<subseteq> set (queue e) \<Longrightarrow> ids_ok (e\<lparr>queue := q\<rparr>)"
  by (erule ids_mono) (auto simp: scheduled_def)

lemma ids_engine:
  assumes "ids_ok e"
  shows "ids_ok (Tick e d)" "ids_ok (Fire e i)" "ids_ok (Post e i)" "ids_ok (Do e (RRFn r s x))"
proof -
  show "ids_ok (Tick e d)" "ids_ok (Fire e i)" "ids_ok (Post e i)"
    by (rule ids_mono [OF assms]; simp add: engine_ids scheduled_Fire [OF assms] scheduled_Post)+
  show "ids_ok (Do e (RRFn r s x))" using assms by (auto simp: ids_ok_def engine_ids)
qed

section \<open>No operation loses a timer\<close>

named_theorems clock_simps \<open>operations that keep every stored timer on its way\<close>

lemma clock_weaken:
  assumes "clock_ok t" "eng t' = eng t" "\<And>f. stores t' f \<Longrightarrow> stores t f"
  shows "clock_ok t'"
  using assms by (auto simp: clock_ok_def)

text \<open>An update of a cell that starts no timer.\<close>

lemma clock_upd [clock_simps]:
  assumes "clock_ok t" "\<And>c. t1 (f c) = None \<or> t1 (f c) = t1 c" "\<And>c. t2 (f c) = None \<or> t2 (f c) = t2 c"
    "\<And>c. t3 (f c) = None \<or> t3 (f c) = t3 c"
  shows "clock_ok (upd t r f)"
proof (rule clock_weaken [OF assms(1)])
  fix g assume "stores (upd t r f) g"
  then show "stores t g" using assms(2-4) [of "cell t r"] by (cases g) (auto split: if_splits)
qed simp

lemma clock_cells: "eng t' = eng t \<Longrightarrow> cells t' = cells t \<Longrightarrow> clock_ok t' = clock_ok t"
proof -
  assume "eng t' = eng t" "cells t' = cells t"
  moreover from this(2) have "stores t' f = stores t f" for f by (cases f) simp_all
  ultimately show ?thesis by (simp add: clock_ok_def)
qed

lemma clock_base [clock_simps]:
  "clock_ok (emit t b h) = clock_ok t" "clock_ok (sendFrame t p f) = clock_ok t" "clock_ok (notifyPortSessions t p) = clock_ok t"
  "clock_ok (t\<lparr>out := hs\<rparr>) = clock_ok t" "clock_ok (t\<lparr>conns := cs\<rparr>) = clock_ok t" "clock_ok (deliverData t r pid i) = clock_ok t"
  "clock_ok (sendCmd t r ft) = clock_ok t" "clock_ok (sendRRResponse t r s d) = clock_ok t"
  by (rule clock_cells; simp)+

text \<open>Cancelling what a slot stores, once the slot is empty, stops no other timer.\<close>

lemma eng_cancelTimer: "eng (cancelTimer t x) = (case x of None \<Rightarrow> eng t | Some i \<Rightarrow> Cancel (eng t) i)"
  by (simp add: cancelTimer_def split: option.split)

lemma clock_cancelTimer:
  assumes ok: "clock_ok t" and mk: "\<And>i. timerId (mk i) = Some i" and x: "\<And>i. x = Some i \<Longrightarrow> stores t (mk i)"
    and e: "eng t' = eng (cancelTimer t x)" and st: "\<And>g. stores t' g \<Longrightarrow> stores t g \<and> g \<notin> range mk"
  shows "clock_ok t'"
proof (cases x)
  case None
  then show ?thesis using clock_weaken [OF ok, of t'] e st by (simp add: eng_cancelTimer)
next
  case (Some i)
  have "g \<in> scheduled (eng t')" if "stores t' g" for g
  proof -
    have g: "g \<in> scheduled (eng t)" "mk i \<in> scheduled (eng t)" "g \<noteq> mk i"
      using st [OF that] clockD [OF ok] x [OF Some] by auto
    then have "timerId g \<noteq> Some i" using ids_eq [of "eng t" g "mk i" i] ok mk by (auto simp: clock_ok_def)
    with g(1) show ?thesis using scheduled_Cancel(2) ok e Some by (simp add: clock_ok_def eng_cancelTimer)
  qed
  then show ?thesis using ok e Some by (simp add: clock_ok_def ids_Cancel eng_cancelTimer)
qed

lemma stores_cancelT:
  "stores (cancelT1 t r) g \<longleftrightarrow> stores t g \<and> g \<notin> range (T1Fn r)"
  "stores (cancelT2 t r) g \<longleftrightarrow> stores t g \<and> g \<notin> range (T2Fn r)"
  "stores (cancelT3 t r) g \<longleftrightarrow> stores t g \<and> g \<notin> range (T3Fn r)"
  by (cases g; auto)+

lemma eng_cancelT: "eng (cancelT1 t r) = eng (cancelTimer t (t1 (cell t r)))"
  "eng (cancelT2 t r) = eng (cancelTimer t (t2 (cell t r)))" "eng (cancelT3 t r) = eng (cancelTimer t (t3 (cell t r)))"
  by (simp_all add: cancelT1_def cancelT2_def cancelT3_def)

lemma clock_cancelT [clock_simps]:
  assumes "clock_ok t"
  shows "clock_ok (cancelT1 t r)" "clock_ok (cancelT2 t r)" "clock_ok (cancelT3 t r)"
  using clock_cancelTimer [OF assms, of "T1Fn r" "t1 (cell t r)" "cancelT1 t r"]
    clock_cancelTimer [OF assms, of "T2Fn r" "t2 (cell t r)" "cancelT2 t r"]
    clock_cancelTimer [OF assms, of "T3Fn r" "t3 (cell t r)" "cancelT3 t r"]
  by (simp_all add: stores_cancelT eng_cancelT)

lemma clock_cancelAll [clock_simps]: "clock_ok t \<Longrightarrow> clock_ok (cancelAll t r)"
  by (simp add: cancelAll_def clock_simps)

text \<open>Storing a timer just started.\<close>

lemma clock_after:
  assumes "clock_ok t" "\<And>i. timerId (mk i) = Some i" "eng t' = snd (After (eng t) d mk)"
    and "\<And>g. stores t' g \<Longrightarrow> stores t g \<or> g = mk (nextTimer (eng t))"
  shows "clock_ok t'"
  using assms ids_After [of "eng t" mk d] by (auto simp: clock_ok_def scheduled_After)

lemma stores_start:
  "stores (startT1 t r) g \<Longrightarrow> stores (cancelT1 t r) g \<or> g = T1Fn r (nextTimer (eng t))"
  "stores (scheduleT2 t r s d) g \<Longrightarrow> stores (cancelT2 t r) g \<or> g = T2Fn r (nextTimer (eng t))"
  "stores (startT3 t r) g \<Longrightarrow> stores (cancelT3 t r) g \<or> g = T3Fn r (nextTimer (eng t))"
  by (cases g; auto split: if_splits)+

lemma nextTimer_cancelT: "nextTimer (eng (cancelT1 t r)) = nextTimer (eng t)"
  "nextTimer (eng (cancelT2 t r)) = nextTimer (eng t)" "nextTimer (eng (cancelT3 t r)) = nextTimer (eng t)"
  by (simp_all add: cancelT1_def cancelT2_def cancelT3_def)

lemma eng_start:
  "\<exists>d. eng (startT1 t r) = snd (After (eng (cancelT1 t r)) d (T1Fn r))"
  "\<exists>d. eng (scheduleT2 t r src dst) = snd (After (eng (cancelT2 t r)) d (T2Fn r))"
  "startT3 t r = cancelT3 t r \<or> (\<exists>d. eng (startT3 t r) = snd (After (eng (cancelT3 t r)) d (T3Fn r)))"
  by (auto simp: startT1_def scheduleT2_def startT3_def Let_def split: prod.split) (metis snd_conv)+

lemma clock_start [clock_simps]:
  assumes "clock_ok t"
  shows "clock_ok (startT1 t r)" "clock_ok (startT3 t r)" "clock_ok (scheduleT2 t r s d)"
proof -
  note [simp] = nextTimer_cancelT
  show "clock_ok (startT1 t r)"
    using eng_start(1) [of t r] stores_start(1) [of t r] clock_after [OF clock_cancelT(1) [OF assms], of "T1Fn r"] by auto
  show "clock_ok (scheduleT2 t r s d)"
    using eng_start(2) [of t r s d] stores_start(2) [of t r s d] clock_after [OF clock_cancelT(2) [OF assms], of "T2Fn r"] by auto
  show "clock_ok (startT3 t r)"
    using eng_start(3) [of t r] stores_start(3) [of t r] clock_cancelT(3) [OF assms, of r]
      clock_after [OF clock_cancelT(3) [OF assms], of "T3Fn r"] by auto
qed

lemma resetSeqs_timers [simp]: "t1 (resetSeqs c) = t1 c" "t2 (resetSeqs c) = t2 c" "t3 (resetSeqs c) = t3 c"
  by (simp_all add: resetSeqs_def)

lemma srttStep_timers [simp]: "t1 (srttStep w c x) = t1 c" "t2 (srttStep w c x) = t2 c" "t3 (srttStep w c x) = t3 c"
  by (simp_all add: srttStep_def Let_def)

lemma clock_sending [clock_simps]:
  assumes "clock_ok t"
  shows "clock_ok (sendSABM t r)" "clock_ok (sendSABME t r)" "clock_ok (sendEnquiry t r)" "clock_ok (t2Expired t r)"
    "clock_ok (t3Expired t r)" "clock_ok (enterConnected t r)" "clock_ok (snd (fallbackToSABM t r))" "clock_ok (updateSRTT t r x)"
  using assms
  by (simp_all add: sendSABM_def sendSABME_def sendEnquiry_def t2Expired_def t3Expired_def enterConnected_def
    fallbackToSABM_def updateSRTT_def Let_def clock_simps)

lemma clock_drainStep [clock_simps]: "clock_ok t \<Longrightarrow> clock_ok (drainStep t r)"
  by (auto simp: drainStep_def Let_def clock_simps split: prod.split list.split)

lemma clock_drainLoop [clock_simps]: "clock_ok t \<Longrightarrow> clock_ok (drainLoop t r)"
proof (induction t r rule: drainLoop.induct)
  case (1 t r)
  then show ?case by (subst drainLoop.simps) (simp add: clock_simps)
qed

lemma clock_drainOutbound [clock_simps]:
  "clock_ok t \<Longrightarrow> clock_ok (drainOutbound t r)" "clock_ok t \<Longrightarrow> clock_ok (snd (SendData t r p x))"
  by (simp_all add: drainOutbound_def SendData_def Let_def clock_simps split: prod.split)

lemma clock_sampleRTT [clock_simps]: "clock_ok t \<Longrightarrow> clock_ok (sampleRTT n t r s)"
  by (induction n t r s rule: sampleRTT.induct) (simp_all add: clock_simps Let_def split: option.split)

lemma clock_ackFrames [clock_simps]: "clock_ok t \<Longrightarrow> clock_ok (ackFrames t r nr)"
  by (simp add: ackFrames_def Let_def clock_simps)

lemma clock_retransmitLoop: "retransmitLoop n t r s e = Some t' \<Longrightarrow> clock_ok t \<Longrightarrow> clock_ok t'"
  by (induction n t r s e arbitrary: t' rule: retransmitLoop.induct)
    (auto simp: clock_simps Let_def split: if_splits option.splits sum.splits)

lemma clock_retransmit [clock_simps]:
  "clock_ok t \<Longrightarrow> clock_ok (retransmitRange t r s e)" "clock_ok t \<Longrightarrow> clock_ok (retransmitFrom t r s)"
  by (auto simp: retransmitRange_def retransmitFrom_def clock_retransmitLoop split: option.split)

lemma clock_Disconnect [clock_simps]: "clock_ok t \<Longrightarrow> clock_ok (Disconnect t r)"
  by (simp add: Disconnect_def Let_def clock_simps)

lemma clock_srejHoles [clock_simps]: "clock_ok t \<Longrightarrow> clock_ok (srejHoles is t r s d l)"
  by (induction "is" t r s d l rule: srejHoles.induct) (simp_all add: clock_simps Let_def)

lemma clock_flushRx [clock_simps]: "clock_ok t \<Longrightarrow> clock_ok (flushRx t r)"
proof (induction t r rule: flushRx.induct)
  case (1 t r)
  have "clock_ok (flushStep t r e)" for e using "1.prems" by (simp add: flushStep_def Let_def clock_simps)
  with 1 show ?case by (subst flushRx.simps) (simp split: option.split)
qed

lemma clock_Do [clock_simps]: "clock_ok t \<Longrightarrow> clock_ok (t\<lparr>eng := Do (eng t) (RRFn r s d)\<rparr>)"
proof -
  assume ok: "clock_ok t"
  have "stores (t\<lparr>eng := e\<rparr>) f = stores t f" for e f by (cases f) simp_all
  then show ?thesis using ok by (simp add: clock_ok_def ids_engine engine_ids)
qed

lemma clock_receive [clock_simps]:
  assumes "clock_ok t"
  shows "clock_ok (acceptSABM t r port via s d pf m)" "clock_ok (sendXIDCommand t r)" "clock_ok (notifyConnectedOut t r)"
    "clock_ok (ackOrDelay t r pf s d)" "clock_ok (sendSREJHoles t r s d l)" "clock_ok (promote t ro)"
    "clock_ok (resendOne t r nr)" "clock_ok (answerDeferred t r s d)" "clock_ok (deferRR t r s d)"
  using assms
  by (auto simp: acceptSABM_def sendXIDCommand_def notifyConnectedOut_def ackOrDelay_def sendSREJHoles_def promote_def
    resendOne_def deferRR_def answerDeferred_def Let_def clock_simps split: option.split sum.split)

lemma clock_recv [clock_simps]:
  assumes "clock_ok t"
  shows "clock_ok (recvSREJ t r pp f s d)" "clock_ok (recvREJ t r port pp f s d)" "clock_ok (timerRecovery t r f v)"
    "clock_ok (answerPoll t port f s d)"
  using assms
  by (simp_all add: recvSREJ_def recvREJ_def timerRecovery_def answerPoll_def Let_def clock_simps split: option.split)

lemma clock_remove [clock_simps]: "clock_ok t \<Longrightarrow> clock_ok (remove t p l m)" "clock_ok t \<Longrightarrow> clock_ok (removeConn t r)"
  by (auto simp: removeConn_def remove_def Let_def clock_simps split: option.split)

lemma clock_getOrCreate: "getOrCreate t p l m = (ro, t') \<Longrightarrow> clock_ok t \<Longrightarrow> clock_ok t'"
proof -
  assume g: "getOrCreate t p l m = (ro, t')" and ok: "clock_ok t"
  have "clock_ok (t\<lparr>cells := (cells t)(q := (newConn p' l' m')\<lparr>t1Value := v\<rparr>), nextConn := n, conns := cs\<rparr>)" for q n cs p' l' m' v
  proof (rule clock_weaken [OF ok])
    fix f assume "stores (t\<lparr>cells := (cells t)(q := (newConn p' l' m')\<lparr>t1Value := v\<rparr>), nextConn := n, conns := cs\<rparr>) f"
    then show "stores t f" by (cases f) (auto simp: newConn_def split: if_splits)
  qed simp
  then show ?thesis using g ok by (auto simp: getOrCreate_def Let_def clock_simps split: option.splits if_splits)
qed

lemma clock_getOrCreate_then:
  assumes "clock_ok t" "\<And>t. clock_ok t \<Longrightarrow> clock_ok (f t)" "\<And>t r. clock_ok t \<Longrightarrow> clock_ok (g t r)"
  shows "clock_ok (case getOrCreate t p l m of (None, t) \<Rightarrow> f t | (Some r, t) \<Rightarrow> g t r)"
  using assms clock_getOrCreate [of t p l m] by (cases "getOrCreate t p l m") (auto split: option.split)

lemma clock_dispatch [clock_simps]:
  assumes "clock_ok t"
  shows "clock_ok (dispatchI t port f s d)" "clock_ok (dispatchS t port f s d)" "clock_ok (dispatchXID t port f s d)"
    "clock_ok (dispatchFRMR t port f s d)" "clock_ok (dispatchUA t port f s d)" "clock_ok (dispatchDM t port f s d)"
    "clock_ok (dispatchDISC t port f s d)" "clock_ok (dispatchSABM t port f s d)" "clock_ok (dispatchSABME t port f s d)"
  using assms
  by (auto simp: dispatchI_def dispatchS_def dispatchXID_def dispatchFRMR_def dispatchUA_def dispatchDM_def dispatchDISC_def
      dispatchSABM_def dispatchSABME_def Let_def clock_simps intro!: clock_getOrCreate_then split: option.split sum.split)

lemma clock_OnFrame [clock_simps]: "clock_ok t \<Longrightarrow> clock_ok (OnFrame t port f)"
  by (auto simp: OnFrame_def dispatch_def Let_def clock_simps split: option.split FrameType.split)

lemma clock_Connect [clock_simps]: "clock_ok t \<Longrightarrow> clock_ok (snd (Connect t port l m via))"
  using clock_getOrCreate [of t port l m]
  by (cases "getOrCreate t port l m") (auto simp: Connect_def Let_def clock_simps split: option.splits)

lemma clock_foldl: "clock_ok t \<Longrightarrow> (\<And>t r. clock_ok t \<Longrightarrow> clock_ok (f t r)) \<Longrightarrow> clock_ok (foldl f t rs)"
  by (induction rs arbitrary: t) simp_all

lemma clock_bulk [clock_simps]:
  "clock_ok t \<Longrightarrow> clock_ok (RemoveOwned ord t ow)" "clock_ok t \<Longrightarrow> clock_ok (PortOffline ord t port)"
  by (auto simp: RemoveOwned_def PortOffline_def dropOwned_def dropOffline_def Let_def clock_simps intro!: clock_foldl)

text \<open>A timer's function has left the queue when it runs, and its first act is to empty its slot.\<close>

lemma clock_expired:
  "clock_ok (upd t r (\<lambda>c. c\<lparr>t1 := None\<rparr>)) \<Longrightarrow> clock_ok (t1Expired t r)"
  "clock_ok (upd t r (\<lambda>c. c\<lparr>t2 := None\<rparr>)) \<Longrightarrow> clock_ok (t2Expired t r)"
  "clock_ok (upd t r (\<lambda>c. c\<lparr>t3 := None\<rparr>)) \<Longrightarrow> clock_ok (t3Expired t r)"
  by (auto simp: t1Expired_alt polled_def giveUp_def enquire_def fallBack_def setupTimer_def t2Expired_def t3Expired_def
      Let_def clock_simps split: ConnState.split)

lemma stores_eng [simp]: "stores (t\<lparr>eng := e\<rparr>) f = stores t f"
  by (cases f) simp_all

lemma clock_popped:
  assumes "clock_ok t" "queue (eng t) = fn # fns" "\<And>g. stores t' g \<Longrightarrow> stores t g \<and> g \<noteq> fn" "eng t' = (eng t)\<lparr>queue := fns\<rparr>"
  shows "clock_ok t'"
proof -
  have "ids_ok (eng t')" using assms(1,2,4) by (simp add: clock_ok_def ids_queue subset_insertI)
  moreover have "g \<in> scheduled (eng t')" if "stores t' g" for g
    using clockD [OF assms(1), of g] assms(3) [OF that] assms(2,4) by (auto simp: scheduled_def)
  ultimately show ?thesis by (simp add: clock_ok_def)
qed

lemma stores_clear:
  "stores (upd t r (\<lambda>c. c\<lparr>t1 := None\<rparr>)) g \<longleftrightarrow> stores t g \<and> g \<notin> range (T1Fn r)"
  "stores (upd t r (\<lambda>c. c\<lparr>t2 := None\<rparr>)) g \<longleftrightarrow> stores t g \<and> g \<notin> range (T2Fn r)"
  "stores (upd t r (\<lambda>c. c\<lparr>t3 := None\<rparr>)) g \<longleftrightarrow> stores t g \<and> g \<notin> range (T3Fn r)"
  by (cases g; auto)+

lemma clock_run:
  assumes ok: "clock_ok t" and q: "queue (eng t) = fn # fns"
  shows "clock_ok (runClosure (t\<lparr>eng := (eng t)\<lparr>queue := fns\<rparr>\<rparr>) fn)"
proof (cases "stores t fn")
  case False
  then have "clock_ok (t\<lparr>eng := (eng t)\<lparr>queue := fns\<rparr>\<rparr>)" by (intro clock_popped [OF ok q]) auto
  with False show ?thesis by (cases fn) (simp_all add: runClosure_def clock_simps)
next
  case True
  then show ?thesis
    by (cases fn) (auto simp: runClosure_def stores_clear intro!: clock_expired clock_popped [OF ok q])
qed

lemma clock_step: "l2_step t t' \<Longrightarrow> clock_ok t \<Longrightarrow> clock_ok t'"
proof (induction rule: l2_step.induct)
  case (run t fn fns)
  then show ?case by (simp add: clock_run)
next
  case (tick t d)
  then show ?case by (simp add: clock_ok_def ids_engine engine_ids)
next
  case (fire t tid)
  then show ?case by (simp add: clock_ok_def ids_engine scheduled_Fire)
next
  case (post t i)
  then show ?case by (simp add: clock_ok_def ids_engine scheduled_Post)
qed (auto simp: clock_simps)

lemma clock_init: "l2_init t \<Longrightarrow> clock_ok t"
proof -
  assume "l2_init t"
  then obtain u t0 h ps where t: "t = NewTable u t0 h ps" by (auto simp: l2_init_def)
  then have "\<not> stores t f" for f by (cases f) (simp_all add: NewTable_def newConn_def)
  then show ?thesis by (simp add: t clock_ok_def ids_ok_def scheduled_def NewTable_def newEngine_def)
qed

end
