(* ===== verification/L2_Tended.thy ===== *)
theory L2_Tended
  imports L2_Timers
begin

text \<open>
  No connection is left waiting for ever: in every reachable table a connection that expects an
  answer (it is being set up or released, or has frames outstanding) has its T1 timer stored, and
  with \<open>clock_ok\<close> that timer's function is on its way.
\<close>

definition tended :: "conn \<Rightarrow> bool" where
  "tended c \<longleftrightarrow> State c \<noteq> Disconnected \<and> (State c = Connected \<and> retransmitBuf c = [] \<or> t1 c \<noteq> None)"

lemma tended_flags [simp]:
  "tended (c\<lparr>remoteBusy := b\<rparr>) = tended c" "tended (c\<lparr>srejEnabled := b\<rparr>) = tended c" "tended (c\<lparr>xidPending := b\<rparr>) = tended c"
  "tended (c\<lparr>incoming := b\<rparr>) = tended c" "tended (c\<lparr>Owner := ow\<rparr>) = tended c" "tended (c\<lparr>t3 := tm\<rparr>) = tended c"
  "tended (c\<lparr>t2 := tm\<rparr>) = tended c" "tended (c\<lparr>outQueue := q\<rparr>) = tended c"
  by (simp_all add: tended_def)

definition all_tended :: "table \<Rightarrow> bool" where
  "all_tended t \<longleftrightarrow> (\<forall>q. live t q \<longrightarrow> tended (cell t q))"

text \<open>The connections other than \<open>r\<close>; a handler of \<open>r\<close> leaves them alone.\<close>

definition rest :: "ref \<Rightarrow> table \<Rightarrow> (ref \<times> conn) set" where
  "rest r t = (\<lambda>q. (q, cell t q)) ` {q. live t q \<and> q \<noteq> r}"

lemma tended_rest:
  assumes "all_tended t" "rest r t' \<subseteq> rest r t" "live t' r \<Longrightarrow> tended (cell t' r)"
  shows "all_tended t'"
  using assms unfolding all_tended_def rest_def by (force simp: subset_iff)

named_theorems rest_simps \<open>handlers of one connection that leave the others alone\<close>

lemma rest_eq: "conns t' = conns t \<Longrightarrow> (\<And>q. q \<noteq> r \<Longrightarrow> cells t' q = cells t q) \<Longrightarrow> rest r t' = rest r t"
  by (force simp: rest_def live_def)

lemma rest_keeps: "keeps r t t' \<Longrightarrow> rest r t' = rest r t"
  by (rule rest_eq) (simp_all add: keeps_def)

lemma rest_base [rest_simps]:
  "rest r (upd t r f) = rest r t" "rest r (emit t b h) = rest r t" "rest r (sendFrame t p fr) = rest r t" "rest r (sendCmd t r ft) = rest r t"
  "rest r (deliverData t r pid i) = rest r t" "rest r (sendRRResponse t r s d) = rest r t" "rest r (t\<lparr>eng := e\<rparr>) = rest r t"
  "rest r (notifyPortSessions t p) = rest r t" "rest r (sendSABM t r) = rest r t" "rest r (sendSABME t r) = rest r t"
  by (rule rest_eq; simp add: sendSABM_def sendSABME_def)+

lemmas rest_kept [rest_simps] = keeps_timers [THEN rest_keeps] keeps_drainOutbound [THEN rest_keeps]
  keeps_retransmitRange [THEN rest_keeps] keeps_retransmitFrom [THEN rest_keeps] keeps_resendOne [THEN rest_keeps]
  keeps_enquire [THEN rest_keeps] keeps_polled [THEN rest_keeps] keeps_srejHoles [THEN rest_keeps]
  keeps_enterConnected [THEN rest_keeps] keeps_t2Expired [THEN rest_keeps] keeps_t3Expired [THEN rest_keeps]
  keeps_notifyConnectedOut [THEN rest_keeps] keeps_promote [THEN rest_keeps] keeps_sendXIDCommand [THEN rest_keeps]
  keeps_timerRecovery [THEN rest_keeps] keeps_answerPoll [THEN rest_keeps] keeps_answerDeferred [THEN rest_keeps]
  keeps_deferRR [THEN rest_keeps] keeps_busyStep [THEN rest_keeps] keeps_rejStep [THEN rest_keeps]

lemma rest_sampleRTT [rest_simps]: "rest r (sampleRTT n t r k) = rest r t"
proof (rule rest_eq)
  fix q assume "q \<noteq> r"
  then show "cells (sampleRTT n t r k) q = cells t q" using cells_sampleRTT [of n t r k] by auto
qed simp

lemma rest_ackFrames [rest_simps]: "rest r (ackFrames t r nr) = rest r t"
  by (simp add: ackFrames_def Let_def rest_simps)

lemma rest_flushRx [rest_simps]: "rest r (flushRx t r) = rest r t"
proof (induction t r rule: flushRx.induct)
  case (1 t r)
  have "rest r (flushStep t r e) = rest r t" for e by (simp add: flushStep_def Let_def rest_simps)
  with 1 show ?case by (subst flushRx.simps) (simp split: option.split)
qed

lemma rest_handlers [rest_simps]:
  "rest r (ackOrDelay t r pf s d) = rest r t" "rest r (sendSREJHoles t r s d l) = rest r t"
  "rest r (recvSREJ t r pp f s d) = rest r t" "rest r (recvREJ t r port pp f s d) = rest r t"
  "rest r (acceptSABM t r port via s d pf m) = rest r t" "rest r (snd (fallbackToSABM t r)) = rest r t"
  "rest r (superCore t r port f s d) = rest r t" "rest r (Disconnect t r) = rest r t" "rest r (snd (SendData t r pid x)) = rest r t"
  by (simp_all add: ackOrDelay_def sendSREJHoles_def recvSREJ_def recvREJ_def acceptSABM_def fallbackToSABM_def superCore_def
    Disconnect_def SendData_def Let_def rest_simps split: prod.split)

lemma rest_removeConn:
  assumes "table_inv t" "live t r"
  shows "rest r (removeConn t r) = rest r t"
  using removeConn_eqs(2) [OF assms] table_removeConn(3) [OF assms] by (force simp: rest_def)

section \<open>The handled connection\<close>

text \<open>State, T1 and an empty buffer kept: what the receivers and retransmission leave alone.\<close>

definition calm :: "conn \<Rightarrow> conn \<Rightarrow> bool" where
  "calm c c' \<longleftrightarrow> State c' = State c \<and> t1 c' = t1 c \<and> (retransmitBuf c = [] \<longrightarrow> retransmitBuf c' = [])"

lemma calm_refl [simp]: "calm c c"
  by (simp add: calm_def)

lemma calm_trans: "calm c c' \<Longrightarrow> calm c' c'' \<Longrightarrow> calm c c''"
  by (simp add: calm_def)

lemma calm_tended: "calm c c' \<Longrightarrow> tended c \<Longrightarrow> tended c'"
  by (auto simp: calm_def tended_def)

lemma calm_retransmitLoop: "retransmitLoop n t r seq toSeq = Some t' \<Longrightarrow> calm (cell t r) (cell t' r)"
proof (induction n arbitrary: t seq)
  case (Suc n)
  consider "retransmitLoop (Suc n) t r seq toSeq = Some t"
    | raw f where "map_of (retransmitBuf (cell t r)) seq = Some raw"
        "retransmitLoop n (resendStep t r seq f) r ((seq + 1) mod cModulo (cell t r)) toSeq = Some t'"
    using Suc.prems retransmitLoop_stop [of seq toSeq t r n] retransmitLoop_step [of seq toSeq t r _ _ n]
    by (metis not_None_eq sum.exhaust)
  then show ?case
  proof cases
    case (2 raw f)
    have "calm (cell t r) (cell (resendStep t r seq f) r)" using 2(1) by (auto simp: calm_def cells_resendStep)
    with Suc.IH [OF 2(2)] show ?thesis by (rule calm_trans [rotated])
  qed (use Suc.prems in simp)
qed simp

lemma calm_retransmit: "calm (cell t r) (cell (retransmitRange t r a b) r)" "calm (cell t r) (cell (retransmitFrom t r a) r)"
  by (auto simp: retransmitFrom_def retransmitRange_def split: option.split intro: calm_retransmitLoop)

lemma calm_resendOne: "calm (cell t r) (cell (resendOne t r nr) r)"
  by (auto simp: resendOne_def Let_def calm_def split: option.split sum.split)

lemma calm_srejHoles: "calm (cell t r) (cell (srejHoles is t r s d l) r)"
proof (induction "is" t r s d l rule: srejHoles.induct)
  case (2 i "is" t r s d l)
  then show ?case by (auto simp: Let_def calm_def)
qed simp

lemma calm_flushRx: "calm (cell t r) (cell (flushRx t r) r)"
proof (induction t r rule: flushRx.induct)
  case (1 t r)
  have "calm (cell t r) (cell (flushStep t r e) r)" for e by (simp add: calm_def)
  with 1 show ?case by (subst flushRx.simps) (auto split: option.split intro: calm_trans)
qed

lemma calm_ackOrDelay: "calm (cell t r) (cell (ackOrDelay t r pf s d) r)"
  by (simp add: ackOrDelay_def calm_def)

lemma calm_recv: "calm (cell t r) (cell (recvSREJ t r pp f s d) r)" "calm (cell t r) (cell (recvREJ t r port pp f s d) r)"
proof -
  note s = calm_trans [OF _ calm_srejHoles] and a = calm_trans [OF _ calm_ackOrDelay] calm_trans [OF _ calm_trans [OF calm_flushRx calm_ackOrDelay]]
  show "calm (cell t r) (cell (recvSREJ t r pp f s d) r)"
    unfolding recvSREJ_def sendSREJHoles_def Let_def by (auto intro!: s a(2) calm_ackOrDelay) (simp_all add: calm_def)
  show "calm (cell t r) (cell (recvREJ t r port pp f s d) r)"
    unfolding recvREJ_def Let_def by (auto intro!: a(1) calm_ackOrDelay) (simp_all add: calm_def)
qed

lemma tended_drainOutbound: "tended (cell t r) \<Longrightarrow> tended (cell (drainOutbound t r) r)"
  using same_link_drainLoop [of r t] by (auto simp: drainOutbound_def tended_def same_link_def)

lemma tended_ackFrames:
  assumes "State (cell t r) = Connected" "tended (cell t r)"
  shows "State (cell (ackFrames t r nr) r) = Connected" "tended (cell (ackFrames t r nr) r)"
proof -
  show "State (cell (ackFrames t r nr) r) = Connected" using same_link_ackFrames [of r t nr] assms(1) by (simp add: same_link_def)
  have "tended (cell (if retransmitBuf (cell (ackCore t r nr d) r) \<noteq> []
      then startT1 (ackCore t r nr d) r else cancelT1 (ackCore t r nr d) r) r)" for d
    using same_link_ackCore [of r t nr d] assms(1) by (simp add: tended_def same_link_def)
  then show "tended (cell (ackFrames t r nr) r)"
    using assms(2) tended_drainOutbound unfolding ackFrames_core Let_def by presburger
qed

lemma tended_timerRecovery:
  assumes "State (cell t r) = Connected" "tended (cell t r)"
  shows "tended (cell (timerRecovery t r f vs) r)"
proof -
  have "State (cell (retransmitRange u r a b) r) = State (cell u r)" for u a b using calm_retransmit(1) [of u r a b] by (simp add: calm_def)
  then show ?thesis using assms by (auto simp: timerRecovery_def Let_def tended_def)
qed

lemma tended_superCore:
  assumes st: "State (cell t r) = Connected" and ok: "tended (cell t r)"
  shows "tended (cell (superCore t r port f s d) r)"
proof -
  define u where "u = (if Type f \<noteq> SREJ \<or> PF f then ackFrames t r (NR f) else t)"
  have u: "State (cell u r) = Connected" "tended (cell u r)" using tended_ackFrames [OF st ok, of "NR f"] st ok by (simp_all add: u_def)
  have "tended (cell (upd u r (\<lambda>c. c\<lparr>remoteBusy := b\<rparr>)) r)" for b using u(2) by (simp add: tended_def)
  note busy = this calm_tended [OF calm_resendOne this] calm_tended [OF calm_retransmit(2)] tended_drainOutbound [OF this]
  have "State (cell (drainOutbound v r) r) = State (cell v r)" for v using same_link_drainOutbound [of r v] by (simp add: same_link_def)
  then have b: "State (cell (busyStep u r f) r) = Connected \<and> tended (cell (busyStep u r f) r)"
    using u busy by (simp add: busyStep_def)
  have "State (cell (retransmitFrom v r a) r) = State (cell v r)" for v a using calm_retransmit(2) [of v r a] by (simp add: calm_def)
  then have "State (cell (rejStep v r f) r) = Connected \<and> tended (cell (rejStep v r f) r)"
    if "State (cell v r) = Connected \<and> tended (cell v r)" for v
    using that calm_tended [OF calm_retransmit(2), of "upd v r (\<lambda>c. c\<lparr>remoteBusy := False\<rparr>)" r "NR f"]
    by (simp add: rejStep_def)
  with b tended_timerRecovery have "tended (cell (timerRecovery (rejStep (busyStep u r f) r f) r f vs) r)" for vs by blast
  moreover have "cells (answerPoll v port f s d) = cells v" for v
    by (simp add: answerPoll_def deferRR_def answerDeferred_def split: option.split)
  ultimately have "tended (cell (if Type f = SREJ then resendOne (upd u r (\<lambda>c. c\<lparr>remoteBusy := False\<rparr>)) r (NR f)
      else answerPoll (timerRecovery (rejStep (busyStep u r f) r f) r f vs) port f s d) r)" for vs
    using busy(2) by presburger
  then show ?thesis unfolding superCore_def Let_def u_def .
qed

lemma pristine_tended: "conn_inv w c \<Longrightarrow> State c = Connecting \<Longrightarrow> retransmitBuf c = []"
  by (simp add: conn_inv_def pristine_def)

lemma live_buf: "table_inv t \<Longrightarrow> live t r \<Longrightarrow> State (cell t r) = Connecting \<Longrightarrow> retransmitBuf (cell t r) = []"
  using live_cinv [of t r] pristine_tended by (auto simp: cinv_def)

lemma tended_promote:
  assumes "table_inv t" "live t r" "tended (cell t r)"
  shows "tended (cell (promote t (Some r)) r)"
  using assms live_buf [OF assms(1,2)] by (auto simp: promote_def notifyConnectedOut_def enterConnected_def tended_def)

section \<open>Every step\<close>

lemma tended_Get: "all_tended t \<Longrightarrow> Get t p l m = Some r \<Longrightarrow> tended (cell t r)"
  by (simp add: all_tended_def Get_live)

lemma tended_dispatchI:
  assumes inv: "table_inv t" and ok: "all_tended t"
  shows "all_tended (dispatchI t port f src dst)"
proof (cases "Get t port dst src")
  case (Some r)
  let ?t = "promote t (Some r)"
  have t: "tended (cell ?t r)" using tended_promote [OF inv Get_live [OF Some] tended_Get [OF ok Some]] .
  have "tended (cell (recvSREJ (ackFrames ?t r (NR f)) r pp f src dst) r)" "tended (cell (recvREJ (ackFrames ?t r (NR f)) r port pp f src dst) r)"
    if "State (cell ?t r) = Connected" for pp
    using tended_ackFrames(2) [OF that t] by (auto intro: calm_tended [OF calm_recv(1)] calm_tended [OF calm_recv(2)])
  with t show ?thesis
    unfolding dispatchI_def Some Let_def option.case
    by (intro tended_rest [OF ok, of r]) (auto simp: rest_simps)
qed (use ok in \<open>auto simp: dispatchI_def promote_def all_tended_def\<close>)

lemma tended_one:
  assumes "all_tended t" "rest r t' = rest r t" "tended (cell t' r)"
  shows "all_tended t'"
  using assms by (intro tended_rest [OF assms(1), of r]) simp_all

lemma tended_drop:
  assumes "all_tended t" "table_inv u" "live u r" "rest r u = rest r t"
  shows "all_tended (removeConn u r)"
  using assms table_removeConn(2) [OF assms(2,3)] rest_removeConn [OF assms(2,3)] by (intro tended_rest [OF assms(1), of r]) simp_all

lemma tended_same: "all_tended t \<Longrightarrow> conns t' = conns t \<Longrightarrow> cells t' = cells t \<Longrightarrow> all_tended t'"
  by (simp add: all_tended_def live_def)

lemma tended_dispatchS:
  assumes "all_tended t"
  shows "all_tended (dispatchS t port f src dst)"
  using assms tended_Get [OF assms]
  by (auto simp: dispatchS_core rest_simps split: option.split intro!: tended_one [OF assms] tended_superCore)

lemma tended_dispatchXID:
  assumes "all_tended t"
  shows "all_tended (dispatchXID t port f src dst)"
proof (cases "Get t port dst src")
  case (Some r)
  show ?thesis
    by (rule tended_one [OF assms, of r])
      (auto simp: dispatchXID_def Some Let_def rest_simps tended_Get [OF assms Some] split: sum.split)
qed (simp add: dispatchXID_def assms)

lemma tended_dispatchUA:
  assumes inv: "table_inv t" and ok: "all_tended t"
  shows "all_tended (dispatchUA t port f src dst)"
proof (cases "Get t port dst src")
  case (Some r)
  let ?e = "emit t (hDisconnected (thooks t)) (HDisconnected r)"
  consider "State (cell t r) = Disconnecting" | "State (cell t r) = Connecting" | "dispatchUA t port f src dst = t"
    by (cases "State (cell t r)") (simp_all add: dispatchUA_def Some)
  then show ?thesis
  proof cases
    case 1
    have "all_tended (removeConn ?e r)" using inv Get_live [OF Some] by (intro tended_drop [OF ok]) (simp_all add: rest_simps)
    with 1 show ?thesis by (simp add: dispatchUA_def Some)
  next
    case 2
    then have "retransmitBuf (cell t r) = []" using live_buf [OF inv Get_live [OF Some]] by simp
    with 2 show ?thesis
      by (intro tended_one [OF ok, of r])
        (simp_all add: dispatchUA_def Some Let_def rest_simps, simp add: tended_def enterConnected_def notifyConnectedOut_def sendXIDCommand_def)
  qed (simp add: ok)
qed (simp add: dispatchUA_def ok)

lemma tended_fallback: "State (cell t r) = Connecting \<Longrightarrow> tended (cell t r) \<Longrightarrow> tended (cell (snd (fallbackToSABM t r)) r)"
  by (simp add: fallbackToSABM_def sendSABM_def tended_def)

lemma tended_dispatchDM:
  assumes inv: "table_inv t" and ok: "all_tended t"
  shows "all_tended (dispatchDM t port f src dst)"
proof (cases "Get t port dst src")
  case (Some r)
  note lv = Get_live [OF Some] and tr = tended_Get [OF ok Some]
  have "all_tended (removeConn (emit t b h) r)" for b h
    using inv lv by (intro tended_drop [OF ok]) (simp_all add: rest_simps)
  moreover have "all_tended (snd (fallbackToSABM t r))" if "State (cell t r) = Connecting"
    using that tr by (intro tended_one [OF ok, of r]) (simp_all add: rest_simps tended_fallback)
  moreover have "all_tended (upd t r (\<lambda>c. c\<lparr>xidPending := False, srejEnabled := False\<rparr>))"
    using tr by (intro tended_one [OF ok, of r]) (simp_all add: rest_simps)
  ultimately show ?thesis by (auto simp: dispatchDM_def Some)
qed (simp add: dispatchDM_def ok)

lemma tended_dispatchDISC:
  assumes inv: "table_inv t" and ok: "all_tended t"
  shows "all_tended (dispatchDISC t port f src dst)"
proof (cases "Get t port dst src")
  case (Some r)
  then show ?thesis
    using inv Get_live [OF Some] by (auto simp: dispatchDISC_def Let_def rest_simps intro!: tended_drop [OF ok])
qed (use ok in \<open>auto simp: dispatchDISC_def intro: tended_same\<close>)

lemma tended_dispatchFRMR:
  assumes inv: "table_inv t" and ok: "all_tended t"
  shows "all_tended (dispatchFRMR t port f src dst)"
proof (cases "Get t port dst src")
  case (Some r)
  have "tended (cell (dispatchFRMR t port f src dst) r)"
    using tended_Get [OF ok Some] tended_fallback [of t r]
    by (auto simp: dispatchFRMR_def Some Let_def) (simp_all add: tended_def resetSeqs_def sendSABME_def sendSABM_def)
  then show ?thesis
    by (intro tended_one [OF ok, of r]) (simp_all add: dispatchFRMR_def Some Let_def rest_simps)
qed (simp add: dispatchFRMR_def ok)

lemma rest_getOrCreate:
  assumes "table_inv t" "getOrCreate t p l m = (Some r, t')"
  shows "rest r t' = rest r t"
  using assms(2)
proof (cases rule: getOrCreate_cases)
  case created
  have "\<not> live t (nextConn t)" using live_bound [OF assms(1)] by blast
  with created show ?thesis by (force simp: rest_def live_def)
qed simp_all

lemma tended_getOrCreate:
  assumes "table_inv t" "all_tended t" "\<And>t. all_tended (f t) = all_tended t"
    and "\<And>t r. rest r (g t r) = rest r t \<and> tended (cell (g t r) r)"
  shows "all_tended (case getOrCreate t p l m of (None, t) \<Rightarrow> f t | (Some r, t) \<Rightarrow> g t r)"
proof -
  obtain ro t' where g: "getOrCreate t p l m = (ro, t')" by fastforce
  show ?thesis
  proof (cases ro)
    case None
    then show ?thesis using g assms(2,3) table_getOrCreate_None [of t p l m t'] by simp
  next
    case (Some r)
    with assms(4) [of r t'] rest_getOrCreate [OF assms(1), of p l m r t'] g show ?thesis
      by (intro tended_one [OF assms(2), of r]) simp_all
  qed
qed

lemma all_tended_sendFrame [simp]: "all_tended (sendFrame t p f) = all_tended t"
  by (simp add: all_tended_def)

lemma tended_acceptSABM: "tended (cell (acceptSABM t r port via s d pf m) r)"
  by (simp add: acceptSABM_def Let_def) (simp add: tended_def enterConnected_def resetSeqs_def)

lemma tended_dispatchSABM:
  assumes "table_inv t" "all_tended t"
  shows "all_tended (dispatchSABM t port f src dst)" "all_tended (dispatchSABME t port f src dst)"
  using assms by (auto simp: dispatchSABM_def dispatchSABME_def Let_def rest_simps tended_acceptSABM intro!: tended_getOrCreate)

lemma tended_OnFrame:
  assumes "table_inv t" "all_tended t"
  shows "all_tended (OnFrame t port f)"
proof -
  let ?d = "dispatch t port f (addr_String (Src f)) (addr_String (Dst f))"
  have ok: "all_tended ?d"
    using assms by (cases "Type f") (simp_all add: dispatch_def tended_dispatchI tended_dispatchS tended_dispatchXID
      tended_dispatchUA tended_dispatchDM tended_dispatchDISC tended_dispatchFRMR tended_dispatchSABM)
  then show ?thesis
    by (auto simp: OnFrame_def Let_def rest_simps tended_Get [OF ok] split: option.split intro!: tended_one [OF ok])
qed

lemma tended_Connect:
  assumes "table_inv t" "all_tended t"
  shows "all_tended (snd (Connect t port l m via))"
proof (cases "firstBadCall (uni t) ([l, m] @ via)")
  case None
  obtain ro t' where g: "getOrCreate t port l m = (ro, t')" by fastforce
  show ?thesis
  proof (cases ro)
    case ro: None
    then show ?thesis using None g assms(2) table_getOrCreate_None [of t port l m t'] by (simp add: Connect_def)
  next
    case (Some r)
    have "rest r (snd (Connect t port l m via)) = rest r t'" "tended (cell (snd (Connect t port l m via)) r)"
      using None g Some by (simp_all add: Connect_def Let_def rest_simps) (simp add: tended_def resetSeqs_def sendSABME_def sendSABM_def)
    then show ?thesis using rest_getOrCreate [OF assms(1) g [unfolded Some]] by (intro tended_one [OF assms(2), of r]) simp_all
  qed
qed (simp add: Connect_def assms)

lemma tended_requests:
  assumes ok: "all_tended t" and r: "Get t p l m = Some r"
  shows "all_tended (Disconnect t r)" "all_tended (snd (SendData t r pid x))" "all_tended (upd t r (\<lambda>c. c\<lparr>Owner := ow\<rparr>))"
proof -
  show "all_tended (Disconnect t r)"
    by (rule tended_one [OF ok, of r]) (simp add: rest_simps, simp add: Disconnect_def Let_def tended_def)
  have "tended (cell (upd t r (\<lambda>c. c\<lparr>outQueue := q\<rparr>)) r)" for q using tended_Get [OF ok r] by simp
  from tended_drainOutbound [OF this] show "all_tended (snd (SendData t r pid x))"
    by (intro tended_one [OF ok, of r]) (simp add: rest_simps, simp add: SendData_def split: prod.split)
  show "all_tended (upd t r (\<lambda>c. c\<lparr>Owner := ow\<rparr>))"
    using tended_Get [OF ok r] by (intro tended_one [OF ok, of r]) (simp_all add: rest_simps)
qed

lemma tended_drops:
  assumes "table_inv t" "live t r" "all_tended t"
  shows "all_tended (dropOwned t r)" "all_tended (dropOffline t r)"
proof -
  let ?u = "if State (cell (cancelAll t r) r) = Connected \<or> State (cell (cancelAll t r) r) = Connecting
            then sendCmd (cancelAll t r) r DISC else cancelAll t r"
  have k: "keeps r t ?u" using keeps_trans [OF keeps_timers(4) keeps_simple(3)] by simp
  have "table_inv ?u" "live ?u r" using table_keeps [OF assms(1,2) k] assms(2) keeps_live [OF k] by blast+
  then show "all_tended (dropOwned t r)"
    unfolding dropOwned_def Let_def using rest_keeps [OF k] by (rule tended_drop [OF assms(3)])
  let ?v = "emit (cancelAll t r) (hDisconnected (thooks (cancelAll t r))) (HDisconnected r)"
  have k: "keeps r t ?v" by (rule keeps_trans [OF keeps_timers(4) keeps_simple(1)])
  have "table_inv ?v" "live ?v r" using table_keeps [OF assms(1,2) k] assms(2) keeps_live [OF k] by blast+
  then show "all_tended (dropOffline t r)"
    unfolding dropOffline_def Let_def using rest_keeps [OF k] by (rule tended_drop [OF assms(3)])
qed

lemma tended_fold:
  assumes "\<And>t r. table_inv t \<Longrightarrow> live t r \<Longrightarrow> all_tended t \<Longrightarrow>
      table_inv (f t r) \<and> all_tended (f t r) \<and> (\<forall>q. q \<noteq> r \<longrightarrow> live (f t r) q = live t q)"
    and "table_inv t" "all_tended t" "distinct rs" "\<forall>r\<in>set rs. live t r"
  shows "all_tended (foldl f t rs)"
  using assms(2-5)
proof (induction rs arbitrary: t)
  case (Cons r rs)
  then show ?case using assms(1) [of t r] by (auto intro!: Cons.IH) metis
qed simp

lemma tended_bulk:
  assumes "map_order ord" "table_inv t" "all_tended t"
  shows "all_tended (RemoveOwned ord t ow)" "all_tended (PortOffline ord t port)"
proof -
  note rs = removed_set [OF assms(1,2)]
  show "all_tended (RemoveOwned ord t ow)"
    unfolding RemoveOwned_def by (rule tended_fold [OF _ assms(2,3)]) (use rs table_dropOwned tended_drops in auto)
  show "all_tended (PortOffline ord t port)"
    unfolding PortOffline_def by (rule tended_fold [OF _ assms(2,3)]) (use rs table_dropOffline tended_drops in auto)
qed

lemma tended_giveUp:
  assumes "all_tended t" "table_inv t" "live t r" "keeps r t t'"
  shows "all_tended (giveUp t' r b h)"
proof -
  let ?u = "emit (upd t' r (\<lambda>c. c\<lparr>State := Disconnected\<rparr>)) b h"
  have k: "keeps r t ?u" by (rule keeps_trans [OF assms(4) keeps_trans [OF keeps_state keeps_simple(1)]]) simp
  have "table_inv ?u" "live ?u r" using table_keeps [OF assms(2,3) k] assms(3) keeps_live [OF k] by blast+
  then show ?thesis unfolding giveUp_def using rest_keeps [OF k] by (rule tended_drop [OF assms(1)])
qed

lemma enquire_cell: "State (cell (enquire t r) r) = State (cell t r)" "t1 (cell (enquire t r) r) \<noteq> None"
proof -
  have "State (cell (retransmitFrom u r a) r) = State (cell u r)" for u a using calm_retransmit(2) [of u r a] by (simp add: calm_def)
  then show "State (cell (enquire t r) r) = State (cell t r)" "t1 (cell (enquire t r) r) \<noteq> None"
    by (simp_all add: enquire_def Let_def)
qed

lemma tended_t1Expired:
  assumes ok: "all_tended t" and inv: "table_inv t" and r: "live t r"
  shows "all_tended (t1Expired t r)"
proof -
  have fb: "keeps r t (fallBack (polled t r) r n)" if "State (cell t r) = Connecting" for n
    using that by (intro keeps_trans [OF keeps_polled keeps_fallBack]) (simp add: polled_def)
  note gu = tended_giveUp [OF ok inv r keeps_polled] tended_giveUp [OF ok inv r fb]
  have nd: "State (cell t r) \<noteq> Disconnected" using ok r by (simp add: all_tended_def tended_def)
  have "all_tended (startT1 u r)" if "State (cell u r) \<noteq> Disconnected" "rest r u = rest r t" for u
    using that by (intro tended_one [OF ok, of r]) (simp_all add: rest_simps, simp add: tended_def)
  moreover have "all_tended (enquire (polled t r) r)"
    using nd enquire_cell [of "polled t r" r] by (intro tended_one [OF ok, of r]) (simp_all add: rest_simps tended_def polled_def)
  ultimately show ?thesis
    using gu nd unfolding t1Expired_alt Let_def
    by (cases "State (cell t r)")
      (simp_all add: rest_simps polled_def fallBack_def setupTimer_def sendSABME_def sendSABM_def)
qed

lemma tended_runClosure:
  assumes inv: "table_inv t" and ok: "all_tended t"
  shows "all_tended (runClosure t fn)"
proof (cases fn)
  case (T1Fn r i)
  then show ?thesis using ok tended_t1Expired [OF ok inv timer_live(1) [OF inv]] by (simp add: runClosure_def)
next
  case (T2Fn r i)
  then show ?thesis
    using ok timer_live(2) [OF inv, of r i]
    by (auto simp: runClosure_def all_tended_def rest_simps t2Expired_def Let_def intro!: tended_one [OF ok, of r])
next
  case (T3Fn r i)
  have "tended (cell (t3Expired t r) r)" if "live t r"
    using that ok by (auto simp: all_tended_def t3Expired_def Let_def) (simp add: tended_def)
  with T3Fn show ?thesis using ok timer_live(3) [OF inv, of r i] by (auto simp: runClosure_def rest_simps intro: tended_one [OF ok, of r])
next
  case (RRFn r s d)
  then show ?thesis by (auto simp: runClosure_def answerDeferred_def intro: tended_same [OF ok])
qed

lemma tended_step: "l2_step t t' \<Longrightarrow> table_inv t \<Longrightarrow> all_tended t \<Longrightarrow> all_tended t'"
proof (induction rule: l2_step.induct)
  case (run t fn fns)
  then show ?case by (intro tended_runClosure) (auto intro: tended_same)
qed (auto simp: tended_OnFrame tended_Connect tended_requests tended_bulk intro: tended_same)

definition timed_inv :: "table \<Rightarrow> bool" where
  "timed_inv t \<longleftrightarrow> table_inv t \<and> clock_ok t \<and> all_tended t"

interpretation l2_timed: invariant_system l2_init l2_step timed_inv
proof (unfold_locales, goal_cases)
  case (1 t)
  then show ?case by (auto simp: timed_inv_def l2_init_inv clock_init all_tended_def live_def l2_init_def NewTable_def)
next
  case (2 t t')
  then show ?case by (auto simp: timed_inv_def intro: l2_step_inv clock_step tended_step)
qed

text \<open>In every reachable table, a connection that waits for an answer has a T1 function on its way.\<close>

lemma reachable_timed:
  assumes "l2_init s" "l2_step\<^sup>*\<^sup>* s t" "live t r"
    and "State (cell t r) \<noteq> Connected \<or> retransmitBuf (cell t r) \<noteq> [] \<or> t1 (cell t r) \<noteq> None"
  obtains tid where "timed_inv t" "t1 (cell t r) = Some tid" "T1Fn r tid \<in> scheduled (eng t)"
proof -
  have i: "timed_inv t" using assms(1,2) by (rule l2_timed.reachable_inv)
  then have "tended (cell t r)" using assms(3) by (simp add: timed_inv_def all_tended_def)
  then obtain tid where t: "t1 (cell t r) = Some tid" using assms(4) by (auto simp: tended_def)
  have "T1Fn r tid \<in> scheduled (eng t)" using i t by (intro clockD) (simp_all add: timed_inv_def)
  with i t that show thesis by blast
qed

end
