(* ===== verification/L2_Silent.thy ===== *)
theory L2_Silent
  imports L2_Sending L2_Tended
begin

text \<open>
  A peer that says nothing.  In a silent run time passes, due timers fire, their functions are posted
  and the loop runs them; no frame arrives and no client asks for anything.  A connection that waits for
  an answer always has its T1 function on its way, every run of it is a retry or the end, and so the
  connection is given up once the engine has run what it owes.
\<close>

inductive quiet_step :: "table \<Rightarrow> table \<Rightarrow> bool" where
  tick: "quiet_step t (t\<lparr>eng := Tick (eng t) d\<rparr>)"
| fire: "quiet_step t (t\<lparr>eng := Fire (eng t) tid\<rparr>)"
| post: "quiet_step t (t\<lparr>eng := Post (eng t) i\<rparr>)"
| run: "queue (eng t) = fn # fns \<Longrightarrow> quiet_step t (runClosure (t\<lparr>eng := (eng t)\<lparr>queue := fns\<rparr>\<rparr>) fn)"

lemma quiet_l2_step: "quiet_step t t' \<Longrightarrow> l2_step t t'"
  by (induction rule: quiet_step.induct) (rule l2_step.intros, simp?)+

section \<open>What an expiry does\<close>

lemma retransmitLoop_timers:
  "retransmitLoop n t r seq toSeq = Some t' \<Longrightarrow> eng t' = eng t \<and> t3 (cell t' r) = t3 (cell t r)"
  by (induction n t r seq toSeq rule: retransmitLoop.induct) (auto simp: Let_def split: if_splits option.splits sum.splits)

lemma enquire_timers:
  "t1 (cell (enquire t r) r) = Some (nextTimer (eng t))" "t3 (cell (enquire t r) r) = t3 (cell t r)"
proof -
  have "eng (retransmitFrom u r a) = eng u \<and> t3 (cell (retransmitFrom u r a) r) = t3 (cell u r)" for u a
    using retransmitLoop_timers [of 256 u r a] by (auto simp: retransmitFrom_def retransmitRange_def split: option.split)
  then show "t1 (cell (enquire t r) r) = Some (nextTimer (eng t))" "t3 (cell (enquire t r) r) = t3 (cell t r)"
    by (simp_all add: enquire_def Let_def)
qed

lemma t1Expired_rearms:
  assumes "State (cell t r) \<noteq> Disconnected" "t1Polls (cell t r) < retries t r"
  shows "t1 (cell (t1Expired t r) r) = Some (nextTimer (eng t))" "t3 (cell (t1Expired t r) r) = t3 (cell t r)"
    "State (cell (t1Expired t r) r) = State (cell t r)" "cPort (cell (t1Expired t r) r) = cPort (cell t r)"
proof -
  have no: "\<not> t1Polls (cell (polled t r) r) > N2Retry (portParams t (cPort (cell t r)))"
    using assms(2) by (simp add: polled_fields retries_def)
  have "cPort (cell (enquire u r) r) = cPort (cell u r)" for u using keeps_enquire [of r u] by (simp add: keeps_def ident_def)
  then show "t1 (cell (t1Expired t r) r) = Some (nextTimer (eng t))" "t3 (cell (t1Expired t r) r) = t3 (cell t r)"
    "State (cell (t1Expired t r) r) = State (cell t r)" "cPort (cell (t1Expired t r) r) = cPort (cell t r)"
    using assms(1) no enquire_timers [of "polled t r" r] enquire_cell(1) [of "polled t r" r] unfolding t1Expired_alt Let_def
    by (cases "State (cell t r)"; simp add: polled_def fallBack_def setupTimer_def sendSABME_def sendSABM_def)+
qed

lemma rest_t1Expired:
  assumes inv: "table_inv t" and r: "live t r"
  shows "rest r (t1Expired t r) = rest r t"
proof -
  have gu: "rest r (giveUp u r b h) = rest r t" if "keeps r t u" for u b h
  proof -
    let ?u = "emit (upd u r (\<lambda>c. c\<lparr>State := Disconnected\<rparr>)) b h"
    have k: "keeps r t ?u" by (rule keeps_trans [OF that keeps_trans [OF keeps_state keeps_simple(1)]]) simp
    have "table_inv ?u" "live ?u r" using table_keeps [OF inv r k] r keeps_live [OF k] by blast+
    from rest_removeConn [OF this] rest_keeps [OF k] show ?thesis by (simp add: giveUp_def)
  qed
  have fb: "keeps r t (fallBack (polled t r) r n)" if "State (cell t r) = Connecting" for n
    using that by (intro keeps_trans [OF keeps_polled keeps_fallBack]) (simp add: polled_def)
  have fr: "rest r (fallBack u r n) = rest r u" for u n by (simp add: fallBack_def rest_simps)
  show ?thesis
    using gu [OF keeps_polled] gu [OF fb] unfolding t1Expired_alt Let_def
    by (cases "State (cell t r)") (simp_all add: rest_simps fr)
qed

lemma rest_other:
  assumes "rest q t' = rest q t" "r \<noteq> q"
  shows "live t' r = live t r" "live t r \<Longrightarrow> cell t' r = cell t r"
proof -
  have e: "live u r \<longleftrightarrow> (r, cell u r) \<in> rest q u" for u using assms(2) by (auto simp: rest_def)
  have c: "(r, c) \<in> rest q u \<Longrightarrow> c = cell u r" for u c by (auto simp: rest_def)
  show 1: "live t' r = live t r" using e c assms(1) by metis
  show "live t r \<Longrightarrow> cell t' r = cell t r" using e c assms(1) by metis
qed

lemma conf_t1Expired:
  assumes inv: "table_inv t" and r: "live t r"
  shows "same_conf t (t1Expired t r)"
proof -
  have gu: "same_conf t (giveUp u r b h)" if "keeps r t u" for u b h
  proof -
    let ?u = "emit (upd u r (\<lambda>c. c\<lparr>State := Disconnected\<rparr>)) b h"
    have k: "keeps r t ?u" by (rule keeps_trans [OF that keeps_trans [OF keeps_state keeps_simple(1)]]) simp
    have "table_inv ?u" "live ?u r" using table_keeps [OF inv r k] r keeps_live [OF k] by blast+
    from removeConn_eqs(3) [OF this] k show ?thesis by (simp add: giveUp_def keeps_def same_conf_def)
  qed
  have fb: "keeps r t (fallBack (polled t r) r n)" if "State (cell t r) = Connecting" for n
    using that by (intro keeps_trans [OF keeps_polled keeps_fallBack]) (simp add: polled_def)
  have "same_conf t (enquire (polled t r) r)" using keeps_trans [OF keeps_polled keeps_enquire] by (simp add: keeps_def)
  then show ?thesis
    using gu [OF keeps_polled] gu [OF fb] unfolding t1Expired_alt Let_def
    by (cases "State (cell t r)")
      (auto simp: same_conf_def polled_def fallBack_def setupTimer_def sendSABME_def sendSABM_def)
qed

lemma conf_runClosure:
  assumes "table_inv t"
  shows "same_conf t (runClosure t fn)"
  using conf_t1Expired [OF assms] timer_live(1) [OF assms] keeps_t2Expired keeps_t3Expired keeps_answerDeferred
  by (cases fn) (auto simp: runClosure_def keeps_def same_conf_def)

lemma conf_quiet: "quiet_step t t' \<Longrightarrow> table_inv t \<Longrightarrow> same_conf t t'"
proof (induction rule: quiet_step.induct)
  case (run t fn fns)
  then show ?case using conf_runClosure [of "t\<lparr>eng := (eng t)\<lparr>queue := fns\<rparr>\<rparr>" fn] by (simp add: same_conf_def)
qed (simp_all add: same_conf_def)

text \<open>One silent step, seen from connection \<open>r\<close>.\<close>

definition unmoved :: "ref \<Rightarrow> table \<Rightarrow> table \<Rightarrow> bool" where
  "unmoved r t t' \<longleftrightarrow> live t' r \<and> State (cell t' r) = State (cell t r) \<and> cPort (cell t' r) = cPort (cell t r)"

definition idle_step :: "ref \<Rightarrow> table \<Rightarrow> table \<Rightarrow> bool" where
  "idle_step r t t' \<longleftrightarrow> unmoved r t t' \<and> t1 (cell t' r) = t1 (cell t r) \<and> t1Polls (cell t' r) = t1Polls (cell t r)
     \<and> (t3 (cell t' r) = t3 (cell t r) \<or> t3 (cell t' r) = None)"

definition poll_step :: "ref \<Rightarrow> table \<Rightarrow> table \<Rightarrow> bool" where
  "poll_step r t t' \<longleftrightarrow> unmoved r t t' \<and> t1 (cell t' r) = Some (nextTimer (eng t)) \<and> t1Polls (cell t' r) = 0
     \<and> t3 (cell t r) \<noteq> None \<and> t3 (cell t' r) = None"

definition retry_step :: "ref \<Rightarrow> table \<Rightarrow> table \<Rightarrow> bool" where
  "retry_step r t t' \<longleftrightarrow> unmoved r t t' \<and> t1 (cell t' r) = Some (nextTimer (eng t)) \<and> t1Polls (cell t r) < retries t r
     \<and> t1Polls (cell t' r) = t1Polls (cell t r) + 1 \<and> t3 (cell t' r) = t3 (cell t r)"

definition last_step :: "ref \<Rightarrow> table \<Rightarrow> table \<Rightarrow> bool" where
  "last_step r t t' \<longleftrightarrow> \<not> live t' r \<and> retries t r \<le> t1Polls (cell t r)
     \<and> (hDisconnected (thooks t) \<and> State (cell t r) \<noteq> Connecting \<longrightarrow> HDisconnected r \<in> set (out t'))
     \<and> (hConnectFailed (thooks t) \<and> State (cell t r) = Connecting \<longrightarrow> HConnectFailed r FailTimeout \<in> set (out t'))"

lemmas step_kinds = idle_step_def poll_step_def retry_step_def last_step_def unmoved_def

lemma idle_other:
  assumes "rest q t' = rest q t" "r \<noteq> q" "live t r"
  shows "idle_step r t t'"
  using rest_other [OF assms(1,2)] assms(3) by (simp add: step_kinds)

lemma expired_kinds:
  assumes inv: "table_inv t" and r: "live t r" and st: "State (cell t r) \<noteq> Disconnected"
  shows "retry_step r t (t1Expired t r) \<or> last_step r t (t1Expired t r)"
proof (cases "t1Polls (cell t r) < retries t r")
  case True
  have "retrying t r" using assms by (simp add: retrying_def)
  from t1Expired_retry [OF this True] t1Expired_rearms [OF st True] True
  show ?thesis by (simp add: step_kinds retrying_def)
next
  case False
  have "retrying t r" using assms by (simp add: retrying_def)
  from t1Expired_gives_up [OF this] False show ?thesis by (simp add: last_step_def)
qed

lemma quiet_kinds:
  assumes "quiet_step t t'" "timed_inv t" "live t r"
  shows "idle_step r t t' \<or> poll_step r t t' \<or> retry_step r t t' \<or> last_step r t t'"
  using assms
proof (induction rule: quiet_step.induct)
  case (run t fn fns)
  let ?u = "t\<lparr>eng := (eng t)\<lparr>queue := fns\<rparr>\<rparr>"
  have u: "table_inv ?u" "live ?u r" "State (cell ?u r) \<noteq> Disconnected"
    using run.prems by (auto simp: timed_inv_def live_def all_tended_def tended_def)
  note lv = timer_live [OF u(1)]
  have eq: "idle_step r ?u = idle_step r t" "poll_step r ?u = poll_step r t" "retry_step r ?u = retry_step r t" "last_step r ?u = last_step r t"
    by (simp_all add: fun_eq_iff step_kinds retries_def portParams_def)
  have idle: "idle_step r ?u ?u" using u by (simp add: step_kinds)
  show ?case
  proof (cases fn)
    case (T1Fn q i)
    then show ?thesis
      using expired_kinds [OF u] idle idle_other [OF rest_t1Expired [OF u(1) lv(1)] _ u(2), of q i] unfolding eq [symmetric]
      by (cases "q = r") (auto simp: runClosure_def)
  next
    case (T2Fn q i)
    have "idle_step r ?u (t2Expired ?u r)" using u by (simp add: step_kinds t2Expired_def Let_def live_def)
    with T2Fn show ?thesis
      using idle idle_other [OF keeps_t2Expired [THEN rest_keeps] _ u(2)] unfolding eq [symmetric]
      by (cases "q = r") (auto simp: runClosure_def)
  next
    case (T3Fn q i)
    have "idle_step r ?u (t3Expired ?u r) \<or> poll_step r ?u (t3Expired ?u r)" if "t3 (cell t r) \<noteq> None"
      using that u by (cases "State (cell t r) = Connected") (auto simp: step_kinds t3Expired_def Let_def live_def)
    with T3Fn show ?thesis
      using idle idle_other [OF keeps_t3Expired [THEN rest_keeps] _ u(2)] unfolding eq [symmetric]
      by (cases "q = r") (auto simp: runClosure_def)
  next
    case (RRFn q s d)
    then show ?thesis
      using u unfolding eq [symmetric] by (simp add: runClosure_def answerDeferred_def step_kinds live_def)
  qed
qed (simp_all add: step_kinds live_def)

lemma quiet_dead:
  assumes "quiet_step t t'" "table_inv t" "\<not> live t r"
  shows "\<not> live t' r"
  using assms
proof (induction rule: quiet_step.induct)
  case (run t fn fns)
  let ?u = "t\<lparr>eng := (eng t)\<lparr>queue := fns\<rparr>\<rparr>"
  have u: "table_inv ?u" "\<not> live ?u r" using run.prems by (simp_all add: live_def)
  note lv = timer_live [OF u(1)]
  have "live (runClosure ?u fn) r = live ?u r"
  proof (cases fn)
    case (T1Fn q i)
    then show ?thesis
      using u(2) lv(1) [of q i] rest_other(1) [OF rest_t1Expired [OF u(1) lv(1)], of q i r] by (cases "q = r") (auto simp: runClosure_def)
  qed (auto simp: runClosure_def keeps_live [OF keeps_t2Expired] keeps_live [OF keeps_t3Expired] keeps_live [OF keeps_answerDeferred])
  with u(2) show ?case by simp
qed (simp_all add: live_def)

section \<open>Silent runs\<close>

definition rank :: "table \<Rightarrow> ref \<Rightarrow> nat" where
  "rank t r = nat (retries t r + 1 - t1Polls (cell t r)) + (if t3 (cell t r) = None then 0 else nat (retries t r + 1) + 1)"

lemma stored_id: "clock_ok t \<Longrightarrow> t1 (cell t r) = Some i \<Longrightarrow> i < nextTimer (eng t)"
  using clockD [of t "T1Fn r i"] ids_bound [of "eng t" "T1Fn r i" i] by (simp add: clock_ok_def)

lemma retries_kept: "same_conf t t' \<Longrightarrow> unmoved r t t' \<Longrightarrow> retries t' r = retries t r"
  by (simp add: retries_def unmoved_def same_conf_portParams)

text \<open>While the connection lives, T1 stays stored; a step that changes it brings the end nearer.\<close>

lemma quiet_progress:
  assumes q: "quiet_step t t'" and inv: "timed_inv t" and r: "live t r" "live t' r" and t1: "t1 (cell t r) \<noteq> None"
  shows "t1 (cell t' r) \<noteq> None \<and> State (cell t' r) = State (cell t r) \<and> retries t' r = retries t r \<and> rank t' r \<le> rank t r
    \<and> (t1 (cell t' r) \<noteq> t1 (cell t r) \<longrightarrow> rank t' r < rank t r)"
proof -
  have "same_conf t t'" using conf_quiet [OF q] inv by (simp add: timed_inv_def)
  moreover have "unmoved r t t'" using quiet_kinds [OF q inv r(1)] r(2) by (auto simp: step_kinds)
  ultimately have n: "retries t' r = retries t r" by (rule retries_kept)
  from quiet_kinds [OF q inv r(1)] show ?thesis
    using n t1 r(2) by (auto simp: rank_def step_kinds)
qed

text \<open>A silent run from a table in which connection \<open>r\<close> has T1 running.\<close>

definition silent_run :: "(nat \<Rightarrow> table) \<Rightarrow> ref \<Rightarrow> bool" where
  "silent_run run r \<longleftrightarrow> timed_inv (run 0) \<and> live (run 0) r \<and> t1 (cell (run 0) r) \<noteq> None
     \<and> (\<forall>i. quiet_step (run i) (run (Suc i)))"

lemma silent_timed: "silent_run run r \<Longrightarrow> timed_inv (run i)"
  by (induction i) (auto simp: silent_run_def intro: l2_timed.inv_step quiet_l2_step)

lemma silent_dead:
  assumes "silent_run run r" "\<not> live (run i) r" "i \<le> j"
  shows "\<not> live (run j) r"
  using assms(3)
proof (induction rule: dec_induct)
  case (step k)
  then show ?case using quiet_dead [of "run k"] silent_timed [OF assms(1), of k] assms(1) by (auto simp: silent_run_def timed_inv_def)
qed (simp add: assms)

lemma silent_progress:
  assumes s: "silent_run run r" and live: "live (run (Suc i)) r" and t1: "t1 (cell (run i) r) \<noteq> None"
  shows "t1 (cell (run (Suc i)) r) \<noteq> None \<and> State (cell (run (Suc i)) r) = State (cell (run i) r)
    \<and> retries (run (Suc i)) r = retries (run i) r \<and> rank (run (Suc i)) r \<le> rank (run i) r
    \<and> (t1 (cell (run (Suc i)) r) \<noteq> t1 (cell (run i) r) \<longrightarrow> rank (run (Suc i)) r < rank (run i) r)"
proof -
  have "live (run i) r" using silent_dead [OF s, of i "Suc i"] live by auto
  then show ?thesis using s live t1 silent_timed [OF s, of i] by (intro quiet_progress) (auto simp: silent_run_def)
qed

lemma silent_conf: "silent_run run r \<Longrightarrow> same_conf (run 0) (run i)"
proof (induction i)
  case (Suc i)
  then have "same_conf (run i) (run (Suc i))"
    using conf_quiet [of "run i" "run (Suc i)"] silent_timed [of run r i] by (simp add: silent_run_def timed_inv_def)
  with Suc show ?case by (simp add: same_conf_def)
qed (simp add: same_conf_def)

lemma silent_kept:
  assumes s: "silent_run run r" and live: "live (run i) r"
  shows "t1 (cell (run i) r) \<noteq> None \<and> State (cell (run i) r) = State (cell (run 0) r) \<and> retries (run i) r = retries (run 0) r"
  using live
proof (induction i)
  case 0
  then show ?case using s by (simp add: silent_run_def)
next
  case (Suc i)
  have "live (run i) r" using silent_dead [OF s, of i "Suc i"] Suc.prems by auto
  with Suc.IH silent_progress [OF s Suc.prems] show ?case by simp
qed

lemma silent_rank:
  assumes s: "silent_run run r" and "i \<le> j" "live (run j) r"
  shows "rank (run j) r \<le> rank (run i) r \<and> (t1 (cell (run j) r) \<noteq> t1 (cell (run i) r) \<longrightarrow> rank (run j) r < rank (run i) r)"
  using assms(2,3)
proof (induction rule: dec_induct)
  case (step k)
  have l: "live (run k) r" using silent_dead [OF s, of k "Suc k"] step.prems by auto
  from step.IH [OF l] silent_progress [OF s step.prems conjunct1 [OF silent_kept [OF s l]]] show ?case by auto
qed simp

text \<open>The T1 that is stored is on its way: the connection is never left waiting on nothing.\<close>

lemma silent_scheduled:
  assumes s: "silent_run run r" and live: "live (run i) r"
  obtains tid where "t1 (cell (run i) r) = Some tid" "T1Fn r tid \<in> scheduled (eng (run i))"
proof -
  obtain tid where t: "t1 (cell (run i) r) = Some tid" using silent_kept [OF assms] by blast
  moreover have "T1Fn r tid \<in> scheduled (eng (run i))"
    using t silent_timed [OF s, of i] by (intro clockD) (simp_all add: timed_inv_def)
  ultimately show thesis by (rule that)
qed

text \<open>If no T1 function of the connection stays on its way for ever, the rank falls until the connection is gone.\<close>

lemma silent_falls:
  assumes s: "silent_run run r" and fair: "\<And>i tid. T1Fn r tid \<in> scheduled (eng (run i)) \<Longrightarrow> \<exists>j\<ge>i. T1Fn r tid \<notin> scheduled (eng (run j))"
    and live: "live (run i) r"
  shows "\<exists>j\<ge>i. \<not> live (run j) r \<or> rank (run j) r < rank (run i) r"
proof -
  obtain tid where t: "t1 (cell (run i) r) = Some tid" "T1Fn r tid \<in> scheduled (eng (run i))" by (rule silent_scheduled [OF s live])
  then obtain j where j: "j \<ge> i" "T1Fn r tid \<notin> scheduled (eng (run j))" using fair by blast
  then have "t1 (cell (run j) r) \<noteq> Some tid" using silent_timed [OF s, of j] clockD [of "run j" "T1Fn r tid"] by (auto simp: timed_inv_def)
  with silent_rank [OF s j(1)] j(1) t(1) show ?thesis by auto
qed

lemma silent_ends:
  assumes s: "silent_run run r" and fair: "\<And>i tid. T1Fn r tid \<in> scheduled (eng (run i)) \<Longrightarrow> \<exists>j\<ge>i. T1Fn r tid \<notin> scheduled (eng (run j))"
  shows "\<exists>j. \<not> live (run j) r"
proof -
  have "\<exists>j. \<not> live (run j) r" for i :: nat
  proof (induction "rank (run i) r" arbitrary: i rule: less_induct)
    case less
    then show ?case using silent_falls [OF s fair, of i] by blast
  qed
  then show ?thesis .
qed

lemma silent_last:
  assumes s: "silent_run run r" and fair: "\<And>i tid. T1Fn r tid \<in> scheduled (eng (run i)) \<Longrightarrow> \<exists>j\<ge>i. T1Fn r tid \<notin> scheduled (eng (run j))"
  obtains n where "\<And>i. live (run i) r \<longleftrightarrow> i \<le> n" "last_step r (run n) (run (Suc n))"
proof -
  define m where "m = (LEAST j. \<not> live (run j) r)"
  have m: "\<not> live (run m) r" unfolding m_def using silent_ends [OF assms] by (rule LeastI_ex)
  then have "m \<noteq> 0" using s by (auto simp: silent_run_def intro: gr0I)
  then obtain n where n: "m = Suc n" using not0_implies_Suc by blast
  have l: "live (run i) r" if "i \<le> n" for i using not_less_Least [of i "\<lambda>j. \<not> live (run j) r"] that n by (auto simp: m_def)
  have "live (run i) r \<longleftrightarrow> i \<le> n" for i using l [of i] silent_dead [OF s m, of i] n by (cases "i \<le> n") auto
  moreover have "last_step r (run n) (run (Suc n))"
    using quiet_kinds [OF _ silent_timed [OF s, of n] l [OF le_refl], of "run (Suc n)"] m n s by (auto simp: step_kinds silent_run_def)
  ultimately show thesis by (rule that)
qed

text \<open>With no T3 running, every change of T1 is one retry.\<close>

definition expiries :: "(nat \<Rightarrow> table) \<Rightarrow> ref \<Rightarrow> nat \<Rightarrow> nat" where
  "expiries run r n = card {i. i < n \<and> t1 (cell (run (Suc i)) r) \<noteq> t1 (cell (run i) r)}"

lemma expiries_Suc:
  "expiries run r (Suc n) = (if t1 (cell (run (Suc n)) r) \<noteq> t1 (cell (run n) r) then Suc (expiries run r n) else expiries run r n)"
proof -
  have "{i. i < Suc n \<and> t1 (cell (run (Suc i)) r) \<noteq> t1 (cell (run i) r)} =
    (if t1 (cell (run (Suc n)) r) \<noteq> t1 (cell (run n) r) then insert n {i. i < n \<and> t1 (cell (run (Suc i)) r) \<noteq> t1 (cell (run i) r)}
     else {i. i < n \<and> t1 (cell (run (Suc i)) r) \<noteq> t1 (cell (run i) r)})" by (auto simp: less_Suc_eq)
  then show ?thesis by (simp add: expiries_def)
qed

lemma silent_counts:
  assumes s: "silent_run run r" and t3: "t3 (cell (run 0) r) = None" and le: "t1Polls (cell (run 0) r) \<le> retries (run 0) r"
    and live: "live (run i) r"
  shows "t3 (cell (run i) r) = None \<and> t1Polls (cell (run i) r) = t1Polls (cell (run 0) r) + int (expiries run r i)
    \<and> t1Polls (cell (run i) r) \<le> retries (run 0) r"
  using live
proof (induction i)
  case 0
  then show ?case using t3 le by (simp add: expiries_def)
next
  case (Suc i)
  have l: "live (run i) r" using silent_dead [OF s, of i "Suc i"] Suc.prems by auto
  have "t1 (cell (run i) r) \<noteq> Some (nextTimer (eng (run i)))"
    using stored_id [of "run i" r "nextTimer (eng (run i))"] silent_timed [OF s, of i] by (auto simp: timed_inv_def)
  moreover have "idle_step r (run i) (run (Suc i)) \<or> poll_step r (run i) (run (Suc i)) \<or> retry_step r (run i) (run (Suc i))"
    using quiet_kinds [OF _ silent_timed [OF s, of i] l, of "run (Suc i)"] Suc.prems s by (auto simp: silent_run_def last_step_def)
  ultimately show ?case
    using Suc.IH [OF l] silent_kept [OF s l] by (auto simp: step_kinds expiries_Suc)
qed

end
