(* ===== verification/L2_Estimator.thy ===== *)
theory L2_Estimator
  imports L2_Invariant
begin

text \<open>
  The round-trip estimator against its reference: the smoothed round trip and its mean deviation
  with gains one eighth and one quarter, computed exactly.  The code truncates to whole nanoseconds
  at every step; the error this leaves does not grow with the number of samples.
\<close>

definition rttRef :: "rat \<times> rat \<Rightarrow> int \<Rightarrow> rat \<times> rat" where
  "rttRef sv rtt = (case sv of (s, v) \<Rightarrow> ((7 * s + of_int rtt) / 8, (3 * v + \<bar>s - of_int rtt\<bar>) / 4))"

fun rttRefs :: "int list \<Rightarrow> rat \<times> rat" where
  "rttRefs [] = (0, 0)"
| "rttRefs (rtt # rtts) = foldl rttRef (of_int rtt, of_int rtt / 2) rtts"

definition clamp :: "'a::linorder \<Rightarrow> 'a \<Rightarrow> 'a \<Rightarrow> 'a" where
  "clamp lo hi x = min hi (max lo x)"

definition effFloor :: "int \<Rightarrow> int" where
  "effFloor floor0 = (if floor0 \<le> 0 then defaultT1Setup else floor0)"

definition tracks :: "int \<Rightarrow> int \<Rightarrow> rat \<times> rat \<Rightarrow> bool" where
  "tracks S V sv \<longleftrightarrow> 0 < S \<and> 0 \<le> V \<and> 0 \<le> fst sv - of_int S \<and> fst sv - of_int S < 8 \<and> \<bar>snd sv - of_int V\<bar> \<le> 12"

lemma go_div_pos: "0 \<le> a \<Longrightarrow> 0 < b \<Longrightarrow> go_div a b = a div b"
  by (cases "a = 0") (simp_all add: go_div_def)

lemma trunc_rat:
  assumes "0 < (b::int)"
  shows "of_int (a div b) * of_int b \<le> (of_int a :: rat)" "(of_int a :: rat) < of_int (a div b) * of_int b + of_int b"
proof -
  have "a div b * b \<le> a" "a < a div b * b + b"
    using assms pos_mod_sign [of b a] pos_mod_bound [of b a] div_mult_mod_eq [of a b] by linarith+
  then have "(of_int (a div b * b) :: rat) \<le> of_int a" "(of_int a :: rat) < of_int (a div b * b + b)"
    by (simp_all only: of_int_le_iff of_int_less_iff)
  then show "of_int (a div b) * of_int b \<le> (of_int a :: rat)" "(of_int a :: rat) < of_int (a div b) * of_int b + of_int b"
    by simp_all
qed

lemma tracks_first: "0 < rtt \<Longrightarrow> tracks rtt (go_div rtt 2) (of_int rtt, of_int rtt / 2)"
  using trunc_rat [of 2 rtt] by (simp add: tracks_def go_div_pos abs_le_iff)

lemma trunc_errors:
  fixes s v S V R q p :: rat
  assumes "0 \<le> s - S" "s - S < 8"
  shows "q * 8 \<le> 7 * S + R \<Longrightarrow> 0 \<le> (7 * s + R) / 8 - q" "7 * S + R < q * 8 + 8 \<Longrightarrow> (7 * s + R) / 8 - q < 8"
    "\<bar>v - V\<bar> \<le> 12 \<Longrightarrow> p * 4 \<le> 3 * V + \<bar>S - R\<bar> \<Longrightarrow> 3 * V + \<bar>S - R\<bar> < p * 4 + 4 \<Longrightarrow> \<bar>(3 * v + \<bar>s - R\<bar>) / 4 - p\<bar> \<le> 12"
proof -
  show "q * 8 \<le> 7 * S + R \<Longrightarrow> 0 \<le> (7 * s + R) / 8 - q" "7 * S + R < q * 8 + 8 \<Longrightarrow> (7 * s + R) / 8 - q < 8"
    using assms by (simp_all add: field_simps)
  assume a: "\<bar>v - V\<bar> \<le> 12" "p * 4 \<le> 3 * V + \<bar>S - R\<bar>" "3 * V + \<bar>S - R\<bar> < p * 4 + 4"
  have "\<bar>s - R\<bar> \<le> \<bar>S - R\<bar> + 8" "\<bar>S - R\<bar> \<le> \<bar>s - R\<bar> + 8" using assms by linarith+
  with a have "\<bar>3 * v + \<bar>s - R\<bar> - p * 4\<bar> \<le> 48" unfolding abs_le_iff by linarith
  then show "\<bar>(3 * v + \<bar>s - R\<bar>) / 4 - p\<bar> \<le> 12" by (simp add: abs_le_iff field_simps)
qed

lemma tracks_next:
  assumes "tracks S V sv" "0 < R"
  shows "tracks (go_div (7 * S + R) 8) (go_div (3 * V + \<bar>S - R\<bar>) 4) (rttRef sv R)"
proof -
  obtain s v where sv: "sv = (s, v)" by fastforce
  have S: "0 < S" "0 \<le> V" and e: "0 \<le> s - of_int S" "s - of_int S < 8" and d: "\<bar>v - of_int V\<bar> \<le> 12"
    using assms(1) by (simp_all add: tracks_def sv)
  let ?S = "(7 * S + R) div 8" and ?V = "(3 * V + \<bar>S - R\<bar>) div 4"
  have g: "go_div (7 * S + R) 8 = ?S" "go_div (3 * V + \<bar>S - R\<bar>) 4 = ?V" using S assms(2) by (simp_all add: go_div_pos)
  note ts = trunc_rat [of 8 "7 * S + R", simplified] and tv = trunc_rat [of 4 "3 * V + \<bar>S - R\<bar>", simplified]
  have "0 < ?S" "0 \<le> ?V" using S assms(2) by (simp_all add: pos_imp_zdiv_pos_iff)
  moreover have "0 \<le> (7 * s + of_int R) / 8 - of_int ?S" "(7 * s + of_int R) / 8 - of_int ?S < 8"
    using trunc_errors(1,2) [OF e] ts by simp_all
  moreover have "\<bar>(3 * v + \<bar>s - of_int R\<bar>) / 4 - of_int ?V\<bar> \<le> 12"
    using trunc_errors(3) [OF e d] tv by simp
  ultimately show ?thesis by (simp add: g tracks_def rttRef_def sv)
qed

lemma clamp_close: "\<bar>x - y\<bar> \<le> d \<Longrightarrow> \<bar>clamp lo hi x - clamp lo hi y\<bar> \<le> (d :: 'a::linordered_idom)"
  by (auto simp: clamp_def min_def max_def abs_le_iff)

lemma clamp_of_int: "of_int (clamp lo hi x) = clamp (of_int lo) (of_int hi) (of_int x :: rat)"
  by (simp add: clamp_def of_int_min of_int_max)

section \<open>The estimator of a connection\<close>

lemma srttStep_first:
  "srtt c = 0 \<Longrightarrow> srtt (srttStep fl c R) = R \<and> rttvar (srttStep fl c R) = go_div R 2"
  by (simp add: srttStep_def Let_def)

lemma srttStep_next:
  "srtt c \<noteq> 0 \<Longrightarrow> srtt (srttStep fl c R) = go_div (7 * srtt c + R) 8
     \<and> rttvar (srttStep fl c R) = go_div (3 * rttvar c + \<bar>srtt c - R\<bar>) 4"
  by (simp add: srttStep_def Let_def abs_if)

lemma srttStep_T1:
  "t1Value (srttStep fl c R) = clamp (effFloor fl) t1Ceil (srtt (srttStep fl c R) + 4 * rttvar (srttStep fl c R))"
  by (auto simp: srttStep_def Let_def clamp_def effFloor_def min_def max_def)

lemma tracks_steps:
  assumes "tracks (srtt c) (rttvar c) sv" "\<forall>R\<in>set Rs. 0 < R"
  shows "tracks (srtt (foldl (srttStep fl) c Rs)) (rttvar (foldl (srttStep fl) c Rs)) (foldl rttRef sv Rs)"
  using assms
proof (induction Rs arbitrary: c sv)
  case (Cons R Rs)
  have "srtt c \<noteq> 0" using Cons.prems(1) by (simp add: tracks_def)
  with tracks_next [OF Cons.prems(1), of R] Cons.prems(2) show ?case by (simp add: Cons.IH srttStep_next)
qed simp

lemma tracks_samples:
  assumes "srtt c = 0" "Rs \<noteq> []" "\<forall>R\<in>set Rs. 0 < R"
  shows "tracks (srtt (foldl (srttStep fl) c Rs)) (rttvar (foldl (srttStep fl) c Rs)) (rttRefs Rs)"
proof (cases Rs)
  case (Cons R Rs')
  then show ?thesis using assms tracks_first [of R] tracks_steps [of "srttStep fl c R"] srttStep_first [OF assms(1)] by simp
qed (simp add: assms)

lemma foldl_T1:
  assumes "Rs \<noteq> []"
  shows "t1Value (foldl (srttStep fl) c Rs) =
    clamp (effFloor fl) t1Ceil (srtt (foldl (srttStep fl) c Rs) + 4 * rttvar (foldl (srttStep fl) c Rs))"
  using assms by (cases Rs rule: rev_cases) (simp_all add: srttStep_T1)

lemma cell_samples:
  "cell (foldl (\<lambda>t. updateSRTT t r) t Rs) r = foldl (srttStep (T1Floor (portParams t (cPort (cell t r))))) (cell t r) Rs"
proof (induction Rs arbitrary: t)
  case (Cons R Rs)
  have "cPort (srttStep fl c x) = cPort c" for fl c x by (simp add: srttStep_def Let_def)
  moreover have "portParams (updateSRTT t r R) = portParams t" by (rule portParams_cong) simp
  ultimately show ?case by (simp add: Cons.IH) (simp add: updateSRTT_def)
qed simp

end
