(* ===== verification/Props_L2.thy ===== *)
theory Props_L2
  imports L2_Silent L2_Estimator
begin

text \<open>
  The properties of the connected-mode layer: its invariant over every reachable state, delivery,
  sending, retransmission, timers, and the bulk operations.
\<close>

section \<open>A small table for the concrete instances\<close>

definition asciiOnly :: unicode where
  "asciiOnly = \<lparr>uToUpper = id, uTrimSpace = id\<rparr>"

definition trim :: "string \<Rightarrow> string" where
  "trim s = rev (dropWhile is_space (rev (dropWhile is_space s)))"

lemma dropWhile_idem: "dropWhile P (dropWhile P xs) = dropWhile P xs"
  by (induction xs) auto

lemma trim_idem: "trim (trim s) = trim s"
proof -
  define a b where "a = dropWhile is_space s" and "b = rev (dropWhile is_space (rev a))"
  have "b = [] \<or> \<not> is_space (hd b)"
  proof (cases "b = []")
    case False
    obtain p where p: "a = b @ p" by (metis b_def rev_append rev_rev_ident takeWhile_dropWhile_id)
    with False have "hd b = hd a" "a \<noteq> []" by simp_all
    then show ?thesis using hd_dropWhile [of is_space s] by (simp add: a_def)
  qed simp
  then have "dropWhile is_space b = b" by (cases b) auto
  then show ?thesis by (simp add: trim_def dropWhile_idem b_def a_def)
qed

lemma is_space_upper [simp]: "is_space (upper_char c) = is_space c"
  by (auto simp: is_space_def upper_char_def)

lemma trim_upper: "trim (map upper_char s) = map upper_char (trim s)"
  by (simp add: trim_def dropWhile_map rev_map comp_def)

lemma ascii_trim: "ascii s \<Longrightarrow> ascii (trim s)"
  by (auto simp: trim_def ascii_def dest!: set_dropWhileD)

lemma unicode_ok_asciiOnly: "unicode_ok asciiOnly"
  by (auto simp: unicode_ok_def asciiOnly_def ToUpper_def TrimSpace_def ascii_trim [unfolded trim_def]
    trim_upper [unfolded trim_def] trim_idem [unfolded trim_def] comp_def)

definition sampleHooks :: hooks where
  "sampleHooks = \<lparr>hSendAX25 = True, hConnected = True, hConnectFailed = True, hData = True, hDisconnected = True,
     hDefer = True, hPortSessions = True, hIsLocal = Some (\<lambda>_ c. c = ''A'')\<rparr>"

definition sampleParams :: PortParams where
  "sampleParams = \<lparr>MaxWindow = 4, T1Floor = 3 * second, N2Retry = 2, ppT1 = 3 * second, T1Setup = 3 * second,
     ppT2 = second, ppT3 = 0, AX25Version = 22, ppSREJ = True\<rparr>"

definition sampleTable :: table where
  "sampleTable = (NewTable asciiOnly 0 sampleHooks [sampleParams])
     \<lparr>conns := [((0, ''A'', ''B''), 0)], nextConn := 1,
      cells := (\<lambda>_. (newConn 0 ''A'' ''B'')\<lparr>State := Connected, cModulo := 128\<rparr>)\<rparr>"

lemmas sample_defs = sampleTable_def sampleParams_def sampleHooks_def NewTable_def newConn_def

lemma sample_key: "makeKey asciiOnly 0 ''A'' ''B'' = (0, ''A'', ''B'')"
  by (simp add: makeKey_def ToUpper_def TrimSpace_def asciiOnly_def is_space_def upper_char_def)

lemma sample_get: "Get sampleTable 0 ''A'' ''B'' = Some 0"
  by (simp add: Get_def sampleTable_def NewTable_def sample_key)

lemma sample_cell: "cell sampleTable 0 = (newConn 0 ''A'' ''B'')\<lparr>State := Connected, cModulo := 128\<rparr>"
  by (simp add: sampleTable_def)

lemma sample_params: "portParams sampleTable 0 = sampleParams"
  by (simp add: portParams_def sampleTable_def NewTable_def)

lemma sample_params_ok: "params_ok sampleTable"
  by (simp add: params_ok_def sampleTable_def NewTable_def sampleParams_def)

lemma sample_cinv: "cinv sampleTable r"
proof -
  have c: "cell sampleTable r = (newConn 0 ''A'' ''B'')\<lparr>State := Connected, cModulo := 128\<rparr>"
    by (simp add: sampleTable_def)
  then have w: "window sampleTable r = 4" by (simp add: window_def newConn_def sample_params sampleParams_def)
  show ?thesis
    unfolding cinv_def w c by (rule conn_inv_pristine) (simp_all add: newConn_def pristine_def)
qed

lemma sample_live: "live sampleTable r \<longleftrightarrow> r = 0"
  by (simp add: live_def sampleTable_def)

lemma sample_live0: "live sampleTable 0"
  by (simp add: sample_live)

lemma sample_hooks: "hSendAX25 (thooks sampleTable)"
  by (simp add: sample_defs)

lemma sample_inv: "table_inv sampleTable"
proof -
  have "conns_ok sampleTable"
    using sample_key by (simp add: conns_ok_def entry_ok_def sample_defs maxConnections_def ident_def)
  moreover have "cells_ok sampleTable"
    using sample_cinv by (simp add: cells_ok_def idle_timers_def sample_defs)
  ultimately show ?thesis
    using sample_params_ok unicode_ok_asciiOnly by (simp add: table_inv_def sampleTable_def NewTable_def)
qed

lemma sample_init: "l2_init (NewTable asciiOnly 0 sampleHooks [sampleParams])"
  unfolding l2_init_def by (intro exI conjI, rule refl) (simp_all add: unicode_ok_asciiOnly sampleParams_def)

section \<open>Reachable tables\<close>

lemma connect_step:
  "l2_step (NewTable asciiOnly 0 sampleHooks [sampleParams])
     (snd (Connect (NewTable asciiOnly 0 sampleHooks [sampleParams]) 0 ''A'' ''B'' []))"
  by (rule l2_step.connect) simp

lemma connect_live: "live (snd (Connect (NewTable asciiOnly 0 sampleHooks [sampleParams]) 0 ''A'' ''B'' [])) 0"
  by (simp add: Connect_def ParseAddress_def checkCall_def ToUpper_def LastIndex_def upper_char_def asciiOnly_def getOrCreate_def
    NewTable_def maxConnections_def live_def sendSABME_def sendSABM_def Let_def)

text \<open>
  C17.  From start-up, under any interleaving of received frames, client requests, timer expiries,
  deferred functions and bulk removals, the table stays well formed: at most 64 connections, no two
  with the same port and callsign pair, each filed under its own key, and no timer armed on a
  connection that has been removed.
\<close>

theorem reachable_connections:
  assumes "l2_init s" "l2_step\<^sup>*\<^sup>* s t"
  shows "length (conns t) \<le> 64 \<and> distinct (map fst (conns t)) \<and> distinct (map snd (conns t))
    \<and> (\<forall>(k, r)\<in>set (conns t). k = (cPort (cell t r), Local (cell t r), Remote (cell t r)))
    \<and> (\<forall>r. r \<notin> snd ` set (conns t) \<longrightarrow> t1 (cell t r) = None \<and> t2 (cell t r) = None \<and> t3 (cell t r) = None)"
proof -
  have "conns_ok t" "cells_ok t" using l2_system.reachable_inv [OF assms] by (simp_all add: table_inv_def)
  then show ?thesis
    by (auto simp: conns_ok_def cells_ok_def entry_ok_def maxConnections_def live_def idle_timers_def ident_def)
qed

theorem reachable_connections_witness:
  "length (conns (snd (Connect (NewTable asciiOnly 0 sampleHooks [sampleParams]) 0 ''A'' ''B'' []))) \<le> 64
   \<and> distinct (map fst (conns (snd (Connect (NewTable asciiOnly 0 sampleHooks [sampleParams]) 0 ''A'' ''B'' []))))
   \<and> live (snd (Connect (NewTable asciiOnly 0 sampleHooks [sampleParams]) 0 ''A'' ''B'' [])) 0"
  using reachable_connections [OF sample_init r_into_rtranclp [of l2_step, OF connect_step]] connect_live by blast

text \<open>
  C16.  Window discipline: in every reachable table each connection's outstanding count is
  V(S) - V(A) modulo 8 or 128 and never exceeds the configured window; the retransmission buffer
  holds exactly the outstanding sequence numbers, each once, each stored as an I-frame that decodes
  with that number; and the outbound queue is at most 512 entries of at most 256 bytes.
\<close>

theorem reachable_window:
  assumes "l2_init s" "l2_step\<^sup>*\<^sup>* s t" "live t r"
  shows "(cModulo (cell t r) = 8 \<or> cModulo (cell t r) = 128)
    \<and> unacked (cell t r) = (sendSeq (cell t r) - lastAcked (cell t r)) mod cModulo (cell t r)
    \<and> uint (unacked (cell t r)) \<le> MaxWindow (portParams t (cPort (cell t r)))
    \<and> distinct (map fst (retransmitBuf (cell t r)))
    \<and> (\<forall>k. k \<in> fst ` set (retransmitBuf (cell t r)) \<longleftrightarrow>
          inWin (cModulo (cell t r)) (lastAcked (cell t r)) (unacked (cell t r)) k)
    \<and> (\<forall>(k, raw)\<in>set (retransmitBuf (cell t r)). \<exists>f. ParseModulo raw (uint (cModulo (cell t r))) = Inr f \<and> NS f = k)
    \<and> length (outQueue (cell t r)) \<le> 512 \<and> (\<forall>e\<in>set (outQueue (cell t r)). length (oeData e) \<le> 256)"
proof -
  have inv: "conn_inv (window t r) (cell t r)"
    using live_cinv [OF l2_system.reachable_inv [OF assms(1,2)] assms(3)] by (simp add: cinv_def)
  then have "\<forall>(k, raw)\<in>set (retransmitBuf (cell t r)). stored (cModulo (cell t r)) k raw"
    by (simp add: conn_inv_def buf_ok_def all_stored_def)
  then have "\<forall>(k, raw)\<in>set (retransmitBuf (cell t r)). \<exists>f. ParseModulo raw (uint (cModulo (cell t r))) = Inr f \<and> NS f = k"
    by (fast elim: stored_parse)
  with inv show ?thesis
    unfolding conn_inv_def seq_ok_def win_ok_def buf_ok_def queue_ok_def window_def maxOutboundQueue_def maxIFrameInfo_def
    by (elim conjE) (intro conjI, assumption+)
qed

theorem reachable_window_witness:
  "uint (unacked (cell (snd (Connect (NewTable asciiOnly 0 sampleHooks [sampleParams]) 0 ''A'' ''B'' [])) 0))
   \<le> MaxWindow (portParams (snd (Connect (NewTable asciiOnly 0 sampleHooks [sampleParams]) 0 ''A'' ''B'' []))
        (cPort (cell (snd (Connect (NewTable asciiOnly 0 sampleHooks [sampleParams]) 0 ''A'' ''B'' [])) 0)))"
  using reachable_window [OF sample_init r_into_rtranclp [of l2_step, OF connect_step] connect_live] by blast

section \<open>Delivery\<close>

text \<open>
  C18.  Go-back-N delivery: let the frames that arrive on a connected link carry elements of the
  peer's stream, in any order, with losses and repetitions, each within one modulo of the element the
  receiver waits for.  Then the client receives the stream from that element on, in order, each
  element exactly once, up to the first one that has not arrived in turn, and V(R) says which that is.
\<close>

theorem gbn_delivers_in_order:
  assumes "receiving t port src dst r" "\<not> srejEnabled (cell t r)"
    and "recvSeq (cell t r) = num (cModulo (cell t r)) n"
    and "list_all2 (carries (cModulo (cell t r)) stream) fs idxs" "gbn_range (unat (cModulo (cell t r))) n idxs"
  shows "delivered r (foldl (\<lambda>t f. dispatchI t port f src dst) t fs) = delivered r t @ map stream [n..<gbn_rx n idxs]
    \<and> recvSeq (cell (foldl (\<lambda>t f. dispatchI t port f src dst) t fs) r) = num (cModulo (cell t r)) (gbn_rx n idxs)"
  using gbn_refines [OF assms(1,2) refl assms(3-5)] by simp

definition sampleStream :: "nat \<Rightarrow> u8 \<times> bytes" where
  "sampleStream i = (0xF0, [word_of_nat i])"

definition sampleData :: "nat \<Rightarrow> frame" where
  "sampleData i = (iFrame asciiOnly ((newConn 0 ''A'' ''B'')\<lparr>cModulo := 128\<rparr>) (num 128 i) 0xF0 [word_of_nat i])"

lemma sample_carries: "carries 128 sampleStream (sampleData i) i"
  by (simp add: carries_def sampleStream_def sampleData_def)

lemma sample_receiving: "receiving sampleTable 0 ''B'' ''A'' 0"
  using sample_get by (simp add: receiving_def sample_defs)

theorem gbn_delivers_in_order_witness:
  "delivered 0 (foldl (\<lambda>t f. dispatchI t 0 f ''B'' ''A'') sampleTable [sampleData 0, sampleData 2, sampleData 1])
   = [(0xF0, [0]), (0xF0, [1])]"
proof -
  have "delivered 0 (foldl (\<lambda>t f. dispatchI t 0 f ''B'' ''A'') sampleTable [sampleData 0, sampleData 2, sampleData 1])
      = delivered 0 sampleTable @ map sampleStream [0..<gbn_rx 0 [0, 2, 1]]"
    by (rule gbn_delivers_in_order [OF sample_receiving, THEN conjunct1])
      (simp_all add: sample_cell newConn_def num_def sample_carries)
  then show ?thesis by (simp add: sampleStream_def sample_defs upt_rec)
qed

text \<open>
  C19.  Selective-reject delivery refines the same promise with a reorder buffer: elements up to one
  window ahead are kept, and the client still receives the stream in order, each element exactly
  once, up to the first element that is missing.
\<close>

theorem srej_delivers_in_order:
  assumes "receiving t port src dst r" "srejEnabled (cell t r)" "MaxWindow (portParams t port) = int w"
    and "rx_rel stream (cell t r) n B" "n \<notin> set B"
    and "list_all2 (carries (cModulo (cell t r)) stream) fs idxs"
    and "srej_range (unat (cModulo (cell t r))) w (n, B) idxs" "srej_rx w (n, B) idxs = (n', B')"
  shows "delivered r (foldl (\<lambda>t f. dispatchI t port f src dst) t fs) = delivered r t @ map stream [n..<n']
    \<and> rx_rel stream (cell (foldl (\<lambda>t f. dispatchI t port f src dst) t fs) r) n' B'"
  using srej_refines [OF assms(1,2) refl assms(3-8)] by simp

definition srejTable :: table where
  "srejTable = upd sampleTable 0 (\<lambda>c. c\<lparr>srejEnabled := True\<rparr>)"

theorem srej_delivers_in_order_witness:
  "delivered 0 (foldl (\<lambda>t f. dispatchI t 0 f ''B'' ''A'') srejTable [sampleData 2, sampleData 1, sampleData 0])
   = [(0xF0, [0]), (0xF0, [1]), (0xF0, [2])]"
proof -
  have rx: "receiving srejTable 0 ''B'' ''A'' 0"
    using sample_receiving by (simp add: receiving_def srejTable_def Get_def)
  have "delivered 0 (foldl (\<lambda>t f. dispatchI t 0 f ''B'' ''A'') srejTable [sampleData 2, sampleData 1, sampleData 0])
      = delivered 0 srejTable @ map sampleStream [0..<3]"
    by (rule srej_delivers_in_order [where w = 4 and B = "[]" and B' = "[]" and idxs = "[2, 1, 0]", OF rx, THEN conjunct1])
      (simp_all add: srejTable_def sample_cell newConn_def num_def sample_carries sample_params sampleParams_def
        rx_rel_def srej_step_def adv.simps portParams_def sampleTable_def NewTable_def)
  then show ?thesis by (simp add: sampleStream_def srejTable_def sample_defs upt_rec)
qed

section \<open>Sending\<close>

text \<open>
  C20.  Client data is conserved: \<open>SendData\<close> cuts the data into fragments of at most 256 bytes, queues
  as many as the 512-entry queue has room for and reports exactly how many it dropped; the bytes in
  the I-frames it sends followed by those still queued are the bytes queued before followed by the
  accepted data, in order and under the same PIDs; and the frames are numbered consecutively from V(S).
\<close>

theorem send_conserves_data:
  assumes "table_inv t" "live t r" "hSendAX25 (thooks t)" "SendData t r pid data = (dropped, t')"
  shows "concat (fragment data) = data
    \<and> dropped = length (fragment data) - (512 - length (outQueue (cell t r)))
    \<and> (\<exists>fs. out t' = out t @ map (SendAX25 (cPort (cell t r))) fs
        \<and> (\<forall>f\<in>set fs. Type f = I \<and> length (Info f) \<le> 256)
        \<and> carried fs @ queued (outQueue (cell t' r)) = queued (outQueue (cell t r))
            @ tag pid (concat (take (512 - length (outQueue (cell t r))) (fragment data)))
        \<and> numbered (cModulo (cell t r)) (sendSeq (cell t r)) fs (sendSeq (cell t' r)))"
proof -
  have "conn_inv (window t r) (cell t r)" using live_cinv [OF assms(1,2)] by (simp add: cinv_def)
  from SendData_conserves [OF assms(3) this assms(4)] concat_fragment show ?thesis
    by (simp add: sends_def maxOutboundQueue_def maxIFrameInfo_def)
qed

theorem send_conserves_data_witness:
  "fst (SendData sampleTable 0 0xF0 [1, 2, 3]) = 0"
proof -
  obtain d t' where s: "SendData sampleTable 0 0xF0 [1, 2, 3] = (d, t')" by fastforce
  have "d = length (fragment [1, 2, 3 :: u8]) - (512 - length (outQueue (cell sampleTable 0)))"
    using send_conserves_data [OF sample_inv sample_live0 sample_hooks s] by simp
  then show ?thesis
    by (simp add: s sample_cell newConn_def fragment_def pieces.simps [of "[1, 2, 3]"] pieces.simps [of "[]"] maxIFrameInfo_def)
qed

text \<open>
  C21.  Retransmission from any outstanding number resends every frame from it up to V(S), in order,
  each with the N(S), PID and data it was stored with, at most as many as are outstanding, and nothing else.
\<close>

theorem retransmission_repeats:
  assumes "table_inv t" "live t r" "hSendAX25 (thooks t)"
    and "inWin (cModulo (cell t r)) (lastAcked (cell t r)) (unacked (cell t r)) seq \<or> seq = sendSeq (cell t r)"
  shows "\<exists>fs. out (retransmitFrom t r seq) = out t @ map (SendAX25 (cPort (cell t r))) fs
     \<and> numbered (cModulo (cell t r)) seq fs (sendSeq (cell t r))
     \<and> (\<forall>f\<in>set fs. repeats (cModulo (cell t r)) (retransmitBuf (cell t r)) f)
     \<and> int (length fs) \<le> uint (unacked (cell t r))"
  using retransmitFrom_repeats [of t r seq] live_cinv [OF assms(1,2)] assms(3,4) by (simp add: sends_def)

text \<open>A table with one frame outstanding: three bytes sent on the sample connection.\<close>

definition sentTable :: table where
  "sentTable = snd (SendData sampleTable 0 0xF0 [1, 2, 3])"

lemma sent_inv: "table_inv sentTable" "live sentTable 0"
proof -
  have k: "keeps 0 sampleTable sentTable"
    unfolding sentTable_def by (rule keeps_SendData) (simp add: sample_cell newConn_def)
  show "table_inv sentTable" by (rule table_keeps [OF sample_inv sample_live0 k])
  show "live sentTable 0" using sample_live0 by (simp add: keeps_live [OF k])
qed

lemma fragment_small: "data \<noteq> [] \<Longrightarrow> length data \<le> 256 \<Longrightarrow> fragment data = [data]"
  by (simp add: fragment_def pieces.simps [of data] pieces.simps [of "[]"] maxIFrameInfo_def)

lemma sent_fields:
  "cModulo (cell sentTable 0) = 128" "lastAcked (cell sentTable 0) = 0" "unacked (cell sentTable 0) = 1" "sendSeq (cell sentTable 0) = 1"
  "cPort (cell sentTable 0) = 0" "hSendAX25 (thooks sentTable)"
  "retransmitBuf (cell sentTable 0) =
     [(0, Bytes (iFrame asciiOnly ((cell sampleTable 0)\<lparr>outQueue := [\<lparr>oePid = 0xF0, oeData = [1, 2, 3]\<rparr>]\<rparr>) 0 0xF0 [1, 2, 3]))]"
  by (simp_all add: sentTable_def SendData_def fragment_small drainOutbound_def windowOpen_def drainLoop.simps
    drainStep_def Let_def sample_cell sample_defs portParams_def maxOutboundQueue_def)

lemma sent_repeats:
  assumes "repeats 128 (retransmitBuf (cell sentTable 0)) f" "NS f = 0"
  shows "PID f = 0xF0 \<and> Info f = [1, 2, 3]"
proof -
  let ?g = "iFrame asciiOnly ((cell sampleTable 0)\<lparr>outQueue := [\<lparr>oePid = 0xF0, oeData = [1, 2, 3]\<rparr>]\<rparr>) 0 0xF0 [1, 2, 3]"
  have "wf_fields ?g"
    by (simp add: wf_fields_def iFrame_def cmdFrame_def mkFrame_def IsI_def IsS_def carriesInfo_def sample_cell newConn_def MaxDigipeaters_def)
  from ParseModulo_Bytes_onAir [OF this] assms show ?thesis
    by (auto simp: repeats_def sent_fields sample_cell onAir_def)
qed

theorem retransmission_repeats_witness:
  "\<exists>f. out (retransmitFrom sentTable 0 0) = out sentTable @ [SendAX25 0 f] \<and> NS f = 0 \<and> PID f = 0xF0 \<and> Info f = [1, 2, 3]"
proof -
  obtain fs where fs: "out (retransmitFrom sentTable 0 0) = out sentTable @ map (SendAX25 0) fs" "numbered 128 0 fs 1"
    "\<forall>f\<in>set fs. repeats 128 (retransmitBuf (cell sentTable 0)) f" "int (length fs) \<le> 1"
    using retransmission_repeats [OF sent_inv, of 0] by (auto simp: sent_fields inWin_def)
  then obtain f where "fs = [f]" "NS f = 0" by (cases fs; cases "tl fs") auto
  with fs sent_repeats [of f] show ?thesis by auto
qed

text \<open>
  C25.  The retransmission loop ends: on every connection of a reachable table, from any sequence
  number to any other, 256 rounds are enough.
\<close>

theorem retransmission_terminates:
  assumes "l2_init s" "l2_step\<^sup>*\<^sup>* s t" "live t r"
  shows "\<exists>t'. retransmitLoop 256 t r fromSeq toSeq = Some t'"
  using live_cinv [OF l2_system.reachable_inv [OF assms(1,2)] assms(3)] retransmitRange_total by blast

theorem retransmission_terminates_witness:
  "\<exists>t'. retransmitLoop 256 (snd (Connect (NewTable asciiOnly 0 sampleHooks [sampleParams]) 0 ''A'' ''B'' [])) 0 5 3 = Some t'"
  using retransmission_terminates [OF sample_init r_into_rtranclp [of l2_step, OF connect_step] connect_live] .

section \<open>Timers\<close>

lemma outstanding_buffered:
  assumes "conn_inv w c" "unacked c \<noteq> 0"
  shows "retransmitBuf c \<noteq> []"
proof -
  have "inWin (cModulo c) (lastAcked c) (unacked c) (lastAcked c)"
    using assms by (auto simp: inWin_def conn_inv_def seq_ok_def word_gt_0)
  then have "lastAcked c \<in> fst ` set (retransmitBuf c)" using assms(1) by (simp add: conn_inv_def buf_ok_def)
  then show ?thesis by auto
qed

text \<open>
  C22.  A silent peer is given up.  Take any reachable table with a connection that is being set up or
  released, has frames outstanding, or has T1 running, and any run in which from then on only time
  passes, timers fire, their functions are posted and the loop runs them, and in which no T1 function of
  the connection stays on its way for ever.  Then there is a last moment at which the connection
  exists; up to it a T1 function whose id the connection stores is always armed, firing or posted (it never
  waits on nothing); at it the retries are used up; the step that removes it reports the failed or lost link; and
  if T3 is not running, T1 has expired exactly once for every retry left and once more.
\<close>

theorem silent_peer_given_up:
  assumes "l2_init s" "l2_step\<^sup>*\<^sup>* s (run 0)" "live (run 0) r"
    and "State (cell (run 0) r) \<noteq> Connected \<or> unacked (cell (run 0) r) \<noteq> 0 \<or> t1 (cell (run 0) r) \<noteq> None"
    and "\<And>i. quiet_step (run i) (run (Suc i))"
    and "\<And>i tid. T1Fn r tid \<in> scheduled (eng (run i)) \<Longrightarrow> \<exists>j\<ge>i. T1Fn r tid \<notin> scheduled (eng (run j))"
  shows "\<exists>n. (\<forall>i. live (run i) r \<longleftrightarrow> i \<le> n)
    \<and> (\<forall>i\<le>n. \<exists>tid. t1 (cell (run i) r) = Some tid \<and> T1Fn r tid \<in> scheduled (eng (run i)))
    \<and> N2Retry (portParams (run n) (cPort (cell (run n) r))) \<le> t1Polls (cell (run n) r)
    \<and> (hConnectFailed (thooks (run 0)) \<and> State (cell (run 0) r) = Connecting \<longrightarrow> HConnectFailed r FailTimeout \<in> set (out (run (Suc n))))
    \<and> (hDisconnected (thooks (run 0)) \<and> State (cell (run 0) r) \<noteq> Connecting \<longrightarrow> HDisconnected r \<in> set (out (run (Suc n))))
    \<and> (t3 (cell (run 0) r) = None \<and> t1Polls (cell (run 0) r) \<le> N2Retry (portParams (run 0) (cPort (cell (run 0) r))) \<longrightarrow>
         int (expiries run r (Suc n)) = N2Retry (portParams (run 0) (cPort (cell (run 0) r))) - t1Polls (cell (run 0) r) + 1)"
proof -
  have "conn_inv (window (run 0) r) (cell (run 0) r)"
    using live_cinv [OF l2_system.reachable_inv [OF assms(1,2)] assms(3)] by (simp add: cinv_def)
  then have "State (cell (run 0) r) \<noteq> Connected \<or> retransmitBuf (cell (run 0) r) \<noteq> [] \<or> t1 (cell (run 0) r) \<noteq> None"
    using assms(4) outstanding_buffered by blast
  from reachable_timed [OF assms(1-3) this] have s: "silent_run run r" using assms(3,5) by (auto simp: silent_run_def)
  obtain n where n: "\<And>i. live (run i) r \<longleftrightarrow> i \<le> n" and last: "last_step r (run n) (run (Suc n))"
    using silent_last [OF s assms(6)] by metis
  have kept: "State (cell (run n) r) = State (cell (run 0) r)" "thooks (run n) = thooks (run 0)" "retries (run n) r = retries (run 0) r"
    using silent_kept [OF s, of n] n silent_conf [OF s, of n] by (auto simp: same_conf_def)
  have gone: "t1 (cell (run (Suc n)) r) = None" "t1 (cell (run n) r) \<noteq> None"
    using silent_timed [OF s, of "Suc n"] n silent_kept [OF s, of n]
    by (auto simp: timed_inv_def table_inv_def cells_ok_def idle_timers_def)
  have "int (expiries run r (Suc n)) = retries (run 0) r - t1Polls (cell (run 0) r) + 1"
    if "t3 (cell (run 0) r) = None" "t1Polls (cell (run 0) r) \<le> retries (run 0) r"
    using silent_counts [OF s that, of n] n last kept gone by (auto simp: expiries_Suc last_step_def)
  moreover have "\<exists>tid. t1 (cell (run i) r) = Some tid \<and> T1Fn r tid \<in> scheduled (eng (run i))" if "i \<le> n" for i
    using silent_scheduled [OF s, of i] n that by blast
  ultimately show ?thesis
    using n last kept(1,2) by (intro exI [of _ n]) (auto simp: last_step_def retries_def)
qed

text \<open>
  A concrete silent run: a connection attempt with two retries, then rounds of three seconds
  in which the clock advances, the round's timer fires, is posted and the loop runs it.
\<close>

definition attempt :: table where
  "attempt = snd (Connect (NewTable asciiOnly 0 sampleHooks [sampleParams]) 0 ''A'' ''B'' [])"

definition runNext :: "table \<Rightarrow> table" where
  "runNext t = (case queue (eng t) of [] \<Rightarrow> t | fn # fns \<Rightarrow> runClosure (t\<lparr>eng := (eng t)\<lparr>queue := fns\<rparr>\<rparr>) fn)"

fun silentRun :: "nat \<Rightarrow> table" where
  "silentRun 0 = attempt"
| "silentRun (Suc i) =
     (let t = silentRun i
      in if i mod 4 = 0 then t\<lparr>eng := Tick (eng t) (3 * second)\<rparr>
         else if i mod 4 = 1 then t\<lparr>eng := Fire (eng t) (i div 4)\<rparr>
         else if i mod 4 = 2 then t\<lparr>eng := Post (eng t) 0\<rparr>
         else runNext t)"

lemma quiet_runNext: "quiet_step t (runNext t)"
proof (cases "queue (eng t)")
  case Nil
  then have "runNext t = t\<lparr>eng := Tick (eng t) 0\<rparr>" by (simp add: runNext_def Tick_def)
  then show ?thesis by (simp add: quiet_step.tick)
qed (simp add: runNext_def quiet_step.run)

lemma silentRun_quiet: "quiet_step (silentRun i) (silentRun (Suc i))"
  by (simp add: Let_def quiet_step.intros(1-3) quiet_runNext)

definition waitingConn :: "nat \<Rightarrow> conn \<Rightarrow> bool" where
  "waitingConn k c \<longleftrightarrow> State c = Connecting \<and> cPort c = 0 \<and> cVia c = [] \<and> t1Polls c = int k \<and> t1 c = Some k
     \<and> t2 c = None \<and> t3 c = None \<and> t1Value c = 3 * second"

definition armedWith :: "nat \<Rightarrow> int \<Rightarrow> closure engine" where
  "armedWith k n = \<lparr>now = n, nextTimer = Suc k, armed = [\<lparr>tmId = k, tmDue = n + 3 * second, tmFn = T1Fn 0 k\<rparr>],
     firing = [], queue = []\<rparr>"

definition awaiting :: "nat \<Rightarrow> table \<Rightarrow> bool" where
  "awaiting k t \<longleftrightarrow> params t = [sampleParams] \<and> waitingConn k (cell t 0) \<and> eng t = armedWith k (now (eng t))"

lemma awaiting_attempt: "awaiting 0 attempt"
  by (simp add: awaiting_def waitingConn_def armedWith_def attempt_def Connect_def ParseAddress_def checkCall_def ToUpper_def LastIndex_def upper_char_def asciiOnly_def
    getOrCreate_def NewTable_def maxConnections_def sendSABME_def sendSABM_def Let_def newConn_def sampleParams_def
    portParams_def resetSeqs_def setupT1_def second_def startT1_def cancelT1_def cancelTimer_def After_def newEngine_def
    makeKey_def TrimSpace_def is_space_def)

definition silentRound :: "nat \<Rightarrow> table \<Rightarrow> table" where
  "silentRound k t = runNext (t\<lparr>eng := Post (Fire (Tick (eng t) (3 * second)) k) 0\<rparr>)"

lemma silentRun_round: "silentRun (4 * k + 4) = silentRound k (silentRun (4 * k))"
proof -
  have m: "(4 * k) mod 4 = 0" "Suc (4 * k) mod 4 = 1" "Suc (Suc (4 * k)) mod 4 = 2" "Suc (Suc (Suc (4 * k))) mod 4 = 3" "Suc (4 * k) div 4 = k"
    by presburger+
  have "4 * k + 4 = Suc (Suc (Suc (Suc (4 * k))))" by simp
  then show ?thesis by (simp only: silentRun.simps Let_def m) (simp add: silentRound_def)
qed

lemma silentRound_expires:
  assumes "awaiting k t"
  shows "silentRound k t = t1Expired (t\<lparr>eng := \<lparr>now = now (eng t) + 3 * second, nextTimer = Suc k, armed = [], firing = [], queue = []\<rparr>\<rparr>) 0"
proof -
  define n where "n = now (eng t)"
  have e: "eng t = armedWith k n" and t1: "t1 (cell t 0) = Some k"
    using assms unfolding awaiting_def waitingConn_def n_def by blast+
  have "Post (Fire (Tick (eng t) (3 * second)) k) 0 =
      \<lparr>now = n + 3 * second, nextTimer = Suc k, armed = [], firing = [], queue = [T1Fn 0 k]\<rparr>"
    unfolding e armedWith_def by (simp add: Tick_def Fire_def Post_def Do_def Cancel_def second_def)
  then show ?thesis using t1 by (simp add: silentRound_def runNext_def runClosure_def n_def)
qed

lemma silentRound_retries:
  assumes "awaiting k t" "k < 2"
  shows "awaiting (Suc k) (silentRound k t)"
proof -
  have p: "params t = [sampleParams]" and f: "waitingConn k (cell t 0)" using assms(1) by (simp_all add: awaiting_def)
  have "int k + 1 \<le> 2" using assms(2) by simp
  then show ?thesis
    using p f unfolding silentRound_expires [OF assms(1)] t1Expired_alt Let_def awaiting_def waitingConn_def
    by (simp add: polled_def fallBack_def setupTimer_def setupT1_def portParams_def sampleParams_def sendSABME_def sendSABM_def
      second_def startT1_def cancelT1_def cancelTimer_def After_def Let_def armedWith_def)
qed

lemma scheduled_removal: "scheduled (eng (removeConn t r)) \<subseteq> scheduled (eng t)"
proof -
  have "scheduled (eng (cancelTimer u x)) \<subseteq> scheduled (eng u)" for u x
    by (cases x) (auto simp: eng_cancelTimer scheduled_def Cancel_def)
  then have "scheduled (eng (cancelAll u q)) \<subseteq> scheduled (eng u)" for u q
    unfolding cancelAll_def eng_cancelT by (metis eng_cancelT order_trans)
  then show ?thesis by (simp add: removeConn_def remove_def Let_def split: option.split)
qed

lemma silentRound_ends:
  assumes "awaiting 2 t"
  shows "scheduled (eng (silentRound 2 t)) = {}"
proof -
  have p: "params t = [sampleParams]" and f: "waitingConn 2 (cell t 0)" using assms(1) by (simp_all add: awaiting_def)
  let ?u = "t\<lparr>eng := \<lparr>now = now (eng t) + 3 * second, nextTimer = Suc 2, armed = [], firing = [], queue = []\<rparr>\<rparr>"
  have "t1Expired ?u 0 = giveUp (fallBack (polled ?u 0) 0 2) 0 (hConnectFailed (thooks t)) (HConnectFailed 0 FailTimeout)"
    using p f unfolding t1Expired_alt Let_def waitingConn_def by (simp add: polled_def portParams_def sampleParams_def)
  moreover have "scheduled (eng (giveUp u 0 b h)) \<subseteq> scheduled (eng u)" for u b h
    unfolding giveUp_def by (rule order_trans [OF scheduled_removal]) simp
  moreover have "scheduled (eng (fallBack (polled ?u 0) 0 2)) = {}" by (simp add: fallBack_def polled_def scheduled_def)
  ultimately show ?thesis unfolding silentRound_expires [OF assms] by fastforce
qed

lemma quiet_empty: "quiet_step t t' \<Longrightarrow> scheduled (eng t) = {} \<Longrightarrow> scheduled (eng t') = {}"
proof (induction rule: quiet_step.induct)
  case (fire t tid)
  then have "ids_ok (eng t)" by (simp add: ids_ok_def scheduled_def)
  with fire show ?case by (simp add: scheduled_Fire)
qed (auto simp: engine_ids scheduled_Post, auto simp: scheduled_def)

lemma silentRun_fair: "T1Fn 0 tid \<in> scheduled (eng (silentRun i)) \<Longrightarrow> \<exists>j\<ge>i. T1Fn 0 tid \<notin> scheduled (eng (silentRun j))"
proof -
  have "awaiting 2 (silentRun 8)"
    using silentRound_retries [OF silentRound_retries [OF awaiting_attempt]] silentRun_round [of 0] silentRun_round [of 1]
    by (simp add: numeral_2_eq_2)
  then have "scheduled (eng (silentRun 12)) = {}" using silentRound_ends silentRun_round [of 2] by simp
  then have "scheduled (eng (silentRun (12 + j))) = {}" for j
  proof (induction j)
    case (Suc j)
    then show ?case using quiet_empty [OF silentRun_quiet [of "12 + j"]] by simp
  qed simp
  then show ?thesis by (metis empty_iff le_add2)
qed

theorem silent_peer_given_up_witness:
  "\<exists>n. live (silentRun n) 0 \<and> \<not> live (silentRun (Suc n)) 0 \<and> t1 (cell (silentRun n) 0) \<noteq> None
     \<and> expiries silentRun 0 (Suc n) = 3 \<and> HConnectFailed 0 FailTimeout \<in> set (out (silentRun (Suc n)))"
proof -
  have a: "waitingConn 0 (cell attempt 0)" "params attempt = [sampleParams]" using awaiting_attempt by (simp_all add: awaiting_def)
  have h: "hConnectFailed (thooks attempt)"
    by (simp add: attempt_def Connect_def ParseAddress_def checkCall_def ToUpper_def LastIndex_def upper_char_def asciiOnly_def
      getOrCreate_def NewTable_def maxConnections_def sendSABME_def sendSABM_def Let_def sampleHooks_def)
  obtain n where n: "\<forall>i. live (silentRun i) 0 \<longleftrightarrow> i \<le> n"
    "\<forall>i\<le>n. \<exists>tid. t1 (cell (silentRun i) 0) = Some tid \<and> T1Fn 0 tid \<in> scheduled (eng (silentRun i))"
    "HConnectFailed 0 FailTimeout \<in> set (out (silentRun (Suc n)))" "int (expiries silentRun 0 (Suc n)) = 3"
    using silent_peer_given_up [where run = silentRun and r = 0, OF sample_init _ _ _ silentRun_quiet silentRun_fair]
      r_into_rtranclp [of l2_step, OF connect_step] connect_live a h
    by (force simp: attempt_def waitingConn_def portParams_def sampleParams_def)
  then have "live (silentRun n) 0" "\<not> live (silentRun (Suc n)) 0" "t1 (cell (silentRun n) 0) \<noteq> None" by (auto simp del: silentRun.simps)
  with n(3,4) show ?thesis by (intro exI [of _ n]) (simp del: silentRun.simps)
qed

text \<open>
  A timer function that is still queued when its connection has been removed does nothing.
\<close>

theorem stale_timer_ignored:
  assumes "table_inv t" "\<not> live t r"
  shows "runClosure t (T1Fn r tid) = t \<and> runClosure t (T2Fn r tid) = t \<and> runClosure t (T3Fn r tid) = t"
  using assms by (auto simp: runClosure_def table_inv_def cells_ok_def idle_timers_def)

theorem stale_timer_ignored_witness: "runClosure sampleTable (T1Fn 7 3) = sampleTable"
  using stale_timer_ignored [OF sample_inv, of 7] by (simp add: sample_live)



text \<open>
  Derived timing: for any \<open>float64\<close> rounding (monotone, idempotent, exact on integers below
  2^53) and any speed and window, the T1 floor is at least 3 seconds and T1 is at least its floor.
\<close>

theorem derived_timers:
  assumes "rounding fl"
  shows "3 * second \<le> T1Floor (DeriveParams fl otaBaud maxWindow n2 t3s)
    \<and> T1Floor (DeriveParams fl otaBaud maxWindow n2 t3s) \<le> ppT1 (DeriveParams fl otaBaud maxWindow n2 t3s)"
proof -
  note c = rounding_consts [OF assms]
  let ?v2 = "fl (fl (fl (of_int maxWindow) * frameTime fl (if otaBaud \<le> 0 then 1200 else otaBaud)) + fl 1)"
  let ?floor = "if ?v2 > fl 3 then ?v2 else fl 3" and ?t1 = "if fl (fl 2 * ?v2) > fl 3 then fl (fl 2 * ?v2) else fl 3"
  have le: "fl 3 \<le> ?floor" by simp
  have m: "mono fl" and i: "fl ?v2 = ?v2" using assms by (simp_all add: rounding_def)
  have "?floor \<le> ?t1"
  proof (cases "?v2 > 3")
    case True
    have "fl ?v2 \<le> fl (2 * ?v2)" using True by (intro monoD [OF m]) simp
    with True i c show ?thesis by simp
  qed (simp add: c)
  moreover have "duration fl (fl 3) = 3 * second"
    using c by (simp add: duration_def second_def)
  ultimately show ?thesis
    using duration_mono [OF assms, of "fl 3" ?floor] duration_mono [OF assms, of ?floor ?t1] le c(3)
    by (simp add: DeriveParams_def Let_def)
qed

theorem derived_timers_witness: "3 * second \<le> T1Floor (DeriveParams id 1200 4 10 180)"
  using derived_timers [of id 1200 4 10 180] by (simp add: rounding_def monoI)

section \<open>Other stations' traffic\<close>

text \<open>
  A frame for a callsign that is not ours, on a port where we have no connection with that
  pair, changes nothing and is answered by nothing, whatever its type.
\<close>

theorem foreign_frame_ignored:
  assumes "Get t port (addr_String (Dst f)) (addr_String (Src f)) = None"
    and "\<not> isLocal t port (addr_String (Dst f))"
  shows "OnFrame t port f = t"
  using assms
  by (cases "Type f")
    (simp_all add: OnFrame_def dispatch_def dispatchSABM_def dispatchSABME_def dispatchUA_def dispatchDM_def
      dispatchDISC_def dispatchFRMR_def dispatchI_def dispatchS_def dispatchXID_def promote_def Let_def)

definition foreignSABM :: frame where
  "foreignSABM = cmdFrame asciiOnly ''C'' ''D'' [] SABM True"

theorem foreign_frame_ignored_witness: "OnFrame sampleTable 0 foreignSABM = sampleTable"
proof -
  have a: "addr_String (Dst foreignSABM) = ''C''" "addr_String (Src foreignSABM) = ''D''"
    by (simp_all add: foreignSABM_def cmdFrame_def mkFrame_def addrOrZero_def ParseAddress_def ToUpper_def
      LastIndex_def upper_char_def checkCall_def addr_String_def)
  have "Get sampleTable 0 ''C'' ''D'' = None"
    by (simp add: Get_def sample_defs makeKey_def ToUpper_def TrimSpace_def is_space_def upper_char_def)
  moreover have "\<not> isLocal sampleTable 0 ''C''" by (simp add: isLocal_def sample_defs)
  ultimately show ?thesis using foreign_frame_ignored [of sampleTable 0 foreignSABM] a by simp
qed

section \<open>Acknowledgement\<close>

lemma drainOutbound_acked: "lastAcked (cell (drainOutbound t r) r) = lastAcked (cell t r)"
proof -
  have step: "lastAcked (cell (drainStep u r) r) = lastAcked (cell u r)" for u
    by (auto simp: drainStep_def Let_def split: list.split prod.split)
  have "lastAcked (cell (drainLoop t r) r) = lastAcked (cell t r)"
    using drainLoop_invariant [of "\<lambda>u. lastAcked (cell u r) = lastAcked (cell t r)" t r] step by simp
  then show ?thesis by (simp add: drainOutbound_def)
qed

text \<open>
  An N(R) outside the range from V(A) to V(S) is ignored; one inside it becomes V(A), and the
  connection's window, buffer and timestamps are again exactly those of the numbers still
  outstanding.
\<close>

theorem acknowledgement_exact:
  assumes "table_inv t" "live t r" "State (cell t r) = Connected" "nr < cModulo (cell t r)"
  shows "(unacked (cell t r) < (nr - lastAcked (cell t r)) mod cModulo (cell t r) \<longrightarrow> ackFrames t r nr = t)
    \<and> ((nr - lastAcked (cell t r)) mod cModulo (cell t r) \<le> unacked (cell t r) \<longrightarrow>
         lastAcked (cell (ackFrames t r nr) r) = nr \<and> cinv (ackFrames t r nr) r)"
proof -
  let ?c = "cell t r" and ?d = "(nr - lastAcked (cell t r)) mod cModulo (cell t r)"
  have inv: "params_ok t" "cinv t r" using live_cinv [OF assms(1,2)] by simp_all
  then have un: "unacked ?c = (sendSeq ?c - lastAcked ?c) mod cModulo ?c" and sp: "seq_space (cModulo ?c)"
    and la: "lastAcked ?c < cModulo ?c"
    by (auto simp: cinv_def conn_inv_def win_ok_def seq_ok_def intro: seq_ok_space)
  have k: "cinv (ackFrames t r nr) r"
    using keeps_ackFrames [of t r nr] assms(3,4) inv by (simp add: keeps_def)
  have same: "nr = lastAcked ?c" if "?d = 0"
    using seq_space.dist_inj [OF sp assms(4) la, of "lastAcked ?c"] that by simp
  have "lastAcked (cell (ackCore t r nr ?d) r) = nr"
    using ackCore_cells [where nr = nr and t = t and r = r, OF refl] by auto
  then have "lastAcked (cell (ackFrames t r nr) r) = nr" if le: "?d \<le> unacked ?c"
  proof (cases "?d = 0")
    case True
    then have "ackFrames t r nr = t" by (simp add: ackFrames_core Let_def)
    then show ?thesis using same [OF True] by simp
  qed (use le un in \<open>auto simp: ackFrames_core Let_def drainOutbound_acked\<close>)
  with k un show ?thesis by (simp add: ackFrames_core Let_def)
qed

theorem acknowledgement_exact_witness: "ackFrames sampleTable 0 5 = sampleTable"
  using acknowledgement_exact [OF sample_inv sample_live0, of 5] by (simp add: sample_cell newConn_def)

section \<open>Bulk operations\<close>

text \<open>
  When a client goes away, exactly its connections are removed, in whatever order the map is
  walked; when a port goes offline, exactly that port's live connections are.
\<close>

theorem bulk_removal_exact:
  assumes "map_order ord" "table_inv t"
  shows "(live (RemoveOwned ord t ow) q \<longleftrightarrow> live t q \<and> Owner (cell t q) \<noteq> ow)
    \<and> (live (PortOffline ord t port) q \<longleftrightarrow> live t q \<and> \<not> (cPort (cell t q) = port
          \<and> State (cell t q) \<in> {Connected, Connecting, Disconnecting}))
    \<and> table_inv (RemoveOwned ord t ow) \<and> table_inv (PortOffline ord t port)"
  using table_RemoveOwned [OF assms] table_PortOffline [OF assms] by simp

theorem bulk_removal_exact_witness: "\<not> live (PortOffline rev sampleTable 0) 0"
  using bulk_removal_exact [OF _ sample_inv, of rev] by (simp add: map_order_def sample_cell newConn_def)

lemma insort_unique:
  assumes "mset xs = mset ys" "inj_on k (set xs)"
  shows "sort_key k xs = sort_key (k :: 'a \<Rightarrow> 'b::linorder) ys"
proof (rule properties_for_sort_key [symmetric])
  show "mset (sort_key k xs) = mset ys" using assms(1) by simp
  have s: "set ys = set xs" using assms(1) by (metis set_mset_mset)
  fix z assume z: "z \<in> set (sort_key k xs)"
  then have e: "filter (\<lambda>x. k z = k x) l = filter (\<lambda>x. x = z) l" if "set l = set xs" for l
    using assms(2) that s by (intro filter_cong refl) (auto simp: inj_on_def)
  have "filter (\<lambda>x. x = z) l = replicate (count (mset l) z) z" for l
    by (induction l) auto
  then show "filter (\<lambda>x. k z = k x) (sort_key k xs) = filter (\<lambda>x. k z = k x) ys"
    using e [of "sort_key k xs"] e [of ys] s assms(1) by simp
qed simp

text \<open>
  A status snapshot is sorted by port, local and remote callsign and does not depend on the
  order in which the table's map is walked.
\<close>

theorem snapshot_deterministic:
  assumes "map_order ord" "map_order ord'" "table_inv t"
  shows "Snapshot ord t = Snapshot ord' t \<and> sorted (map infoKey (Snapshot ord t))"
proof -
  let ?f = "\<lambda>r. connInfo (cell t r)" and ?P = "\<lambda>r. State (cell t r) \<in> {Connecting, Connected, Disconnecting}"
  have key: "infoKey (?f r) = ident (cell t r)" for r by (simp add: infoKey_def connInfo_def ident_def)
  have inj: "inj_on (\<lambda>r. ident (cell t r)) (set (map snd (conns t)))"
  proof (rule inj_onI)
    fix a b assume ab: "a \<in> set (map snd (conns t))" "b \<in> set (map snd (conns t))" "ident (cell t a) = ident (cell t b)"
    then have "live t a" "live t b" by (simp_all add: live_def)
    from live_entry(1) [OF assms(3) this(1)] live_entry(1) [OF assms(3) this(2)] ab(3) show "a = b" by (metis option.inject)
  qed
  have "mset (map ?f (filter ?P (ord (map snd (conns t))))) = mset (map ?f (filter ?P (ord' (map snd (conns t)))))"
    using assms(1,2) by (simp add: map_order_def mset_filter)
  moreover have "inj_on infoKey (set (map ?f (filter ?P (ord (map snd (conns t))))))"
    using inj map_order_facts(1) [OF assms(1), of "map snd (conns t)"] by (auto simp: inj_on_def key)
  ultimately have "Snapshot ord t = Snapshot ord' t" unfolding Snapshot_def by (rule insort_unique)
  then show ?thesis by (simp add: Snapshot_def)
qed

theorem snapshot_deterministic_witness: "Snapshot rev sampleTable = Snapshot id sampleTable"
  using snapshot_deterministic [of rev id, OF _ _ sample_inv] by (simp add: map_order_def)

end
