(* ===== verification/Kiss_Port.thy ===== *)
theory Kiss_Port
  imports L2_Conn Demux
begin

text \<open>
  A KISS port (\<^verbatim>\<open>src/kiss/port.go\<close>) and its transmit pacing (\<^verbatim>\<open>src/kiss/pacing.go\<close>,
  \<^verbatim>\<open>src/kiss/params.go\<close>): the transmit queue, the frames a reader hands on, writes over a transport
  that may take part of a frame, the compare-and-swap that decides who tears a port down, and the
  control channel's reads.  The transport itself is a parameter.
\<close>

section \<open>Parameters and pacing\<close>

record Params =
  TXDelay :: "int option"
  Persistence :: "int option"
  SlotTime :: "int option"
  TXTail :: "int option"
  FullDuplex :: "int option"
  OTABaud :: int

text \<open>Instants are nanoseconds after Go's zero time.\<close>

record pacer =
  baud :: int
  txDelay :: int
  avail :: int

definition maxPacedFrameBytes :: int where
  "maxPacedFrameBytes = 256 + 20"

definition newPacer :: "Params \<Rightarrow> pacer" where
  "newPacer p =
     \<lparr>baud = OTABaud p,
      txDelay = (case TXDelay p of Some d \<Rightarrow> if d > 0 then d * 10 * 1000000 else 0 | None \<Rightarrow> 0),
      avail = 0\<rparr>"

definition enabled :: "pacer \<Rightarrow> bool" where
  "enabled pc \<longleftrightarrow> baud pc > 0"

definition airTime :: "(rat \<Rightarrow> rat) \<Rightarrow> pacer \<Rightarrow> int \<Rightarrow> int" where
  "airTime fl pc nBytes =
     (if baud pc \<le> 0 then 0
      else (let bits = fl (fl (of_int nBytes) * fl 8)
            in txDelay pc + duration fl (fl (bits / fl (of_int (baud pc))))))"

definition maxLead :: "(rat \<Rightarrow> rat) \<Rightarrow> pacer \<Rightarrow> int" where
  "maxLead fl pc = airTime fl pc maxPacedFrameBytes"

definition delayFor :: "(rat \<Rightarrow> rat) \<Rightarrow> pacer \<Rightarrow> int \<Rightarrow> int \<Rightarrow> int \<times> pacer" where
  "delayFor fl pc nBytes clk =
     (if \<not> enabled pc then (0, pc)
      else
        (let air = airTime fl pc nBytes;
             pc = (if avail pc < clk then pc\<lparr>avail := clk\<rparr> else pc);
             lead = avail pc - clk;
             wait = (if lead > maxLead fl pc then lead - maxLead fl pc else 0)
         in (wait, pc\<lparr>avail := avail pc + air\<rparr>)))"

section \<open>Ports\<close>

definition txQueueSize :: nat where
  "txQueueSize = 64"

text \<open>\<open>trOpen\<close> is the transport's own state; the rest are the fields of \<open>Port\<close>.\<close>

record kport =
  kNum :: int
  kParams :: Params
  txCh :: "bytes list"
  online :: bool
  kclosed :: bool
  stopped :: bool
  kdemux :: demux
  pace :: pacer
  trOpen :: bool

definition NewPort :: "int \<Rightarrow> Params \<Rightarrow> kport" where
  "NewPort num ps =
     \<lparr>kNum = num, kParams = ps, txCh = [], online = False, kclosed = False, stopped = False,
      kdemux = newDemux, pace = newPacer ps, trOpen = False\<rparr>"

definition sendParams :: "Params \<Rightarrow> bytes list" where
  "sendParams ps =
     concat (map (\<lambda>(code, val). case val of None \<Rightarrow> [] | Some v \<Rightarrow> [WrapCommand 0 code (word_of_int v)])
       [(0x01, TXDelay ps), (0x02, Persistence ps), (0x03, SlotTime ps), (0x04, TXTail ps), (0x05, FullDuplex ps)])"

text \<open>
  Starting a port, given whether opening the transport and entering KISS mode succeed: the port
  and the frames written first.
\<close>

definition Start :: "bool \<Rightarrow> bool \<Rightarrow> kport \<Rightarrow> bool \<times> kport \<times> bytes list" where
  "Start opens enters p =
     (if \<not> opens then (False, p, [])
      else if \<not> enters then (False, p\<lparr>trOpen := False\<rparr>, [])
      else (True, p\<lparr>trOpen := True, online := True\<rparr>, sendParams (kParams p)))"

definition Send :: "kport \<Rightarrow> bytes \<Rightarrow> kport" where
  "Send p ax25Frame =
     (let frame = WrapData 0 ax25Frame
      in if length (txCh p) < txQueueSize then p\<lparr>txCh := txCh p @ [frame]\<rparr> else p)"

definition SendCommand :: "kport \<Rightarrow> u8 \<Rightarrow> bytes \<Rightarrow> kport" where
  "SendCommand p cmdType val =
     (let frame = WrapCommandBytes 0 cmdType val
      in if length (txCh p) < txQueueSize then p\<lparr>txCh := txCh p @ [frame]\<rparr> else p)"

text \<open>One read of the reader: the data frames it hands on, in order.\<close>

definition dataFrames :: "bytes list \<Rightarrow> bytes list" where
  "dataFrames frames = map tl (filter (\<lambda>f. f \<noteq> [] \<and> hd f AND 0x0F = 0x00) frames)"

definition readerRead :: "(nat \<Rightarrow> bytes \<Rightarrow> bool) \<Rightarrow> kport \<Rightarrow> bytes \<Rightarrow> kport \<times> bytes list" where
  "readerRead room p input =
     (case demuxFeed room (kdemux p) input of (d, frames) \<Rightarrow> (p\<lparr>kdemux := d\<rparr>, dataFrames frames))"

text \<open>
  Who tears the port down: a reader that fails, a failing write and \<open>Close\<close> each try to swap
  \<open>closed\<close> from false to true.  The result of \<open>fail\<close> says whether \<open>onOffline\<close> is called.
\<close>

definition fail :: "kport \<Rightarrow> bool \<times> kport" where
  "fail p =
     (if kclosed p then (False, p)
      else (True, p\<lparr>kclosed := True, online := False, stopped := True, trOpen := False\<rparr>))"

definition Close :: "kport \<Rightarrow> kport" where
  "Close p =
     (if kclosed p then p
      else if online p then p\<lparr>kclosed := True, stopped := True, online := False, trOpen := False\<rparr>
      else p\<lparr>kclosed := True\<rparr>)"

section \<open>Writing\<close>

datatype io_error = WriteError | NoProgress | SliceOutOfRange

text \<open>
  \<open>wr s b\<close> is one call of the transport's \<open>Write\<close> in its state \<open>s\<close>: the new state and the count it
  returns, or an error.
\<close>

function writeAll :: "('s \<Rightarrow> bytes \<Rightarrow> 's \<times> (io_error + int)) \<Rightarrow> 's \<Rightarrow> bytes \<Rightarrow> 's \<times> io_error option" where
  "writeAll wr s b =
     (if b = [] then (s, None)
      else case wr s b of (s, res) \<Rightarrow>
        (case res of
           Inl e \<Rightarrow> (s, Some e)
         | Inr n \<Rightarrow>
             if n \<le> 0 then (s, Some NoProgress)
             else if n > int (length b) then (s, Some SliceOutOfRange)
             else writeAll wr s (drop (nat n) b)))"
  by pat_completeness auto
termination
  by (relation "measure (\<lambda>(_, _, b). length b)") auto

declare writeAll.simps [simp del]

text \<open>The writer takes the head of the queue; the pacer is charged before the write.\<close>

definition writerStep ::
  "(rat \<Rightarrow> rat) \<Rightarrow> int \<Rightarrow> ('s \<Rightarrow> bytes \<Rightarrow> 's \<times> (io_error + int)) \<Rightarrow> 's \<Rightarrow> kport \<Rightarrow> 's \<times> int \<times> bool \<times> kport" where
  "writerStep fl clk wr s p =
     (case txCh p of
        [] \<Rightarrow> (s, 0, False, p)
      | frame # rest \<Rightarrow>
          (case delayFor fl (pace p) (int (length frame)) clk of (wait, pc) \<Rightarrow>
             (let p = p\<lparr>txCh := rest, pace := pc\<rparr>
              in case writeAll wr s frame of
                   (s, None) \<Rightarrow> (s, wait, False, p)
                 | (s, Some e) \<Rightarrow> (s, wait, fail p))))"

section \<open>The control channel\<close>

text \<open>
  \<open>Read\<close> with a buffer of \<open>n\<close> bytes: first what is left of a frame that did not fit, then the next
  queued frame; \<open>None\<close> blocks.
\<close>

record ctlChannel =
  rx :: "bytes list"
  leftover :: bytes

definition ctlRead :: "ctlChannel \<Rightarrow> nat \<Rightarrow> (bytes \<times> ctlChannel) option" where
  "ctlRead c n =
     (if leftover c \<noteq> [] then Some (take n (leftover c), c\<lparr>leftover := drop n (leftover c)\<rparr>)
      else case rx c of
             [] \<Rightarrow> None
           | frame # q \<Rightarrow> Some (take n frame, c\<lparr>rx := q, leftover := drop n frame\<rparr>))"

definition ctlWritable :: "bytes \<Rightarrow> bool" where
  "ctlWritable b \<longleftrightarrow> \<not> (length b < 2 \<or> b ! 0 \<noteq> gaiaStart \<or> b ! 1 \<noteq> gaiaVersion)"

section \<open>Lemmas\<close>

lemma duration_nonneg: "rounding fl \<Longrightarrow> 0 \<le> x \<Longrightarrow> 0 \<le> duration fl x"
  using duration_mono [of fl 0 x] rounding_int [of fl 0] by (simp add: duration_def)

lemma rounding_nonneg: "rounding fl \<Longrightarrow> 0 \<le> x \<Longrightarrow> 0 \<le> fl x"
  using rounding_int [of fl 0] by (metis monoD of_int_0 order_refl rounding_def zero_less_numeral zero_less_power)

lemma airTime_nonneg:
  assumes "rounding fl" "0 \<le> txDelay pc" "0 \<le> n"
  shows "0 \<le> airTime fl pc n"
  using assms by (simp add: airTime_def Let_def duration_nonneg rounding_nonneg)

lemma airTime_avail [simp]: "airTime fl (pc\<lparr>avail := a\<rparr>) n = airTime fl pc n"
  by (simp add: airTime_def)

lemma newPacer_txDelay: "0 \<le> txDelay (newPacer ps)"
  by (simp add: newPacer_def split: option.split)

text \<open>
  What pacing guarantees for one frame handed over \<open>wait\<close> after \<open>clk\<close>: it waits no longer than the
  air time still outstanding beyond one full frame, and what is then outstanding with the frame
  itself is at most one full frame and the frame.
\<close>

lemma delayFor_bounds:
  assumes "rounding fl" "0 \<le> txDelay pc" "0 \<le> n" "delayFor fl pc n clk = (wait, pc')"
  shows "0 \<le> wait" "wait \<le> max 0 (avail pc - clk)"
    "enabled pc \<Longrightarrow> avail pc' - (clk + wait) \<le> maxLead fl pc + airTime fl pc n"
    "enabled pc \<Longrightarrow> clk + wait + min (maxLead fl pc) (max 0 (avail pc - clk)) = max clk (avail pc)"
    "txDelay pc' = txDelay pc" "baud pc' = baud pc"
proof -
  have l: "0 \<le> maxLead fl pc"
    unfolding maxLead_def by (rule airTime_nonneg [OF assms(1,2)]) (simp add: maxPacedFrameBytes_def)
  have m: "maxLead fl (pc\<lparr>avail := a\<rparr>) = maxLead fl pc" for a by (simp add: maxLead_def)
  show "0 \<le> wait" "wait \<le> max 0 (avail pc - clk)"
    "enabled pc \<Longrightarrow> avail pc' - (clk + wait) \<le> maxLead fl pc + airTime fl pc n"
    "enabled pc \<Longrightarrow> clk + wait + min (maxLead fl pc) (max 0 (avail pc - clk)) = max clk (avail pc)"
    "txDelay pc' = txDelay pc" "baud pc' = baud pc"
    using assms(4) l by (auto simp: delayFor_def Let_def m split: if_splits)
qed

text \<open>A transport that does what \<open>Write\<close> promises: it appends to the wire what it reports.\<close>

definition honest :: "('s \<Rightarrow> bytes) \<Rightarrow> ('s \<Rightarrow> bytes \<Rightarrow> 's \<times> (io_error + int)) \<Rightarrow> bool" where
  "honest wire wr \<longleftrightarrow> (\<forall>s b s' n. wr s b = (s', Inr n) \<longrightarrow> n \<le> int (length b) \<and> wire s' = wire s @ take (nat n) b)"

lemma writeAll_wire: "honest wire wr \<Longrightarrow> writeAll wr s b = (s', None) \<Longrightarrow> wire s' = wire s @ b"
proof (induction wr s b rule: writeAll.induct)
  case (1 wr s b)
  show ?case
  proof (cases "b = []")
    case False
    obtain s1 res where w: "wr s b = (s1, res)" by fastforce
    with 1(3) False obtain n where n: "res = Inr n" "0 < n" "n \<le> int (length b)"
      and r: "writeAll wr s1 (drop (nat n) b) = (s', None)"
      by (subst (asm) writeAll.simps) (auto split: sum.splits if_splits)
    have "wire s' = wire s1 @ drop (nat n) b" using 1(1) [OF False w [symmetric] n(1) _ _ 1(2) r] n(2,3) by simp
    moreover have "wire s1 = wire s @ take (nat n) b" using 1(2) w n(1) unfolding honest_def by blast
    ultimately show ?thesis by simp
  qed (use 1(3) in \<open>simp add: writeAll.simps\<close>)
qed

lemma Close_fail_once:
  "fst (fail p) \<Longrightarrow> \<not> fst (fail (snd (fail p))) \<and> Close (snd (fail p)) = snd (fail p)"
  "kclosed (Close p)" "fst (fail (Close p)) = False"
  by (auto simp: fail_def Close_def split: if_splits)

end
