(* ===== verification/Agwpe_Client.thy ===== *)
theory Agwpe_Client
  imports Agwpe Ax25_Frame
begin

text \<open>
  One AGWPE client (\<^verbatim>\<open>src/internal/frontend/agwpe/server.go\<close>): its flags and registered callsigns,
  the bounded write queue, and the bounded number of frames it may have waiting for the event
  loop.  Also the texts that the monitor and raw sinks (\<^verbatim>\<open>monitor.go\<close>, \<^verbatim>\<open>raw.go\<close>) send.
\<close>

section \<open>State\<close>

text \<open>
  \<open>registeredCalls\<close>, a map to \<open>true\<close>, is the list of its keys; \<open>pending\<close> are the frames posted to
  the loop and not yet run, which \<open>inflight\<close> counts; \<open>connOpen\<close> is the TCP connection.
\<close>

record client =
  writeCh :: "bytes list"
  monitoring :: bool
  rawMode :: bool
  registeredCalls :: "string list"
  lastActivity :: int
  cclosed :: bool
  inflight :: nat
  pending :: "(Header \<times> bytes) list"
  rdbuf :: "bytes option"
  connOpen :: bool

definition maxInflight :: nat where
  "maxInflight = 256"

definition writeChCap :: nat where
  "writeChCap = 256"

definition newClient :: "int \<Rightarrow> client" where
  "newClient clk =
     \<lparr>writeCh = [], monitoring = False, rawMode = False, registeredCalls = [], lastActivity = clk,
      cclosed = False, inflight = 0, pending = [], rdbuf = Some [], connOpen = True\<rparr>"

section \<open>Operations\<close>

definition CloseTransport :: "client \<Rightarrow> client" where
  "CloseTransport c = (if \<not> cclosed c then c\<lparr>cclosed := True, connOpen := False\<rparr> else c)"

definition SendAGWPE :: "client \<Rightarrow> u8 \<Rightarrow> byte \<Rightarrow> u8 \<Rightarrow> string \<Rightarrow> string \<Rightarrow> bytes \<Rightarrow> client" where
  "SendAGWPE c port kind pid from to data =
     (let pkt = Build port kind pid from to data
      in if cclosed c then c
         else if length (writeCh c) < writeChCap then c\<lparr>writeCh := writeCh c @ [pkt]\<rparr>
         else CloseTransport c)"

text \<open>The handler's own \<open>sendFrame\<close> is the same with PID 0.\<close>

definition sendFrame0 :: "client \<Rightarrow> u8 \<Rightarrow> byte \<Rightarrow> string \<Rightarrow> string \<Rightarrow> bytes \<Rightarrow> client" where
  "sendFrame0 c port kind from to data =
     (let pkt = Build port kind 0 from to data
      in if cclosed c then c
         else if length (writeCh c) < writeChCap then c\<lparr>writeCh := writeCh c @ [pkt]\<rparr>
         else CloseTransport c)"

definition post :: "client \<Rightarrow> Header \<times> bytes \<Rightarrow> bool \<times> client" where
  "post c fn =
     (if inflight c \<ge> maxInflight then (False, CloseTransport c)
      else (True, c\<lparr>inflight := inflight c + 1, pending := pending c @ [fn]\<rparr>))"

text \<open>
  The read loop over one read of the connection: post the complete frames in order until one is
  refused; a refusal or an oversized frame ends the loop, which closes the connection.
\<close>

fun postAll :: "client \<Rightarrow> (Header \<times> bytes) list \<Rightarrow> bool \<times> client" where
  "postAll c [] = (True, c)"
| "postAll c (f # fs) = (case post c f of (ok, c) \<Rightarrow> if ok then postAll c fs else (False, c))"

definition finish :: "client \<Rightarrow> client" where
  "finish c = c\<lparr>connOpen := False, cclosed := True, rdbuf := None\<rparr>"

definition onRead :: "int \<Rightarrow> client \<Rightarrow> bytes \<Rightarrow> client" where
  "onRead clk c p =
     (case clientRead (rdbuf c) p of (st, fs) \<Rightarrow>
        (case postAll (c\<lparr>lastActivity := clk, rdbuf := st\<rparr>) fs of
           (ok, c) \<Rightarrow> if ok \<and> st \<noteq> None then c else finish c))"

text \<open>The write goroutine takes one packet.\<close>

definition writeOne :: "client \<Rightarrow> client" where
  "writeOne c = c\<lparr>writeCh := tl (writeCh c)\<rparr>"

section \<open>Texts\<close>

definition CR :: string where
  "CR = [CHR 0x0D]"

text \<open>
  What the monitor sends for a frame: the kind and PID of the AGWPE frame and its payload; nothing
  for the frame types it does not show.  \<open>ts\<close> is the formatted time of day.
\<close>

definition monitorText :: "string \<Rightarrow> frame \<Rightarrow> (byte \<times> u8 \<times> bytes) option" where
  "monitorText ts f =
     (let src = addr_String (Src f); dst = addr_String (Dst f);
          body = (\<lambda>name. to_bytes (''Fm '' @ src @ '' To '' @ dst @ '' <'' @ name @ '' pid='' @ hex02X (PID f)
                     @ '' Len='' @ show_nat (length (Info f)) @ '' >['' @ ts @ '']'' @ CR) @ Info f)
      in if Type f = UI then Some (byte_of_char (CHR ''U''), PID f, body ''UI'')
         else if IsI (Type f) then Some (byte_of_char (CHR ''I''), PID f, body ''I'')
         else if IsS (Type f) then
           Some (byte_of_char (CHR ''S''), 0,
             to_bytes (''Fm '' @ src @ '' To '' @ dst @ '' <'' @ FrameType_String (Type f) @ '' R''
               @ show_nat (unat (NR f)) @ '' >['' @ ts @ '']'' @ CR))
         else None)"

section \<open>Invariant\<close>

definition client_inv :: "client \<Rightarrow> bool" where
  "client_inv c \<longleftrightarrow> length (writeCh c) \<le> writeChCap \<and> inflight c = length (pending c)
     \<and> inflight c \<le> maxInflight \<and> length (registeredCalls c) \<le> 8 \<and> distinct (registeredCalls c)"

named_theorems client_intros \<open>operations that keep a client's invariant\<close>

lemma sendFrame0_SendAGWPE: "sendFrame0 c p k f t d = SendAGWPE c p k 0 f t d"
  by (simp add: sendFrame0_def SendAGWPE_def)

lemma CloseTransport_simps [simp]:
  "writeCh (CloseTransport c) = writeCh c" "monitoring (CloseTransport c) = monitoring c"
  "rawMode (CloseTransport c) = rawMode c" "registeredCalls (CloseTransport c) = registeredCalls c"
  "inflight (CloseTransport c) = inflight c" "pending (CloseTransport c) = pending c"
  "lastActivity (CloseTransport c) = lastActivity c"
  by (simp_all add: CloseTransport_def)

lemma SendAGWPE_simps [simp]:
  "monitoring (SendAGWPE c p k i f t d) = monitoring c" "rawMode (SendAGWPE c p k i f t d) = rawMode c"
  "registeredCalls (SendAGWPE c p k i f t d) = registeredCalls c"
  "inflight (SendAGWPE c p k i f t d) = inflight c" "pending (SendAGWPE c p k i f t d) = pending c"
  by (simp_all add: SendAGWPE_def Let_def)

lemma inv_CloseTransport [client_intros, simp]: "client_inv c \<Longrightarrow> client_inv (CloseTransport c)"
  by (simp add: client_inv_def)

lemma inv_SendAGWPE [client_intros, simp]: "client_inv c \<Longrightarrow> client_inv (SendAGWPE c p k i f t d)"
  by (auto simp: client_inv_def SendAGWPE_def Let_def)

lemma inv_post: "client_inv c \<Longrightarrow> client_inv (snd (post c fn))"
  by (auto simp: post_def client_inv_def)

lemma inv_postAll: "client_inv c \<Longrightarrow> client_inv (snd (postAll c fs))"
proof (induction fs arbitrary: c)
  case (Cons f fs)
  obtain ok c1 where c1: "post c f = (ok, c1)" by fastforce
  with inv_post [OF Cons.prems, of f] Cons.IH [of c1] show ?case by simp
qed simp

lemma postAll_calls: "registeredCalls (snd (postAll c fs)) = registeredCalls c"
  by (induction fs arbitrary: c) (auto simp: post_def split: prod.split)

lemma onRead_cases:
  obtains st fs d where "d = snd (postAll (c\<lparr>lastActivity := clk, rdbuf := st\<rparr>) fs)"
    "onRead clk c p = d \<or> onRead clk c p = finish d"
proof -
  obtain st fs where "clientRead (rdbuf c) p = (st, fs)" by fastforce
  with that [OF refl, of st fs] show ?thesis by (simp add: onRead_def split: prod.split)
qed

lemma inv_onRead [client_intros, simp]:
  assumes "client_inv c"
  shows "client_inv (onRead clk c p)"
proof (rule onRead_cases [of clk c p])
  fix st fs d assume d: "d = snd (postAll (c\<lparr>lastActivity := clk, rdbuf := st\<rparr>) fs)"
    and o: "onRead clk c p = d \<or> onRead clk c p = finish d"
  have "client_inv d" unfolding d using assms by (intro inv_postAll) (simp add: client_inv_def)
  then show ?thesis using o by (auto simp: finish_def client_inv_def)
qed

lemma onRead_calls [simp]: "registeredCalls (onRead clk c p) = registeredCalls c"
  by (rule onRead_cases [of clk c p]) (auto simp: finish_def postAll_calls)

lemma inv_writeOne [client_intros, simp]: "client_inv c \<Longrightarrow> client_inv (writeOne c)"
  by (auto simp: client_inv_def writeOne_def)

end
