(* ===== verification/Bridge.thy ===== *)
theory Bridge
  imports L2_Invariant Kiss_Port Agwpe_Client
begin

text \<open>
  The bridge (\<^verbatim>\<open>src/internal/bridge/bridge.go\<close>, \<^verbatim>\<open>events.go\<close>): it owns the connection table, the
  port slots and the client list, and every function here runs on the event loop.

  A port slot holds \<open>None\<close> for the offline sentinel or a reference to a \<open>kiss.Port\<close>; clients are
  references into a store as well.  The connected-mode layer calls its hooks while it works; here
  it records them and \<open>runHooks\<close> runs them afterwards in the same order, which is the same
  because the layer reads nothing that a hook writes (a hook writes the owner of a connection, a
  client's write queue, a port's transmit queue and the bridge's counters).  Sinks other than the
  two AGWPE ones, and the rig gate, are recorded in \<open>bus\<close>.
\<close>

section \<open>State\<close>

record cfgPort =
  cpName :: string
  cpType :: string
  cpKISS :: Params
  cpReconnect :: bool
  cpReconnectDelay :: rat
  cpReconnectMaxDelay :: rat
  cpOTABaudrate :: int
  cpTXPacing :: bool
  cpAX25Version :: int
  cpSREJ :: bool
  cpRXWedgeTimeout :: int

record config =
  cfgMaxClients :: int
  cfgIdleTimeout :: int
  cfgMaxWindow :: int
  cfgN2Retry :: int
  cfgT3Timeout :: int
  cfgFrack :: int
  cfgPorts :: "cfgPort list"

record ConnEvent =
  cePort :: int
  ceLocal :: string
  ceRemote :: string
  ceState :: string
  ceIncoming :: bool

datatype rawSink = AgwpeRaw | OtherRaw nat
datatype monSink = AgwpeMonitor | OtherMonitor nat

datatype busEvent =
    OnRawRX nat int bytes
  | OnRXFrame nat int frame
  | OnTXFrame nat int frame
  | OnConn nat ConnEvent
  | OnPortSessions int nat
  | OnRigPortBack nat

text \<open>
  Goroutines of the port life cycle that are under way: a dial (\<open>connectPort\<close>, or
  \<open>connectPortWithBackoff\<close> with the delay of the next attempt), the functions they post, an armed
  reconnect timer, and a relink that is closing the old port.
\<close>

datatype dialKind = Plain | Backoff rat

datatype task =
    Dial nat int dialKind
  | Install nat int dialKind nat
  | Schedule nat rat
  | ReconnectTimer nat int rat rat
  | Relink nat int nat
  | WentOffline nat

record bridge =
  cfg :: config
  quote :: "string \<Rightarrow> string"
  l2 :: table
  ports :: "nat option list"
  kports :: "nat \<Rightarrow> kport"
  nextPort :: nat
  clients :: "nat list"
  cstore :: "nat \<Rightarrow> client"
  rawSinks :: "rawSink list"
  monitorSinks :: "monSink list"
  txSinks :: "nat list"
  connSinks :: "nat list"
  bus :: "busEvent list"
  sentFrames :: "bytes list"
  rxFrames :: "64 word list"
  txFrames :: "64 word list"
  lastRX :: "int list"
  relinks :: "int list"
  portEpoch :: "int list"
  tasks :: "task list"
  idleSweepTimer :: bool
  rxWedgeTimer :: bool

definition echoRingSize :: nat where
  "echoRingSize = 20"

text \<open>\<open>i\<close> is a valid index of the slice \<open>xs\<close>.\<close>

definition inRange :: "int \<Rightarrow> 'a list \<Rightarrow> bool" where
  "inRange i xs \<longleftrightarrow> 0 \<le> i \<and> i < int (length xs)"

definition setAt :: "int \<Rightarrow> 'a \<Rightarrow> 'a list \<Rightarrow> 'a list" where
  "setAt i x xs = (if inRange i xs then xs[nat i := x] else xs)"

definition updClient :: "bridge \<Rightarrow> nat \<Rightarrow> (client \<Rightarrow> client) \<Rightarrow> bridge" where
  "updClient b c f = b\<lparr>cstore := (cstore b)(c := f (cstore b c))\<rparr>"

definition updPort :: "bridge \<Rightarrow> nat \<Rightarrow> (kport \<Rightarrow> kport) \<Rightarrow> bridge" where
  "updPort b i f = b\<lparr>kports := (kports b)(i := f (kports b i))\<rparr>"

definition spawn :: "bridge \<Rightarrow> task \<Rightarrow> bridge" where
  "spawn b k = b\<lparr>tasks := tasks b @ [k]\<rparr>"

section \<open>Ports and status\<close>

definition PortCount :: "bridge \<Rightarrow> int" where
  "PortCount b = int (length (ports b))"

definition slotOnline :: "bridge \<Rightarrow> nat option \<Rightarrow> bool" where
  "slotOnline b s = (case s of None \<Rightarrow> False | Some i \<Rightarrow> online (kports b i))"

definition PortOnline :: "bridge \<Rightarrow> int \<Rightarrow> bool" where
  "PortOnline b port = (if \<not> inRange port (ports b) then False else slotOnline b (ports b ! nat port))"

record PortStatus =
  psPort :: nat
  psName :: string
  psType :: string
  psOnline :: bool
  psRx :: "64 word"
  psTx :: "64 word"

definition StatusPorts :: "bridge \<Rightarrow> PortStatus list" where
  "StatusPorts b =
     map (\<lambda>i. \<lparr>psPort = i,
                psName = (if i < length (cfgPorts (cfg b)) then cpName (cfgPorts (cfg b) ! i) else ''''),
                psType = (if i < length (cfgPorts (cfg b)) then cpType (cfgPorts (cfg b) ! i) else ''''),
                psOnline = PortOnline b (int i),
                psRx = (if i < length (rxFrames b) then rxFrames b ! i else 0),
                psTx = (if i < length (rxFrames b) then txFrames b ! i else 0)\<rparr>)
       [0..<length (ports b)]"

section \<open>Sinks\<close>

definition RegisterRawRXSink :: "bridge \<Rightarrow> rawSink \<Rightarrow> bridge" where
  "RegisterRawRXSink b s = b\<lparr>rawSinks := rawSinks b @ [s]\<rparr>"

definition UnregisterRawRXSink :: "bridge \<Rightarrow> rawSink \<Rightarrow> bridge" where
  "UnregisterRawRXSink b s = b\<lparr>rawSinks := remove1 s (rawSinks b)\<rparr>"

definition RegisterMonitorSink :: "bridge \<Rightarrow> monSink \<Rightarrow> bridge" where
  "RegisterMonitorSink b s = b\<lparr>monitorSinks := monitorSinks b @ [s]\<rparr>"

definition UnregisterMonitorSink :: "bridge \<Rightarrow> monSink \<Rightarrow> bridge" where
  "UnregisterMonitorSink b s = b\<lparr>monitorSinks := remove1 s (monitorSinks b)\<rparr>"

definition RegisterTxFrameSink :: "bridge \<Rightarrow> nat \<Rightarrow> bridge" where
  "RegisterTxFrameSink b s = b\<lparr>txSinks := txSinks b @ [s]\<rparr>"

definition UnregisterTxFrameSink :: "bridge \<Rightarrow> nat \<Rightarrow> bridge" where
  "UnregisterTxFrameSink b s = b\<lparr>txSinks := remove1 s (txSinks b)\<rparr>"

definition RegisterConnSink :: "bridge \<Rightarrow> nat \<Rightarrow> bridge" where
  "RegisterConnSink b s = b\<lparr>connSinks := connSinks b @ [s]\<rparr>"

definition UnregisterConnSink :: "bridge \<Rightarrow> nat \<Rightarrow> bridge" where
  "UnregisterConnSink b s = b\<lparr>connSinks := remove1 s (connSinks b)\<rparr>"

definition clientSend :: "u8 \<Rightarrow> byte \<Rightarrow> u8 \<Rightarrow> string \<Rightarrow> string \<Rightarrow> bytes \<Rightarrow> bridge \<Rightarrow> nat \<Rightarrow> bridge" where
  "clientSend port kind pid from to data b c = updClient b c (\<lambda>cl. SendAGWPE cl port kind pid from to data)"

definition monitor_OnRXFrame :: "string \<Rightarrow> bridge \<Rightarrow> int \<Rightarrow> frame \<Rightarrow> bridge" where
  "monitor_OnRXFrame ts b port f =
     (case monitorText ts f of
        None \<Rightarrow> b
      | Some (kind, pid, payload) \<Rightarrow>
          foldl (\<lambda>b c. if monitoring (cstore b c)
                      then clientSend (word_of_int port) kind pid (addr_String (Src f)) (addr_String (Dst f)) payload b c
                      else b)
            b (clients b))"

definition raw_OnRawRX :: "bridge \<Rightarrow> int \<Rightarrow> bytes \<Rightarrow> bridge" where
  "raw_OnRawRX b port raw =
     (if raw = [] then b
      else
        (let data = shl (word_of_int port) 4 # raw;
             (src, dst) = (case Parse raw of Inr f \<Rightarrow> (addr_String (Src f), addr_String (Dst f)) | Inl _ \<Rightarrow> ('''', ''''))
         in foldl (\<lambda>b c. if rawMode (cstore b c)
                         then clientSend (word_of_int port) (byte_of_char (CHR ''K'')) 0 src dst data b c
                         else b)
              b (clients b)))"

definition emitRawRX :: "bridge \<Rightarrow> int \<Rightarrow> bytes \<Rightarrow> bridge" where
  "emitRawRX b port raw =
     foldl (\<lambda>b s. case s of AgwpeRaw \<Rightarrow> raw_OnRawRX b port raw
                          | OtherRaw n \<Rightarrow> b\<lparr>bus := bus b @ [OnRawRX n port raw]\<rparr>)
       b (rawSinks b)"

definition emitMonitor :: "string \<Rightarrow> bridge \<Rightarrow> int \<Rightarrow> frame \<Rightarrow> bridge" where
  "emitMonitor ts b port f =
     foldl (\<lambda>b s. case s of AgwpeMonitor \<Rightarrow> monitor_OnRXFrame ts b port f
                          | OtherMonitor n \<Rightarrow> b\<lparr>bus := bus b @ [OnRXFrame n port f]\<rparr>)
       b (monitorSinks b)"

definition emitTXFrame :: "bridge \<Rightarrow> int \<Rightarrow> frame \<Rightarrow> bridge" where
  "emitTXFrame b port f = b\<lparr>bus := bus b @ map (\<lambda>n. OnTXFrame n port f) (txSinks b)\<rparr>"

definition emitConn :: "bridge \<Rightarrow> ConnEvent \<Rightarrow> bridge" where
  "emitConn b e = b\<lparr>bus := bus b @ map (\<lambda>n. OnConn n e) (connSinks b)\<rparr>"

section \<open>Sending\<close>

text \<open>The loop over the digipeater fields, from byte 14 on.\<close>

fun clearH :: "bytes \<Rightarrow> bytes" where
  "clearH (a # b # c # d # e # f # s # rest) =
     (let s' = s AND 0x7F
      in [a, b, c, d, e, f, s'] @ (if s' AND 0x01 \<noteq> 0 then rest else clearH rest))"
| "clearH xs = xs"

definition normalizeHBits :: "bytes \<Rightarrow> bytes" where
  "normalizeHBits raw =
     (if length raw > 13 \<and> raw ! 13 AND 0x01 = 0 then take 14 raw @ clearH (drop 14 raw) else raw)"

definition trackSent :: "bridge \<Rightarrow> bytes \<Rightarrow> bridge" where
  "trackSent b nrm =
     (let b = (if length (sentFrames b) \<ge> echoRingSize then b\<lparr>sentFrames := tl (sentFrames b)\<rparr> else b)
      in b\<lparr>sentFrames := sentFrames b @ [nrm]\<rparr>)"

definition isEcho :: "bridge \<Rightarrow> bytes \<Rightarrow> bool" where
  "isEcho b nrm \<longleftrightarrow> nrm \<in> set (sentFrames b)"

definition SendToKISS :: "bridge \<Rightarrow> int \<Rightarrow> bytes \<Rightarrow> bridge" where
  "SendToKISS b port raw =
     (if \<not> inRange port (ports b) then b
      else case ports b ! nat port of
        None \<Rightarrow> b
      | Some i \<Rightarrow>
          if \<not> online (kports b i) then b
          else
            (let b = trackSent b (normalizeHBits raw);
                 b = updPort b i (\<lambda>p. Send p raw);
                 b = (if inRange port (txFrames b)
                      then b\<lparr>txFrames := setAt port (txFrames b ! nat port + 1) (txFrames b)\<rparr> else b)
             in if txSinks b \<noteq> []
                then (case Parse raw of Inr f \<Rightarrow> emitTXFrame b port f | Inl _ \<Rightarrow> b)
                else b))"

definition SendKISSCommand :: "bridge \<Rightarrow> int \<Rightarrow> u8 \<Rightarrow> bytes \<Rightarrow> bridge" where
  "SendKISSCommand b port cmdType val =
     (if \<not> inRange port (ports b) then b
      else case ports b ! nat port of
        None \<Rightarrow> b
      | Some i \<Rightarrow> if \<not> online (kports b i) then b else updPort b i (\<lambda>p. SendCommand p cmdType val))"

definition Bridge_SendAX25 :: "bridge \<Rightarrow> int \<Rightarrow> frame \<Rightarrow> bridge" where
  "Bridge_SendAX25 b port f = SendToKISS b port (Bytes f)"

section \<open>Hooks of the connected-mode layer\<close>

definition setOwner :: "bridge \<Rightarrow> ref \<Rightarrow> nat \<Rightarrow> bridge" where
  "setOwner b r c = b\<lparr>l2 := upd (l2 b) r (\<lambda>x. x\<lparr>Owner := Some c\<rparr>)\<rparr>"

definition toOwner :: "bridge \<Rightarrow> ref \<Rightarrow> byte \<Rightarrow> u8 \<Rightarrow> bytes \<Rightarrow> bridge" where
  "toOwner b r kind pid data =
     (let x = cell (l2 b) r
      in case Owner x of
           None \<Rightarrow> b
         | Some c \<Rightarrow> clientSend (word_of_int (cPort x)) kind pid (Remote x) (Local x) data b c)"

definition connEvent :: "conn \<Rightarrow> string \<Rightarrow> bool \<Rightarrow> ConnEvent" where
  "connEvent x st inc = \<lparr>cePort = cPort x, ceLocal = Local x, ceRemote = Remote x, ceState = st, ceIncoming = inc\<rparr>"

definition notifyConnected :: "bridge \<Rightarrow> ref \<Rightarrow> bool \<Rightarrow> bridge" where
  "notifyConnected b r inc =
     (let x = cell (l2 b) r;
          b = (if inc
               then (let b = (case find (\<lambda>c. Local x \<in> set (registeredCalls (cstore b c))) (clients b) of
                                Some c \<Rightarrow> setOwner b r c
                              | None \<Rightarrow> b)
                     in toOwner b r (byte_of_char (CHR ''C'')) 0
                          (to_bytes (''*** CONNECTED To Station '' @ Remote x @ CR)))
               else toOwner b r (byte_of_char (CHR ''C'')) 0
                      (to_bytes (''*** CONNECTED With Station '' @ Remote x @ CR)))
      in emitConn b (connEvent x ''connected'' inc))"

definition notifyConnectFailed :: "bridge \<Rightarrow> ref \<Rightarrow> FailReason \<Rightarrow> bridge" where
  "notifyConnectFailed b r reason =
     (let x = cell (l2 b) r
      in toOwner b r (byte_of_char (CHR ''d'')) 0
           (to_bytes (''*** connect to '' @ Remote x @
              (case reason of FailTimeout \<Rightarrow> '' timed out (no response)'' | FailDM \<Rightarrow> '' refused (DM)'') @ CR)))"

definition notifyData :: "bridge \<Rightarrow> ref \<Rightarrow> u8 \<Rightarrow> bytes \<Rightarrow> bridge" where
  "notifyData b r pid data = toOwner b r (byte_of_char (CHR ''D'')) pid data"

definition notifyDisconnected :: "bridge \<Rightarrow> ref \<Rightarrow> bridge" where
  "notifyDisconnected b r =
     (let x = cell (l2 b) r; b = emitConn b (connEvent x ''disconnected'' False)
      in toOwner b r (byte_of_char (CHR ''d'')) 0
           (to_bytes (''*** DISCONNECTED From Station '' @ Remote x @ CR)))"

fun runHook :: "bridge \<Rightarrow> hookCall \<Rightarrow> bridge" where
  "runHook b (SendAX25 port f) = Bridge_SendAX25 b port f"
| "runHook b (HConnected r inc) = notifyConnected b r inc"
| "runHook b (HConnectFailed r reason) = notifyConnectFailed b r reason"
| "runHook b (HData r pid data) = notifyData b r pid data"
| "runHook b (HDisconnected r) = notifyDisconnected b r"
| "runHook b (HPortSessions port n) = b\<lparr>bus := bus b @ [OnPortSessions port n]\<rparr>"

definition runHooks :: "bridge \<Rightarrow> bridge" where
  "runHooks b = foldl runHook (b\<lparr>l2 := (l2 b)\<lparr>out := []\<rparr>\<rparr>) (out (l2 b))"

definition isLocalCall :: "bridge \<Rightarrow> int \<Rightarrow> string \<Rightarrow> bool" where
  "isLocalCall b port call \<longleftrightarrow>
     (let upper = ToUpper (uni (l2 b)) call
      in \<exists>c\<in>set (clients b). upper \<in> set (registeredCalls (cstore b c)))"

definition bridgeHooks :: "bridge \<Rightarrow> hooks" where
  "bridgeHooks b =
     \<lparr>hSendAX25 = True, hConnected = True, hConnectFailed = True, hData = True, hDisconnected = True,
      hDefer = True, hPortSessions = True, hIsLocal = Some (isLocalCall b)\<rparr>"

text \<open>One operation of the layer, under the hooks as they are now, and the hooks it calls.\<close>

definition l2now :: "bridge \<Rightarrow> table" where
  "l2now b = (l2 b)\<lparr>thooks := bridgeHooks b\<rparr>"

definition runL2 :: "bridge \<Rightarrow> table \<Rightarrow> bridge" where
  "runL2 b t = runHooks (b\<lparr>l2 := t\<rparr>)"

definition onL2 :: "bridge \<Rightarrow> (table \<Rightarrow> table) \<Rightarrow> bridge" where
  "onL2 b f = runL2 b (f (l2now b))"

section \<open>Receiving\<close>

definition unrepeated :: "frame \<Rightarrow> bool" where
  "unrepeated f \<longleftrightarrow> (\<exists>v\<in>set (Via f). \<not> CRH v)"

definition countRX :: "bridge \<Rightarrow> int \<Rightarrow> int \<Rightarrow> bridge" where
  "countRX b clk port =
     b\<lparr>rxFrames := (if inRange port (rxFrames b) then setAt port (rxFrames b ! nat port + 1) (rxFrames b) else rxFrames b),
       lastRX := setAt port clk (lastRX b), relinks := setAt port 0 (relinks b)\<rparr>"

definition OnKISSFrame :: "int \<Rightarrow> string \<Rightarrow> bridge \<Rightarrow> int \<Rightarrow> bytes \<Rightarrow> bridge" where
  "OnKISSFrame clk ts b port raw =
     (if isEcho b (normalizeHBits raw) then b
      else case rxParse (l2 b) port raw of
        Inl _ \<Rightarrow> b
      | Inr f \<Rightarrow>
          (let b = countRX b clk port;
               b = (if \<not> unrepeated f then onL2 b (\<lambda>t. OnFrame t port f) else b);
               b = emitRawRX b port raw
           in emitMonitor ts b port f))"

section \<open>Clients\<close>

definition AddClient :: "bridge \<Rightarrow> nat \<Rightarrow> bool \<times> bridge" where
  "AddClient b c =
     (if cfgMaxClients (cfg b) > 0 \<and> int (length (clients b)) \<ge> cfgMaxClients (cfg b) then (False, b)
      else (True, b\<lparr>clients := clients b @ [c]\<rparr>))"

definition RemoveClient :: "(ref list \<Rightarrow> ref list) \<Rightarrow> bridge \<Rightarrow> nat \<Rightarrow> bridge" where
  "RemoveClient ord b c =
     (let b = b\<lparr>clients := remove1 c (clients b)\<rparr>;
          b = onL2 b (\<lambda>t. RemoveOwned ord t (Some c))
      in updClient b c (\<lambda>cl. cl\<lparr>registeredCalls := []\<rparr>))"

definition sweepIdleClients :: "bridge \<Rightarrow> int \<Rightarrow> bridge" where
  "sweepIdleClients b clk =
     (let idleTimeout = cfgIdleTimeout (cfg b) * second
      in if idleTimeout \<le> 0 then b
         else
           (let b = foldl (\<lambda>b c. if clk - lastActivity (cstore b c) > idleTimeout then updClient b c CloseTransport else b)
                      b (clients b)
            in b\<lparr>idleSweepTimer := True\<rparr>))"

section \<open>The life cycle of a port\<close>

definition resetPortCounters :: "bridge \<Rightarrow> int \<Rightarrow> int \<Rightarrow> bridge" where
  "resetPortCounters b clk port =
     (if \<not> inRange port (rxFrames b) then b
      else b\<lparr>rxFrames := setAt port 0 (rxFrames b), txFrames := setAt port 0 (txFrames b),
             lastRX := setAt port clk (lastRX b)\<rparr>)"

text \<open>
  \<open>scheduleReconnect\<close> arms a timer bound to the port's epoch.  A delay is a \<open>float64\<close> number of
  seconds; doubling one is exact.
\<close>

definition scheduleReconnect :: "bridge \<Rightarrow> nat \<Rightarrow> rat \<Rightarrow> bridge" where
  "scheduleReconnect b idx delay0 =
     (let delay = (if delay0 \<le> 0 then 5 else delay0);
          maxDelay0 = cpReconnectMaxDelay (cfgPorts (cfg b) ! idx);
          maxDelay = (if maxDelay0 \<le> 0 then 60 else maxDelay0)
      in spawn b (ReconnectTimer idx (portEpoch b ! idx) delay maxDelay))"

definition portWentOffline :: "(ref list \<Rightarrow> ref list) \<Rightarrow> bridge \<Rightarrow> int \<Rightarrow> nat \<Rightarrow> bridge" where
  "portWentOffline ord b clk portNum =
     (let b = onL2 b (\<lambda>t. PortOffline ord t (int portNum));
          b = resetPortCounters b clk (int portNum)
      in if portNum < length (cfgPorts (cfg b)) \<and> cpReconnect (cfgPorts (cfg b) ! portNum)
         then scheduleReconnect b portNum (cpReconnectDelay (cfgPorts (cfg b) ! portNum))
         else b)"

definition newEpoch :: "bridge \<Rightarrow> nat \<Rightarrow> bridge" where
  "newEpoch b idx = b\<lparr>portEpoch := (portEpoch b)[idx := portEpoch b ! idx + 1]\<rparr>"

definition reconnectPort :: "(ref list \<Rightarrow> ref list) \<Rightarrow> int \<Rightarrow> bridge \<Rightarrow> int \<Rightarrow> bool \<Rightarrow> bool \<times> bridge" where
  "reconnectPort ord clk b port keepL2 =
     (if \<not> inRange port (ports b) \<or> port \<ge> int (length (cfgPorts (cfg b))) then (False, b)
      else case ports b ! nat port of
        None \<Rightarrow> (False, b)
      | Some kp \<Rightarrow>
          (let b = b\<lparr>ports := (ports b)[nat port := None]\<rparr>;
               b = (if \<not> keepL2 then onL2 b (\<lambda>t. PortOffline ord t port) else b);
               b = resetPortCounters b clk port;
               b = newEpoch b (nat port)
           in (True, spawn b (Relink (nat port) (portEpoch b ! nat port) kp))))"

definition ReconnectPort :: "(ref list \<Rightarrow> ref list) \<Rightarrow> int \<Rightarrow> bridge \<Rightarrow> int \<Rightarrow> bool \<times> bridge" where
  "ReconnectPort ord clk b port = reconnectPort ord clk b port False"

text \<open>The parameters a dial builds its port with.\<close>

definition dialParams :: "cfgPort \<Rightarrow> Params" where
  "dialParams pc = (if cpTXPacing pc then (cpKISS pc)\<lparr>OTABaud := cpOTABaudrate pc\<rparr> else cpKISS pc)"

text \<open>
  How a dial ends: no transport could be built, the port did not start, or it started.  A started
  port is running before the function that installs it has run.
\<close>

datatype dialResult = NoTransport | NoStart | Started

definition dialEnds :: "bridge \<Rightarrow> nat \<Rightarrow> int \<Rightarrow> dialKind \<Rightarrow> dialResult \<Rightarrow> bridge" where
  "dialEnds b idx epoch kind res =
     (let pc = cfgPorts (cfg b) ! idx
      in case res of
           NoTransport \<Rightarrow> (case kind of Plain \<Rightarrow> b | Backoff d \<Rightarrow> spawn b (Schedule idx d))
         | NoStart \<Rightarrow>
             (case kind of
                Plain \<Rightarrow> if cpReconnect pc then spawn b (Schedule idx (cpReconnectDelay pc)) else b
              | Backoff d \<Rightarrow> spawn b (Schedule idx d))
         | Started \<Rightarrow>
             (let i = nextPort b;
                  p = fst (snd (Start True True (NewPort (int idx) (dialParams pc))));
                  b = b\<lparr>kports := (kports b)(i := p), nextPort := Suc i\<rparr>
              in spawn b (Install idx epoch kind i)))"

definition install :: "bridge \<Rightarrow> nat \<Rightarrow> int \<Rightarrow> dialKind \<Rightarrow> nat \<Rightarrow> bridge" where
  "install b idx epoch kind i =
     (if portEpoch b ! idx \<noteq> epoch then updPort b i Close
      else
        (let b = b\<lparr>ports := (ports b)[idx := Some i]\<rparr>
         in case kind of Plain \<Rightarrow> b | Backoff _ \<Rightarrow> b\<lparr>bus := bus b @ [OnRigPortBack idx]\<rparr>))"

definition reconnectFires :: "bridge \<Rightarrow> nat \<Rightarrow> int \<Rightarrow> rat \<Rightarrow> rat \<Rightarrow> bridge" where
  "reconnectFires b idx epoch0 delay maxDelay =
     (if portEpoch b ! idx \<noteq> epoch0 then b
      else
        (let nextDelay = (if delay * 2 > maxDelay then maxDelay else delay * 2);
             b = newEpoch b idx
         in spawn b (Dial idx (portEpoch b ! idx) (Backoff nextDelay))))"

section \<open>The receive watchdog\<close>

definition rxWedged :: "bool \<Rightarrow> int \<Rightarrow> bool \<Rightarrow> int \<Rightarrow> bool" where
  "rxWedged onl timeout hasActiveTX sinceLastRX \<longleftrightarrow> onl \<and> timeout > 0 \<and> hasActiveTX \<and> sinceLastRX \<ge> timeout"

definition portAwaitingReply :: "(ref list \<Rightarrow> ref list) \<Rightarrow> bridge \<Rightarrow> int \<Rightarrow> bool" where
  "portAwaitingReply ord b port \<longleftrightarrow>
     (\<exists>ci\<in>set (Snapshot ord (l2 b)). ciPort ci = port
        \<and> (ciState ci = ''connecting'' \<or> ciState ci = ''disconnecting'' \<or> ciState ci = ''connected'' \<and> ciUnacked ci > 0))"

definition relinkEscalateAfter :: int where
  "relinkEscalateAfter = 3"

definition relinkBudgetSpent :: "int \<Rightarrow> bool" where
  "relinkBudgetSpent consecutive \<longleftrightarrow> consecutive \<ge> relinkEscalateAfter"

definition checkPort :: "(ref list \<Rightarrow> ref list) \<Rightarrow> int \<Rightarrow> bridge \<Rightarrow> nat \<Rightarrow> bridge" where
  "checkPort ord clk b port =
     (let timeout = cpRXWedgeTimeout (cfgPorts (cfg b) ! port) * second
      in if timeout \<le> 0 \<or> port \<ge> length (lastRX b) then b
         else
           (let silence = clk - lastRX b ! port;
                awaiting = portAwaitingReply ord b (int port);
                b = (if \<not> awaiting \<and> port < length (relinks b) then b\<lparr>relinks := (relinks b)[port := 0]\<rparr> else b)
            in if \<not> rxWedged (slotOnline b (ports b ! port)) timeout awaiting silence then b
               else if relinkBudgetSpent (relinks b ! port) then b
               else
                 (let b = b\<lparr>relinks := (relinks b)[port := relinks b ! port + 1], lastRX := (lastRX b)[port := clk]\<rparr>
                  in snd (reconnectPort ord clk b (int port) True))))"

definition checkRXWedge :: "(ref list \<Rightarrow> ref list) \<Rightarrow> bridge \<Rightarrow> int \<Rightarrow> bridge" where
  "checkRXWedge ord b clk =
     foldl (checkPort ord clk) b [0..<min (length (ports b)) (length (cfgPorts (cfg b)))]"

section \<open>Start and shutdown\<close>

definition portParamsOf :: "(rat \<Rightarrow> rat) \<Rightarrow> config \<Rightarrow> cfgPort \<Rightarrow> PortParams" where
  "portParamsOf fl cf p =
     (DeriveParams fl (cpOTABaudrate p) (cfgMaxWindow cf) (cfgN2Retry cf) (cfgT3Timeout cf))
       \<lparr>T1Setup := cfgFrack cf * second, AX25Version := cpAX25Version p, ppSREJ := cpSREJ p\<rparr>"

definition noHooks :: hooks where
  "noHooks =
     \<lparr>hSendAX25 = False, hConnected = False, hConnectFailed = False, hData = False, hDisconnected = False,
      hDefer = False, hPortSessions = False, hIsLocal = None\<rparr>"

definition noParams :: Params where
  "noParams = \<lparr>TXDelay = None, Persistence = None, SlotTime = None, TXTail = None, FullDuplex = None, OTABaud = 0\<rparr>"

text \<open>
  \<open>Bridge.New\<close> followed by \<open>Bridge.Start\<close>, with the two sinks the AGWPE frontend registers.
\<close>

definition startBridge :: "(rat \<Rightarrow> rat) \<Rightarrow> unicode \<Rightarrow> (string \<Rightarrow> string) \<Rightarrow> int \<Rightarrow> config \<Rightarrow> bridge" where
  "startBridge fl u q clk cf =
     (let n = length (cfgPorts cf);
          b0 = \<lparr>cfg = cf, quote = q, l2 = NewTable u clk noHooks (map (portParamsOf fl cf) (cfgPorts cf)),
                ports = replicate n None, kports = (\<lambda>_. NewPort 0 noParams), nextPort = 0,
                clients = [], cstore = (\<lambda>_. newClient clk), rawSinks = [AgwpeRaw], monitorSinks = [AgwpeMonitor],
                txSinks = [], connSinks = [], bus = [], sentFrames = [],
                rxFrames = replicate n 0, txFrames = replicate n 0, lastRX = replicate n clk, relinks = replicate n 0,
                portEpoch = replicate n 1, tasks = map (\<lambda>i. Dial i 1 Plain) [0..<n],
                idleSweepTimer = cfgIdleTimeout cf > 0,
                rxWedgeTimer = (\<exists>pc\<in>set (cfgPorts cf). cpRXWedgeTimeout pc > 0)\<rparr>
      in b0\<lparr>l2 := (l2 b0)\<lparr>thooks := bridgeHooks b0\<rparr>\<rparr>)"

definition Shutdown :: "bridge \<Rightarrow> bridge" where
  "Shutdown b =
     (let b = b\<lparr>idleSweepTimer := False, rxWedgeTimer := False\<rparr>;
          b = foldl (\<lambda>b c. updClient b c CloseTransport) b (clients b)
      in foldl (\<lambda>b s. case s of None \<Rightarrow> b | Some i \<Rightarrow> updPort b i Close) b (ports b))"

end
