(* ===== verification/Agwpe_Handler.thy ===== *)
theory Agwpe_Handler
  imports Bridge
begin

text \<open>
  The AGWPE command handler (\<^verbatim>\<open>src/internal/frontend/agwpe/handler.go\<close>): what a complete frame from
  a client does to the bridge, case by case in the order of the source.
\<close>

definition routedKinds :: "char list" where
  "routedKinds = ''MVCcvDdKgHyY''"

definition maxRegisteredCalls :: nat where
  "maxRegisteredCalls = 8"

section \<open>Replies\<close>

definition reply :: "bridge \<Rightarrow> nat \<Rightarrow> int \<Rightarrow> char \<Rightarrow> string \<Rightarrow> string \<Rightarrow> bytes \<Rightarrow> bridge" where
  "reply b c port kind from to data =
     updClient b c (\<lambda>cl. sendFrame0 cl (word_of_int port) (byte_of_char kind) from to data)"

definition busy :: "bridge \<Rightarrow> nat \<Rightarrow> int \<Rightarrow> string \<Rightarrow> string \<Rightarrow> bridge" where
  "busy b c port from to = reply b c port (CHR ''d'') from to (to_bytes (''*** BUSY From '' @ from @ CR))"

definition sendVersion :: "bridge \<Rightarrow> nat \<Rightarrow> int \<Rightarrow> bridge" where
  "sendVersion b c port = reply b c port (CHR ''R'') '''' '''' (lePut32 2 @ lePut32 0)"

fun joinSemi :: "string list \<Rightarrow> string" where
  "joinSemi [] = ''''"
| "joinSemi [x] = x"
| "joinSemi (x # xs) = x @ '';'' @ joinSemi xs"

definition sendPortInfo :: "bridge \<Rightarrow> nat \<Rightarrow> int \<Rightarrow> bridge" where
  "sendPortInfo b c port =
     (let ps = cfgPorts (cfg b);
          names = map (\<lambda>(i, p). if cpName p = '''' then ''Port '' @ show_nat i else cpName p) (enumerate 0 ps);
          payload = joinSemi (show_nat (length ps) # names) @ '';''
      in reply b c port (CHR ''G'') '''' '''' (to_bytes payload))"

definition orDefault :: "int option \<Rightarrow> int \<Rightarrow> int" where
  "orDefault v d = (case v of Some x \<Rightarrow> x | None \<Rightarrow> d)"

definition sendPortCaps :: "bridge \<Rightarrow> nat \<Rightarrow> int \<Rightarrow> bridge" where
  "sendPortCaps b c port =
     (let ps = cfgPorts (cfg b);
          k = (if port < int (length ps) then cpKISS (ps ! nat port) else noParams)
      in reply b c port (CHR ''g'') '''' ''''
           ([0, 255, word_of_int (orDefault (TXDelay k) 40), word_of_int (orDefault (TXTail k) 30),
             word_of_int (orDefault (Persistence k) 63), word_of_int (orDefault (SlotTime k) 20), 7, 0] @ lePut32 0))"

section \<open>Registration\<close>

definition setCalls :: "bridge \<Rightarrow> nat \<Rightarrow> (string list \<Rightarrow> string list) \<Rightarrow> bridge" where
  "setCalls b c f = updClient b c (\<lambda>cl. cl\<lparr>registeredCalls := f (registeredCalls cl)\<rparr>)"

definition registerCall :: "bridge \<Rightarrow> nat \<Rightarrow> int \<Rightarrow> string \<Rightarrow> bridge" where
  "registerCall b c port from =
     (let call = ToUpper (uni (l2 b)) from; mine = registeredCalls (cstore b c)
      in if \<exists>other\<in>set (clients b). other \<noteq> c \<and> call \<in> set (registeredCalls (cstore b other))
         then reply b c port (CHR ''X'') from '''' [0x00]
         else if length mine \<ge> maxRegisteredCalls \<and> call \<notin> set mine
         then reply b c port (CHR ''X'') from '''' [0x00]
         else reply (setCalls b c (List.insert call)) c port (CHR ''X'') from '''' [0x01])"

definition unregisterCall :: "bridge \<Rightarrow> nat \<Rightarrow> string \<Rightarrow> bridge" where
  "unregisterCall b c from = setCalls b c (removeAll (ToUpper (uni (l2 b)) from))"

section \<open>Digipeater lists and unconnected frames\<close>

text \<open>Ten bytes per callsign, trailing NULs dropped; a short list ends early.\<close>

fun decodeVias :: "bytes \<Rightarrow> nat \<Rightarrow> string list" where
  "decodeVias viaBytes 0 = []"
| "decodeVias viaBytes (Suc n) =
     (if length viaBytes < 10 then []
      else TrimRight (CHR 0x00) (of_bytes (take 10 viaBytes)) # decodeVias (drop 10 viaBytes) n)"

text \<open>The via count, the via bytes and what follows them; the count is checked first.\<close>

definition splitVias :: "bytes \<Rightarrow> (string list \<times> bytes) option" where
  "splitVias data =
     (case data of
        [] \<Rightarrow> Some ([], [])
      | n # rest \<Rightarrow>
          if unat n > MaxDigipeaters then None
          else Some (decodeVias (take (unat n * 10) rest) (unat n), drop (unat n * 10) rest))"

definition parsedVias :: "unicode \<Rightarrow> string list \<Rightarrow> address list" where
  "parsedVias u via = concat (map (\<lambda>v. case ParseAddress u v of Inr a \<Rightarrow> [a] | Inl _ \<Rightarrow> []) via)"

definition sendUnproto :: "bridge \<Rightarrow> string \<Rightarrow> string \<Rightarrow> u8 \<Rightarrow> bytes \<Rightarrow> string list \<Rightarrow> int \<Rightarrow> bridge" where
  "sendUnproto b from to pid data via port =
     (case ParseAddress (uni (l2 b)) to of
        Inl _ \<Rightarrow> b
      | Inr dstAddr \<Rightarrow>
          (case ParseAddress (uni (l2 b)) from of
             Inl _ \<Rightarrow> b
           | Inr srcAddr \<Rightarrow>
               Bridge_SendAX25 b port
                 \<lparr>Dst = dstAddr\<lparr>CRH := True\<rparr>, Src = srcAddr, Via = parsedVias (uni (l2 b)) via, Type = UI,
                  NR = 0, NS = 0, PF = False, Modulo = 0, Command = True,
                  PID = (if pid = 0 then 0xF0 else pid), Info = data\<rparr>))"

section \<open>Connections\<close>

definition validCalls :: "bridge \<Rightarrow> nat \<Rightarrow> int \<Rightarrow> string \<Rightarrow> string \<Rightarrow> string list \<Rightarrow> bool \<times> bridge" where
  "validCalls b c port from to vias =
     (case find (\<lambda>call. \<exists>e. ParseAddress (uni (l2 b)) call = Inl e) ([from, to] @ vias) of
        None \<Rightarrow> (True, b)
      | Some call \<Rightarrow>
          (False, reply b c port (CHR ''d'') from to
             (to_bytes (''*** connect to '' @ to @ '' refused: invalid callsign '' @ quote b call @ CR))))"

text \<open>Another client holds an active connection of this pair.\<close>

definition heldByOther :: "bridge \<Rightarrow> nat \<Rightarrow> int \<Rightarrow> string \<Rightarrow> string \<Rightarrow> bool" where
  "heldByOther b c port from to \<longleftrightarrow>
     (case Get (l2 b) port from to of
        None \<Rightarrow> False
      | Some r \<Rightarrow> State (cell (l2 b) r) \<noteq> Disconnected \<and> Owner (cell (l2 b) r) \<noteq> Some c)"

definition openConn :: "bridge \<Rightarrow> nat \<Rightarrow> int \<Rightarrow> string \<Rightarrow> string \<Rightarrow> string list \<Rightarrow> bridge" where
  "openConn b c port from to vias =
     (case Connect (l2now b) port from to vias of (res, t) \<Rightarrow>
        (let b = runL2 b t
         in case res of Inl _ \<Rightarrow> busy b c port from to | Inr r \<Rightarrow> setOwner b r c))"

definition handle_C :: "bridge \<Rightarrow> nat \<Rightarrow> int \<Rightarrow> string \<Rightarrow> string \<Rightarrow> bridge" where
  "handle_C b c port from to =
     (case validCalls b c port from to [] of (ok, b) \<Rightarrow>
        if \<not> ok then b
        else if \<not> PortOnline b port then busy b c port from to
        else if heldByOther b c port from to then busy b c port from to
        else openConn b c port from to [])"

definition handle_c :: "bridge \<Rightarrow> nat \<Rightarrow> int \<Rightarrow> string \<Rightarrow> string \<Rightarrow> bridge" where
  "handle_c b c port from to =
     (case validCalls b c port from to [] of (ok, b) \<Rightarrow>
        if \<not> ok then b
        else if heldByOther b c port from to then busy b c port from to
        else openConn b c port from to [])"

definition handle_v :: "bridge \<Rightarrow> nat \<Rightarrow> int \<Rightarrow> string \<Rightarrow> string \<Rightarrow> bytes \<Rightarrow> bridge" where
  "handle_v b c port from to data =
     (case splitVias data of
        None \<Rightarrow> b
      | Some (vias, _) \<Rightarrow>
          (case validCalls b c port from to vias of (ok, b) \<Rightarrow>
             if \<not> ok then b
             else if \<not> PortOnline b port then busy b c port from to
             else if heldByOther b c port from to then busy b c port from to
             else openConn b c port from to vias))"

definition handle_D :: "bridge \<Rightarrow> nat \<Rightarrow> int \<Rightarrow> u8 \<Rightarrow> string \<Rightarrow> string \<Rightarrow> bytes \<Rightarrow> bridge" where
  "handle_D b c port pid from to data =
     (case Get (l2 b) port from to of
        None \<Rightarrow> b
      | Some r \<Rightarrow>
          if State (cell (l2 b) r) \<noteq> Connected then b
          else if Owner (cell (l2 b) r) \<noteq> Some c then b
          else onL2 b (\<lambda>t. snd (SendData t r (if pid = 0 then 0xF0 else pid) data)))"

definition handle_d :: "bridge \<Rightarrow> nat \<Rightarrow> int \<Rightarrow> string \<Rightarrow> string \<Rightarrow> bridge" where
  "handle_d b c port from to =
     (case Get (l2 b) port from to of
        None \<Rightarrow> b
      | Some r \<Rightarrow>
          if Owner (cell (l2 b) r) \<noteq> Some c then b else onL2 b (\<lambda>t. Disconnect t r))"

definition handle_K :: "bridge \<Rightarrow> nat \<Rightarrow> int \<Rightarrow> bytes \<Rightarrow> bridge" where
  "handle_K b c port data =
     (if registeredCalls (cstore b c) = [] then b
      else
        (let raw = (if data \<noteq> [] \<and> hd data = 0x00 then tl data else data)
         in if raw = [] then b
            else if (case Parse raw of
                       Inl _ \<Rightarrow> False
                     | Inr f \<Rightarrow>
                         (case Get (l2 b) port (addr_String (Src f)) (addr_String (Dst f)) of
                            None \<Rightarrow> False
                          | Some r \<Rightarrow> Owner (cell (l2 b) r) \<noteq> None \<and> Owner (cell (l2 b) r) \<noteq> Some c))
            then b
            else SendToKISS b port raw))"

definition handle_Y :: "bridge \<Rightarrow> nat \<Rightarrow> int \<Rightarrow> string \<Rightarrow> string \<Rightarrow> bridge" where
  "handle_Y b c port from to =
     (let count = (case Get (l2 b) port from to of
                     None \<Rightarrow> 0
                   | Some r \<Rightarrow> if Owner (cell (l2 b) r) = Some c then Outstanding (l2 b) r else 0)
      in reply b c port (CHR ''Y'') from to (lePut32 (word_of_int count)))"

section \<open>Dispatch\<close>

definition routePort :: "bridge \<Rightarrow> Header \<Rightarrow> int" where
  "routePort b hdr =
     (let port = uint (hPort hdr)
      in if char_of_byte (Kind hdr) \<in> set routedKinds \<and> port \<ge> PortCount b then 0 else port)"

definition handleFrame :: "bridge \<Rightarrow> nat \<Rightarrow> Header \<Rightarrow> bytes \<Rightarrow> bridge" where
  "handleFrame b c hdr data =
     (let port = routePort b hdr; kind = char_of_byte (Kind hdr); pid = hPID hdr;
          from = CallFrom hdr; to = CallTo hdr
      in if kind = CHR ''P'' then b
         else if kind = CHR ''R'' then sendVersion b c port
         else if kind = CHR ''G'' then sendPortInfo b c port
         else if kind = CHR ''g'' then sendPortCaps b c port
         else if kind = CHR ''X'' then registerCall b c port from
         else if kind = CHR ''x'' then unregisterCall b c from
         else if kind = CHR ''m'' then updClient b c (\<lambda>cl. cl\<lparr>monitoring := \<not> monitoring cl\<rparr>)
         else if kind = CHR ''M'' then sendUnproto b from to pid data [] port
         else if kind = CHR ''V'' then
           (case splitVias data of None \<Rightarrow> b | Some (vias, info) \<Rightarrow> sendUnproto b from to pid info vias port)
         else if kind = CHR ''C'' then handle_C b c port from to
         else if kind = CHR ''c'' then handle_c b c port from to
         else if kind = CHR ''v'' then handle_v b c port from to data
         else if kind = CHR ''D'' then handle_D b c port pid from to data
         else if kind = CHR ''d'' then handle_d b c port from to
         else if kind = CHR ''K'' then handle_K b c port data
         else if kind = CHR ''k'' then updClient b c (\<lambda>cl. cl\<lparr>rawMode := \<not> rawMode cl\<rparr>)
         else if kind = CHR ''y'' then reply b c port (CHR ''y'') '''' '''' (lePut32 0)
         else if kind = CHR ''Y'' then handle_Y b c port from to
         else if kind = CHR ''H'' then reply b c port (CHR ''H'') '''' '''' []
         else b)"

text \<open>
  The function \<open>post\<close> wraps around the handler; the frame counts as in flight until it has returned.
\<close>

definition runPending :: "bridge \<Rightarrow> nat \<Rightarrow> bridge" where
  "runPending b c =
     (case pending (cstore b c) of
        [] \<Rightarrow> b
      | (hdr, data) # rest \<Rightarrow>
          updClient (handleFrame b c hdr data) c (\<lambda>cl. cl\<lparr>inflight := inflight cl - 1, pending := tl (pending cl)\<rparr>))"

end
