(* ===== verification/L2_Owner.thy ===== *)
theory L2_Owner
  imports L2_Invariant
begin

text \<open>
  Who owns a connection: the connected-mode layer never assigns an owner, except that a connection
  it creates has none.  \<open>own\<close> is what an operation has to leave alone for that, the set of
  connections with the owner of every cell; \<open>tame\<close> is the weaker relation of the operations that
  create or remove connections.
\<close>

definition own :: "table \<Rightarrow> (connKey \<times> ref) list \<times> (ref \<Rightarrow> nat option)" where
  "own t = (conns t, \<lambda>r. Owner (cells t r))"

definition tame :: "table \<Rightarrow> table \<Rightarrow> bool" where
  "tame t t' \<longleftrightarrow> (\<forall>q. live t' q \<longrightarrow> Owner (cells t' q) = None \<or> live t q \<and> Owner (cells t' q) = Owner (cells t q))"

named_theorems own_simps \<open>operations that change neither the connections nor an owner\<close>

lemma tame_refl [simp]: "tame t t"
  by (simp add: tame_def)

lemma tame_trans: "tame t t' \<Longrightarrow> tame t' t'' \<Longrightarrow> tame t t''"
  unfolding tame_def by metis

lemma own_tame: "own t' = own t \<Longrightarrow> tame t t'"
  by (simp add: own_def tame_def live_def fun_eq_iff)

lemma tame_own: "own t' = own t \<Longrightarrow> tame t t'' = tame t' t''" "own t' = own t \<Longrightarrow> tame t'' t' = tame t'' t"
  by (simp_all add: own_def tame_def live_def fun_eq_iff)

section \<open>Operations on one connection\<close>

lemma own_upd [own_simps]: "(\<And>c. Owner (f c) = Owner c) \<Longrightarrow> own (upd t r f) = own t"
  by (auto simp: own_def fun_eq_iff)

lemma own_base [own_simps]:
  "own (emit t b h) = own t" "own (t\<lparr>eng := e\<rparr>) = own t" "own (cancelTimer t x) = own t" "own (sendFrame t p f) = own t"
  "own (t\<lparr>out := hs\<rparr>) = own t" "own (t\<lparr>thooks := hk\<rparr>) = own t" "own (notifyPortSessions t p) = own t"
  by (simp_all add: own_def)

lemma own_timers [own_simps]:
  "own (cancelT1 t r) = own t" "own (cancelT2 t r) = own t" "own (cancelT3 t r) = own t" "own (cancelAll t r) = own t"
  "own (startT1 t r) = own t" "own (startT3 t r) = own t" "own (scheduleT2 t r s d) = own t"
  by (auto simp: own_def fun_eq_iff)

lemma own_sending [own_simps]:
  "own (sendCmd t r ft) = own t" "own (sendSABM t r) = own t" "own (sendSABME t r) = own t" "own (sendEnquiry t r) = own t"
  "own (sendRRResponse t r s d) = own t" "own (t2Expired t r) = own t" "own (t3Expired t r) = own t"
  "own (enterConnected t r) = own t" "own (snd (fallbackToSABM t r)) = own t" "own (deliverData t r p i) = own t"
  by (simp_all add: sendCmd_def sendSABM_def sendSABME_def sendEnquiry_def sendRRResponse_def t2Expired_def t3Expired_def
    enterConnected_def fallbackToSABM_def deliverData_def Let_def own_simps)

lemma Owner_resetSeqs [simp]: "Owner (resetSeqs c) = Owner c"
  by (simp add: resetSeqs_def)

lemma own_drain [own_simps]: "own (drainStep t r) = own t"
  by (auto simp: own_def drainStep_def Let_def cells_drainStep fun_eq_iff split: prod.split list.split)

lemma own_drainLoop [own_simps]: "own (drainLoop t r) = own t"
proof (induction t r rule: drainLoop.induct)
  case (1 t r)
  then show ?case by (subst drainLoop.simps) (auto simp: own_simps)
qed

lemma own_drainOutbound [own_simps]: "own (drainOutbound t r) = own t" "own (snd (SendData t r p x)) = own t"
  by (auto simp: drainOutbound_def SendData_def Let_def own_simps split: prod.split)

lemma own_updateSRTT [own_simps]: "own (updateSRTT t r x) = own t"
  unfolding updateSRTT_def by (rule own_upd) (simp add: srttStep_def Let_def)

lemma own_sampleRTT [own_simps]: "own (sampleRTT n t r s) = own t"
  by (induction n t r s rule: sampleRTT.induct) (auto simp: own_simps Let_def split: option.split)

lemma own_ackFrames [own_simps]: "own (ackFrames t r nr) = own t"
  by (auto simp: ackFrames_def Let_def own_simps)

lemma own_retransmitLoop: "retransmitLoop n t r s e = Some t' \<Longrightarrow> own t' = own t"
  by (induction n t r s e arbitrary: t' rule: retransmitLoop.induct)
    (auto simp: own_simps Let_def split: if_splits option.splits sum.splits)

lemma own_retransmit [own_simps]: "own (retransmitRange t r s e) = own t" "own (retransmitFrom t r s) = own t"
  by (auto simp: retransmitRange_def retransmitFrom_def Let_def own_simps own_retransmitLoop split: option.split)

lemma own_Disconnect [own_simps]: "own (Disconnect t r) = own t"
  by (simp add: Disconnect_def Let_def own_simps)

lemma own_srejHoles [own_simps]: "own (srejHoles is t r s d l) = own t"
  by (induction "is" t r s d l rule: srejHoles.induct) (auto simp: own_simps Let_def)

lemma own_flushRx [own_simps]: "own (flushRx t r) = own t"
proof (induction t r rule: flushRx.induct)
  case (1 t r)
  have "own (flushStep t r e) = own t" for e by (simp add: flushStep_def Let_def own_simps)
  with 1 show ?case by (subst flushRx.simps) (auto split: option.split)
qed

lemma own_receive [own_simps]:
  "own (acceptSABM t r port via s d pf m) = own t" "own (sendXIDCommand t r) = own t" "own (notifyConnectedOut t r) = own t"
  "own (ackOrDelay t r pf s d) = own t" "own (sendSREJHoles t r s d l) = own t"
  "own (promote t ro) = own t" "own (resendOne t r nr) = own t" "own (deferRR t r s d) = own t"
  "own (answerDeferred t r s d) = own t"
  by (auto simp: acceptSABM_def sendXIDCommand_def notifyConnectedOut_def ackOrDelay_def sendSREJHoles_def promote_def
    resendOne_def deferRR_def answerDeferred_def Let_def own_simps split: option.split sum.split)

lemma own_recv [own_simps]: "own (recvSREJ t r pp f s d) = own t" "own (recvREJ t r port pp f s d) = own t"
  by (auto simp: recvSREJ_def recvREJ_def Let_def own_simps)

lemma own_recovery [own_simps]: "own (timerRecovery t r f v) = own t" "own (answerPoll t port f s d) = own t"
  by (auto simp: timerRecovery_def answerPoll_def Let_def own_simps split: option.split)

lemma own_dispatch [own_simps]:
  "own (dispatchI t port f s d) = own t" "own (dispatchS t port f s d) = own t" "own (dispatchXID t port f s d) = own t"
  "own (dispatchFRMR t port f s d) = own t"
  by (auto simp: dispatchI_def dispatchS_def dispatchXID_def dispatchFRMR_def Let_def own_simps split: option.split sum.split)

section \<open>Operations that create or remove connections\<close>

lemma tame_remove: "tame t (remove t p l m)"
  by (auto simp: tame_def live_def remove_def Let_def AList.delete_eq split: option.split)

lemma tame_removeConn: "own t' = own t \<Longrightarrow> tame t (removeConn t' r)"
  using tame_remove tame_own(1) unfolding removeConn_def by blast

lemma tame_getOrCreate: "getOrCreate t p l m = (ro, t') \<Longrightarrow> tame t t'"
  by (auto simp: getOrCreate_def tame_def live_def Let_def newConn_def split: option.splits if_splits)

lemma tame_getOrCreate_then:
  "tame t (case getOrCreate t p l m of (None, t) \<Rightarrow> f t | (Some r, t) \<Rightarrow> g t r)"
  if "\<And>t. own (f t) = own t" "\<And>t r. own (g t r) = own t"
proof -
  obtain ro t' where g: "getOrCreate t p l m = (ro, t')" by fastforce
  have "own (case ro of None \<Rightarrow> f t' | Some r \<Rightarrow> g t' r) = own t'" using that by (cases ro) simp_all
  with tame_trans [OF tame_getOrCreate [OF g] own_tame] g show ?thesis by (cases ro) simp_all
qed

lemma tame_establish:
  "tame t (dispatchSABM t port f s d)" "tame t (dispatchSABME t port f s d)" "tame t (dispatchUA t port f s d)"
  "tame t (dispatchDM t port f s d)" "tame t (dispatchDISC t port f s d)"
  using tame_getOrCreate_then [of "\<lambda>t. sendFrame t port (respFrame (uni t) s d (reversed (addrSliceToStrings (Via f))) DM (PF f))"
      "\<lambda>t r. acceptSABM t r port (reversed (addrSliceToStrings (Via f))) s d (PF f) m" for m]
  by (auto simp: dispatchSABM_def dispatchSABME_def dispatchUA_def dispatchDM_def dispatchDISC_def Let_def own_simps
      intro: own_tame tame_removeConn split: option.split)

lemma tame_OnFrame: "tame t (OnFrame t port f)"
proof -
  let ?d = "dispatch t port f (addr_String (Src f)) (addr_String (Dst f))"
  have "tame t ?d"
    by (cases "Type f") (simp_all add: dispatch_def tame_establish own_tame own_simps)
  moreover have "own (OnFrame t port f) = own ?d"
    by (auto simp: OnFrame_def Let_def own_simps split: option.split)
  ultimately show ?thesis using tame_trans own_tame by blast
qed

lemma tame_Connect: "tame t (snd (Connect t port l m via))"
proof (cases "firstBadCall (uni t) ([l, m] @ via)")
  case None
  obtain ro t' where g: "getOrCreate t port l m = (ro, t')" by fastforce
  have "own (snd (Connect t port l m via)) = own t'"
    using None g by (cases ro) (auto simp: Connect_def Let_def own_simps)
  then show ?thesis using tame_trans [OF tame_getOrCreate [OF g] own_tame] by blast
qed (simp add: Connect_def)

lemma tame_foldl: "(\<And>t r. tame t (f t r)) \<Longrightarrow> tame t (foldl f t rs)"
proof (induction rs arbitrary: t)
  case (Cons r rs)
  then show ?case using tame_trans by (simp, blast)
qed simp

lemma tame_bulk: "tame t (RemoveOwned ord t ow)" "tame t (PortOffline ord t port)"
  unfolding RemoveOwned_def PortOffline_def
  by (rule tame_foldl, auto simp: dropOwned_def dropOffline_def Let_def own_simps intro!: tame_removeConn)+

lemma tame_t1Expired: "tame t (t1Expired t r)"
  by (auto simp: t1Expired_def Let_def own_simps intro!: own_tame tame_removeConn split: prod.split if_splits)

lemma tame_runClosure: "tame t (runClosure t fn)"
  by (auto simp: runClosure_def tame_t1Expired own_simps intro: own_tame split: closure.split)

end
