(* ===== verification/Bridge_Frame.thy ===== *)
theory Bridge_Frame
  imports Agwpe_Handler L2_Owner
begin

text \<open>
  What the bridge's sends, sinks and hooks leave alone.  \<open>fixed\<close> is everything of a bridge that none
  of them changes, \<open>sane\<close> the bounds they all keep, and \<open>owned\<close> what the hooks may do to the
  connection table: give a connection to one of the current clients.
\<close>

lemma foldl_same: "(\<And>s x. g (f s x) = g s) \<Longrightarrow> g (foldl f s xs) = g s"
  by (induction xs arbitrary: s) simp_all

lemma foldl_pred: "(\<And>s x. P s \<Longrightarrow> P (f s x)) \<Longrightarrow> P s \<Longrightarrow> P (foldl f s xs)"
  by (induction xs arbitrary: s) simp_all

section \<open>Definitions\<close>

definition fixed :: "bridge \<Rightarrow> bridge" where
  "fixed b = b\<lparr>l2 := (l2 b)\<lparr>out := [], cells := \<lambda>r. (cells (l2 b) r)\<lparr>Owner := None\<rparr>\<rparr>, bus := [], sentFrames := [],
     rxFrames := replicate (length (rxFrames b)) 0, txFrames := replicate (length (txFrames b)) 0,
     kports := \<lambda>i. (kports b i)\<lparr>txCh := []\<rparr>,
     cstore := \<lambda>c. (cstore b c)\<lparr>writeCh := [], cclosed := False, connOpen := False\<rparr>\<rparr>"

definition sane :: "bridge \<Rightarrow> bool" where
  "sane b \<longleftrightarrow> (\<forall>c. client_inv (cstore b c)) \<and> length (sentFrames b) \<le> echoRingSize
     \<and> (\<forall>i. length (txCh (kports b i)) \<le> txQueueSize)"

definition owned :: "nat list \<Rightarrow> table \<Rightarrow> table \<Rightarrow> bool" where
  "owned cs t t' \<longleftrightarrow> (\<forall>r. Owner (cells t' r) = Owner (cells t r) \<or> (\<exists>c\<in>set cs. Owner (cells t' r) = Some c))"

lemma owned_refl [simp]: "owned cs t t"
  by (simp add: owned_def)

lemma owned_trans: "owned cs t t' \<Longrightarrow> owned cs t' t'' \<Longrightarrow> owned cs t t''"
  unfolding owned_def by metis

named_theorems bridge_simps \<open>what sends, sinks and hooks leave alone\<close>

lemma fixed_fields:
  assumes "fixed b' = fixed b"
  shows "cfg b' = cfg b" "quote b' = quote b" "ports b' = ports b" "nextPort b' = nextPort b" "clients b' = clients b"
    "relinks b' = relinks b" "lastRX b' = lastRX b" "portEpoch b' = portEpoch b" "tasks b' = tasks b"
    "idleSweepTimer b' = idleSweepTimer b" "rxWedgeTimer b' = rxWedgeTimer b"
    "rawSinks b' = rawSinks b" "monitorSinks b' = monitorSinks b" "txSinks b' = txSinks b" "connSinks b' = connSinks b"
    "length (rxFrames b') = length (rxFrames b)" "length (txFrames b') = length (txFrames b)"
    "registeredCalls (cstore b' c) = registeredCalls (cstore b c)" "pending (cstore b' c) = pending (cstore b c)"
    "inflight (cstore b' c) = inflight (cstore b c)" "rdbuf (cstore b' c) = rdbuf (cstore b c)"
    "monitoring (cstore b' c) = monitoring (cstore b c)" "rawMode (cstore b' c) = rawMode (cstore b c)"
    "online (kports b' i) = online (kports b i)" "kclosed (kports b' i) = kclosed (kports b i)"
    "kNum (kports b' i) = kNum (kports b i)" "trOpen (kports b' i) = trOpen (kports b i)"
    "conns (l2 b') = conns (l2 b)" "uni (l2 b') = uni (l2 b)" "params (l2 b') = params (l2 b)"
    "nextConn (l2 b') = nextConn (l2 b)" "eng (l2 b') = eng (l2 b)" "thooks (l2 b') = thooks (l2 b)"
    "(cells (l2 b') r)\<lparr>Owner := None\<rparr> = (cells (l2 b) r)\<lparr>Owner := None\<rparr>"
proof -
  show "length (rxFrames b') = length (rxFrames b)" "length (txFrames b') = length (txFrames b)"
    using arg_cong [OF assms, of rxFrames] arg_cong [OF assms, of txFrames] by (simp_all add: fixed_def)
  show "cfg b' = cfg b" "quote b' = quote b" "ports b' = ports b" "nextPort b' = nextPort b" "clients b' = clients b"
    "relinks b' = relinks b" "lastRX b' = lastRX b" "portEpoch b' = portEpoch b" "tasks b' = tasks b"
    "idleSweepTimer b' = idleSweepTimer b" "rxWedgeTimer b' = rxWedgeTimer b"
    "rawSinks b' = rawSinks b" "monitorSinks b' = monitorSinks b" "txSinks b' = txSinks b" "connSinks b' = connSinks b"
    using arg_cong [OF assms, of cfg] arg_cong [OF assms, of quote] arg_cong [OF assms, of ports]
      arg_cong [OF assms, of nextPort] arg_cong [OF assms, of clients] arg_cong [OF assms, of relinks]
      arg_cong [OF assms, of lastRX] arg_cong [OF assms, of portEpoch] arg_cong [OF assms, of tasks]
      arg_cong [OF assms, of idleSweepTimer] arg_cong [OF assms, of rxWedgeTimer] arg_cong [OF assms, of rawSinks]
      arg_cong [OF assms, of monitorSinks] arg_cong [OF assms, of txSinks] arg_cong [OF assms, of connSinks]
    by (simp_all add: fixed_def)
  have c: "(cstore b' c)\<lparr>writeCh := [], cclosed := False, connOpen := False\<rparr>
      = (cstore b c)\<lparr>writeCh := [], cclosed := False, connOpen := False\<rparr>"
    using fun_cong [OF arg_cong [OF assms, of cstore], of c] by (simp add: fixed_def)
  show "registeredCalls (cstore b' c) = registeredCalls (cstore b c)" "pending (cstore b' c) = pending (cstore b c)"
    "inflight (cstore b' c) = inflight (cstore b c)" "rdbuf (cstore b' c) = rdbuf (cstore b c)"
    "monitoring (cstore b' c) = monitoring (cstore b c)" "rawMode (cstore b' c) = rawMode (cstore b c)"
    using arg_cong [OF c, of registeredCalls] arg_cong [OF c, of pending] arg_cong [OF c, of inflight]
      arg_cong [OF c, of rdbuf] arg_cong [OF c, of monitoring] arg_cong [OF c, of rawMode] by simp_all
  have k: "(kports b' i)\<lparr>txCh := []\<rparr> = (kports b i)\<lparr>txCh := []\<rparr>"
    using fun_cong [OF arg_cong [OF assms, of kports], of i] by (simp add: fixed_def)
  show "online (kports b' i) = online (kports b i)" "kclosed (kports b' i) = kclosed (kports b i)"
    "kNum (kports b' i) = kNum (kports b i)" "trOpen (kports b' i) = trOpen (kports b i)"
    using arg_cong [OF k, of online] arg_cong [OF k, of kclosed] arg_cong [OF k, of kNum] arg_cong [OF k, of trOpen]
    by simp_all
  have t: "(l2 b')\<lparr>out := [], cells := \<lambda>r. (cells (l2 b') r)\<lparr>Owner := None\<rparr>\<rparr>
      = (l2 b)\<lparr>out := [], cells := \<lambda>r. (cells (l2 b) r)\<lparr>Owner := None\<rparr>\<rparr>"
    using arg_cong [OF assms, of l2] by (simp add: fixed_def)
  show "conns (l2 b') = conns (l2 b)" "uni (l2 b') = uni (l2 b)" "params (l2 b') = params (l2 b)"
    "nextConn (l2 b') = nextConn (l2 b)" "eng (l2 b') = eng (l2 b)" "thooks (l2 b') = thooks (l2 b)"
    "(cells (l2 b') r)\<lparr>Owner := None\<rparr> = (cells (l2 b) r)\<lparr>Owner := None\<rparr>"
    using arg_cong [OF t, of conns] arg_cong [OF t, of uni] arg_cong [OF t, of params] arg_cong [OF t, of nextConn]
      arg_cong [OF t, of eng] arg_cong [OF t, of thooks] fun_cong [OF arg_cong [OF t, of cells], of r] by simp_all
qed

section \<open>Sends and sinks\<close>

lemma fixed_clientSend [bridge_simps]: "fixed (clientSend p k i f t d b c) = fixed b"
  by (simp add: fixed_def clientSend_def updClient_def SendAGWPE_def CloseTransport_def Let_def fun_eq_iff)

lemma sane_clientSend [bridge_simps]: "sane b \<Longrightarrow> sane (clientSend p k i f t d b c)"
  by (simp add: sane_def clientSend_def updClient_def)

lemma l2_clientSend [bridge_simps]: "l2 (clientSend p k i f t d b c) = l2 b"
  by (simp add: clientSend_def updClient_def)

lemma bus_simps [bridge_simps]:
  "fixed (b\<lparr>bus := x\<rparr>) = fixed b" "sane (b\<lparr>bus := x\<rparr>) = sane b"
  by (simp_all add: fixed_def sane_def)

lemma monitor_simps [bridge_simps]:
  "fixed (monitor_OnRXFrame ts b p f) = fixed b" "l2 (monitor_OnRXFrame ts b p f) = l2 b"
  "sane b \<Longrightarrow> sane (monitor_OnRXFrame ts b p f)"
  by (auto simp: monitor_OnRXFrame_def bridge_simps split: option.split intro!: foldl_same [where g = fixed]
    foldl_same [where g = l2] foldl_pred [where P = sane])

lemma raw_simps [bridge_simps]:
  "fixed (raw_OnRawRX b p raw) = fixed b" "l2 (raw_OnRawRX b p raw) = l2 b" "sane b \<Longrightarrow> sane (raw_OnRawRX b p raw)"
  by (auto simp: raw_OnRawRX_def Let_def bridge_simps split: prod.split intro!: foldl_same [where g = fixed]
    foldl_same [where g = l2] foldl_pred [where P = sane])

lemma emit_bridge_simps [bridge_simps]:
  "fixed (emitRawRX b p raw) = fixed b" "l2 (emitRawRX b p raw) = l2 b" "sane b \<Longrightarrow> sane (emitRawRX b p raw)"
  "fixed (emitMonitor ts b p f) = fixed b" "l2 (emitMonitor ts b p f) = l2 b" "sane b \<Longrightarrow> sane (emitMonitor ts b p f)"
  "fixed (emitTXFrame b p f) = fixed b" "l2 (emitTXFrame b p f) = l2 b" "sane (emitTXFrame b p f) = sane b"
  "fixed (emitConn b e) = fixed b" "l2 (emitConn b e) = l2 b" "sane (emitConn b e) = sane b"
  unfolding emitRawRX_def emitMonitor_def emitTXFrame_def emitConn_def
  by (auto simp: bridge_simps split: rawSink.split monSink.split intro!: foldl_same [where g = fixed]
    foldl_same [where g = l2] foldl_pred [where P = sane])

lemma trackSent_bound: "length (sentFrames b) \<le> echoRingSize \<Longrightarrow> length (sentFrames (trackSent b x)) \<le> echoRingSize"
  by (auto simp: trackSent_def Let_def echoRingSize_def)

lemma Send_simps [simp]: "(Send p raw)\<lparr>txCh := []\<rparr> = p\<lparr>txCh := []\<rparr>"
  "length (txCh p) \<le> txQueueSize \<Longrightarrow> length (txCh (Send p raw)) \<le> txQueueSize"
  by (auto simp: Send_def Let_def)

lemma SendToKISS_cases:
  obtains "SendToKISS b p raw = b"
  | i tx ev where "inRange p (ports b)" "ports b ! nat p = Some i" "online (kports b i)"
      "length tx = length (txFrames b)"
      "SendToKISS b p raw = (updPort (trackSent b (normalizeHBits raw)) i (\<lambda>p. Send p raw))\<lparr>txFrames := tx, bus := bus b @ ev\<rparr>"
proof (cases "inRange p (ports b) \<and> (\<exists>i. ports b ! nat p = Some i \<and> online (kports b i))")
  case False
  then have "SendToKISS b p raw = b" by (auto simp: SendToKISS_def split: option.split)
  then show thesis by (rule that(1))
next
  case True
  then obtain i where i: "ports b ! nat p = Some i" "online (kports b i)" and p: "inRange p (ports b)" by blast
  let ?b = "updPort (trackSent b (normalizeHBits raw)) i (\<lambda>p. Send p raw)"
  let ?tx = "if inRange p (txFrames b) then setAt p (txFrames b ! nat p + 1) (txFrames b) else txFrames b"
  have b: "txFrames ?b = txFrames b" "bus ?b = bus b" "txSinks ?b = txSinks b"
    by (simp_all add: updPort_def trackSent_def Let_def)
  let ?ev = "if txSinks b \<noteq> [] then (case Parse raw of Inr f \<Rightarrow> map (\<lambda>n. OnTXFrame n p f) (txSinks b) | Inl _ \<Rightarrow> []) else []"
  have "SendToKISS b p raw = ?b\<lparr>txFrames := ?tx, bus := bus b @ ?ev\<rparr>"
    using i p b by (cases ?b) (auto simp: SendToKISS_def Let_def emitTXFrame_def split: sum.split)
  with i p show thesis by (intro that(2) [of i ?tx ?ev]) (auto simp: setAt_def)
qed

lemma SendToKISS_simps [bridge_simps]:
  "fixed (SendToKISS b p raw) = fixed b" "l2 (SendToKISS b p raw) = l2 b" "sane b \<Longrightarrow> sane (SendToKISS b p raw)"
  "cstore (SendToKISS b p raw) = cstore b"
  by (rule SendToKISS_cases [of b p raw],
      auto simp: fixed_def updPort_def trackSent_def sane_def Let_def fun_eq_iff echoRingSize_def)+

lemma SendAX25_simps [bridge_simps]:
  "fixed (Bridge_SendAX25 b p f) = fixed b" "l2 (Bridge_SendAX25 b p f) = l2 b" "sane b \<Longrightarrow> sane (Bridge_SendAX25 b p f)"
  "cstore (Bridge_SendAX25 b p f) = cstore b"
  by (simp_all add: Bridge_SendAX25_def bridge_simps)

section \<open>Hooks\<close>

lemma toOwner_simps [bridge_simps]:
  "fixed (toOwner b r k i d) = fixed b" "l2 (toOwner b r k i d) = l2 b" "sane b \<Longrightarrow> sane (toOwner b r k i d)"
  by (auto simp: toOwner_def Let_def bridge_simps split: option.split)

lemma setOwner_simps [bridge_simps]:
  "fixed (setOwner b r c) = fixed b" "sane (setOwner b r c) = sane b"
  by (auto simp: setOwner_def fixed_def sane_def upd_def fun_eq_iff)

lemma owned_setOwner: "c \<in> set cs \<Longrightarrow> owned cs (l2 b) (l2 (setOwner b r c))"
  by (auto simp: owned_def setOwner_def)

lemma notify_simps [bridge_simps]:
  "fixed (notifyConnected b r inc) = fixed b" "sane b \<Longrightarrow> sane (notifyConnected b r inc)"
  "fixed (notifyConnectFailed b r e) = fixed b" "l2 (notifyConnectFailed b r e) = l2 b"
  "sane b \<Longrightarrow> sane (notifyConnectFailed b r e)"
  "fixed (notifyData b r i d) = fixed b" "l2 (notifyData b r i d) = l2 b" "sane b \<Longrightarrow> sane (notifyData b r i d)"
  "fixed (notifyDisconnected b r) = fixed b" "l2 (notifyDisconnected b r) = l2 b" "sane b \<Longrightarrow> sane (notifyDisconnected b r)"
  by (simp_all add: notifyConnected_def notifyConnectFailed_def notifyData_def notifyDisconnected_def Let_def bridge_simps
    split: option.split)

lemma owned_notifyConnected: "owned (clients b) (l2 b) (l2 (notifyConnected b r inc))"
  by (auto simp: notifyConnected_def Let_def bridge_simps find_Some_iff intro!: owned_setOwner split: option.split)

lemma runHook_simps [bridge_simps]: "fixed (runHook b h) = fixed b" "sane b \<Longrightarrow> sane (runHook b h)"
  by (cases h; simp add: bridge_simps)+

lemma owned_runHook: "owned (clients b) (l2 b) (l2 (runHook b h))"
  by (cases h) (simp_all add: bridge_simps owned_notifyConnected)

lemma out_runHook: "out (l2 (runHook b h)) = out (l2 b)"
  by (cases h) (auto simp: bridge_simps notifyConnected_def Let_def setOwner_def split: option.split)

lemma owned_hooks: "owned (clients b) (l2 b) (l2 (foldl runHook b hs))"
proof (induction hs arbitrary: b)
  case (Cons h hs)
  have "clients (runHook b h) = clients b" using fixed_fields(5) runHook_simps(1) by blast
  with owned_trans [OF owned_runHook [of b h]] Cons [of "runHook b h"] show ?case by simp
qed simp

lemma runHooks_simps [bridge_simps]:
  "fixed (runHooks b) = fixed b" "sane b \<Longrightarrow> sane (runHooks b)" "out (l2 (runHooks b)) = []"
  "owned (clients b) (l2 b) (l2 (runHooks b))"
proof -
  have "fixed (b\<lparr>l2 := (l2 b)\<lparr>out := []\<rparr>\<rparr>) = fixed b" by (simp add: fixed_def)
  then show "fixed (runHooks b) = fixed b"
    unfolding runHooks_def by (metis foldl_same [where g = fixed] runHook_simps(1))
  show "sane b \<Longrightarrow> sane (runHooks b)"
    unfolding runHooks_def by (rule foldl_pred [where P = sane]) (simp_all add: bridge_simps, simp add: sane_def)
  show "out (l2 (runHooks b)) = []"
    unfolding runHooks_def by (subst foldl_same [where g = "\<lambda>b. out (l2 b)"]) (simp_all add: out_runHook)
  have "owned (clients b) (l2 b) ((l2 b)\<lparr>out := []\<rparr>)" by (simp add: owned_def)
  with owned_hooks [of "b\<lparr>l2 := (l2 b)\<lparr>out := []\<rparr>\<rparr>" "out (l2 b)"]
  show "owned (clients b) (l2 b) (l2 (runHooks b))" unfolding runHooks_def by (auto intro: owned_trans)
qed

end
