(* ===== verification/Bridge_Inv.thy ===== *)
theory Bridge_Inv
  imports Bridge_Frame
begin

text \<open>
  The invariant of the bridge and its preservation by every function the event loop runs for it,
  by the goroutines of the port life cycle and by the clients' read and write loops; and the whole
  as a transition system.
\<close>

section \<open>The invariant\<close>

definition owners_ok :: "bridge \<Rightarrow> bool" where
  "owners_ok b \<longleftrightarrow> (\<forall>r c. live (l2 b) r \<longrightarrow> Owner (cell (l2 b) r) = Some c \<longrightarrow> c \<in> set (clients b))"

definition calls_ok :: "bridge \<Rightarrow> bool" where
  "calls_ok b \<longleftrightarrow> (\<forall>c\<in>set (clients b). \<forall>d\<in>set (clients b). c \<noteq> d \<longrightarrow>
     set (registeredCalls (cstore b c)) \<inter> set (registeredCalls (cstore b d)) = {})"

definition clients_ok :: "bridge \<Rightarrow> bool" where
  "clients_ok b \<longleftrightarrow> distinct (clients b)
     \<and> (cfgMaxClients (cfg b) > 0 \<longrightarrow> int (length (clients b)) \<le> cfgMaxClients (cfg b))"

definition shape_ok :: "bridge \<Rightarrow> bool" where
  "shape_ok b \<longleftrightarrow> (let n = length (cfgPorts (cfg b))
     in length (ports b) = n \<and> length (rxFrames b) = n \<and> length (txFrames b) = n \<and> length (lastRX b) = n
        \<and> length (relinks b) = n \<and> length (portEpoch b) = n)"

definition relinks_ok :: "bridge \<Rightarrow> bool" where
  "relinks_ok b \<longleftrightarrow> (\<forall>x\<in>set (relinks b). 0 \<le> x \<and> x \<le> relinkEscalateAfter)"

fun taskPort :: "task \<Rightarrow> nat" where
  "taskPort (Dial i _ _) = i"
| "taskPort (Install i _ _ _) = i"
| "taskPort (Schedule i _) = i"
| "taskPort (ReconnectTimer i _ _ _) = i"
| "taskPort (Relink i _ _) = i"
| "taskPort (WentOffline i) = i"

definition tasks_ok :: "bridge \<Rightarrow> bool" where
  "tasks_ok b \<longleftrightarrow> (\<forall>k\<in>set (tasks b). taskPort k < length (cfgPorts (cfg b)))
     \<and> (\<forall>i<nextPort b. 0 \<le> kNum (kports b i) \<and> nat (kNum (kports b i)) < length (cfgPorts (cfg b)))"

definition rest_inv :: "bridge \<Rightarrow> bool" where
  "rest_inv b \<longleftrightarrow> sane b \<and> calls_ok b \<and> clients_ok b \<and> shape_ok b \<and> relinks_ok b \<and> tasks_ok b"

definition bridge_inv :: "bridge \<Rightarrow> bool" where
  "bridge_inv b \<longleftrightarrow> table_inv (l2 b) \<and> out (l2 b) = [] \<and> owners_ok b \<and> rest_inv b"

lemmas inv_defs = rest_inv_def owners_ok_def calls_ok_def clients_ok_def shape_ok_def relinks_ok_def tasks_ok_def

section \<open>The connection table under the bridge\<close>

lemma conn_inv_Owner: "conn_inv w (c\<lparr>Owner := x\<rparr>) = conn_inv w c"
  by simp

lemma table_inv_cong:
  assumes "uni t' = uni t" "params t' = params t" "conns t' = conns t" "nextConn t' = nextConn t"
    and "\<And>r. (cells t' r)\<lparr>Owner := None\<rparr> = (cells t r)\<lparr>Owner := None\<rparr>"
  shows "table_inv t' = table_inv t"
proof -
  have f: "g (cells t' r) = g (cells t r)" if "\<And>c. g (c\<lparr>Owner := None\<rparr>) = g c" for r and g :: "conn \<Rightarrow> 'a"
    using assms(5) [of r] that by metis
  have p: "portParams t' = portParams t" using assms(2) by (rule portParams_cong)
  have i: "ident (cells t' r) = ident (cells t r)" and d: "idle_timers (cells t' r) = idle_timers (cells t r)"
    and w: "window t' r = window t r" and v: "conn_inv x (cells t' r) = conn_inv x (cells t r)" for r x
    using f [of ident r] f [of idle_timers r] f [of cPort r] f [of "conn_inv x" r] p
    by (simp_all add: ident_def idle_timers_def window_def)
  show ?thesis
    using assms(1-4) by (simp add: table_inv_def params_ok_def conns_ok_def entry_ok_def cells_ok_def live_def cinv_def i d w v)
qed

lemma table_inv_view [simp]:
  "table_inv (t\<lparr>thooks := h\<rparr>) = table_inv t" "table_inv (t\<lparr>out := o'\<rparr>) = table_inv t"
  by (rule table_inv_cong; simp)+

lemma table_inv_l2now [simp]: "table_inv (l2now b) = table_inv (l2 b)"
  by (simp add: l2now_def)

lemma l2now_simps [simp]:
  "conns (l2now b) = conns (l2 b)" "cells (l2now b) = cells (l2 b)" "uni (l2now b) = uni (l2 b)"
  "params (l2now b) = params (l2 b)" "nextConn (l2now b) = nextConn (l2 b)" "out (l2now b) = out (l2 b)"
  "eng (l2now b) = eng (l2 b)" "Get (l2now b) = Get (l2 b)" "live (l2now b) = live (l2 b)"
  by (simp_all add: l2now_def fun_eq_iff Get_def live_def)

lemma own_l2now: "own (l2now b) = own (l2 b)"
  by (simp add: l2now_def own_simps)

lemma tame_l2now: "tame (l2now b) t = tame (l2 b) t"
  using tame_own(1) [OF own_l2now] by blast

lemma ModuloFor_l2now [simp]: "ModuloFor (l2now b) = ModuloFor (l2 b)"
  by (intro ext) (simp add: ModuloFor_def split: option.split)

lemma rxParse_l2now: "rxParse (l2now b) = rxParse (l2 b)"
  by (intro ext) (simp add: rxParse_def split: sum.split)

lemma live_out [simp]: "live (t\<lparr>out := x\<rparr>) = live t"
  by (simp add: fun_eq_iff live_def)

section \<open>What keeps the invariant\<close>

lemma sane_l2 [simp]: "sane (b\<lparr>l2 := t\<rparr>) = sane b"
  by (simp add: sane_def)

lemma inv_fixed:
  assumes "bridge_inv b" "fixed b' = fixed b" "sane b'" "out (l2 b') = []" "owned (clients b) (l2 b) (l2 b')"
  shows "bridge_inv b'"
proof -
  note f = fixed_fields [OF assms(2)]
  have "table_inv (l2 b') = table_inv (l2 b)" by (rule table_inv_cong) (simp_all add: f)
  moreover have "owners_ok b'"
    unfolding owners_ok_def
  proof (intro allI impI)
    fix r c assume r: "live (l2 b') r" "Owner (cell (l2 b') r) = Some c"
    have "live (l2 b) r" using r(1) f(28) by (simp add: live_def)
    with assms(1,5) r(2) show "c \<in> set (clients b')"
      unfolding f(5) bridge_inv_def owners_ok_def owned_def by (metis option.inject)
  qed
  ultimately show ?thesis
    using assms by (simp add: bridge_inv_def inv_defs f Let_def)
qed

lemma inv_quiet: "bridge_inv b \<Longrightarrow> fixed b' = fixed b \<Longrightarrow> sane b' \<Longrightarrow> l2 b' = l2 b \<Longrightarrow> bridge_inv b'"
  by (rule inv_fixed [of b]) (simp_all add: bridge_inv_def)

lemma inv_runL2_gen:
  assumes "rest_inv b" "table_inv t" "\<And>r c. live t r \<Longrightarrow> Owner (cell t r) = Some c \<Longrightarrow> c \<in> set (clients b)"
  shows "bridge_inv (runL2 b t)"
proof -
  let ?b = "b\<lparr>l2 := t\<lparr>out := []\<rparr>\<rparr>"
  have "owners_ok ?b" using assms(3) by (simp add: owners_ok_def)
  then have inv: "bridge_inv ?b" using assms(1,2) by (simp add: bridge_inv_def inv_defs Let_def)
  have fx: "fixed (runL2 b t) = fixed ?b" by (simp add: runL2_def bridge_simps) (simp add: fixed_def)
  have sn: "sane (runL2 b t)" using assms(1) by (simp add: runL2_def bridge_simps rest_inv_def)
  have ow: "owned (clients ?b) (l2 ?b) (l2 (runL2 b t))"
    using runHooks_simps(4) [of "b\<lparr>l2 := t\<rparr>"] by (simp add: runL2_def owned_def)
  show ?thesis by (rule inv_fixed [OF inv fx sn _ ow]) (simp add: runL2_def bridge_simps)
qed

lemma inv_runL2:
  assumes "bridge_inv b" "table_inv t" "tame (l2 b) t"
  shows "bridge_inv (runL2 b t)"
proof (rule inv_runL2_gen [OF _ assms(2)])
  show "rest_inv b" using assms(1) by (simp add: bridge_inv_def)
  show "c \<in> set (clients b)" if "live t r" "Owner (cell t r) = Some c" for r c
    using assms(1,3) that unfolding bridge_inv_def owners_ok_def tame_def by (metis option.distinct(1))
qed

lemma runL2_clients: "clients (runL2 b t) = clients b"
  using fixed_fields(5) [OF runHooks_simps(1) [of "b\<lparr>l2 := t\<rparr>"]] by (simp add: runL2_def)

lemma inv_onL2:
  assumes "bridge_inv b" "table_inv (f (l2now b))" "tame (l2now b) (f (l2now b))"
  shows "bridge_inv (onL2 b f)"
  using assms by (simp add: onL2_def inv_runL2 tame_l2now)

lemma inv_setOwner: "bridge_inv b \<Longrightarrow> c \<in> set (clients b) \<Longrightarrow> bridge_inv (setOwner b r c)"
  by (rule inv_fixed [of b]) (simp_all add: bridge_simps owned_setOwner bridge_inv_def rest_inv_def, simp add: setOwner_def)

lemma inv_updClient:
  assumes "bridge_inv b" "client_inv (f (cstore b c))" "registeredCalls (f (cstore b c)) = registeredCalls (cstore b c)"
  shows "bridge_inv (updClient b c f)"
  using assms by (simp add: bridge_inv_def inv_defs updClient_def sane_def Let_def)

lemma inv_reply: "bridge_inv b \<Longrightarrow> bridge_inv (reply b c p k f t d)"
  unfolding reply_def sendFrame0_SendAGWPE by (rule inv_updClient) (simp_all add: bridge_inv_def rest_inv_def sane_def)

lemma inv_SendToKISS: "bridge_inv b \<Longrightarrow> bridge_inv (SendToKISS b p raw)"
  by (rule inv_quiet [of b]) (simp_all add: bridge_simps bridge_inv_def rest_inv_def)

lemma inv_SendAX25: "bridge_inv b \<Longrightarrow> bridge_inv (Bridge_SendAX25 b p f)"
  by (simp add: Bridge_SendAX25_def inv_SendToKISS)

section \<open>Received frames\<close>

lemma length_setAt [simp]: "length (setAt i x xs) = length xs"
  by (simp add: setAt_def)

lemma set_setAt: "y \<in> set (setAt i x xs) \<Longrightarrow> y = x \<or> y \<in> set xs"
  by (auto simp: setAt_def split: if_splits dest: set_update_subset_insert [THEN subsetD])

lemma inv_countRX: "bridge_inv b \<Longrightarrow> bridge_inv (countRX b clk p)"
  by (auto simp: bridge_inv_def inv_defs countRX_def sane_def Let_def relinkEscalateAfter_def dest!: set_setAt)

lemma inv_OnKISSFrame: "bridge_inv b \<Longrightarrow> bridge_inv (OnKISSFrame clk ts b port raw)"
proof (cases "rxParse (l2 b) port raw")
  case (Inr f)
  assume inv: "bridge_inv b"
  let ?c = "countRX b clk port"
  let ?d = "if \<not> unrepeated f then onL2 ?c (\<lambda>t. OnFrame t port f) else ?c"
  have c: "bridge_inv ?c" by (rule inv_countRX [OF inv])
  have "l2 ?c = l2 b" by (simp add: countRX_def)
  then have "rx_ok (l2now ?c) port f"
    using Inr rxParse_ok [of "l2now ?c" port raw f] c by (simp add: rxParse_l2now bridge_inv_def)
  then have d: "bridge_inv ?d"
    using c inv_onL2 [OF c, of "\<lambda>t. OnFrame t port f"] table_OnFrame [of "l2now ?c" port f] tame_OnFrame
    by (simp add: bridge_inv_def [of ?c])
  have "bridge_inv (emitRawRX ?d port raw)"
    by (rule inv_quiet [OF d]) (use d in \<open>simp_all add: bridge_simps bridge_inv_def rest_inv_def\<close>)
  then have "bridge_inv (emitMonitor ts (emitRawRX ?d port raw) port f)"
    by (rule inv_quiet) (use d in \<open>simp_all add: bridge_simps bridge_inv_def rest_inv_def\<close>)
  then show ?thesis using inv Inr by (simp add: OnKISSFrame_def Let_def)
qed (simp add: OnKISSFrame_def)

section \<open>Client requests\<close>

lemma length_decodeVias: "length (decodeVias bs n) \<le> n"
  by (induction bs n rule: decodeVias.induct) auto

lemma splitVias_length: "splitVias data = Some (vias, info) \<Longrightarrow> length vias \<le> MaxDigipeaters"
  using length_decodeVias [of "take (unat (hd data) * 10) (tl data)" "unat (hd data)"]
  by (auto simp: splitVias_def split: list.splits if_splits)

lemma inv_busy: "bridge_inv b \<Longrightarrow> bridge_inv (busy b c p f t)"
  by (simp add: busy_def inv_reply)

lemma inv_openConn:
  assumes "bridge_inv b" "c \<in> set (clients b)" "length vias \<le> MaxDigipeaters"
  shows "bridge_inv (openConn b c p from to vias)"
proof -
  let ?r = "Connect (l2now b) p from to vias"
  have "table_inv (snd ?r)" "tame (l2 b) (snd ?r)"
    using assms tame_Connect [of "l2now b"] by (simp_all add: table_Connect bridge_inv_def tame_l2now)
  then have b: "bridge_inv (runL2 b (snd ?r))" using assms(1) by (rule inv_runL2 [rotated])
  have "clients (runL2 b (snd ?r)) = clients b" by (rule runL2_clients)
  with b assms(2) show ?thesis
    by (auto simp: openConn_def Let_def split: prod.split sum.split intro: inv_busy inv_setOwner)
qed

lemma validCalls_inv: "bridge_inv b \<Longrightarrow> validCalls b c p f t vs = (ok, b') \<Longrightarrow> bridge_inv b' \<and> clients b' = clients b"
  by (auto simp: validCalls_def inv_reply split: option.splits) (simp add: reply_def updClient_def)

end
