(* ===== verification/Bridge_System.thy ===== *)
theory Bridge_System
  imports Bridge_Inv
begin

text \<open>
  The bridge as a transition system: one rule for every function the event loop runs and for every
  goroutine that works beside it.  Its invariant holds in every reachable state.
\<close>

section \<open>Client frames\<close>

lemma inv_parts:
  assumes "bridge_inv b"
  shows "table_inv (l2 b)" "out (l2 b) = []" "owners_ok b" "rest_inv b" "sane b" "calls_ok b" "clients_ok b" "shape_ok b"
    "relinks_ok b" "tasks_ok b" "client_inv (cstore b c)"
  using assms by (simp_all add: bridge_inv_def rest_inv_def sane_def)

lemma client_inv_calls:
  "client_inv c \<Longrightarrow> length x \<le> 8 \<Longrightarrow> distinct x \<Longrightarrow> client_inv (c\<lparr>registeredCalls := x\<rparr>)"
  by (simp add: client_inv_def)

lemma client_inv_flags [simp]:
  "client_inv (c\<lparr>monitoring := x\<rparr>) = client_inv c" "client_inv (c\<lparr>rawMode := x\<rparr>) = client_inv c"
  by (simp_all add: client_inv_def)

lemma inv_setCalls:
  assumes "bridge_inv b" "length (f (registeredCalls (cstore b c))) \<le> 8" "distinct (f (registeredCalls (cstore b c)))"
    and "\<And>d. d \<in> set (clients b) \<Longrightarrow> d \<noteq> c \<Longrightarrow>
      set (f (registeredCalls (cstore b c))) \<inter> set (registeredCalls (cstore b d)) = {}"
  shows "bridge_inv (setCalls b c f)"
proof -
  have "calls_ok (setCalls b c f)"
    using inv_parts(6) [OF assms(1)] assms(4) by (fastforce simp: calls_ok_def setCalls_def updClient_def)
  moreover have "sane (setCalls b c f)"
    using inv_parts(5) [OF assms(1)] client_inv_calls [OF inv_parts(11) [OF assms(1)] assms(2,3)]
    by (simp add: setCalls_def updClient_def sane_def)
  ultimately show ?thesis
    using assms(1) by (simp add: bridge_inv_def inv_defs setCalls_def updClient_def Let_def)
qed

lemma inv_registerCall:
  assumes inv: "bridge_inv b" and c: "c \<in> set (clients b)"
  shows "bridge_inv (registerCall b c p from)"
proof -
  let ?call = "ToUpper (uni (l2 b)) from" and ?mine = "registeredCalls (cstore b c)"
  have "bridge_inv (setCalls b c (List.insert ?call))"
    if "\<not> (\<exists>d\<in>set (clients b). d \<noteq> c \<and> ?call \<in> set (registeredCalls (cstore b d)))"
      "\<not> (length ?mine \<ge> maxRegisteredCalls \<and> ?call \<notin> set ?mine)"
  proof (rule inv_setCalls [OF inv])
    have m: "length ?mine \<le> 8" "distinct ?mine" using inv_parts(11) [OF inv] by (simp_all add: client_inv_def)
    then show "length (List.insert ?call ?mine) \<le> 8" "distinct (List.insert ?call ?mine)"
      using that(2) by (auto simp: List.insert_def maxRegisteredCalls_def)
    show "set (List.insert ?call ?mine) \<inter> set (registeredCalls (cstore b d)) = {}"
      if "d \<in> set (clients b)" "d \<noteq> c" for d
      using inv_parts(6) [OF inv] c that \<open>\<not> (\<exists>d\<in>_. _ d)\<close> by (auto simp: calls_ok_def)
  qed
  then show ?thesis using inv by (simp add: registerCall_def Let_def inv_reply)
qed

lemma inv_unregisterCall: 
  assumes inv: "bridge_inv b" and c: "c \<in> set (clients b)"
  shows "bridge_inv (unregisterCall b c from)"
  unfolding unregisterCall_def
proof (rule inv_setCalls [OF inv])
  let ?mine = "registeredCalls (cstore b c)" and ?call = "ToUpper (uni (l2 b)) from"
  have m: "length ?mine \<le> 8" "distinct ?mine" using inv_parts(11) [OF inv] by (simp_all add: client_inv_def)
  show "length (removeAll ?call ?mine) \<le> 8" using m(1) length_removeAll_less_eq [of ?call ?mine] by linarith
  show "distinct (removeAll ?call ?mine)" using m(2) by (rule distinct_removeAll)
  show "set (removeAll ?call ?mine) \<inter> set (registeredCalls (cstore b d)) = {}"
    if "d \<in> set (clients b)" "d \<noteq> c" for d
    using inv_parts(6) [OF inv] c that by (auto simp: calls_ok_def)
qed

lemma inv_sendUnproto: "bridge_inv b \<Longrightarrow> bridge_inv (sendUnproto b f t i d v p)"
  by (simp add: sendUnproto_def inv_SendAX25 split: sum.split)

lemma inv_connects:
  assumes "bridge_inv b" "c \<in> set (clients b)"
  shows "bridge_inv (handle_C b c p f t)" "bridge_inv (handle_c b c p f t)" "bridge_inv (handle_v b c p f t d)"
  using validCalls_inv [OF assms(1)] assms
  by (auto simp: handle_C_def handle_c_def handle_v_def inv_busy inv_openConn splitVias_length
    split: prod.split option.split)

lemma inv_handle_D: "bridge_inv b \<Longrightarrow> bridge_inv (handle_D b c p i f t d)"
proof (cases "Get (l2 b) p f t")
  case (Some r)
  assume inv: "bridge_inv b"
  have "bridge_inv (onL2 b (\<lambda>t. snd (SendData t r x d)))" if "State (cell (l2 b) r) = Connected" for x
  proof (rule inv_onL2 [OF inv])
    have "live (l2now b) r" "table_inv (l2now b)" using Get_live Some inv_parts(1) [OF inv] by simp_all
    moreover have "keeps r (l2now b) (snd (SendData (l2now b) r x d))" using that by (intro keeps_SendData) simp
    ultimately show "table_inv (snd (SendData (l2now b) r x d))" using table_keeps by blast
    show "tame (l2now b) (snd (SendData (l2now b) r x d))" by (rule own_tame) (simp add: own_simps)
  qed
  then show ?thesis using Some inv by (simp add: handle_D_def)
qed (simp add: handle_D_def)

lemma inv_handle_d: "bridge_inv b \<Longrightarrow> bridge_inv (handle_d b c p f t)"
proof (cases "Get (l2 b) p f t")
  case (Some r)
  assume inv: "bridge_inv b"
  have "live (l2now b) r" "table_inv (l2now b)" using Get_live Some inv_parts(1) [OF inv] by simp_all
  then have "bridge_inv (onL2 b (\<lambda>t. Disconnect t r))"
    by (intro inv_onL2 [OF inv] table_Disconnect own_tame) (simp_all add: own_simps)
  then show ?thesis using Some inv by (simp add: handle_d_def)
qed (simp add: handle_d_def)

lemma inv_handle_K: "bridge_inv b \<Longrightarrow> bridge_inv (handle_K b c p d)"
  by (auto simp: handle_K_def Let_def inv_SendToKISS)

lemma inv_handleFrame:
  assumes "bridge_inv b" "c \<in> set (clients b)"
  shows "bridge_inv (handleFrame b c hdr data)"
proof -
  note intros = inv_reply [OF assms(1)] inv_registerCall [OF assms] inv_unregisterCall [OF assms]
    inv_sendUnproto [OF assms(1)] inv_connects [OF assms] inv_handle_D [OF assms(1)] inv_handle_d [OF assms(1)]
    inv_handle_K [OF assms(1)]
  have "bridge_inv (updClient b c (\<lambda>cl. cl\<lparr>monitoring := \<not> monitoring cl\<rparr>))"
    "bridge_inv (updClient b c (\<lambda>cl. cl\<lparr>rawMode := \<not> rawMode cl\<rparr>))"
    by (rule inv_updClient [OF assms(1)], simp_all add: inv_parts(11) [OF assms(1)])+
  then show ?thesis
    using assms(1) intros
    by (simp add: handleFrame_def Let_def sendVersion_def sendPortInfo_def sendPortCaps_def handle_Y_def
      split: option.split prod.split)
qed

lemma inv_runPending: "bridge_inv b \<Longrightarrow> c \<in> set (clients b) \<Longrightarrow> bridge_inv (runPending b c)"
proof -
  assume inv: "bridge_inv b" and c: "c \<in> set (clients b)"
  have pop: "client_inv cl \<Longrightarrow> client_inv (cl\<lparr>inflight := inflight cl - 1, pending := tl (pending cl)\<rparr>)" for cl
    by (auto simp: client_inv_def)
  have "bridge_inv (updClient b' c (\<lambda>cl. cl\<lparr>inflight := inflight cl - 1, pending := tl (pending cl)\<rparr>))" if "bridge_inv b'" for b'
    by (rule inv_updClient [OF that]) (rule pop [OF inv_parts(11) [OF that]], simp)
  then show ?thesis using inv inv_handleFrame [OF inv c] by (auto simp: runPending_def split: list.split)
qed

section \<open>Clients come and go\<close>

lemma inv_AddClient:
  assumes "bridge_inv b" "c \<notin> set (clients b)"
  shows "bridge_inv (snd (AddClient (b\<lparr>cstore := (cstore b)(c := newClient clk)\<rparr>) c))"
proof -
  let ?b = "b\<lparr>cstore := (cstore b)(c := newClient clk)\<rparr>"
  have n: "client_inv (newClient clk)" "registeredCalls (newClient clk) = []" by (simp_all add: client_inv_def newClient_def)
  have "sane ?b" using inv_parts(5) [OF assms(1)] n(1) by (simp add: sane_def)
  then have "bridge_inv ?b" using assms n by (auto simp: bridge_inv_def inv_defs Let_def)
  moreover have "bridge_inv (?b\<lparr>clients := clients b @ [c]\<rparr>)"
    if "cfgMaxClients (cfg b) > 0 \<longrightarrow> int (length (clients b)) < cfgMaxClients (cfg b)"
    using \<open>bridge_inv ?b\<close> assms n that by (auto simp: bridge_inv_def inv_defs sane_def Let_def)
  ultimately show ?thesis by (auto simp: AddClient_def)
qed

lemma inv_RemoveClient:
  assumes "map_order ord" "bridge_inv b"
  shows "bridge_inv (RemoveClient ord b c)"
proof -
  let ?b = "b\<lparr>clients := remove1 c (clients b)\<rparr>" and ?t = "RemoveOwned ord (l2now (b\<lparr>clients := remove1 c (clients b)\<rparr>)) (Some c)"
  have d: "distinct (clients b)" using inv_parts(7) [OF assms(2)] by (simp add: clients_ok_def)
  have "int (length (remove1 c (clients b))) \<le> int (length (clients b))" by (simp add: length_remove1)
  then have r: "rest_inv ?b"
    using inv_parts(4) [OF assms(2)] d by (auto simp: inv_defs sane_def Let_def)
  have t: "table_inv (l2now ?b)" using inv_parts(1) [OF assms(2)] by simp
  note ro = table_RemoveOwned [OF assms(1) t]
  have "d \<in> set (clients ?b)" if l: "live ?t q" and o: "Owner (cell ?t q) = Some d" for q d
  proof -
    have "live (l2now ?b) q \<and> Owner (cell (l2now ?b) q) \<noteq> Some c" using l ro(2) by blast
    moreover have "Owner (cell ?t q) = Owner (cell (l2now ?b) q)"
      using tame_bulk(1) [of "l2now ?b" ord "Some c"] l o unfolding tame_def by (metis option.distinct(1))
    ultimately have "live (l2 b) q" "Owner (cell (l2 b) q) = Some d" "d \<noteq> c" using o by auto
    then show ?thesis using inv_parts(3) [OF assms(2)] by (simp add: owners_ok_def)
  qed
  then have m: "bridge_inv (runL2 ?b ?t)" by (intro inv_runL2_gen [OF r ro(1)])
  have c: "c \<notin> set (clients (runL2 ?b ?t))" using d by (simp add: runL2_clients)
  have "sane (updClient (runL2 ?b ?t) c (\<lambda>cl. cl\<lparr>registeredCalls := []\<rparr>))"
    using inv_parts(5) [OF m] client_inv_calls [OF inv_parts(11) [OF m], of "[]" c] by (simp add: updClient_def sane_def)
  then have "bridge_inv (updClient (runL2 ?b ?t) c (\<lambda>cl. cl\<lparr>registeredCalls := []\<rparr>))"
    using m c by (auto simp: bridge_inv_def inv_defs updClient_def Let_def)
  then show ?thesis by (simp add: RemoveClient_def Let_def onL2_def)
qed

lemma inv_clientOps:
  assumes "bridge_inv b"
  shows "bridge_inv (updClient b c (\<lambda>cl. onRead clk cl p))" "bridge_inv (updClient b c finish)"
    "bridge_inv (updClient b c writeOne)" "bridge_inv (updClient b c CloseTransport)"
proof -
  note i = inv_parts(11) [OF assms]
  have f: "client_inv c \<Longrightarrow> client_inv (finish c)" "registeredCalls (finish c) = registeredCalls c"
    "registeredCalls (writeOne c) = registeredCalls c" for c
    by (simp_all add: finish_def writeOne_def client_inv_def)
  show "bridge_inv (updClient b c (\<lambda>cl. onRead clk cl p))" by (rule inv_updClient [OF assms]) (simp_all add: i)
  show "bridge_inv (updClient b c finish)" by (rule inv_updClient [OF assms]) (simp_all add: i f)
  show "bridge_inv (updClient b c writeOne)" by (rule inv_updClient [OF assms]) (simp_all add: i f)
  show "bridge_inv (updClient b c CloseTransport)" by (rule inv_updClient [OF assms]) (simp_all add: i)
qed

lemma inv_sweepIdleClients: "bridge_inv b \<Longrightarrow> bridge_inv (sweepIdleClients b clk)"
proof -
  assume inv: "bridge_inv b"
  have "bridge_inv (foldl (\<lambda>b c. if clk - lastActivity (cstore b c) > x then updClient b c CloseTransport else b) b cs)" for x cs
    by (rule foldl_pred [where P = bridge_inv]) (simp_all add: inv inv_clientOps)
  moreover have "bridge_inv (b'\<lparr>idleSweepTimer := True\<rparr>)" if "bridge_inv b'" for b'
    using that by (simp add: bridge_inv_def inv_defs sane_def Let_def)
  ultimately show ?thesis using inv by (simp add: sweepIdleClients_def Let_def)
qed

section \<open>Ports\<close>

lemma inv_ports:
  assumes "bridge_inv b" "l2 b' = l2 b" "clients b' = clients b" "cstore b' = cstore b" "cfg b' = cfg b"
    "sentFrames b' = sentFrames b" "\<And>i. length (txCh (kports b' i)) \<le> txQueueSize" "shape_ok b'" "relinks_ok b'" "tasks_ok b'"
  shows "bridge_inv b'"
  using assms by (simp add: bridge_inv_def rest_inv_def owners_ok_def calls_ok_def clients_ok_def sane_def)

lemma txCh_bound: "bridge_inv b \<Longrightarrow> length (txCh (kports b i)) \<le> txQueueSize"
  using inv_parts(5) [of b] by (simp add: sane_def)

lemmas port_facts = inv_parts(8-10) txCh_bound

lemma inv_spawn:
  assumes "bridge_inv b" "taskPort k < length (cfgPorts (cfg b))"
  shows "bridge_inv (spawn b k)"
  by (rule inv_ports [OF assms(1)])
    (use port_facts [OF assms(1)] assms(2) in \<open>simp_all add: spawn_def shape_ok_def relinks_ok_def tasks_ok_def\<close>)

lemma inv_dropTask:
  assumes "bridge_inv b" "tasks b = xs @ k # ys"
  shows "bridge_inv (b\<lparr>tasks := xs @ ys\<rparr>)" "taskPort k < length (cfgPorts (cfg b))"
  by (rule inv_ports [OF assms(1)])
    (use port_facts [OF assms(1)] assms(2) in \<open>simp_all add: shape_ok_def relinks_ok_def tasks_ok_def\<close>)

lemma inv_resetPortCounters: "bridge_inv b \<Longrightarrow> bridge_inv (resetPortCounters b clk p)"
  by (rule inv_ports [of b])
    (simp_all add: resetPortCounters_def shape_ok_def relinks_ok_def tasks_ok_def port_facts
      port_facts [unfolded shape_ok_def relinks_ok_def tasks_ok_def])

lemma inv_newEpoch: "bridge_inv b \<Longrightarrow> bridge_inv (newEpoch b idx)"
  by (rule inv_ports [of b])
    (simp_all add: newEpoch_def shape_ok_def relinks_ok_def tasks_ok_def port_facts
      port_facts [unfolded shape_ok_def relinks_ok_def tasks_ok_def])

lemma inv_scheduleReconnect:
  "bridge_inv b \<Longrightarrow> idx < length (cfgPorts (cfg b)) \<Longrightarrow> bridge_inv (scheduleReconnect b idx d)"
  by (simp add: scheduleReconnect_def Let_def inv_spawn)

lemma cfg_simps [simp]: "cfg (resetPortCounters b clk p) = cfg b" "cfg (runL2 b t) = cfg b" "cfg (onL2 b f) = cfg b"
  "cfg (newEpoch b i) = cfg b" "cfg (spawn b k) = cfg b"
proof -
  have r: "cfg (runL2 b t) = cfg b" for t
    using fixed_fields(1) [OF runHooks_simps(1) [of "b\<lparr>l2 := t\<rparr>"]] by (simp add: runL2_def)
  then show "cfg (runL2 b t) = cfg b" "cfg (onL2 b f) = cfg b" by (simp_all add: onL2_def)
qed (simp_all add: resetPortCounters_def newEpoch_def spawn_def)

lemma inv_PortOffline:
  assumes "map_order ord" "bridge_inv b"
  shows "bridge_inv (onL2 b (\<lambda>t. PortOffline ord t p))"
  by (rule inv_onL2 [OF assms(2)]) (simp_all add: table_PortOffline [OF assms(1)] inv_parts(1) [OF assms(2)] tame_bulk)

lemma inv_portWentOffline:
  assumes "map_order ord" "bridge_inv b"
  shows "bridge_inv (portWentOffline ord b clk i)"
  using inv_resetPortCounters [OF inv_PortOffline [OF assms]]
  by (simp add: portWentOffline_def Let_def inv_scheduleReconnect)

lemma inv_emptySlot:
  assumes "bridge_inv b"
  shows "bridge_inv (b\<lparr>ports := (ports b)[i := s]\<rparr>)"
  by (rule inv_ports [OF assms])
    (use port_facts [OF assms] in \<open>simp_all add: shape_ok_def relinks_ok_def tasks_ok_def\<close>)

lemma inv_reconnectPort:
  assumes ord: "map_order ord" and inv: "bridge_inv b"
  shows "bridge_inv (snd (reconnectPort ord clk b p keep))"
proof (cases "inRange p (ports b) \<and> p < int (length (cfgPorts (cfg b))) \<and> ports b ! nat p \<noteq> None")
  case True
  then obtain kp where kp: "ports b ! nat p = Some kp" by blast
  let ?b1 = "b\<lparr>ports := (ports b)[nat p := None]\<rparr>"
  let ?b2 = "if \<not> keep then onL2 ?b1 (\<lambda>t. PortOffline ord t p) else ?b1"
  let ?b3 = "newEpoch (resetPortCounters ?b2 clk p) (nat p)"
  have "bridge_inv ?b2" using inv_emptySlot [OF inv] inv_PortOffline [OF ord inv_emptySlot [OF inv]] by simp
  then have "bridge_inv ?b3" by (intro inv_newEpoch inv_resetPortCounters)
  moreover have "nat p < length (cfgPorts (cfg ?b3))" using True by (auto simp: inRange_def)
  ultimately have "bridge_inv (spawn ?b3 (Relink (nat p) e kp))" for e by (intro inv_spawn) simp_all
  moreover have "snd (reconnectPort ord clk b p keep) = spawn ?b3 (Relink (nat p) (portEpoch ?b3 ! nat p) kp)"
    using True kp by (simp add: reconnectPort_def Let_def)
  ultimately show ?thesis by simp
next
  case False
  then have "snd (reconnectPort ord clk b p keep) = b" by (auto simp: reconnectPort_def split: option.split)
  with inv show ?thesis by simp
qed

lemma NewPort_facts: "txCh (fst (snd (Start True True (NewPort n ps)))) = []" "kNum (fst (snd (Start True True (NewPort n ps)))) = n"
  by (simp_all add: Start_def NewPort_def)

lemma inv_dialEnds:
  assumes "bridge_inv b" "idx < length (cfgPorts (cfg b))"
  shows "bridge_inv (dialEnds b idx e k res)"
proof -
  have s: "bridge_inv (spawn b (Schedule idx d))" for d using assms by (intro inv_spawn) simp_all
  let ?p = "fst (snd (Start True True (NewPort (int idx) (dialParams (cfgPorts (cfg b) ! idx)))))"
  let ?b = "b\<lparr>kports := (kports b)(nextPort b := ?p), nextPort := Suc (nextPort b)\<rparr>"
  have "bridge_inv ?b"
    by (rule inv_ports [OF assms(1)])
      (use port_facts [OF assms(1)] assms(2) in
        \<open>simp_all add: shape_ok_def relinks_ok_def tasks_ok_def NewPort_facts less_Suc_eq\<close>)
  then have "bridge_inv (spawn ?b (Install idx e k (nextPort b)))" using assms(2) by (intro inv_spawn) simp_all
  then show ?thesis using s assms(1) by (simp add: dialEnds_def Let_def split: dialResult.split dialKind.split)
qed

lemma Close_facts [simp]: "txCh (Close p) = txCh p" "kNum (Close p) = kNum p" "txCh (snd (fail p)) = txCh p"
  "kNum (snd (fail p)) = kNum p"
  by (simp_all add: Close_def fail_def)

lemma inv_updPort:
  assumes "bridge_inv b" "length (txCh (f (kports b i))) \<le> txQueueSize" "kNum (f (kports b i)) = kNum (kports b i)"
  shows "bridge_inv (updPort b i f)"
  by (rule inv_ports [OF assms(1)])
    (use port_facts [OF assms(1)] assms(2,3) in \<open>simp_all add: updPort_def shape_ok_def relinks_ok_def tasks_ok_def\<close>)

lemma inv_install: "bridge_inv b \<Longrightarrow> bridge_inv (install b idx e k i)"
proof -
  assume inv: "bridge_inv b"
  have "bridge_inv (b'\<lparr>bus := x\<rparr>)" if "bridge_inv b'" for b' x
    by (rule inv_quiet [OF that]) (use inv_parts(5) [OF that] in \<open>simp_all add: bridge_simps\<close>)
  then show ?thesis
    using inv inv_updPort [OF inv, of Close i] inv_emptySlot [OF inv]
    by (auto simp: install_def Let_def txCh_bound split: dialKind.split)
qed

lemma inv_reconnectFires:
  assumes "bridge_inv b" "idx < length (cfgPorts (cfg b))"
  shows "bridge_inv (reconnectFires b idx e d m)"
  using assms inv_newEpoch [OF assms(1), of idx]
  by (simp add: reconnectFires_def Let_def inv_spawn)

lemma relinks_update: "relinks_ok b \<Longrightarrow> 0 \<le> x \<Longrightarrow> x \<le> relinkEscalateAfter \<Longrightarrow> relinks_ok (b\<lparr>relinks := (relinks b)[i := x], lastRX := l\<rparr>)"
  by (auto simp: relinks_ok_def dest!: set_update_subset_insert [THEN subsetD])

lemma inv_checkPort:
  assumes ord: "map_order ord" and inv: "bridge_inv b" and i: "i < length (cfgPorts (cfg b))"
  shows "bridge_inv (checkPort ord clk b i)"
proof -
  have upd: "bridge_inv (b'\<lparr>relinks := (relinks b')[i := x], lastRX := l\<rparr>)"
    if "bridge_inv b'" "0 \<le> x" "x \<le> relinkEscalateAfter" "length l = length (lastRX b')" for b' x l
    by (rule inv_ports [OF that(1)])
      (use port_facts [OF that(1)] relinks_update [OF _ that(2,3)] that(4) in \<open>simp_all add: shape_ok_def tasks_ok_def\<close>)
  let ?b = "if \<not> portAwaitingReply ord b (int i) \<and> i < length (relinks b) then b\<lparr>relinks := (relinks b)[i := 0]\<rparr> else b"
  have b: "bridge_inv ?b" using upd [OF inv, of 0 "lastRX b"] inv by (simp add: relinkEscalateAfter_def)
  have "relinks ?b ! i \<in> set (relinks ?b)"
    using i inv_parts(8) [OF b] by (intro nth_mem) (simp add: shape_ok_def Let_def)
  then have x: "0 \<le> relinks ?b ! i" using inv_parts(9) [OF b] by (simp add: relinks_ok_def)
  have "bridge_inv (?b\<lparr>relinks := (relinks ?b)[i := relinks ?b ! i + 1], lastRX := (lastRX ?b)[i := clk]\<rparr>)"
    if "\<not> relinkBudgetSpent (relinks ?b ! i)"
    using x that by (intro upd [OF b]) (simp_all add: relinkBudgetSpent_def)
  then show ?thesis
    using inv b inv_reconnectPort [OF ord] by (auto simp: checkPort_def Let_def)
qed

lemma checkPort_cfg [simp]: "cfg (checkPort ord clk b i) = cfg b"
  by (auto simp: checkPort_def Let_def reconnectPort_def split: option.split)

lemma inv_checkRXWedge:
  assumes "map_order ord" "bridge_inv b"
  shows "bridge_inv (checkRXWedge ord b clk)"
proof -
  have "bridge_inv (foldl (checkPort ord clk) b' is)"
    if "bridge_inv b'" "\<forall>i\<in>set is. i < length (cfgPorts (cfg b'))" for b' "is"
    using that by (induction "is" arbitrary: b') (simp_all add: inv_checkPort [OF assms(1)])
  from this [OF assms(2)] show ?thesis by (simp add: checkRXWedge_def)
qed

section \<open>The transition system\<close>

text \<open>
  The rules over-approximate the program: a posted function may run at any later time, whatever
  else is queued, a received frame may be any byte string, and a clock reading any number.  Only
  the order of one client's frames is kept, and that a client is removed after all of them.
\<close>

inductive bridge_step :: "bridge \<Rightarrow> bridge \<Rightarrow> bool" where
  rx: "bridge_step b (OnKISSFrame clk ts b (int i) raw)"
| tick: "bridge_step b (b\<lparr>l2 := (l2 b)\<lparr>eng := Tick (eng (l2 b)) d\<rparr>\<rparr>)"
| fire: "bridge_step b (b\<lparr>l2 := (l2 b)\<lparr>eng := Fire (eng (l2 b)) tid\<rparr>\<rparr>)"
| post: "bridge_step b (b\<lparr>l2 := (l2 b)\<lparr>eng := Post (eng (l2 b)) n\<rparr>\<rparr>)"
| run: "queue (eng (l2 b)) = fn # fns \<Longrightarrow>
    bridge_step b (onL2 b (\<lambda>t. runClosure (t\<lparr>eng := (eng t)\<lparr>queue := fns\<rparr>\<rparr>) fn))"
| accept: "c \<notin> set (clients b) \<Longrightarrow>
    bridge_step b (snd (AddClient (b\<lparr>cstore := (cstore b)(c := newClient clk)\<rparr>) c))"
| read: "c \<in> set (clients b) \<Longrightarrow> rdbuf (cstore b c) \<noteq> None \<Longrightarrow> bridge_step b (updClient b c (\<lambda>cl. onRead clk cl p))"
| read_error: "c \<in> set (clients b) \<Longrightarrow> bridge_step b (updClient b c finish)"
| written: "bridge_step b (updClient b c writeOne)"
| request: "c \<in> set (clients b) \<Longrightarrow> bridge_step b (runPending b c)"
| gone: "map_order ord \<Longrightarrow> c \<in> set (clients b) \<Longrightarrow> rdbuf (cstore b c) = None \<Longrightarrow> pending (cstore b c) = [] \<Longrightarrow>
    bridge_step b (RemoveClient ord b c)"
| sweep: "idleSweepTimer b \<Longrightarrow> bridge_step b (sweepIdleClients b clk)"
| watchdog: "map_order ord \<Longrightarrow> rxWedgeTimer b \<Longrightarrow> bridge_step b (checkRXWedge ord b clk)"
| manual: "map_order ord \<Longrightarrow> bridge_step b (snd (ReconnectPort ord clk b p))"
| kisstcp: "bridge_step b (SendToKISS b p raw)"
| kisscmd: "bridge_step b (SendKISSCommand b p cmd val)"
| sinks: "bridge_step b (b\<lparr>rawSinks := s1, monitorSinks := s2, txSinks := s3, connSinks := s4\<rparr>)"
| writer: "txCh (kports b i) = fr # rest \<Longrightarrow> bridge_step b (updPort b i (\<lambda>p. p\<lparr>txCh := rest\<rparr>))"
| fails: "i < nextPort b \<Longrightarrow> fst (fail (kports b i)) \<Longrightarrow>
    bridge_step b (spawn (updPort b i (\<lambda>p. snd (fail p))) (WentOffline (nat (kNum (kports b i)))))"
| dial: "tasks b = xs @ Dial i e k # ys \<Longrightarrow> bridge_step b (dialEnds (b\<lparr>tasks := xs @ ys\<rparr>) i e k res)"
| install: "tasks b = xs @ Install i e k n # ys \<Longrightarrow> bridge_step b (install (b\<lparr>tasks := xs @ ys\<rparr>) i e k n)"
| schedule: "tasks b = xs @ Schedule i d # ys \<Longrightarrow> bridge_step b (scheduleReconnect (b\<lparr>tasks := xs @ ys\<rparr>) i d)"
| timer: "tasks b = xs @ ReconnectTimer i e d m # ys \<Longrightarrow> bridge_step b (reconnectFires (b\<lparr>tasks := xs @ ys\<rparr>) i e d m)"
| relink: "tasks b = xs @ Relink i e n # ys \<Longrightarrow>
    bridge_step b (spawn (updPort (b\<lparr>tasks := xs @ ys\<rparr>) n Close) (Dial i e Plain))"
| offline: "map_order ord \<Longrightarrow> tasks b = xs @ WentOffline i # ys \<Longrightarrow>
    bridge_step b (portWentOffline ord (b\<lparr>tasks := xs @ ys\<rparr>) clk i)"

inductive_cases bridge_stepE: "bridge_step b b'"

definition bridge_init :: "bridge \<Rightarrow> bool" where
  "bridge_init b \<longleftrightarrow> (\<exists>fl u q clk cf. b = startBridge fl u q clk cf \<and> unicode_ok u
     \<and> 0 \<le> cfgMaxWindow cf \<and> cfgMaxWindow cf \<le> 7)"

lemma bridge_init_inv: "bridge_init b \<Longrightarrow> bridge_inv b"
proof -
  assume "bridge_init b"
  then obtain fl u q clk cf where b: "b = startBridge fl u q clk cf" and u: "unicode_ok u"
    and w: "0 \<le> cfgMaxWindow cf" "cfgMaxWindow cf \<le> 7" by (auto simp: bridge_init_def)
  have "l2_init (NewTable u clk h (map (portParamsOf fl cf) (cfgPorts cf)))" for h
    unfolding l2_init_def using u w
    by (intro exI conjI refl) (auto simp: portParamsOf_def DeriveParams_def Let_def)
  then have "table_inv (NewTable u clk h (map (portParamsOf fl cf) (cfgPorts cf)))" for h by (rule l2_init_inv)
  moreover have "client_inv (newClient clk)" by (simp add: client_inv_def newClient_def)
  ultimately show ?thesis
    by (auto simp: b startBridge_def bridge_inv_def inv_defs sane_def Let_def NewTable_def NewPort_def live_def
      relinkEscalateAfter_def)
qed

lemma inv_engine: "bridge_inv b \<Longrightarrow> bridge_inv (b\<lparr>l2 := (l2 b)\<lparr>eng := e\<rparr>\<rparr>)"
proof -
  assume inv: "bridge_inv b"
  have "table_inv ((l2 b)\<lparr>eng := e\<rparr>) = table_inv (l2 b)" by (rule table_inv_cong) simp_all
  then show ?thesis using inv by (simp add: bridge_inv_def inv_defs live_def Let_def)
qed

lemma inv_run:
  assumes "bridge_inv b"
  shows "bridge_inv (onL2 b (\<lambda>t. runClosure (t\<lparr>eng := e t\<rparr>) fn))"
proof (rule inv_onL2 [OF assms])
  have "table_inv ((l2now b)\<lparr>eng := e (l2now b)\<rparr>) = table_inv (l2now b)" by (rule table_inv_cong) simp_all
  then show "table_inv (runClosure ((l2now b)\<lparr>eng := e (l2now b)\<rparr>) fn)"
    using inv_parts(1) [OF assms] by (simp add: table_runClosure)
  show "tame (l2now b) (runClosure ((l2now b)\<lparr>eng := e (l2now b)\<rparr>) fn)"
    using tame_trans [OF own_tame tame_runClosure] by (simp add: own_simps)
qed

lemma inv_small:
  assumes "bridge_inv b"
  shows "bridge_inv (SendKISSCommand b p cmd val)" "bridge_inv (b\<lparr>rawSinks := s1, monitorSinks := s2, txSinks := s3, connSinks := s4\<rparr>)"
    "txCh (kports b i) = fr # rest \<Longrightarrow> bridge_inv (updPort b i (\<lambda>p. p\<lparr>txCh := rest\<rparr>))"
proof -
  have "length (txCh (SendCommand q cmd val)) \<le> txQueueSize" "kNum (SendCommand q cmd val) = kNum q"
    if "length (txCh q) \<le> txQueueSize" for q using that by (simp_all add: SendCommand_def Let_def)
  then show "bridge_inv (SendKISSCommand b p cmd val)"
    using assms inv_updPort [OF assms] txCh_bound [OF assms] by (auto simp: SendKISSCommand_def split: option.split)
  show "bridge_inv (b\<lparr>rawSinks := s1, monitorSinks := s2, txSinks := s3, connSinks := s4\<rparr>)"
    using assms by (simp add: bridge_inv_def inv_defs sane_def Let_def)
  show "bridge_inv (updPort b i (\<lambda>p. p\<lparr>txCh := rest\<rparr>))" if "txCh (kports b i) = fr # rest"
    using txCh_bound [OF assms, of i] that by (intro inv_updPort [OF assms]) simp_all
qed

lemma bridge_step_inv: "bridge_step b b' \<Longrightarrow> bridge_inv b \<Longrightarrow> bridge_inv b'"
proof (induction rule: bridge_step.induct)
  case (fails i b)
  have "nat (kNum (kports b i)) < length (cfgPorts (cfg b))" using fails inv_parts(10) by (auto simp: tasks_ok_def)
  moreover have "bridge_inv (updPort b i (\<lambda>p. snd (fail p)))" using fails(3) by (intro inv_updPort) (simp_all add: txCh_bound)
  ultimately show ?case by (intro inv_spawn) (simp_all add: updPort_def)
next
  case (dial b xs i e k ys res)
  from inv_dropTask [OF dial(2,1)] show ?case by (intro inv_dialEnds) simp_all
next
  case (schedule b xs i d ys)
  from inv_dropTask [OF schedule(2,1)] show ?case by (intro inv_scheduleReconnect) simp_all
next
  case (timer b xs i e d m ys)
  from inv_dropTask [OF timer(2,1)] show ?case by (intro inv_reconnectFires) simp_all
next
  case (relink b xs i e n ys)
  note t = inv_dropTask [OF relink(2,1)]
  have "bridge_inv (updPort (b\<lparr>tasks := xs @ ys\<rparr>) n Close)" using t(1) by (intro inv_updPort) (simp_all add: txCh_bound [OF relink(2)])
  then show ?case using t(2) by (intro inv_spawn) (simp_all add: updPort_def)
next
  case (offline ord b xs i ys clk)
  from inv_dropTask [OF offline(3,2)] show ?case by (intro inv_portWentOffline [OF offline(1)])
next
  case (install b xs i e k n ys)
  from inv_dropTask [OF install(2,1)] show ?case by (intro inv_install)
qed (simp_all add: inv_OnKISSFrame inv_engine inv_run inv_AddClient inv_clientOps inv_runPending inv_RemoveClient
  inv_sweepIdleClients inv_checkRXWedge inv_reconnectPort ReconnectPort_def inv_SendToKISS inv_small)

interpretation bridge_system: invariant_system bridge_init bridge_step bridge_inv
  by unfold_locales (blast intro: bridge_init_inv bridge_step_inv)+

end
