(* ===== verification/Echo.thy ===== *)
theory Echo
  imports Bridge_System
begin

text \<open>
  Echo suppression and the digipeater gate of the receive path: normalising a frame clears the
  has-been-repeated bits of its digipeaters and nothing else, and the ring remembers a sent frame
  for the next nineteen.
\<close>

section \<open>Normalising\<close>

definition clearVia :: "frame \<Rightarrow> frame" where
  "clearVia f = f\<lparr>Via := map (\<lambda>a. a\<lparr>CRH := False\<rparr>) (Via f)\<rparr>"

lemma ssid_clear: "ssid_byte s crh ext AND 0x7F = ssid_byte s False ext"
proof (rule bit_word_eqI)
  show "bit (ssid_byte s crh ext AND 0x7F) n = bit (ssid_byte s False ext) n" for n
    by (auto simp: and_low_mask bit_take_bit_iff bit_ssid_byte)
qed

lemma length_six: "length xs = 6 \<Longrightarrow> \<exists>a1 a2 a3 a4 a5 a6. xs = [a1, a2, a3, a4, a5, a6]"
  by (auto simp: eval_nat_numeral length_Suc_conv)

lemma encode_seven:
  obtains a1 a2 a3 a4 a5 a6 where "\<And>crh ext. encode a crh ext = [a1, a2, a3, a4, a5, a6, ssid_byte (SSID a) crh ext]"
proof -
  let ?h = "map (\<lambda>c. shl (byte_of_char c) 1) (take 6 (pad6 (Call a)))"
  have "length ?h = 6" by (simp add: pad6_def)
  from length_six [OF this] obtain a1 a2 a3 a4 a5 a6 where "?h = [a1, a2, a3, a4, a5, a6]" by (elim exE)
  then show thesis by (intro that [of a1 a2 a3 a4 a5 a6]) (simp add: encode_def ssid_byte_def)
qed

lemma clearH_encode:
  "clearH (encode a crh ext @ rest) = encode (a\<lparr>CRH := False\<rparr>) False ext @ (if ext then rest else clearH rest)"
proof -
  obtain a1 a2 a3 a4 a5 a6 where e: "\<And>crh ext. encode a crh ext = [a1, a2, a3, a4, a5, a6, ssid_byte (SSID a) crh ext]"
    by (rule encode_seven [of a]) blast
  have "encode (a\<lparr>CRH := False\<rparr>) False ext = encode a False ext" by (simp add: encode_def)
  then show ?thesis using ssid_byte_fields(3) [of "SSID a" False ext] by (auto simp: e ssid_clear)
qed

lemma clearH_encodeAddrs:
  "as \<noteq> [] \<Longrightarrow> clearH (encodeAddrs as @ rest) = encodeAddrs (map (\<lambda>a. a\<lparr>CRH := False\<rparr>) as) @ rest"
proof (induction as rule: encodeAddrs.induct)
  case (3 a b as)
  then show ?case by (simp add: clearH_encode encodeAddrs_Cons)
qed (simp_all add: clearH_encode)

lemma normalize_Bytes: "normalizeHBits (Bytes f) = Bytes (clearVia f)"
proof -
  let ?d = "(Dst f)\<lparr>CRH := Command f\<rparr>" and ?s = "(Src f)\<lparr>CRH := \<not> Command f\<rparr>"
  define tl' where "tl' = controlBytes f @ (if Type f = I \<or> Type f = UI then PID f # Info f else [])
     @ (if Type f = XID then Info f else [])"
  let ?h = "encode ?d (Command f) False @ encode ?s (\<not> Command f) (Via f = [])"
  have B: "Bytes f = ?h @ encodeAddrs (Via f) @ tl'"
    by (simp add: Bytes_def frameAddrs_def encodeAddrs_Cons tl'_def)
  have C: "Bytes (clearVia f) = ?h @ encodeAddrs (map (\<lambda>a. a\<lparr>CRH := False\<rparr>) (Via f)) @ tl'"
    by (simp add: Bytes_def frameAddrs_def encodeAddrs_Cons tl'_def clearVia_def controlBytes_def)
  have l: "length ?h = 14" by simp
  have "?h ! 13 = ssid_byte (SSID (Src f)) (\<not> Command f) (Via f = [])"
    using encode_nth6 [of ?s "\<not> Command f" "Via f = []"] by (simp add: nth_append)
  then have n: "Bytes f ! 13 AND 0x01 = 0 \<longleftrightarrow> Via f \<noteq> []"
    using ssid_byte_fields(3) [of "SSID (Src f)" "\<not> Command f" "Via f = []"] l by (auto simp: B nth_append)
  have "take 14 (Bytes f) = ?h" "drop 14 (Bytes f) = encodeAddrs (Via f) @ tl'" using l by (simp_all add: B)
  then show ?thesis
    using n B C l clearH_encodeAddrs [of "Via f" tl'] by (cases "Via f = []") (simp_all add: normalizeHBits_def)
qed

lemma length_clearH: "length (clearH xs) = length xs"
  by (induction xs rule: clearH.induct) (simp_all add: Let_def)

section \<open>The ring\<close>

lemma sentFrames_trackSent:
  "sentFrames (trackSent b y) = (if length (sentFrames b) \<ge> echoRingSize then tl (sentFrames b) else sentFrames b) @ [y]"
  by (simp add: trackSent_def Let_def)

lemma sent_tracked:
  assumes "sentFrames b = pre @ x # ys" "Suc (length ys) < echoRingSize"
  shows "\<exists>pre'. sentFrames (trackSent b y) = pre' @ x # ys @ [y]"
  using assms by (cases pre) (auto simp: sentFrames_trackSent)

lemma ring_remembers:
  assumes "sentFrames b = pre @ x # ys" "length ys + length ms < echoRingSize"
  shows "x \<in> set (sentFrames (foldl (\<lambda>b (p, raw). SendToKISS b p raw) b ms))"
  using assms
proof (induction ms arbitrary: b pre ys)
  case (Cons m ms)
  obtain p raw where m: "m = (p, raw)" by fastforce
  show ?case
  proof (cases rule: SendToKISS_cases [of b p raw])
    case 1
    with Cons.IH [OF Cons.prems(1)] Cons.prems(2) m show ?thesis by simp
  next
    case (2 i tx ev)
    obtain pre' where "sentFrames (trackSent b (normalizeHBits raw)) = pre' @ x # ys @ [normalizeHBits raw]"
      using sent_tracked [OF Cons.prems(1)] Cons.prems(2) by fastforce
    then have "sentFrames (SendToKISS b p raw) = pre' @ x # (ys @ [normalizeHBits raw])"
      using 2 by (simp add: updPort_def)
    from Cons.IH [OF this] Cons.prems(2) m show ?thesis by simp
  qed
qed simp

lemma sent_last:
  assumes "inRange p (ports b)" "ports b ! nat p = Some i" "online (kports b i)"
  shows "\<exists>pre. sentFrames (SendToKISS b p raw) = pre @ [normalizeHBits raw]"
proof -
  let ?b = "trackSent b (normalizeHBits raw)"
  have "sentFrames (SendToKISS b p raw) = sentFrames ?b"
    using assms by (auto simp: SendToKISS_def updPort_def emitTXFrame_def Let_def split: sum.split)
  then show ?thesis by (auto simp: sentFrames_trackSent)
qed

end
