(* ===== verification/Isolation.thy ===== *)
theory Isolation
  imports Bridge_System
begin

text \<open>
  What a client's frame can and cannot touch: requests reach a connection only through its owner,
  and the hooks they cause are transmissions and session counts, which no other client sees.
\<close>

section \<open>Hooks of a request\<close>

fun quietHook :: "hookCall \<Rightarrow> bool" where
  "quietHook (SendAX25 _ _) = True"
| "quietHook (HPortSessions _ _) = True"
| "quietHook _ = False"

definition quiet :: "table \<Rightarrow> bool" where
  "quiet t \<longleftrightarrow> list_all quietHook (out t)"

named_theorems quiet_intros \<open>operations that call quiet hooks only\<close>

lemma quiet_base [quiet_intros]:
  "quiet (upd t r g) = quiet t" "quiet t \<Longrightarrow> quiet (sendFrame t p f)" "quiet t \<Longrightarrow> quiet (notifyPortSessions t p)"
  "quiet (cancelT1 t r) = quiet t" "quiet (cancelT2 t r) = quiet t" "quiet (startT1 t r) = quiet t" "quiet (t\<lparr>thooks := h\<rparr>) = quiet t"
  "quiet t \<Longrightarrow> quiet (sendCmd t r ft)" "quiet t \<Longrightarrow> quiet (sendSABM t r)" "quiet t \<Longrightarrow> quiet (sendSABME t r)"
  by (auto simp: quiet_def sendFrame_def notifyPortSessions_def sendCmd_def sendSABM_def sendSABME_def Let_def)

lemma quiet_drainLoop: "quiet t \<Longrightarrow> quiet (drainLoop t r)"
proof (induction t r rule: drainLoop.induct)
  case (1 t r)
  have "quiet t \<Longrightarrow> quiet (drainStep t r)"
    by (auto simp: drainStep_def Let_def quiet_intros split: list.split prod.split)
  then show ?case using 1 by (subst drainLoop.simps) auto
qed

lemma quiet_requests:
  "quiet t \<Longrightarrow> quiet (snd (SendData t r pid data))" "quiet t \<Longrightarrow> quiet (Disconnect t r)"
  "quiet t \<Longrightarrow> quiet (snd (Connect t p l m via))"
proof -
  show "quiet t \<Longrightarrow> quiet (snd (SendData t r pid data))"
    by (auto simp: SendData_def drainOutbound_def Let_def quiet_intros quiet_drainLoop split: prod.split)
  show "quiet t \<Longrightarrow> quiet (Disconnect t r)" by (simp add: Disconnect_def Let_def quiet_intros)
  have "quiet t \<Longrightarrow> getOrCreate t p l m = (ro, t') \<Longrightarrow> quiet t'" for ro t'
    by (auto simp: getOrCreate_def Let_def split: option.splits if_splits intro!: quiet_intros) (simp add: quiet_def)
  then show "quiet t \<Longrightarrow> quiet (snd (Connect t p l m via))"
    by (auto simp: Connect_def Let_def quiet_intros split: option.split prod.split)
qed

lemma runHook_quiet: "quietHook h \<Longrightarrow> l2 (runHook b h) = l2 b \<and> cstore (runHook b h) = cstore b"
  by (cases h) (simp_all add: bridge_simps)

lemma runL2_quiet:
  assumes "quiet t"
  shows "l2 (runL2 b t) = t\<lparr>out := []\<rparr>" "cstore (runL2 b t) = cstore b"
proof -
  have "l2 (foldl runHook b' hs) = l2 b' \<and> cstore (foldl runHook b' hs) = cstore b'" if "list_all quietHook hs" for b' hs
    using that by (induction hs arbitrary: b') (simp_all add: runHook_quiet)
  then show "l2 (runL2 b t) = t\<lparr>out := []\<rparr>" "cstore (runL2 b t) = cstore b"
    using assms by (simp_all add: runL2_def runHooks_def quiet_def)
qed

section \<open>Connections a request leaves alone\<close>

lemma Connect_frame:
  assumes "table_inv t" "Connect t p l m via = (res, t')" "live t q" "Get t p l m \<noteq> Some q"
  shows "cells t' q = cells t q" "live t' q" "\<And>r. res = Inr r \<Longrightarrow> r \<noteq> q"
proof -
  have n: "q \<noteq> nextConn t" using live_bound [OF assms(1,3)] by simp
  obtain ro t1 where g: "getOrCreate t p l m = (ro, t1)" by fastforce
  then have g1: "cells t1 q = cells t q" "live t1 q" "ro \<noteq> Some q"
    using n assms(3,4) by (auto elim!: getOrCreate_cases simp: live_def)
  have "cells t' q = cells t q \<and> live t' q \<and> (\<forall>r. res = Inr r \<longrightarrow> r \<noteq> q)"
    using assms(2,3) g g1
    by (auto simp: Connect_def Let_def sendSABM_def sendSABME_def live_def split: option.splits)
  then show "cells t' q = cells t q" "live t' q" "\<And>r. res = Inr r \<Longrightarrow> r \<noteq> q" by blast+
qed

text \<open>\<open>spares b q c b'\<close>: connection \<open>q\<close> and every client but \<open>c\<close> are as they were.\<close>

definition spares :: "bridge \<Rightarrow> ref \<Rightarrow> nat \<Rightarrow> bridge \<Rightarrow> bool" where
  "spares b q c b' \<longleftrightarrow> live (l2 b') q = live (l2 b) q \<and> cell (l2 b') q = cell (l2 b) q
     \<and> (\<forall>e. e \<noteq> c \<longrightarrow> cstore b' e = cstore b e)"

lemma spares_refl [simp]: "spares b q c b"
  by (simp add: spares_def)

lemma spares_trans: "spares b q c b' \<Longrightarrow> spares b' q c b'' \<Longrightarrow> spares b q c b''"
  by (simp add: spares_def)

lemma spares_updClient [simp]: "spares b q c (updClient b c f)"
  by (simp add: spares_def updClient_def)

lemma spares_reply [simp]: "spares b q c (reply b c p k f t d)" "spares b q c (busy b c p f t)" "spares b q c (setCalls b c g)"
  by (simp_all add: reply_def busy_def setCalls_def)

lemma spares_send [simp]: "spares b q c (SendToKISS b p raw)" "spares b q c (Bridge_SendAX25 b p f)"
  by (simp_all add: spares_def bridge_simps)

lemma spares_runL2:
  assumes "quiet t" "cells t q = cells (l2 b) q" "live t q = live (l2 b) q"
  shows "spares b q c (runL2 b t)"
  using assms by (simp add: spares_def runL2_quiet live_def)

lemma quiet_l2now: "bridge_inv b \<Longrightarrow> quiet (l2now b)"
  using inv_parts(2) [of b] by (simp add: quiet_def)

lemma spares_openConn:
  assumes inv: "bridge_inv b" and q: "live (l2 b) q" "Get (l2 b) p f t \<noteq> Some q"
  shows "spares b q c (openConn b c p f t via)"
proof -
  obtain res t' where C: "Connect (l2now b) p f t via = (res, t')" by fastforce
  note F = Connect_frame [OF _ C, of q]
  have "table_inv (l2now b)" using inv_parts(1) [OF inv] by simp
  with F q have F': "cells t' q = cells (l2 b) q" "live t' q" "\<And>r. res = Inr r \<Longrightarrow> r \<noteq> q" by simp_all
  have "quiet t'" using quiet_requests(3) [OF quiet_l2now [OF inv], of p f t via] C by simp
  with F' q(1) have s: "spares b q c (runL2 b t')" by (intro spares_runL2) simp_all
  moreover have "spares b' q c (setOwner b' r c)" if "r \<noteq> q" for b' r
    using that by (simp add: spares_def setOwner_def live_def)
  ultimately show ?thesis
    using F'(3) C spares_trans [OF s] by (cases res) (simp_all add: openConn_def Let_def)
qed

section \<open>Isolation\<close>

text \<open>The connection \<open>q\<close> belongs to another client and is in use.\<close>

definition foreign :: "bridge \<Rightarrow> nat \<Rightarrow> ref \<Rightarrow> bool" where
  "foreign b c q \<longleftrightarrow> live (l2 b) q \<and> State (cell (l2 b) q) \<noteq> Disconnected
     \<and> (\<exists>d. Owner (cell (l2 b) q) = Some d \<and> d \<noteq> c)"

lemma heldByOther_foreign: "foreign b c q \<Longrightarrow> Get (l2 b) p f t = Some q \<Longrightarrow> heldByOther b c p f t"
  by (auto simp: heldByOther_def foreign_def)

lemma validCalls_same:
  "validCalls b c p f t vs = (ok, b') \<Longrightarrow> (ok \<longrightarrow> b' = b) \<and> spares b q c b'"
  by (auto simp: validCalls_def split: option.splits)

lemma spares_connects:
  assumes inv: "bridge_inv b" and f: "foreign b c q"
  shows "spares b q c (handle_C b c p from to)" "spares b q c (handle_c b c p from to)" "spares b q c (handle_v b c p from to d)"
proof -
  have o: "spares b q c (openConn b c p from to via)" if "\<not> heldByOther b c p from to" for via
    by (rule spares_openConn [OF inv]) (use heldByOther_foreign [OF f] that f in \<open>auto simp: foreign_def\<close>)
  have v: "(ok \<longrightarrow> b' = b) \<and> spares b q c b'" if "validCalls b c p from to vs = (ok, b')" for vs ok b'
    using validCalls_same [OF that] .
  show "spares b q c (handle_C b c p from to)" "spares b q c (handle_c b c p from to)"
    using o v [of "[]"] by (auto simp: handle_C_def handle_c_def split: prod.split)
  show "spares b q c (handle_v b c p from to d)"
    using o v by (fastforce simp: handle_v_def split: prod.split option.split)
qed

lemma spares_D_d:
  assumes inv: "bridge_inv b" and f: "foreign b c q"
  shows "spares b q c (handle_D b c p i from to d)" "spares b q c (handle_d b c p from to)"
proof -
  have 1: "spares b q c (onL2 b (\<lambda>t. snd (SendData t r x d)))" if "State (cell (l2 b) r) = Connected" "r \<noteq> q" for r x
  proof -
    have k: "keeps r (l2now b) (snd (SendData (l2now b) r x d))" using that(1) by (intro keeps_SendData) simp
    then show ?thesis
      unfolding onL2_def using that(2) keeps_live [OF k]
      by (intro spares_runL2 quiet_requests quiet_l2now [OF inv]) (simp_all add: keeps_def)
  qed
  have 2: "spares b q c (onL2 b (\<lambda>t. Disconnect t r))" if "r \<noteq> q" for r
    unfolding onL2_def using that
    by (intro spares_runL2 quiet_requests quiet_l2now [OF inv]) (simp_all add: Disconnect_def Let_def live_def)
  have "r \<noteq> q" if "Owner (cell (l2 b) r) = Some c" for r using that f by (auto simp: foreign_def)
  then show "spares b q c (handle_D b c p i from to d)" "spares b q c (handle_d b c p from to)"
    using 1 2 by (auto simp: handle_D_def handle_d_def split: option.split)
qed

lemma handleFrame_spares:
  assumes inv: "bridge_inv b" and f: "foreign b c q"
  shows "spares b q c (handleFrame b c hdr data)"
proof -
  have u: "spares b q c (sendUnproto b x y i d v p)" for x y i d v p
    by (simp add: sendUnproto_def split: sum.split)
  have K: "spares b q c (handle_K b c p d)" for p d by (simp add: handle_K_def Let_def)
  have X: "spares b q c (registerCall b c p x)" for p x
    using spares_trans [OF spares_reply(3) spares_reply(1)] by (simp add: registerCall_def Let_def)
  show ?thesis
    using spares_connects [OF inv f] spares_D_d [OF inv f]
    by (simp add: handleFrame_def Let_def sendVersion_def sendPortInfo_def sendPortCaps_def handle_Y_def
      unregisterCall_def u K X split: option.split prod.split)
qed

section \<open>Other clients\<close>

text \<open>Whether or not any connection is in use, no other client's state changes.\<close>

definition apart :: "bridge \<Rightarrow> nat \<Rightarrow> bridge \<Rightarrow> bool" where
  "apart b c b' \<longleftrightarrow> (\<forall>e. e \<noteq> c \<longrightarrow> cstore b' e = cstore b e)"

lemma apart_trans: "apart b c b' \<Longrightarrow> apart b' c b'' \<Longrightarrow> apart b c b''"
  by (simp add: apart_def)

lemma spares_apart: "spares b q c b' \<Longrightarrow> apart b c b'"
  by (simp add: spares_def apart_def)

lemmas apart_simps [simp] = spares_apart [OF spares_refl] spares_apart [OF spares_updClient] spares_reply [THEN spares_apart]
  spares_send [THEN spares_apart]

lemma apart_runL2: "quiet t \<Longrightarrow> apart b c (runL2 b t)"
  by (simp add: apart_def runL2_quiet)

lemma apart_requests:
  assumes "bridge_inv b"
  shows "apart b c (openConn b c p f t via)" "apart b c (onL2 b (\<lambda>t. snd (SendData t r x d)))" "apart b c (onL2 b (\<lambda>t. Disconnect t r))"
proof -
  note q = apart_runL2 [OF quiet_requests(1) [OF quiet_l2now [OF assms]]] apart_runL2 [OF quiet_requests(2) [OF quiet_l2now [OF assms]]]
    apart_runL2 [OF quiet_requests(3) [OF quiet_l2now [OF assms]]]
  show "apart b c (onL2 b (\<lambda>t. snd (SendData t r x d)))" "apart b c (onL2 b (\<lambda>t. Disconnect t r))"
    by (simp_all add: onL2_def q)
  obtain res t' where C: "Connect (l2now b) p f t via = (res, t')" by fastforce
  have "apart b c (runL2 b t')" using q(3) [of b c p f t via] C by simp
  moreover have "apart b' c (setOwner b' r c)" for b' r by (simp add: apart_def setOwner_def)
  ultimately show "apart b c (openConn b c p f t via)"
    using C apart_trans by (cases res) (auto simp: openConn_def Let_def)
qed

lemma handleFrame_apart:
  assumes inv: "bridge_inv b"
  shows "apart b c (handleFrame b c hdr data)"
proof -
  note r = apart_requests [OF inv]
  have v: "(ok \<longrightarrow> b' = b) \<and> apart b c b'" if "validCalls b c p from to vs = (ok, b')" for p "from" to vs ok b'
    using validCalls_same [OF that] spares_apart by blast
  have C: "apart b c (handle_C b c p from to)" "apart b c (handle_c b c p from to)" for p "from" to
    using r(1) by (auto simp: handle_C_def handle_c_def split: prod.split dest!: v)
  have V: "apart b c (handle_v b c p from to d)" for p "from" to d
    using r(1) by (auto simp: handle_v_def split: prod.split option.split dest!: v)
  have D: "apart b c (handle_D b c p i from to d)" "apart b c (handle_d b c p from to)" for p i "from" to d
    using r(2,3) by (auto simp: handle_D_def handle_d_def split: option.split)
  have u: "apart b c (sendUnproto b x y i d v p)" for x y i d v p by (simp add: sendUnproto_def split: sum.split)
  have K: "apart b c (handle_K b c p d)" for p d by (simp add: handle_K_def Let_def)
  have X: "apart b c (registerCall b c p x)" for p x
    using apart_trans [OF apart_simps(5) apart_simps(3)] by (simp add: registerCall_def Let_def)
  show ?thesis
    using C V D
    by (simp add: handleFrame_def Let_def sendVersion_def sendPortInfo_def sendPortCaps_def handle_Y_def
      unregisterCall_def u K X split: option.split prod.split)
qed

end
