(* ===== verification/Bridge_Delivery.thy ===== *)
theory Bridge_Delivery
  imports Bridge_System L2_Delivery
begin

text \<open>
  From the air to the client: the two receivers of the connected-mode layer share one contract,
  and what any receiver with that contract delivers ends up in the write queue of the client that
  owns the connection, through the receive path of the bridge, its hooks and its sinks.
\<close>

section \<open>The contract of a receiver\<close>

text \<open>
  A receiver refines an abstract state \<open>'s\<close> on the peer's stream: \<open>reach s\<close> elements have been
  delivered, \<open>fits m s i\<close> says that a frame with element \<open>i\<close> is near enough to tell it apart modulo \<open>m\<close>.
\<close>

locale receiver =
  fixes stream :: "nat \<Rightarrow> u8 \<times> bytes"
    and rel :: "PortParams \<Rightarrow> conn \<Rightarrow> 's \<Rightarrow> bool"
    and step :: "'s \<Rightarrow> nat \<Rightarrow> 's"
    and reach :: "'s \<Rightarrow> nat"
    and fits :: "nat \<Rightarrow> 's \<Rightarrow> nat \<Rightarrow> bool"
  assumes reach_step: "reach s \<le> reach (step s i)"
    and rel_cong: "rel pp c s \<Longrightarrow> recvSeq c' = recvSeq c \<Longrightarrow> rxBuf c' = rxBuf c \<Longrightarrow> cModulo c' = cModulo c \<Longrightarrow>
      srejEnabled c' = srejEnabled c \<Longrightarrow> rel pp c' s"
    and refines: "receiving t port src dst r \<Longrightarrow> rel (portParams t port) (cell t r) s \<Longrightarrow>
      carries (cModulo (cell t r)) stream f i \<Longrightarrow> fits (unat (cModulo (cell t r))) s i \<Longrightarrow>
      rel (portParams t port) (cell (dispatchI t port f src dst) r) (step s i)
      \<and> link_fixed r t (dispatchI t port f src dst)
      \<and> delivered r (dispatchI t port f src dst) = delivered r t @ map stream [reach s..<reach (step s i)]"

section \<open>Hooks of an I-frame\<close>

fun flowHook :: "ref \<Rightarrow> hookCall \<Rightarrow> bool" where
  "flowHook r (SendAX25 _ _) = True"
| "flowHook r (HData q _ _) = (q = r)"
| "flowHook r _ = False"

definition flows :: "ref \<Rightarrow> table \<Rightarrow> bool" where
  "flows r t \<longleftrightarrow> list_all (flowHook r) (out t)"

named_theorems flow_intros \<open>operations that send frames and deliver data only\<close>

lemma flows_base [flow_intros]:
  "flows r (upd t q g) = flows r t" "flows r t \<Longrightarrow> flows r (sendFrame t p f)" "flows r (cancelT1 t q) = flows r t"
  "flows r (cancelT2 t q) = flows r t" "flows r (startT1 t q) = flows r t" "flows r (startT3 t q) = flows r t"
  "flows r (scheduleT2 t q a d) = flows r t" "flows r t \<Longrightarrow> flows r (sendRRResponse t q a d)"
  "flows r t \<Longrightarrow> flows r (deliverData t r pid i)" "flows r (sampleRTT n t q s) = flows r t"
  by (auto simp: flows_def sendFrame_def sendRRResponse_def deliverData_def Let_def)

lemma flows_drain [flow_intros]: "flows r t \<Longrightarrow> flows r (drainOutbound t q)"
proof -
  have "flows r u \<Longrightarrow> flows r (drainStep u q)" for u
    by (auto simp: drainStep_def Let_def flow_intros split: list.split prod.split)
  then show "flows r t \<Longrightarrow> flows r (drainOutbound t q)"
    using drainLoop_invariant [of "flows r" t q] by (simp add: drainOutbound_def flow_intros)
qed

lemma flows_ackFrames [flow_intros]: "flows r t \<Longrightarrow> flows r (ackFrames t q nr)"
  by (simp add: ackFrames_def Let_def flow_intros)

lemma flows_ackOrDelay [flow_intros]: "flows r t \<Longrightarrow> flows r (ackOrDelay t q pf s d)"
  by (simp add: ackOrDelay_def flow_intros)

lemma flows_srejHoles [flow_intros]: "flows r t \<Longrightarrow> flows r (srejHoles is t q s d l)"
  by (induction "is" t q s d l rule: srejHoles.induct) (simp_all add: Let_def flow_intros)

lemma flows_flushRx [flow_intros]: "flows r t \<Longrightarrow> flows r (flushRx t r)"
proof (induction t r rule: flushRx.induct)
  case (1 t r)
  have "flows r t \<Longrightarrow> flows r (flushStep t r e)" for e by (simp add: flushStep_def Let_def flow_intros)
  with 1 show ?case by (subst flushRx.simps) (auto split: option.split)
qed

lemma flows_dispatchI: "receiving t port src dst r \<Longrightarrow> flows r t \<Longrightarrow> flows r (dispatchI t port f src dst)"
  by (simp add: dispatchI_receiving Let_def recvSREJ_def recvREJ_def sendSREJHoles_def flow_intros)

section \<open>Hooks at the bridge\<close>

definition dataPacket :: "conn \<Rightarrow> u8 \<times> bytes \<Rightarrow> bytes" where
  "dataPacket x e = Build (word_of_int (cPort x)) (byte_of_char (CHR ''D'')) (fst e) (Remote x) (Local x) (snd e)"

definition handOver :: "conn \<Rightarrow> client \<Rightarrow> u8 \<times> bytes \<Rightarrow> client" where
  "handOver x cl e = SendAGWPE cl (word_of_int (cPort x)) (byte_of_char (CHR ''D'')) (fst e) (Remote x) (Local x) (snd e)"

lemma runHook_flow:
  assumes "flowHook r h" "Owner (cell (l2 b) r) = Some c"
  shows "l2 (runHook b h) = l2 b"
    "cstore (runHook b h) c = foldl (handOver (cell (l2 b) r)) (cstore b c) (hdata r [h])"
proof -
  have "l2 (runHook b h) = l2 b
      \<and> cstore (runHook b h) c = foldl (handOver (cell (l2 b) r)) (cstore b c) (hdata r [h])"
  proof (cases h)
    case (SendAX25 p f)
    then show ?thesis by (simp add: bridge_simps)
  next
    case (HData q pid d)
    then show ?thesis
      using assms by (simp add: notifyData_def toOwner_def clientSend_def updClient_def handOver_def Let_def)
  qed (use assms(1) in simp_all)
  then show "l2 (runHook b h) = l2 b"
    "cstore (runHook b h) c = foldl (handOver (cell (l2 b) r)) (cstore b c) (hdata r [h])" by simp_all
qed

lemma runHooks_flow:
  assumes "list_all (flowHook r) hs" "Owner (cell (l2 b) r) = Some c"
  shows "l2 (foldl runHook b hs) = l2 b
    \<and> cstore (foldl runHook b hs) c = foldl (handOver (cell (l2 b) r)) (cstore b c) (hdata r hs)"
  using assms
proof (induction hs arbitrary: b)
  case (Cons h hs)
  have h: "flowHook r h" and hs: "list_all (flowHook r) hs" using Cons.prems(1) by simp_all
  note s = runHook_flow [OF h Cons.prems(2)]
  have "Owner (cell (l2 (runHook b h)) r) = Some c" using s(1) Cons.prems(2) by simp
  from Cons.IH [OF hs this] show ?case
    using hdata_append [of r "[h]" hs] by (simp add: s del: hdata_append)
qed simp

lemma runL2_flow:
  assumes "flows r t" "Owner (cell t r) = Some c"
  shows "l2 (runL2 b t) = t\<lparr>out := []\<rparr>"
    "cstore (runL2 b t) c = foldl (handOver (cell t r)) (cstore b c) (delivered r t)"
  using runHooks_flow [of r "out t" "b\<lparr>l2 := t\<lparr>out := []\<rparr>\<rparr>" c] assms
  by (simp_all add: runL2_def runHooks_def flows_def)

text \<open>With room in the queue every element becomes a packet.\<close>

lemma handOver_room:
  assumes "\<not> cclosed cl" "length (writeCh cl) + length es \<le> writeChCap"
  shows "foldl (handOver x) cl es = cl\<lparr>writeCh := writeCh cl @ map (dataPacket x) es\<rparr>"
  using assms
proof (induction es arbitrary: cl)
  case (Cons e es)
  have "handOver x cl e = cl\<lparr>writeCh := writeCh cl @ [dataPacket x e]\<rparr>"
    using Cons.prems by (simp add: handOver_def SendAGWPE_def dataPacket_def Let_def)
  with Cons.IH [of "handOver x cl e"] Cons.prems show ?case by simp
qed simp

text \<open>A client that is neither monitoring nor in raw mode sees nothing of the sinks.\<close>

lemma foldl_fixpoint: "(\<And>s x. g s = v \<Longrightarrow> g (f s x) = v) \<Longrightarrow> g s = v \<Longrightarrow> g (foldl f s xs) = v"
  by (induction xs arbitrary: s) simp_all

lemma sinks_silent:
  assumes "\<not> monitoring (cstore b c)"
  shows "cstore (emitMonitor ts b p f) c = cstore b c"
proof -
  have "cstore (monitor_OnRXFrame ts b' p f) c = v" if "cstore b' c = v" "\<not> monitoring v" for b' v
    unfolding monitor_OnRXFrame_def using that
    by (auto simp: clientSend_def updClient_def split: option.split intro!: foldl_fixpoint [where g = "\<lambda>b. cstore b c"])
  then show ?thesis
    unfolding emitMonitor_def using assms
    by (intro foldl_fixpoint [where g = "\<lambda>b. cstore b c"]) (auto split: monSink.split)
qed

lemma raw_silent:
  assumes "\<not> rawMode (cstore b c)"
  shows "cstore (emitRawRX b p raw) c = cstore b c"
proof -
  have "cstore (raw_OnRawRX b' p raw) c = v" if "cstore b' c = v" "\<not> rawMode v" for b' v
    unfolding raw_OnRawRX_def Let_def using that
    by (auto simp: clientSend_def updClient_def split: prod.split intro!: foldl_fixpoint [where g = "\<lambda>b. cstore b c"])
  then show ?thesis
    unfolding emitRawRX_def using assms
    by (intro foldl_fixpoint [where g = "\<lambda>b. cstore b c"]) (auto split: rawSink.split)
qed

section \<open>One frame\<close>

text \<open>
  The link \<open>r\<close> between \<open>dst\<close> here and \<open>src\<close> is up and belongs to client \<open>c\<close>, which listens to nothing else.
\<close>

definition serving :: "bridge \<Rightarrow> int \<Rightarrow> string \<Rightarrow> string \<Rightarrow> ref \<Rightarrow> nat \<Rightarrow> bool" where
  "serving b port src dst r c \<longleftrightarrow> bridge_inv b \<and> Get (l2 b) port dst src = Some r \<and> State (cell (l2 b) r) = Connected
     \<and> Owner (cell (l2 b) r) = Some c \<and> \<not> monitoring (cstore b c) \<and> \<not> rawMode (cstore b c)
     \<and> \<not> cclosed (cstore b c)"

text \<open>An I-frame of the link, as the receive path decodes it.\<close>

definition heard :: "bridge \<Rightarrow> int \<Rightarrow> string \<Rightarrow> string \<Rightarrow> bytes \<Rightarrow> frame \<Rightarrow> bool" where
  "heard b port src dst raw f \<longleftrightarrow> rxParse (l2 b) port raw = Inr f \<and> Type f = I \<and> \<not> unrepeated f
     \<and> addr_String (Src f) = src \<and> addr_String (Dst f) = dst"

lemma serving_receiving:
  assumes "serving b port src dst r c"
  shows "receiving (l2now b) port src dst r" "receiving (l2now (countRX b clk port)) port src dst r"
proof -
  have "cinv (l2 b) r" using assms live_cinv inv_parts(1) Get_live by (auto simp: serving_def)
  then have "cModulo (cell (l2 b) r) = 8 \<or> cModulo (cell (l2 b) r) = 128"
    by (simp add: cinv_def conn_inv_def seq_ok_def)
  then show "receiving (l2now b) port src dst r" "receiving (l2now (countRX b clk port)) port src dst r"
    using assms by (auto simp: serving_def receiving_def l2now_def bridgeHooks_def countRX_def Get_def)
qed

lemma OnFrame_receiving:
  assumes "receiving t port src dst r" "Type f = I" "addr_String (Src f) = src" "addr_String (Dst f) = dst"
    and "link_fixed r t (dispatchI t port f src dst)"
  shows "OnFrame t port f = startT3 (dispatchI t port f src dst) r"
  using assms by (simp add: OnFrame_def dispatch_def receiving_def link_fixed_def same_conf_def Get_def)

lemma keeps_dispatchI:
  assumes "receiving t port src dst r" "NR f < cModulo (cell t r)"
  shows "keeps r t (dispatchI t port f src dst)"
proof -
  let ?u = "ackFrames t r (NR f)"
  have s: "State (cell t r) \<noteq> Connecting" using assms(1) by (simp add: receiving_def)
  have 1: "keeps r t ?u" using s assms(2) by (rule keeps_ackFrames)
  have "State (cell ?u r) \<noteq> Connecting" using same_link_ackFrames [of r t "NR f"] s by (simp add: same_link_def)
  then show ?thesis
    unfolding dispatchI_receiving [OF assms(1)] Let_def using keeps_trans [OF 1 keeps_recvSREJ] keeps_trans [OF 1 keeps_recvREJ]
    by simp
qed

lemma rxParse_cong:
  assumes "uni t' = uni t" "conns t' = conns t" "\<And>q. cModulo (cells t' q) = cModulo (cells t q)"
  shows "rxParse t' = rxParse t"
proof -
  have "Get t' = Get t" using assms(1,2) by (simp add: fun_eq_iff Get_def)
  then have "ModuloFor t' = ModuloFor t" using assms(3) by (simp add: fun_eq_iff ModuloFor_def split: option.split)
  then show ?thesis by (intro ext) (simp add: rxParse_def split: sum.split)
qed

lemma dataPacket_cong: "ident x = ident y \<Longrightarrow> dataPacket x = dataPacket y"
  by (simp add: fun_eq_iff dataPacket_def ident_def)

lemma countRX_simps [simp]: "l2 (countRX b clk p) = l2 b" "cstore (countRX b clk p) = cstore b"
  "l2now (countRX b clk p) = l2now b"
proof -
  have "isLocalCall (countRX b clk p) = isLocalCall b" by (simp add: fun_eq_iff isLocalCall_def countRX_def)
  then show "l2now (countRX b clk p) = l2now b" by (simp add: l2now_def bridgeHooks_def countRX_def)
qed (simp_all add: countRX_def)

lemma OnKISSFrame_heard:
  assumes "heard b port src dst raw f" "\<not> isEcho b (normalizeHBits raw)"
    and m: "m = onL2 (countRX b clk port) (\<lambda>t. OnFrame t port f)"
    and "\<not> monitoring (cstore m c)" "\<not> rawMode (cstore m c)"
  shows "l2 (OnKISSFrame clk ts b port raw) = l2 m" "cstore (OnKISSFrame clk ts b port raw) c = cstore m c"
proof -
  have e: "OnKISSFrame clk ts b port raw = emitMonitor ts (emitRawRX m port raw) port f"
    using assms(1,2) by (simp add: OnKISSFrame_def heard_def m Let_def)
  show "l2 (OnKISSFrame clk ts b port raw) = l2 m" by (simp add: e bridge_simps)
  show "cstore (OnKISSFrame clk ts b port raw) c = cstore m c"
    using sinks_silent [of "emitRawRX m port raw" c] raw_silent [OF assms(5), of port raw] assms(4) by (simp add: e)
qed

text \<open>What the layer does with an I-frame of the link.\<close>

lemma OnFrame_served:
  assumes sv: "serving b port src dst r c" and hd: "heard b port src dst raw f"
  shows "keeps r (l2now b) (startT3 (dispatchI (l2now b) port f src dst) r)"
    "flows r (startT3 (dispatchI (l2now b) port f src dst) r)"
    "Owner (cell (startT3 (dispatchI (l2now b) port f src dst) r) r) = Some c"
proof -
  let ?t = "l2now b"
  let ?d = "dispatchI (l2now b) port f src dst"
  have inv: "bridge_inv b" and own: "Owner (cell (l2 b) r) = Some c" using sv by (simp_all add: serving_def)
  note rx = serving_receiving(1) [OF sv]
  have "rx_ok ?t port f"
    using rxParse_ok [of ?t port raw f] inv_parts(1) [OF inv] hd by (simp add: rxParse_l2now heard_def)
  then have "uint (NR f) < uint (cModulo (cell ?t r))"
    using sv hd by (simp add: rx_ok_def serving_def heard_def ModuloFor_def)
  then have "NR f < cModulo (cell ?t r)" by (simp add: word_less_def)
  then show "keeps r ?t (startT3 ?d r)" using keeps_trans [OF keeps_dispatchI [OF rx]] by simp
  have "flows r ?t" using inv_parts(2) [OF inv] by (simp add: flows_def)
  then show "flows r (startT3 ?d r)" by (simp add: flow_intros flows_dispatchI [OF rx])
  show "Owner (cell (startT3 ?d r) r) = Some c"
    using own_dispatch(1) [of ?t port f src dst] own_timers(6) [of ?d r] own by (simp add: own_def fun_eq_iff)
qed

text \<open>Frames as they arrive: the clock, the formatted time and the bytes.\<close>

definition hear :: "int \<Rightarrow> bridge \<Rightarrow> int \<times> string \<times> bytes \<Rightarrow> bridge" where
  "hear port b a = (case a of (clk, ts, raw) \<Rightarrow> OnKISSFrame clk ts b port raw)"

lemma hear_simp [simp]: "hear port b (clk, ts, raw) = OnKISSFrame clk ts b port raw"
  by (simp add: hear_def)

text \<open>None of them is taken for an echo of a frame sent here.\<close>

fun fresh :: "int \<Rightarrow> bridge \<Rightarrow> (int \<times> string \<times> bytes) list \<Rightarrow> bool" where
  "fresh port b [] \<longleftrightarrow> True"
| "fresh port b (a # as) \<longleftrightarrow> \<not> isEcho b (normalizeHBits (snd (snd a))) \<and> fresh port (hear port b a) as"

fun fits_all :: "('s \<Rightarrow> nat \<Rightarrow> bool) \<Rightarrow> ('s \<Rightarrow> nat \<Rightarrow> 's) \<Rightarrow> 's \<Rightarrow> nat list \<Rightarrow> bool" where
  "fits_all ok nxt s [] \<longleftrightarrow> True"
| "fits_all ok nxt s (i # is) \<longleftrightarrow> ok s i \<and> fits_all ok nxt (nxt s i) is"

context receiver
begin

text \<open>One I-frame through the whole receive path.\<close>

lemma frame_served:
  fixes b port raw clk ts
  assumes sv: "serving b port src dst r c" and hd: "heard b port src dst raw f" and ne: "\<not> isEcho b (normalizeHBits raw)"
    and rl: "rel (portParams (l2 b) port) (cell (l2 b) r) s"
    and cr: "carries (cModulo (cell (l2 b) r)) stream f i" "fits (unat (cModulo (cell (l2 b) r))) s i"
    and room: "length (writeCh (cstore b c)) + (reach (step s i) - reach s) \<le> writeChCap"
  defines "b' \<equiv> OnKISSFrame clk ts b port raw"
  shows "serving b' port src dst r c \<and> rel (portParams (l2 b') port) (cell (l2 b') r) (step s i)
    \<and> cModulo (cell (l2 b') r) = cModulo (cell (l2 b) r) \<and> ident (cell (l2 b') r) = ident (cell (l2 b) r)
    \<and> rxParse (l2 b') = rxParse (l2 b)
    \<and> writeCh (cstore b' c) = writeCh (cstore b c) @ map (dataPacket (cell (l2 b) r)) (map stream [reach s..<reach (step s i)])"
proof -
  let ?t = "l2now b" and ?es = "map stream [reach s..<reach (step s i)]"
  let ?d = "dispatchI ?t port f src dst"
  let ?o = "startT3 ?d r" and ?m = "onL2 (countRX b clk port) (\<lambda>t. OnFrame t port f)"
  have inv: "bridge_inv b" and cl: "\<not> cclosed (cstore b c)" "\<not> monitoring (cstore b c)" "\<not> rawMode (cstore b c)"
    using sv by (simp_all add: serving_def)
  note rx = serving_receiving(1) [OF sv] and o = OnFrame_served [OF sv hd]
  have ref: "rel (portParams (l2 b) port) (cell ?d r) (step s i)" "link_fixed r ?t ?d"
    "delivered r ?d = ?es"
    using refines [OF rx, of s f i] rl cr portParams_cong [of ?t "l2 b"] inv_parts(2) [OF inv] by simp_all
  have "OnFrame ?t port f = ?o" using hd ref(2) by (intro OnFrame_receiving [OF rx]) (simp_all add: heard_def)
  then have m: "l2 ?m = ?o\<lparr>out := []\<rparr>" "cstore ?m c = foldl (handOver (cell ?o r)) (cstore b c) ?es"
    using runL2_flow [OF o(2,3), of "countRX b clk port"] ref(3) by (simp_all add: onL2_def)
  have id: "ident (cell ?o r) = ident (cell (l2 b) r)" using o(1) by (simp add: keeps_def)
  have c: "cstore ?m c = (cstore b c)\<lparr>writeCh := writeCh (cstore b c) @ map (dataPacket (cell (l2 b) r)) ?es\<rparr>"
    using m(2) handOver_room [of "cstore b c" ?es] cl room dataPacket_cong [OF id] by simp
  have b': "l2 b' = ?o\<lparr>out := []\<rparr>" "cstore b' c = cstore ?m c"
    using OnKISSFrame_heard [OF hd ne refl, of clk c ts] c cl m(1) by (simp_all add: b'_def)
  have cells: "cModulo (cells ?o q) = cModulo (cells (l2 b) q)" for q
    using o(1) ref(2) by (cases "q = r") (simp_all add: keeps_def link_fixed_def)
  have same: "uni ?o = uni (l2 b)" "conns ?o = conns (l2 b)" "params ?o = params (l2 b)"
    using o(1) by (simp_all add: keeps_def same_conf_def)
  have "rel (portParams (l2 b') port) (cell (l2 b') r) (step s i)"
    using rel_cong [OF ref(1), of "cell ?o r"] same(3) portParams_cong [of "l2 b'" "l2 b"] by (simp add: b')
  moreover have "serving b' port src dst r c"
    using sv o(3) ref(2) c inv_OnKISSFrame [OF inv] same
    by (simp add: serving_def b' Get_def link_fixed_def) (simp add: b'_def)
  moreover have "rxParse (l2 b') = rxParse (l2 b)" using same cells by (intro rxParse_cong) (simp_all add: b')
  ultimately show ?thesis using c id cells [of r] by (simp add: b')
qed

lemma reach_mono: "reach s \<le> reach (foldl step s is)"
  by (induction "is" arbitrary: s) (auto intro: order_trans [OF reach_step])

lemma frames_served:
  assumes "serving b port src dst r c" "list_all2 (\<lambda>a f. heard b port src dst (snd (snd a)) f) as fs"
    and "rel (portParams (l2 b) port) (cell (l2 b) r) s" "m = cModulo (cell (l2 b) r)"
    and "list_all2 (carries m stream) fs is" "fits_all (fits (unat m)) step s is" "fresh port b as"
    and "length (writeCh (cstore b c)) + (reach (foldl step s is) - reach s) \<le> writeChCap"
  shows "writeCh (cstore (foldl (hear port) b as) c)
    = writeCh (cstore b c) @ map (dataPacket (cell (l2 b) r)) (map stream [reach s..<reach (foldl step s is)])"
  using assms(5,1-4,6-8)
proof (induction fs "is" arbitrary: b s as rule: list_all2_induct)
  case (Cons f fs i "is")
  obtain clk ts raw as' where as: "as = (clk, ts, raw) # as'" and hd: "heard b port src dst raw f"
    and tl: "list_all2 (\<lambda>a f. heard b port src dst (snd (snd a)) f) as' fs"
    using Cons.prems(2) by (auto simp: list_all2_Cons2)
  let ?b = "OnKISSFrame clk ts b port raw" and ?s = "step s i"
  have ne: "\<not> isEcho b (normalizeHBits raw)" using Cons.prems(6) by (simp add: as)
  have fi: "fits (unat m) s i" "fits_all (fits (unat m)) step ?s is" using Cons.prems(5) by simp_all
  have le: "reach s \<le> reach ?s" "reach ?s \<le> reach (foldl step ?s is)" by (rule reach_step reach_mono)+
  have sv: "serving ?b port src dst r c \<and> rel (portParams (l2 ?b) port) (cell (l2 ?b) r) ?s
    \<and> cModulo (cell (l2 ?b) r) = cModulo (cell (l2 b) r) \<and> ident (cell (l2 ?b) r) = ident (cell (l2 b) r)
    \<and> rxParse (l2 ?b) = rxParse (l2 b)
    \<and> writeCh (cstore ?b c) = writeCh (cstore b c) @ map (dataPacket (cell (l2 b) r)) (map stream [reach s..<reach ?s])"
    using Cons.hyps(1) Cons.prems(4,7) fi(1) le by (intro frame_served [OF Cons.prems(1) hd ne Cons.prems(3)]) simp_all
  have "writeCh (cstore (foldl (hear port) ?b as') c)
    = writeCh (cstore ?b c) @ map (dataPacket (cell (l2 ?b) r)) (map stream [reach ?s..<reach (foldl step ?s is)])"
    using sv tl Cons.prems(4,6,7) fi(2) le by (intro Cons.IH) (simp_all add: heard_def as)
  moreover have "[reach s..<reach (foldl step ?s is)] = [reach s..<reach ?s] @ [reach ?s..<reach (foldl step ?s is)]"
    using le by (metis le_Suc_ex upt_add_eq_append)
  ultimately show ?case using sv dataPacket_cong [of "cell (l2 ?b) r" "cell (l2 b) r"] by (simp add: as)
qed simp

end

section \<open>The two receivers\<close>

definition gbn_rel :: "PortParams \<Rightarrow> conn \<Rightarrow> nat \<Rightarrow> bool" where
  "gbn_rel pp c n \<longleftrightarrow> \<not> srejEnabled c \<and> recvSeq c = num (cModulo c) n"

definition gbn_next :: "nat \<Rightarrow> nat \<Rightarrow> nat" where
  "gbn_next n i = (if i = n then Suc n else n)"

definition gbn_fits :: "nat \<Rightarrow> nat \<Rightarrow> nat \<Rightarrow> bool" where
  "gbn_fits m n i \<longleftrightarrow> i < n + m \<and> n < i + m"

interpretation gbn: receiver stream gbn_rel gbn_next id gbn_fits for stream
proof unfold_locales
  show "id s \<le> id (gbn_next s i)" for s i by (simp add: gbn_next_def)
  show "gbn_rel pp c' s" if "gbn_rel pp c s" "recvSeq c' = recvSeq c" "cModulo c' = cModulo c" "srejEnabled c' = srejEnabled c"
    for pp c c' s using that by (simp add: gbn_rel_def)
  show "gbn_rel (portParams t port) (cell (dispatchI t port f src dst) r) (gbn_next s i)
      \<and> link_fixed r t (dispatchI t port f src dst)
      \<and> delivered r (dispatchI t port f src dst) = delivered r t @ map stream [id s..<id (gbn_next s i)]"
    if "receiving t port src dst r" "gbn_rel (portParams t port) (cell t r) s" "carries (cModulo (cell t r)) stream f i"
      "gbn_fits (unat (cModulo (cell t r))) s i" for t port src dst r s f i
    using gbn_step [OF that(1) _ _ that(3), of s] that(2,4)
    by (auto simp: gbn_rel_def gbn_fits_def gbn_next_def link_fixed_def)
qed

lemma gbn_run: "foldl gbn_next n is = gbn_rx n is" "fits_all (gbn_fits m) gbn_next n is = gbn_range m n is"
  by (induction "is" arbitrary: n) (simp_all add: gbn_next_def gbn_fits_def)

definition srej_rel :: "(nat \<Rightarrow> u8 \<times> bytes) \<Rightarrow> nat \<Rightarrow> PortParams \<Rightarrow> conn \<Rightarrow> nat \<times> nat list \<Rightarrow> bool" where
  "srej_rel stream w pp c s \<longleftrightarrow> srejEnabled c \<and> MaxWindow pp = int w \<and> rx_rel stream c (fst s) (snd s) \<and> fst s \<notin> set (snd s)"

definition srej_fits :: "nat \<Rightarrow> nat \<Rightarrow> nat \<times> nat list \<Rightarrow> nat \<Rightarrow> bool" where
  "srej_fits w m s i \<longleftrightarrow> i < fst s + m \<and> fst s + w < i + m"

lemma adv_ahead: "n \<le> fst (adv n B)"
  by (induction n B rule: adv.induct) (subst adv.simps, simp add: Suc_leD)

interpretation srej: receiver stream "srej_rel stream w" "srej_step w" fst "srej_fits w" for stream w
proof unfold_locales
  show "fst s \<le> fst (srej_step w s i)" for s i
    using adv_ahead [of "Suc (fst s)" "snd s"] by (cases s) (simp add: srej_step_def)
  show "srej_rel stream w pp c' s" if "srej_rel stream w pp c s" "recvSeq c' = recvSeq c" "rxBuf c' = rxBuf c"
      "cModulo c' = cModulo c" "srejEnabled c' = srejEnabled c" for pp c c' s
    using that rx_rel_cong [of c' c] by (simp add: srej_rel_def)
  show "srej_rel stream w (portParams t port) (cell (dispatchI t port f src dst) r) (srej_step w s i)
      \<and> link_fixed r t (dispatchI t port f src dst)
      \<and> delivered r (dispatchI t port f src dst) = delivered r t @ map stream [fst s..<fst (srej_step w s i)]"
    if "receiving t port src dst r" "srej_rel stream w (portParams t port) (cell t r) s"
      "carries (cModulo (cell t r)) stream f i" "srej_fits w (unat (cModulo (cell t r))) s i" for t port src dst r s f i
  proof -
    obtain n' B' where "srej_step w s i = (n', B')" by fastforce
    with srej_frame [OF that(1) _ _ _ _ that(3), of w "fst s" "snd s" n' B'] that(2,4) show ?thesis
      by (auto simp: srej_rel_def srej_fits_def link_fixed_def)
  qed
qed

lemma srej_run: "foldl (srej_step w) s is = srej_rx w s is" "fits_all (srej_fits w m) (srej_step w) s is = srej_range m w s is"
  by (induction "is" arbitrary: s) (simp_all add: srej_fits_def)

end
