(* ===== verification/Reconnect.thy ===== *)
theory Reconnect
  imports Bridge_System
begin

text \<open>
  Connect attempts: every attempt carries the epoch of its port at the time it was started, and at
  most one of the attempts under way for a port can still install what it connected.
\<close>

section \<open>Attempts\<close>

fun attempt :: "task \<Rightarrow> (nat \<times> int) list" where
  "attempt (Dial i e _) = [(i, e)]"
| "attempt (Install i e _ _) = [(i, e)]"
| "attempt (Relink i e _) = [(i, e)]"
| "attempt _ = []"

definition attempts :: "task list \<Rightarrow> (nat \<times> int) list" where
  "attempts ks = concat (map attempt ks)"

lemma attempts_simps [simp]:
  "attempts [] = []" "attempts (k # ks) = attempt k @ attempts ks" "attempts (ks @ ls) = attempts ks @ attempts ls"
  by (simp_all add: attempts_def)

definition plan :: "bridge \<Rightarrow> task list \<times> int list" where
  "plan b = (tasks b, portEpoch b)"

definition attempts_ok :: "task list \<times> int list \<Rightarrow> bool" where
  "attempts_ok pl \<longleftrightarrow> distinct (attempts (fst pl))
     \<and> (\<forall>(i, e)\<in>set (attempts (fst pl)). i < length (snd pl) \<and> e \<le> snd pl ! i)"

section \<open>Operations that start no attempt\<close>

named_theorems plan_simps \<open>operations that leave tasks and epochs alone\<close>

lemma plan_fixed: "fixed b' = fixed b \<Longrightarrow> plan b' = plan b"
  using fixed_fields(8,9) [of b' b] by (simp add: plan_def)

lemma plan_runL2 [plan_simps]: "plan (runL2 b t) = plan b" "plan (onL2 b f) = plan b"
proof -
  have "plan (runL2 b t) = plan (b\<lparr>l2 := t\<rparr>)" for t unfolding runL2_def by (rule plan_fixed) (rule runHooks_simps(1))
  then show "plan (runL2 b t) = plan b" "plan (onL2 b f) = plan b" by (simp_all add: onL2_def plan_def)
qed

lemma plan_base [plan_simps]:
  "plan (updClient b c g) = plan b" "plan (updPort b i h) = plan b" "plan (b\<lparr>l2 := t\<rparr>) = plan b" "plan (b\<lparr>bus := x\<rparr>) = plan b"
  "plan (setOwner b r c) = plan b" "plan (countRX b clk p) = plan b" "plan (resetPortCounters b clk p) = plan b"
  "plan (snd (AddClient b c)) = plan b" "plan (b\<lparr>cstore := s\<rparr>) = plan b" "plan (b\<lparr>ports := q\<rparr>) = plan b"
  "plan (b\<lparr>kports := k, nextPort := n\<rparr>) = plan b" "plan (b\<lparr>idleSweepTimer := v\<rparr>) = plan b" "plan (b\<lparr>clients := cs\<rparr>) = plan b"
  by (simp_all add: plan_def updClient_def updPort_def setOwner_def countRX_def resetPortCounters_def AddClient_def)

lemma plan_sends [plan_simps]:
  "plan (SendToKISS b p raw) = plan b" "plan (Bridge_SendAX25 b p f) = plan b" "plan (emitRawRX b p raw) = plan b"
  "plan (emitMonitor ts b p f) = plan b"
  by (rule plan_fixed, simp add: bridge_simps)+

lemma plan_rx [plan_simps]: "plan (OnKISSFrame clk ts b p raw) = plan b"
  by (simp add: OnKISSFrame_def Let_def plan_simps split: sum.split)

lemma plan_requests [plan_simps]: "plan (handleFrame b c hdr data) = plan b"
proof -
  have r: "plan (reply b c p k f t d) = plan b" "plan (busy b c p f t) = plan b" "plan (setCalls b c g) = plan b"
    for b p k f t d g by (simp_all add: reply_def busy_def setCalls_def plan_simps)
  have v: "plan (snd (validCalls b c p f t vs)) = plan b" for b p f t vs by (simp add: validCalls_def r split: option.split)
  have o: "plan (openConn b c p f t vs) = plan b" for b p f t vs
    by (simp add: openConn_def Let_def r plan_simps split: prod.split sum.split)
  have c: "plan (handle_C b c p f t) = plan b" "plan (handle_c b c p f t) = plan b" "plan (handle_v b c p f t d) = plan b"
    for b p f t d using v [of b p f t]
    by (auto simp: handle_C_def handle_c_def handle_v_def o r split: prod.split option.split; metis snd_conv)+
  have u: "plan (sendUnproto b f t i d vs p) = plan b" for b f t i d vs p
    by (simp add: sendUnproto_def plan_simps split: sum.split)
  have "plan (handle_D b c p i f t d) = plan b" "plan (handle_d b c p f t) = plan b" "plan (handle_K b c p d) = plan b"
    for b p i f t d by (simp_all add: handle_D_def handle_d_def handle_K_def Let_def plan_simps split: option.split)
  then show ?thesis
    by (simp add: handleFrame_def Let_def sendVersion_def sendPortInfo_def sendPortCaps_def registerCall_def
      unregisterCall_def handle_Y_def r c u plan_simps split: option.split prod.split)
qed

lemma plan_more [plan_simps]:
  "plan (runPending b c) = plan b" "plan (RemoveClient ord b c) = plan b" "plan (sweepIdleClients b clk) = plan b"
  "plan (SendKISSCommand b p cmd val) = plan b"
proof -
  show "plan (runPending b c) = plan b" by (simp add: runPending_def plan_simps split: list.split prod.split)
  show "plan (RemoveClient ord b c) = plan b" by (simp add: RemoveClient_def Let_def plan_simps)
  have "plan (foldl (\<lambda>b c. if clk - lastActivity (cstore b c) > x then updClient b c CloseTransport else b) b cs) = plan b"
    for x cs by (rule foldl_same) (simp add: plan_simps)
  then show "plan (sweepIdleClients b clk) = plan b" by (simp add: sweepIdleClients_def Let_def plan_simps)
  show "plan (SendKISSCommand b p cmd val) = plan b" by (simp add: SendKISSCommand_def plan_simps split: option.split)
qed

section \<open>Operations that start or end one\<close>

lemma attempts_keep: "plan b' = plan b \<Longrightarrow> attempts_ok (plan b) \<Longrightarrow> attempts_ok (plan b')"
  by simp

text \<open>A new attempt takes a new epoch, so every earlier one is stale.\<close>

lemma attempts_new:
  assumes "attempts_ok (ks, es)" "i < length es" "set (attempts ls) \<subseteq> {(i, es ! i + 1)}" "distinct (attempts ls)"
  shows "attempts_ok (ks @ ls, es[i := es ! i + 1])"
proof -
  have old: "j < length es \<and> e \<le> es ! j" if "(j, e) \<in> set (attempts ks)" for j e
    using assms(1) that by (auto simp: attempts_ok_def)
  then have "(i, es ! i + 1) \<notin> set (attempts ks)" by fastforce
  moreover have "e \<le> es[i := es ! i + 1] ! j" if "(j, e) \<in> set (attempts ks)" for j e
    using old [OF that] by (cases "j = i") auto
  moreover have "j = i \<and> e = es ! i + 1" if "(j, e) \<in> set (attempts ls)" for j e using assms(3) that by auto
  ultimately show ?thesis
    using assms old unfolding attempts_ok_def by (auto simp: disjoint_iff)
qed

lemma attempts_passive: "attempt k = [] \<Longrightarrow> attempts_ok (ks @ [k], es) = attempts_ok (ks, es)"
  by (simp add: attempts_ok_def)

lemma attempts_drop: "attempts_ok (xs @ k # ys, es) \<Longrightarrow> attempts_ok (xs @ ys, es)"
  by (auto simp: attempts_ok_def)

text \<open>An attempt that goes on keeps its epoch.\<close>

lemma attempts_move:
  "attempts_ok (xs @ k # ys, es) \<Longrightarrow> attempt k' = attempt k \<Longrightarrow> attempts_ok (xs @ ys @ [k'], es)"
  by (auto simp: attempts_ok_def)

lemma attempts_reconnectPort:
  assumes "attempts_ok (plan b)" "shape_ok b"
  shows "attempts_ok (plan (snd (reconnectPort ord clk b p keep)))"
proof (cases "inRange p (ports b) \<and> p < int (length (cfgPorts (cfg b))) \<and> ports b ! nat p \<noteq> None")
  case True
  then obtain kp where kp: "ports b ! nat p = Some kp" by blast
  let ?b = "resetPortCounters (if \<not> keep then onL2 (b\<lparr>ports := (ports b)[nat p := None]\<rparr>) (\<lambda>t. PortOffline ord t p)
    else b\<lparr>ports := (ports b)[nat p := None]\<rparr>) clk p"
  have b: "tasks ?b = tasks b" "portEpoch ?b = portEpoch b"
    using plan_runL2(2) [of "b\<lparr>ports := (ports b)[nat p := None]\<rparr>" "\<lambda>t. PortOffline ord t p"]
    by (auto simp: resetPortCounters_def plan_def)
  have "nat p < length (portEpoch b)" using True assms(2) by (auto simp: shape_ok_def inRange_def Let_def)
  with attempts_new [of "tasks b" "portEpoch b" "nat p" "[Relink (nat p) (portEpoch b ! nat p + 1) kp]"] assms(1) True kp b
  show ?thesis by (simp add: reconnectPort_def Let_def spawn_def newEpoch_def plan_def)
next
  case False
  then have "snd (reconnectPort ord clk b p keep) = b" by (auto simp: reconnectPort_def split: option.split)
  with assms show ?thesis by simp
qed

lemma attempts_checkPort:
  assumes ok: "attempts_ok (plan b)" and inv: "bridge_inv b"
  shows "attempts_ok (plan (checkPort ord clk b i))"
proof -
  have "attempts_ok (plan (snd (reconnectPort ord clk (b\<lparr>relinks := x, lastRX := l\<rparr>) (int i) True)))"
    if "length x = length (relinks b)" "length l = length (lastRX b)" for x l
    using ok inv_parts(8) [OF inv] that by (intro attempts_reconnectPort) (simp_all add: plan_def shape_ok_def)
  from this [of _ "lastRX b"] this [of "relinks b"] this show ?thesis
    using ok by (auto simp: checkPort_def Let_def plan_def)
qed

lemma attempts_checkRXWedge:
  assumes "map_order ord" "bridge_inv b" "attempts_ok (plan b)"
  shows "attempts_ok (plan (checkRXWedge ord b clk))"
proof -
  have "attempts_ok (plan (foldl (checkPort ord clk) b' is))"
    if "bridge_inv b'" "attempts_ok (plan b')" "\<forall>i\<in>set is. i < length (cfgPorts (cfg b'))" for b' "is"
    using that by (induction "is" arbitrary: b') (simp_all add: inv_checkPort [OF assms(1)] attempts_checkPort)
  from this [OF assms(2,3)] show ?thesis by (simp add: checkRXWedge_def)
qed

lemma attempts_schedule: "attempts_ok (plan (scheduleReconnect b i d)) = attempts_ok (plan b)"
  by (simp add: scheduleReconnect_def Let_def spawn_def plan_def attempts_passive)

lemma attempts_fires: "attempts_ok (plan b) \<Longrightarrow> i < length (portEpoch b) \<Longrightarrow> attempts_ok (plan (reconnectFires b i e d m))"
  using attempts_new [of "tasks b" "portEpoch b" i "[Dial i (portEpoch b ! i + 1) (Backoff x)]" for x]
  by (auto simp: reconnectFires_def Let_def newEpoch_def spawn_def plan_def)

lemma attempts_dialEnds:
  assumes "attempts_ok (plan b)" "tasks b = xs @ Dial i e k # ys"
  shows "attempts_ok (plan (dialEnds (b\<lparr>tasks := xs @ ys\<rparr>) i e k res))"
proof -
  have d: "attempts_ok (xs @ ys, portEpoch b)" "attempts_ok (xs @ ys @ [Install i e k n], portEpoch b)" for n
    using assms attempts_drop [of xs "Dial i e k" ys] attempts_move [of xs "Dial i e k" ys _ "Install i e k n"]
    by (simp_all add: plan_def)
  have "attempts_ok (xs @ ys @ [Schedule i x], portEpoch b)" for x
    using d(1) attempts_passive [of "Schedule i x" "xs @ ys" "portEpoch b"] by simp
  then show ?thesis
    using d by (simp add: dialEnds_def Let_def spawn_def plan_def split: dialResult.split dialKind.split)
qed

lemma attempts_portWentOffline:
  "attempts_ok (plan b) \<Longrightarrow> attempts_ok (plan (portWentOffline ord b clk i))"
  by (simp add: portWentOffline_def Let_def attempts_schedule plan_simps)

definition reconnect_inv :: "bridge \<Rightarrow> bool" where
  "reconnect_inv b \<longleftrightarrow> bridge_inv b \<and> attempts_ok (plan b)"

lemma attempts_step:
  assumes "bridge_step b b'" "bridge_inv b" "attempts_ok (plan b)"
  shows "attempts_ok (plan b')"
  using assms
proof (induction rule: bridge_step.induct)
  case (fails i b)
  have "plan (spawn (updPort b i h) (WentOffline n)) = (tasks b @ [WentOffline n], portEpoch b)" for h n
    by (simp add: plan_def spawn_def updPort_def)
  then show ?case using fails(4) by (simp add: attempts_passive) (simp add: plan_def)
next
  case (relink b xs i e n ys)
  then show ?case
    using attempts_move [of xs "Relink i e n" ys "portEpoch b" "Dial i e Plain"] by (simp add: plan_def spawn_def updPort_def)
next
  case (install b xs i e k n ys)
  have "plan (install (b\<lparr>tasks := xs @ ys\<rparr>) i e k n) = (xs @ ys, portEpoch b)"
    by (simp add: install_def Let_def updPort_def plan_def split: dialKind.split)
  then show ?case using install attempts_drop [of xs "Install i e k n" ys] by (simp add: plan_def)
next
  case (schedule b xs i d ys)
  then show ?case using attempts_drop [of xs "Schedule i d" ys] by (simp add: attempts_schedule) (simp add: plan_def)
next
  case (offline ord b xs i ys clk)
  then show ?case
    using attempts_drop [of xs "WentOffline i" ys] by (intro attempts_portWentOffline) (simp add: plan_def)
next
  case (timer b xs i e d m ys)
  have "i < length (portEpoch b)"
    using inv_dropTask(2) [OF timer(2,1)] inv_parts(8) [OF timer(2)] by (simp add: shape_ok_def Let_def)
  then show ?case using timer attempts_drop [of xs "ReconnectTimer i e d m" ys] by (intro attempts_fires) (simp_all add: plan_def)
next
  case (manual ord b clk p)
  then show ?case using inv_parts(8) by (simp add: ReconnectPort_def attempts_reconnectPort)
next
  case (sinks b s1 s2 s3 s4)
  then show ?case by (simp add: plan_def)
qed (simp_all add: plan_simps attempts_checkRXWedge attempts_dialEnds)

interpretation reconnect: invariant_system bridge_init bridge_step reconnect_inv
proof unfold_locales
  show "reconnect_inv b" if "bridge_init b" for b
  proof -
    have "distinct (map (\<lambda>i. (i, 1 :: int)) [0..<n])" for n by (simp add: distinct_map inj_on_def)
    moreover have "attempts (map (\<lambda>i. Dial i 1 Plain) [0..<n]) = map (\<lambda>i. (i, 1)) [0..<n]" for n
      by (induction n) simp_all
    ultimately show ?thesis
      using that bridge_init_inv [OF that]
      by (auto simp: reconnect_inv_def bridge_init_def startBridge_def plan_def attempts_ok_def Let_def)
  qed
  show "reconnect_inv b'" if "bridge_step b b'" "reconnect_inv b" for b b'
    using that bridge_step_inv attempts_step by (auto simp: reconnect_inv_def)
qed

text \<open>What is installed in a slot, and the ports that run outside every slot and every task.\<close>

fun taskPorts :: "task \<Rightarrow> nat list" where
  "taskPorts (Install _ _ _ n) = [n]"
| "taskPorts (Relink _ _ n) = [n]"
| "taskPorts _ = []"

definition orphaned :: "bridge \<Rightarrow> nat \<Rightarrow> bool" where
  "orphaned b n \<longleftrightarrow> n < nextPort b \<and> online (kports b n) \<and> \<not> kclosed (kports b n) \<and> Some n \<notin> set (ports b)
     \<and> (\<forall>k\<in>set (tasks b). n \<notin> set (taskPorts k))"

end
