(* ===== verification/Reconnect_Race.thy ===== *)
theory Reconnect_Race
  imports Reconnect Props_L2
begin

text \<open>
  A run of the bridge in which two reconnects of one port overlap: the port fails, and before the
  function its failure posted has run, an operator reconnects it by hand.  The posted function then arms
  a reconnect timer with the epoch of the manual attempt, so the timer is not stale after that
  attempt has succeeded.
\<close>

section \<open>A one-port configuration\<close>

definition samplePort :: cfgPort where
  "samplePort =
     \<lparr>cpName = ''vhf'', cpType = ''serial'', cpKISS = noParams, cpReconnect = True, cpReconnectDelay = 5,
      cpReconnectMaxDelay = 60, cpOTABaudrate = 1200, cpTXPacing = True, cpAX25Version = 20, cpSREJ = False,
      cpRXWedgeTimeout = 90\<rparr>"

definition sampleConfig :: config where
  "sampleConfig =
     \<lparr>cfgMaxClients = 4, cfgIdleTimeout = 0, cfgMaxWindow = 4, cfgN2Retry = 3, cfgT3Timeout = 0, cfgFrack = 3,
      cfgPorts = [samplePort]\<rparr>"

definition startSample :: bridge where
  "startSample = startBridge id asciiOnly id 0 sampleConfig"

section \<open>The run\<close>

text \<open>A bridge with one port, no connections and no clients, as far as its ports are concerned.\<close>

definition portState :: "bridge \<Rightarrow> nat option list \<Rightarrow> (bool \<times> bool) list \<Rightarrow> int \<Rightarrow> task list \<Rightarrow> bool" where
  "portState b slots ps ep ks \<longleftrightarrow> cfg b = sampleConfig \<and> conns (l2 b) = [] \<and> out (l2 b) = [] \<and> ports b = slots
     \<and> nextPort b = length ps \<and> (\<forall>n<length ps. (online (kports b n), kclosed (kports b n)) = ps ! n \<and> kNum (kports b n) = 0)
     \<and> portEpoch b = [ep] \<and> tasks b = ks"

lemma startSample_init: "bridge_init startSample"
  unfolding bridge_init_def startSample_def
  by (intro exI conjI, rule refl) (simp_all add: unicode_ok_asciiOnly sampleConfig_def)

lemma run_start: "portState startSample [None] [] 1 ([] @ [Dial 0 1 Plain])"
  by (simp add: portState_def startSample_def startBridge_def sampleConfig_def samplePort_def NewTable_def Let_def)

lemma run_dial:
  assumes "portState b sl ps ep (ks @ [Dial 0 e k])" "n = length ps"
  obtains b' where "bridge_step b b'" "portState b' sl (ps @ [(True, False)]) ep (ks @ [Install 0 e k n])"
proof (rule that)
  show "bridge_step b (dialEnds (b\<lparr>tasks := ks\<rparr>) 0 e k Started)"
    using assms bridge_step.dial [of b ks 0 e k "[]" Started] by (simp add: portState_def)
  show "portState (dialEnds (b\<lparr>tasks := ks\<rparr>) 0 e k Started) sl (ps @ [(True, False)]) ep (ks @ [Install 0 e k n])"
    using assms by (auto simp: portState_def dialEnds_def Let_def spawn_def Start_def NewPort_def nth_append less_Suc_eq)
qed

lemma run_install:
  assumes "portState b [x] ps ep (ks @ [Install 0 ep k n])"
  obtains b' where "bridge_step b b'" "portState b' [Some n] ps ep ks"
proof (rule that)
  show "bridge_step b (install (b\<lparr>tasks := ks\<rparr>) 0 ep k n)"
    using assms bridge_step.install [of b ks 0 ep k n "[]"] by (simp add: portState_def)
  show "portState (install (b\<lparr>tasks := ks\<rparr>) 0 ep k n) [Some n] ps ep ks"
    using assms by (auto simp: portState_def install_def Let_def split: dialKind.split)
qed

lemma run_fails:
  assumes "portState b [Some 0] [(True, False)] ep []"
  obtains b' where "bridge_step b b'" "portState b' [Some 0] [(False, True)] ep [WentOffline 0]"
proof (rule that)
  show "bridge_step b (spawn (updPort b 0 (\<lambda>p. snd (fail p))) (WentOffline (nat (kNum (kports b 0)))))"
    using assms by (intro bridge_step.fails) (simp_all add: portState_def fail_def)
  show "portState (spawn (updPort b 0 (\<lambda>p. snd (fail p))) (WentOffline (nat (kNum (kports b 0))))) [Some 0] [(False, True)] ep [WentOffline 0]"
    using assms by (simp add: portState_def spawn_def updPort_def fail_def)
qed

lemma PortOffline_none: "conns t = [] \<Longrightarrow> PortOffline id t p = t"
  by (simp add: PortOffline_def)

lemma onL2_none:
  assumes "conns (l2 b) = []" "out (l2 b) = []"
  shows "onL2 b (\<lambda>t. PortOffline id t p) = b\<lparr>l2 := l2now b\<rparr>"
  using assms by (simp add: onL2_def PortOffline_none runL2_def runHooks_def l2now_def)

lemma run_manual:
  assumes "portState b [Some 0] [(False, True)] ep [WentOffline 0]"
  obtains b' where "bridge_step b b'" "portState b' [None] [(False, True)] (ep + 1) [WentOffline 0, Relink 0 (ep + 1) 0]"
proof (rule that)
  show "bridge_step b (snd (ReconnectPort id 0 b 0))" by (rule bridge_step.manual) (simp add: map_order_def)
  show "portState (snd (ReconnectPort id 0 b 0)) [None] [(False, True)] (ep + 1) [WentOffline 0, Relink 0 (ep + 1) 0]"
    using assms
    by (simp add: portState_def ReconnectPort_def reconnectPort_def inRange_def sampleConfig_def Let_def onL2_none
      resetPortCounters_def newEpoch_def spawn_def)
qed

lemma run_offline:
  assumes "portState b sl ps ep (WentOffline 0 # ks)"
  obtains b' where "bridge_step b b'" "portState b' sl ps ep (ks @ [ReconnectTimer 0 ep 5 60])"
proof (rule that)
  show "bridge_step b (portWentOffline id (b\<lparr>tasks := ks\<rparr>) 0 0)"
    using assms bridge_step.offline [of id b "[]" 0 ks 0] by (simp add: portState_def map_order_def)
  show "portState (portWentOffline id (b\<lparr>tasks := ks\<rparr>) 0 0) sl ps ep (ks @ [ReconnectTimer 0 ep 5 60])"
    using assms
    by (simp add: portState_def portWentOffline_def onL2_none resetPortCounters_def scheduleReconnect_def spawn_def Let_def
      sampleConfig_def samplePort_def)
qed

lemma run_relink:
  assumes "portState b sl [(False, True)] ep (Relink 0 e 0 # ks)"
  obtains b' where "bridge_step b b'" "portState b' sl [(False, True)] ep (ks @ [Dial 0 e Plain])"
proof (rule that)
  show "bridge_step b (spawn (updPort (b\<lparr>tasks := ks\<rparr>) 0 Close) (Dial 0 e Plain))"
    using assms bridge_step.relink [of b "[]" 0 e 0 ks] by (simp add: portState_def)
  show "portState (spawn (updPort (b\<lparr>tasks := ks\<rparr>) 0 Close) (Dial 0 e Plain)) sl [(False, True)] ep (ks @ [Dial 0 e Plain])"
    using assms by (simp add: portState_def spawn_def updPort_def Close_def)
qed

lemma run_timer:
  assumes "portState b sl ps ep [ReconnectTimer 0 ep d m]"
  obtains b' k where "bridge_step b b'" "portState b' sl ps (ep + 1) ([] @ [Dial 0 (ep + 1) k])"
proof (rule that)
  show "bridge_step b (reconnectFires (b\<lparr>tasks := []\<rparr>) 0 ep d m)"
    using assms bridge_step.timer [of b "[]" 0 ep d m "[]"] by (simp add: portState_def)
  show "portState (reconnectFires (b\<lparr>tasks := []\<rparr>) 0 ep d m) sl ps (ep + 1) ([] @ [Dial 0 (ep + 1) (Backoff (if m < d * 2 then m else d * 2))])"
    using assms by (simp add: portState_def reconnectFires_def newEpoch_def spawn_def Let_def)
qed

lemma orphan_run:
  "\<exists>b n. bridge_step\<^sup>*\<^sup>* startSample b \<and> tasks b = [] \<and> orphaned b n \<and> kNum (kports b n) = 0 \<and> PortOnline b 0"
proof -
  obtain b1 where 1: "bridge_step startSample b1" "portState b1 [None] ([] @ [(True, False)]) 1 ([] @ [Install 0 1 Plain 0])"
    using run_dial [OF run_start list.size(3) [symmetric]] .
  obtain b2 where 2: "bridge_step b1 b2" "portState b2 [Some 0] [(True, False)] 1 []" by (rule run_install [OF 1(2)]) (rule that, simp_all)
  obtain b3 where 3: "bridge_step b2 b3" "portState b3 [Some 0] [(False, True)] 1 [WentOffline 0]" using run_fails [OF 2(2)] .
  obtain b4 where 4: "bridge_step b3 b4" "portState b4 [None] [(False, True)] (1 + 1) [WentOffline 0, Relink 0 (1 + 1) 0]"
    using run_manual [OF 3(2)] .
  obtain b5 where 5: "bridge_step b4 b5" "portState b5 [None] [(False, True)] (1 + 1) ([Relink 0 (1 + 1) 0] @ [ReconnectTimer 0 (1 + 1) 5 60])"
    using run_offline [OF 4(2)] .
  obtain b6 where 6: "bridge_step b5 b6" "portState b6 [None] [(False, True)] (1 + 1) ([ReconnectTimer 0 (1 + 1) 5 60] @ [Dial 0 (1 + 1) Plain])"
    using run_relink [OF 5(2) [unfolded append_Cons append_Nil]] .
  obtain b7 where 7: "bridge_step b6 b7" "portState b7 [None] ([(False, True)] @ [(True, False)]) (1 + 1) ([ReconnectTimer 0 (1 + 1) 5 60] @ [Install 0 (1 + 1) Plain 1])"
    by (rule run_dial [OF 6(2), of 1]) (simp, rule that)
  obtain b8 where 8: "bridge_step b7 b8" "portState b8 [Some 1] ([(False, True)] @ [(True, False)]) (1 + 1) [ReconnectTimer 0 (1 + 1) 5 60]"
    using run_install [OF 7(2)] .
  obtain b9 k where 9: "bridge_step b8 b9" "portState b9 [Some 1] ([(False, True)] @ [(True, False)]) (1 + 1 + 1) ([] @ [Dial 0 (1 + 1 + 1) k])"
    using run_timer [OF 8(2)] .
  obtain b10 where 10: "bridge_step b9 b10" "portState b10 [Some 1] (([(False, True)] @ [(True, False)]) @ [(True, False)]) (1 + 1 + 1) ([] @ [Install 0 (1 + 1 + 1) k 2])"
    by (rule run_dial [OF 9(2), of 2]) (simp, rule that)
  obtain b11 where 11: "bridge_step b10 b11" "portState b11 [Some 2] (([(False, True)] @ [(True, False)]) @ [(True, False)]) (1 + 1 + 1) []"
    using run_install [OF 10(2)] .
  note join = converse_rtranclp_into_rtranclp [of bridge_step]
  have steps_up: "bridge_step\<^sup>*\<^sup>* startSample b4" by (rule join [OF 1(1) join [OF 2(1) join [OF 3(1) r_into_rtranclp [of bridge_step, OF 4(1)]]]])
  have steps_race: "bridge_step\<^sup>*\<^sup>* b4 b8" by (rule join [OF 5(1) join [OF 6(1) join [OF 7(1) r_into_rtranclp [of bridge_step, OF 8(1)]]]])
  have steps_again: "bridge_step\<^sup>*\<^sup>* b8 b11" by (rule join [OF 9(1) join [OF 10(1) r_into_rtranclp [of bridge_step, OF 11(1)]]])
  have "bridge_step\<^sup>*\<^sup>* startSample b11"
    by (rule rtranclp_trans [OF rtranclp_trans [OF steps_up steps_race] steps_again])
  moreover have "orphaned b11 1 \<and> PortOnline b11 0 \<and> kNum (kports b11 1) = 0"
    using 11(2) by (auto simp: portState_def orphaned_def PortOnline_def slotOnline_def inRange_def less_Suc_eq all_conj_distrib numeral_2_eq_2)
  moreover have "tasks b11 = []" using 11(2) by (simp add: portState_def)
  ultimately show ?thesis by blast
qed

end
