(* ===== verification/Props_Bridge.thy ===== *)
theory Props_Bridge
  imports Echo Isolation Bridge_Delivery Reconnect_Race
begin

text \<open>
  The properties of the bridge, its clients and its ports.
\<close>

section \<open>A small bridge for the concrete instances\<close>

text \<open>Two clients, and a connection that belongs to client 1; the port is up.\<close>

definition sampleBridge :: bridge where
  "sampleBridge = startSample
     \<lparr>clients := [1, 2], ports := [Some 0], nextPort := 1, tasks := [],
      kports := (\<lambda>_. (NewPort 0 noParams)\<lparr>online := True, trOpen := True\<rparr>),
      l2 := upd sampleTable 0 (\<lambda>c. c\<lparr>Owner := Some 1\<rparr>)\<rparr>"

lemma sampleBridge_l2:
  "l2 sampleBridge = upd sampleTable 0 (\<lambda>c. c\<lparr>Owner := Some 1\<rparr>)"
  by (simp add: sampleBridge_def)

lemma sampleBridge_inv: "bridge_inv sampleBridge"
proof -
  have "table_inv (upd sampleTable 0 (\<lambda>c. c\<lparr>Owner := Some 1\<rparr>)) = table_inv sampleTable"
    by (rule table_inv_cong) simp_all
  then have "table_inv (l2 sampleBridge)" by (simp add: sample_inv sampleBridge_l2)
  moreover have "owners_ok sampleBridge"
    by (auto simp: owners_ok_def sampleBridge_l2 live_def sampleTable_def sampleBridge_def)
  moreover have "rest_inv sampleBridge"
    by (simp add: inv_defs sampleBridge_def startSample_def startBridge_def sampleConfig_def samplePort_def sane_def
      client_inv_def newClient_def NewPort_def relinkEscalateAfter_def Let_def)
  moreover have "out (l2 sampleBridge) = []" by (simp add: sampleBridge_l2 sampleTable_def NewTable_def)
  ultimately show ?thesis by (simp add: bridge_inv_def)
qed

section \<open>Reachable states of the bridge\<close>

text \<open>
  C1.  In every state the daemon can reach from start-up, under any interleaving of received frames,
  client connections, requests and departures, timers, watchdog passes and port failures and
  reconnects: the connection table holds at most 64 connections, each owned by a client that is
  still there or by none; the client list has no duplicates and respects the configured limit; no
  callsign is registered by two clients; a client has at most 8 callsigns, 256 packets in its write
  queue and 256 frames waiting for the loop; a port has at most 64 frames queued; the echo ring
  holds at most 20 frames; and no port has been relinked more than three times without a frame.
\<close>

theorem bridge_invariant:
  assumes "bridge_init s" "bridge_step\<^sup>*\<^sup>* s b"
  shows "length (conns (l2 b)) \<le> 64
    \<and> (\<forall>r c. live (l2 b) r \<longrightarrow> Owner (cell (l2 b) r) = Some c \<longrightarrow> c \<in> set (clients b))
    \<and> distinct (clients b)
    \<and> (cfgMaxClients (cfg b) > 0 \<longrightarrow> int (length (clients b)) \<le> cfgMaxClients (cfg b))
    \<and> (\<forall>c\<in>set (clients b). \<forall>d\<in>set (clients b). c \<noteq> d \<longrightarrow>
          set (registeredCalls (cstore b c)) \<inter> set (registeredCalls (cstore b d)) = {})
    \<and> (\<forall>c. length (registeredCalls (cstore b c)) \<le> 8 \<and> length (writeCh (cstore b c)) \<le> 256
          \<and> length (pending (cstore b c)) \<le> 256)
    \<and> (\<forall>i. length (txCh (kports b i)) \<le> 64)
    \<and> length (sentFrames b) \<le> 20
    \<and> (\<forall>n\<in>set (relinks b). 0 \<le> n \<and> n \<le> 3)"
proof -
  have inv: "bridge_inv b" by (rule bridge_system.reachable_inv [OF assms])
  note i = inv_parts [OF inv]
  have "conns_ok (l2 b)" using i(1) by (simp add: table_inv_def)
  moreover have "length (registeredCalls (cstore b c)) \<le> 8 \<and> length (writeCh (cstore b c)) \<le> 256
      \<and> length (pending (cstore b c)) \<le> 256" for c
    using i(11) [of c] by (simp add: client_inv_def writeChCap_def maxInflight_def)
  ultimately show ?thesis
    using i(3,5,6,7,9)
    by (simp add: conns_ok_def maxConnections_def owners_ok_def calls_ok_def clients_ok_def relinks_ok_def
      relinkEscalateAfter_def sane_def txQueueSize_def echoRingSize_def)
qed

theorem bridge_invariant_witness:
  "length (clients (snd (AddClient (startSample\<lparr>cstore := (cstore startSample)(7 := newClient 5)\<rparr>) 7))) = 1
   \<and> int (length (clients (snd (AddClient (startSample\<lparr>cstore := (cstore startSample)(7 := newClient 5)\<rparr>) 7)))) \<le> 4"
proof -
  let ?b = "snd (AddClient (startSample\<lparr>cstore := (cstore startSample)(7 := newClient 5)\<rparr>) 7)"
  have c: "clients startSample = []" "cfg ?b = sampleConfig" "clients ?b = [7]"
    by (simp_all add: startSample_def startBridge_def AddClient_def Let_def sampleConfig_def)
  then have "bridge_step startSample ?b" by (intro bridge_step.accept) simp
  from bridge_invariant [OF startSample_init r_into_rtranclp [of bridge_step, OF this]] c
  show ?thesis by (auto simp: sampleConfig_def)
qed

section \<open>Isolation of clients\<close>

text \<open>
  C2.  Isolation: whatever frame a client sends, a connection in use that another client owns keeps
  its whole state (it is not closed, sent on, reset or taken over), and in any case no other client's queue,
  registrations or modes change.
\<close>

theorem client_isolation:
  assumes "bridge_inv b"
  shows "(\<forall>q d. live (l2 b) q \<and> State (cell (l2 b) q) \<noteq> Disconnected \<and> Owner (cell (l2 b) q) = Some d \<and> d \<noteq> c \<longrightarrow>
      live (l2 (handleFrame b c hdr data)) q \<and> cell (l2 (handleFrame b c hdr data)) q = cell (l2 b) q)
    \<and> (\<forall>e. e \<noteq> c \<longrightarrow> cstore (handleFrame b c hdr data) e = cstore b e)"
proof -
  have "live (l2 (handleFrame b c hdr data)) q \<and> cell (l2 (handleFrame b c hdr data)) q = cell (l2 b) q" if "foreign b c q" for q
    using handleFrame_spares [OF assms that, of hdr data] that by (simp add: spares_def foreign_def)
  then show ?thesis using handleFrame_apart [OF assms, of c hdr data] by (auto simp: foreign_def apart_def)
qed

definition stealRequest :: Header where
  "stealRequest = \<lparr>hPort = 0, Kind = byte_of_char (CHR ''d''), hPID = 0, CallFrom = ''A'', CallTo = ''B'', DataLen = 0\<rparr>"

theorem client_isolation_witness:
  "State (cell (l2 (handleFrame sampleBridge 2 stealRequest [])) 0) = Connected"
proof -
  have c: "cell (l2 sampleBridge) 0 = (newConn 0 ''A'' ''B'')\<lparr>State := Connected, cModulo := 128, Owner := Some 1\<rparr>"
    by (simp add: sampleBridge_l2 sampleTable_def)
  have "live (l2 sampleBridge) 0" by (simp add: sampleBridge_l2 live_def sampleTable_def)
  then have "cell (l2 (handleFrame sampleBridge 2 stealRequest [])) 0 = cell (l2 sampleBridge) 0"
    using client_isolation [OF sampleBridge_inv, of 2 stealRequest "[]"] c by simp
  then show ?thesis by (simp add: c)
qed

section \<open>Echoes and digipeaters\<close>

text \<open>
  C3.  Echo suppression: after a frame has been sent on a port that is up, hearing it again, as sent or with any
  digipeaters marked as having repeated it, changes nothing at all: no counter, no connection,
  no monitor output.  This holds while no more than nineteen further frames have been sent.
\<close>

theorem echo_suppressed:
  assumes "inRange p (ports b)" "ports b ! nat p = Some i" "online (kports b i)"
    and "length ms < 20" "clearVia g = clearVia f"
  defines "b' \<equiv> foldl (\<lambda>b (p, raw). SendToKISS b p raw) (SendToKISS b p (Bytes f)) ms"
  shows "OnKISSFrame clk ts b' port (Bytes g) = b'"
proof -
  obtain pre where "sentFrames (SendToKISS b p (Bytes f)) = pre @ [normalizeHBits (Bytes f)]"
    using sent_last [OF assms(1-3)] by blast
  then have "normalizeHBits (Bytes f) \<in> set (sentFrames b')"
    unfolding b'_def using assms(4) by (intro ring_remembers [of _ pre _ "[]"]) (simp_all add: echoRingSize_def)
  then have "isEcho b' (normalizeHBits (Bytes g))" by (simp add: isEcho_def normalize_Bytes assms(5))
  then show ?thesis by (simp add: OnKISSFrame_def)
qed

definition sampleUI :: "bool \<Rightarrow> frame" where
  "sampleUI h = \<lparr>Dst = \<lparr>Call = ''B'', SSID = 0, CRH = True\<rparr>, Src = \<lparr>Call = ''A'', SSID = 0, CRH = False\<rparr>,
     Via = [\<lparr>Call = ''R'', SSID = 1, CRH = h\<rparr>], Type = UI, NR = 0, NS = 0, PF = False, Modulo = 0, Command = True,
     PID = 0xF0, Info = [1, 2]\<rparr>"

theorem echo_suppressed_witness:
  "OnKISSFrame 0 '''' (SendToKISS sampleBridge 0 (Bytes (sampleUI False))) 0 (Bytes (sampleUI True))
   = SendToKISS sampleBridge 0 (Bytes (sampleUI False))"
proof -
  have p: "inRange 0 (ports sampleBridge)" "ports sampleBridge ! nat 0 = Some 0" "online (kports sampleBridge 0)"
    by (simp_all add: sampleBridge_def inRange_def)
  from echo_suppressed [OF p, of "[]" "sampleUI True" "sampleUI False"] show ?thesis
    by (simp add: clearVia_def sampleUI_def)
qed

section \<open>Delivery to clients\<close>

text \<open>
  C4.  From the air to the client: let I-frames with elements of the peer's stream arrive on the
  link a client owns, as bytes, in any order, with losses and repetitions, each near enough to tell
  its number apart, none of them an echo.  Then the packets appended to the client's write queue are
  exactly the 'D' frames of the stream from the element the link waits for, in order, each once, up
  to the first that is missing; with go-back-N up to the first that did not arrive in turn, with
  selective reject up to the first not yet received.
\<close>

theorem data_reaches_client:
  assumes "serving b port src dst r c" "list_all2 (\<lambda>a f. heard b port src dst (snd (snd a)) f) as fs"
    and "list_all2 (carries (cModulo (cell (l2 b) r)) stream) fs idxs" "fresh port b as"
    and "if srejEnabled (cell (l2 b) r)
         then MaxWindow (portParams (l2 b) port) = int w \<and> rx_rel stream (cell (l2 b) r) n B \<and> n \<notin> set B
           \<and> srej_range (unat (cModulo (cell (l2 b) r))) w (n, B) idxs \<and> n' = fst (srej_rx w (n, B) idxs)
         else recvSeq (cell (l2 b) r) = num (cModulo (cell (l2 b) r)) n
           \<and> gbn_range (unat (cModulo (cell (l2 b) r))) n idxs \<and> n' = gbn_rx n idxs"
    and "length (writeCh (cstore b c)) + (n' - n) \<le> 256"
  shows "writeCh (cstore (foldl (hear port) b as) c)
    = writeCh (cstore b c) @ map (dataPacket (cell (l2 b) r)) (map stream [n..<n'])"
proof (cases "srejEnabled (cell (l2 b) r)")
  case True
  with assms(5,6) srej.frames_served [where s = "(n, B)", OF assms(1,2) _ refl assms(3) _ assms(4)] show ?thesis
    by (simp add: srej_run srej_rel_def writeChCap_def)
next
  case False
  with assms(5,6) gbn.frames_served [where s = n, OF assms(1,2) _ refl assms(3) _ assms(4)] show ?thesis
    by (simp add: gbn_run gbn_rel_def writeChCap_def)
qed

lemma sampleBridge_serving: "serving sampleBridge 0 ''B'' ''A'' 0 1"
  using sampleBridge_inv sample_get
  by (simp add: serving_def sampleBridge_l2 Get_def)
    (simp add: sampleTable_def sampleBridge_def startSample_def startBridge_def newClient_def Let_def)

definition peerBytes :: bytes where
  "peerBytes = [130, 64, 64, 64, 64, 64, 224, 132, 64, 64, 64, 64, 64, 97, 0, 0, 240, 65]"

definition peerFrame :: frame where
  "peerFrame = \<lparr>Dst = \<lparr>Call = ''A'', SSID = 0, CRH = True\<rparr>, Src = \<lparr>Call = ''B'', SSID = 0, CRH = False\<rparr>, Via = [],
     Type = I, NR = 0, NS = 0, PF = False, Modulo = 128, Command = True, PID = 0xF0, Info = [65]\<rparr>"

lemma peer_parse: "ParseModulo peerBytes 128 = Inr peerFrame"
  by code_simp

lemma peer_parse8: "\<exists>g. Parse peerBytes = Inr g \<and> Type g = I \<and> addr_String (Src g) = ''B'' \<and> addr_String (Dst g) = ''A''"
proof (intro exI conjI)
  show "Parse peerBytes = Inr (peerFrame\<lparr>Modulo := 8, PID := 0, Info := [240, 65]\<rparr>)" by code_simp
qed code_simp+

lemma peer_heard: "heard sampleBridge 0 ''B'' ''A'' peerBytes peerFrame"
proof -
  have "ModuloFor (l2 sampleBridge) 0 ''A'' ''B'' = 128"
    using sampleBridge_serving by (simp add: ModuloFor_def serving_def sampleBridge_l2 sampleTable_def)
  then have "rxParse (l2 sampleBridge) 0 peerBytes = Inr peerFrame"
    using peer_parse peer_parse8 by (auto simp: rxParse_def)
  moreover have "addr_String (Src peerFrame) = ''B''" "addr_String (Dst peerFrame) = ''A''" by code_simp+
  ultimately show ?thesis by (simp add: heard_def peerFrame_def unrepeated_def)
qed

theorem data_reaches_client_witness:
  "length (writeCh (cstore (foldl (hear 0) sampleBridge [(0, '''', peerBytes)]) 1)) = 1"
proof -
  have c: "cModulo (cell (l2 sampleBridge) 0) = 128" "\<not> srejEnabled (cell (l2 sampleBridge) 0)"
    "recvSeq (cell (l2 sampleBridge) 0) = 0" "writeCh (cstore sampleBridge 1) = []" "sentFrames sampleBridge = []"
    by (simp_all add: sampleBridge_l2 sampleTable_def newConn_def)
      (simp_all add: sampleBridge_def startSample_def startBridge_def newClient_def Let_def)
  have "writeCh (cstore (foldl (hear 0) sampleBridge [(0, '''', peerBytes)]) 1)
      = writeCh (cstore sampleBridge 1) @ map (dataPacket (cell (l2 sampleBridge) 0)) (map (\<lambda>i. (0xF0, [65])) [0..<1])"
    using peer_heard c
    by (intro data_reaches_client [where fs = "[peerFrame]" and idxs = "[0]", OF sampleBridge_serving])
      (simp_all add: carries_def peerFrame_def num_def isEcho_def)
  with c show ?thesis by simp
qed

section \<open>Reconnecting ports\<close>

text \<open>
  C5.  Superseded connect attempts: in every reachable state the attempts under way for a port (being
  dialled, being installed, or waiting for the old port to close) have different epochs, none
  newer than the port's; so at most one of them can still be installed, and installing any other
  one closes the port it connected and leaves every slot as it is.
\<close>

theorem stale_connect_discarded:
  assumes "bridge_init s" "bridge_step\<^sup>*\<^sup>* s b"
  shows "distinct (attempts (tasks b)) \<and> (\<forall>(i, e)\<in>set (attempts (tasks b)). e \<le> portEpoch b ! i)
    \<and> (\<forall>i e k n. Install i e k n \<in> set (tasks b) \<longrightarrow> e \<noteq> portEpoch b ! i \<longrightarrow>
          ports (install b i e k n) = ports b \<and> kclosed (kports (install b i e k n) n))"
proof -
  have "attempts_ok (plan b)" using reconnect.reachable_inv [OF assms] by (simp add: reconnect_inv_def)
  then have "distinct (attempts (tasks b)) \<and> (\<forall>(i, e)\<in>set (attempts (tasks b)). e \<le> portEpoch b ! i)"
    by (auto simp: attempts_ok_def plan_def)
  moreover have "ports (install b i e k n) = ports b \<and> kclosed (kports (install b i e k n) n)" if "e \<noteq> portEpoch b ! i" for i e k n
    using that by (simp add: install_def updPort_def Close_def)
  ultimately show ?thesis by blast
qed

theorem stale_connect_discarded_witness: "distinct (attempts (tasks startSample)) \<and> attempts (tasks startSample) = [(0, 1)]"
proof -
  have "tasks startSample = [Dial 0 1 Plain]" using run_start by (simp add: portState_def)
  then show ?thesis using stale_connect_discarded [OF startSample_init rtranclp.rtrancl_refl] by simp
qed

text \<open>
  C37.  The epochs do not exclude every overlap: there is a run that ends with a healthy port, online and
  reading its device, in no slot and known to no task, while another port of the same number is installed.
  The port failed, was reconnected by hand before the function its failure had posted ran, and
  that function armed a timer with the new epoch, which later replaced the port that was already back.
\<close>

theorem healthy_port_orphaned:
  "\<exists>s b n. bridge_init s \<and> bridge_step\<^sup>*\<^sup>* s b \<and> tasks b = [] \<and> orphaned b n \<and> kNum (kports b n) = 0 \<and> PortOnline b 0"
  using startSample_init orphan_run by blast

end
