(* ===== verification/Rig.thy ===== *)
theory Rig
  imports Benshi_Records
begin

text \<open>
  Rig control (\<^verbatim>\<open>src/internal/rig/rig.go\<close>, \<^verbatim>\<open>session.go\<close>): one request and its reply at a time, tuning with
  the guards that protect memory channels, and the session that puts a radio into packet
  configuration and back.

  The link and the radio behind it are the parameter \<open>env\<close>: in a state of its own it says how the
  exchange of one command ends.  Everything else is the code's.
\<close>

section \<open>Errors and state\<close>

datatype rig_error =
    ErrTimeout
  | ErrClosed
  | ErrDualWatch
  | ErrChannelMode byte
  | ErrNoVFOChannel
  | ErrNotBenshi
  | WriteErr
  | Unencodable
  | Rejected u16 byte
  | RejectedWrite byte
  | BenshiErr benshi_error
  | Join "rig_error list"

record session =
  held :: bool
  origDoubleChannel :: u8
  setDoubleChannel :: bool
  origChannelA :: byte
  wantChannelA :: byte
  setChannelA :: bool
  origAPRS :: bool
  setAPRS :: bool

definition noSession :: session where
  "noSession = \<lparr>held = False, origDoubleChannel = 0, setDoubleChannel = False, origChannelA = 0, wantChannelA = 0,
     setChannelA = False, origAPRS = False, setAPRS = False\<rparr>"

record rig =
  vfoMin :: int
  origRec :: RFCh
  origOK :: bool
  sess :: session
  ident :: DevInfo
  identOK :: bool
  rclosed :: bool

definition DefaultVFOChannelMin :: int where
  "DefaultVFOChannelMin = 251"

definition newRig :: "int \<Rightarrow> rig" where
  "newRig vfoChannelMin =
     \<lparr>vfoMin = (if vfoChannelMin \<le> 0 then DefaultVFOChannelMin else vfoChannelMin), origRec = \<lparr>rfRaw = []\<rparr>, origOK = False,
      sess = noSession, ident = \<lparr>VendorID = 0, ProductID = 0, HWVer = 0, SoftVer = 0\<rparr>, identOK = False, rclosed = False\<rparr>"

definition CmdGetDevInfo :: u16 where "CmdGetDevInfo = 4"
definition CmdEventNotification :: u16 where "CmdEventNotification = 9"
definition CmdReadSettings :: u16 where "CmdReadSettings = 10"
definition CmdWriteSettings :: u16 where "CmdWriteSettings = 11"
definition CmdReadRFCh :: u16 where "CmdReadRFCh = 13"
definition CmdWriteRFCh :: u16 where "CmdWriteRFCh = 14"
definition CmdGetHTStatus :: u16 where "CmdGetHTStatus = 20"
definition CmdReadBSSSettings :: u16 where "CmdReadBSSSettings = 33"
definition CmdWriteBSSSettings :: u16 where "CmdWriteBSSSettings = 34"
definition CmdDoProgFunc :: u16 where "CmdDoProgFunc = 66"

lemmas cmd_defs = CmdGetDevInfo_def CmdEventNotification_def CmdReadSettings_def CmdWriteSettings_def CmdReadRFCh_def
  CmdWriteRFCh_def CmdGetHTStatus_def CmdReadBSSSettings_def CmdWriteBSSSettings_def CmdDoProgFunc_def

section \<open>Requests\<close>

text \<open>
  How an exchange ends: the write fails or does not return in time, the reply arrives, it does not
  arrive in time (the quiet period included), or the rig is closed meanwhile.
\<close>

datatype exchange = WriteFails | WriteTimesOut | Replied bytes | ReplyTimesOut | ClosedMeanwhile

type_synonym 'e env = "'e \<Rightarrow> u16 \<Rightarrow> bytes \<Rightarrow> 'e \<times> exchange"

type_synonym ('e, 'a) act = "'e \<times> rig \<Rightarrow> ('e \<times> rig) \<times> (rig_error + 'a)"

definition ret :: "'a \<Rightarrow> ('e, 'a) act" where
  "ret x s = (s, Inr x)"

definition throw :: "rig_error \<Rightarrow> ('e, 'a) act" where
  "throw e s = (s, Inl e)"

definition bindR :: "('e, 'a) act \<Rightarrow> ('a \<Rightarrow> ('e, 'b) act) \<Rightarrow> ('e, 'b) act" where
  "bindR m f s = (case m s of (s, Inl e) \<Rightarrow> (s, Inl e) | (s, Inr x) \<Rightarrow> f x s)"

definition readRig :: "(rig \<Rightarrow> 'a) \<Rightarrow> ('e, 'a) act" where
  "readRig f s = (s, Inr (f (snd s)))"

definition modRig :: "(rig \<Rightarrow> rig) \<Rightarrow> ('e, unit) act" where
  "modRig f s = ((fst s, f (snd s)), Inr ())"

definition fromSum :: "benshi_error + 'a \<Rightarrow> ('e, 'a) act" where
  "fromSum x = (case x of Inl e \<Rightarrow> throw (BenshiErr e) | Inr v \<Rightarrow> ret v)"

text \<open>The error as a value: what \<open>err := f()\<close> leaves in \<open>err\<close>.\<close>

definition attemptR :: "('e, 'a) act \<Rightarrow> ('e, rig_error + 'a) act" where
  "attemptR m s = (case m s of (s, x) \<Rightarrow> (s, Inr x))"

definition requestBytes :: "u16 \<Rightarrow> bytes \<Rightarrow> bytes" where
  "requestBytes cmd body =
     Frame_Bytes \<lparr>Flags = 0, Data = Message_Bytes \<lparr>Group = 2, IsReply = False, bCommand = cmd, Body = body\<rparr>\<rparr>"

definition request :: "'e env \<Rightarrow> u16 \<Rightarrow> bytes \<Rightarrow> ('e, bytes) act" where
  "request env cmd body s =
     (case s of (e, r) \<Rightarrow>
        if rclosed r then ((e, r), Inl ErrClosed)
        else if requestBytes cmd body = [] then ((e, r), Inl Unencodable)
        else (case env e cmd body of (e, x) \<Rightarrow>
               (case x of
                  WriteFails \<Rightarrow> ((e, r), Inl WriteErr)
                | WriteTimesOut \<Rightarrow> ((e, r\<lparr>rclosed := True\<rparr>), Inl ErrTimeout)
                | Replied b \<Rightarrow> ((e, r), Inr b)
                | ReplyTimesOut \<Rightarrow> ((e, r), Inl ErrTimeout)
                | ClosedMeanwhile \<Rightarrow> ((e, r\<lparr>rclosed := True\<rparr>), Inl ErrClosed))))"

text \<open>A reply's status byte, 255 when there is none.\<close>

definition status :: "bytes \<Rightarrow> byte" where
  "status body = (case body of [] \<Rightarrow> 255 | st # _ \<Rightarrow> st)"

section \<open>Records\<close>

definition readSettings :: "'e env \<Rightarrow> ('e, SettingsRec) act" where
  "readSettings env = bindR (request env CmdReadSettings []) (\<lambda>body. fromSum (ParseSettingsRec body))"

definition writeSettings :: "'e env \<Rightarrow> SettingsRec \<Rightarrow> ('e, unit) act" where
  "writeSettings env rec =
     bindR (request env CmdWriteSettings (SettingsRec_Bytes rec))
       (\<lambda>body. if body = [] \<or> hd body \<noteq> 0 then throw (Rejected CmdWriteSettings (status body)) else ret ())"

definition readBSS :: "'e env \<Rightarrow> ('e, BSSRec) act" where
  "readBSS env = bindR (request env CmdReadBSSSettings []) (\<lambda>body. fromSum (ParseBSSRec body))"

definition writeBSS :: "'e env \<Rightarrow> BSSRec \<Rightarrow> ('e, unit) act" where
  "writeBSS env rec =
     bindR (request env CmdWriteBSSSettings (BSSRec_Bytes rec))
       (\<lambda>body. if body = [] \<or> hd body \<noteq> 0 then throw (Rejected CmdWriteBSSSettings (status body)) else ret ())"

definition readChannel :: "'e env \<Rightarrow> byte \<Rightarrow> ('e, RFCh) act" where
  "readChannel env cid =
     bindR (request env CmdReadRFCh [cid])
       (\<lambda>body. if body = [] \<or> hd body \<noteq> 0 then throw (Rejected CmdReadRFCh (status body)) else fromSum (ParseRFCh (tl body)))"

section \<open>Tuning\<close>

definition activeChannel :: "'e env \<Rightarrow> ('e, RFCh) act" where
  "activeChannel env =
     bindR (request env CmdReadSettings [])
       (\<lambda>sb. bindR (fromSum (DecodeSettings sb))
          (\<lambda>st. case ActiveChannel st of (cid, ok) \<Rightarrow> if \<not> ok then throw ErrDualWatch else readChannel env cid))"

definition rememberOriginal :: "RFCh \<Rightarrow> ('e, unit) act" where
  "rememberOriginal ch = modRig (\<lambda>r. if \<not> origOK r then r\<lparr>origRec := ch, origOK := True\<rparr> else r)"

definition writeChannel :: "'e env \<Rightarrow> RFCh \<Rightarrow> RFCh \<Rightarrow> ('e, unit) act" where
  "writeChannel env ch rec =
     bindR (request env CmdWriteRFCh (RFCh_Bytes rec))
       (\<lambda>body. if body = [] \<or> hd body \<noteq> 0 then throw (RejectedWrite (RFCh_ID ch)) else ret ())"

definition SetFreq :: "'e env \<Rightarrow> u32 \<Rightarrow> ('e, unit) act" where
  "SetFreq env hz =
     bindR (activeChannel env)
       (\<lambda>ch. bindR (readRig vfoMin)
          (\<lambda>floor.
             if RFCh_Name ch \<noteq> '''' then throw (ErrChannelMode (RFCh_ID ch))
             else if uint (RFCh_ID ch) < floor then throw (ErrChannelMode (RFCh_ID ch))
             else if TXFreqHz ch \<noteq> RXFreqHz ch then throw (ErrChannelMode (RFCh_ID ch))
             else bindR (rememberOriginal ch) (\<lambda>_. writeChannel env ch (WithFreq ch hz))))"

definition GetFreq :: "'e env \<Rightarrow> ('e, u32) act" where
  "GetFreq env = bindR (activeChannel env) (\<lambda>ch. ret (RXFreqHz ch))"

definition Teardown :: "'e env \<Rightarrow> ('e, bool) act" where
  "Teardown env =
     bindR (readRig (\<lambda>r. (origRec r, origOK r)))
       (\<lambda>(orig, ok).
          if \<not> ok then ret False
          else bindR (writeChannel env orig orig) (\<lambda>_. bindR (modRig (\<lambda>r. r\<lparr>origOK := False\<rparr>)) (\<lambda>_. ret True)))"

section \<open>Keying and identification\<close>

definition PFEffectMainPTT :: byte where "PFEffectMainPTT = 13"
definition pfActionLowToHigh :: byte where "pfActionLowToHigh = 0x06"
definition pfActionHighToLow :: byte where "pfActionHighToLow = 0x07"
definition htStatusTXBit :: byte where "htStatusTXBit = 0x40"

definition SetPTT :: "'e env \<Rightarrow> bool \<Rightarrow> ('e, unit) act" where
  "SetPTT env on =
     bindR (request env CmdDoProgFunc [if on then pfActionLowToHigh else pfActionHighToLow, PFEffectMainPTT])
       (\<lambda>body. case body of
                  [] \<Rightarrow> throw (BenshiErr ShortBody)
                | st # _ \<Rightarrow> if st \<noteq> 0 then throw (Rejected CmdDoProgFunc st) else ret ())"

definition GetPTT :: "'e env \<Rightarrow> ('e, bool) act" where
  "GetPTT env =
     bindR (request env CmdGetHTStatus [])
       (\<lambda>body. if length body < 2 then throw (BenshiErr ShortBody)
               else if body ! 0 \<noteq> 0 then throw (Rejected CmdGetHTStatus (body ! 0))
               else ret (body ! 1 AND htStatusTXBit \<noteq> 0))"

definition Probe :: "'e env \<Rightarrow> ('e, DevInfo) act" where
  "Probe env = bindR (request env CmdGetDevInfo [0x03]) (\<lambda>body. fromSum (DecodeDevInfo body))"

definition Identify :: "'e env \<Rightarrow> ('e, DevInfo) act" where
  "Identify env =
     bindR (readRig (\<lambda>r. (identOK r, ident r)))
       (\<lambda>(ok, d).
          if ok then ret d
          else bindR (attemptR (Probe env))
                 (\<lambda>x. case x of
                         Inl _ \<Rightarrow> throw ErrNotBenshi
                       | Inr d \<Rightarrow> bindR (modRig (\<lambda>r. r\<lparr>ident := d, identOK := True\<rparr>)) (\<lambda>_. ret d)))"

section \<open>Sessions\<close>

definition channelIsTunable :: "'e env \<Rightarrow> byte \<Rightarrow> ('e, bool) act" where
  "channelIsTunable env cid =
     bindR (readChannel env cid)
       (\<lambda>ch. bindR (readRig vfoMin)
          (\<lambda>floor. ret (RFCh_Name ch = '''' \<and> uint (RFCh_ID ch) \<ge> floor \<and> TXFreqHz ch = RXFreqHz ch)))"

fun isRejected :: "rig_error \<Rightarrow> bool" where
  "isRejected (Rejected _ _) = True"
| "isRejected (BenshiErr (RadioRejected _ _)) = True"
| "isRejected (Join es) = list_ex isRejected es"
| "isRejected _ = False"

fun findLoop :: "'e env \<Rightarrow> byte \<Rightarrow> byte option \<Rightarrow> int list \<Rightarrow> ('e, byte) act" where
  "findLoop env excludeB fallback [] = (case fallback of Some f \<Rightarrow> ret f | None \<Rightarrow> throw ErrNoVFOChannel)"
| "findLoop env excludeB fallback (i # is) =
     (if word_of_int i = excludeB then findLoop env excludeB fallback is
      else bindR (attemptR (readChannel env (word_of_int i)))
             (\<lambda>x. case x of
                     Inl e \<Rightarrow> if isRejected e then findLoop env excludeB fallback is else throw e
                   | Inr ch \<Rightarrow>
                       if RFCh_Name ch \<noteq> '''' \<or> TXFreqHz ch \<noteq> RXFreqHz ch then findLoop env excludeB fallback is
                       else if RXFreqHz ch \<noteq> 0 then ret (word_of_int i)
                       else findLoop env excludeB (case fallback of None \<Rightarrow> Some (word_of_int i) | Some f \<Rightarrow> Some f) is))"

definition findVFOChannel :: "'e env \<Rightarrow> byte \<Rightarrow> ('e, byte) act" where
  "findVFOChannel env excludeB = bindR (readRig vfoMin) (\<lambda>floor. findLoop env excludeB None [floor..255])"

definition restoreSettings :: "'e env \<Rightarrow> session \<Rightarrow> ('e, unit) act" where
  "restoreSettings env s =
     (if \<not> setDoubleChannel s \<and> \<not> setChannelA s then ret ()
      else bindR (readSettings env)
             (\<lambda>cur. let st = SettingsRec_Settings cur;
                        want = (if setDoubleChannel s \<and> DoubleChannel st = 0 then WithDoubleChannel cur (origDoubleChannel s) else cur);
                        want = (if setChannelA s \<and> ChannelA st = wantChannelA s then WithChannelA want (origChannelA s) else want)
                    in if SettingsRec_Equal want cur then ret () else writeSettings env want))"

definition restoreBSS :: "'e env \<Rightarrow> session \<Rightarrow> ('e, unit) act" where
  "restoreBSS env s =
     (if \<not> setAPRS s then ret ()
      else bindR (readBSS env)
             (\<lambda>cur. if APRSEnabled cur then ret () else writeBSS env (WithAPRSEnabled cur (origAPRS s))))"

fun errsOf :: "(rig_error + 'a) list \<Rightarrow> rig_error list" where
  "errsOf [] = []"
| "errsOf (Inl e # xs) = e # errsOf xs"
| "errsOf (Inr _ # xs) = errsOf xs"

definition joinErrs :: "rig_error list \<Rightarrow> ('e, unit) act" where
  "joinErrs es = (if es = [] then ret () else throw (Join es))"

definition ReleaseSession :: "'e env \<Rightarrow> ('e, unit) act" where
  "ReleaseSession env =
     bindR (readRig sess)
       (\<lambda>s. bindR (attemptR (bindR (Teardown env) (\<lambda>_. ret ())))
          (\<lambda>td. if held s
                then bindR (attemptR (restoreSettings env s))
                       (\<lambda>rs. bindR (attemptR (restoreBSS env s))
                          (\<lambda>rb. bindR (modRig (\<lambda>r. r\<lparr>sess := noSession\<rparr>)) (\<lambda>_. joinErrs (errsOf [td, rs, rb]))))
                else joinErrs (errsOf [td])))"

text \<open>A session that could not be completed is released and its own error is reported first.\<close>

definition rollback :: "'e env \<Rightarrow> session \<Rightarrow> rig_error \<Rightarrow> ('e, unit) act" where
  "rollback env s e =
     bindR (modRig (\<lambda>r. r\<lparr>sess := s\<lparr>held := True\<rparr>\<rparr>))
       (\<lambda>_. bindR (attemptR (ReleaseSession env)) (\<lambda>x. throw (Join (e # errsOf [x]))))"

definition acquireBSS :: "'e env \<Rightarrow> session \<Rightarrow> ('e, unit) act" where
  "acquireBSS env s =
     bindR (attemptR (readBSS env))
       (\<lambda>x. case x of
               Inl e \<Rightarrow> rollback env s e
             | Inr bss \<Rightarrow>
                 if APRSEnabled bss
                 then (let s = s\<lparr>origAPRS := True, setAPRS := True\<rparr>
                       in bindR (attemptR (writeBSS env (WithAPRSEnabled bss False)))
                            (\<lambda>y. case y of
                                    Inl e \<Rightarrow> rollback env s e
                                  | Inr _ \<Rightarrow> modRig (\<lambda>r. r\<lparr>sess := s\<lparr>held := True\<rparr>\<rparr>)))
                 else modRig (\<lambda>r. r\<lparr>sess := s\<lparr>held := True\<rparr>\<rparr>))"

definition AcquireSession :: "'e env \<Rightarrow> ('e, unit) act" where
  "AcquireSession env =
     bindR (readRig sess)
       (\<lambda>cur. if held cur then ret ()
         else bindR (readSettings env)
           (\<lambda>rec. let st = SettingsRec_Settings rec;
                      s = (if DoubleChannel st \<noteq> 0
                           then noSession\<lparr>origDoubleChannel := DoubleChannel st, setDoubleChannel := True\<rparr> else noSession);
                      want = (if DoubleChannel st \<noteq> 0 then WithDoubleChannel rec 0 else rec)
                  in bindR (channelIsTunable env (ChannelA st))
                       (\<lambda>usable.
                          bindR (if usable then ret (s, want)
                                 else bindR (findVFOChannel env (ChannelB st))
                                        (\<lambda>vfo. ret (s\<lparr>origChannelA := ChannelA st, wantChannelA := vfo, setChannelA := True\<rparr>,
                                                    WithChannelA want vfo)))
                            (\<lambda>(s, want).
                               bindR (if SettingsRec_Equal want rec then ret () else writeSettings env want)
                                 (\<lambda>_. acquireBSS env s)))))"

section \<open>Handing a session over\<close>

record SessionState =
  ssSess :: session
  ssOrig :: RFCh
  ssOrigOK :: bool

definition SessionState_Held :: "SessionState \<Rightarrow> bool" where
  "SessionState_Held s \<longleftrightarrow> held (ssSess s) \<or> ssOrigOK s"

definition Rig_SessionState :: "rig \<Rightarrow> SessionState" where
  "Rig_SessionState r = \<lparr>ssSess = sess r, ssOrig = origRec r, ssOrigOK = origOK r\<rparr>"

definition AdoptSession :: "rig \<Rightarrow> SessionState \<Rightarrow> rig" where
  "AdoptSession r s =
     (if \<not> SessionState_Held s then r
      else if held (sess r) \<or> origOK r then r
      else r\<lparr>sess := ssSess s, origRec := ssOrig s, origOK := ssOrigOK s\<rparr>)"

section \<open>Snapshots\<close>

record RigSnapshot =
  snChannelA :: byte
  snDoubleChannel :: u8
  snAPRS :: bool

definition SessionSnapshot :: "'e env \<Rightarrow> ('e, RigSnapshot) act" where
  "SessionSnapshot env =
     bindR (readSettings env)
       (\<lambda>rec. bindR (readBSS env)
          (\<lambda>bss. ret \<lparr>snChannelA = ChannelA (SettingsRec_Settings rec), snDoubleChannel = DoubleChannel (SettingsRec_Settings rec),
                      snAPRS = APRSEnabled bss\<rparr>))"

definition ApplySnapshot :: "'e env \<Rightarrow> RigSnapshot \<Rightarrow> ('e, unit) act" where
  "ApplySnapshot env s =
     bindR (readSettings env)
       (\<lambda>rec. let want = WithDoubleChannel (WithChannelA rec (snChannelA s)) (snDoubleChannel s)
              in bindR (if SettingsRec_Equal want rec then ret () else writeSettings env want)
                   (\<lambda>_. bindR (readBSS env)
                      (\<lambda>bss. if APRSEnabled bss \<noteq> snAPRS s then writeBSS env (WithAPRSEnabled bss (snAPRS s)) else ret ())))"

end
