(* ===== verification/Rig_Radio.thy ===== *)
theory Rig_Radio
  imports Rig
begin

text \<open>
  The radio behind the link: its settings, beacon and channel records, and how it answers the
  commands that read and write them.  The locale states that contract of a link and radio in a
  state of their own; what the rig code does on such a radio is what it does on the records.
\<close>

section \<open>Records of a radio\<close>

record radioMem =
  mSettings :: bytes
  mBss :: bytes
  mChan :: "byte \<Rightarrow> bytes option"

definition memRadio :: "radioMem env" where
  "memRadio m cmd body =
     (if cmd = CmdReadSettings then (m, Replied (0 # mSettings m))
      else if cmd = CmdWriteSettings then (m\<lparr>mSettings := body\<rparr>, Replied [0])
      else if cmd = CmdReadBSSSettings then (m, Replied (0 # mBss m))
      else if cmd = CmdWriteBSSSettings then (m\<lparr>mBss := body\<rparr>, Replied [0])
      else if cmd = CmdReadRFCh then
        (m, Replied (case body of [] \<Rightarrow> [1] | i # _ \<Rightarrow> (case mChan m i of None \<Rightarrow> [1] | Some raw \<Rightarrow> 0 # raw)))
      else if cmd = CmdWriteRFCh then
        (case body of [] \<Rightarrow> (m, Replied [1]) | i # _ \<Rightarrow> (m\<lparr>mChan := (mChan m)(i \<mapsto> body)\<rparr>, Replied [0]))
      else (m, Replied [5]))"

definition sessionCmd :: "u16 \<Rightarrow> bool" where
  "sessionCmd cmd \<longleftrightarrow> cmd \<in> {CmdReadSettings, CmdWriteSettings, CmdReadBSSSettings, CmdWriteBSSSettings, CmdReadRFCh, CmdWriteRFCh}"

locale radio_link =
  fixes env :: "'e env"
    and mem :: "'e \<Rightarrow> radioMem"
  assumes answer: "sessionCmd cmd \<Longrightarrow> snd (env e cmd body) = snd (memRadio (mem e) cmd body)"
    and effect: "sessionCmd cmd \<Longrightarrow> mem (fst (env e cmd body)) = fst (memRadio (mem e) cmd body)"

interpretation plain_radio: radio_link memRadio id
  by unfold_locales simp_all

section \<open>Projection to the records\<close>

definition projects :: "('e \<Rightarrow> radioMem) \<Rightarrow> ('e, 'a) act \<Rightarrow> (radioMem, 'a) act \<Rightarrow> bool" where
  "projects mem m m' \<longleftrightarrow> (\<forall>e r. m' (mem e, r) = (case m (e, r) of ((e', r'), x) \<Rightarrow> ((mem e', r'), x)))"

named_theorems project_intros \<open>actions that depend on the radio through its records only\<close>

lemma projects_base [project_intros]:
  "projects mem (ret x) (ret x)" "projects mem (throw err) (throw err)" "projects mem (readRig f) (readRig f)"
  "projects mem (modRig g) (modRig g)" "projects mem (fromSum y) (fromSum y)" "projects mem (joinErrs es) (joinErrs es)"
  by (simp_all add: projects_def ret_def throw_def readRig_def modRig_def fromSum_def joinErrs_def split: sum.split)

lemma projects_bindR [project_intros]:
  assumes "projects mem m m'" "\<And>x. projects mem (f x) (f' x)"
  shows "projects mem (bindR m f) (bindR m' f')"
  unfolding projects_def
proof (intro allI)
  fix e r
  obtain e1 r1 x where m: "m (e, r) = ((e1, r1), x)" by (metis surj_pair)
  then have "m' (mem e, r) = ((mem e1, r1), x)" using assms(1) by (simp add: projects_def)
  with m assms(2) show "bindR m' f' (mem e, r) = (case bindR m f (e, r) of ((e', r'), x) \<Rightarrow> ((mem e', r'), x))"
    by (cases x) (simp_all add: bindR_def projects_def)
qed

lemma projects_attemptR [project_intros]: "projects mem m m' \<Longrightarrow> projects mem (attemptR m) (attemptR m')"
  by (auto simp: projects_def attemptR_def split: prod.split)

lemma projects_if [project_intros]:
  "(b \<Longrightarrow> projects mem m m') \<Longrightarrow> (\<not> b \<Longrightarrow> projects mem n n') \<Longrightarrow> projects mem (if b then m else n) (if b then m' else n')"
  by simp

lemma projects_case [project_intros]:
  "(\<And>e. projects mem (f e) (f' e)) \<Longrightarrow> (\<And>v. projects mem (g v) (g' v)) \<Longrightarrow>
     projects mem (case x of Inl e \<Rightarrow> f e | Inr v \<Rightarrow> g v) (case x of Inl e \<Rightarrow> f' e | Inr v \<Rightarrow> g' v)"
  "(\<And>a b. projects mem (h a b) (h' a b)) \<Longrightarrow> projects mem (case p of (a, b) \<Rightarrow> h a b) (case p of (a, b) \<Rightarrow> h' a b)"
  by (simp_all split: sum.split prod.split)

lemma sessionCmds [simp]:
  "sessionCmd CmdReadSettings" "sessionCmd CmdWriteSettings" "sessionCmd CmdReadBSSSettings" "sessionCmd CmdWriteBSSSettings"
  "sessionCmd CmdReadRFCh" "sessionCmd CmdWriteRFCh"
  by (simp_all add: sessionCmd_def)

context radio_link
begin

lemma projects_request: "sessionCmd cmd \<Longrightarrow> projects mem (request env cmd body) (request memRadio cmd body)"
  unfolding projects_def
proof (intro allI)
  fix e r assume c: "sessionCmd cmd"
  obtain e1 x where x: "env e cmd body = (e1, x)" by fastforce
  then have "memRadio (mem e) cmd body = (mem e1, x)" using answer [OF c, of e body] effect [OF c, of e body] by (simp add: prod_eq_iff)
  with x show "request memRadio cmd body (mem e, r) = (case request env cmd body (e, r) of ((e', r'), x) \<Rightarrow> ((mem e', r'), x))"
    by (simp add: request_def split: exchange.split)
qed

lemma projects_records:
  "projects mem (readSettings env) (readSettings memRadio)" "projects mem (writeSettings env rec) (writeSettings memRadio rec)"
  "projects mem (readBSS env) (readBSS memRadio)" "projects mem (writeBSS env bss) (writeBSS memRadio bss)"
  "projects mem (readChannel env cid) (readChannel memRadio cid)" "projects mem (writeChannel env c ch) (writeChannel memRadio c ch)"
  unfolding readSettings_def writeSettings_def readBSS_def writeBSS_def readChannel_def writeChannel_def
  by (intro project_intros projects_request; simp)+

lemma projects_tuning:
  "projects mem (SetFreq env hz) (SetFreq memRadio hz)" "projects mem (Teardown env) (Teardown memRadio)"
proof -
  have "projects mem (activeChannel env) (activeChannel memRadio)"
    unfolding activeChannel_def by (intro project_intros projects_request projects_records) simp
  then show "projects mem (SetFreq env hz) (SetFreq memRadio hz)"
    unfolding SetFreq_def rememberOriginal_def by (intro project_intros projects_records)
  show "projects mem (Teardown env) (Teardown memRadio)"
    unfolding Teardown_def by (intro project_intros projects_records)
qed

lemma projects_release: "projects mem (ReleaseSession env) (ReleaseSession memRadio)"
proof -
  have "projects mem (restoreSettings env s) (restoreSettings memRadio s)" "projects mem (restoreBSS env s) (restoreBSS memRadio s)" for s
    unfolding restoreSettings_def restoreBSS_def Let_def by (intro project_intros projects_records)+
  then show ?thesis unfolding ReleaseSession_def by (intro project_intros projects_tuning)
qed

lemma projects_acquire: "projects mem (AcquireSession env) (AcquireSession memRadio)"
proof -
  have "projects mem (findLoop env b f is) (findLoop memRadio b f is)" for b f "is"
  proof (induction "is" arbitrary: f)
    case Nil
    show ?case by (cases f) (simp_all add: projects_base)
  next
    case (Cons i "is")
    show ?case unfolding findLoop.simps by (intro project_intros projects_records Cons.IH)
  qed
  then have f: "projects mem (findVFOChannel env b) (findVFOChannel memRadio b)" for b
    unfolding findVFOChannel_def by (intro project_intros)
  have t: "projects mem (channelIsTunable env c) (channelIsTunable memRadio c)" for c
    unfolding channelIsTunable_def by (intro project_intros projects_records)
  have "projects mem (rollback env s err) (rollback memRadio s err)" for s err
    unfolding rollback_def by (intro project_intros projects_release)
  then have "projects mem (acquireBSS env s) (acquireBSS memRadio s)" for s
    unfolding acquireBSS_def Let_def by (intro project_intros projects_records)
  then show ?thesis unfolding AcquireSession_def Let_def by (intro project_intros projects_records f t)
qed

lemma project_run:
  assumes "projects mem m m'" "m (e, r) = ((e', r'), x)"
  shows "m' (mem e, r) = ((mem e', r'), x)"
  using assms by (simp add: projects_def)

end

section \<open>Running on the records\<close>

definition mem_ok :: "radioMem \<Rightarrow> bool" where
  "mem_ok m \<longleftrightarrow> settingsMinLen \<le> length (mSettings m) \<and> length (mSettings m) \<le> 255
     \<and> bssMinLen \<le> length (mBss m) \<and> length (mBss m) \<le> 255
     \<and> (\<forall>i raw. mChan m i = Some raw \<longrightarrow> RFChLen \<le> length raw \<and> length raw \<le> 255 \<and> hd raw = i)"

lemma mem_ok_chan: "mem_ok m \<Longrightarrow> mChan m i = Some raw \<Longrightarrow> RFChLen \<le> length raw \<and> length raw \<le> 255 \<and> hd raw = i"
  by (simp add: mem_ok_def)

lemma requestBytes_encodable: "length body \<le> 255 \<Longrightarrow> requestBytes cmd body \<noteq> []"
  by (simp add: requestBytes_def Frame_Bytes_def Message_Bytes_def bePut16_def Let_def msgHeaderLen_def maxFrameData_def)

lemma run_bindR: "m s = (s', Inr x) \<Longrightarrow> bindR m f s = f x s'" "m s = (s', Inl e) \<Longrightarrow> bindR m f s = (s', Inl e)"
  by (simp_all add: bindR_def)

lemma run_basic [simp]:
  "ret x s = (s, Inr x)" "throw e s = (s, Inl e)" "readRig f s = (s, Inr (f (snd s)))" "modRig g s = ((fst s, g (snd s)), Inr ())"
  by (simp_all add: ret_def throw_def readRig_def modRig_def)

lemma run_request:
  "\<not> rclosed r \<Longrightarrow> length body \<le> 255 \<Longrightarrow> memRadio m cmd body = (m', Replied b) \<Longrightarrow>
     request memRadio cmd body (m, r) = ((m', r), Inr b)"
  by (simp add: request_def requestBytes_encodable)

lemma run_readSettings:
  assumes "\<not> rclosed r" "mem_ok m"
  shows "readSettings memRadio (m, r) = ((m, r), Inr \<lparr>srRaw = mSettings m\<rparr>)"
proof -
  have "request memRadio CmdReadSettings [] (m, r) = ((m, r), Inr (0 # mSettings m))"
    using assms(1) by (intro run_request) (simp_all add: memRadio_def)
  then show ?thesis
    using assms(2) by (simp add: readSettings_def bindR_def fromSum_def ParseSettingsRec_def DecodeSettings_def mem_ok_def)
qed

lemma run_writeSettings:
  assumes "\<not> rclosed r" "length raw \<le> 255"
  shows "writeSettings memRadio \<lparr>srRaw = raw\<rparr> (m, r) = ((m\<lparr>mSettings := raw\<rparr>, r), Inr ())"
proof -
  have "request memRadio CmdWriteSettings raw (m, r) = ((m\<lparr>mSettings := raw\<rparr>, r), Inr [0])"
    using assms by (intro run_request) (simp_all add: memRadio_def cmd_defs)
  then show ?thesis by (simp add: writeSettings_def bindR_def SettingsRec_Bytes_def)
qed

lemma run_readBSS:
  assumes "\<not> rclosed r" "mem_ok m"
  shows "readBSS memRadio (m, r) = ((m, r), Inr \<lparr>bssRaw = mBss m\<rparr>)"
proof -
  have "request memRadio CmdReadBSSSettings [] (m, r) = ((m, r), Inr (0 # mBss m))"
    using assms(1) by (intro run_request) (simp_all add: memRadio_def cmd_defs)
  then show ?thesis using assms(2) by (simp add: readBSS_def bindR_def fromSum_def ParseBSSRec_def mem_ok_def)
qed

lemma run_writeBSS:
  assumes "\<not> rclosed r" "length raw \<le> 255"
  shows "writeBSS memRadio \<lparr>bssRaw = raw\<rparr> (m, r) = ((m\<lparr>mBss := raw\<rparr>, r), Inr ())"
proof -
  have "request memRadio CmdWriteBSSSettings raw (m, r) = ((m\<lparr>mBss := raw\<rparr>, r), Inr [0])"
    using assms by (intro run_request) (simp_all add: memRadio_def cmd_defs)
  then show ?thesis by (simp add: writeBSS_def bindR_def BSSRec_Bytes_def)
qed

lemma run_readChannel:
  assumes "\<not> rclosed r" "mem_ok m"
  shows "readChannel memRadio i (m, r) =
    ((m, r), case mChan m i of None \<Rightarrow> Inl (Rejected CmdReadRFCh 1) | Some raw \<Rightarrow> Inr \<lparr>rfRaw = raw\<rparr>)"
proof -
  have "request memRadio CmdReadRFCh [i] (m, r) = ((m, r), Inr (case mChan m i of None \<Rightarrow> [1] | Some raw \<Rightarrow> 0 # raw))"
    using assms(1) by (intro run_request) (simp_all add: memRadio_def cmd_defs)
  then show ?thesis
    using mem_ok_chan [OF assms(2), of i]
    by (cases "mChan m i") (simp_all add: readChannel_def bindR_def fromSum_def ParseRFCh_def status_def)
qed

lemma run_writeChannel:
  assumes "\<not> rclosed r" "length raw \<le> 255" "raw \<noteq> []"
  shows "writeChannel memRadio c \<lparr>rfRaw = raw\<rparr> (m, r) = ((m\<lparr>mChan := (mChan m)(hd raw \<mapsto> raw)\<rparr>, r), Inr ())"
proof -
  have "request memRadio CmdWriteRFCh raw (m, r) = ((m\<lparr>mChan := (mChan m)(hd raw \<mapsto> raw)\<rparr>, r), Inr [0])"
    using assms by (intro run_request) (auto simp: memRadio_def cmd_defs neq_Nil_conv)
  then show ?thesis by (simp add: writeChannel_def bindR_def RFCh_Bytes_def)
qed

lemmas run_simps = run_readSettings run_writeSettings run_readBSS run_writeBSS run_readChannel run_writeChannel

end
