(* ===== verification/Rig_Session.thy ===== *)
theory Rig_Session
  imports Rig_Radio
begin

text \<open>
  A packet session on a radio: what acquiring it displaces, what tuning displaces, and that
  releasing it puts everything back.
\<close>

section \<open>Undoing a patch\<close>

lemma putBits_putBits:
  assumes "off + n \<le> 8 * length b"
  shows "putBits (putBits b off n v) off n w = putBits b off n w"
  by (rule testBit_eqI) (use assms in \<open>auto simp: testBit_putBits\<close>)

lemma putBits_bits:
  assumes "off + n \<le> 8 * length b" "n \<le> 32" "take_bit n v = bits b off n"
  shows "putBits b off n v = b"
proof (rule testBit_eqI)
  fix k
  have "bit v (n - 1 - (k - off)) = testBit b k" if "off \<le> k" "k < off + n"
  proof -
    let ?j = "n - 1 - (k - off)"
    have "bit (take_bit n v) ?j = bit v ?j" using that by (auto simp: bit_take_bit_iff)
    moreover have "bit (bits b off n) ?j = testBit b k" using that assms(2) by (subst bit_bits) auto
    ultimately show ?thesis using assms(3) by simp
  qed
  then show "testBit (putBits b off n v) k = testBit b k" using assms(1) by (simp add: testBit_putBits)
qed simp

lemma putBits_commute:
  assumes "off + n \<le> 8 * length b" "o' + m \<le> 8 * length b" "off + n \<le> o' \<or> o' + m \<le> off"
  shows "putBits (putBits b off n v) o' m w = putBits (putBits b o' m w) off n v"
  by (rule testBit_eqI) (use assms in \<open>auto simp: testBit_putBits\<close>)

abbreviation "st_of m \<equiv> SettingsRec_Settings \<lparr>srRaw = mSettings m\<rparr>"

lemma settings_fields:
  assumes "settings_ok s"
  shows "DoubleChannel (SettingsRec_Settings s) = ucast (bits (srRaw s) 10 2)"
    "ChannelA (SettingsRec_Settings s) = shl (ucast (bits (srRaw s) 72 4)) 4 OR ucast (bits (srRaw s) 0 4)"
  using assms by (simp_all add: SettingsRec_Settings_def DecodeSettings_def settings_ok_def)

lemma restore_DoubleChannel:
  assumes "settings_ok s"
  shows "WithDoubleChannel (WithDoubleChannel s x) (DoubleChannel (SettingsRec_Settings s)) = s"
proof -
  have l: "10 \<le> length (srRaw s)" using assms by (simp add: settings_ok_def settingsMinLen_def)
  have "take_bit 2 (ucast (ucast (bits (srRaw s) 10 2) :: u8) :: u32) = bits (srRaw s) 10 2"
    by (rule bit_word_eqI) (auto simp: bit_simps bit_bits)
  with l show ?thesis
    by (simp add: WithDoubleChannel_def settings_fields [OF assms] putBits_putBits putBits_bits)
qed

lemma nibble_parts:
  fixes h l :: u32
  assumes "take_bit 4 l = l"
  shows "take_bit 4 (ucast ((shl (ucast h) 4 OR ucast l :: u8) AND 0x0F) :: u32) = take_bit 4 l"
    "take_bit 4 (ucast (shr (shl (ucast h) 4 OR ucast l :: u8) 4) :: u32) = take_bit 4 h"
proof -
  have l: "bit l n \<Longrightarrow> n < 4" for n using arg_cong [OF assms, of "\<lambda>w. bit w n"] by (auto simp: bit_take_bit_iff)
  show "take_bit 4 (ucast ((shl (ucast h) 4 OR ucast l :: u8) AND 0x0F) :: u32) = take_bit 4 l"
    by (rule bit_word_eqI) (auto simp: bit_simps bit_shl and_low_mask)
  show "take_bit 4 (ucast (shr (shl (ucast h) 4 OR ucast l :: u8) 4) :: u32) = take_bit 4 h"
    by (rule bit_word_eqI) (auto simp: bit_simps bit_shl bit_shr dest: l)
qed

lemma bits_bound: "n \<le> 32 \<Longrightarrow> take_bit n (bits b off n) = bits b off n"
  by (rule bit_word_eqI) (auto simp: bit_take_bit_iff bit_bits)

lemma restore_ChannelA:
  assumes "settings_ok s"
  shows "WithChannelA (WithChannelA s x) (ChannelA (SettingsRec_Settings s)) = s"
proof -
  let ?b = "srRaw s"
  have l: "10 \<le> length ?b" using assms by (simp add: settings_ok_def settingsMinLen_def)
  have p: "putBits (putBits (putBits (putBits ?b 0 4 v) 72 4 w) 0 4 v') 72 4 w' = putBits (putBits ?b 0 4 v') 72 4 w'" for v w v' w'
    using l by (simp add: putBits_commute [of 0 4 _ 72 4] putBits_putBits)
  have "putBits (putBits ?b 0 4 v) 72 4 w = ?b" if "take_bit 4 v = bits ?b 0 4" "take_bit 4 w = bits ?b 72 4" for v w
    using l that by (simp add: putBits_bits)
  then show ?thesis
    by (simp add: WithChannelA_def settings_fields [OF assms] p nibble_parts bits_bound)
qed

lemma patches_commute:
  "settings_ok s \<Longrightarrow> WithChannelA (WithDoubleChannel s d) c = WithDoubleChannel (WithChannelA s c) d"
  by (simp add: WithChannelA_def WithDoubleChannel_def settings_ok_def settingsMinLen_def putBits_commute [of 10 2 _ 0 4]
    putBits_commute [of 10 2 _ 72 4])

lemma patches_length [simp]:
  "length (srRaw (WithChannelA s c)) = length (srRaw s)" "length (srRaw (WithDoubleChannel s d)) = length (srRaw s)"
  "settings_ok (WithChannelA s c) = settings_ok s" "settings_ok (WithDoubleChannel s d) = settings_ok s"
  by (simp_all add: WithChannelA_def WithDoubleChannel_def settings_ok_def)

lemma restore_APRS:
  assumes "APRSEnabled b" "bssMinLen \<le> length (bssRaw b)"
  shows "WithAPRSEnabled (WithAPRSEnabled b False) True = b" "\<not> APRSEnabled (WithAPRSEnabled b False)"
proof -
  have m: "bit (0x10 :: u8) n \<longleftrightarrow> n = 4" for n using bit_u8_cases [of "0x10" n] by auto
  have "bssRaw b ! 1 AND 0x10 \<noteq> 0" using assms(1) by (simp add: APRSEnabled_def aprsEnableBit_def)
  moreover have "x AND 0x10 = 0" if "\<not> bit x 4" for x :: u8
    by (rule bit_word_eqI) (use that in \<open>auto simp: bit_simps m simp del: bit_numeral_word_iff\<close>)
  ultimately have "bit (bssRaw b ! 1) 4" by blast
  then have "(bssRaw b ! 1 AND NOT 0x10) OR 0x10 = bssRaw b ! 1"
    by (intro bit_word_eqI) (auto simp: bit_simps m simp del: bit_numeral_word_iff)
  then show "WithAPRSEnabled (WithAPRSEnabled b False) True = b"
    using assms(2) by (cases b) (simp add: WithAPRSEnabled_def aprsEnableBit_def bssMinLen_def Let_def list_update_same_conv)
  have "(x AND NOT 0x10) AND 0x10 = (0 :: u8)" for x
    by (rule bit_word_eqI) (auto simp: bit_simps m simp del: bit_numeral_word_iff)
  then show "\<not> APRSEnabled (WithAPRSEnabled b False)"
    using assms(2) by (simp add: APRSEnabled_def WithAPRSEnabled_def aprsEnableBit_def bssMinLen_def Let_def)
qed

section \<open>What a session displaces\<close>

definition packetSettings :: "session \<Rightarrow> bytes \<Rightarrow> SettingsRec" where
  "packetSettings s raw =
     (let x = (if setDoubleChannel s then WithDoubleChannel \<lparr>srRaw = raw\<rparr> 0 else \<lparr>srRaw = raw\<rparr>)
      in if setChannelA s then WithChannelA x (wantChannelA s) else x)"

definition packetBSS :: "session \<Rightarrow> bytes \<Rightarrow> BSSRec" where
  "packetBSS s raw = (if setAPRS s then WithAPRSEnabled \<lparr>bssRaw = raw\<rparr> False else \<lparr>bssRaw = raw\<rparr>)"

text \<open>The session remembers what the operator had.\<close>

definition remembers :: "session \<Rightarrow> radioMem \<Rightarrow> bool" where
  "remembers s m0 \<longleftrightarrow>
     (setDoubleChannel s \<longrightarrow> origDoubleChannel s = DoubleChannel (st_of m0))
     \<and> (setChannelA s \<longrightarrow> origChannelA s = ChannelA (st_of m0))
     \<and> (setAPRS s \<longrightarrow> origAPRS s \<and> APRSEnabled \<lparr>bssRaw = mBss m0\<rparr>)"

text \<open>At most one channel record has been tuned, and the rig keeps the original of that one.\<close>

definition tuned :: "radioMem \<Rightarrow> radioMem \<Rightarrow> rig \<Rightarrow> bool" where
  "tuned m0 m r \<longleftrightarrow>
     (if origOK r
      then \<exists>c raw. ActiveChannel (st_of m) = (c, True) \<and> mChan m0 c = Some (rfRaw (origRec r)) \<and> mChan m = (mChan m0)(c \<mapsto> raw)
             \<and> RFChLen \<le> length raw \<and> length raw \<le> 255 \<and> hd raw = c
      else mChan m = mChan m0)"

definition displaced :: "radioMem \<Rightarrow> radioMem \<Rightarrow> rig \<Rightarrow> bool" where
  "displaced m0 m r \<longleftrightarrow> mem_ok m0 \<and> held (sess r) \<and> \<not> rclosed r \<and> remembers (sess r) m0
     \<and> mSettings m = srRaw (packetSettings (sess r) (mSettings m0)) \<and> mBss m = bssRaw (packetBSS (sess r) (mBss m0))
     \<and> tuned m0 m r"

lemma mem_ok_settings: "mem_ok m \<Longrightarrow> settings_ok \<lparr>srRaw = mSettings m\<rparr>"
  by (simp add: mem_ok_def settings_ok_def)

lemma packet_lengths [simp]: "length (srRaw (packetSettings s raw)) = length raw" "length (bssRaw (packetBSS s raw)) = length raw"
  by (simp_all add: packetSettings_def packetBSS_def Let_def WithAPRSEnabled_def)

lemma displaced_ok: "displaced m0 m r \<Longrightarrow> mem_ok m"
  by (auto simp: displaced_def mem_ok_def tuned_def split: if_splits)

section \<open>Acquiring\<close>

lemma findLoop_pure:
  assumes "\<not> rclosed r" "mem_ok m"
  shows "fst (findLoop memRadio b f is (m, r)) = (m, r)"
proof (induction "is" arbitrary: f)
  case Nil
  show ?case by (cases f) simp_all
next
  case (Cons i "is")
  then show ?case
    using run_readChannel [OF assms, of "word_of_int i"]
    by (simp add: bindR_def attemptR_def split: option.split)
qed

lemma findVFO_pure:
  assumes "\<not> rclosed r" "mem_ok m"
  obtains x where "findVFOChannel memRadio b (m, r) = ((m, r), x)"
  using findLoop_pure [OF assms, of b None "[vfoMin r..255]"] that by (fastforce simp: findVFOChannel_def bindR_def prod_eq_iff)

lemma tunable_pure:
  assumes "\<not> rclosed r" "mem_ok m"
  obtains x where "channelIsTunable memRadio c (m, r) = ((m, r), x)"
  using run_readChannel [OF assms, of c] that by (cases "mChan m c") (simp_all add: channelIsTunable_def bindR_def)

lemma acquireBSS_displaces:
  assumes "\<not> rclosed r" "mem_ok m" "\<not> setAPRS s"
  shows "acquireBSS memRadio s (m, r) =
    (let s' = (if APRSEnabled \<lparr>bssRaw = mBss m\<rparr> then s\<lparr>origAPRS := True, setAPRS := True\<rparr> else s)
     in ((m\<lparr>mBss := bssRaw (packetBSS s' (mBss m))\<rparr>, r\<lparr>sess := s'\<lparr>held := True\<rparr>\<rparr>), Inr ()))"
proof -
  have l: "length (bssRaw (WithAPRSEnabled \<lparr>bssRaw = mBss m\<rparr> False)) \<le> 255"
    using assms(2) by (simp add: mem_ok_def WithAPRSEnabled_def Let_def)
  have w: "writeBSS memRadio (WithAPRSEnabled \<lparr>bssRaw = mBss m\<rparr> False) (m, r)
      = ((m\<lparr>mBss := bssRaw (WithAPRSEnabled \<lparr>bssRaw = mBss m\<rparr> False)\<rparr>, r), Inr ())"
    using run_writeBSS [OF assms(1) l] by (cases "WithAPRSEnabled \<lparr>bssRaw = mBss m\<rparr> False") simp
  show ?thesis
    using assms(3)
    by (simp add: acquireBSS_def bindR_def attemptR_def run_readBSS [OF assms(1,2)] w packetBSS_def Let_def)
qed

lemma finish_acquire:
  assumes "\<not> rclosed r" "mem_ok m" "\<not> origOK r" "remembers s m" "\<not> setAPRS s" "want = packetSettings s (mSettings m)"
  shows "\<exists>m' r'. bindR (if SettingsRec_Equal want \<lparr>srRaw = mSettings m\<rparr> then ret () else writeSettings memRadio want)
      (\<lambda>_. acquireBSS memRadio s) (m, r) = ((m', r'), Inr ()) \<and> displaced m m' r'"
proof -
  let ?m = "m\<lparr>mSettings := srRaw want\<rparr>"
  have l: "length (srRaw want) = length (mSettings m)" by (simp add: assms(6))
  have w: "writeSettings memRadio want (m, r) = ((?m, r), Inr ())"
    using run_writeSettings [OF assms(1), of "srRaw want"] l assms(2) by (cases want) (simp add: mem_ok_def)
  have "?m = m" if "SettingsRec_Equal want \<lparr>srRaw = mSettings m\<rparr>"
    using that by (simp add: SettingsRec_Equal_def rawEqual_iff)
  then have b: "bindR (if SettingsRec_Equal want \<lparr>srRaw = mSettings m\<rparr> then ret () else writeSettings memRadio want)
      (\<lambda>_. acquireBSS memRadio s) (m, r) = acquireBSS memRadio s (?m, r)"
    using w by (simp add: bindR_def)
  have ok: "mem_ok ?m" using assms(2) l by (simp add: mem_ok_def)
  have same: "packetSettings (s\<lparr>held := True\<rparr>) raw = packetSettings s raw"
    "packetSettings (s\<lparr>origAPRS := True, setAPRS := True, held := True\<rparr>) raw = packetSettings s raw" for raw
    by (simp_all add: packetSettings_def Let_def)
  show ?thesis
    unfolding b acquireBSS_displaces [OF assms(1) ok assms(5)] Let_def
    using assms by (auto simp: displaced_def remembers_def tuned_def same packetBSS_def)
qed

lemma acquire_displaces:
  assumes "\<not> rclosed r" "mem_ok m" "\<not> origOK r" "\<not> held (sess r)"
    and "AcquireSession memRadio (m, r) = ((m', r'), x)"
  shows "(x = Inr () \<and> displaced m m' r') \<or> (\<exists>e. x = Inl e) \<and> m' = m \<and> r' = r"
proof -
  let ?st = "SettingsRec_Settings \<lparr>srRaw = mSettings m\<rparr>" and ?rec = "\<lparr>srRaw = mSettings m\<rparr>"
  let ?s = "if DoubleChannel ?st \<noteq> 0 then noSession\<lparr>origDoubleChannel := DoubleChannel ?st, setDoubleChannel := True\<rparr> else noSession"
  let ?want = "if DoubleChannel ?st \<noteq> 0 then WithDoubleChannel ?rec 0 else ?rec"
  define go where "go = (\<lambda>s want. bindR (if SettingsRec_Equal want ?rec then ret () else writeSettings memRadio want)
    (\<lambda>_. acquireBSS memRadio s) (m, r))"
  define s2 where "s2 = (\<lambda>vfo. ?s\<lparr>origChannelA := ChannelA ?st, wantChannelA := vfo, setChannelA := True\<rparr>)"
  obtain u where u: "channelIsTunable memRadio (ChannelA ?st) (m, r) = ((m, r), u)" using tunable_pure [OF assms(1,2)] .
  obtain v where v: "findVFOChannel memRadio (ChannelB ?st) (m, r) = ((m, r), v)" using findVFO_pure [OF assms(1,2)] .
  have run: "AcquireSession memRadio (m, r) =
      (case u of Inl e \<Rightarrow> ((m, r), Inl e)
       | Inr usable \<Rightarrow> if usable then go ?s ?want
           else (case v of Inl e \<Rightarrow> ((m, r), Inl e) | Inr vfo \<Rightarrow> go (s2 vfo) (WithChannelA ?want vfo)))"
    using assms(4) u v
    by (simp add: AcquireSession_def bindR_def run_readSettings [OF assms(1,2)] go_def s2_def Let_def split: sum.split)
  have good: "\<exists>m' r'. go s want = ((m', r'), Inr ()) \<and> displaced m m' r'"
    if "remembers s m" "\<not> setAPRS s" "want = packetSettings s (mSettings m)" for s want
    unfolding go_def by (rule finish_acquire [OF assms(1-3) that])
  have "\<exists>m' r'. go ?s ?want = ((m', r'), Inr ()) \<and> displaced m m' r'"
    by (rule good) (simp_all add: remembers_def noSession_def packetSettings_def)
  then obtain m1 r1 where g1: "go ?s ?want = ((m1, r1), Inr ())" "displaced m m1 r1" by blast
  have "\<exists>m' r'. go (s2 vfo) (WithChannelA ?want vfo) = ((m', r'), Inr ()) \<and> displaced m m' r'" for vfo
    by (rule good) (simp_all add: s2_def remembers_def noSession_def packetSettings_def)
  then obtain m2 r2 where g2: "go (s2 vfo) (WithChannelA ?want vfo) = ((m2 vfo, r2 vfo), Inr ())" "displaced m (m2 vfo) (r2 vfo)" for vfo
    by metis
  show ?thesis
    using assms(5) g1(2) g2(2) unfolding run g1(1) g2(1) by (auto split: sum.splits if_splits)
qed

section \<open>Tuning\<close>

lemma setFreq_displaced:
  assumes "displaced m0 m r" "SetFreq memRadio hz (m, r) = ((m', r'), x)"
  shows "displaced m0 m' r'"
proof -
  have c: "\<not> rclosed r" and ok: "mem_ok m" using assms(1) displaced_ok by (auto simp: displaced_def)
  obtain c k where a: "ActiveChannel (st_of m) = (c, k)" by fastforce
  have "request memRadio CmdReadSettings [] (m, r) = ((m, r), Inr (0 # mSettings m))"
    using c by (intro run_request) (simp_all add: memRadio_def)
  moreover have "DecodeSettings (0 # mSettings m) = Inr (st_of m)"
    using ok by (simp add: SettingsRec_Settings_def DecodeSettings_def mem_ok_def)
  ultimately have act: "activeChannel memRadio (m, r) = (if \<not> k then ((m, r), Inl ErrDualWatch) else readChannel memRadio c (m, r))"
    using a by (simp add: activeChannel_def bindR_def fromSum_def)
  show ?thesis
  proof (cases "k \<and> mChan m c \<noteq> None")
    case False
    then have "SetFreq memRadio hz (m, r) = ((m, r), Inl ErrDualWatch) \<or> SetFreq memRadio hz (m, r) = ((m, r), Inl (Rejected CmdReadRFCh 1))"
      using act run_readChannel [OF c ok, of c] by (auto simp: SetFreq_def bindR_def)
    with assms show ?thesis by auto
  next
    case True
    then obtain raw where raw: "mChan m c = Some raw" by blast
    note rw = mem_ok_chan [OF ok raw]
    let ?ch = "\<lparr>rfRaw = raw\<rparr>" and ?r = "if \<not> origOK r then r\<lparr>origRec := \<lparr>rfRaw = raw\<rparr>, origOK := True\<rparr> else r"
    let ?new = "rfRaw (WithFreq ?ch hz)"
    have ch: "rfch_ok ?ch" using rw by (simp add: rfch_ok_def)
    have new: "length ?new = length raw" "take 1 ?new = take 1 raw" using WithFreq_slices(3,5) [OF ch, of hz] by simp_all
    then have hd: "hd ?new = c" "?new \<noteq> []" using rw by (cases raw; cases ?new; auto simp: RFChLen_def)+
    have w: "writeChannel memRadio ?ch (WithFreq ?ch hz) (m, ?r) = ((m\<lparr>mChan := (mChan m)(c \<mapsto> ?new)\<rparr>, ?r), Inr ())"
      using run_writeChannel [of ?r ?new ?ch m] c new rw hd by (cases "WithFreq ?ch hz") simp
    have "SetFreq memRadio hz (m, r) = ((m\<lparr>mChan := (mChan m)(c \<mapsto> ?new)\<rparr>, ?r), Inr ())
        \<or> (\<exists>e. SetFreq memRadio hz (m, r) = ((m, r), Inl e))"
      using True act run_readChannel [OF c ok, of c] raw w by (auto simp: SetFreq_def bindR_def rememberOriginal_def)
    moreover have "displaced m0 (m\<lparr>mChan := (mChan m)(c \<mapsto> ?new)\<rparr>) ?r"
      using assms(1) a True raw hd(1) new(1) rw by (auto simp: displaced_def tuned_def split: if_splits)
    ultimately show ?thesis using assms by auto
  qed
qed

section \<open>Releasing\<close>

lemma teardown_restores:
  assumes "displaced m0 m r"
  obtains x where "Teardown memRadio (m, r) = ((m\<lparr>mChan := mChan m0\<rparr>, r\<lparr>origOK := False\<rparr>), Inr x)"
proof (cases "origOK r")
  case True
  then obtain c raw where t: "mChan m0 c = Some (rfRaw (origRec r))" "mChan m = (mChan m0)(c \<mapsto> raw)"
    using assms by (auto simp: displaced_def tuned_def)
  have o: "\<not> rclosed r" "mem_ok m0" using assms by (simp_all add: displaced_def)
  note k = mem_ok_chan [OF o(2) t(1)]
  have "rfRaw (origRec r) \<noteq> []" using k by (auto simp: RFChLen_def)
  then have w: "writeChannel memRadio (origRec r) (origRec r) (m, r) = ((m\<lparr>mChan := (mChan m)(c \<mapsto> rfRaw (origRec r))\<rparr>, r), Inr ())"
    using run_writeChannel [OF o(1), of "rfRaw (origRec r)" "origRec r" m] k by (cases "origRec r") simp
  have "(mChan m)(c \<mapsto> rfRaw (origRec r)) = mChan m0" using t by (simp add: fun_upd_idem)
  with w True that show thesis by (simp add: Teardown_def bindR_def)
next
  case False
  then have "mChan m = mChan m0" "r\<lparr>origOK := False\<rparr> = r" using assms by (simp_all add: displaced_def tuned_def)
  moreover have "m\<lparr>mChan := mChan m\<rparr> = m" by simp
  ultimately show thesis using False that [of False] by (simp add: Teardown_def bindR_def)
qed

lemma settings_restored:
  assumes "remembers s m0" "mem_ok m0"
  defines "cur \<equiv> packetSettings s (mSettings m0)"
  defines "st \<equiv> SettingsRec_Settings cur"
  shows "(let want = (if setDoubleChannel s \<and> DoubleChannel st = 0 then WithDoubleChannel cur (origDoubleChannel s) else cur)
     in if setChannelA s \<and> ChannelA st = wantChannelA s then WithChannelA want (origChannelA s) else want) = \<lparr>srRaw = mSettings m0\<rparr>"
proof -
  let ?o = "\<lparr>srRaw = mSettings m0\<rparr>"
  have ok: "settings_ok ?o" using assms(2) by (rule mem_ok_settings)
  have d: "DoubleChannel st = 0" if "setDoubleChannel s"
    using that ok by (simp add: st_def cur_def packetSettings_def Settings_WithChannelA Settings_WithDoubleChannel Let_def)
  have a: "ChannelA st = wantChannelA s" if "setChannelA s"
    using that ok by (simp add: st_def cur_def packetSettings_def Settings_WithChannelA Let_def)
  have "WithDoubleChannel (WithChannelA (WithDoubleChannel ?o 0) w) (DoubleChannel (SettingsRec_Settings ?o)) = WithChannelA ?o w" for w
    using ok by (simp add: patches_commute [symmetric] restore_DoubleChannel)
  then show ?thesis
    using assms(1) d a ok restore_DoubleChannel [OF ok] restore_ChannelA [OF ok]
    by (auto simp: cur_def packetSettings_def remembers_def Let_def)
qed

lemma restoreSettings_runs:
  assumes "remembers s m0" "mem_ok m0" "mem_ok m" "\<not> rclosed r" "mSettings m = srRaw (packetSettings s (mSettings m0))"
  shows "restoreSettings memRadio s (m, r) = ((m\<lparr>mSettings := mSettings m0\<rparr>, r), Inr ())"
proof (cases "\<not> setDoubleChannel s \<and> \<not> setChannelA s")
  case True
  then have "m\<lparr>mSettings := mSettings m0\<rparr> = m" using assms(5) by (simp add: packetSettings_def)
  with True show ?thesis by (simp add: restoreSettings_def)
next
  case False
  let ?o = "\<lparr>srRaw = mSettings m0\<rparr>"
  have cur: "\<lparr>srRaw = mSettings m\<rparr> = packetSettings s (mSettings m0)" using assms(5) by simp
  have w: "writeSettings memRadio ?o (m, r) = ((m\<lparr>mSettings := mSettings m0\<rparr>, r), Inr ())"
    using run_writeSettings [OF assms(4)] assms(2) by (simp add: mem_ok_def)
  have e: "m\<lparr>mSettings := mSettings m0\<rparr> = m" if "SettingsRec_Equal ?o (packetSettings s (mSettings m0))"
    using that assms(5) by (simp add: SettingsRec_Equal_def rawEqual_iff)
  show ?thesis
    using False w e unfolding restoreSettings_def
    by (auto simp: bindR_def run_readSettings [OF assms(4,3)] cur Let_def settings_restored [OF assms(1,2), unfolded Let_def])
qed

lemma restoreBSS_runs:
  assumes "remembers s m0" "mem_ok m0" "mem_ok m" "\<not> rclosed r" "mBss m = bssRaw (packetBSS s (mBss m0))"
  shows "restoreBSS memRadio s (m, r) = ((m\<lparr>mBss := mBss m0\<rparr>, r), Inr ())"
proof (cases "setAPRS s")
  case True
  let ?o = "\<lparr>bssRaw = mBss m0\<rparr>"
  have cur: "\<lparr>bssRaw = mBss m\<rparr> = WithAPRSEnabled ?o False" using True assms(5) by (simp add: packetBSS_def)
  have a: "APRSEnabled ?o" "bssMinLen \<le> length (bssRaw ?o)" "origAPRS s" using True assms(1,2) by (simp_all add: remembers_def mem_ok_def)
  have w: "writeBSS memRadio ?o (m, r) = ((m\<lparr>mBss := mBss m0\<rparr>, r), Inr ())"
    using run_writeBSS [OF assms(4)] assms(2) by (simp add: mem_ok_def)
  show ?thesis
    using True a restore_APRS [OF a(1,2)] w by (simp add: restoreBSS_def bindR_def run_readBSS [OF assms(4,3)] cur)
next
  case False
  then have "m\<lparr>mBss := mBss m0\<rparr> = m" using assms(5) by (simp add: packetBSS_def)
  with False show ?thesis by (simp add: restoreBSS_def)
qed

lemma release_restores:
  assumes "displaced m0 m r"
  shows "ReleaseSession memRadio (m, r) = ((m0, r\<lparr>origOK := False, sess := noSession\<rparr>), Inr ())"
proof -
  let ?s = "sess r" and ?m1 = "m\<lparr>mChan := mChan m0\<rparr>" and ?r = "r\<lparr>origOK := False\<rparr>"
  have o: "mem_ok m0" "held ?s" "\<not> rclosed ?r" "remembers ?s m0" "mSettings ?m1 = srRaw (packetSettings ?s (mSettings m0))"
    "mBss ?m1 = bssRaw (packetBSS ?s (mBss m0))" using assms by (simp_all add: displaced_def)
  obtain x where t: "Teardown memRadio (m, r) = ((?m1, ?r), Inr x)" using teardown_restores [OF assms] .
  have ok: "mem_ok ?m1" using displaced_ok [OF assms] o(1) by (simp add: mem_ok_def)
  let ?m2 = "?m1\<lparr>mSettings := mSettings m0\<rparr>"
  have s: "restoreSettings memRadio ?s (?m1, ?r) = ((?m2, ?r), Inr ())" by (rule restoreSettings_runs [OF o(4,1) ok o(3,5)])
  have ok2: "mem_ok ?m2" using ok o(1) by (simp add: mem_ok_def)
  have b: "restoreBSS memRadio ?s (?m2, ?r) = ((?m2\<lparr>mBss := mBss m0\<rparr>, ?r), Inr ())"
    using o(6) by (intro restoreBSS_runs [OF o(4,1) ok2 o(3)]) simp
  have "?m2\<lparr>mBss := mBss m0\<rparr> = m0" by (cases m0) simp
  then show ?thesis
    using o(2) b by (simp add: ReleaseSession_def bindR_def attemptR_def t s joinErrs_def)
qed

text \<open>Tuning any number of times in a session.\<close>

fun tuneAll :: "'e env \<Rightarrow> u32 list \<Rightarrow> 'e \<times> rig \<Rightarrow> 'e \<times> rig" where
  "tuneAll env [] s = s"
| "tuneAll env (hz # hzs) s = tuneAll env hzs (fst (SetFreq env hz s))"

lemma tuneAll_displaced: "displaced m0 m r \<Longrightarrow> tuneAll memRadio hzs (m, r) = (m', r') \<Longrightarrow> displaced m0 m' r'"
proof (induction hzs arbitrary: m r)
  case (Cons hz hzs)
  obtain m1 r1 x where s: "SetFreq memRadio hz (m, r) = ((m1, r1), x)" by (metis surj_pair)
  with Cons setFreq_displaced [OF Cons.prems(1) s] show ?case by simp
qed simp

context radio_link
begin

lemma tuneAll_projects: "tuneAll env hzs (e, r) = (e', r') \<Longrightarrow> tuneAll memRadio hzs (mem e, r) = (mem e', r')"
proof (induction hzs arbitrary: e r)
  case (Cons hz hzs)
  obtain e1 r1 x where s: "SetFreq env hz (e, r) = ((e1, r1), x)" by (metis surj_pair)
  with Cons project_run [OF projects_tuning(1) s] show ?case by simp
qed simp

lemma session_round_trip:
  assumes "mem_ok (mem e)" "\<not> rclosed r" "\<not> origOK r" "\<not> held (sess r)"
    and "AcquireSession env (e, r) = ((e1, r1), Inr ())" "tuneAll env hzs (e1, r1) = (e2, r2)"
    and "ReleaseSession env (e2, r2) = ((e3, r3), x)"
  shows "x = Inr () \<and> mem e3 = mem e \<and> \<not> held (sess r3) \<and> \<not> origOK r3"
proof -
  have "displaced (mem e) (mem e1) r1"
    using acquire_displaces [OF assms(2,1,3,4) project_run [OF projects_acquire assms(5)]] by simp
  then have "displaced (mem e) (mem e2) r2" using tuneAll_displaced tuneAll_projects [OF assms(6)] by blast
  from release_restores [OF this] project_run [OF projects_release assms(7)] show ?thesis by (simp add: noSession_def)
qed

end

end
