(* ===== verification/Rigctl.thy ===== *)
theory Rigctl
  imports Rig
begin

text \<open>
  The rigctl frontend (\<^verbatim>\<open>src/internal/frontend/rigctl/server.go\<close>): the Hamlib line protocol and the safety
  net around a keyed transmitter, which is shared by all connections of a port.

  A rig is a reference into \<open>ops\<close>; \<open>None\<close> is a port that is offline.  Timers are listed with the
  generation and the rig their callback captured: \<open>timers\<close> are armed, \<open>firing\<close> are callbacks that have
  started and wait for the mutex.
\<close>

section \<open>State\<close>

record 'e rigOps =
  opSetFreq :: "'e \<Rightarrow> u32 \<Rightarrow> 'e \<times> rig_error option"
  opGetFreq :: "'e \<Rightarrow> 'e \<times> (rig_error + u32)"
  opSetPTT :: "'e \<Rightarrow> bool \<Rightarrow> 'e \<times> rig_error option"
  opGetPTT :: "'e \<Rightarrow> 'e \<times> (rig_error + bool)"

record rigctlCfg =
  AllowPTT :: bool
  PTTTimeout :: int

record pttState =
  keyed :: bool
  timerGen :: "nat option"
  gen :: nat
  releaseTries :: nat
  timers :: "(nat \<times> nat option \<times> int) list"
  firing :: "(nat \<times> nat option) list"

definition newPTT :: pttState where
  "newPTT = \<lparr>keyed = False, timerGen = None, gen = 0, releaseTries = 0, timers = [], firing = []\<rparr>"

definition maxReleaseRetries :: nat where
  "maxReleaseRetries = 3"

definition releaseRetryDelay :: int where
  "releaseRetryDelay = 3"

section \<open>Replies\<close>

definition rprtOK :: string where "rprtOK = ''RPRT 0''"
definition rprtEINVAL :: string where "rprtEINVAL = ''RPRT -1''"
definition rprtENIMPL :: string where "rprtENIMPL = ''RPRT -4''"
definition rprtETIMEOUT :: string where "rprtETIMEOUT = ''RPRT -5''"
definition rprtEIO :: string where "rprtEIO = ''RPRT -6''"
definition rprtEPROTO :: string where "rprtEPROTO = ''RPRT -8''"

fun isTimeout :: "rig_error \<Rightarrow> bool" where
  "isTimeout ErrTimeout = True"
| "isTimeout (Join es) = list_ex isTimeout es"
| "isTimeout _ = False"

fun isClosed :: "rig_error \<Rightarrow> bool" where
  "isClosed ErrClosed = True"
| "isClosed (Join es) = list_ex isClosed es"
| "isClosed _ = False"

definition errToRPRT :: "rig_error option \<Rightarrow> string" where
  "errToRPRT err =
     (case err of
        None \<Rightarrow> rprtOK
      | Some e \<Rightarrow> if isTimeout e then rprtETIMEOUT else if isClosed e then rprtEIO else rprtEPROTO)"

section \<open>The key and its timer\<close>

definition stopTimer :: "pttState \<Rightarrow> pttState" where
  "stopTimer st =
     (case timerGen st of
        None \<Rightarrow> st
      | Some g \<Rightarrow> st\<lparr>timers := filter (\<lambda>(h, _). h \<noteq> g) (timers st)\<rparr>)"

definition armTimerLocked :: "nat option \<Rightarrow> int \<Rightarrow> pttState \<Rightarrow> pttState" where
  "armTimerLocked r timeout st =
     (let st = stopTimer st; st = st\<lparr>gen := gen st + 1\<rparr>
      in st\<lparr>timers := timers st @ [(gen st, r, timeout)], timerGen := Some (gen st)\<rparr>)"

definition keyLocked :: "(nat \<Rightarrow> 'e rigOps) \<Rightarrow> nat \<Rightarrow> int \<Rightarrow> 'e \<times> pttState \<Rightarrow> ('e \<times> pttState) \<times> rig_error option" where
  "keyLocked ops i timeout s =
     (case s of (e, st) \<Rightarrow>
        if \<not> keyed st
        then (case opSetPTT (ops i) e True of (e, err) \<Rightarrow> ((e, armTimerLocked (Some i) timeout (st\<lparr>keyed := True\<rparr>)), err))
        else ((e, armTimerLocked (Some i) timeout st), None))"

definition clearKey :: "pttState \<Rightarrow> pttState" where
  "clearKey st = (stopTimer st)\<lparr>timerGen := None, keyed := False, releaseTries := 0\<rparr>"

definition releaseLocked :: "(nat \<Rightarrow> 'e rigOps) \<Rightarrow> nat option \<Rightarrow> 'e \<times> pttState \<Rightarrow> ('e \<times> pttState) \<times> rig_error option" where
  "releaseLocked ops r s =
     (case s of (e, st) \<Rightarrow>
        if \<not> keyed st then ((e, st), None)
        else
          (case (case r of None \<Rightarrow> (e, Some ErrClosed) | Some i \<Rightarrow> opSetPTT (ops i) e False) of (e, err) \<Rightarrow>
             (case err of
                None \<Rightarrow> ((e, clearKey st), None)
              | Some x \<Rightarrow>
                  (let st = st\<lparr>releaseTries := releaseTries st + 1\<rparr>
                   in if releaseTries st \<le> maxReleaseRetries
                      then ((e, armTimerLocked r releaseRetryDelay st), Some x)
                      else ((e, clearKey st), Some x)))))"

definition timeoutFire :: "(nat \<Rightarrow> 'e rigOps) \<Rightarrow> nat option \<Rightarrow> nat \<Rightarrow> 'e \<times> pttState \<Rightarrow> 'e \<times> pttState" where
  "timeoutFire ops r g s = (if gen (snd s) \<noteq> g then s else fst (releaseLocked ops r s))"

definition forceReleasePTT :: "(nat \<Rightarrow> 'e rigOps) \<Rightarrow> nat option \<Rightarrow> bool \<Rightarrow> 'e \<times> pttState \<Rightarrow> 'e \<times> pttState" where
  "forceReleasePTT ops r final s =
     (case releaseLocked ops r s of ((e, st), err) \<Rightarrow> (e, if err \<noteq> None \<and> final then clearKey st else st))"

definition closePTT :: "(nat \<Rightarrow> 'e rigOps) \<Rightarrow> nat option \<Rightarrow> 'e \<times> pttState \<Rightarrow> 'e \<times> pttState" where
  "closePTT ops r s = (if keyed (snd s) then forceReleasePTT ops r True s else s)"

section \<open>One line\<close>

text \<open>\<open>strings.Fields\<close>; \<open>uf\<close> is what it does to text that is not ASCII.\<close>

fun fieldsA :: "string \<Rightarrow> string \<Rightarrow> string list" where
  "fieldsA acc [] = (if acc = [] then [] else [acc])"
| "fieldsA acc (c # cs) =
     (if is_space c then (if acc = [] then fieldsA [] cs else acc # fieldsA [] cs) else fieldsA (acc @ [c]) cs)"

definition Fields :: "(string \<Rightarrow> string list) \<Rightarrow> string \<Rightarrow> string list" where
  "Fields uf s = (if ascii s then fieldsA [] s else uf s)"

definition ParseUint32 :: "string \<Rightarrow> nat option" where
  "ParseUint32 s =
     (if s \<noteq> [] \<and> list_all is_digit s
      then (let v = foldl (\<lambda>acc c. 10 * acc + digit_val c) 0 s in if v < 2 ^ 32 then Some v else None)
      else None)"

definition handleSetPTT ::
  "(nat \<Rightarrow> 'e rigOps) \<Rightarrow> string list \<Rightarrow> nat \<Rightarrow> rigctlCfg \<Rightarrow> 'e \<times> pttState \<Rightarrow> ('e \<times> pttState) \<times> string" where
  "handleSetPTT ops args i cf s =
     (if \<not> AllowPTT cf then (s, rprtENIMPL)
      else case args of
        [] \<Rightarrow> (s, rprtEINVAL)
      | a # _ \<Rightarrow>
          if a = ''0'' then (case releaseLocked ops (Some i) s of (s, err) \<Rightarrow> (s, errToRPRT err))
          else if a = ''1'' \<or> a = ''3'' then (case keyLocked ops i (PTTTimeout cf) s of (s, err) \<Rightarrow> (s, errToRPRT err))
          else (s, rprtEINVAL))"

definition handleLine ::
  "unicode \<Rightarrow> (string \<Rightarrow> string list) \<Rightarrow> (nat \<Rightarrow> 'e rigOps) \<Rightarrow> string \<Rightarrow> nat option \<Rightarrow> rigctlCfg \<Rightarrow> 'e \<times> pttState \<Rightarrow> ('e \<times> pttState) \<times> string" where
  "handleLine u uf ops line r cf s =
     (case Fields uf (TrimSpace u line) of
        [] \<Rightarrow> (s, rprtEINVAL)
      | cmd # args \<Rightarrow>
          if cmd = [CHR 0x5C] @ ''chk_vfo'' then (s, ''CHKVFO 0'')
          else if cmd = ''dump_caps'' \<or> cmd = [CHR 0x5C] @ ''dump_caps'' then (s, rprtOK)
          else case r of
            None \<Rightarrow> (s, rprtEIO)
          | Some i \<Rightarrow>
              if cmd = [CHR 0x5C] @ ''get_freq'' \<or> cmd = ''f'' then
                (case opGetFreq (ops i) (fst s) of
                   (e, Inl x) \<Rightarrow> ((e, snd s), errToRPRT (Some x))
                 | (e, Inr hz) \<Rightarrow> ((e, snd s), show_nat (unat hz)))
              else if cmd = [CHR 0x5C] @ ''set_freq'' \<or> cmd = ''F'' then
                (case args of
                   [] \<Rightarrow> (s, rprtEINVAL)
                 | a # _ \<Rightarrow>
                     (case ParseUint32 a of
                        None \<Rightarrow> (s, rprtEINVAL)
                      | Some hz \<Rightarrow> (case opSetFreq (ops i) (fst s) (word_of_nat hz) of (e, err) \<Rightarrow> ((e, snd s), errToRPRT err))))
              else if cmd = ''t'' \<or> cmd = [CHR 0x5C] @ ''get_ptt'' then
                (case opGetPTT (ops i) (fst s) of
                   (e, Inl x) \<Rightarrow> ((e, snd s), errToRPRT (Some x))
                 | (e, Inr on) \<Rightarrow> ((e, snd s), if on then ''1'' else ''0''))
              else if cmd = [CHR 0x5C] @ ''set_ptt'' \<or> cmd = ''T'' then handleSetPTT ops args i cf s
              else (s, rprtEINVAL))"

text \<open>
  A rig wrapped so that a tune first holds the session settings, whose failure does not stop it.
\<close>

definition qsyGated :: "('e \<Rightarrow> 'e \<times> rig_error option) \<Rightarrow> 'e rigOps \<Rightarrow> 'e rigOps" where
  "qsyGated before ro = ro\<lparr>opSetFreq := (\<lambda>e hz. opSetFreq ro (fst (before e)) hz)\<rparr>"

section \<open>The server as a transition system\<close>

text \<open>
  Any connection may send any line, with whatever rig is resolved for it; a timer may fire at any time, and
  its callback runs when it gets the mutex; a connection may end and the server may close.
\<close>

inductive ptt_step :: "(nat \<Rightarrow> 'e rigOps) \<Rightarrow> 'e \<times> pttState \<Rightarrow> 'e \<times> pttState \<Rightarrow> bool" for ops where
  line: "ptt_step ops s (fst (handleLine u uf ops ln r cf s))"
| fire: "timers st = xs @ (g, r, d) # ys \<Longrightarrow> ptt_step ops (e, st) (e, st\<lparr>timers := xs @ ys, firing := firing st @ [(g, r)]\<rparr>)"
| callback: "firing st = xs @ (g, r) # ys \<Longrightarrow> ptt_step ops (e, st) (timeoutFire ops r g (e, st\<lparr>firing := xs @ ys\<rparr>))"
| disconnect: "ptt_step ops s (forceReleasePTT ops r False s)"
| close: "ptt_step ops s (closePTT ops r s)"
| radio: "ptt_step ops (e, st) (e', st)"

section \<open>The safety net\<close>

text \<open>While the key is believed down, a callback of the current generation is armed or about to run.\<close>

definition backstop :: "pttState \<Rightarrow> nat option \<Rightarrow> bool" where
  "backstop st r \<longleftrightarrow> (\<exists>d. (gen st, r, d) \<in> set (timers st)) \<or> (gen st, r) \<in> set (firing st)"

definition ptt_inv :: "pttState \<Rightarrow> bool" where
  "ptt_inv st \<longleftrightarrow> (keyed st \<longrightarrow> (\<exists>r. backstop st r)) \<and> releaseTries st \<le> maxReleaseRetries \<and> (\<not> keyed st \<longrightarrow> releaseTries st = 0)"

lemma stopTimer_simps [simp]:
  "keyed (stopTimer st) = keyed st" "gen (stopTimer st) = gen st" "releaseTries (stopTimer st) = releaseTries st"
  "firing (stopTimer st) = firing st"
  by (simp_all add: stopTimer_def split: option.split)

lemma arm_simps [simp]:
  "keyed (armTimerLocked r d st) = keyed st" "gen (armTimerLocked r d st) = gen st + 1"
  "releaseTries (armTimerLocked r d st) = releaseTries st" "backstop (armTimerLocked r d st) r"
  by (auto simp: armTimerLocked_def backstop_def Let_def)

lemma clearKey_inv [simp]: "ptt_inv (clearKey st)" "\<not> keyed (clearKey st)"
  by (simp_all add: ptt_inv_def clearKey_def)

lemma inv_arm: "releaseTries st \<le> maxReleaseRetries \<Longrightarrow> keyed st \<Longrightarrow> ptt_inv (armTimerLocked r d st)"
  unfolding ptt_inv_def using arm_simps(4) [of r d st] by (metis arm_simps(1,3))

lemma inv_keyLocked: "ptt_inv st \<Longrightarrow> ptt_inv (snd (fst (keyLocked ops i d (e, st))))"
  by (auto simp: keyLocked_def ptt_inv_def [of st] split: prod.split intro!: inv_arm)

lemma inv_releaseLocked:
  "keyed st \<or> ptt_inv st \<Longrightarrow> ptt_inv (snd (fst (releaseLocked ops r (e, st))))"
  by (auto simp: releaseLocked_def Let_def split: prod.split option.split intro!: inv_arm)

lemma inv_forceRelease: "ptt_inv st \<Longrightarrow> ptt_inv (snd (forceReleasePTT ops r final (e, st)))"
  using inv_releaseLocked [of st ops r e] by (auto simp: forceReleasePTT_def split: prod.split)

lemma inv_handleLine: "ptt_inv (snd s) \<Longrightarrow> ptt_inv (snd (fst (handleLine u uf ops ln r cf s)))"
proof (cases s)
  case (Pair e st)
  assume "ptt_inv (snd s)"
  then have i: "ptt_inv st" by (simp add: Pair)
  have "ptt_inv (snd (fst (handleSetPTT ops args i cf s)))" for args i
    using inv_keyLocked [OF i, of ops i "PTTTimeout cf" e] inv_releaseLocked [of st ops "Some i" e] i
    by (auto simp: handleSetPTT_def Pair split: list.split prod.splits)
  then show ?thesis
    using i by (simp add: handleLine_def Pair split: list.split option.split prod.split sum.split)
qed

lemma ptt_step_inv: "ptt_step ops s s' \<Longrightarrow> ptt_inv (snd s) \<Longrightarrow> ptt_inv (snd s')"
proof (induction rule: ptt_step.induct)
  case (fire st xs g r d ys e)
  then show ?case by (auto simp: ptt_inv_def backstop_def)
next
  case (callback st xs g r ys e)
  let ?st = "st\<lparr>firing := xs @ ys\<rparr>"
  show ?case
  proof (cases "gen st = g")
    case True
    have "keyed ?st \<or> ptt_inv ?st" using callback by (auto simp: ptt_inv_def)
    then show ?thesis using True inv_releaseLocked [of ?st ops r e] by (simp add: timeoutFire_def)
  next
    case False
    then show ?thesis using callback by (auto simp: timeoutFire_def ptt_inv_def backstop_def)
  qed
next
  case (disconnect s r)
  then show ?case using inv_forceRelease [of "snd s" ops r False "fst s"] by simp
next
  case (close s r)
  then show ?case using inv_forceRelease [of "snd s" ops r True "fst s"] by (simp add: closePTT_def)
qed (simp_all add: inv_handleLine)

interpretation ptt_system: invariant_system "\<lambda>s. snd s = newPTT" "ptt_step ops" "\<lambda>s. ptt_inv (snd s)" for ops
proof unfold_locales
  show "ptt_inv (snd s)" if "snd s = newPTT" for s :: "'a \<times> pttState" using that by (simp add: newPTT_def ptt_inv_def)
qed (rule ptt_step_inv)

text \<open>The callback gives up after its last retry at the latest.\<close>

lemma callbacks_release:
  assumes "releaseTries st \<le> maxReleaseRetries" "maxReleaseRetries - releaseTries st \<le> n"
  shows "\<not> keyed (snd (((\<lambda>s. timeoutFire ops r (gen (snd s)) s) ^^ Suc n) (e, st)))"
  using assms
proof (induction n arbitrary: e st)
  case 0
  then show ?case
    by (auto simp: timeoutFire_def releaseLocked_def clearKey_def Let_def split: prod.split option.split)
next
  case (Suc n)
  let ?f = "\<lambda>s. timeoutFire ops r (gen (snd s)) s"
  obtain e1 st1 where s1: "?f (e, st) = (e1, st1)" by fastforce
  have idle: "\<not> keyed (snd ((?f ^^ k) (e, st)))" if "\<not> keyed st" for k e st
    using that by (induction k arbitrary: e st) (simp_all add: funpow_Suc_right timeoutFire_def releaseLocked_def del: funpow.simps)
  show ?case
  proof (cases "keyed st1")
    case True
    then have "releaseTries st1 = releaseTries st + 1" "releaseTries st1 \<le> maxReleaseRetries"
      using s1 by (auto simp: timeoutFire_def releaseLocked_def clearKey_def Let_def split: prod.splits option.splits if_splits)
    with Suc.IH [of st1 e1] Suc.prems(2) s1 show ?thesis by (subst funpow_Suc_right) simp
  next
    case False
    with idle [of st1 "Suc n" e1] s1 show ?thesis by (subst funpow_Suc_right) simp
  qed
qed

end
