(* ===== verification/Rig_Link.thy ===== *)
theory Rig_Link
  imports Rig
begin

text \<open>
  The link of a rig (\<open>request\<close>, \<open>waitOutQuietPeriod\<close>, \<open>readLoop\<close>, \<open>dispatch\<close>, \<open>Close\<close> in
  \<^verbatim>\<open>src/internal/rig/rig.go\<close>) in time: how the exchanges that \<open>Rig\<close> takes as a parameter come about.

  Requests are numbered in the order in which they take \<open>reqMu\<close>; every request has a reply channel with
  room for one message, and a goroutine of its own for the write. Each \<open>select\<close> of \<open>request\<close> is one step,
  enabled by the case it takes, and a timer may fire at any time from its deadline on. The reader takes
  the waiting request under the mutex and sends on its channel later, in a step of its own.

  The replies carry no number. What the radio does is recorded in fields the code does not have:
  when a write landed, which write failed, and which request a reply answers.
\<close>

section \<open>State\<close>

datatype rphase = NoRequest | Writing nat nat | AwaitReply nat nat | QuietPeriod nat nat

record lnk =
  lnow :: nat
  lclosed :: bool
  rphase :: rphase
  waiting :: "nat option"
  waitCmd :: u16
  replyCh :: "nat \<Rightarrow> Message option"
  writeDone :: "nat \<Rightarrow> bool option"
  routing :: "(nat \<times> Message) option"
  nreq :: nat
  cmdOf :: "nat \<Rightarrow> u16"
  landedAt :: "nat \<Rightarrow> nat option"
  answer :: "nat \<Rightarrow> Message option"
  results :: "(nat \<times> (rig_error + bytes)) list"

definition newLink :: lnk where
  "newLink =
     \<lparr>lnow = 0, lclosed = False, rphase = NoRequest, waiting = None, waitCmd = 0, replyCh = Map.empty,
      writeDone = Map.empty, routing = None, nreq = 0, cmdOf = (\<lambda>_. 0), landedAt = Map.empty,
      answer = Map.empty, results = []\<rparr>"

definition quietPeriodMultiplier :: nat where
  "quietPeriodMultiplier = 3"

section \<open>Operations\<close>

text \<open>
  The beginning of \<open>request\<close>, with \<open>reqMu\<close> held: a closed rig, a command that cannot be encoded, or the write
  goroutine started with its deadline.
\<close>

definition startRequest :: "nat \<Rightarrow> u16 \<Rightarrow> bytes \<Rightarrow> lnk \<Rightarrow> lnk" where
  "startRequest T cmd body s =
     (let i = nreq s; s = s\<lparr>nreq := i + 1, cmdOf := (cmdOf s)(i := cmd)\<rparr> in
      if lclosed s then s\<lparr>results := results s @ [(i, Inl ErrClosed)], writeDone := (writeDone s)(i \<mapsto> False)\<rparr>
      else if requestBytes cmd body = []
      then s\<lparr>results := results s @ [(i, Inl Unencodable)], writeDone := (writeDone s)(i \<mapsto> False)\<rparr>
      else s\<lparr>waiting := Some i, waitCmd := cmd, rphase := Writing i (lnow s + T)\<rparr>)"

text \<open>The end of \<open>request\<close>: the deferred functions and the result.\<close>

definition finishRequest :: "nat \<Rightarrow> rig_error + bytes \<Rightarrow> lnk \<Rightarrow> lnk" where
  "finishRequest i x s = s\<lparr>waiting := None, rphase := NoRequest, results := results s @ [(i, x)]\<rparr>"

text \<open>A write timeout closes the rig.\<close>

definition writeTimeout :: "nat \<Rightarrow> lnk \<Rightarrow> lnk" where
  "writeTimeout i s = finishRequest i (Inl ErrTimeout) (s\<lparr>lclosed := True\<rparr>)"

text \<open>\<open>dispatch\<close> up to the send: what is not a reply, an event, or not what the waiting request asked for is dropped.\<close>

definition isAnswer :: "Message \<Rightarrow> bool" where
  "isAnswer m \<longleftrightarrow> IsReply m \<and> bCommand m \<noteq> CmdEventNotification"

definition dispatch :: "bytes \<Rightarrow> lnk \<Rightarrow> lnk" where
  "dispatch data s =
     (case DecodeMessage data of Inl _ \<Rightarrow> s
      | Inr m \<Rightarrow>
          if \<not> IsReply m then s
          else if bCommand m = CmdEventNotification then s
          else (case waiting s of
                  Some w \<Rightarrow> if bCommand m = waitCmd s then s\<lparr>routing := Some (w, m)\<rparr> else s
                | None \<Rightarrow> s))"

text \<open>The send of \<open>dispatch\<close>, which does not block.\<close>

definition dispatchSend :: "lnk \<Rightarrow> lnk" where
  "dispatchSend s =
     (case routing s of None \<Rightarrow> s
      | Some (w, m) \<Rightarrow>
          s\<lparr>routing := None, replyCh := (if replyCh s w = None then (replyCh s)(w \<mapsto> m) else replyCh s)\<rparr>)"

section \<open>The radio\<close>

text \<open>
  A radio answers a request at most once, not at all when its write failed, and less than \<open>L\<close> after the write
  landed; it sets the reply bit only in answers and events.
\<close>

definition mayAnswer :: "nat \<Rightarrow> lnk \<Rightarrow> nat \<Rightarrow> bool" where
  "mayAnswer L s i \<longleftrightarrow>
     i < nreq s \<and> answer s i = None \<and> writeDone s i \<noteq> Some False
     \<and> (case landedAt s i of None \<Rightarrow> True | Some t \<Rightarrow> lnow s < t + L)"

definition unsolicited :: "bytes \<Rightarrow> bool" where
  "unsolicited data \<longleftrightarrow> (case DecodeMessage data of Inl _ \<Rightarrow> True | Inr m \<Rightarrow> \<not> isAnswer m)"

section \<open>Steps\<close>

inductive lnk_step :: "nat \<Rightarrow> nat \<Rightarrow> lnk \<Rightarrow> lnk \<Rightarrow> bool" for T L where
  Tick: "lnk_step T L s (s\<lparr>lnow := lnow s + n\<rparr>)"
| Close: "lnk_step T L s (s\<lparr>lclosed := True\<rparr>)"
| Start: "rphase s = NoRequest \<Longrightarrow> lnk_step T L s (startRequest T cmd body s)"
| Landed: "\<lbrakk>i < nreq s; writeDone s i = None\<rbrakk> \<Longrightarrow>
    lnk_step T L s (s\<lparr>writeDone := (writeDone s)(i \<mapsto> True), landedAt := (landedAt s)(i \<mapsto> lnow s)\<rparr>)"
| WriteFailed: "\<lbrakk>i < nreq s; writeDone s i = None\<rbrakk> \<Longrightarrow>
    lnk_step T L s (s\<lparr>writeDone := (writeDone s)(i \<mapsto> False)\<rparr>)"
| Written: "\<lbrakk>rphase s = Writing i d; writeDone s i = Some True\<rbrakk> \<Longrightarrow>
    lnk_step T L s (s\<lparr>rphase := AwaitReply i (lnow s + T)\<rparr>)"
| WriteErrored: "\<lbrakk>rphase s = Writing i d; writeDone s i = Some False\<rbrakk> \<Longrightarrow>
    lnk_step T L s (finishRequest i (Inl WriteErr) s)"
| WriteTimedOut: "\<lbrakk>rphase s = Writing i d; d \<le> lnow s; writeDone s i = None\<rbrakk> \<Longrightarrow>
    lnk_step T L s (writeTimeout i s)"
| WriteClosed: "\<lbrakk>rphase s = Writing i d; lclosed s\<rbrakk> \<Longrightarrow> lnk_step T L s (finishRequest i (Inl ErrClosed) s)"
| Answered: "\<lbrakk>rphase s = AwaitReply i d; replyCh s i = Some m\<rbrakk> \<Longrightarrow>
    lnk_step T L s (finishRequest i (Inr (Body m)) s)"
| ReplyTimedOut: "\<lbrakk>rphase s = AwaitReply i d; d \<le> lnow s\<rbrakk> \<Longrightarrow>
    lnk_step T L s (s\<lparr>rphase := QuietPeriod i (lnow s + T * quietPeriodMultiplier)\<rparr>)"
| ReplyClosed: "\<lbrakk>rphase s = AwaitReply i d; lclosed s\<rbrakk> \<Longrightarrow> lnk_step T L s (finishRequest i (Inl ErrClosed) s)"
| Straggler: "\<lbrakk>rphase s = QuietPeriod i d; replyCh s i = Some m\<rbrakk> \<Longrightarrow>
    lnk_step T L s (finishRequest i (Inl ErrTimeout) s)"
| QuietOver: "\<lbrakk>rphase s = QuietPeriod i d; d \<le> lnow s\<rbrakk> \<Longrightarrow> lnk_step T L s (finishRequest i (Inl ErrTimeout) s)"
| QuietClosed: "\<lbrakk>rphase s = QuietPeriod i d; lclosed s\<rbrakk> \<Longrightarrow> lnk_step T L s (finishRequest i (Inl ErrClosed) s)"
| Reply: "\<lbrakk>routing s = None; mayAnswer L s i; DecodeMessage data = Inr m\<rbrakk> \<Longrightarrow>
    lnk_step T L s (dispatch data (s\<lparr>answer := (answer s)(i \<mapsto> m)\<rparr>))"
| Noise: "\<lbrakk>routing s = None; unsolicited data\<rbrakk> \<Longrightarrow> lnk_step T L s (dispatch data s)"
| Send: "lnk_step T L s (dispatchSend s)"

inductive lnk_reach :: "nat \<Rightarrow> nat \<Rightarrow> lnk \<Rightarrow> bool" for T L where
  init: "lnk_reach T L newLink"
| step: "\<lbrakk>lnk_reach T L s; lnk_step T L s s'\<rbrakk> \<Longrightarrow> lnk_reach T L s'"

section \<open>The invariant\<close>

text \<open>The request that holds \<open>reqMu\<close>.\<close>

fun current :: "rphase \<Rightarrow> nat option" where
  "current NoRequest = None"
| "current (Writing i d) = Some i"
| "current (AwaitReply i d) = Some i"
| "current (QuietPeriod i d) = Some i"

text \<open>No answer to the request can come any more, as far as the state shows.\<close>

definition settled :: "nat \<Rightarrow> lnk \<Rightarrow> nat \<Rightarrow> bool" where
  "settled L s i \<longleftrightarrow>
     answer s i \<noteq> None \<or> writeDone s i = Some False \<or> (\<exists>t. landedAt s i = Some t \<and> t + L \<le> lnow s)"

definition answers :: "lnk \<Rightarrow> nat \<Rightarrow> Message \<Rightarrow> bool" where
  "answers s i m \<longleftrightarrow> answer s i = Some m \<and> bCommand m = cmdOf s i"

text \<open>The deadlines: a reply timer runs for \<open>T\<close> from the write, the quiet period for three more.\<close>

fun deadline_ok :: "nat \<Rightarrow> lnk \<Rightarrow> rphase \<Rightarrow> bool" where
  "deadline_ok T s (AwaitReply i d) \<longleftrightarrow> (\<exists>t. landedAt s i = Some t \<and> t + T \<le> d)"
| "deadline_ok T s (QuietPeriod i d) \<longleftrightarrow> (\<exists>t. landedAt s i = Some t \<and> t + T + T * quietPeriodMultiplier \<le> d)"
| "deadline_ok T s _ \<longleftrightarrow> True"

definition lnk_clock :: "nat \<Rightarrow> lnk \<Rightarrow> bool" where
  "lnk_clock T s \<longleftrightarrow>
     (\<forall>i t. landedAt s i = Some t \<longrightarrow> t \<le> lnow s) \<and> (\<forall>i. landedAt s i = None \<longleftrightarrow> writeDone s i \<noteq> Some True)
     \<and> deadline_ok T s (rphase s)"

definition lnk_fresh :: "lnk \<Rightarrow> bool" where
  "lnk_fresh s \<longleftrightarrow>
     (\<forall>i\<ge>nreq s. answer s i = None \<and> replyCh s i = None \<and> writeDone s i = None \<and> landedAt s i = None
        \<and> (\<forall>m. routing s \<noteq> Some (i, m)) \<and> waiting s \<noteq> Some i)"

definition lnk_waiting :: "nat \<Rightarrow> lnk \<Rightarrow> bool" where
  "lnk_waiting L s \<longleftrightarrow>
     waiting s = current (rphase s) \<and> (\<forall>w. waiting s = Some w \<longrightarrow> waitCmd s = cmdOf s w)
     \<and> (\<forall>i<nreq s. settled L s i \<or> waiting s = Some i \<or> waiting s = None \<and> lclosed s)"

definition lnk_routes :: "lnk \<Rightarrow> bool" where
  "lnk_routes s \<longleftrightarrow>
     (\<forall>i m. replyCh s i = Some m \<longrightarrow> answers s i m) \<and> (\<forall>i m. routing s = Some (i, m) \<longrightarrow> answers s i m)
     \<and> (\<forall>i b. (i, Inr b) \<in> set (results s) \<longrightarrow> (i < nreq s \<and> (\<exists>m. answers s i m \<and> b = Body m)))"

definition lnk_inv :: "nat \<Rightarrow> nat \<Rightarrow> lnk \<Rightarrow> bool" where
  "lnk_inv T L s \<longleftrightarrow> lnk_clock T s \<and> lnk_fresh s \<and> lnk_waiting L s \<and> lnk_routes s"

lemmas lnk_inv_defs = lnk_inv_def lnk_clock_def lnk_fresh_def lnk_waiting_def lnk_routes_def

lemma lnk_inv_new: "lnk_inv T L newLink"
  by (simp add: lnk_inv_defs newLink_def)

lemma settled_mono:
  assumes "settled L s i" "lnow s \<le> lnow s'"
    and "answer s i \<noteq> None \<Longrightarrow> answer s' i \<noteq> None" "writeDone s i = Some False \<Longrightarrow> writeDone s' i = Some False"
    and "\<And>t. landedAt s i = Some t \<Longrightarrow> landedAt s' i = Some t"
  shows "settled L s' i"
  using assms unfolding settled_def by (meson le_trans)

lemma deadline_ok_mono:
  assumes "deadline_ok T s p" "\<And>i t. landedAt s i = Some t \<Longrightarrow> landedAt s' i = Some t"
  shows "deadline_ok T s' p"
  using assms by (cases p) auto

text \<open>The fields these two do not read.\<close>

lemma deadline_ok_update [simp]:
  "deadline_ok T (s\<lparr>routing := x\<rparr>) p = deadline_ok T s p" "deadline_ok T (s\<lparr>replyCh := y\<rparr>) p = deadline_ok T s p"
  "deadline_ok T (s\<lparr>answer := z\<rparr>) p = deadline_ok T s p" "deadline_ok T (s\<lparr>lnow := n\<rparr>) p = deadline_ok T s p"
  "deadline_ok T (s\<lparr>lclosed := b\<rparr>) p = deadline_ok T s p" "deadline_ok T (s\<lparr>writeDone := w\<rparr>) p = deadline_ok T s p"
  "deadline_ok T (s\<lparr>rphase := q\<rparr>) p = deadline_ok T s p"
  by (cases p; simp)+

lemma settled_update [simp]:
  "settled L (s\<lparr>routing := x\<rparr>) i = settled L s i" "settled L (s\<lparr>replyCh := y\<rparr>) i = settled L s i"
  "settled L (s\<lparr>lclosed := b\<rparr>) i = settled L s i" "settled L (s\<lparr>rphase := q\<rparr>) i = settled L s i"
  by (simp_all add: settled_def)

lemma inv_finish:
  assumes "lnk_inv T L s" "waiting s = Some i" "settled L s i \<or> lclosed s"
    and "\<And>b. x = Inr b \<Longrightarrow> \<exists>m. answers s i m \<and> b = Body m"
  shows "lnk_inv T L (finishRequest i x s)"
proof -
  have "i < nreq s" using assms(1,2) by (auto simp: lnk_inv_defs not_le [symmetric])
  then show ?thesis
    using assms unfolding lnk_inv_defs finishRequest_def
    by (auto simp: settled_def answers_def)
qed

lemma lnk_waiting_mono:
  assumes "lnk_waiting L s" "waiting s' = current (rphase s')" "waiting s' = waiting s" "waitCmd s' = waitCmd s"
    and "cmdOf s' = cmdOf s" "nreq s' = nreq s" "lclosed s \<Longrightarrow> lclosed s'"
    and "\<And>i. settled L s i \<Longrightarrow> settled L s' i"
  shows "lnk_waiting L s'"
  using assms unfolding lnk_waiting_def by metis

lemma lnk_inv_mono:
  assumes "lnk_inv T L s" "lnk_clock T s'" "lnk_fresh s'" "waiting s' = current (rphase s')"
    and "waiting s' = waiting s" "waitCmd s' = waitCmd s" "cmdOf s' = cmdOf s" "nreq s' = nreq s"
    and "replyCh s' = replyCh s" "routing s' = routing s" "results s' = results s" "answer s' = answer s"
    and "lclosed s \<Longrightarrow> lclosed s'" "\<And>i. settled L s i \<Longrightarrow> settled L s' i"
  shows "lnk_inv T L s'"
proof -
  have "lnk_waiting L s'" using assms(1) by (intro lnk_waiting_mono [OF _ assms(4-8,13,14)]) (simp add: lnk_inv_def)
  moreover have "lnk_routes s'" using assms by (simp add: lnk_inv_def lnk_routes_def answers_def)
  ultimately show ?thesis using assms(2,3) by (simp add: lnk_inv_def)
qed

lemma inv_current: "lnk_inv T L s \<Longrightarrow> waiting s = current (rphase s)"
  by (simp add: lnk_inv_def lnk_waiting_def)

lemma inv_waiting: "lnk_inv T L s \<Longrightarrow> lnk_waiting L s"
  and inv_deadline: "lnk_inv T L s \<Longrightarrow> deadline_ok T s (rphase s)"
  by (simp_all add: lnk_inv_def lnk_clock_def)

lemma inv_tick: "lnk_inv T L s \<Longrightarrow> lnk_inv T L (s\<lparr>lnow := lnow s + n\<rparr>)"
  by (frule inv_current, rule lnk_inv_mono [where s = s])
    (auto simp: lnk_inv_def lnk_clock_def lnk_fresh_def settled_def intro: trans_le_add1)

lemma inv_close: "lnk_inv T L s \<Longrightarrow> lnk_inv T L (s\<lparr>lclosed := True\<rparr>)"
  by (frule inv_current, rule lnk_inv_mono [where s = s])
    (auto simp: lnk_inv_def lnk_clock_def lnk_fresh_def settled_def)

lemma inv_start: "\<lbrakk>lnk_inv T L s; rphase s = NoRequest\<rbrakk> \<Longrightarrow> lnk_inv T L (startRequest T cmd body s)"
  unfolding lnk_inv_defs startRequest_def Let_def
  by (auto simp: answers_def settled_def less_Suc_eq)

lemma inv_landed:
  assumes "lnk_inv T L s" "i < nreq s" "writeDone s i = None"
  shows "lnk_inv T L (s\<lparr>writeDone := (writeDone s)(i \<mapsto> True), landedAt := (landedAt s)(i \<mapsto> lnow s)\<rparr>)"
    (is "lnk_inv T L ?s")
proof -
  have "landedAt s i = None" using assms(1,3) by (simp add: lnk_inv_defs)
  then have keep: "landedAt ?s j = Some t" if "landedAt s j = Some t" for j t using that by auto
  have "deadline_ok T ?s (rphase s)"
    using assms(1) keep by (intro deadline_ok_mono [OF inv_deadline [OF assms(1)]]) (simp_all add: lnk_inv_def lnk_clock_def)
  moreover have "settled L ?s j" if "settled L s j" for j
    using keep assms(3) by (intro settled_mono [OF that]) auto
  ultimately show ?thesis
    using assms inv_current [OF assms(1)]
    by (intro lnk_inv_mono [OF assms(1)]) (auto simp: lnk_inv_def lnk_clock_def lnk_fresh_def)
qed

lemma inv_write_failed:
  assumes "lnk_inv T L s" "i < nreq s" "writeDone s i = None"
  shows "lnk_inv T L (s\<lparr>writeDone := (writeDone s)(i \<mapsto> False)\<rparr>)"
  using assms inv_current [OF assms(1)]
  by (intro lnk_inv_mono [OF assms(1)])
    (auto simp: lnk_inv_def lnk_clock_def lnk_fresh_def settled_def)

lemma inv_await:
  assumes "lnk_inv T L s" "rphase s = Writing i d" "writeDone s i = Some True"
  shows "lnk_inv T L (s\<lparr>rphase := AwaitReply i (lnow s + T)\<rparr>)"
  using assms inv_current [OF assms(1)]
  by (intro lnk_inv_mono [OF assms(1)])
    (auto simp: lnk_inv_def lnk_clock_def lnk_fresh_def)

lemma link_inv_quiet:
  assumes "lnk_inv T L s" "rphase s = AwaitReply i d" "d \<le> lnow s"
  shows "lnk_inv T L (s\<lparr>rphase := QuietPeriod i (lnow s + T * quietPeriodMultiplier)\<rparr>)"
  using assms inv_current [OF assms(1)]
  by (intro lnk_inv_mono [OF assms(1)])
    (auto simp: lnk_inv_def lnk_clock_def lnk_fresh_def)

text \<open>An answer that the contract of the radio admits is to the request that is waiting.\<close>

lemma mayAnswer_waiting:
  assumes "lnk_inv T L s" "mayAnswer L s i" "waiting s = Some w"
  shows "i = w"
proof -
  have "\<not> settled L s i" "i < nreq s"
    using assms(2) by (auto simp: mayAnswer_def settled_def split: option.splits)
  then show ?thesis using assms(1,3) by (auto simp: lnk_inv_def lnk_waiting_def)
qed

lemma inv_answer:
  assumes "lnk_inv T L s" "i < nreq s" "answer s i = None"
  shows "lnk_inv T L (s\<lparr>answer := (answer s)(i \<mapsto> m)\<rparr>)" (is "lnk_inv T L ?s")
proof -
  have w: "lnk_waiting L ?s"
    using assms(1) inv_current [OF assms(1)]
    by (intro lnk_waiting_mono [OF inv_waiting [OF assms(1)]]) (auto simp: lnk_inv_def settled_def)
  have "answers ?s j m'" if "answers s j m'" for j m'
    using that assms(3) by (auto simp: answers_def)
  then have "lnk_routes ?s" using assms(1) by (fastforce simp: lnk_inv_def lnk_routes_def)
  moreover have "lnk_clock T ?s"
    using assms(1) by (auto simp: lnk_inv_def lnk_clock_def)
  ultimately show ?thesis using assms w by (auto simp: lnk_inv_def lnk_fresh_def)
qed

lemma inv_route:
  assumes "lnk_inv T L s" "answers s w m" "w < nreq s"
  shows "lnk_inv T L (s\<lparr>routing := Some (w, m)\<rparr>)" (is "lnk_inv T L ?s")
proof -
  have "lnk_waiting L ?s"
    using assms(1) inv_current [OF assms(1)]
    by (intro lnk_waiting_mono [OF inv_waiting [OF assms(1)]]) (auto simp: lnk_inv_def settled_def)
  moreover have "lnk_clock T ?s"
    using assms(1) by (auto simp: lnk_inv_def lnk_clock_def)
  ultimately show ?thesis
    using assms by (auto simp: lnk_inv_def lnk_fresh_def lnk_routes_def answers_def)
qed

lemma link_inv_reply:
  assumes "lnk_inv T L s" "mayAnswer L s i" "DecodeMessage data = Inr m"
  shows "lnk_inv T L (dispatch data (s\<lparr>answer := (answer s)(i \<mapsto> m)\<rparr>))" (is "lnk_inv T L (dispatch data ?s)")
proof -
  have i: "i < nreq s" "answer s i = None" using assms(2) by (simp_all add: mayAnswer_def)
  have inv: "lnk_inv T L ?s" by (rule inv_answer [OF assms(1) i])
  have "lnk_inv T L (?s\<lparr>routing := Some (w, m)\<rparr>)" if "waiting s = Some w" "bCommand m = waitCmd s" for w
  proof (rule inv_route [OF inv])
    have "i = w" by (rule mayAnswer_waiting [OF assms(1,2) that(1)])
    then show "w < nreq ?s" "answers ?s w m"
      using i(1) that assms(1) by (simp_all add: answers_def lnk_inv_def lnk_waiting_def)
  qed
  with inv show ?thesis by (auto simp: dispatch_def assms(3) split: option.split)
qed

lemma dispatch_noise: "unsolicited data \<Longrightarrow> dispatch data s = s"
  by (auto simp: unsolicited_def dispatch_def isAnswer_def split: sum.splits)

lemma inv_send:
  assumes "lnk_inv T L s"
  shows "lnk_inv T L (dispatchSend s)"
proof (cases "routing s")
  case (Some wm)
  obtain w m where wm: "wm = (w, m)" by (cases wm)
  let ?s = "s\<lparr>routing := None, replyCh := (if replyCh s w = None then (replyCh s)(w \<mapsto> m) else replyCh s)\<rparr>"
  have r: "answers s w m" "\<not> nreq s \<le> w"
    using assms Some wm by (auto simp: lnk_inv_def lnk_routes_def lnk_fresh_def)
  have "lnk_waiting L ?s"
    using assms inv_current [OF assms] by (intro lnk_waiting_mono [OF inv_waiting [OF assms(1)]]) (auto simp: lnk_inv_def settled_def)
  moreover have "lnk_clock T ?s"
    using assms by (auto simp: lnk_inv_def lnk_clock_def)
  ultimately have "lnk_inv T L ?s"
    using assms r by (auto simp: lnk_inv_def lnk_fresh_def lnk_routes_def answers_def)
  then show ?thesis by (simp add: dispatchSend_def Some wm)
qed (use assms in \<open>simp add: dispatchSend_def\<close>)

text \<open>With a radio that answers within four timeouts, the quiet period is long enough.\<close>

lemma quiet_over_settled:
  assumes "lnk_inv T L s" "rphase s = QuietPeriod i d" "d \<le> lnow s" "L \<le> 4 * T"
  shows "settled L s i"
  using assms by (auto simp: lnk_inv_def lnk_clock_def settled_def quietPeriodMultiplier_def)

lemma received_settled: "\<lbrakk>lnk_inv T L s; replyCh s i = Some m\<rbrakk> \<Longrightarrow> settled L s i \<and> answers s i m"
  by (auto simp: lnk_inv_def lnk_routes_def answers_def settled_def)

lemma lnk_inv_step:
  assumes "lnk_step T L s s'" "lnk_inv T L s" "L \<le> 4 * T"
  shows "lnk_inv T L s'"
  using assms(1)
proof cases
  case (WriteTimedOut i d)
  then have "waiting s = Some i" using inv_current [OF assms(2)] by simp
  then show ?thesis unfolding WriteTimedOut writeTimeout_def by (intro inv_finish inv_close assms) auto
qed (use assms(2,3) inv_current [OF assms(2)] in
  \<open>auto intro!: inv_tick inv_close inv_start inv_landed inv_write_failed inv_await link_inv_quiet link_inv_reply inv_send
      inv_finish simp: dispatch_noise settled_def dest: received_settled quiet_over_settled\<close>)

lemma lnk_reach_inv: "\<lbrakk>lnk_reach T L s; L \<le> 4 * T\<rbrakk> \<Longrightarrow> lnk_inv T L s"
  by (induction rule: lnk_reach.induct) (auto intro: lnk_inv_new lnk_inv_step)

text \<open>
  The bound is exact: a radio that may answer one instant later can have its answer to an abandoned request
  handed to the next one.
\<close>

definition readReply :: bytes where
  "readReply = Message_Bytes \<lparr>Group = 2, IsReply = True, bCommand = CmdReadSettings, Body = [7]\<rparr>"

lemma DecodeMessage_readReply:
  "DecodeMessage readReply = Inr \<lparr>Group = 2, IsReply = True, bCommand = CmdReadSettings, Body = [7]\<rparr>"
  unfolding readReply_def by (rule DecodeMessage_Bytes) (simp add: CmdReadSettings_def replyBit_def)

lemma readSettings_not_event: "CmdReadSettings \<noteq> CmdEventNotification"
  by (simp add: cmd_defs)

lemma readSettings_encodable: "requestBytes CmdReadSettings [] \<noteq> []"
  by code_simp

text \<open>A request up to its wait for the reply, from a link without a request.\<close>

definition askSettings :: "nat \<Rightarrow> lnk \<Rightarrow> lnk" where
  "askSettings T s =
     (let i = nreq s; s = startRequest T CmdReadSettings [] s;
          s = s\<lparr>writeDone := (writeDone s)(i \<mapsto> True), landedAt := (landedAt s)(i \<mapsto> lnow s)\<rparr>
      in s\<lparr>rphase := AwaitReply i (lnow s + T)\<rparr>)"

text \<open>The answer to request \<open>i\<close> arrives and the request that waits, \<open>j\<close>, takes it.\<close>

definition replySettings :: "nat \<Rightarrow> nat \<Rightarrow> lnk \<Rightarrow> lnk" where
  "replySettings i j s =
     finishRequest j (Inr [7]) (dispatchSend (dispatch readReply (s\<lparr>answer := (answer s)(i \<mapsto>
       \<lparr>Group = 2, IsReply = True, bCommand = CmdReadSettings, Body = [7]\<rparr>)\<rparr>)))"

definition abandon :: "nat \<Rightarrow> nat \<Rightarrow> lnk \<Rightarrow> lnk" where
  "abandon T i s =
     (let s = s\<lparr>lnow := lnow s + T\<rparr>; s = s\<lparr>rphase := QuietPeriod i (lnow s + T * quietPeriodMultiplier)\<rparr>;
          s = s\<lparr>lnow := lnow s + T * quietPeriodMultiplier\<rparr>
      in finishRequest i (Inl ErrTimeout) s)"

lemma askSettings_reach:
  assumes "lnk_reach T L s" "rphase s = NoRequest" "\<not> lclosed s" "writeDone s (nreq s) = None"
  shows "lnk_reach T L (askSettings T s)"
proof -
  note start = lnk_reach.step [OF assms(1) Start [OF assms(2), where cmd = CmdReadSettings and body = "[]"]]
  note landed = lnk_reach.step [OF start Landed [where i = "nreq s"]]
  note written = lnk_reach.step [OF landed Written [where i = "nreq s" and d = "lnow s + T"]]
  show ?thesis
    using written assms(3,4) by (simp add: askSettings_def startRequest_def readSettings_encodable Let_def)
qed

lemma replySettings_reach:
  assumes "lnk_reach T L s" "rphase s = AwaitReply j d" "waiting s = Some j" "waitCmd s = CmdReadSettings"
    and "routing s = None" "replyCh s j = None" "mayAnswer L s i"
  shows "lnk_reach T L (replySettings i j s)"
proof -
  note reply = lnk_reach.step [OF assms(1) Reply [OF assms(5,7) DecodeMessage_readReply]]
  note send = lnk_reach.step [OF reply Send]
  note answered = lnk_reach.step [OF send Answered [where i = j and d = d]]
  show ?thesis
    using answered assms
    by (simp add: replySettings_def dispatch_def DecodeMessage_readReply dispatchSend_def cmd_defs)
qed

lemma abandon_reach:
  assumes "lnk_reach T L s" "rphase s = AwaitReply i d" "d \<le> lnow s + T"
  shows "lnk_reach T L (abandon T i s)"
proof -
  note t1 = lnk_reach.step [OF assms(1) Tick [where n = T]]
  note q = lnk_reach.step [OF t1 ReplyTimedOut [where i = i and d = d]]
  note t2 = lnk_reach.step [OF q Tick [where n = "T * quietPeriodMultiplier"]]
  note over = lnk_reach.step [OF t2 QuietOver [where i = i and d = "lnow s + T + T * quietPeriodMultiplier"]]
  show ?thesis using over assms(2,3) by (simp add: abandon_def)
qed

lemmas run_defs = askSettings_def replySettings_def abandon_def startRequest_def finishRequest_def newLink_def
  dispatch_def dispatchSend_def DecodeMessage_readReply readSettings_encodable mayAnswer_def quietPeriodMultiplier_def
  readSettings_not_event Let_def

lemma exchange_reach: "lnk_reach T (L + 1) (replySettings 0 0 (askSettings T newLink))"
  by (rule replySettings_reach [where d = T], rule askSettings_reach, rule lnk_reach.init)
    (simp_all add: run_defs)

lemma late_reply_misattributed:
  "\<exists>s. lnk_reach T (4 * T + 1) s \<and> (1, Inr [7]) \<in> set (results s) \<and> answer s 1 = None"
proof (intro exI conjI)
  let ?s = "replySettings 0 1 (askSettings T (abandon T 0 (askSettings T newLink)))"
  have "lnk_reach T (4 * T + 1) (askSettings T newLink)"
    by (rule askSettings_reach, rule lnk_reach.init) (simp_all add: newLink_def)
  then have "lnk_reach T (4 * T + 1) (abandon T 0 (askSettings T newLink))"
    by (rule abandon_reach [where d = T]) (simp_all add: run_defs)
  then have "lnk_reach T (4 * T + 1) (askSettings T (abandon T 0 (askSettings T newLink)))"
    by (rule askSettings_reach) (simp_all add: run_defs)
  then show "lnk_reach T (4 * T + 1) ?s"
    by (rule replySettings_reach [where d = "5 * T"]) (simp_all add: run_defs)
  show "(1, Inr [7]) \<in> set (results ?s)" "answer ?s 1 = None" by (simp_all add: run_defs)
qed

end
