(* ===== verification/Rig_Cache.thy ===== *)
theory Rig_Cache
  imports Rig
begin

text \<open>
  The rigs of a bridge (\<open>RigFor\<close>, \<open>invalidateRig\<close> in \<^verbatim>\<open>src/internal/bridge/bridge.go\<close>, \<open>withRig\<close> in
  \<^verbatim>\<open>riggate.go\<close>, \<open>rigForPort\<close> in \<^verbatim>\<open>src/internal/app/app.go\<close>): one rig per port, bound to the transport it
  was built on, and the state of a radio that must be restored, handed from a dead rig to the next one.

  A rig is an index into \<open>store\<close>: goroutines keep using a rig after the bridge has dropped it. A port is
  \<open>None\<close> when it holds no KISS port, or the number of its \<open>*kiss.Port\<close> and whether it is online. Whether
  the port gives out its control channel is an argument of \<open>RigFor\<close>.
\<close>

section \<open>State\<close>

record rcache =
  cports :: "(nat \<times> bool) option list"
  rigs :: "(nat \<times> nat) option list"
  rigSessions :: "SessionState list"
  store :: "rig list"

definition noState :: SessionState where
  "noState = \<lparr>ssSess = noSession, ssOrig = \<lparr>rfRaw = []\<rparr>, ssOrigOK = False\<rparr>"

text \<open>\<open>initLastRX\<close> sizes both by the number of ports.\<close>

definition newCache :: "nat \<Rightarrow> rcache" where
  "newCache n = \<lparr>cports = replicate n None, rigs = replicate n None, rigSessions = replicate n noState, store = []\<rparr>"

datatype rigfor_error = OutOfRange int | Offline int | NoControl int

section \<open>Operations\<close>

definition closeRig :: "rcache \<Rightarrow> nat \<Rightarrow> rcache" where
  "closeRig c r = c\<lparr>store := (store c)[r := (store c ! r)\<lparr>rclosed := True\<rparr>]\<rparr>"

definition invalidateRig :: "rcache \<Rightarrow> int \<Rightarrow> rcache" where
  "invalidateRig c port =
     (if port < 0 \<or> port \<ge> int (length (rigs c)) then c
      else (case rigs c ! nat port of
              None \<Rightarrow> c
            | Some (kp, r) \<Rightarrow>
                let st = Rig_SessionState (store c ! r);
                    c = (if SessionState_Held st \<and> nat port < length (rigSessions c)
                         then c\<lparr>rigSessions := (rigSessions c)[nat port := st]\<rparr> else c);
                    c = closeRig c r
                in c\<lparr>rigs := (rigs c)[nat port := None]\<rparr>))"

definition cachedRig :: "rcache \<Rightarrow> int \<Rightarrow> nat \<Rightarrow> nat option" where
  "cachedRig c port kp =
     (if nat port < length (rigs c)
      then (case rigs c ! nat port of
              Some (k, r) \<Rightarrow> if k = kp \<and> \<not> rclosed (store c ! r) then Some r else None
            | None \<Rightarrow> None)
      else None)"

definition RigFor :: "bool \<Rightarrow> int list \<Rightarrow> rcache \<Rightarrow> int \<Rightarrow> rcache \<times> (rigfor_error + nat)" where
  "RigFor ctl vfoMins c port =
     (if port < 0 \<or> port \<ge> int (length (cports c)) then (c, Inl (OutOfRange port))
      else (case cports c ! nat port of
              None \<Rightarrow> (invalidateRig c port, Inl (Offline port))
            | Some (kp, online) \<Rightarrow>
                if \<not> online then (invalidateRig c port, Inl (Offline port))
                else (case cachedRig c port kp of
                        Some r \<Rightarrow> (c, Inr r)
                      | None \<Rightarrow>
                          let c = invalidateRig c port;
                              carried = (if nat port < length (rigSessions c) then rigSessions c ! nat port else noState)
                          in if \<not> ctl then (c, Inl (NoControl port))
                             else let vfoMin = (if nat port < length vfoMins then vfoMins ! nat port else 0);
                                      r = length (store c);
                                      c = c\<lparr>store := store c @ [AdoptSession (newRig vfoMin) carried]\<rparr>;
                                      c = (if nat port < length (rigSessions c)
                                           then c\<lparr>rigSessions := (rigSessions c)[nat port := noState]\<rparr> else c);
                                      c = (if nat port < length (rigs c)
                                           then c\<lparr>rigs := (rigs c)[nat port := Some (kp, r)]\<rparr> else c)
                                  in (c, Inr r))))"

text \<open>\<open>withRig\<close>: the rig is resolved on the loop and used off it.\<close>

definition withRig :: "bool \<Rightarrow> int list \<Rightarrow> rcache \<Rightarrow> int \<Rightarrow> ('e, 'a) act \<Rightarrow> 'e \<Rightarrow> rcache \<times> 'e \<times> (rigfor_error + (rig_error + 'a))"
  where
  "withRig ctl vfoMins c port fn e =
     (case RigFor ctl vfoMins c port of
        (c, Inl x) \<Rightarrow> (c, e, Inl x)
      | (c, Inr r) \<Rightarrow> (case fn (e, store c ! r) of ((e, rg), x) \<Rightarrow> (c\<lparr>store := (store c)[r := rg]\<rparr>, e, Inr x)))"

section \<open>What a port owes its radio\<close>

definition rigNo :: "rcache \<Rightarrow> nat \<Rightarrow> nat option" where
  "rigNo c p = map_option snd (rigs c ! p)"

definition owed :: "rcache \<Rightarrow> nat \<Rightarrow> SessionState" where
  "owed c p = (case rigNo c p of Some r \<Rightarrow> Rig_SessionState (store c ! r) | None \<Rightarrow> rigSessions c ! p)"

text \<open>Rigs are not shared by ports, and a port with a rig has nothing stored beside it.\<close>

definition slot_ok :: "rcache \<Rightarrow> nat \<Rightarrow> bool" where
  "slot_ok c p \<longleftrightarrow> (\<forall>r. rigNo c p = Some r \<longrightarrow> r < length (store c) \<and> \<not> SessionState_Held (rigSessions c ! p))"

definition rc_inv :: "rcache \<Rightarrow> bool" where
  "rc_inv c \<longleftrightarrow>
     length (rigs c) = length (cports c) \<and> length (rigSessions c) = length (cports c)
     \<and> (\<forall>p<length (cports c). slot_ok c p)
     \<and> (\<forall>p<length (cports c). \<forall>q<length (cports c). p \<noteq> q \<longrightarrow> rigNo c p = rigNo c q \<longrightarrow> rigNo c p = None)"

text \<open>
  Steps of the cache: a port is resolved, a port changes its transport or its state, a rig closes by itself.
  Steps of the goroutines: an operation of a rig, still in use or long dropped, leaves it in any state.
\<close>

inductive cache_step :: "rcache \<Rightarrow> rcache \<Rightarrow> bool" where
  resolve: "cache_step c (fst (RigFor ctl vfoMins c port))"
| drop: "cache_step c (invalidateRig c port)"
| port: "cache_step c (c\<lparr>cports := (cports c)[p := kp]\<rparr>)"
| poison: "r < length (store c) \<Longrightarrow> cache_step c (closeRig c r)"

inductive rc_step :: "rcache \<Rightarrow> rcache \<Rightarrow> bool" where
  cache: "cache_step c c' \<Longrightarrow> rc_step c c'"
| operate: "r < length (store c) \<Longrightarrow> rc_step c (c\<lparr>store := (store c)[r := rg]\<rparr>)"

lemma SessionState_close [simp]: "Rig_SessionState (r\<lparr>rclosed := b\<rparr>) = Rig_SessionState r"
  by (simp add: Rig_SessionState_def)

lemma noState_not_held [simp]: "\<not> SessionState_Held noState"
  by (simp add: SessionState_Held_def noState_def noSession_def)

lemma newRig_state [simp]: "\<not> held (sess (newRig v))" "\<not> origOK (newRig v)" "\<not> rclosed (newRig v)"
  by (simp_all add: newRig_def noSession_def)

text \<open>A new rig takes over exactly what is owed.\<close>

lemma adopt_state:
  "SessionState_Held s \<Longrightarrow> Rig_SessionState (AdoptSession (newRig v) s) = s"
  "\<not> SessionState_Held s \<Longrightarrow> \<not> SessionState_Held (Rig_SessionState (AdoptSession (newRig v) s))"
  "\<not> rclosed (AdoptSession (newRig v) s)"
  by (simp_all add: AdoptSession_def Rig_SessionState_def SessionState_Held_def)

lemma rc_inv_new: "rc_inv (newCache n)"
  by (simp add: rc_inv_def newCache_def slot_ok_def rigNo_def)

lemma rc_inv_cong:
  assumes "rc_inv c" "length (cports c') = length (cports c)" "rigs c' = rigs c" "rigSessions c' = rigSessions c"
    and "length (store c') = length (store c)"
  shows "rc_inv c'"
proof -
  have "rigNo c' p = rigNo c p" for p using assms by (simp add: rigNo_def)
  then show ?thesis using assms unfolding rc_inv_def slot_ok_def by presburger
qed

lemma rigNo_update:
  "rigNo (c\<lparr>rigs := (rigs c)[p := x]\<rparr>) q = (if p = q \<and> p < length (rigs c) then map_option snd x else rigNo c q)"
  "rigNo (c\<lparr>rigSessions := ss\<rparr>) q = rigNo c q" "rigNo (c\<lparr>store := st\<rparr>) q = rigNo c q" "rigNo (c\<lparr>cports := ps\<rparr>) q = rigNo c q"
  "rigNo (closeRig c r) q = rigNo c q"
  by (cases "p < length (rigs c)"; cases "p = q"; simp add: rigNo_def closeRig_def list_update_beyond)+

lemma closeRig_simps [simp]: "rigs (closeRig c r) = rigs c" "rigSessions (closeRig c r) = rigSessions c"
  "cports (closeRig c r) = cports c" "length (store (closeRig c r)) = length (store c)"
  by (simp_all add: closeRig_def)

lemma rc_inv_close: "rc_inv c \<Longrightarrow> rc_inv (closeRig c r)"
  by (erule rc_inv_cong) simp_all

lemma store_close: "Rig_SessionState (store (closeRig c r) ! q) = Rig_SessionState (store c ! q)"
  by (cases "r < length (store c)") (auto simp: closeRig_def nth_list_update list_update_beyond)

lemma owed_close [simp]: "owed (closeRig c r) p = owed c p"
  by (simp add: owed_def store_close rigNo_update split: option.split)

text \<open>\<open>invalidateRig\<close>, for a port with a rig and without.\<close>

lemma invalidateRig_cases:
  assumes "rc_inv c"
  obtains (same) "invalidateRig c port = c" "port < 0 \<or> port \<ge> int (length (cports c)) \<or> rigNo c (nat port) = None"
  | (drop) r where "0 \<le> port" "nat port < length (cports c)" "rigNo c (nat port) = Some r"
      "invalidateRig c port =
         closeRig (c\<lparr>rigSessions := (rigSessions c)[nat port := (if SessionState_Held (owed c (nat port)) then owed c (nat port)
            else rigSessions c ! nat port)], rigs := (rigs c)[nat port := None]\<rparr>) r"
proof (cases "port < 0 \<or> port \<ge> int (length (cports c)) \<or> rigNo c (nat port) = None")
  case True
  then show ?thesis using assms by (intro same) (auto simp: invalidateRig_def rc_inv_def rigNo_def)
next
  case False
  then obtain kp r where r: "rigs c ! nat port = Some (kp, r)" by (auto simp: rigNo_def)
  then have n: "rigNo c (nat port) = Some r" by (simp add: rigNo_def)
  show ?thesis
    using False r n assms
    by (intro drop) (auto simp: invalidateRig_def rc_inv_def owed_def closeRig_def Let_def)
qed

lemma rc_inv_set:
  assumes "rc_inv c" "p < length (cports c)"
    and "\<And>kp r. x = Some (kp, r) \<Longrightarrow> r < length (store c) \<and> \<not> SessionState_Held st \<and> (\<forall>q<length (cports c). q \<noteq> p \<longrightarrow> rigNo c q \<noteq> Some r)"
  shows "rc_inv (c\<lparr>rigSessions := (rigSessions c)[p := st], rigs := (rigs c)[p := x]\<rparr>)" (is "rc_inv ?c")
proof -
  have no: "rigNo ?c q = (if q = p then map_option snd x else rigNo c q)" if "q < length (cports c)" for q
    using assms that by (auto simp: rc_inv_def rigNo_def)
  have old: "slot_ok c q" if "q < length (cports c)" for q using assms(1) that by (simp add: rc_inv_def)
  have inj: "rigNo c a = None" if "a < length (cports c)" "b < length (cports c)" "a \<noteq> b" "rigNo c a = rigNo c b" for a b
    using assms(1) that by (metis rc_inv_def)
  have len: "length (rigSessions c) = length (cports c)" using assms(1) by (simp add: rc_inv_def)
  have "slot_ok ?c q" if "q < length (cports c)" for q
  proof (cases "q = p")
    case True
    show ?thesis using assms(2,3) no [OF that] True len by (cases x) (auto simp: slot_ok_def)
  next
    case False
    show ?thesis using old [OF that] no [OF that] False by (simp add: slot_ok_def)
  qed
  moreover have "rigNo ?c a = None" if "a < length (cports c)" "b < length (cports c)" "a \<noteq> b" "rigNo ?c a = rigNo ?c b" for a b
  proof (cases x)
    case None
    then show ?thesis using that no [OF that(1)] no [OF that(2)] inj [OF that(1-3)] by (auto split: if_splits)
  next
    case (Some kr)
    obtain kp r where kr: "kr = (kp, r)" by (cases kr)
    have "rigNo c q \<noteq> Some r" if "q < length (cports c)" "q \<noteq> p" for q using assms(3) [of kp r] Some kr that by blast
    then show ?thesis using that no [OF that(1)] no [OF that(2)] inj [OF that(1-3)] Some kr
      by (auto split: if_splits)
  qed
  ultimately show ?thesis using assms by (simp add: rc_inv_def)
qed

lemma invalidateRig_inv:
  assumes "rc_inv c"
  shows "rc_inv (invalidateRig c port)"
  using assms
proof (cases rule: invalidateRig_cases [where port = port])
  case (drop r)
  show ?thesis unfolding drop(4) by (intro rc_inv_close rc_inv_set) (use assms drop in auto)
qed (use assms in simp)

lemma invalidateRig_cports [simp]: "rc_inv c \<Longrightarrow> cports (invalidateRig c port) = cports c"
  by (cases rule: invalidateRig_cases [where port = port]) auto

lemma invalidateRig_rigNo:
  assumes "rc_inv c" "p < length (cports c)" "0 \<le> port"
  shows "rigNo (invalidateRig c port) p = (if p = nat port then None else rigNo c p)"
  using assms(1)
proof (cases rule: invalidateRig_cases [where port = port])
  case same
  then show ?thesis using assms by auto
next
  case (drop r)
  then show ?thesis using assms by (simp add: rigNo_update(5)) (auto simp: rigNo_def rc_inv_def)
qed

text \<open>Dropping a rig keeps what its port and every other port owe.\<close>

lemma invalidateRig_owed:
  assumes "rc_inv c" "p < length (cports c)"
  shows "owed (invalidateRig c port) p = owed c p
    \<or> \<not> SessionState_Held (owed c p) \<and> \<not> SessionState_Held (owed (invalidateRig c port) p)"
  using assms(1)
proof (cases rule: invalidateRig_cases [where port = port])
  case (drop r)
  have l: "nat port < length (rigs c)" "nat port < length (rigSessions c)" "\<not> SessionState_Held (rigSessions c ! nat port)"
    using assms drop by (auto simp: rc_inv_def slot_ok_def)
  show ?thesis
    unfolding drop(4) owed_close using l drop(3)
    by (cases "p = nat port") (auto simp: owed_def rigNo_def split: option.splits)
qed simp

text \<open>\<open>RigFor\<close>: the port fails, the rig of the port is still good, or a new one takes what is owed.\<close>

lemma RigFor_cases:
  assumes "rc_inv c"
  obtains (error) e where "RigFor ctl vs c port = (c, Inl e) \<or> RigFor ctl vs c port = (invalidateRig c port, Inl e)"
  | (cached) r where "RigFor ctl vs c port = (c, Inr r)" "0 \<le> port" "nat port < length (cports c)" "rigNo c (nat port) = Some r"
      "\<not> rclosed (store c ! r)"
  | (fresh) v kp d where "d = invalidateRig c port" "0 \<le> port" "nat port < length (cports c)" "rigNo d (nat port) = None"
      "RigFor ctl vs c port =
         (d\<lparr>store := store d @ [AdoptSession (newRig v) (owed d (nat port))],
            rigSessions := (rigSessions d)[nat port := noState], rigs := (rigs d)[nat port := Some (kp, length (store d))]\<rparr>,
          Inr (length (store d)))"
proof (cases "port < 0 \<or> port \<ge> int (length (cports c))")
  case True
  then show ?thesis by (intro error [of "OutOfRange port"]) (simp add: RigFor_def)
next
  case False
  then have p: "0 \<le> port" "nat port < length (cports c)" by auto
  show ?thesis
  proof (cases "cports c ! nat port")
    case None
    then show ?thesis using False by (intro error [of "Offline port"]) (simp add: RigFor_def)
  next
    case (Some ko)
    obtain kp on where ko: "ko = (kp, on)" by (cases ko)
    let ?d = "invalidateRig c port"
    have d: "rc_inv ?d" "cports ?d = cports c" "rigNo ?d (nat port) = None"
      using assms p by (simp_all add: invalidateRig_inv invalidateRig_rigNo)
    have l: "nat port < length (rigs ?d)" "nat port < length (rigSessions ?d)"
      using d p by (simp_all add: rc_inv_def)
    consider "\<not> on" | r where "on" "cachedRig c port kp = Some r" | "on" "cachedRig c port kp = None" "\<not> ctl"
      | "on" "cachedRig c port kp = None" "ctl" by (cases "cachedRig c port kp") auto
    then show ?thesis
    proof cases
      case 1
      then show ?thesis using False Some ko by (intro error [of "Offline port"]) (simp add: RigFor_def)
    next
      case (2 r)
      then have "rigNo c (nat port) = Some r" "\<not> rclosed (store c ! r)"
        by (auto simp: cachedRig_def rigNo_def split: if_splits option.splits prod.splits)
      then show ?thesis using 2 False Some ko p by (intro cached [of r]) (simp_all add: RigFor_def)
    next
      case 3
      then show ?thesis using False Some ko by (intro error [of "NoControl port"]) (simp add: RigFor_def Let_def)
    next
      case 4
      have o: "owed ?d (nat port) = rigSessions ?d ! nat port" using d(3) by (simp add: owed_def)
      show ?thesis
        using 4 False Some ko l d
        by (intro fresh [where d = ?d and kp = kp and v = "if nat port < length vs then vs ! nat port else 0"])
          (simp_all add: RigFor_def Let_def p o)
    qed
  qed
qed

lemma rc_inv_grow:
  assumes "rc_inv c"
  shows "rc_inv (c\<lparr>store := store c @ [x]\<rparr>)"
  using assms by (auto simp: rc_inv_def slot_ok_def rigNo_update)

lemma rigNo_below: "\<lbrakk>rc_inv c; p < length (cports c); rigNo c p = Some r\<rbrakk> \<Longrightarrow> r < length (store c)"
  by (auto simp: rc_inv_def slot_ok_def)

lemma RigFor_inv:
  assumes "rc_inv c"
  shows "rc_inv (fst (RigFor ctl vs c port))"
  using assms
proof (cases rule: RigFor_cases [where ctl = ctl and vs = vs and port = port])
  case (fresh v kp d)
  have d: "rc_inv d" "length (cports d) = length (cports c)" using assms fresh(1) by (simp_all add: invalidateRig_inv)
  let ?x = "AdoptSession (newRig v) (owed d (nat port))"
  have no: "rigNo (d\<lparr>store := store d @ [?x]\<rparr>) q \<noteq> Some (length (store d))" if "q < length (cports d)" for q
    using rigNo_below [OF d(1) that, of "length (store d)"] by (auto simp: rigNo_update)
  have "rc_inv ((d\<lparr>store := store d @ [?x]\<rparr>)\<lparr>rigSessions := (rigSessions (d\<lparr>store := store d @ [?x]\<rparr>))[nat port := noState],
      rigs := (rigs (d\<lparr>store := store d @ [?x]\<rparr>))[nat port := Some (kp, length (store d))]\<rparr>)"
    by (rule rc_inv_set [OF rc_inv_grow [OF d(1)]]) (use fresh(3) d(2) no in auto)
  then show ?thesis by (simp add: fresh(5))
qed (use assms in \<open>auto simp: invalidateRig_inv\<close>)

text \<open>\<open>owes_same\<close>: what is owed stays owed, and nothing new is.\<close>

definition owes_same :: "rcache \<Rightarrow> rcache \<Rightarrow> nat \<Rightarrow> bool" where
  "owes_same c d p \<longleftrightarrow> owed d p = owed c p \<or> \<not> SessionState_Held (owed c p) \<and> \<not> SessionState_Held (owed d p)"

lemma owes_same_refl [simp]: "owes_same c c p"
  by (simp add: owes_same_def)

lemma owes_same_trans: "\<lbrakk>owes_same c d p; owes_same d e p\<rbrakk> \<Longrightarrow> owes_same c e p"
  by (auto simp: owes_same_def)

lemma owed_fresh:
  assumes "rc_inv d" "n < length (cports d)" "rigNo d n = None" "p < length (cports d)"
  shows "owes_same d (d\<lparr>store := store d @ [AdoptSession (newRig v) (owed d n)],
     rigSessions := (rigSessions d)[n := noState], rigs := (rigs d)[n := Some (kp, length (store d))]\<rparr>) p" (is "owes_same d ?e p")
proof (cases "p = n")
  case True
  have "rigNo ?e n = Some (length (store d))" using assms(1,2) by (simp add: rigNo_def rc_inv_def)
  then have "owed ?e n = Rig_SessionState (AdoptSession (newRig v) (owed d n))" by (simp add: owed_def)
  then show ?thesis using adopt_state(1,2) [of "owed d n" v] True by (auto simp: owes_same_def)
next
  case False
  have "rigNo ?e p = rigNo d p" using False by (simp add: rigNo_def)
  moreover have "rigNo d p = Some r \<Longrightarrow> store ?e ! r = store d ! r" for r
    using rigNo_below [OF assms(1,4)] by (simp add: nth_append)
  ultimately have "owed ?e p = owed d p" using False by (auto simp: owed_def split: option.split)
  then show ?thesis by (simp add: owes_same_def)
qed

lemma RigFor_owes_same:
  assumes "rc_inv c" "p < length (cports c)"
  shows "owes_same c (fst (RigFor ctl vs c port)) p"
proof -
  have inv: "owes_same c (invalidateRig c port) p" using invalidateRig_owed [OF assms] by (auto simp: owes_same_def)
  show ?thesis
    using assms(1)
  proof (cases rule: RigFor_cases [where ctl = ctl and vs = vs and port = port])
    case (fresh v kp d)
    have d: "rc_inv d" "length (cports d) = length (cports c)" using assms fresh(1) by (simp_all add: invalidateRig_inv)
    show ?thesis
      using owes_same_trans [OF inv [folded fresh(1)] owed_fresh [OF d(1) _ fresh(4), where p = p and v = v and kp = kp]] fresh(3,5) d(2) assms(2) by simp
  qed (use inv in auto)
qed

lemma cache_step_ports: "cache_step c c' \<Longrightarrow> rc_inv c \<Longrightarrow> length (cports c') = length (cports c)"
proof (induction rule: cache_step.induct)
  case (resolve c ctl vs port)
  then show ?case
    by (cases rule: RigFor_cases [where ctl = ctl and vs = vs and port = port, OF resolve]) auto
qed auto

lemma rc_inv_ports: "rc_inv c \<Longrightarrow> rc_inv (c\<lparr>cports := (cports c)[p := kp]\<rparr>)"
  and rc_inv_operate: "rc_inv c \<Longrightarrow> rc_inv (c\<lparr>store := (store c)[r := rg]\<rparr>)"
  by (erule rc_inv_cong; simp)+

lemma owed_ports: "owed (c\<lparr>cports := ps\<rparr>) p = owed c p"
  by (simp add: owed_def rigNo_update split: option.split)

lemma cache_step_inv: "cache_step c c' \<Longrightarrow> rc_inv c \<Longrightarrow> rc_inv c'"
  by (induction rule: cache_step.induct)
    (auto intro: RigFor_inv invalidateRig_inv rc_inv_close rc_inv_ports)

lemma cache_step_owes_same: "\<lbrakk>cache_step c c'; rc_inv c; p < length (cports c)\<rbrakk> \<Longrightarrow> owes_same c c' p"
  by (induction rule: cache_step.induct)
    (use invalidateRig_owed RigFor_owes_same in \<open>auto simp: owes_same_def owed_ports\<close>)

lemma rc_step_inv: "rc_step c c' \<Longrightarrow> rc_inv c \<Longrightarrow> rc_inv c'"
  by (induction rule: rc_step.induct) (auto intro: cache_step_inv rc_inv_operate)

lemma rc_steps_ports: "\<lbrakk>rc_step\<^sup>*\<^sup>* c c'; rc_inv c\<rbrakk> \<Longrightarrow> length (cports c') = length (cports c)"
proof (induction rule: converse_rtranclp_induct)
  case (step c d)
  have "length (cports d) = length (cports c)" using step(1,4) by cases (auto dest: cache_step_ports)
  then show ?case using step rc_step_inv by metis
qed simp

interpretation rig_cache: invariant_system "\<lambda>c. c = newCache n" rc_step rc_inv
  by unfold_locales (auto intro: rc_inv_new rc_step_inv)

lemma cache_steps_keep:
  assumes "cache_step\<^sup>*\<^sup>* c c'" "rc_inv c" "p < length (cports c)"
  shows "owes_same c c' p \<and> rc_inv c' \<and> p < length (cports c')"
  using assms
proof (induction rule: rtranclp_induct)
  case (step d e)
  then show ?case by (auto dest: cache_step_inv cache_step_ports cache_step_owes_same intro: owes_same_trans)
qed auto

text \<open>The rig that \<open>RigFor\<close> gives out is open, and owes what the port owes.\<close>

lemma RigFor_owes:
  assumes "rc_inv c" "RigFor ctl vs c (int p) = (c', Inr r)"
  shows "p < length (cports c) \<and> \<not> rclosed (store c' ! r) \<and> owed c' p = Rig_SessionState (store c' ! r)"
  using assms(1)
proof (cases rule: RigFor_cases [where ctl = ctl and vs = vs and port = "int p"])
  case (fresh v kp d)
  have d: "rc_inv d" "length (cports d) = length (cports c)" using assms fresh(1) by (simp_all add: invalidateRig_inv)
  have e: "c' = d\<lparr>store := store d @ [AdoptSession (newRig v) (owed d p)], rigSessions := (rigSessions d)[p := noState],
      rigs := (rigs d)[p := Some (kp, length (store d))]\<rparr>" "r = length (store d)"
    using assms(2) fresh(5) by auto
  have "rigNo c' p = Some r" using d fresh(3) by (simp add: e rigNo_def rc_inv_def)
  then have "owed c' p = Rig_SessionState (store c' ! r)" by (simp add: owed_def)
  then show ?thesis using fresh(3) adopt_state(3) by (simp add: e)
qed (use assms(2) in \<open>auto simp: owed_def\<close>)

text \<open>
  What an operation leaves in a rig that was dropped while it ran is owed by no port: nothing will restore it.
\<close>

lemma dropped_rig_forgotten:
  assumes "rigNo c p \<noteq> Some r"
  shows "owed (c\<lparr>store := (store c)[r := rg]\<rparr>) p = owed c p"
  using assms by (auto simp: owed_def rigNo_update split: option.splits)

end
