(* ===== verification/Rig_Gate.thy ===== *)
theory Rig_Gate
  imports Prelude
begin

text \<open>
  The rig gate (\<^verbatim>\<open>src/internal/bridge/riggate.go\<close>): it counts who uses a port's radio for packet and
  drives the radio into and out of packet configuration from goroutines of its own.

  Every critical section of the mutex is one step.  A call of \<open>reconcile\<close> that has not taken the mutex yet
  is counted in \<open>calls\<close>.  A worker is a goroutine in \<open>drain\<close>: \<open>Ready\<close> before a call of \<open>step\<close>, \<open>Doing\<close> while
  it holds the I/O mutex for an apply or a release, \<open>Leaving\<close> once its loop has ended; the ones
  \<open>reconcile\<close> started clear \<open>busy\<close> when they are gone.  The radio I/O is a parameter of the steps: it
  succeeds or fails.
\<close>

section \<open>State\<close>

datatype phase = Ready | Doing bool | Leaving

record gate =
  sessions :: int
  gclients :: int
  qsy :: bool
  actual :: bool
  busy :: bool
  releaseFailures :: nat
  retry :: bool
  disabled :: bool
  calls :: nat
  workers :: "(bool \<times> phase) list"
  inPacket :: bool

text \<open>\<open>inPacket\<close> is the radio: what the last apply or release that succeeded made it.\<close>

definition newRigGate :: gate where
  "newRigGate = \<lparr>sessions = 0, gclients = 0, qsy = False, actual = False, busy = False, releaseFailures = 0, retry = False,
     disabled = False, calls = 0, workers = [], inPacket = False\<rparr>"

definition desiredLocked :: "gate \<Rightarrow> bool" where
  "desiredLocked g \<longleftrightarrow> (sessions g > 0 \<or> gclients g > 0) \<and> (sessions g > 0 \<or> qsy g)"

definition releaseRetryDelays :: "int list" where
  "releaseRetryDelays = [2, 10, 30, 60]"

section \<open>Operations\<close>

definition setSessions :: "gate \<Rightarrow> int \<Rightarrow> gate" where
  "setSessions g n = (if disabled g then g else g\<lparr>sessions := n, calls := calls g + 1\<rparr>)"

definition addClient :: "gate \<Rightarrow> gate" where
  "addClient g = (if disabled g then g else g\<lparr>gclients := gclients g + 1, calls := calls g + 1\<rparr>)"

definition removeClient :: "gate \<Rightarrow> gate" where
  "removeClient g = g\<lparr>gclients := (if gclients g > 0 then gclients g - 1 else gclients g), calls := calls g + 1\<rparr>"

text \<open>The tune itself runs the loop; its worker does not own \<open>busy\<close>.\<close>

definition acquireForQSY :: "gate \<Rightarrow> gate" where
  "acquireForQSY g = (if disabled g then g else g\<lparr>qsy := True, workers := workers g @ [(False, Ready)]\<rparr>)"

definition reconcile :: "gate \<Rightarrow> gate" where
  "reconcile g =
     (if busy g \<or> desiredLocked g = actual g then g
      else g\<lparr>busy := True, workers := workers g @ [(True, Ready)]\<rparr>)"

text \<open>\<open>step\<close> up to its I/O, with the I/O mutex taken: the direction, or nothing to do.\<close>

definition stepBegin :: "gate \<Rightarrow> phase" where
  "stepBegin g = (if desiredLocked g = actual g then Leaving else Doing (desiredLocked g))"

definition scheduleRetryLocked :: "gate \<Rightarrow> gate" where
  "scheduleRetryLocked g = g\<lparr>retry := releaseFailures g - 1 < length releaseRetryDelays\<rparr>"

text \<open>\<open>step\<close> after its I/O, and what the loop of \<open>drain\<close> does next.\<close>

definition stepEnd :: "gate \<Rightarrow> bool \<Rightarrow> bool \<Rightarrow> gate \<times> phase" where
  "stepEnd g want ok =
     (if ok then
        (let g = g\<lparr>actual := want, inPacket := want\<rparr>
         in if \<not> want then (g\<lparr>qsy := False, releaseFailures := 0, retry := False\<rparr>, Ready) else (g, Ready))
      else if \<not> want then (scheduleRetryLocked (g\<lparr>releaseFailures := releaseFailures g + 1\<rparr>), Leaving)
      else (g, Leaving))"

text \<open>
  Shutdown: the counts are cleared, and a radio that is held is released with the result \<open>ok\<close>.
\<close>

definition shutdownWith :: "gate \<Rightarrow> bool \<Rightarrow> gate" where
  "shutdownWith g ok =
     (let held = actual g; g = g\<lparr>sessions := 0, gclients := 0, qsy := False, retry := False\<rparr>
      in if held \<and> ok then g\<lparr>actual := False, inPacket := False\<rparr> else g)"

section \<open>The gates of a bridge\<close>

definition onGate :: "(gate \<Rightarrow> gate) \<Rightarrow> gate option list \<Rightarrow> int \<Rightarrow> gate option list" where
  "onGate f gs port =
     (if port < 0 \<or> port \<ge> int (length gs) \<or> gs ! nat port = None then gs
      else gs[nat port := Some (f (the (gs ! nat port)))])"

definition initRigGates :: "nat \<Rightarrow> bool list \<Rightarrow> gate option list" where
  "initRigGates n en = map (\<lambda>i. if i \<ge> length en \<or> \<not> en ! i then None else Some newRigGate) [0..<n]"

definition onPortSessions :: "gate option list \<Rightarrow> int \<Rightarrow> int \<Rightarrow> gate option list" where
  "onPortSessions gs port n = onGate (\<lambda>g. setSessions g n) gs port"

definition RigClientConnected :: "gate option list \<Rightarrow> int \<Rightarrow> gate option list" where
  "RigClientConnected gs port = onGate addClient gs port"

definition RigClientDisconnected :: "gate option list \<Rightarrow> int \<Rightarrow> gate option list" where
  "RigClientDisconnected gs port = onGate removeClient gs port"

definition RigAcquireForQSY :: "gate option list \<Rightarrow> int \<Rightarrow> gate option list" where
  "RigAcquireForQSY gs port = onGate acquireForQSY gs port"

definition DisableRigSettings :: "gate option list \<Rightarrow> int \<Rightarrow> gate option list" where
  "DisableRigSettings gs port = onGate (\<lambda>g. g\<lparr>disabled := True\<rparr>) gs port"

definition RigPortBack :: "gate option list \<Rightarrow> int \<Rightarrow> gate option list" where
  "RigPortBack gs port = onGate (\<lambda>g. g\<lparr>calls := calls g + 1\<rparr>) gs port"

section \<open>The gate as a transition system\<close>

definition idleIO :: "gate \<Rightarrow> bool" where
  "idleIO g \<longleftrightarrow> (\<forall>(k, p)\<in>set (workers g). \<forall>d. p \<noteq> Doing d)"

inductive gate_step :: "gate \<Rightarrow> gate \<Rightarrow> bool" where
  sessions: "0 \<le> n \<Longrightarrow> gate_step g (setSessions g n)"
| client: "gate_step g (addClient g)"
| gone: "gate_step g (removeClient g)"
| tune: "gate_step g (acquireForQSY g)"
| disable: "gate_step g (g\<lparr>disabled := True\<rparr>)"
| portBack: "gate_step g (g\<lparr>calls := calls g + 1\<rparr>)"
| call: "calls g = Suc n \<Longrightarrow> gate_step g (reconcile (g\<lparr>calls := n\<rparr>))"
| retry: "retry g \<Longrightarrow> gate_step g (g\<lparr>retry := False, calls := calls g + 1\<rparr>)"
| start: "workers g = xs @ (k, Ready) # ys \<Longrightarrow> idleIO g \<Longrightarrow> gate_step g (g\<lparr>workers := xs @ (k, stepBegin g) # ys\<rparr>)"
| finish: "workers g = xs @ (k, Doing want) # ys \<Longrightarrow> stepEnd g want ok = (g', p) \<Longrightarrow>
    gate_step g (g'\<lparr>workers := xs @ (k, p) # ys\<rparr>)"
| leave: "workers g = xs @ (k, Leaving) # ys \<Longrightarrow>
    gate_step g (g\<lparr>workers := xs @ ys, busy := (if k then False else busy g)\<rparr>)"

inductive_cases gate_stepE: "gate_step g g'"

section \<open>Invariant\<close>

definition doings :: "(bool \<times> phase) list \<Rightarrow> bool list" where
  "doings ws = concat (map (\<lambda>(k, p). case p of Doing d \<Rightarrow> [d] | _ \<Rightarrow> []) ws)"

definition backgrounds :: "(bool \<times> phase) list \<Rightarrow> nat" where
  "backgrounds ws = length (filter fst ws)"

lemma doings_simps [simp]:
  "doings [] = []" "doings (xs @ ys) = doings xs @ doings ys" "doings ((k, p) # ws) = (case p of Doing d \<Rightarrow> [d] | _ \<Rightarrow> []) @ doings ws"
  by (simp_all add: doings_def)

lemma backgrounds_simps [simp]:
  "backgrounds [] = 0" "backgrounds (xs @ ys) = backgrounds xs + backgrounds ys"
  "backgrounds ((k, p) # ws) = (if k then 1 else 0) + backgrounds ws"
  by (simp_all add: backgrounds_def)

text \<open>
  One radio operation at a time, in the direction that is still missing; one background goroutine
  at most; what the gate believes of the radio is what it is in; and the failures that are retried are counted.
\<close>

definition gate_inv :: "gate \<Rightarrow> bool" where
  "gate_inv g \<longleftrightarrow> length (doings (workers g)) \<le> 1 \<and> (\<forall>d\<in>set (doings (workers g)). d \<noteq> actual g)
     \<and> backgrounds (workers g) = (if busy g then 1 else 0) \<and> inPacket g = actual g
     \<and> (retry g \<longrightarrow> 1 \<le> releaseFailures g \<and> releaseFailures g \<le> 4) \<and> (retry g \<longrightarrow> actual g)"

lemma idleIO_doings: "idleIO g \<longleftrightarrow> doings (workers g) = []"
  by (auto simp: idleIO_def doings_def split: phase.splits)

lemma gate_step_inv: "gate_step g g' \<Longrightarrow> gate_inv g \<Longrightarrow> gate_inv g'"
proof (induction rule: gate_step.induct)
  case (start g xs k ys)
  then have "doings (workers g) = []" by (simp add: idleIO_doings)
  then show ?case using start by (auto simp: gate_inv_def stepBegin_def)
next
  case (finish g xs k want ys ok g' p)
  then show ?case
    by (auto simp: gate_inv_def stepEnd_def scheduleRetryLocked_def releaseRetryDelays_def Let_def split: if_splits)
qed (auto simp: gate_inv_def setSessions_def addClient_def removeClient_def acquireForQSY_def reconcile_def split: if_splits)

interpretation gate_system: invariant_system "\<lambda>g. g = newRigGate" gate_step gate_inv
proof unfold_locales
  show "gate_inv g" if "g = newRigGate" for g using that by (simp add: newRigGate_def gate_inv_def)
qed (rule gate_step_inv)

text \<open>One operation that succeeds reaches the desired state, and the loop then finds nothing to do.\<close>

lemma step_converges:
  assumes "stepBegin g = Doing want" "stepEnd g want True = (g', p)"
  shows "p = Ready \<and> actual g' = desiredLocked g' \<and> stepBegin g' = Leaving"
  using assms by (auto simp: stepBegin_def stepEnd_def desiredLocked_def Let_def split: if_splits)

section \<open>A wake-up that is lost\<close>

text \<open>Nothing is running, called or armed that could still change the radio.\<close>

definition asleep :: "gate \<Rightarrow> bool" where
  "asleep g \<longleftrightarrow> workers g = [] \<and> calls g = 0 \<and> \<not> retry g \<and> \<not> busy g"

definition lostRun :: "gate list" where
  "lostRun =
     (let g0 = newRigGate; g1 = setSessions g0 1; g2 = reconcile (g1\<lparr>calls := 0\<rparr>);
          g3 = g2\<lparr>workers := [(True, Doing True)]\<rparr>; g4 = (fst (stepEnd g3 True True))\<lparr>workers := [(True, Ready)]\<rparr>;
          g5 = g4\<lparr>workers := [(True, Leaving)]\<rparr>; g6 = setSessions g5 0; g7 = reconcile (g6\<lparr>calls := 0\<rparr>);
          g8 = g7\<lparr>workers := [], busy := False\<rparr>
      in [g0, g1, g2, g3, g4, g5, g6, g7, g8])"

fun chain :: "('s \<Rightarrow> 's \<Rightarrow> bool) \<Rightarrow> 's list \<Rightarrow> bool" where
  "chain R (x # y # zs) \<longleftrightarrow> R x y \<and> chain R (y # zs)"
| "chain R _ \<longleftrightarrow> True"

lemma chain_steps: "chain R (x # xs) \<Longrightarrow> R\<^sup>*\<^sup>* x (last (x # xs))"
  by (induction xs arbitrary: x) (auto intro: converse_rtranclp_into_rtranclp)

lemma lost_steps:
  "gate_step newRigGate (setSessions newRigGate 1)"
  "calls g = 1 \<Longrightarrow> gate_step g (reconcile (g\<lparr>calls := 0\<rparr>))"
  "workers g = [(k, Ready)] \<Longrightarrow> stepBegin g = p \<Longrightarrow> gate_step g (g\<lparr>workers := [(k, p)]\<rparr>)"
  "workers g = [(k, Doing want)] \<Longrightarrow> gate_step g ((fst (stepEnd g want True))\<lparr>workers := [(k, Ready)]\<rparr>)"
  "workers g = [(True, Leaving)] \<Longrightarrow> gate_step g (g\<lparr>workers := [], busy := False\<rparr>)"
  "gate_step g (setSessions g 0)"
proof -
  show "gate_step newRigGate (setSessions newRigGate 1)" "gate_step g (setSessions g 0)" by (simp_all add: gate_step.sessions)
  show "calls g = 1 \<Longrightarrow> gate_step g (reconcile (g\<lparr>calls := 0\<rparr>))" by (rule gate_step.call) simp
  show "workers g = [(k, Ready)] \<Longrightarrow> stepBegin g = p \<Longrightarrow> gate_step g (g\<lparr>workers := [(k, p)]\<rparr>)"
    using gate_step.start [of g "[]" k "[]"] by (auto simp: idleIO_doings)
  show "workers g = [(k, Doing want)] \<Longrightarrow> gate_step g ((fst (stepEnd g want True))\<lparr>workers := [(k, Ready)]\<rparr>)"
    using gate_step.finish [of g "[]" k want "[]" True "fst (stepEnd g want True)" Ready] by (auto simp: stepEnd_def Let_def)
  show "workers g = [(True, Leaving)] \<Longrightarrow> gate_step g (g\<lparr>workers := [], busy := False\<rparr>)"
    using gate_step.leave [of g "[]" True "[]"] by simp
qed

lemma lost_run: "gate_step\<^sup>*\<^sup>* newRigGate (last lostRun)"
proof -
  have "chain gate_step lostRun"
    unfolding lostRun_def Let_def chain.simps
    by (intro conjI lost_steps TrueI; simp add: reconcile_def setSessions_def newRigGate_def stepBegin_def stepEnd_def desiredLocked_def Let_def)
  moreover have "lostRun = newRigGate # tl lostRun" by (simp add: lostRun_def Let_def)
  ultimately show ?thesis using chain_steps [of gate_step newRigGate "tl lostRun"] by metis
qed

end
