(* ===== verification/Rig_Shutdown.thy ===== *)
theory Rig_Shutdown
  imports Rig_Gate
begin

text \<open>
  The gate, its goroutines and the event loop at shutdown (\<open>step\<close>, \<open>withRig\<close>, \<open>shutdownWith\<close> and \<open>shutdownRigGates\<close>
  in \<^verbatim>\<open>src/internal/bridge/riggate.go\<close>, \<open>Shutdown\<close> in \<^verbatim>\<open>src/internal/app/app.go\<close>): two locks are taken in opposite orders.
  A goroutine in \<open>step\<close> holds \<open>ioMu\<close> while \<open>withRig\<close> waits for the loop to resolve the rig; the shutdown runs on the
  loop and waits for \<open>ioMu\<close>.

  \<open>ioMu\<close> is \<open>sio\<close>: free, held by a goroutine in one of the three stages of \<open>withRig\<close>, or held by the shutdown.
\<close>

section \<open>State\<close>

datatype job = Resolve | ShutdownJob
datatype loop_at = Running | WantIO | Releasing | Stopped
datatype io_at = NoIO | Holding | Posted | Resolved | ShutdownIO

record sd =
  sgate :: gate
  squeue :: "job list"
  sloop :: loop_at
  sio :: io_at

definition newSd :: sd where
  "newSd = \<lparr>sgate = newRigGate, squeue = [], sloop = Running, sio = NoIO\<rparr>"

section \<open>Operations\<close>

text \<open>\<open>shutdownWith\<close> in its two critical sections.\<close>

definition shutdownClear :: "gate \<Rightarrow> gate" where
  "shutdownClear g = g\<lparr>sessions := 0, gclients := 0, qsy := False, retry := False\<rparr>"

definition shutdownRelease :: "gate \<Rightarrow> bool \<Rightarrow> gate" where
  "shutdownRelease g ok = (if ok then g\<lparr>actual := False, inPacket := False\<rparr> else g)"

lemma shutdownWith_split:
  "shutdownWith g ok = (if actual g then shutdownRelease (shutdownClear g) ok else shutdownClear g)"
  by (simp add: shutdownWith_def shutdownClear_def shutdownRelease_def Let_def)

text \<open>The loop takes the next function: the resolution of a rig, or the shutdown up to its wait for \<open>ioMu\<close>.\<close>

definition runJob :: "job \<Rightarrow> sd \<Rightarrow> sd" where
  "runJob j s =
     (case j of
        Resolve \<Rightarrow> if sio s = Posted then s\<lparr>sio := Resolved\<rparr> else s
      | ShutdownJob \<Rightarrow>
          s\<lparr>sgate := shutdownClear (sgate s), sloop := (if actual (sgate s) then WantIO else Stopped)\<rparr>)"

section \<open>Steps\<close>

inductive sd_step :: "sd \<Rightarrow> sd \<Rightarrow> bool" where
  event: "\<lbrakk>gate_step (sgate s) g; doings (workers g) = doings (workers (sgate s))\<rbrakk> \<Longrightarrow> sd_step s (s\<lparr>sgate := g\<rparr>)"
| lockIO: "\<lbrakk>sio s = NoIO; gate_step (sgate s) g; doings (workers (sgate s)) = []; doings (workers g) \<noteq> []\<rbrakk> \<Longrightarrow>
    sd_step s (s\<lparr>sgate := g, sio := Holding\<rparr>)"
| post: "sio s = Holding \<Longrightarrow> sd_step s (s\<lparr>squeue := squeue s @ [Resolve], sio := Posted\<rparr>)"
| finishIO: "\<lbrakk>sio s = Resolved; gate_step (sgate s) g; doings (workers (sgate s)) \<noteq> []; doings (workers g) = []\<rbrakk> \<Longrightarrow>
    sd_step s (s\<lparr>sgate := g, sio := NoIO\<rparr>)"
| shutdown: "sd_step s (s\<lparr>squeue := squeue s @ [ShutdownJob]\<rparr>)"
| run: "\<lbrakk>sloop s = Running; squeue s = j # q\<rbrakk> \<Longrightarrow> sd_step s (runJob j (s\<lparr>squeue := q\<rparr>))"
| lockShutdown: "\<lbrakk>sloop s = WantIO; sio s = NoIO\<rbrakk> \<Longrightarrow> sd_step s (s\<lparr>sloop := Releasing, sio := ShutdownIO\<rparr>)"
| release: "sloop s = Releasing \<Longrightarrow>
    sd_step s (s\<lparr>sgate := shutdownRelease (sgate s) ok, sloop := Stopped, sio := NoIO\<rparr>)"

section \<open>Who holds the lock\<close>

text \<open>A goroutine has a radio operation under way exactly while it holds \<open>ioMu\<close>.\<close>

definition sd_inv :: "sd \<Rightarrow> bool" where
  "sd_inv s \<longleftrightarrow> (doings (workers (sgate s)) \<noteq> [] \<longleftrightarrow> sio s \<in> {Holding, Posted, Resolved})
     \<and> (sio s = ShutdownIO \<longleftrightarrow> sloop s = Releasing) \<and> length (doings (workers (sgate s))) \<le> 1"

lemma gate_step_doings: "\<lbrakk>gate_step g g'; doings (workers g) = []\<rbrakk> \<Longrightarrow> length (doings (workers g')) \<le> 1"
  by (induction rule: gate_step.induct)
    (auto simp: setSessions_def addClient_def removeClient_def acquireForQSY_def reconcile_def split: phase.splits)

lemma sd_step_inv: "sd_step s s' \<Longrightarrow> sd_inv s \<Longrightarrow> sd_inv s'"
  by (induction rule: sd_step.induct)
    (auto dest: gate_step_doings simp: sd_inv_def runJob_def shutdownClear_def shutdownRelease_def split: job.splits)

interpretation sd_system: invariant_system "\<lambda>s. s = newSd" sd_step sd_inv
proof unfold_locales
  show "sd_inv s" if "s = newSd" for s using that by (simp add: newSd_def newRigGate_def sd_inv_def)
qed (rule sd_step_inv)

section \<open>Deadlock\<close>

lemma deadlock_step:
  assumes "sd_step s s'" "sloop s = WantIO" "sio s \<in> {Holding, Posted}"
  shows "sloop s' = WantIO \<and> sio s' \<in> {Holding, Posted}"
  using assms by (induction rule: sd_step.induct) auto

lemma deadlock_stays:
  assumes "sd_step\<^sup>*\<^sup>* s s'" "sloop s = WantIO" "sio s \<in> {Holding, Posted}"
  shows "sloop s' = WantIO"
proof -
  have "sloop s' = WantIO \<and> sio s' \<in> {Holding, Posted}"
    using assms by (induction rule: rtranclp_induct) (use deadlock_step in blast)+
  then show ?thesis by simp
qed

lemma doings_split:
  assumes "doings ws \<noteq> []"
  shows "\<exists>xs k d ys. ws = xs @ (k, Doing d) # ys"
proof -
  from assms obtain k p where "(k, p) \<in> set ws" "(case p of Doing d \<Rightarrow> [d] | _ \<Rightarrow> []) \<noteq> []"
    by (auto simp: doings_def)
  then obtain d where "(k, Doing d) \<in> set ws" by (cases p) auto
  then show ?thesis by (meson split_list)
qed

text \<open>A goroutine whose rig is resolved can finish, and the shutdown then proceeds.\<close>

lemma stop_from_free:
  assumes "sloop s = WantIO" "sio s = NoIO"
  shows "\<exists>s'. sd_step\<^sup>*\<^sup>* s s' \<and> sloop s' = Stopped"
proof -
  let ?t = "s\<lparr>sloop := Releasing, sio := ShutdownIO\<rparr>"
  have "sd_step s ?t" using assms by (rule lockShutdown)
  moreover have "sd_step ?t (?t\<lparr>sgate := shutdownRelease (sgate ?t) True, sloop := Stopped, sio := NoIO\<rparr>)"
    by (rule release) simp
  ultimately have "sd_step\<^sup>*\<^sup>* s (?t\<lparr>sgate := shutdownRelease (sgate ?t) True, sloop := Stopped, sio := NoIO\<rparr>)"
    by (rule converse_rtranclp_into_rtranclp [OF _ r_into_rtranclp])
  then show ?thesis by (intro exI conjI, assumption) simp
qed

lemma finish_possible:
  assumes "length (doings (workers g)) \<le> 1" "doings (workers g) \<noteq> []"
  shows "\<exists>g'. gate_step g g' \<and> doings (workers g') = []"
proof -
  obtain xs k d ys where w: "workers g = xs @ (k, Doing d) # ys" using doings_split [OF assms(2)] by blast
  obtain g' p where e: "stepEnd g d True = (g', p)" by (cases "stepEnd g d True")
  have "p = Ready" using e by (auto simp: stepEnd_def Let_def split: if_splits)
  moreover have "doings xs = []" "doings ys = []" using assms(1) w by auto
  ultimately have "doings (workers (g'\<lparr>workers := xs @ (k, p) # ys\<rparr>)) = []" by simp
  then show ?thesis using gate_step.finish [OF w e] by blast
qed

text \<open>Exactly the goroutines that have not been answered by the loop block it for good.\<close>

lemma shutdown_ends_iff:
  assumes "sd_inv s" "sloop s = WantIO"
  shows "(\<exists>s'. sd_step\<^sup>*\<^sup>* s s' \<and> sloop s' = Stopped) \<longleftrightarrow> sio s \<notin> {Holding, Posted}"
proof
  show "sio s \<notin> {Holding, Posted}" if "\<exists>s'. sd_step\<^sup>*\<^sup>* s s' \<and> sloop s' = Stopped"
    using that deadlock_stays [OF _ assms(2)] by fastforce
next
  assume "sio s \<notin> {Holding, Posted}"
  then consider "sio s = NoIO" | "sio s = Resolved" using assms by (cases "sio s") (auto simp: sd_inv_def)
  then show "\<exists>s'. sd_step\<^sup>*\<^sup>* s s' \<and> sloop s' = Stopped"
  proof cases
    case 1
    then show ?thesis by (rule stop_from_free [OF assms(2)])
  next
    case 2
    have d: "length (doings (workers (sgate s))) \<le> 1" "doings (workers (sgate s)) \<noteq> []"
      using assms(1) 2 by (auto simp: sd_inv_def)
    obtain g where g: "gate_step (sgate s) g" "doings (workers g) = []" using finish_possible [OF d] by blast
    have "sd_step s (s\<lparr>sgate := g, sio := NoIO\<rparr>)" by (rule finishIO [OF 2 g(1) d(2) g(2)])
    moreover obtain s' where "sd_step\<^sup>*\<^sup>* (s\<lparr>sgate := g, sio := NoIO\<rparr>) s'" "sloop s' = Stopped"
      using stop_from_free [of "s\<lparr>sgate := g, sio := NoIO\<rparr>"] assms(2) by auto
    ultimately show ?thesis by (meson converse_rtranclp_into_rtranclp)
  qed
qed

section \<open>A run into it\<close>

text \<open>
  A radio in packet configuration for one connection; the connection ends, the goroutine that restores the radio
  takes \<open>ioMu\<close>, and the shutdown is taken from the queue before it has posted.
\<close>

definition deadRun :: "sd list" where
  "deadRun =
     (let s0 = newSd; s1 = s0\<lparr>sgate := setSessions (sgate s0) 1\<rparr>;
          s2 = s1\<lparr>sgate := reconcile ((sgate s1)\<lparr>calls := 0\<rparr>)\<rparr>;
          s3 = s2\<lparr>sgate := (sgate s2)\<lparr>workers := [(True, Doing True)]\<rparr>, sio := Holding\<rparr>;
          s4 = s3\<lparr>squeue := [Resolve], sio := Posted\<rparr>; s5 = s4\<lparr>squeue := [], sio := Resolved\<rparr>;
          s6 = s5\<lparr>sgate := (fst (stepEnd (sgate s5) True True))\<lparr>workers := [(True, Ready)]\<rparr>, sio := NoIO\<rparr>;
          s7 = s6\<lparr>sgate := setSessions (sgate s6) 0\<rparr>;
          s8 = s7\<lparr>sgate := (sgate s7)\<lparr>workers := [(True, Doing False)]\<rparr>, sio := Holding\<rparr>;
          s9 = s8\<lparr>squeue := [ShutdownJob]\<rparr>;
          s10 = runJob ShutdownJob (s9\<lparr>squeue := []\<rparr>)
      in [s0, s1, s2, s3, s4, s5, s6, s7, s8, s9, s10])"

lemmas deadRun_defs = newSd_def newRigGate_def setSessions_def reconcile_def desiredLocked_def stepEnd_def stepBegin_def
  runJob_def shutdownClear_def Let_def

lemma dead_steps:
  "sd_step s (s\<lparr>sgate := setSessions (sgate s) 0\<rparr>)" "sd_step s (s\<lparr>sgate := setSessions (sgate s) 1\<rparr>)"
  "calls (sgate s) = 1 \<Longrightarrow> workers (sgate s) = [] \<Longrightarrow> sd_step s (s\<lparr>sgate := reconcile ((sgate s)\<lparr>calls := 0\<rparr>)\<rparr>)"
  "workers (sgate s) = [(True, Ready)] \<Longrightarrow> stepBegin (sgate s) = Doing d \<Longrightarrow> sio s = NoIO \<Longrightarrow>
     sd_step s (s\<lparr>sgate := (sgate s)\<lparr>workers := [(True, Doing d)]\<rparr>, sio := Holding\<rparr>)"
  "sio s = Holding \<Longrightarrow> squeue s = [] \<Longrightarrow> sd_step s (s\<lparr>squeue := [Resolve], sio := Posted\<rparr>)"
  "sio s = Posted \<Longrightarrow> sloop s = Running \<Longrightarrow> squeue s = [Resolve] \<Longrightarrow> sd_step s (s\<lparr>squeue := [], sio := Resolved\<rparr>)"
  "workers (sgate s) = [(True, Doing d)] \<Longrightarrow> sio s = Resolved \<Longrightarrow>
     sd_step s (s\<lparr>sgate := (fst (stepEnd (sgate s) d True))\<lparr>workers := [(True, Ready)]\<rparr>, sio := NoIO\<rparr>)"
  "squeue s = [] \<Longrightarrow> sd_step s (s\<lparr>squeue := [ShutdownJob]\<rparr>)"
  "sloop s = Running \<Longrightarrow> squeue s = [j] \<Longrightarrow> sd_step s (runJob j (s\<lparr>squeue := []\<rparr>))"
  using sd_step.event [of s "setSessions (sgate s) 0"] sd_step.event [of s "setSessions (sgate s) 1"]
    sd_step.event [of s "reconcile ((sgate s)\<lparr>calls := 0\<rparr>)"] gate_step.sessions [of 0] gate_step.sessions [of 1] lost_steps
    sd_step.lockIO [of s "(sgate s)\<lparr>workers := [(True, Doing d)]\<rparr>"] sd_step.post [of s] sd_step.run [of s Resolve "[]"]
    sd_step.finishIO [of s "(fst (stepEnd (sgate s) d True))\<lparr>workers := [(True, Ready)]\<rparr>"] sd_step.shutdown [of s]
    sd_step.run [of s j "[]"]
  by (simp_all add: setSessions_def reconcile_def runJob_def)

lemma dead_run: "sd_step\<^sup>*\<^sup>* newSd (last deadRun)"
proof -
  have "chain sd_step deadRun"
    unfolding deadRun_def Let_def chain.simps
    by (intro conjI dead_steps TrueI; simp add: deadRun_defs)
  moreover have "deadRun = newSd # tl deadRun" by (simp add: deadRun_def Let_def)
  ultimately show ?thesis using chain_steps [of sd_step newSd "tl deadRun"] by metis
qed

lemma dead_run_blocked: "sloop (last deadRun) = WantIO" "sio (last deadRun) = Holding"
  by (simp_all add: deadRun_def deadRun_defs)

end
