(* ===== verification/Rigctl_Server.thy ===== *)
theory Rigctl_Server
  imports Rig_Gate
begin

text \<open>
  The connections of a rigctl server (\<open>Start\<close>, \<open>acceptLoop\<close>, \<open>trackConn\<close>, \<open>untrackConn\<close>, the frame of \<open>handleConn\<close> and
  \<open>Close\<close> in \<^verbatim>\<open>src/internal/frontend/rigctl/server.go\<close>) together with the gate their hooks count in. What a line does to the
  radio and the key is in \<open>Rigctl\<close>.

  A connection is a number. \<open>rclosedConns\<close> are those that were closed; a handler whose connection is closed ends by itself.
\<close>

section \<open>State\<close>

datatype handlerAt = HNew | HHeld | HReleased
datatype acceptAt = AIdle | AGot nat | ADone

record rserver =
  rconns :: "nat list option"
  listening :: bool
  acceptor :: acceptAt
  handlers :: "(nat \<times> handlerAt) list"
  rclosedConns :: "nat list"
  rclosing :: "nat list option"
  nconn :: nat
  rgate :: gate

definition startServer :: rserver where
  "startServer =
     \<lparr>rconns = Some [], listening = True, acceptor = AIdle, handlers = [], rclosedConns = [], rclosing = None, nconn = 0, rgate = newRigGate\<rparr>"

section \<open>Operations\<close>

definition trackConn :: "nat \<Rightarrow> rserver \<Rightarrow> rserver \<times> bool" where
  "trackConn c s = (case rconns s of None \<Rightarrow> (s, False) | Some cs \<Rightarrow> (s\<lparr>rconns := Some (cs @ [c])\<rparr>, True))"

definition untrackConn :: "nat \<Rightarrow> rserver \<Rightarrow> rserver" where
  "untrackConn c s = s\<lparr>rconns := map_option (removeAll c) (rconns s)\<rparr>"

text \<open>What the accept loop does with a connection.\<close>

definition acceptConn :: "nat \<Rightarrow> rserver \<Rightarrow> rserver" where
  "acceptConn c s =
     (case trackConn c s of (s, ok) \<Rightarrow>
        if \<not> ok then s\<lparr>rclosedConns := rclosedConns s @ [c], acceptor := ADone\<rparr>
        else s\<lparr>handlers := handlers s @ [(c, HNew)], acceptor := AIdle\<rparr>)"

definition setHandler :: "nat \<Rightarrow> handlerAt \<Rightarrow> rserver \<Rightarrow> rserver" where
  "setHandler c h s = s\<lparr>handlers := map (\<lambda>x. if fst x = c then (c, h) else x) (handlers s)\<rparr>"

text \<open>The hooks at the two ends of \<open>handleConn\<close>, and its last two deferred calls.\<close>

definition handlerBegins :: "nat \<Rightarrow> rserver \<Rightarrow> rserver" where
  "handlerBegins c s = setHandler c HHeld (s\<lparr>rgate := addClient (rgate s)\<rparr>)"

definition handlerReleases :: "nat \<Rightarrow> rserver \<Rightarrow> rserver" where
  "handlerReleases c s = setHandler c HReleased (s\<lparr>rgate := removeClient (rgate s)\<rparr>)"

definition handlerEnds :: "nat \<Rightarrow> rserver \<Rightarrow> rserver" where
  "handlerEnds c s =
     (untrackConn c s)\<lparr>rclosedConns := rclosedConns s @ [c], handlers := filter (\<lambda>x. fst x \<noteq> c) (handlers s)\<rparr>"

text \<open>\<open>Close\<close>: under the mutex the connections are taken over, then the listener and they are closed.\<close>

definition closeMark :: "rserver \<Rightarrow> rserver" where
  "closeMark s =
     s\<lparr>rconns := None, rclosing := Some (case rconns s of None \<Rightarrow> [] | Some cs \<Rightarrow> cs)\<rparr>"

definition closeConns :: "rserver \<Rightarrow> rserver" where
  "closeConns s =
     s\<lparr>listening := False, rclosedConns := rclosedConns s @ (case rclosing s of None \<Rightarrow> [] | Some cs \<Rightarrow> cs), rclosing := None\<rparr>"

section \<open>Steps\<close>

inductive rs_step :: "rserver \<Rightarrow> rserver \<Rightarrow> bool" where
  accept: "\<lbrakk>acceptor s = AIdle; listening s\<rbrakk> \<Longrightarrow> rs_step s (s\<lparr>acceptor := AGot (nconn s), nconn := nconn s + 1\<rparr>)"
| acceptEnds: "\<lbrakk>acceptor s = AIdle; \<not> listening s\<rbrakk> \<Longrightarrow> rs_step s (s\<lparr>acceptor := ADone\<rparr>)"
| track: "acceptor s = AGot c \<Longrightarrow> rs_step s (acceptConn c s)"
| begins: "(c, HNew) \<in> set (handlers s) \<Longrightarrow> rs_step s (handlerBegins c s)"
| releases: "(c, HHeld) \<in> set (handlers s) \<Longrightarrow> rs_step s (handlerReleases c s)"
| ends: "(c, HReleased) \<in> set (handlers s) \<Longrightarrow> rs_step s (handlerEnds c s)"
| mark: "rclosing s = None \<Longrightarrow> rs_step s (closeMark s)"
| close: "rclosing s \<noteq> None \<Longrightarrow> rs_step s (closeConns s)"
| other: "\<lbrakk>gate_step (rgate s) g; gclients g = gclients (rgate s)\<rbrakk> \<Longrightarrow> rs_step s (s\<lparr>rgate := g\<rparr>)"

section \<open>Invariant\<close>

definition heldCount :: "(nat \<times> handlerAt) list \<Rightarrow> nat" where
  "heldCount hs = length (filter (\<lambda>x. snd x = HHeld) hs)"

definition liveConns :: "rserver \<Rightarrow> nat list" where
  "liveConns s = map fst (handlers s)"

text \<open>
  A server that is not closed tracks exactly its live handlers, one that is has closed their connections or is about to,
  and every connection accepted is handled, closed or in the hands of the accept loop.
\<close>

definition rs_conns :: "rserver \<Rightarrow> bool" where
  "rs_conns s \<longleftrightarrow>
     distinct (liveConns s) \<and> (\<forall>c\<in>set (liveConns s). c < nconn s)
     \<and> (\<forall>c. acceptor s = AGot c \<longrightarrow> c < nconn s \<and> c \<notin> set (liveConns s))
     \<and> (\<forall>cs. rconns s = Some cs \<longrightarrow> set cs = set (liveConns s))
     \<and> (rconns s = None \<longrightarrow> set (liveConns s) \<subseteq> set (rclosedConns s) \<union> (case rclosing s of None \<Rightarrow> {} | Some cs \<Rightarrow> set cs))
     \<and> (\<forall>c<nconn s. c \<in> set (liveConns s) \<or> c \<in> set (rclosedConns s) \<or> acceptor s = AGot c)"

text \<open>
  The gate counts one client for every handler between its two hooks, fewer once it is disabled, when it no longer counts
  the new ones.
\<close>

definition rs_count :: "rserver \<Rightarrow> bool" where
  "rs_count s \<longleftrightarrow>
     0 \<le> gclients (rgate s) \<and> gclients (rgate s) \<le> int (heldCount (handlers s))
     \<and> (\<not> disabled (rgate s) \<longrightarrow> gclients (rgate s) = int (heldCount (handlers s)))"

definition rs_inv :: "rserver \<Rightarrow> bool" where
  "rs_inv s \<longleftrightarrow> rs_conns s \<and> rs_count s"

lemma gate_step_disabled: "gate_step g g' \<Longrightarrow> disabled g \<Longrightarrow> disabled g'"
  by (induction rule: gate_step.induct)
    (auto simp: setSessions_def addClient_def removeClient_def acquireForQSY_def reconcile_def stepEnd_def scheduleRetryLocked_def Let_def
      split: if_splits)

lemma live_setHandler [simp]: "liveConns (setHandler c h s) = liveConns s"
  by (auto simp: liveConns_def setHandler_def)

text \<open>Moving one handler to another phase changes the count by that handler alone.\<close>

lemma setHandler_absent: "c \<notin> fst ` set hs \<Longrightarrow> map (\<lambda>x. if fst x = c then (c, h) else x) hs = hs"
  by (induction hs) auto

lemma heldCount_set:
  assumes "distinct (map fst hs)" "(c, h) \<in> set hs"
  shows "int (heldCount (map (\<lambda>x. if fst x = c then (c, h') else x) hs))
    = int (heldCount hs) - (if h = HHeld then 1 else 0) + (if h' = HHeld then 1 else 0)"
proof -
  obtain xs ys where hs: "hs = xs @ (c, h) # ys" using assms(2) by (auto simp: in_set_conv_decomp)
  then have "c \<notin> fst ` set xs" "c \<notin> fst ` set ys" using assms(1) by auto
  then show ?thesis unfolding hs by (simp add: setHandler_absent heldCount_def)
qed

lemma heldCount_drop:
  assumes "distinct (map fst hs)" "(c, HReleased) \<in> set hs"
  shows "heldCount (filter (\<lambda>x. fst x \<noteq> c) hs) = heldCount hs"
proof -
  obtain xs ys where hs: "hs = xs @ (c, HReleased) # ys" using assms(2) by (auto simp: in_set_conv_decomp)
  then have "c \<notin> fst ` set xs" "c \<notin> fst ` set ys" using assms(1) by auto
  then have "filter (\<lambda>x. fst x \<noteq> c) xs = xs" "filter (\<lambda>x. fst x \<noteq> c) ys = ys" by (auto simp: filter_id_conv)
  then show ?thesis unfolding hs by (simp add: heldCount_def)
qed

text \<open>Steps that change neither the connections nor the handlers.\<close>

lemma conns_cong:
  assumes "rs_conns s" "liveConns t = liveConns s" "nconn t = nconn s" "acceptor t = acceptor s" "rconns t = rconns s"
    "rclosedConns t = rclosedConns s" "rclosing t = rclosing s"
  shows "rs_conns t"
  using assms by (simp add: rs_conns_def)

lemma conns_track:
  assumes "rs_conns s" "acceptor s = AGot c"
  shows "rs_conns (acceptConn c s)"
proof (cases "rconns s")
  case None
  then show ?thesis using assms by (auto simp: acceptConn_def trackConn_def rs_conns_def liveConns_def)
next
  case (Some cs)
  then have "liveConns (acceptConn c s) = liveConns s @ [c]" "rconns (acceptConn c s) = Some (cs @ [c])" "acceptor (acceptConn c s) = AIdle"
    "nconn (acceptConn c s) = nconn s" "rclosedConns (acceptConn c s) = rclosedConns s"
    by (simp_all add: acceptConn_def trackConn_def liveConns_def)
  then show ?thesis using assms Some unfolding rs_conns_def by auto
qed

lemma conns_end:
  assumes "rs_conns s"
  shows "rs_conns (handlerEnds c s)"
proof -
  have l: "liveConns (handlerEnds c s) = removeAll c (liveConns s)"
    by (simp add: liveConns_def handlerEnds_def untrackConn_def removeAll_filter_not_eq filter_map comp_def eq_commute)
  show ?thesis
    using assms unfolding rs_conns_def l
    by (auto simp: handlerEnds_def untrackConn_def distinct_removeAll)
qed

lemma rs_step_inv: "rs_step s t \<Longrightarrow> rs_inv s \<Longrightarrow> rs_inv t"
proof (induction rule: rs_step.induct)
  case (accept s)
  have "rs_conns (s\<lparr>acceptor := AGot (nconn s), nconn := nconn s + 1\<rparr>)"
    using accept unfolding rs_inv_def rs_conns_def by (auto simp: liveConns_def less_Suc_eq)
  then show ?case using accept by (simp add: rs_inv_def rs_count_def)
next
  case (acceptEnds s)
  then show ?case by (simp add: rs_inv_def rs_conns_def rs_count_def liveConns_def)
next
  case (track s c)
  have "rs_count (acceptConn c s)"
    using track by (auto simp: rs_inv_def rs_count_def acceptConn_def trackConn_def heldCount_def split: option.splits)
  then show ?case using conns_track [of s c] track by (simp add: rs_inv_def)
next
  case (begins c s)
  have d: "distinct (map fst (handlers s))" using begins by (simp add: rs_inv_def rs_conns_def liveConns_def)
  have "rs_count (handlerBegins c s)"
    using heldCount_set [OF d begins(1), of HHeld] begins(2)
    by (auto simp: rs_inv_def rs_count_def handlerBegins_def setHandler_def addClient_def)
  moreover have "rs_conns (handlerBegins c s)"
    by (rule conns_cong [of s]) (use begins in \<open>simp_all add: rs_inv_def handlerBegins_def\<close>, simp_all add: setHandler_def liveConns_def)
  ultimately show ?case by (simp add: rs_inv_def)
next
  case (releases c s)
  have d: "distinct (map fst (handlers s))" using releases by (simp add: rs_inv_def rs_conns_def liveConns_def)
  have "rs_count (handlerReleases c s)"
    using heldCount_set [OF d releases(1), of HReleased] releases(2)
    by (auto simp: rs_inv_def rs_count_def handlerReleases_def setHandler_def removeClient_def)
  moreover have "rs_conns (handlerReleases c s)"
    by (rule conns_cong [of s]) (use releases in \<open>simp_all add: rs_inv_def handlerReleases_def\<close>, simp_all add: setHandler_def liveConns_def)
  ultimately show ?case by (simp add: rs_inv_def)
next
  case (ends c s)
  have d: "distinct (map fst (handlers s))" using ends by (simp add: rs_inv_def rs_conns_def liveConns_def)
  have "rs_count (handlerEnds c s)"
    using heldCount_drop [OF d ends(1)] ends(2) by (simp add: rs_inv_def rs_count_def handlerEnds_def untrackConn_def)
  then show ?case using conns_end [of s c] ends by (simp add: rs_inv_def)
next
  case (mark s)
  have l: "liveConns (closeMark s) = liveConns s" by (simp add: liveConns_def closeMark_def)
  have "rs_conns (closeMark s)"
    using mark unfolding rs_inv_def rs_conns_def l by (auto simp: closeMark_def split: option.splits)
  then show ?case using mark by (simp add: rs_inv_def rs_count_def closeMark_def)
next
  case (close s)
  have "rs_conns (closeConns s)"
    using close unfolding rs_inv_def rs_conns_def by (auto simp: closeConns_def liveConns_def split: option.splits)
  then show ?case using close by (simp add: rs_inv_def rs_count_def closeConns_def)
next
  case (other s g)
  have "rs_conns (s\<lparr>rgate := g\<rparr>)" by (rule conns_cong [of s]) (use other in \<open>simp_all add: rs_inv_def liveConns_def\<close>)
  then show ?case using other gate_step_disabled [OF other(1)] by (auto simp: rs_inv_def rs_count_def)
qed

interpretation rigctl_server: invariant_system "\<lambda>s. s = startServer" rs_step rs_inv
proof unfold_locales
  show "rs_inv s" if "s = startServer" for s
    using that by (simp add: rs_inv_def rs_conns_def rs_count_def startServer_def liveConns_def newRigGate_def heldCount_def)
qed (rule rs_step_inv)

text \<open>
  Once \<open>Close\<close> has returned, every connection is closed or, at worst, still in the hands of an accept loop that will
  close it; so every handler left is ending, and with the last of them the gate counts no client.
\<close>

lemma closed_server:
  assumes "rs_step\<^sup>*\<^sup>* startServer s" "rconns s = None" "rclosing s = None"
  shows "\<forall>c<nconn s. c \<in> set (rclosedConns s) \<or> acceptor s = AGot c" "handlers s = [] \<longrightarrow> gclients (rgate s) = 0"
proof -
  have i: "rs_inv s" by (rule rigctl_server.reachable_inv [OF refl assms(1)])
  then have c: "rs_conns s" by (simp add: rs_inv_def)
  then have l: "set (liveConns s) \<subseteq> set (rclosedConns s)" using assms(2,3) by (simp add: rs_conns_def)
  have "c \<in> set (liveConns s) \<or> c \<in> set (rclosedConns s) \<or> acceptor s = AGot c" if "c < nconn s" for c
    using c that by (simp add: rs_conns_def)
  then show "\<forall>c<nconn s. c \<in> set (rclosedConns s) \<or> acceptor s = AGot c" using l by blast
  show "handlers s = [] \<longrightarrow> gclients (rgate s) = 0" using i by (auto simp: rs_inv_def rs_count_def heldCount_def)
qed

text \<open>A connection the accept loop still holds then is refused, not handled.\<close>

lemma closed_refuses: "rconns s = None \<Longrightarrow> acceptConn c s = s\<lparr>rclosedConns := rclosedConns s @ [c], acceptor := ADone\<rparr>"
  by (simp add: acceptConn_def trackConn_def)

end
