(* ===== verification/Props_Rig.thy ===== *)
theory Props_Rig
  imports Rig_Session Rigctl Rig_Link Rig_Cache Rig_Shutdown Rigctl_Server
begin

text \<open>
  The properties of rig control: tuning, sessions, the key and its safety net, the gate that
  decides when a radio is in packet configuration, the link to a radio, the hand-over of a
  session from one link to the next, and the shutdown.
\<close>

section \<open>Tuning\<close>

text \<open>A link that records what was asked and how it ended.\<close>

definition logged :: "'e env \<Rightarrow> ('e \<times> (u16 \<times> bytes \<times> exchange) list) env" where
  "logged env s cmd body = (case env (fst s) cmd body of (e, x) \<Rightarrow> ((e, snd s @ [(cmd, body, x)]), x))"

definition isWrite :: "u16 \<times> bytes \<times> exchange \<Rightarrow> bool" where
  "isWrite q \<longleftrightarrow> fst q \<notin> {CmdReadSettings, CmdReadRFCh}"

lemma request_logged:
  assumes "request (logged env) cmd body ((e, l), r) = (((e', l'), r'), x)"
  shows "vfoMin r' = vfoMin r \<and> (l' = l \<and> (\<exists>err. x = Inl err)
    \<or> (\<exists>y. l' = l @ [(cmd, body, y)] \<and> (\<forall>b. x = Inr b \<longrightarrow> y = Replied b)))"
  using assms by (auto simp: request_def logged_def split: if_splits prod.splits exchange.splits)

lemma bindR_Inr: "bindR m f s = (s', Inr y) \<Longrightarrow> \<exists>s1 x. m s = (s1, Inr x) \<and> f x s1 = (s', Inr y)"
  by (auto simp: bindR_def split: prod.splits sum.splits)

lemma readChannel_logged:
  assumes "readChannel (logged env) c ((e, l), r) = (((e', l'), r'), x)"
  shows "vfoMin r' = vfoMin r \<and> (\<exists>l1. l' = l @ l1 \<and> filter isWrite l1 = []
    \<and> (\<forall>ch. x = Inr ch \<longrightarrow> (CmdReadRFCh, [c], Replied (0 # rfRaw ch)) \<in> set l1))"
proof -
  obtain e1 l1 r1 y where q: "request (logged env) CmdReadRFCh [c] ((e, l), r) = (((e1, l1), r1), y)" by (metis surj_pair)
  note L = request_logged [OF q]
  have s: "(((e', l'), r'), x) = (case y of Inl err \<Rightarrow> (((e1, l1), r1), Inl err) | Inr body \<Rightarrow>
      (if body = [] \<or> hd body \<noteq> 0 then throw (Rejected CmdReadRFCh (status body)) else fromSum (ParseRFCh (tl body))) ((e1, l1), r1))"
    using assms q by (auto simp: readChannel_def bindR_def split: sum.split)
  then have e: "l' = l1" "r' = r1" by (auto simp: fromSum_def split: sum.splits if_splits)
  have "y = Inr (0 # rfRaw ch)" if "x = Inr ch" for ch
    using s that by (auto simp: fromSum_def ParseRFCh_def neq_Nil_conv split: sum.splits if_splits)
  then show ?thesis using L e by (auto simp: isWrite_def)
qed

lemma activeChannel_logged:
  assumes "activeChannel (logged env) ((e, []), r) = (((e', l'), r'), x)"
  shows "vfoMin r' = vfoMin r \<and> filter isWrite l' = []
    \<and> (\<forall>ch. x = Inr ch \<longrightarrow> (\<exists>c. (CmdReadRFCh, [c], Replied (0 # rfRaw ch)) \<in> set l'))"
proof -
  obtain e1 l1 r1 y where q: "request (logged env) CmdReadSettings [] ((e, []), r) = (((e1, l1), r1), y)" by (metis surj_pair)
  note L = request_logged [OF q]
  have w: "filter isWrite l1 = []" "vfoMin r1 = vfoMin r" using L by (auto simp: isWrite_def)
  show ?thesis
  proof (cases "\<exists>sb st c. y = Inr sb \<and> DecodeSettings sb = Inr st \<and> ActiveChannel st = (c, True)")
    case True
    then obtain sb st c where "y = Inr sb" "DecodeSettings sb = Inr st" "ActiveChannel st = (c, True)" by blast
    then have "readChannel (logged env) c ((e1, l1), r1) = (((e', l'), r'), x)"
      using assms q by (simp add: activeChannel_def bindR_def fromSum_def)
    from readChannel_logged [OF this] w show ?thesis by auto
  next
    case False
    then have "l' = l1" "r' = r1" "\<exists>err. x = Inl err"
      using assms q by (auto simp: activeChannel_def bindR_def fromSum_def split: sum.splits prod.splits if_splits)
    with w show ?thesis by auto
  qed
qed

text \<open>
  C6.  Tuning never harms a memory channel, whatever the link and the radio do: of all commands a
  tune sends, at most one is not a read, and that one writes back a record the radio has just
  returned, which has no name, whose number is not below the VFO floor, and which is simplex,
  with its two frequencies replaced.
\<close>

theorem tuning_spares_memories:
  assumes "SetFreq (logged env) hz ((e, []), r) = (((e', l), r'), x)"
  shows "length (filter isWrite l) \<le> 1
    \<and> (\<forall>(cmd, body, y)\<in>set (filter isWrite l). cmd = CmdWriteRFCh
        \<and> (\<exists>c ch. (CmdReadRFCh, [c], Replied (0 # rfRaw ch)) \<in> set l \<and> body = RFCh_Bytes (WithFreq ch hz)
              \<and> RFCh_Name ch = '''' \<and> vfoMin r \<le> uint (RFCh_ID ch) \<and> TXFreqHz ch = RXFreqHz ch))"
proof -
  obtain e1 l1 r1 y where a: "activeChannel (logged env) ((e, []), r) = (((e1, l1), r1), y)" by (metis surj_pair)
  note A = activeChannel_logged [OF a]
  show ?thesis
  proof (cases "\<exists>ch. y = Inr ch \<and> RFCh_Name ch = '''' \<and> vfoMin r1 \<le> uint (RFCh_ID ch) \<and> TXFreqHz ch = RXFreqHz ch")
    case True
    then obtain ch where ch: "y = Inr ch" "RFCh_Name ch = ''''" "vfoMin r1 \<le> uint (RFCh_ID ch)" "TXFreqHz ch = RXFreqHz ch" by blast
    obtain r2 where w: "writeChannel (logged env) ch (WithFreq ch hz) ((e1, l1), r2) = (((e', l), r'), x)"
      using assms a ch by (auto simp: SetFreq_def bindR_def rememberOriginal_def)
    obtain e3 l3 r3 z where q: "request (logged env) CmdWriteRFCh (RFCh_Bytes (WithFreq ch hz)) ((e1, l1), r2) = (((e3, l3), r3), z)"
      by (metis surj_pair)
    have "l = l3" using w q by (auto simp: writeChannel_def bindR_def split: sum.splits if_splits)
    then have l: "l = l1 \<or> (\<exists>y. l = l1 @ [(CmdWriteRFCh, RFCh_Bytes (WithFreq ch hz), y)])" using request_logged [OF q] by blast
    obtain c where c: "(CmdReadRFCh, [c], Replied (0 # rfRaw ch)) \<in> set l1" using A ch(1) by blast
    have f: "filter isWrite l1 = []" and v: "vfoMin r \<le> uint (RFCh_ID ch)" using A ch(3) by simp_all
    from l show ?thesis
    proof
      assume "l = l1"
      with f show ?thesis by simp
    next
      assume "\<exists>y. l = l1 @ [(CmdWriteRFCh, RFCh_Bytes (WithFreq ch hz), y)]"
      then obtain y where y: "l = l1 @ [(CmdWriteRFCh, RFCh_Bytes (WithFreq ch hz), y)]" ..
      then have k: "filter isWrite l = [(CmdWriteRFCh, RFCh_Bytes (WithFreq ch hz), y)] \<or> filter isWrite l = []"
        by (simp add: f)
      have "(CmdReadRFCh, [c], Replied (0 # rfRaw ch)) \<in> set l" using c y by simp
      with k v ch show ?thesis by (elim disjE) (simp_all, blast)
    qed
  next
    case False
    then have "l = l1" using assms a by (auto simp: SetFreq_def bindR_def split: sum.splits if_splits)
    with A show ?thesis by (simp only:) simp
  qed
qed

definition sampleMem :: radioMem where
  "sampleMem =
     \<lparr>mSettings = [0x50, 0x20, 0, 0, 0, 0, 0, 0, 0, 0x00], mBss = [0, 0x10],
      mChan = (\<lambda>i. if i = 5 then Some ([5] @ replicate 14 0 @ [65] @ replicate 9 0)
                   else if i = 252 then Some ([252, 8, 0x80, 0, 0, 8, 0x80, 0, 0] @ replicate 16 0) else None)\<rparr>"

definition sampleVFO :: radioMem where
  "sampleVFO = sampleMem\<lparr>mSettings := [0xC0, 0x00, 0, 0, 0, 0, 0, 0, 0, 0xF0]\<rparr>"

lemma sample_tunes:
  "map fst (filter isWrite (snd (fst (fst (SetFreq (logged memRadio) 145000000 ((sampleVFO, []), newRig 0)))))) = [CmdWriteRFCh]"
  by code_simp

theorem tuning_spares_memories_witness:
  "\<exists>l s x. SetFreq (logged memRadio) 145000000 ((sampleVFO, []), newRig 0) = (((fst s, l), snd s), x)
     \<and> (\<exists>body y. filter isWrite l = [(CmdWriteRFCh, body, y)]
         \<and> (\<exists>ch. body = RFCh_Bytes (WithFreq ch 145000000) \<and> RFCh_Name ch = ''''))"
proof -
  define t where "t = SetFreq (logged memRadio) 145000000 ((sampleVFO, []), newRig 0)"
  obtain e' l r' x where s: "t = (((e', l), r'), x)" by (metis surj_pair)
  have "map fst (filter isWrite l) = [CmdWriteRFCh]" using sample_tunes s unfolding t_def by simp
  then obtain body y where w: "filter isWrite l = [(CmdWriteRFCh, body, y)]" by (auto simp: map_eq_Cons_conv)
  have "\<exists>ch. body = RFCh_Bytes (WithFreq ch 145000000) \<and> RFCh_Name ch = ''''"
    using tuning_spares_memories [OF s [unfolded t_def]] unfolding w by auto
  with s w show ?thesis unfolding t_def by (intro exI [of _ l] exI [of _ "(e', r')"] exI [of _ x]) auto
qed

section \<open>Sessions\<close>

text \<open>
  C7.  A session leaves no trace: on a radio that stores and returns its records, acquiring the
  session, tuning any number of times and releasing it restores every settings, beacon and channel
  record byte for byte, reports no error, and leaves nothing to restore.
\<close>

theorem session_restores:
  assumes "radio_link env mem" "mem_ok (mem e)" "\<not> rclosed r" "\<not> origOK r" "\<not> held (sess r)"
    and "AcquireSession env (e, r) = ((e1, r1), Inr ())" "tuneAll env hzs (e1, r1) = (e2, r2)"
    and "ReleaseSession env (e2, r2) = ((e3, r3), x)"
  shows "x = Inr () \<and> mem e3 = mem e \<and> \<not> held (sess r3) \<and> \<not> origOK r3"
  by (rule radio_link.session_round_trip [OF assms])

lemma sampleMem_ok: "mem_ok sampleMem"
  by (auto simp: mem_ok_def sampleMem_def settingsMinLen_def bssMinLen_def RFChLen_def split: if_splits)

lemma sample_acquires: "snd (AcquireSession memRadio (sampleMem, newRig 0)) = Inr ()"
  by code_simp

theorem session_restores_witness:
  "\<exists>s x. ReleaseSession memRadio (tuneAll memRadio [145000000, 146000000] (fst (AcquireSession memRadio (sampleMem, newRig 0)))) = (s, x)
     \<and> x = Inr () \<and> fst s = sampleMem"
proof -
  define t where "t = AcquireSession memRadio (sampleMem, newRig 0)"
  obtain e1 r1 where a: "t = ((e1, r1), Inr ())" using sample_acquires unfolding t_def [symmetric] by (cases t) auto
  define v where "v = tuneAll memRadio [145000000, 146000000] (e1, r1)"
  obtain e2 r2 where t: "v = (e2, r2)" by fastforce
  define w where "w = ReleaseSession memRadio (e2, r2)"
  obtain e3 r3 x where l: "w = ((e3, r3), x)" by (metis surj_pair)
  have "x = Inr () \<and> id e3 = id sampleMem \<and> \<not> held (sess r3) \<and> \<not> origOK r3"
    by (rule session_restores [OF plain_radio.radio_link_axioms _ _ _ _ a [unfolded t_def] t [unfolded v_def] l [unfolded w_def]])
      (simp_all add: sampleMem_ok newRig_def noSession_def)
  moreover have "ReleaseSession memRadio (tuneAll memRadio [145000000, 146000000] (fst t)) = ((e3, r3), x)"
    using a t l by (simp only: fst_conv v_def [symmetric]) (simp add: w_def)
  ultimately show ?thesis unfolding t_def by (intro exI [of _ "(e3, r3)"] exI [of _ x]) simp
qed

text \<open>A link that is up or down; while it is down no reply arrives.\<close>

definition flaky :: "(radioMem \<times> bool) env" where
  "flaky s cmd body = (if snd s then (case memRadio (fst s) cmd body of (m, x) \<Rightarrow> ((m, True), x)) else (s, ReplyTimesOut))"

definition forgotten :: "(radioMem \<times> bool) \<times> rig \<Rightarrow> ((radioMem \<times> bool) \<times> rig) \<times> ((radioMem \<times> bool) \<times> rig)
    \<times> (rig_error + unit) \<times> (rig_error + unit) \<times> (rig_error + unit)" where
  "forgotten s =
     (case AcquireSession flaky s of (((m, _), r), a) \<Rightarrow>
        (case ReleaseSession flaky ((m, False), r) of (((m, _), r), b) \<Rightarrow>
           (case ReleaseSession flaky ((m, True), r) of (t, c) \<Rightarrow> (((m, True), r), t, a, b, c))))"

lemma sample_forgotten:
  "(case forgotten ((sampleMem, True), newRig 0) of (s, t, a, b, c) \<Rightarrow> (a, isl b, c, mSettings (fst (fst t)) ! 9))
     = (Inr (), True, Inr (), 0xF0)"
  by code_simp

lemma request_sess: "request env cmd body (e, r) = ((e', r'), x) \<Longrightarrow> sess r' = sess r"
  by (auto simp: request_def split: if_splits prod.splits exchange.splits)

lemma writeChannel_sess: "writeChannel env ch new (e, r) = ((e', r'), x) \<Longrightarrow> sess r' = sess r"
  by (auto simp: writeChannel_def bindR_def split: if_splits prod.splits sum.splits dest!: request_sess)

lemma teardown_sess: "Teardown env (e, r) = ((e', r'), x) \<Longrightarrow> sess r' = sess r"
  by (auto simp: Teardown_def bindR_def split: if_splits prod.splits sum.splits dest!: writeChannel_sess)

lemma release_clears:
  assumes "ReleaseSession env (e, r) = ((e', r'), x)"
  shows "\<not> held (sess r')"
proof (cases "held (sess r)")
  case True
  then show ?thesis
    using assms by (auto simp: ReleaseSession_def bindR_def attemptR_def modRig_def joinErrs_def ret_def throw_def readRig_def
        noSession_def split: prod.splits sum.splits if_splits)
next
  case False
  obtain e1 r1 y where t: "Teardown env (e, r) = ((e1, r1), y)" by (metis surj_pair)
  have "r' = r1"
    using assms False t by (auto simp: ReleaseSession_def bindR_def attemptR_def joinErrs_def ret_def throw_def readRig_def
        split: prod.splits sum.splits if_splits)
  with teardown_sess [OF t] False show ?thesis by simp
qed

text \<open>
  C40.  A restore that failed is forgotten: \<^verbatim>\<open>ReleaseSession\<close> clears the session whether or not its
  steps succeeded, so when the link drops during a release and comes back, the retry reports
  success without having restored anything, and the radio stays on the channel and with the
  settings of the session.
\<close>

theorem failed_restore_forgotten:
  "(\<forall>env e r e' r' x. ReleaseSession env (e, r) = ((e', r'), x) \<longrightarrow> \<not> held (sess r'))
   \<and> (\<exists>s t b. forgotten ((sampleMem, True), newRig 0) = (s, t, Inr (), Inl b, Inr ())
        \<and> mSettings (fst (fst t)) \<noteq> mSettings sampleMem)"
proof (intro conjI allI impI)
  define f where "f = forgotten ((sampleMem, True), newRig 0)"
  obtain s t a b c where f: "f = (s, t, a, b, c)" by (cases f) auto
  with sample_forgotten have r: "a = Inr ()" "isl b" "c = Inr ()" "mSettings (fst (fst t)) ! 9 = 0xF0"
    unfolding f_def [symmetric] by simp_all
  then have "mSettings (fst (fst t)) \<noteq> mSettings sampleMem" by (auto simp: sampleMem_def)
  with f r show "\<exists>s t b. forgotten ((sampleMem, True), newRig 0) = (s, t, Inr (), Inl b, Inr ())
      \<and> mSettings (fst (fst t)) \<noteq> mSettings sampleMem"
    unfolding f_def by (cases b) auto
qed (rule release_clears)

theorem failed_restore_forgotten_witness:
  "\<not> held (sess (snd (fst (ReleaseSession memRadio (sampleMem, (newRig 0)\<lparr>sess := noSession\<lparr>held := True\<rparr>\<rparr>)))))"
proof -
  define t where "t = ReleaseSession memRadio (sampleMem, (newRig 0)\<lparr>sess := noSession\<lparr>held := True\<rparr>\<rparr>)"
  obtain e' r' x where t: "t = ((e', r'), x)" by (metis surj_pair)
  have "\<not> held (sess r')" by (rule conjunct1 [OF failed_restore_forgotten, rule_format, OF t [unfolded t_def]])
  with t show ?thesis unfolding t_def by simp
qed

section \<open>Keying\<close>

text \<open>
  C8.  The transmitter has a safety net: however lines, timers, callbacks, disconnects and a close
  interleave, and whatever the radio answers, while the server believes the key is down a callback
  of the current generation is armed or about to run, and running the callback until its retries
  are used up leaves the server with the key up, never keyed without a timer.
\<close>

theorem ptt_backstop:
  assumes "(ptt_step ops)\<^sup>*\<^sup>* (e0, newPTT) (e, st)"
  shows "(keyed st \<longrightarrow> (\<exists>r. backstop st r)) \<and> releaseTries st \<le> maxReleaseRetries
    \<and> \<not> keyed (snd (((\<lambda>s. timeoutFire ops r (gen (snd s)) s) ^^ Suc (maxReleaseRetries - releaseTries st)) (e, st)))"
proof -
  have i: "ptt_inv st" using ptt_system.reachable_inv [OF _ assms] by simp
  then have t: "releaseTries st \<le> maxReleaseRetries" by (simp add: ptt_inv_def)
  from i t callbacks_release [OF t order_refl, of ops r e] show ?thesis unfolding ptt_inv_def by blast
qed

text \<open>A radio that keys and then no longer answers.\<close>

definition deafRig :: "unit rigOps" where
  "deafRig = \<lparr>opSetFreq = (\<lambda>e hz. (e, Some ErrTimeout)), opGetFreq = (\<lambda>e. (e, Inl ErrTimeout)),
     opSetPTT = (\<lambda>e on. (e, if on then None else Some ErrTimeout)), opGetPTT = (\<lambda>e. (e, Inl ErrTimeout))\<rparr>"

definition deafKeyed :: "unit \<times> pttState" where
  "deafKeyed = fst (handleLine \<lparr>uToUpper = id, uTrimSpace = id\<rparr> (\<lambda>_. []) (\<lambda>_. deafRig) ''T 1'' (Some 0) \<lparr>AllowPTT = True, PTTTimeout = 60\<rparr> ((), newPTT))"

lemma deafKeyed_simp: "keyed (snd deafKeyed) \<and> releaseTries (snd deafKeyed) = 0"
  by code_simp

theorem ptt_backstop_witness:
  "keyed (snd deafKeyed) \<and> (\<exists>r. backstop (snd deafKeyed) r)
    \<and> \<not> keyed (snd (((\<lambda>s. timeoutFire (\<lambda>_. deafRig) (Some 0) (gen (snd s)) s) ^^ 4) deafKeyed))"
proof -
  obtain e st where d: "deafKeyed = (e, st)" by (cases deafKeyed) auto
  have "(ptt_step (\<lambda>_. deafRig))\<^sup>*\<^sup>* ((), newPTT) (e, st)"
    unfolding d [symmetric] deafKeyed_def by (intro r_into_rtranclp ptt_step.line)
  from ptt_backstop [OF this, of "Some 0"] deafKeyed_simp show ?thesis
    by (simp add: d maxReleaseRetries_def numeral_eq_Suc)
qed

section \<open>The gate\<close>

text \<open>
  C9.  The gate drives the radio one operation at a time: in every state that counts, tunes,
  retries and goroutines can interleave to, at most one apply or release is in progress and it
  changes the state the radio is in, so applies and releases strictly alternate; at most one
  background goroutine runs; what the gate believes is what the radio is in; a retry is armed only
  while the radio is held and after at most four failures; and an operation that succeeds while
  nothing else changes leaves the loop with nothing to do.
\<close>

theorem gate_tracks_radio:
  assumes "gate_step\<^sup>*\<^sup>* newRigGate g"
  shows "length (doings (workers g)) \<le> 1 \<and> (\<forall>d\<in>set (doings (workers g)). d \<noteq> actual g)
    \<and> backgrounds (workers g) \<le> 1 \<and> inPacket g = actual g \<and> (retry g \<longrightarrow> actual g \<and> releaseFailures g \<le> length releaseRetryDelays)
    \<and> (\<forall>want g' p. stepBegin g = Doing want \<longrightarrow> stepEnd g want True = (g', p) \<longrightarrow> p = Ready \<and> stepBegin g' = Leaving)"
proof -
  have "gate_inv g" by (rule gate_system.reachable_inv [OF refl assms])
  then show ?thesis using step_converges [of g] by (auto simp: gate_inv_def releaseRetryDelays_def)
qed

theorem gate_tracks_radio_witness:
  "\<exists>g. gate_step\<^sup>*\<^sup>* newRigGate g \<and> actual g \<and> inPacket g \<and> backgrounds (workers g) \<le> 1"
proof -
  have "actual (last lostRun)"
    by (simp add: lostRun_def Let_def reconcile_def setSessions_def newRigGate_def stepEnd_def desiredLocked_def)
  with gate_tracks_radio [OF lost_run] lost_run show ?thesis by blast
qed

text \<open>
  C38.  A wake-up can be lost: the gate can reach a state in which the last connection is gone, the
  radio is still in packet configuration, and nothing is running, called or armed that would put
  it back.  \<^verbatim>\<open>reconcile\<close> finds the goroutine busy and leaves the work to it, but that goroutine has
  read the counts for the last time and only has its flag to clear.
\<close>

theorem gate_lost_wakeup:
  "\<exists>g. gate_step\<^sup>*\<^sup>* newRigGate g \<and> asleep g \<and> \<not> disabled g \<and> sessions g = 0 \<and> gclients g = 0 \<and> \<not> desiredLocked g \<and> inPacket g"
proof (intro exI conjI)
  show "gate_step\<^sup>*\<^sup>* newRigGate (last lostRun)" by (rule lost_run)
qed (simp_all add: lostRun_def Let_def reconcile_def setSessions_def newRigGate_def stepEnd_def desiredLocked_def asleep_def)

section \<open>The link\<close>

text \<open>
  C11.  An unlabelled reply is never given to the wrong request: under any interleaving of requests,
  writes, timers, the reader and a close, with a radio that answers each command at most once and
  within four times the timeout of its landing on the wire, whatever \<^verbatim>\<open>request\<close> returns as an answer is the body of
  the radio's answer to that very request, with its command. The wait after a timeout, three more timeouts, is what makes
  it true: \<open>late_reply_misattributed\<close> shows that a radio that may answer one instant later can break it.
\<close>

theorem reply_attributed:
  assumes "lnk_reach T L s" "L \<le> 4 * T" "(i, Inr body) \<in> set (results s)"
  shows "\<exists>m. answer s i = Some m \<and> bCommand m = cmdOf s i \<and> body = Body m"
proof -
  have "lnk_inv T L s" by (rule lnk_reach_inv [OF assms(1,2)])
  with assms(3) show ?thesis by (auto simp: lnk_inv_def lnk_routes_def answers_def)
qed

theorem reply_attributed_witness:
  "\<exists>m. answer (replySettings 0 0 (askSettings 5 newLink)) 0 = Some m \<and> bCommand m = CmdReadSettings \<and> Body m = [7]"
proof -
  have r: "lnk_reach 5 20 (replySettings 0 0 (askSettings 5 newLink))" using exchange_reach [of 5 19] by simp
  have x: "(0, Inr [7]) \<in> set (results (replySettings 0 0 (askSettings 5 newLink)))"
    "cmdOf (replySettings 0 0 (askSettings 5 newLink)) 0 = CmdReadSettings"
    by (simp_all add: run_defs)
  show ?thesis using reply_attributed [OF r _ x(1)] x(2) by auto
qed

section \<open>Handing a session over\<close>

text \<open>
  C12.  A radio's displaced settings survive any change of its link: in every state the cache of rigs reaches, however
  often ports go down, come back, are replaced, rigs close themselves or are asked for, as long as no
  operation of a rig ends meanwhile, the port owes its radio the same session, and the next rig \<^verbatim>\<open>RigFor\<close> gives
  out for it is open and holds exactly that session. Resolving one port never touches what another owes.
\<close>

theorem owed_session_survives:
  assumes "rc_step\<^sup>*\<^sup>* (newCache n) c" "p < n" "SessionState_Held (owed c p)" "cache_step\<^sup>*\<^sup>* c c'"
    and "RigFor ctl vfoMins c' (int p) = (c'', Inr r)"
  shows "owed c' p = owed c p \<and> Rig_SessionState (store c'' ! r) = owed c p \<and> \<not> rclosed (store c'' ! r)"
proof -
  have c: "rc_inv c" by (rule rig_cache.reachable_inv [OF refl assms(1)])
  have "length (cports c) = length (cports (newCache n))" using assms(1) rc_steps_ports [OF assms(1) rc_inv_new] by simp
  then have p: "p < length (cports c)" using assms(2) by (simp add: newCache_def)
  have k: "owes_same c c' p" "rc_inv c'" "p < length (cports c')" using cache_steps_keep [OF assms(4) c p] by simp_all
  then have o: "owed c' p = owed c p" using assms(3) by (auto simp: owes_same_def)
  have "owes_same c' c'' p" using RigFor_owes_same [OF k(2,3), of ctl vfoMins "int p"] assms(5) by simp
  then have "owed c'' p = owed c p" using o assms(3) by (auto simp: owes_same_def)
  then show ?thesis using RigFor_owes [OF k(2) assms(5)] o by simp
qed

definition heldRig :: rig where
  "heldRig = (newRig 0)\<lparr>sess := noSession\<lparr>held := True, origChannelA := 5, setChannelA := True\<rparr>\<rparr>"

definition heldCache :: rcache where
  "heldCache = \<lparr>cports = [Some (0, True)], rigs = [Some (0, 0)], rigSessions = [noState], store = [heldRig]\<rparr>"

lemma heldCache_reach: "rc_step\<^sup>*\<^sup>* (newCache 1) heldCache"
proof -
  let ?a = "(newCache 1)\<lparr>cports := (cports (newCache 1))[0 := Some (0, True)]\<rparr>"
  let ?b = "fst (RigFor True [] ?a 0)"
  have s1: "rc_step (newCache 1) ?a" by (rule rc_step.cache [OF cache_step.port])
  have s2: "rc_step ?a ?b" by (rule rc_step.cache [OF cache_step.resolve])
  have b: "?b = \<lparr>cports = [Some (0, True)], rigs = [Some (0, 0)], rigSessions = [noState], store = [newRig 0]\<rparr>"
    by (simp add: newCache_def RigFor_def cachedRig_def invalidateRig_def AdoptSession_def Let_def)
  have "rc_step ?b (?b\<lparr>store := (store ?b)[0 := heldRig]\<rparr>)" by (rule rc_step.operate) (simp only: b, simp)
  moreover have "?b\<lparr>store := (store ?b)[0 := heldRig]\<rparr> = heldCache" unfolding b by (simp add: heldCache_def)
  ultimately have s3: "rc_step ?b heldCache" by (simp only:)
  show ?thesis using s1 s2 s3 by (blast intro: converse_rtranclp_into_rtranclp)
qed

theorem owed_session_survives_witness:
  "\<exists>c r. RigFor True [] (closeRig (heldCache\<lparr>cports := [Some (1, True)]\<rparr>) 0) 0 = (c, Inr r)
     \<and> Rig_SessionState (store c ! r) = Rig_SessionState heldRig \<and> \<not> rclosed (store c ! r)"
proof -
  let ?c = "closeRig (heldCache\<lparr>cports := [Some (1, True)]\<rparr>) 0"
  have o: "owed heldCache 0 = Rig_SessionState heldRig" by (simp add: owed_def rigNo_def heldCache_def)
  have h: "SessionState_Held (owed heldCache 0)"
    unfolding o by (simp add: SessionState_Held_def Rig_SessionState_def heldRig_def)
  have "cache_step heldCache (heldCache\<lparr>cports := (cports heldCache)[0 := Some (1, True)]\<rparr>)" by (rule cache_step.port)
  moreover have "cache_step (heldCache\<lparr>cports := [Some (1, True)]\<rparr>) ?c" by (rule cache_step.poison) (simp add: heldCache_def)
  ultimately have s: "cache_step\<^sup>*\<^sup>* heldCache ?c"
    by (auto simp: heldCache_def intro: rtranclp.rtrancl_into_rtrancl)
  obtain c r where r: "RigFor True [] ?c (int 0) = (c, Inr r)"
    by (simp add: heldCache_def RigFor_def cachedRig_def closeRig_def invalidateRig_def Let_def)
  show ?thesis using owed_session_survives [OF heldCache_reach _ h s r] r o by auto
qed

section \<open>Shutdown\<close>

text \<open>
  C39.  When the shutdown waits for the lock of a gate, it can end exactly if no goroutine that holds the lock is still
  waiting for the event loop: the goroutine waits for the loop to resolve its rig, and the loop, busy with the shutdown,
  waits for the lock. The witness is a run into that deadlock: the last connection ends, the goroutine that restores the
  radio takes the lock, and the shutdown is next in the queue.
\<close>

theorem shutdown_ends_unless_held:
  assumes "sd_step\<^sup>*\<^sup>* newSd s" "sloop s = WantIO"
  shows "(\<exists>s'. sd_step\<^sup>*\<^sup>* s s' \<and> sloop s' = Stopped) \<longleftrightarrow> sio s \<notin> {Holding, Posted}"
  by (rule shutdown_ends_iff [OF sd_system.reachable_inv [OF refl assms(1)] assms(2)])

theorem shutdown_ends_unless_held_witness:
  "\<exists>s. sd_step\<^sup>*\<^sup>* newSd s \<and> sloop s = WantIO \<and> \<not> (\<exists>s'. sd_step\<^sup>*\<^sup>* s s' \<and> sloop s' = Stopped)"
  using shutdown_ends_unless_held [OF dead_run dead_run_blocked(1)] dead_run dead_run_blocked by auto

end
