(* ===== verification/Netutil.thy ===== *)
theory Netutil
  imports Prelude
begin

text \<open>
  Client allow lists (\<^verbatim>\<open>src/internal/netutil/netutil.go\<close>) over the address parser of Go's
  \<^verbatim>\<open>net/netip\<close> and \<^verbatim>\<open>net.SplitHostPort\<close>.  The texts of errors are left out: a parser of the standard
  library returns \<open>None\<close> where it reports one.
\<close>

unbundle bit_operations_syntax

section \<open>Numbers and splitting\<close>

definition Atoi :: "string \<Rightarrow> int option" where
  "Atoi s =
     (let neg = (s \<noteq> [] \<and> hd s = CHR ''-''); d = (if s \<noteq> [] \<and> (hd s = CHR ''-'' \<or> hd s = CHR ''+'') then tl s else s);
          v = int (foldl (\<lambda>acc c. 10 * acc + digit_val c) 0 d); v = (if neg then - v else v)
      in if d = [] \<or> \<not> list_all is_digit d \<or> v < - (2 ^ 63) \<or> v \<ge> 2 ^ 63 then None else Some v)"

fun splitOn :: "char \<Rightarrow> string \<Rightarrow> string list" where
  "splitOn c [] = [[]]"
| "splitOn c (x # xs) =
     (if x = c then [] # splitOn c xs else (case splitOn c xs of [] \<Rightarrow> [[x]] | p # ps \<Rightarrow> (x # p) # ps))"

section \<open>Addresses\<close>

datatype netAddr = V4 u32 | V6 "128 word" string

definition zoned :: "netAddr \<Rightarrow> bool" where
  "zoned a = (case a of V4 _ \<Rightarrow> False | V6 _ z \<Rightarrow> z \<noteq> [])"

definition BitLen :: "netAddr \<Rightarrow> nat" where
  "BitLen a = (case a of V4 _ \<Rightarrow> 32 | V6 _ _ \<Rightarrow> 128)"

definition withoutZone :: "netAddr \<Rightarrow> netAddr" where
  "withoutZone a = (case a of V4 x \<Rightarrow> V4 x | V6 x _ \<Rightarrow> V6 x [])"

text \<open>The number with the given octets, most significant first.\<close>

definition octets :: "nat list \<Rightarrow> 'a::len word" where
  "octets bs = foldl (\<lambda>acc b. acc * 256 + word_of_nat b) 0 bs"

fun parseIPv4Fields :: "string \<Rightarrow> nat \<Rightarrow> nat \<Rightarrow> nat list \<Rightarrow> nat list option" where
  "parseIPv4Fields [] val digLen fs = (if length fs < 3 then None else Some (fs @ [val]))"
| "parseIPv4Fields (c # s) val digLen fs =
     (if is_digit c then
        (if digLen = 1 \<and> val = 0 then None
         else let val = val * 10 + digit_val c
              in if val > 255 then None else parseIPv4Fields s val (digLen + 1) fs)
      else if c = CHR ''.'' then
        (if digLen = 0 \<or> s = [] then None
         else if length fs = 3 then None
         else parseIPv4Fields s 0 0 (fs @ [val]))
      else None)"

definition parseIPv4 :: "string \<Rightarrow> netAddr option" where
  "parseIPv4 s = map_option (\<lambda>q. V4 (octets q)) (parseIPv4Fields s 0 0 [])"

definition hexVal :: "char \<Rightarrow> nat option" where
  "hexVal c =
     (let n = (of_char c :: nat)
      in if 48 \<le> n \<and> n \<le> 57 then Some (n - 48)
         else if 97 \<le> n \<and> n \<le> 102 then Some (n - 87)
         else if 65 \<le> n \<and> n \<le> 70 then Some (n - 55) else None)"

fun hexGroup :: "string \<Rightarrow> nat \<Rightarrow> nat \<Rightarrow> (nat \<times> nat \<times> string) option" where
  "hexGroup [] off acc = Some (acc, off, [])"
| "hexGroup (c # s) off acc =
     (case hexVal c of
        None \<Rightarrow> Some (acc, off, c # s)
      | Some v \<Rightarrow>
          (let acc = acc * 16 + v
           in if off > 3 then None else if acc > 65535 then None else hexGroup s (off + 1) acc))"

lemma hexGroup_length: "hexGroup s off acc = Some (a, o', r) \<Longrightarrow> length r + o' = length s + off"
  by (induction s off acc rule: hexGroup.induct) (auto simp: Let_def split: option.splits if_splits)

text \<open>The loop over groups: what is left of the text, the bytes so far and where the ellipsis was.\<close>

function v6Loop :: "string \<Rightarrow> nat list \<Rightarrow> nat option \<Rightarrow> (string \<times> nat list \<times> nat option) option" where
  "v6Loop s ip ell =
     (if length ip \<ge> 16 then Some (s, ip, ell)
      else case hexGroup s 0 0 of
        None \<Rightarrow> None
      | Some (acc, off, rest) \<Rightarrow>
          if off = 0 then None
          else if rest \<noteq> [] \<and> hd rest = CHR ''.'' then
            (if ell = None \<and> length ip \<noteq> 12 then None
             else if length ip + 4 > 16 then None
             else case parseIPv4Fields s 0 0 [] of None \<Rightarrow> None | Some q \<Rightarrow> Some ([], ip @ q, ell))
          else
            (let ip = ip @ [acc div 256, acc mod 256]
             in case rest of
                  [] \<Rightarrow> Some ([], ip, ell)
                | c # r \<Rightarrow>
                    if c \<noteq> CHR '':'' then None
                    else (case r of
                            [] \<Rightarrow> None
                          | d # r' \<Rightarrow>
                              if d = CHR '':'' then
                                (if ell \<noteq> None then None
                                 else if r' = [] then Some ([], ip, Some (length ip))
                                 else v6Loop r' ip (Some (length ip)))
                              else v6Loop r ip ell)))"
  by pat_completeness auto
termination
  by (relation "measure (\<lambda>(s, _, _). length s)") (auto dest!: hexGroup_length)

definition v6Finish :: "string \<times> nat list \<times> nat option \<Rightarrow> string \<Rightarrow> netAddr option" where
  "v6Finish x zone =
     (case x of (s, ip, ell) \<Rightarrow>
        if s \<noteq> [] then None
        else if length ip < 16 then
          (case ell of
             None \<Rightarrow> None
           | Some e \<Rightarrow> Some (V6 (octets (take e ip @ replicate (16 - length ip) 0 @ drop e ip)) zone))
        else if ell \<noteq> None then None
        else Some (V6 (octets ip) zone))"

definition parseIPv6 :: "string \<Rightarrow> netAddr option" where
  "parseIPv6 s0 =
     (let s = takeWhile (\<lambda>c. c \<noteq> CHR ''%'') s0; zone = drop (length s + 1) s0
      in if CHR ''%'' \<in> set s0 \<and> zone = [] then None
         else if take 2 s = ''::'' then
           (if drop 2 s = [] then Some (V6 0 zone)
            else Option.bind (v6Loop (drop 2 s) [] (Some 0)) (\<lambda>x. v6Finish x zone))
         else Option.bind (v6Loop s [] None) (\<lambda>x. v6Finish x zone))"

definition ParseAddr :: "string \<Rightarrow> netAddr option" where
  "ParseAddr s =
     (case List.find (\<lambda>c. c \<in> {CHR ''.'', CHR '':'', CHR ''%''}) s of
        None \<Rightarrow> None
      | Some c \<Rightarrow> if c = CHR ''.'' then parseIPv4 s else if c = CHR '':'' then parseIPv6 s else None)"

section \<open>Prefixes\<close>

record netPrefix =
  pfAddr :: netAddr
  pfBits :: nat

definition PrefixFrom :: "netAddr \<Rightarrow> nat \<Rightarrow> netPrefix" where
  "PrefixFrom ip b = \<lparr>pfAddr = withoutZone ip, pfBits = b\<rparr>"

definition ParsePrefix :: "string \<Rightarrow> netPrefix option" where
  "ParsePrefix s =
     (case LastIndex (CHR ''/'') s of
        None \<Rightarrow> None
      | Some i \<Rightarrow>
          (case ParseAddr (take i s) of
             None \<Rightarrow> None
           | Some ip \<Rightarrow>
               (let bs = drop (i + 1) s
                in if zoned ip then None
                   else if length bs > 1 \<and> \<not> (is_digit (hd bs) \<and> hd bs \<noteq> CHR ''0'') then None
                   else case Atoi bs of
                          None \<Rightarrow> None
                        | Some b \<Rightarrow> if b < 0 \<or> b > int (BitLen ip) then None else Some (PrefixFrom ip (nat b)))))"

definition highBits :: "nat \<Rightarrow> 'a::len word \<Rightarrow> 'a word" where
  "highBits n x = push_bit (LENGTH('a) - n) (drop_bit (LENGTH('a) - n) x)"

definition Masked :: "netPrefix \<Rightarrow> netPrefix" where
  "Masked p = p\<lparr>pfAddr := (case pfAddr p of V4 x \<Rightarrow> V4 (highBits (pfBits p) x) | V6 x z \<Rightarrow> V6 (highBits (pfBits p) x) z)\<rparr>"

definition Contains :: "netPrefix \<Rightarrow> netAddr \<Rightarrow> bool" where
  "Contains p ip \<longleftrightarrow> \<not> zoned ip \<and>
     (case (pfAddr p, ip) of
        (V4 x, V4 y) \<Rightarrow> drop_bit (32 - pfBits p) (x XOR y) = 0
      | (V6 x _, V6 y _) \<Rightarrow> drop_bit (128 - pfBits p) (x XOR y) = 0
      | _ \<Rightarrow> False)"

section \<open>The allow list\<close>

type_synonym Allowlist = "netPrefix list"

datatype allow_error = InvalidCIDR string | InvalidAddress string

fun parseEntries :: "unicode \<Rightarrow> string list \<Rightarrow> Allowlist \<Rightarrow> allow_error + Allowlist" where
  "parseEntries u [] a = Inr a"
| "parseEntries u (part # ps) a =
     (let part = TrimSpace u part
      in if part = [] then parseEntries u ps a
         else if CHR ''/'' \<in> set part then
           (case ParsePrefix part of
              None \<Rightarrow> Inl (InvalidCIDR part)
            | Some p \<Rightarrow> parseEntries u ps (a @ [Masked p]))
         else
           (case ParseAddr part of
              None \<Rightarrow> Inl (InvalidAddress part)
            | Some ip \<Rightarrow> parseEntries u ps (a @ [PrefixFrom ip (BitLen ip)])))"

definition ParseAllowlist :: "unicode \<Rightarrow> string \<Rightarrow> allow_error + Allowlist" where
  "ParseAllowlist u s = parseEntries u (splitOn (CHR '','') s) []"

definition Enabled :: "Allowlist \<Rightarrow> bool" where
  "Enabled a \<longleftrightarrow> length a > 0"

definition IndexByte :: "char \<Rightarrow> string \<Rightarrow> nat option" where
  "IndexByte c s = (if c \<in> set s then Some (length (takeWhile (\<lambda>x. x \<noteq> c) s)) else None)"

text \<open>\<open>SplitHostPort\<close>, of which only the host is used.\<close>

definition SplitHostPort :: "string \<Rightarrow> string option" where
  "SplitHostPort hp =
     (case LastIndex (CHR '':'') hp of
        None \<Rightarrow> None
      | Some i \<Rightarrow>
          if hd hp = CHR ''['' then
            (case IndexByte (CHR '']'') hp of
               None \<Rightarrow> None
             | Some e \<Rightarrow>
                 if e + 1 \<noteq> i then None
                 else if CHR ''['' \<in> set (drop 1 hp) \<or> CHR '']'' \<in> set (drop (e + 1) hp) then None
                 else Some (take (e - 1) (drop 1 hp)))
          else if CHR '':'' \<in> set (take i hp) then None
          else if CHR ''['' \<in> set hp \<or> CHR '']'' \<in> set hp then None
          else Some (take i hp))"

definition Allows :: "Allowlist \<Rightarrow> string \<Rightarrow> bool" where
  "Allows a addr \<longleftrightarrow>
     (if \<not> Enabled a then True
      else case ParseAddr (case SplitHostPort addr of None \<Rightarrow> addr | Some h \<Rightarrow> h) of
             None \<Rightarrow> False
           | Some ip \<Rightarrow> list_ex (\<lambda>p. Contains p ip) a)"

text \<open>
  \<open>Accept\<close> of the filtering listener, on the remote addresses of the connections that arrive: the
  one it returns, and those it closed before.
\<close>

fun Accept :: "Allowlist \<Rightarrow> string list \<Rightarrow> string option \<times> string list \<times> string list" where
  "Accept a [] = (None, [], [])"
| "Accept a (c # cs) =
     (if Allows a c then (Some c, [], cs)
      else (case Accept a cs of (r, closed, rest) \<Rightarrow> (r, c # closed, rest)))"

section \<open>Printed addresses are read back\<close>

definition showQuad :: "nat \<times> nat \<times> nat \<times> nat \<Rightarrow> string" where
  "showQuad q = (case q of (a, b, c, d) \<Rightarrow> show_nat a @ ''.'' @ show_nat b @ ''.'' @ show_nat c @ ''.'' @ show_nat d)"

definition quad_ok :: "nat \<times> nat \<times> nat \<times> nat \<Rightarrow> bool" where
  "quad_ok q \<longleftrightarrow> (case q of (a, b, c, d) \<Rightarrow> a \<le> 255 \<and> b \<le> 255 \<and> c \<le> 255 \<and> d \<le> 255)"

definition quadWord :: "nat \<times> nat \<times> nat \<times> nat \<Rightarrow> u32" where
  "quadWord q = (case q of (a, b, c, d) \<Rightarrow> octets [a, b, c, d])"

lemma digit_char [simp]: "d < 10 \<Longrightarrow> is_digit (char_of (48 + d :: nat))" "d < 10 \<Longrightarrow> digit_val (char_of (48 + d :: nat)) = d"
  by (simp_all add: is_digit_def digit_val_def)

lemma digit_char_nonzero: "0 < d \<Longrightarrow> d < 10 \<Longrightarrow> char_of (48 + d :: nat) \<noteq> CHR ''0''"
proof
  assume d: "0 < d" "d < 10" "char_of (48 + d :: nat) = CHR ''0''"
  have "(of_char (char_of (48 + d :: nat)) :: nat) = of_char CHR ''0''" by (rule arg_cong [OF d(3)])
  moreover have "(of_char (char_of (48 + d :: nat)) :: nat) = 48 + d" using d(2) by simp
  moreover have "(of_char CHR ''0'' :: nat) = 48" by simp
  ultimately show False using d by linarith
qed

lemma parse_number:
  assumes "n \<le> 255"
  shows "parseIPv4Fields (show_nat n @ s) 0 0 fs = parseIPv4Fields s n (length (show_nat n)) fs"
proof -
  consider "n < 10" | "10 \<le> n" "n < 100" | "100 \<le> n" by linarith
  then show ?thesis
  proof cases
    case 1
    then show ?thesis by (simp add: show_nat_small)
  next
    case 2
    then have "n div 10 < 10" "0 < n div 10" by auto
    with 2 show ?thesis by (simp add: show_nat_big show_nat_small)
  next
    case 3
    with assms have d: "n div 10 div 10 < 10" "0 < n div 10 div 10" "10 \<le> n div 10" by auto
    have "(n div 10 div 10 * 10 + n div 10 mod 10) * 10 + n mod 10 = n" by presburger
    moreover have "\<not> 255 < n div 10" using assms by linarith
    ultimately show ?thesis using 3 d assms by (simp add: show_nat_big show_nat_small Let_def)
  qed
qed

lemma show_nat_length [simp]: "0 < length (show_nat n)"
  using show_nat_digits [of n] by simp

lemma parse_quad:
  assumes "quad_ok q"
  shows "parseIPv4 (showQuad q) = Some (V4 (quadWord q))"
proof -
  obtain a b c d where q: "q = (a, b, c, d)" by (cases q)
  have "show_nat n \<noteq> []" for n using show_nat_digits [of n] by simp
  then show ?thesis
    using assms parse_number [of d "[]"]
    by (simp add: q showQuad_def quad_ok_def quadWord_def parseIPv4_def parse_number is_digit_def)
qed

definition plain_char :: "char \<Rightarrow> bool" where
  "plain_char c \<longleftrightarrow> is_digit c \<or> c = CHR ''.''"

lemma showQuad_plain: "list_all plain_char (showQuad q)" "showQuad q \<noteq> []"
proof -
  have n: "list_all plain_char (show_nat n)" for n
    using show_nat_digits [of n] by (auto simp: plain_char_def list_all_iff)
  have "plain_char CHR ''.''" by (simp add: plain_char_def)
  with n show "list_all plain_char (showQuad q)" "showQuad q \<noteq> []"
    by (simp_all add: showQuad_def split: prod.split)
qed

lemma plain_facts:
  assumes "list_all plain_char s"
  shows "CHR '':'' \<notin> set s" "CHR ''['' \<notin> set s" "CHR '']'' \<notin> set s" "CHR ''%'' \<notin> set s" "CHR ''/'' \<notin> set s" "CHR '','' \<notin> set s"
    "ascii s" "\<forall>c\<in>set s. \<not> is_space c"
  using assms by (auto simp: list_all_iff plain_char_def is_digit_def ascii_def is_space_def)

lemma ParseAddr_quad:
  assumes "quad_ok q"
  shows "ParseAddr (showQuad q) = Some (V4 (quadWord q))"
proof -
  let ?P = "\<lambda>c. c \<in> {CHR ''.'', CHR '':'', CHR ''%''}"
  obtain a b c d where q: "q = (a, b, c, d)" by (cases q)
  have "CHR ''.'' \<in> set (showQuad q)" by (simp add: q showQuad_def)
  then have "List.find ?P (showQuad q) \<noteq> None" unfolding find_None_iff by blast
  then obtain x where x: "List.find ?P (showQuad q) = Some x" by blast
  then have "x \<in> set (showQuad q)" "?P x" using find_SomeD by fastforce+
  then have "x = CHR ''.''" using plain_facts(1,4) [OF showQuad_plain(1) [of q]] by (elim insertE) auto
  with x show ?thesis using parse_quad [OF assms] by (simp add: ParseAddr_def)
qed

text \<open>A network as an operator writes it, and a remote address as the standard library prints it.\<close>

definition showNet :: "(nat \<times> nat \<times> nat \<times> nat) \<times> nat \<Rightarrow> string" where
  "showNet x = showQuad (fst x) @ ''/'' @ show_nat (snd x)"

definition showRemote :: "nat \<times> nat \<times> nat \<times> nat \<Rightarrow> nat \<Rightarrow> string" where
  "showRemote q port = showQuad q @ '':'' @ show_nat port"

lemma show_nat_plain: "list_all plain_char (show_nat n)"
  using show_nat_digits [of n] by (auto simp: plain_char_def list_all_iff)

lemma SplitHostPort_remote: "SplitHostPort (showRemote q port) = Some (showQuad q)"
proof -
  note f = plain_facts [OF showQuad_plain(1) [of q]] plain_facts [OF show_nat_plain [of port]]
  have i: "LastIndex (CHR '':'') (showRemote q port) = Some (length (showQuad q))"
    unfolding showRemote_def using LastIndex_append [of "CHR '':''" "show_nat port" "showQuad q"] f by simp
  have h: "hd (showRemote q port) = hd (showQuad q)" by (simp add: showRemote_def showQuad_plain)
  have "hd (showQuad q) \<noteq> CHR ''[''" using f showQuad_plain(2) by (metis hd_in_set)
  then show ?thesis unfolding SplitHostPort_def i using f by (simp add: h) (simp add: showRemote_def)
qed

lemma show_nat_lead: "10 \<le> n \<Longrightarrow> hd (show_nat n) \<noteq> CHR ''0''"
proof (induction n rule: show_nat.induct)
  case (1 n)
  show ?case
  proof (cases "n div 10 < 10")
    case True
    then have "0 < n div 10" "n div 10 < 10" using 1(2) by auto
    then show ?thesis using 1(2)
      by (simp add: show_nat_big [OF 1(2)] show_nat_small hd_append digit_char_nonzero del: char_of_eq_iff)
  next
    case False
    then show ?thesis using 1 show_nat_digits [of "n div 10"] by (simp add: show_nat_big [OF 1(2)] hd_append)
  qed
qed

lemma Atoi_show_nat: "n < 2 ^ 63 \<Longrightarrow> Atoi (show_nat n) = Some (int n)"
proof -
  assume n: "n < 2 ^ 63"
  have d: "list_all is_digit (show_nat n)" "show_nat n \<noteq> []" using show_nat_digits by auto
  then have "is_digit (hd (show_nat n))" by (metis list_all_iff hd_in_set)
  then have "hd (show_nat n) \<noteq> CHR ''-''" "hd (show_nat n) \<noteq> CHR ''+''" by (auto simp: is_digit_def)
  then show ?thesis using d n show_nat_value [of n] by (simp add: Atoi_def Let_def)
qed

lemma ParsePrefix_net:
  assumes "quad_ok q" "n \<le> 32"
  shows "ParsePrefix (showNet (q, n)) = Some \<lparr>pfAddr = V4 (quadWord q), pfBits = n\<rparr>"
proof -
  note f = plain_facts [OF showQuad_plain(1) [of q]] plain_facts [OF show_nat_plain [of n]]
  have i: "LastIndex (CHR ''/'') (showNet (q, n)) = Some (length (showQuad q))"
    unfolding showNet_def using LastIndex_append [of "CHR ''/''" "show_nat n" "showQuad q"] f by simp
  have t: "take (length (showQuad q)) (showNet (q, n)) = showQuad q" "drop (length (showQuad q) + 1) (showNet (q, n)) = show_nat n"
    by (simp_all add: showNet_def)
  have "length (show_nat n) > 1 \<Longrightarrow> 10 \<le> n" by (rule ccontr) (simp add: show_nat_small)
  then have l: "\<not> (length (show_nat n) > 1 \<and> \<not> (is_digit (hd (show_nat n)) \<and> hd (show_nat n) \<noteq> CHR ''0''))"
    using show_nat_lead [of n] show_nat_digits [of n] by (auto simp: list_all_iff)
  have "Atoi (show_nat n) = Some (int n)" using assms(2) by (intro Atoi_show_nat) simp
  with l show ?thesis unfolding ParsePrefix_def i option.case t ParseAddr_quad [OF assms(1)]
    using assms(2) by (simp add: zoned_def BitLen_def PrefixFrom_def withoutZone_def Let_def)
qed

section \<open>What a list of networks allows\<close>

fun joinComma :: "string list \<Rightarrow> string" where
  "joinComma [] = []"
| "joinComma [p] = p"
| "joinComma (p # ps) = p @ '','' @ joinComma ps"

lemma splitOn_plain: "c \<notin> set p \<Longrightarrow> splitOn c p = [p]"
  by (induction p) auto

lemma splitOn_append: "c \<notin> set p \<Longrightarrow> splitOn c (p @ c # s) = p # splitOn c s"
  by (induction p) auto

lemma splitOn_join: "\<forall>p\<in>set ps. CHR '','' \<notin> set p \<Longrightarrow> ps \<noteq> [] \<Longrightarrow> splitOn CHR '','' (joinComma ps) = ps"
  by (induction ps rule: joinComma.induct) (simp_all add: splitOn_plain splitOn_append)

lemma TrimSpace_plain:
  assumes "ascii s" "\<forall>c\<in>set s. \<not> is_space c"
  shows "TrimSpace u s = s"
proof -
  have d: "dropWhile is_space t = t" if "\<forall>c\<in>set t. \<not> is_space c" for t using that by (cases t) simp_all
  have "dropWhile is_space s = s" "dropWhile is_space (rev s) = rev s" by (rule d, simp add: assms(2))+
  then show ?thesis using assms(1) by (simp add: TrimSpace_def)
qed

lemma showNet_facts:
  "CHR '','' \<notin> set (showNet x)" "ascii (showNet x)" "\<forall>c\<in>set (showNet x). \<not> is_space c" "CHR ''/'' \<in> set (showNet x)" "showNet x \<noteq> []"
proof -
  note f = plain_facts [OF showQuad_plain(1) [of "fst x"]] plain_facts [OF show_nat_plain [of "snd x"]]
  show "CHR '','' \<notin> set (showNet x)" "ascii (showNet x)" "\<forall>c\<in>set (showNet x). \<not> is_space c" "CHR ''/'' \<in> set (showNet x)" "showNet x \<noteq> []"
    using f by (auto simp: showNet_def ascii_def is_space_def)
qed

definition net_ok :: "(nat \<times> nat \<times> nat \<times> nat) \<times> nat \<Rightarrow> bool" where
  "net_ok x \<longleftrightarrow> quad_ok (fst x) \<and> snd x \<le> 32"

definition netPrefixOf :: "(nat \<times> nat \<times> nat \<times> nat) \<times> nat \<Rightarrow> netPrefix" where
  "netPrefixOf x = Masked \<lparr>pfAddr = V4 (quadWord (fst x)), pfBits = snd x\<rparr>"

lemma parseEntries_nets:
  "\<forall>x\<in>set nets. net_ok x \<Longrightarrow> parseEntries u (map showNet nets) a = Inr (a @ map netPrefixOf nets)"
proof (induction nets arbitrary: a)
  case (Cons x nets)
  then have "ParsePrefix (showNet x) = Some \<lparr>pfAddr = V4 (quadWord (fst x)), pfBits = snd x\<rparr>"
    using ParsePrefix_net [of "fst x" "snd x"] by (simp add: net_ok_def)
  with Cons show ?case by (simp add: TrimSpace_plain showNet_facts netPrefixOf_def Let_def)
qed simp

lemma ParseAllowlist_nets:
  assumes "\<forall>x\<in>set nets. net_ok x"
  shows "ParseAllowlist u (joinComma (map showNet nets)) = Inr (map netPrefixOf nets)"
proof (cases "nets = []")
  case True
  then show ?thesis by (simp add: ParseAllowlist_def TrimSpace_def)
next
  case False
  then have "splitOn CHR '','' (joinComma (map showNet nets)) = map showNet nets"
    by (intro splitOn_join) (auto simp: showNet_facts)
  then show ?thesis using parseEntries_nets [OF assms, of u "[]"] by (simp add: ParseAllowlist_def)
qed

text \<open>Two addresses are in one network of \<open>n\<close> bits when their first \<open>n\<close> bits agree.\<close>

definition sameNet :: "nat \<Rightarrow> u32 \<Rightarrow> u32 \<Rightarrow> bool" where
  "sameNet n x y \<longleftrightarrow> (\<forall>i\<in>{32 - n..<32}. bit x i = bit y i)"

lemma sameNet_iff: "sameNet n x y \<longleftrightarrow> drop_bit (32 - n) x = drop_bit (32 - n) y"
proof
  assume s: "sameNet n x y"
  show "drop_bit (32 - n) x = drop_bit (32 - n) y"
  proof (rule bit_word_eqI)
    fix i
    show "bit (drop_bit (32 - n) x) i = bit (drop_bit (32 - n) y) i"
      using s bit_imp_le_length [of x "32 - n + i"] bit_imp_le_length [of y "32 - n + i"]
      by (cases "32 - n + i < 32") (auto simp: bit_drop_bit_eq sameNet_def)
  qed
next
  assume "drop_bit (32 - n) x = drop_bit (32 - n) y"
  then have e: "bit x (32 - n + i) = bit y (32 - n + i)" for i by (metis bit_drop_bit_eq comp_apply)
  show "sameNet n x y" unfolding sameNet_def
  proof
    fix i
    assume "i \<in> {32 - n..<32}"
    then show "bit x i = bit y i" using e [of "i - (32 - n)"] by simp
  qed
qed

lemma Contains_net: "Contains (netPrefixOf x) (V4 y) \<longleftrightarrow> sameNet (snd x) (quadWord (fst x)) y"
proof -
  have h: "drop_bit (32 - n) (highBits n w) = drop_bit (32 - n) w" for n and w :: u32
    by (rule bit_word_eqI) (auto simp: bit_drop_bit_eq highBits_def bit_push_bit_iff dest: bit_imp_le_length)
  have "drop_bit k (v XOR y) = 0 \<longleftrightarrow> drop_bit k v = drop_bit k y" for k and v :: u32
    by (auto simp: bit_eq_iff bit_drop_bit_eq bit_xor_iff)
  with h show ?thesis by (simp add: Contains_def netPrefixOf_def Masked_def zoned_def sameNet_iff)
qed

lemma allows_nets:
  assumes "\<forall>x\<in>set nets. net_ok x" "quad_ok q"
  shows "Allows (map netPrefixOf nets) (showRemote q port) \<longleftrightarrow>
    nets = [] \<or> (\<exists>x\<in>set nets. sameNet (snd x) (quadWord (fst x)) (quadWord q))"
  using assms Contains_net
  by (auto simp: Allows_def Enabled_def SplitHostPort_remote ParseAddr_quad list_ex_iff net_ok_def)

end
