(* ===== verification/Config_Keys.thy ===== *)
theory Config_Keys
  imports Prelude
begin

text \<open>
  The recognised keys of a configuration file and the hint for a misspelt one
  (\<^verbatim>\<open>src/internal/config/config.go\<close>, from \<^verbatim>\<open>knownServerKeys\<close> to \<^verbatim>\<open>warnUnknownKeys\<close>).
\<close>

section \<open>Recognised keys\<close>

definition knownServerKeys :: "string list" where
  "knownServerKeys = [''listen_host'', ''listen_port'', ''callsign'', ''max_clients'', ''idle_timeout'', ''allowed_subnets'']"

definition knownAX25Keys :: "string list" where
  "knownAX25Keys = [''max_window'', ''n2_retry'', ''t3_timeout'', ''frack'']"

definition knownRigCtlKeys :: "string list" where
  "knownRigCtlKeys = [''enabled'', ''listen_host'', ''listen_port'', ''allowed_subnets'', ''allow_ptt'', ''ptt_timeout'']"

definition knownKISSTCPKeys :: "string list" where
  "knownKISSTCPKeys = [''enabled'', ''listen_host'', ''listen_port'', ''max_clients'', ''idle_timeout'', ''allowed_subnets'']"

definition knownAPIKeys :: "string list" where
  "knownAPIKeys = [''enabled'', ''listen_host'', ''listen_port'', ''max_clients'', ''serve_ui'', ''allowed_subnets'', ''allowed_hosts'']"

definition knownClientKeys :: "string list" where
  "knownClientKeys =
     [''name'', ''type'', ''device'', ''serial_baudrate'', ''baudrate'', ''parity'', ''stopbits'', ''rtscts'', ''host'', ''port'',
      ''bdaddr'', ''channel'', ''reconnect'', ''reconnect_delay'', ''reconnect_max_delay'', ''ota_baudrate'', ''init_string'',
      ''init_delay'', ''send_kiss_exit'', ''host_exit_string'', ''exit_delay'', ''ax25_version'', ''srej'', ''rx_wedge_timeout'',
      ''tx_pacing'']"

definition knownKISSKeys :: "string list" where
  "knownKISSKeys = [''tx_delay'', ''persistence'', ''slot_time'', ''tx_tail'', ''full_duplex'']"

section \<open>Distance\<close>

text \<open>
  One row of the table: \<open>ts\<close> is the previous row from column 1 on, \<open>prev\<close> its entry to the left of
  the first of them, and \<open>left\<close> the entry just computed.
\<close>

fun levRow :: "char \<Rightarrow> string \<Rightarrow> nat list \<Rightarrow> nat \<Rightarrow> nat \<Rightarrow> nat list" where
  "levRow x (y # ys) (t # ts) prev left =
     (let v = (if x = y then prev
               else let m = prev;
                        m = (if left + 1 < m then left + 1 else m);
                        m = (if t + 1 < m then t + 1 else m)
                    in m)
      in v # levRow x ys ts t v)"
| "levRow x _ _ prev left = []"

fun levRows :: "nat \<Rightarrow> string \<Rightarrow> string \<Rightarrow> nat list \<Rightarrow> nat list" where
  "levRows i [] b dp = dp"
| "levRows i (x # xs) b dp = levRows (i + 1) xs b (i # levRow x b (tl dp) (hd dp) i)"

definition levenshtein :: "string \<Rightarrow> string \<Rightarrow> nat" where
  "levenshtein a b =
     (if a = [] then length b
      else if b = [] then length a
      else last (levRows 1 a b [0..<length b + 1]))"

fun closestFold :: "string \<Rightarrow> string list \<Rightarrow> string \<times> nat \<Rightarrow> string \<times> nat" where
  "closestFold key [] best = best"
| "closestFold key (k # ks) best =
     closestFold key ks (if levenshtein key k < snd best then (k, levenshtein key k) else best)"

definition closestKey :: "string \<Rightarrow> string list \<Rightarrow> string" where
  "closestKey key known = fst (closestFold key known ([], 3))"

text \<open>The warnings: each key that is not recognised, with the hint.\<close>

definition warnUnknownKeys :: "string list \<Rightarrow> string list \<Rightarrow> (string \<times> string) list" where
  "warnUnknownKeys keys known = map (\<lambda>k. (k, closestKey k known)) (filter (\<lambda>k. k \<notin> set known) keys)"

section \<open>What the distance is\<close>

text \<open>
  The entry for a substitution is the diagonal one without the cost of one, so that row \<open>i\<close> holds
  the differences of \<open>i\<close> and the column.
\<close>

definition gap :: "nat \<Rightarrow> nat \<Rightarrow> nat" where
  "gap i j = (if i \<le> j then j - i else i - j)"

lemma levRow_gaps:
  "levRow x ys (map (gap i) [Suc j..<Suc j + length ys]) (gap i j) (gap (Suc i) j)
     = map (gap (Suc i)) [Suc j..<Suc j + length ys]"
proof (induction ys arbitrary: j)
  case (Cons y ys)
  have u: "[Suc j..<Suc j + length (y # ys)] = Suc j # [Suc (Suc j)..<Suc (Suc j) + length ys]"
    using upt_conv_Cons [of "Suc j" "Suc j + length (y # ys)"] by (simp del: upt_Suc)
  have v: "(if x = y then gap i j else let m = gap i j; m = (if gap (Suc i) j + 1 < m then gap (Suc i) j + 1 else m);
      m = (if gap i (Suc j) + 1 < m then gap i (Suc j) + 1 else m) in m) = gap (Suc i) (Suc j)"
    by (auto simp: gap_def Let_def)
  from Cons.IH [of "Suc j"] show ?case
    unfolding u list.map levRow.simps Let_def [of "if x = y then _ else _"] v by simp
qed simp

lemma levRows_gaps:
  "levRows (Suc i) a b (map (gap i) [0..<Suc (length b)]) = map (gap (i + length a)) [0..<Suc (length b)]"
proof (induction a arbitrary: i)
  case (Cons x xs)
  have u: "[0..<Suc (length b)] = 0 # [Suc 0..<Suc 0 + length b]"
    using upt_conv_Cons [of 0 "Suc (length b)"] by (simp del: upt_Suc)
  have "Suc i # levRow x b (tl (map (gap i) [0..<Suc (length b)])) (hd (map (gap i) [0..<Suc (length b)])) (Suc i)
      = map (gap (Suc i)) [0..<Suc (length b)]"
    using levRow_gaps [of x b i 0] unfolding u by (simp add: gap_def)
  with Cons.IH [of "Suc i"] show ?case by simp
qed simp

lemma levenshtein_gap: "levenshtein a b = gap (length a) (length b)"
proof -
  have "[0..<length b + 1] = map (gap 0) [0..<Suc (length b)]" by (simp add: gap_def map_idI)
  then have "last (levRows 1 a b [0..<length b + 1]) = gap (length a) (length b)"
    using levRows_gaps [of 0 a b] by (simp add: last_map)
  then show ?thesis by (auto simp: levenshtein_def gap_def)
qed

end
