(* ===== verification/Config.thy ===== *)
theory Config
  imports Bridge_System Netutil Config_Keys Rigctl
begin

text \<open>
  Loading and checking the configuration (\<^verbatim>\<open>src/internal/config/config.go\<close>).

  The INI library is the parameter \<open>lib\<close>: a parsed file of any type with the operations the loader
  calls on it.  Nothing is assumed about them.  \<open>src\<close> is what reading the path gave: \<open>None\<close> for the
  empty path, \<open>Some None\<close> for a file that cannot be read.  Numbers a file gives as \<open>float64\<close> are
  rationals; infinities and NaN are left out.  Warnings are log output.
\<close>

section \<open>Data\<close>

record 'f ini =
  iHasSection :: "'f \<Rightarrow> string \<Rightarrow> bool"
  iSections :: "'f \<Rightarrow> string list"
  iSection :: "'f \<Rightarrow> string \<Rightarrow> 'f"
  iNewSection :: "'f \<Rightarrow> string \<Rightarrow> 'f"
  iDeleteSection :: "'f \<Rightarrow> string \<Rightarrow> 'f"
  iKeys :: "'f \<Rightarrow> string \<Rightarrow> (string \<times> string) list"
  iNewKey :: "'f \<Rightarrow> string \<Rightarrow> string \<Rightarrow> string \<Rightarrow> 'f"
  iString :: "'f \<Rightarrow> string \<Rightarrow> string \<Rightarrow> string option"
  iInt :: "'f \<Rightarrow> string \<Rightarrow> string \<Rightarrow> int option"
  iFloat :: "'f \<Rightarrow> string \<Rightarrow> string \<Rightarrow> rat option"
  iBool :: "'f \<Rightarrow> string \<Rightarrow> string \<Rightarrow> bool option"

text \<open>\<open>iString\<close> is \<open>HasKey\<close> and \<open>Key().String()\<close> in one: \<open>None\<close> when the key is absent.\<close>

record cfgServer =
  svListenHost :: string
  svListenPort :: int
  svCallsign :: string
  svMaxClients :: int
  svIdleTimeout :: int
  svAllowed :: Allowlist

record cfgAX25 =
  axMaxWindow :: int
  axN2Retry :: int
  axT3Timeout :: int
  axFrack :: int

record cfgKISSTCP =
  ktEnabled :: bool
  ktListenHost :: string
  ktListenPort :: int
  ktMaxClients :: int
  ktIdleTimeout :: int
  ktAllowed :: Allowlist

record cfgAPI =
  apEnabled :: bool
  apListenHost :: string
  apListenPort :: int
  apMaxClients :: int
  apServeUI :: bool
  apAllowed :: Allowlist
  apAllowedHosts :: "string list"

text \<open>A port and a rigctl section extend the records the bridge and the rigctl server read.\<close>

record portCfg = cfgPort +
  cpDevice :: string
  cpSerialBaudrate :: int
  cpParity :: string
  cpStopBits :: rat
  cpRTSCTS :: bool
  cpHost :: string
  cpTCPPort :: int
  cpBDAddr :: string
  cpChannel :: string
  cpInitString :: string
  cpInitDelay :: rat
  cpSendKISSExit :: bool
  cpHostExitString :: string
  cpExitDelay :: rat
  cpVFOChannelMin :: int

record rigctlSec = rigctlCfg +
  rcEnabled :: bool
  rcListenHost :: string
  rcListenPort :: int
  rcAllowed :: Allowlist

record Config =
  cServer :: cfgServer
  cAX25 :: cfgAX25
  cKISSTCP :: cfgKISSTCP
  cAPI :: cfgAPI
  cPorts :: "portCfg list"
  cRigCtl :: "rigctlSec list"

datatype config_error =
    CannotLoad
  | BadAllowlist string allow_error
  | NoClientSections
  | TooManyPorts nat
  | NotContiguous "int list"
  | MissingType string
  | InvalidType string string
  | MissingFields string "string list"
  | InvalidVersion string string
  | KISSRange string string int
  | InvalidParity string string
  | InvalidStopBits string rat

section \<open>Keys with defaults\<close>

definition getInt :: "'f ini \<Rightarrow> 'f \<Rightarrow> string \<Rightarrow> string \<Rightarrow> int \<Rightarrow> int" where
  "getInt lib f s key def =
     (if iString lib f s key \<noteq> None then (case iInt lib f s key of Some v \<Rightarrow> v | None \<Rightarrow> def) else def)"

definition getFloat :: "'f ini \<Rightarrow> 'f \<Rightarrow> string \<Rightarrow> string \<Rightarrow> rat \<Rightarrow> rat" where
  "getFloat lib f s key def =
     (if iString lib f s key \<noteq> None then (case iFloat lib f s key of Some v \<Rightarrow> v | None \<Rightarrow> def) else def)"

definition getBool :: "'f ini \<Rightarrow> 'f \<Rightarrow> string \<Rightarrow> string \<Rightarrow> bool \<Rightarrow> bool" where
  "getBool lib f s key def =
     (case iString lib f s key of
        None \<Rightarrow> def
      | Some raw \<Rightarrow>
          (case iBool lib f s key of
             Some v \<Rightarrow> v
           | None \<Rightarrow> if raw = ''0'' then False else if raw = ''1'' then True else def))"

definition getString :: "'f ini \<Rightarrow> 'f \<Rightarrow> string \<Rightarrow> string \<Rightarrow> string \<Rightarrow> string" where
  "getString lib f s key def = (case iString lib f s key of Some v \<Rightarrow> v | None \<Rightarrow> def)"

definition getList :: "unicode \<Rightarrow> 'f ini \<Rightarrow> 'f \<Rightarrow> string \<Rightarrow> string \<Rightarrow> string list" where
  "getList u lib f s key =
     filter (\<lambda>v. v \<noteq> []) (map (TrimSpace u) (splitOn CHR '','' (getString lib f s key [])))"

definition getIntPtr :: "'f ini \<Rightarrow> 'f \<Rightarrow> string \<Rightarrow> string \<Rightarrow> int option" where
  "getIntPtr lib f s key = (if iString lib f s key \<noteq> None then iInt lib f s key else None)"

definition parseAllowlistKey :: "unicode \<Rightarrow> 'f ini \<Rightarrow> 'f \<Rightarrow> string \<Rightarrow> string \<Rightarrow> config_error + Allowlist" where
  "parseAllowlistKey u lib f s key =
     (case iString lib f s key of
        None \<Rightarrow> Inr []
      | Some v \<Rightarrow> (case ParseAllowlist u v of Inl e \<Rightarrow> Inl (BadAllowlist s e) | Inr a \<Rightarrow> Inr a))"

section \<open>Old section names and the default port\<close>

definition isNumbered :: "string \<Rightarrow> string \<Rightarrow> bool" where
  "isNumbered pre name \<longleftrightarrow> length name > length pre \<and> take (length pre) name = pre"

definition migrateSection :: "'f ini \<Rightarrow> string \<Rightarrow> 'f \<Rightarrow> 'f" where
  "migrateSection lib base f =
     (if \<not> iHasSection lib f base then f
      else if list_ex (isNumbered (base @ ''.'')) (iSections lib f) then f
      else
        (let new = base @ ''.0''; g = iNewSection lib f new;
             g = foldl (\<lambda>g (k, v). iNewKey lib g new k v) g (iKeys lib g base)
         in iDeleteSection lib g base))"

definition addDefaultPort :: "'f ini \<Rightarrow> bool \<Rightarrow> 'f \<Rightarrow> 'f" where
  "addDefaultPort lib noPath f =
     (if \<not> list_ex (isNumbered ''client.'') (iSections lib f) \<and> noPath then
        (let new = ''client.0''; f = iNewSection lib f new; f = iNewKey lib f new ''type'' ''serial'';
             f = iNewKey lib f new ''device'' ''/dev/ttyUSB0''; f = iNewKey lib f new ''serial_baudrate'' ''9600''
         in iNewKey lib f new ''ota_baudrate'' ''1200'')
      else f)"

section \<open>Sections\<close>

definition parseServer :: "unicode \<Rightarrow> 'f ini \<Rightarrow> 'f \<Rightarrow> config_error + cfgServer" where
  "parseServer u lib f =
     (let s = ''server''
      in case parseAllowlistKey u lib f s ''allowed_subnets'' of
           Inl e \<Rightarrow> Inl e
         | Inr a \<Rightarrow>
             Inr \<lparr>svListenHost = getString lib f s ''listen_host'' ''127.0.0.1'',
                  svListenPort = getInt lib f s ''listen_port'' 8000,
                  svCallsign = getString lib f s ''callsign'' ''AGWPE'',
                  svMaxClients = getInt lib f s ''max_clients'' 8,
                  svIdleTimeout = getInt lib f s ''idle_timeout'' 300, svAllowed = a\<rparr>)"

definition parseAX25 :: "'f ini \<Rightarrow> 'f \<Rightarrow> cfgAX25" where
  "parseAX25 lib f =
     (let s = ''ax25''; w = getInt lib f s ''max_window'' 3;
          w = (if w < 1 then 1 else w); w = (if w > 7 then 7 else w);
          n2 = getInt lib f s ''n2_retry'' 10; fr = getInt lib f s ''frack'' 3
      in \<lparr>axMaxWindow = w, axN2Retry = (if n2 < 1 then 1 else n2), axT3Timeout = getInt lib f s ''t3_timeout'' 180,
          axFrack = (if fr < 1 then 3 else fr)\<rparr>)"

definition parseKISSTCP :: "unicode \<Rightarrow> 'f ini \<Rightarrow> 'f \<Rightarrow> config_error + cfgKISSTCP" where
  "parseKISSTCP u lib f =
     (let s = ''kisstcp''
      in case parseAllowlistKey u lib f s ''allowed_subnets'' of
           Inl e \<Rightarrow> Inl e
         | Inr a \<Rightarrow>
             Inr \<lparr>ktEnabled = getBool lib f s ''enabled'' False, ktListenHost = getString lib f s ''listen_host'' ''127.0.0.1'',
                  ktListenPort = getInt lib f s ''listen_port'' 8001, ktMaxClients = getInt lib f s ''max_clients'' 16,
                  ktIdleTimeout = getInt lib f s ''idle_timeout'' 300, ktAllowed = a\<rparr>)"

definition parseAPI :: "unicode \<Rightarrow> 'f ini \<Rightarrow> 'f \<Rightarrow> config_error + cfgAPI" where
  "parseAPI u lib f =
     (let s = ''api''
      in case parseAllowlistKey u lib f s ''allowed_subnets'' of
           Inl e \<Rightarrow> Inl e
         | Inr a \<Rightarrow>
             Inr \<lparr>apEnabled = getBool lib f s ''enabled'' False, apListenHost = getString lib f s ''listen_host'' ''127.0.0.1'',
                  apListenPort = getInt lib f s ''listen_port'' 8002, apMaxClients = getInt lib f s ''max_clients'' 16,
                  apServeUI = getBool lib f s ''serve_ui'' True, apAllowed = a,
                  apAllowedHosts = getList u lib f s ''allowed_hosts''\<rparr>)"

section \<open>Ports\<close>

definition maxPorts :: nat where
  "maxPorts = 16"

definition collectPorts :: "'f ini \<Rightarrow> 'f \<Rightarrow> (int \<times> string) list" where
  "collectPorts lib f =
     concat (map (\<lambda>name. if isNumbered ''client.'' name
                          then (case Atoi (drop 7 name) of Some i \<Rightarrow> [(i, name)] | None \<Rightarrow> []) else [])
               (iSections lib f))"

definition collectKISS :: "'f ini \<Rightarrow> 'f \<Rightarrow> int \<Rightarrow> string option" where
  "collectKISS lib f =
     map_of (rev (concat (map (\<lambda>name. if \<not> isNumbered ''client.'' name \<and> isNumbered ''kiss.'' name
                                       then (case Atoi (drop 5 name) of Some i \<Rightarrow> [(i, name)] | None \<Rightarrow> []) else [])
                            (iSections lib f))))"

definition checkNumbering :: "(int \<times> string) list \<Rightarrow> config_error option" where
  "checkNumbering es =
     (if es = [] then Some NoClientSections
      else if length es > maxPorts then Some (TooManyPorts (length es))
      else if map fst es \<noteq> map int [0..<length es] then Some (NotContiguous (map fst es))
      else None)"

definition validTypes :: "string list" where
  "validTypes = [''serial'', ''tcp'', ''bluetooth'', ''ble'']"

definition present :: "'f ini \<Rightarrow> 'f \<Rightarrow> string \<Rightarrow> string \<Rightarrow> bool" where
  "present lib f s key \<longleftrightarrow> (case iString lib f s key of None \<Rightarrow> False | Some v \<Rightarrow> v \<noteq> [])"

definition requiredKeys :: "string \<Rightarrow> string list" where
  "requiredKeys ty =
     (if ty = ''serial'' then [''device''] else if ty = ''tcp'' then [''host'', ''port'']
      else if ty = ''bluetooth'' \<or> ty = ''ble'' then [''bdaddr''] else [])"

definition serialBaudrateOf :: "'f ini \<Rightarrow> 'f \<Rightarrow> string \<Rightarrow> int" where
  "serialBaudrateOf lib f s =
     (if iString lib f s ''serial_baudrate'' \<noteq> None then (case iInt lib f s ''serial_baudrate'' of Some v \<Rightarrow> v | None \<Rightarrow> 9600)
      else if iString lib f s ''baudrate'' \<noteq> None then (case iInt lib f s ''baudrate'' of Some v \<Rightarrow> v | None \<Rightarrow> 9600)
      else 9600)"

definition ax25VersionOf :: "'f ini \<Rightarrow> 'f \<Rightarrow> string \<Rightarrow> config_error + int" where
  "ax25VersionOf lib f s =
     (case iString lib f s ''ax25_version'' of
        None \<Rightarrow> Inr 22
      | Some v \<Rightarrow> if v = ''2.0'' then Inr 20 else if v = ''2.2'' then Inr 22 else Inl (InvalidVersion s v))"

definition defaultVFOChannelMin :: int where
  "defaultVFOChannelMin = 251"

definition validateSerialParams :: "unicode \<Rightarrow> string \<Rightarrow> portCfg \<Rightarrow> config_error option" where
  "validateSerialParams u s p =
     (if ToUpper u (cpParity p) \<notin> {[], ''N'', ''E'', ''O''} then Some (InvalidParity s (cpParity p))
      else if cpStopBits p \<notin> {0, 1, 3 / 2, 2} then Some (InvalidStopBits s (cpStopBits p))
      else None)"

definition kissFields :: "Params \<Rightarrow> (string \<times> int option \<times> int) list" where
  "kissFields k =
     [(''tx_delay'', TXDelay k, 255), (''persistence'', Persistence k, 255), (''slot_time'', SlotTime k, 255),
      (''tx_tail'', TXTail k, 255), (''full_duplex'', FullDuplex k, 1)]"

fun firstOutOfRange :: "string \<Rightarrow> (string \<times> int option \<times> int) list \<Rightarrow> config_error option" where
  "firstOutOfRange s [] = None"
| "firstOutOfRange s ((key, val, mx) # ps) =
     (case val of
        None \<Rightarrow> firstOutOfRange s ps
      | Some v \<Rightarrow> if v < 0 \<or> v > mx then Some (KISSRange s key v) else firstOutOfRange s ps)"

definition validateKISSParams :: "string \<Rightarrow> Params \<Rightarrow> config_error option" where
  "validateKISSParams s k = firstOutOfRange s (kissFields k)"

definition readPort :: "'f ini \<Rightarrow> 'f \<Rightarrow> nat \<Rightarrow> string \<Rightarrow> string \<Rightarrow> int \<Rightarrow> portCfg" where
  "readPort lib f i s ty ver =
     \<lparr>cpName = getString lib f s ''name'' (''Port '' @ show_nat i), cpType = ty, cpKISS = noParams,
      cpReconnect = getBool lib f s ''reconnect'' True, cpReconnectDelay = getFloat lib f s ''reconnect_delay'' 5,
      cpReconnectMaxDelay = getFloat lib f s ''reconnect_max_delay'' 60, cpOTABaudrate = getInt lib f s ''ota_baudrate'' 1200,
      cpTXPacing = getBool lib f s ''tx_pacing'' True, cpAX25Version = ver, cpSREJ = getBool lib f s ''srej'' True,
      cpRXWedgeTimeout = getInt lib f s ''rx_wedge_timeout'' (if ty = ''bluetooth'' then 20 else 0),
      cpDevice = getString lib f s ''device'' [], cpSerialBaudrate = serialBaudrateOf lib f s,
      cpParity = getString lib f s ''parity'' ''N'', cpStopBits = getFloat lib f s ''stopbits'' 1,
      cpRTSCTS = getBool lib f s ''rtscts'' False, cpHost = getString lib f s ''host'' [], cpTCPPort = getInt lib f s ''port'' 0,
      cpBDAddr = getString lib f s ''bdaddr'' [], cpChannel = getString lib f s ''channel'' [],
      cpInitString = getString lib f s ''init_string'' [], cpInitDelay = getFloat lib f s ''init_delay'' 1,
      cpSendKISSExit = getBool lib f s ''send_kiss_exit'' True, cpHostExitString = getString lib f s ''host_exit_string'' [],
      cpExitDelay = getFloat lib f s ''exit_delay'' 1,
      cpVFOChannelMin = getInt lib f s ''vfo_channel_min'' defaultVFOChannelMin\<rparr>"

definition readKISS :: "'f ini \<Rightarrow> 'f \<Rightarrow> string \<Rightarrow> Params" where
  "readKISS lib f s =
     \<lparr>TXDelay = getIntPtr lib f s ''tx_delay'', Persistence = getIntPtr lib f s ''persistence'',
      SlotTime = getIntPtr lib f s ''slot_time'', TXTail = getIntPtr lib f s ''tx_tail'',
      FullDuplex = getIntPtr lib f s ''full_duplex'', OTABaud = 0\<rparr>"

definition withKISS :: "'f ini \<Rightarrow> 'f \<Rightarrow> nat \<Rightarrow> string option \<Rightarrow> portCfg \<Rightarrow> config_error + portCfg" where
  "withKISS lib f i ks p =
     (case ks of
        None \<Rightarrow> Inr p
      | Some s \<Rightarrow>
          (let k = readKISS lib f s
           in case validateKISSParams (''kiss.'' @ show_nat i) k of Some e \<Rightarrow> Inl e | None \<Rightarrow> Inr (p\<lparr>cpKISS := k\<rparr>)))"

definition parsePort :: "unicode \<Rightarrow> 'f ini \<Rightarrow> 'f \<Rightarrow> nat \<Rightarrow> string \<Rightarrow> string option \<Rightarrow> config_error + portCfg" where
  "parsePort u lib f i s ks =
     (let ty = getString lib f s ''type'' []; missing = filter (\<lambda>k. \<not> present lib f s k) (requiredKeys ty)
      in if ty = [] then Inl (MissingType s)
         else if ty \<notin> set validTypes then Inl (InvalidType s ty)
         else if missing \<noteq> [] then Inl (MissingFields s missing)
         else case ax25VersionOf lib f s of
                Inl e \<Rightarrow> Inl e
              | Inr ver \<Rightarrow>
                  (let p = readPort lib f i s ty ver
                   in case (if ty = ''serial'' then validateSerialParams u s p else None) of
                        Some e \<Rightarrow> Inl e
                      | None \<Rightarrow> withKISS lib f i ks p))"

fun parsePorts ::
  "unicode \<Rightarrow> 'f ini \<Rightarrow> (int \<Rightarrow> string option) \<Rightarrow> nat \<Rightarrow> 'f \<Rightarrow> (int \<times> string) list \<Rightarrow> config_error + portCfg list \<times> 'f" where
  "parsePorts u lib km i f [] = Inr ([], f)"
| "parsePorts u lib km i f ((idx, s) # es) =
     (let f = iSection lib f s
      in case parsePort u lib f i s (km (int i)) of
           Inl e \<Rightarrow> Inl e
         | Inr p \<Rightarrow> (case parsePorts u lib km (i + 1) f es of Inl e \<Rightarrow> Inl e | Inr (ps, f) \<Rightarrow> Inr (p # ps, f)))"

section \<open>rigctl sections\<close>

definition parseRigCtl :: "unicode \<Rightarrow> 'f ini \<Rightarrow> 'f \<Rightarrow> nat \<Rightarrow> config_error + rigctlSec" where
  "parseRigCtl u lib f i =
     (let s = ''rigctl.'' @ show_nat i
      in case parseAllowlistKey u lib f s ''allowed_subnets'' of
           Inl e \<Rightarrow> Inl e
         | Inr a \<Rightarrow>
             (let t = getInt lib f s ''ptt_timeout'' 30
              in Inr \<lparr>AllowPTT = getBool lib f s ''allow_ptt'' False, PTTTimeout = (if t \<le> 0 then 30 else t),
                      rcEnabled = getBool lib f s ''enabled'' False, rcListenHost = getString lib f s ''listen_host'' ''127.0.0.1'',
                      rcListenPort = getInt lib f s ''listen_port'' (4532 + int i), rcAllowed = a\<rparr>))"

text \<open>The section is created on demand before it is read.\<close>

fun parseRigCtls :: "unicode \<Rightarrow> 'f ini \<Rightarrow> 'f \<Rightarrow> nat list \<Rightarrow> config_error + rigctlSec list" where
  "parseRigCtls u lib f [] = Inr []"
| "parseRigCtls u lib f (i # is) =
     (let f = iSection lib f (''rigctl.'' @ show_nat i)
      in case parseRigCtl u lib f i of
           Inl e \<Rightarrow> Inl e
         | Inr r \<Rightarrow> (case parseRigCtls u lib f is of Inl e \<Rightarrow> Inl e | Inr rs \<Rightarrow> Inr (r # rs)))"

section \<open>Load\<close>

definition loadPorts :: "unicode \<Rightarrow> 'f ini \<Rightarrow> 'f \<Rightarrow> config_error + portCfg list \<times> rigctlSec list" where
  "loadPorts u lib f =
     (let es = sort_key fst (collectPorts lib f)
      in case checkNumbering es of
           Some e \<Rightarrow> Inl e
         | None \<Rightarrow>
             (case parsePorts u lib (collectKISS lib f) 0 f es of
                Inl e \<Rightarrow> Inl e
              | Inr (ps, f) \<Rightarrow> (case parseRigCtls u lib f [0..<length es] of Inl e \<Rightarrow> Inl e | Inr rs \<Rightarrow> Inr (ps, rs))))"

definition prepare :: "'f ini \<Rightarrow> 'f \<Rightarrow> bool \<Rightarrow> 'f" where
  "prepare lib f noPath = addDefaultPort lib noPath (migrateSection lib ''kiss'' (migrateSection lib ''client'' f))"

definition Load :: "unicode \<Rightarrow> 'f ini \<Rightarrow> 'f \<Rightarrow> 'f option option \<Rightarrow> config_error + Config" where
  "Load u lib emptyFile src =
     (case (case src of None \<Rightarrow> Some emptyFile | Some f \<Rightarrow> f) of
        None \<Rightarrow> Inl CannotLoad
      | Some f0 \<Rightarrow>
          (let f = iSection lib (prepare lib f0 (src = None)) ''server''
           in case parseServer u lib f of
                Inl e \<Rightarrow> Inl e
              | Inr sv \<Rightarrow>
                  (let f = iSection lib f ''ax25''; ax = parseAX25 lib f; f = iSection lib f ''kisstcp''
                   in case parseKISSTCP u lib f of
                        Inl e \<Rightarrow> Inl e
                      | Inr kt \<Rightarrow>
                          (let f = iSection lib f ''api''
                           in case parseAPI u lib f of
                                Inl e \<Rightarrow> Inl e
                              | Inr ap \<Rightarrow>
                                  (case loadPorts u lib f of
                                     Inl e \<Rightarrow> Inl e
                                   | Inr (ps, rs) \<Rightarrow>
                                       Inr \<lparr>cServer = sv, cAX25 = ax, cKISSTCP = kt, cAPI = ap, cPorts = ps, cRigCtl = rs\<rparr>)))))"

section \<open>Validate\<close>

definition validatePort :: "string \<Rightarrow> portCfg \<Rightarrow> config_error option" where
  "validatePort s p =
     (if cpType p = [] then Some (MissingType s)
      else if cpType p \<notin> set validTypes then Some (InvalidType s (cpType p))
      else if cpType p = ''serial'' \<and> cpDevice p = [] then Some (MissingFields s [''device''])
      else if cpType p = ''tcp'' \<and> cpHost p = [] then Some (MissingFields s [''host''])
      else if cpType p = ''tcp'' \<and> cpTCPPort p = 0 then Some (MissingFields s [''port''])
      else if (cpType p = ''bluetooth'' \<or> cpType p = ''ble'') \<and> cpBDAddr p = [] then Some (MissingFields s [''bdaddr''])
      else None)"

fun validatePorts :: "nat \<Rightarrow> portCfg list \<Rightarrow> config_error option" where
  "validatePorts i [] = None"
| "validatePorts i (p # ps) =
     (case validatePort (''client.'' @ show_nat i) p of Some e \<Rightarrow> Some e | None \<Rightarrow> validatePorts (i + 1) ps)"

definition Validate :: "Config \<Rightarrow> config_error option" where
  "Validate c = validatePorts 0 (cPorts c)"

section \<open>What the bridge is given\<close>

definition bridgeConfig :: "Config \<Rightarrow> config" where
  "bridgeConfig c =
     \<lparr>cfgMaxClients = svMaxClients (cServer c), cfgIdleTimeout = svIdleTimeout (cServer c),
      cfgMaxWindow = axMaxWindow (cAX25 c), cfgN2Retry = axN2Retry (cAX25 c), cfgT3Timeout = axT3Timeout (cAX25 c),
      cfgFrack = axFrack (cAX25 c), cfgPorts = map cfgPort.truncate (cPorts c)\<rparr>"

section \<open>What loading guarantees\<close>

definition kiss_ok :: "Params \<Rightarrow> bool" where
  "kiss_ok k \<longleftrightarrow> (\<forall>(key, val, mx)\<in>set (kissFields k). \<forall>v. val = Some v \<longrightarrow> 0 \<le> v \<and> v \<le> mx)"

lemma firstOutOfRange_None:
  "firstOutOfRange s ps = None \<longleftrightarrow> (\<forall>(key, val, mx)\<in>set ps. \<forall>v. val = Some v \<longrightarrow> 0 \<le> v \<and> v \<le> mx)"
  by (induction s ps rule: firstOutOfRange.induct) (auto split: option.splits)

definition port_ok :: "unicode \<Rightarrow> portCfg \<Rightarrow> bool" where
  "port_ok u p \<longleftrightarrow> cpType p \<in> set validTypes
     \<and> (cpType p = ''serial'' \<longrightarrow> cpDevice p \<noteq> [] \<and> cpStopBits p \<in> {0, 1, 3 / 2, 2} \<and> ToUpper u (cpParity p) \<in> {[], ''N'', ''E'', ''O''})
     \<and> (cpType p = ''tcp'' \<longrightarrow> cpHost p \<noteq> []) \<and> (cpType p \<in> {''bluetooth'', ''ble''} \<longrightarrow> cpBDAddr p \<noteq> [])
     \<and> cpAX25Version p \<in> {20, 22} \<and> kiss_ok (cpKISS p)"

lemma withKISS_ok:
  assumes "withKISS lib f i ks p = Inr q" "kiss_ok (cpKISS p)"
  shows "\<exists>k. q = p\<lparr>cpKISS := k\<rparr> \<and> kiss_ok k"
proof (cases ks)
  case None
  then have "q = p\<lparr>cpKISS := cpKISS p\<rparr>" using assms(1) by (simp add: withKISS_def)
  with assms(2) show ?thesis by blast
next
  case (Some s)
  then have "validateKISSParams (''kiss.'' @ show_nat i) (readKISS lib f s) = None" "q = p\<lparr>cpKISS := readKISS lib f s\<rparr>"
    using assms(1) by (auto simp: withKISS_def Let_def split: option.splits)
  then show ?thesis by (auto simp: validateKISSParams_def firstOutOfRange_None kiss_ok_def)
qed

lemma present_getString: "present lib f s key \<Longrightarrow> getString lib f s key def \<noteq> []"
  by (auto simp: present_def getString_def split: option.splits)

lemma parsePort_ok:
  assumes "parsePort u lib f i s ks = Inr p"
  shows "port_ok u p"
proof -
  define ty where "ty = getString lib f s ''type'' []"
  obtain ver where ver: "ax25VersionOf lib f s = Inr ver" and ty: "ty \<in> set validTypes"
    and req: "\<forall>k\<in>set (requiredKeys ty). present lib f s k"
    and ser: "ty = ''serial'' \<longrightarrow> validateSerialParams u s (readPort lib f i s ty ver) = None"
    and k: "withKISS lib f i ks (readPort lib f i s ty ver) = Inr p"
    using assms unfolding parsePort_def ty_def [symmetric] Let_def
    by (auto split: if_splits sum.splits option.splits simp: filter_empty_conv)
  have "ver = 20 \<or> ver = 22" using ver by (auto simp: ax25VersionOf_def split: option.splits if_splits)
  moreover have "kiss_ok (cpKISS (readPort lib f i s ty ver))"
    by (simp add: readPort_def kiss_ok_def kissFields_def noParams_def)
  then obtain k' where "p = (readPort lib f i s ty ver)\<lparr>cpKISS := k'\<rparr>" "kiss_ok k'" using withKISS_ok [OF k] by blast
  ultimately show ?thesis
    using ty req ser present_getString [of lib f s]
    by (auto simp: port_ok_def readPort_def requiredKeys_def validateSerialParams_def split: if_splits)
qed

lemma parsePorts_ok:
  "parsePorts u lib km i f es = Inr (ps, g) \<Longrightarrow> length ps = length es \<and> (\<forall>p\<in>set ps. port_ok u p)"
proof (induction u lib km i f es arbitrary: ps rule: parsePorts.induct)
  case (2 u lib km i f idx s es)
  then show ?case by (auto simp: Let_def split: sum.splits prod.splits dest: parsePort_ok)
qed simp

lemma parseRigCtls_ok: "parseRigCtls u lib f is = Inr rs \<Longrightarrow> length rs = length is \<and> (\<forall>r\<in>set rs. 0 < PTTTimeout r)"
  by (induction u lib f "is" arbitrary: rs rule: parseRigCtls.induct)
    (auto simp: Let_def parseRigCtl_def split: sum.splits if_splits)

lemma loadPorts_ok:
  assumes "loadPorts u lib f = Inr (ps, rs)"
  shows "1 \<le> length ps \<and> length ps \<le> maxPorts \<and> length rs = length ps \<and> (\<forall>p\<in>set ps. port_ok u p) \<and> (\<forall>r\<in>set rs. 0 < PTTTimeout r)"
proof -
  define es where "es = sort_key fst (collectPorts lib f)"
  obtain g where "checkNumbering es = None" "parsePorts u lib (collectKISS lib f) 0 f es = Inr (ps, g)"
    "parseRigCtls u lib g [0..<length es] = Inr rs"
    using assms unfolding loadPorts_def es_def [symmetric] Let_def by (auto split: option.splits sum.splits)
  then show ?thesis using parsePorts_ok [of u lib "collectKISS lib f" 0 f es ps g] parseRigCtls_ok [of u lib g "[0..<length es]" rs]
    by (auto simp: checkNumbering_def split: if_splits) (metis One_nat_def Suc_leI length_greater_0_conv)
qed

lemma parseAX25_ok: "1 \<le> axMaxWindow (parseAX25 lib f) \<and> axMaxWindow (parseAX25 lib f) \<le> 7
    \<and> 1 \<le> axN2Retry (parseAX25 lib f) \<and> 1 \<le> axFrack (parseAX25 lib f)"
  by (simp add: parseAX25_def Let_def)

lemma Load_parts:
  assumes "Load u lib e src = Inr c"
  shows "\<exists>f g. cAX25 c = parseAX25 lib f \<and> loadPorts u lib g = Inr (cPorts c, cRigCtl c)"
  using assms unfolding Load_def Let_def by (auto split: option.splits sum.splits prod.splits)

lemma only_fifth: "\<not> a \<Longrightarrow> \<not> b \<Longrightarrow> \<not> c \<Longrightarrow> \<not> d \<Longrightarrow> \<not> g \<Longrightarrow>
    ((if a then Some x1 else if b then Some x2 else if c then Some x3 else if d then Some x4 else if e then Some x5
      else if g then Some x6 else None) = None) \<longleftrightarrow> \<not> e"
  by simp

lemma validatePort_ok:
  assumes "port_ok u p"
  shows "validatePort s p = None \<longleftrightarrow> (cpType p = ''tcp'' \<longrightarrow> cpTCPPort p \<noteq> 0)"
proof -
  have "cpType p \<noteq> []" "cpType p \<in> set validTypes" using assms by (auto simp: port_ok_def validTypes_def)
  moreover have "cpType p = ''serial'' \<longrightarrow> cpDevice p \<noteq> []" "cpType p = ''tcp'' \<longrightarrow> cpHost p \<noteq> []"
    "cpType p = ''bluetooth'' \<or> cpType p = ''ble'' \<longrightarrow> cpBDAddr p \<noteq> []" using assms by (auto simp: port_ok_def)
  ultimately have "(validatePort s p = None) \<longleftrightarrow> \<not> (cpType p = ''tcp'' \<and> cpTCPPort p = 0)"
    unfolding validatePort_def by (intro only_fifth) argo+
  then show ?thesis by argo
qed

lemma validatePorts_ok:
  "\<forall>p\<in>set ps. port_ok u p \<Longrightarrow> validatePorts i ps = None \<longleftrightarrow> (\<forall>p\<in>set ps. cpType p = ''tcp'' \<longrightarrow> cpTCPPort p \<noteq> 0)"
proof (induction i ps rule: validatePorts.induct)
  case (2 i p ps)
  have "validatePort (''client.'' @ show_nat i) p = None \<longleftrightarrow> (cpType p = ''tcp'' \<longrightarrow> cpTCPPort p \<noteq> 0)"
    by (rule validatePort_ok [of u]) (use 2(2) in simp)
  with 2 show ?case by (cases "validatePort (''client.'' @ show_nat i) p") auto
qed simp

end
