(* ===== verification/Props_Config.thy ===== *)
theory Props_Config
  imports Config
begin

text \<open>
  The properties of configuration and access control: what every configuration that loads
  guarantees to the rest of the daemon, what the hint for a misspelt key measures, and whom an
  allow list lets in.
\<close>

section \<open>Loading\<close>

text \<open>
  C15.  A configuration that loads is safe to run, whatever the INI library returns: the window is
  1 to 7, the retry count and the setup timer are positive, there are 1 to 16 ports, each of a
  known type with the fields that type needs, an AX.25 version of 2.0 or 2.2 and KISS parameters that fit their
  byte, one rigctl section per port with a positive key-down limit; \<^verbatim>\<open>Validate\<close> then fails only for a
  tcp port without a usable number; and the bridge started with it is in a state from which
  its invariant holds.
\<close>

theorem loaded_config_safe:
  assumes "Load u lib e src = Inr c"
  shows "1 \<le> axMaxWindow (cAX25 c) \<and> axMaxWindow (cAX25 c) \<le> 7 \<and> 1 \<le> axN2Retry (cAX25 c) \<and> 1 \<le> axFrack (cAX25 c)
    \<and> 1 \<le> length (cPorts c) \<and> length (cPorts c) \<le> 16 \<and> length (cRigCtl c) = length (cPorts c)
    \<and> (\<forall>p\<in>set (cPorts c). port_ok u p) \<and> (\<forall>r\<in>set (cRigCtl c). 0 < PTTTimeout r)
    \<and> (Validate c = None \<longleftrightarrow> (\<forall>p\<in>set (cPorts c). cpType p = ''tcp'' \<longrightarrow> cpTCPPort p \<noteq> 0))
    \<and> (unicode_ok u \<longrightarrow> bridge_inv (startBridge fl u q clk (bridgeConfig c)))"
proof -
  obtain f g where ax: "cAX25 c = parseAX25 lib f" and ps: "loadPorts u lib g = Inr (cPorts c, cRigCtl c)"
    using Load_parts [OF assms] by blast
  note L = loadPorts_ok [OF ps] and A = parseAX25_ok [of lib f]
  have w: "cfgMaxWindow (bridgeConfig c) = axMaxWindow (cAX25 c)" by (simp add: bridgeConfig_def)
  have "bridge_inv (startBridge fl u q clk (bridgeConfig c))" if "unicode_ok u"
  proof (rule bridge_init_inv)
    show "bridge_init (startBridge fl u q clk (bridgeConfig c))"
      unfolding bridge_init_def by (intro exI conjI, rule refl) (use that A ax w in simp_all)
  qed
  moreover have "Validate c = None \<longleftrightarrow> (\<forall>p\<in>set (cPorts c). cpType p = ''tcp'' \<longrightarrow> cpTCPPort p \<noteq> 0)"
    using validatePorts_ok [of "cPorts c" u 0] L by (simp add: Validate_def)
  ultimately show ?thesis using L A ax by (simp add: maxPorts_def)
qed

text \<open>An INI file as a list of sections, each a list of keys and values.\<close>

type_synonym iniFile = "(string \<times> (string \<times> string) list) list"

definition addSection :: "iniFile \<Rightarrow> string \<Rightarrow> iniFile" where
  "addSection f n = (if n \<in> set (map fst f) then f else f @ [(n, [])])"

definition listIni :: "iniFile ini" where
  "listIni =
     \<lparr>iHasSection = (\<lambda>f n. n \<in> set (map fst f)), iSections = map fst, iSection = addSection, iNewSection = addSection,
      iDeleteSection = (\<lambda>f n. filter (\<lambda>s. fst s \<noteq> n) f), iKeys = (\<lambda>f n. case map_of f n of None \<Rightarrow> [] | Some ks \<Rightarrow> ks),
      iNewKey = (\<lambda>f n k v. map (\<lambda>s. if fst s = n then (n, snd s @ [(k, v)]) else s) f),
      iString = (\<lambda>f n k. Option.bind (map_of f n) (\<lambda>ks. map_of ks k)),
      iInt = (\<lambda>f n k. Option.bind (Option.bind (map_of f n) (\<lambda>ks. map_of ks k)) Atoi), iFloat = (\<lambda>f n k. None), iBool = (\<lambda>f n k. None)\<rparr>"

definition plainUnicode :: unicode where
  "plainUnicode = \<lparr>uToUpper = (\<lambda>s. []), uTrimSpace = (\<lambda>s. [])\<rparr>"

lemma default_loads: "isl (Load plainUnicode listIni [] None) = False"
  by code_simp

theorem loaded_config_safe_witness:
  "\<exists>c. Load plainUnicode listIni [] None = Inr c \<and> 1 \<le> length (cPorts c) \<and> axMaxWindow (cAX25 c) \<le> 7"
proof -
  obtain c where c: "Load plainUnicode listIni [] None = Inr c" using default_loads by (cases "Load plainUnicode listIni [] None") simp_all
  have "1 \<le> length (cPorts c) \<and> axMaxWindow (cAX25 c) \<le> 7" using loaded_config_safe [OF c] by simp
  with c show ?thesis by blast
qed

section \<open>Hints\<close>

text \<open>
  What \<^verbatim>\<open>levenshtein\<close> computes is the difference of the two lengths: a substitution is entered
  without its cost, so every two keys of equal length have distance 0, and the hint for a misspelt
  key is a recognised key of about the same length.
\<close>

theorem levenshtein_is_length_difference:
  "int (levenshtein a b) = \<bar>int (length a) - int (length b)\<bar> \<and> closestKey ''zzzzz'' knownAX25Keys = ''frack''"
proof
  show "int (levenshtein a b) = \<bar>int (length a) - int (length b)\<bar>" by (simp add: levenshtein_gap gap_def)
  show "closestKey ''zzzzz'' knownAX25Keys = ''frack''"
    by (simp add: closestKey_def knownAX25Keys_def levenshtein_gap gap_def)
qed

section \<open>Allow lists\<close>

text \<open>
  C33.  An allow list of IPv4 networks lets in exactly the addresses in them: written with commas in
  any order, the list is read without error, and a client at an address is admitted just when the
  list is empty or the address agrees with one of the networks in its leading bits.
\<close>

theorem allowlist_exact:
  assumes "\<forall>x\<in>set nets. net_ok x" "quad_ok q"
  shows "\<exists>a. ParseAllowlist u (joinComma (map showNet nets)) = Inr a
    \<and> (Allows a (showRemote q port) \<longleftrightarrow> nets = [] \<or> (\<exists>x\<in>set nets. sameNet (snd x) (quadWord (fst x)) (quadWord q)))"
  using ParseAllowlist_nets [OF assms(1)] allows_nets [OF assms] by blast

theorem allowlist_exact_witness:
  "\<exists>a. ParseAllowlist plainUnicode (joinComma (map showNet [((10, 0, 0, 0), 8), ((192, 168, 1, 7), 32)])) = Inr a
    \<and> Allows a (showRemote (10, 9, 8, 7) 5000) \<and> \<not> Allows a (showRemote (192, 168, 1, 8) 5000)"
proof -
  let ?nets = "[((10, 0, 0, 0), 8), ((192, 168, 1, 7), 32)] :: ((nat \<times> nat \<times> nat \<times> nat) \<times> nat) list"
  have ok: "\<forall>x\<in>set ?nets. net_ok x" "quad_ok (10, 9, 8, 7)" "quad_ok (192, 168, 1, 8)" by (simp_all add: net_ok_def quad_ok_def)
  have "sameNet 8 (quadWord (10, 0, 0, 0)) (quadWord (10, 9, 8, 7))"
    "\<not> sameNet 8 (quadWord (10, 0, 0, 0)) (quadWord (192, 168, 1, 8))"
    "\<not> sameNet 32 (quadWord (192, 168, 1, 7)) (quadWord (192, 168, 1, 8))"
    by (simp_all add: sameNet_iff quadWord_def octets_def)
  with allowlist_exact [OF ok(1,2), of plainUnicode 5000] allowlist_exact [OF ok(1,3), of plainUnicode 5000] show ?thesis
    by auto
qed

end
