(* ===== verification/Kisstcp.thy ===== *)
theory Kisstcp
  imports Bridge_System
begin

text \<open>
  The KISS-over-TCP frontend (\<^verbatim>\<open>src/internal/frontend/kisstcp\<close>): clients hear every frame received from
  the air and may transmit; what they may do to a shared TNC is restricted.

  A function posted to the event loop is a value of \<open>kaction\<close>.  The server's client set is a list of
  references into a store.  \<open>kreading\<close> says that the client's read loop is still running.
\<close>

section \<open>State\<close>

datatype kaction = KData int bytes | KCommand int u8 bytes

record kclient =
  kwriteCh :: "bytes list"
  kcClosed :: bool
  klastActivity :: int
  kinflight :: nat
  kpending :: "kaction list"
  kdec :: Decoder
  kreading :: bool

record kserver =
  ksMaxClients :: int
  ksIdle :: int
  ksClients :: "nat list"
  ksStore :: "nat \<Rightarrow> kclient"
  ksNext :: nat
  ksSweep :: "int option"

definition kmaxInflight :: nat where
  "kmaxInflight = 256"

definition kwriteCap :: nat where
  "kwriteCap = 256"

definition knewClient :: "int \<Rightarrow> kclient" where
  "knewClient clk =
     \<lparr>kwriteCh = [], kcClosed = False, klastActivity = clk, kinflight = 0, kpending = [], kdec = newDecoder, kreading = True\<rparr>"

section \<open>A client\<close>

definition kclose :: "kclient \<Rightarrow> kclient" where
  "kclose c = (if \<not> kcClosed c then c\<lparr>kcClosed := True\<rparr> else c)"

definition kenqueue :: "kclient \<Rightarrow> bytes \<Rightarrow> kclient" where
  "kenqueue c frame =
     (if kcClosed c then c
      else if length (kwriteCh c) < kwriteCap then c\<lparr>kwriteCh := kwriteCh c @ [frame]\<rparr>
      else kclose c)"

definition kpost :: "kclient \<Rightarrow> kaction \<Rightarrow> bool \<times> kclient" where
  "kpost c a =
     (if kinflight c \<ge> kmaxInflight then (False, kclose c)
      else (True, c\<lparr>kinflight := kinflight c + 1, kpending := kpending c @ [a]\<rparr>))"

definition kdispatch :: "kclient \<Rightarrow> bytes \<Rightarrow> bool \<times> kclient" where
  "kdispatch c frame =
     (case frame of
        [] \<Rightarrow> (True, c)
      | cmdByte # payload \<Rightarrow>
          (let port = uint (shr cmdByte 4); cmdType = cmdByte AND 0x0F
           in if cmdType = 0x00 then kpost c (KData port payload)
              else if 0x01 \<le> cmdType \<and> cmdType \<le> 0x06 then kpost c (KCommand port cmdType payload)
              else (True, c)))"

fun kdispatchAll :: "kclient \<Rightarrow> bytes list \<Rightarrow> bool \<times> kclient" where
  "kdispatchAll c [] = (True, c)"
| "kdispatchAll c (f # fs) = (case kdispatch c f of (ok, c) \<Rightarrow> if ok then kdispatchAll c fs else (False, c))"

text \<open>One read of the connection; a refused frame, and an error of the read, end the loop and close the client.\<close>

definition kread :: "int \<Rightarrow> kclient \<Rightarrow> bytes \<Rightarrow> bool \<Rightarrow> kclient" where
  "kread clk c p err =
     (case (if p = [] then (True, c)
            else (case Feed (kdec c) p of (d, frames) \<Rightarrow> kdispatchAll (c\<lparr>klastActivity := clk, kdec := d\<rparr>) frames)) of
        (ok, c) \<Rightarrow> if \<not> ok \<or> err then (kclose c)\<lparr>kreading := False\<rparr> else c)"

section \<open>The server\<close>

definition updK :: "kserver \<Rightarrow> nat \<Rightarrow> (kclient \<Rightarrow> kclient) \<Rightarrow> kserver" where
  "updK s i f = s\<lparr>ksStore := (ksStore s)(i := f (ksStore s i))\<rparr>"

definition kadd :: "kserver \<Rightarrow> nat \<Rightarrow> bool \<times> kserver" where
  "kadd s i =
     (if ksMaxClients s > 0 \<and> int (length (ksClients s)) \<ge> ksMaxClients s then (False, s)
      else (True, s\<lparr>ksClients := (if i \<in> set (ksClients s) then ksClients s else ksClients s @ [i])\<rparr>))"

definition kremove :: "kserver \<Rightarrow> nat \<Rightarrow> kserver" where
  "kremove s i = s\<lparr>ksClients := removeAll i (ksClients s)\<rparr>"

definition kOnRawRX :: "kserver \<Rightarrow> int \<Rightarrow> bytes \<Rightarrow> kserver" where
  "kOnRawRX s port raw =
     (let frame = WrapData (word_of_int port) raw
      in foldl (\<lambda>s i. updK s i (\<lambda>c. kenqueue c frame)) s (ksClients s))"

definition kscheduleIdleSweep :: "kserver \<Rightarrow> kserver" where
  "kscheduleIdleSweep s = s\<lparr>ksSweep := Some (if ksIdle s < 30 * second then ksIdle s else 30 * second)\<rparr>"

definition ksweepIdleClients :: "kserver \<Rightarrow> int \<Rightarrow> kserver" where
  "ksweepIdleClients s clk =
     kscheduleIdleSweep (foldl (\<lambda>s i. if clk - klastActivity (ksStore s i) > ksIdle s then updK s i kclose else s) s (ksClients s))"

definition kServe :: "int \<Rightarrow> int \<Rightarrow> kserver" where
  "kServe maxClients idleTimeout =
     (let s = \<lparr>ksMaxClients = maxClients, ksIdle = (if idleTimeout > 0 then idleTimeout * second else 0),
               ksClients = [], ksStore = (\<lambda>_. knewClient 0), ksNext = 0, ksSweep = None\<rparr>
      in if ksIdle s > 0 then kscheduleIdleSweep s else s)"

definition kcloseAll :: "kserver \<Rightarrow> kserver" where
  "kcloseAll s = foldl (\<lambda>s i. updK s i kclose) (s\<lparr>ksSweep := None\<rparr>) (ksClients s)"

definition runAction :: "bridge \<Rightarrow> kaction \<Rightarrow> bridge" where
  "runAction b a = (case a of KData port x \<Rightarrow> SendToKISS b port x | KCommand port t x \<Rightarrow> SendKISSCommand b port t x)"

text \<open>A client that connects: it is registered or its connection is closed.\<close>

definition kaccept :: "kserver \<Rightarrow> int \<Rightarrow> kserver" where
  "kaccept s clk =
     (let i = ksNext s; s = s\<lparr>ksNext := i + 1, ksStore := (ksStore s)(i := knewClient clk)\<rparr>
      in case kadd s i of
           (True, s) \<Rightarrow> s
         | (False, s) \<Rightarrow> updK s i (\<lambda>c. (kclose c)\<lparr>kreading := False\<rparr>))"

section \<open>The daemon with this frontend\<close>

text \<open>
  Every goroutine may take its next step at any time; \<open>kbridge\<close> is any step of the rest of the
  daemon.  A client leaves the set some time after its read loop has ended.
\<close>

inductive ktcp_step :: "bridge \<times> kserver \<Rightarrow> bridge \<times> kserver \<Rightarrow> bool" where
  kacc: "ktcp_step (b, s) (b, kaccept s clk)"
| krd: "i \<in> set (ksClients s) \<Longrightarrow> kreading (ksStore s i) \<Longrightarrow> ktcp_step (b, s) (b, updK s i (\<lambda>c. kread clk c p err))"
| kwr: "ktcp_step (b, s) (b, updK s i (\<lambda>c. c\<lparr>kwriteCh := tl (kwriteCh c)\<rparr>))"
| krun: "kpending (ksStore s i) = a # as \<Longrightarrow>
    ktcp_step (b, s) (runAction b a, updK s i (\<lambda>c. c\<lparr>kpending := as, kinflight := kinflight c - 1\<rparr>))"
| kheard: "ktcp_step (b, s) (b, kOnRawRX s port raw)"
| ksweep: "ktcp_step (b, s) (b, ksweepIdleClients s clk)"
| kleave: "\<not> kreading (ksStore s i) \<Longrightarrow> ktcp_step (b, s) (b, kremove s i)"
| kstop: "ktcp_step (b, s) (b, kcloseAll s)"
| kbridge: "bridge_step b b' \<Longrightarrow> ktcp_step (b, s) (b', s)"

section \<open>Invariant\<close>

definition action_ok :: "kaction \<Rightarrow> bool" where
  "action_ok a = (case a of KData port x \<Rightarrow> 0 \<le> port \<and> port \<le> 15 \<and> length x < MaxFrameSize
     | KCommand port t x \<Rightarrow> 0 \<le> port \<and> port \<le> 15 \<and> 1 \<le> t \<and> t \<le> 6 \<and> length x < MaxFrameSize)"

definition kclient_inv :: "kclient \<Rightarrow> bool" where
  "kclient_inv c \<longleftrightarrow> length (kwriteCh c) \<le> kwriteCap \<and> kinflight c = length (kpending c) \<and> kinflight c \<le> kmaxInflight
     \<and> list_all action_ok (kpending c) \<and> decoder_inv (kdec c)"

definition kserver_inv :: "kserver \<Rightarrow> bool" where
  "kserver_inv s \<longleftrightarrow> (\<forall>i. kclient_inv (ksStore s i)) \<and> distinct (ksClients s) \<and> (\<forall>i\<in>set (ksClients s). i < ksNext s)
     \<and> (ksMaxClients s > 0 \<longrightarrow> int (length (ksClients s)) \<le> ksMaxClients s)"

lemma kclose_simps [simp]:
  "kwriteCh (kclose c) = kwriteCh c" "kinflight (kclose c) = kinflight c" "kpending (kclose c) = kpending c" "kdec (kclose c) = kdec c"
  by (simp_all add: kclose_def)

lemma inv_kclose [simp]: "kclient_inv (kclose c) = kclient_inv c"
  by (simp add: kclient_inv_def)

lemma inv_kenqueue: "kclient_inv c \<Longrightarrow> kclient_inv (kenqueue c f)"
  by (auto simp: kenqueue_def) (auto simp: kclient_inv_def)

lemma inv_kpost: "kclient_inv c \<Longrightarrow> action_ok a \<Longrightarrow> kclient_inv (snd (kpost c a))"
  by (auto simp: kpost_def) (auto simp: kclient_inv_def)

lemma uint_shr4: "0 \<le> uint (shr (b :: byte) 4) \<and> uint (shr b 4) \<le> 15"
proof -
  have "unat b < 2 ^ LENGTH(8)" by (rule unsigned_less)
  then have "unat (shr b 4) \<le> 15" unfolding shr_def unat_drop_bit_eq by (simp add: drop_bit_eq_div)
  then show ?thesis using uint_nat [of "shr b 4"] by linarith
qed

lemma inv_kdispatch:
  assumes "kclient_inv c" "length f \<le> MaxFrameSize"
  shows "kclient_inv (snd (kdispatch c f))"
proof (cases f)
  case (Cons b x)
  have p: "0 \<le> uint (shr b 4)" "uint (shr b 4) \<le> 15" using uint_shr4 by simp_all
  have "length x < MaxFrameSize" using assms(2) Cons by simp
  then have "action_ok (KData (uint (shr b 4)) x)"
    "1 \<le> b AND 0x0F \<Longrightarrow> b AND 0x0F \<le> 6 \<Longrightarrow> action_ok (KCommand (uint (shr b 4)) (b AND 0x0F) x)"
    using p by (simp_all add: action_ok_def)
  then show ?thesis using assms(1) Cons by (simp add: kdispatch_def Let_def inv_kpost)
qed (simp add: kdispatch_def assms)

lemma inv_kdispatchAll:
  "kclient_inv c \<Longrightarrow> \<forall>f\<in>set fs. length f \<le> MaxFrameSize \<Longrightarrow> kclient_inv (snd (kdispatchAll c fs))"
proof (induction fs arbitrary: c)
  case (Cons f fs)
  obtain ok c1 where c1: "kdispatch c f = (ok, c1)" by fastforce
  with inv_kdispatch [of c f] Cons show ?case by simp
qed simp

lemma inv_kread: "kclient_inv c \<Longrightarrow> kclient_inv (kread clk c p err)"
proof -
  assume inv: "kclient_inv c"
  obtain d frames where d: "Feed (kdec c) p = (d, frames)" by fastforce
  have f: "decoder_inv d" "\<forall>f\<in>set frames. length f \<le> MaxFrameSize"
    using Feed_inv [of "kdec c" p d frames] inv d by (auto simp: kclient_inv_def)
  define x where "x = (if p = [] then (True, c) else kdispatchAll (c\<lparr>klastActivity := clk, kdec := d\<rparr>) frames)"
  have "kclient_inv (c\<lparr>klastActivity := clk, kdec := d\<rparr>)" using inv f by (simp add: kclient_inv_def)
  then have "kclient_inv (snd x)" using inv inv_kdispatchAll [OF _ f(2)] by (simp add: x_def)
  moreover have "kread clk c p err = (if \<not> fst x \<or> err then (kclose (snd x))\<lparr>kreading := False\<rparr> else snd x)"
    by (simp add: kread_def x_def d split: prod.split)
  ultimately show ?thesis by (simp add: kclient_inv_def)
qed

lemma updK_simps [simp]:
  "ksClients (updK s i f) = ksClients s" "ksNext (updK s i f) = ksNext s" "ksMaxClients (updK s i f) = ksMaxClients s"
  "ksIdle (updK s i f) = ksIdle s" "ksStore (updK s i f) j = (if j = i then f (ksStore s i) else ksStore s j)"
  by (simp_all add: updK_def)

lemma inv_updK: "kserver_inv s \<Longrightarrow> kclient_inv (f (ksStore s i)) \<Longrightarrow> kserver_inv (updK s i f)"
  by (simp add: kserver_inv_def)

lemma inv_foldK:
  assumes "\<And>s i. kserver_inv s \<Longrightarrow> kserver_inv (g s i)"
  shows "kserver_inv s \<Longrightarrow> kserver_inv (foldl g s is)"
  by (induction "is" arbitrary: s) (simp_all add: assms)

lemma kstore_inv: "kserver_inv s \<Longrightarrow> kclient_inv (ksStore s i)"
  by (simp add: kserver_inv_def)

lemma inv_kOnRawRX: "kserver_inv s \<Longrightarrow> kserver_inv (kOnRawRX s port raw)"
  unfolding kOnRawRX_def Let_def by (rule inv_foldK) (auto intro!: inv_updK inv_kenqueue kstore_inv)

lemma inv_ksweep: "kserver_inv s \<Longrightarrow> kserver_inv (ksweepIdleClients s clk)"
proof -
  assume "kserver_inv s"
  then have "kserver_inv (foldl (\<lambda>s i. if clk - klastActivity (ksStore s i) > ksIdle s then updK s i kclose else s) s (ksClients s))"
    by (rule inv_foldK [rotated]) (auto intro!: inv_updK kstore_inv)
  then show ?thesis by (simp add: ksweepIdleClients_def kscheduleIdleSweep_def kserver_inv_def)
qed

lemma inv_kcloseAll: "kserver_inv s \<Longrightarrow> kserver_inv (kcloseAll s)"
  unfolding kcloseAll_def by (rule inv_foldK) (auto intro!: inv_updK kstore_inv simp: kserver_inv_def)

lemma inv_knew: "kclient_inv (knewClient clk)"
  by (simp add: kclient_inv_def knewClient_def decoder_inv_def newDecoder_def)

lemma inv_kaccept:
  assumes "kserver_inv s"
  shows "kserver_inv (kaccept s clk)"
proof -
  define t where "t = s\<lparr>ksNext := ksNext s + 1, ksStore := (ksStore s)(ksNext s := knewClient clk)\<rparr>"
  have t: "kserver_inv t" using assms inv_knew [of clk] by (auto simp: t_def kserver_inv_def less_Suc_eq)
  have n: "ksNext s \<notin> set (ksClients t)" "ksNext s < ksNext t" using assms by (auto simp: t_def kserver_inv_def)
  show ?thesis
  proof (cases "fst (kadd t (ksNext s))")
    case True
    then have "kaccept s clk = t\<lparr>ksClients := ksClients t @ [ksNext s]\<rparr>" "ksMaxClients t > 0 \<longrightarrow> int (length (ksClients t)) < ksMaxClients t"
      using n by (auto simp: kaccept_def Let_def t_def kadd_def split: if_splits)
    with t n show ?thesis by (auto simp: kserver_inv_def)
  next
    case False
    then have "kaccept s clk = updK t (ksNext s) (\<lambda>c. (kclose c)\<lparr>kreading := False\<rparr>)"
      by (auto simp: kaccept_def Let_def t_def kadd_def split: if_splits)
    moreover have "kclient_inv ((kclose (ksStore t (ksNext s)))\<lparr>kreading := False\<rparr>)"
      using kstore_inv [OF t, of "ksNext s"] by (simp add: kclient_inv_def)
    ultimately show ?thesis using t by (simp add: inv_updK)
  qed
qed

lemma inv_kServe: "kserver_inv (kServe m i)"
proof -
  have s: "kserver_inv (kscheduleIdleSweep s) = kserver_inv s" for s by (simp add: kscheduleIdleSweep_def kserver_inv_def)
  show ?thesis unfolding kServe_def Let_def by (simp add: s) (simp add: kserver_inv_def inv_knew)
qed

definition ktcp_inv :: "bridge \<times> kserver \<Rightarrow> bool" where
  "ktcp_inv x \<longleftrightarrow> bridge_inv (fst x) \<and> kserver_inv (snd x)"

lemma ktcp_step_inv: "ktcp_step x y \<Longrightarrow> ktcp_inv x \<Longrightarrow> ktcp_inv y"
proof (induction rule: ktcp_step.induct)
  case (krun s i a as b)
  have "bridge_inv (runAction b a)"
    using krun.prems by (auto simp: runAction_def ktcp_inv_def inv_SendToKISS inv_small split: kaction.split)
  moreover have "kclient_inv ((ksStore s i)\<lparr>kpending := as, kinflight := kinflight (ksStore s i) - 1\<rparr>)"
    using kstore_inv [of s i] krun by (auto simp: ktcp_inv_def kclient_inv_def)
  ultimately show ?case using krun.prems by (auto simp: ktcp_inv_def intro!: inv_updK)
next
  case (kwr b s i)
  then have "kclient_inv ((ksStore s i)\<lparr>kwriteCh := tl (kwriteCh (ksStore s i))\<rparr>)"
    using kstore_inv [of s i] by (auto simp: ktcp_inv_def kclient_inv_def)
  then show ?case using kwr by (auto simp: ktcp_inv_def intro!: inv_updK)
next
  case (kleave s i b)
  have "int (length (removeAll i (ksClients s))) \<le> int (length (ksClients s))" by (simp add: length_removeAll_less_eq)
  then have "0 < ksMaxClients s \<Longrightarrow> int (length (removeAll i (ksClients s))) \<le> ksMaxClients s"
    by (rule order_trans) (use kleave in \<open>auto simp: ktcp_inv_def kserver_inv_def\<close>)
  then show ?case using kleave by (auto simp: ktcp_inv_def kremove_def kserver_inv_def distinct_removeAll)
next
  case (kbridge b b' s)
  then show ?case using bridge_system.inv_step by (auto simp: ktcp_inv_def)
qed (auto simp: ktcp_inv_def intro!: inv_updK inv_kread kstore_inv inv_kOnRawRX inv_ksweep inv_kcloseAll inv_kaccept)

interpretation ktcp_system: invariant_system "\<lambda>x. bridge_init (fst x) \<and> (\<exists>m i. snd x = kServe m i)" ktcp_step ktcp_inv
proof unfold_locales
  show "ktcp_inv x" if "bridge_init (fst x) \<and> (\<exists>m i. snd x = kServe m i)" for x
    using that by (auto simp: ktcp_inv_def bridge_init_inv inv_kServe)
qed (rule ktcp_step_inv)

section \<open>Relaying\<close>

text \<open>What a client may send: data, the commands that are passed on, and everything else.\<close>

definition actionOf :: "bytes \<Rightarrow> kaction list" where
  "actionOf f =
     (case f of
        [] \<Rightarrow> []
      | b # x \<Rightarrow>
          if b AND 0x0F = 0 then [KData (uint (shr b 4)) x]
          else if 1 \<le> b AND 0x0F \<and> b AND 0x0F \<le> 6 then [KCommand (uint (shr b 4)) (b AND 0x0F) x] else [])"

lemma kdispatchAll_actions:
  assumes "kinflight c = length (kpending c)" "kinflight c + length (concat (map actionOf fs)) \<le> kmaxInflight"
  shows "fst (kdispatchAll c fs) \<and> kpending (snd (kdispatchAll c fs)) = kpending c @ concat (map actionOf fs)
    \<and> kinflight (snd (kdispatchAll c fs)) = length (kpending (snd (kdispatchAll c fs)))"
  using assms
proof (induction fs arbitrary: c)
  case (Cons f fs)
  have k: "kdispatch c f = (True, c\<lparr>kinflight := kinflight c + length (actionOf f), kpending := kpending c @ actionOf f\<rparr>)"
    using Cons.prems(2) by (auto simp: kdispatch_def actionOf_def Let_def kpost_def split: list.split if_splits)
  show ?case using Cons.IH [of "c\<lparr>kinflight := kinflight c + length (actionOf f), kpending := kpending c @ actionOf f\<rparr>"] Cons.prems
    by (simp add: k)
qed simp

text \<open>Reads in sequence, none of which fails.\<close>

definition kreads :: "int \<Rightarrow> kclient \<Rightarrow> bytes list \<Rightarrow> kclient" where
  "kreads clk c ps = foldl (\<lambda>c p. kread clk c p False) c ps"

lemma kread_ok:
  assumes "Feed (kdec c) p = (d, fs)" "kinflight c = length (kpending c)"
    and "kinflight c + length (concat (map actionOf fs)) \<le> kmaxInflight"
  shows "kpending (kread clk c p False) = kpending c @ concat (map actionOf fs)"
    "kinflight (kread clk c p False) = length (kpending (kread clk c p False))" "kdec (kread clk c p False) = d"
proof -
  have dec: "kdec (snd (kdispatchAll c fs)) = kdec c" for c fs
    by (induction fs arbitrary: c) (auto simp: kdispatch_def kpost_def Let_def split: prod.split list.split)
  let ?c = "c\<lparr>klastActivity := clk, kdec := d\<rparr>"
  have k: "kread clk c p False = (if p = [] then c else snd (kdispatchAll ?c fs))"
    using kdispatchAll_actions [of ?c fs] assms by (auto simp: kread_def split: prod.split)
  have "p = [] \<Longrightarrow> fs = [] \<and> d = kdec c" using assms(1) by simp
  with k kdispatchAll_actions [of ?c fs] assms dec [of ?c fs]
  show "kpending (kread clk c p False) = kpending c @ concat (map actionOf fs)"
    "kinflight (kread clk c p False) = length (kpending (kread clk c p False))" "kdec (kread clk c p False) = d"
    by auto
qed

lemma kreads_actions:
  assumes "kinflight c = length (kpending c)"
    and "kinflight c + length (concat (map actionOf (snd (Feed (kdec c) (concat ps))))) \<le> kmaxInflight"
  shows "kpending (kreads clk c ps) = kpending c @ concat (map actionOf (snd (Feed (kdec c) (concat ps))))"
  using assms
proof (induction ps arbitrary: c)
  case (Cons p ps)
  obtain d fs where d: "Feed (kdec c) p = (d, fs)" by fastforce
  have f: "snd (Feed (kdec c) (concat (p # ps))) = fs @ snd (Feed d (concat ps))"
    using Feed_append [of "kdec c" p "concat ps"] d by (simp add: case_prod_unfold)
  have "kinflight c + length (concat (map actionOf fs)) \<le> kmaxInflight" 
    using Cons.prems(2) unfolding f by simp
  note k = kread_ok [OF d Cons.prems(1) this, of clk]
  have "kinflight (kread clk c p False) + length (concat (map actionOf (snd (Feed (kdec (kread clk c p False)) (concat ps))))) \<le> kmaxInflight"
    using Cons.prems k unfolding f by simp
  from Cons.IH [OF k(2) this] k show ?case unfolding f by (simp add: kreads_def)
qed (simp add: kreads_def)

text \<open>What is heard is queued, in order, while there is room.\<close>

definition khears :: "kserver \<Rightarrow> (int \<times> bytes) list \<Rightarrow> kserver" where
  "khears s fs = foldl (\<lambda>s (port, raw). kOnRawRX s port raw) s fs"

lemma kOnRawRX_client:
  assumes "distinct (ksClients s)" "i \<in> set (ksClients s)"
  shows "ksStore (kOnRawRX s port raw) i = kenqueue (ksStore s i) (WrapData (word_of_int port) raw)"
    "ksClients (kOnRawRX s port raw) = ksClients s"
proof -
  let ?g = "\<lambda>s i. updK s i (\<lambda>c. kenqueue c (WrapData (word_of_int port) raw))"
  have "ksClients (foldl ?g s is) = ksClients s" for "is" s by (induction "is" arbitrary: s) simp_all
  then show "ksClients (kOnRawRX s port raw) = ksClients s" by (simp add: kOnRawRX_def)
  have "distinct is \<Longrightarrow> ksStore (foldl ?g s is) i = (if i \<in> set is then kenqueue (ksStore s i) (WrapData (word_of_int port) raw) else ksStore s i)"
    for "is" s by (induction "is" arbitrary: s) auto
  then show "ksStore (kOnRawRX s port raw) i = kenqueue (ksStore s i) (WrapData (word_of_int port) raw)"
    using assms by (simp add: kOnRawRX_def)
qed

lemma khears_queue:
  assumes "distinct (ksClients s)" "i \<in> set (ksClients s)" "\<not> kcClosed (ksStore s i)"
    and "length (kwriteCh (ksStore s i)) + length fs \<le> kwriteCap"
  shows "kwriteCh (ksStore (khears s fs) i) = kwriteCh (ksStore s i) @ map (\<lambda>(port, raw). WrapData (word_of_int port) raw) fs"
  using assms
proof (induction fs arbitrary: s)
  case (Cons f fs)
  obtain port raw where f: "f = (port, raw)" by fastforce
  note k = kOnRawRX_client [OF Cons.prems(1,2), of port raw]
  have "kwriteCh (ksStore (khears (kOnRawRX s port raw) fs) i)
      = kwriteCh (ksStore (kOnRawRX s port raw) i) @ map (\<lambda>(port, raw). WrapData (word_of_int port) raw) fs"
    using Cons.prems k by (intro Cons.IH) (auto simp: kenqueue_def)
  then show ?case using Cons.prems k by (simp add: khears_def f kenqueue_def)
qed (simp add: khears_def)

end
