(* ===== verification/Props_Kisstcp.thy ===== *)
theory Props_Kisstcp
  imports Kisstcp Props_L2
begin

text \<open>
  The properties of the KISS-over-TCP frontend: what it lets a client do to a shared TNC, and
  that frames pass in both directions.
\<close>

section \<open>What reaches a TNC\<close>

text \<open>A frame for a TNC that carries data or sets a parameter, and cannot take it out of KISS mode.\<close>

definition harmless :: "bytes \<Rightarrow> bool" where
  "harmless w \<longleftrightarrow> (\<exists>cmd x. cmd \<le> 6 \<and> snd (Feed newDecoder w) = [cmd # x])"

lemma wrapped_harmless:
  assumes "cmd \<le> 6" "length x < MaxFrameSize"
  shows "harmless ([FEND, cmd] @ escapeBytes x @ [FEND])"
proof -
  have "cmd \<noteq> FEND" "cmd \<noteq> FESC" using assms(1) by (auto simp: kiss_bytes)
  then have "snd (Feed newDecoder (concat (map (\<lambda>(cmd, data). [FEND, cmd] @ escapeBytes data @ [FEND]) [(cmd, x)]))) = [cmd # x]"
    using assms(2) by (subst Feed_frames) (auto simp: at_boundary_def newDecoder_def)
  then show ?thesis using assms(1) unfolding harmless_def by (intro exI [of _ cmd] exI [of _ x]) simp
qed

text \<open>A port's transmit queue with at most one more frame, a harmless one.\<close>

definition oneMore :: "kport \<Rightarrow> kport \<Rightarrow> bool" where
  "oneMore p p' \<longleftrightarrow> txCh p' = txCh p \<or> (\<exists>w. txCh p' = txCh p @ [w] \<and> harmless w)"

lemma port_sends:
  "length x < MaxFrameSize \<Longrightarrow> oneMore p (Send p x)"
  "length x < MaxFrameSize \<Longrightarrow> 1 \<le> t \<Longrightarrow> t \<le> 6 \<Longrightarrow> oneMore p (SendCommand p t x)"
  using wrapped_harmless [of 0 x] wrapped_harmless [of t x]
  by (auto simp: oneMore_def Send_def SendCommand_def Let_def WrapData_def WrapCommandBytes_def shl_def)

lemma runAction_queue:
  assumes "action_ok a"
  shows "oneMore (kports b n) (kports (runAction b a) n)"
proof (cases a)
  case (KData port x)
  then have x: "length x < MaxFrameSize" using assms by (simp add: action_ok_def)
  show ?thesis
  proof (rule SendToKISS_cases [of b port x])
    assume "SendToKISS b port x = b"
    then show ?thesis by (simp add: runAction_def KData oneMore_def)
  next
    fix i tx ev
    assume "SendToKISS b port x = (updPort (trackSent b (normalizeHBits x)) i (\<lambda>p. Send p x))\<lparr>txFrames := tx, bus := bus b @ ev\<rparr>"
    then have "kports (runAction b a) n = (if n = i then Send (kports b n) x else kports b n)"
      by (simp add: runAction_def KData updPort_def trackSent_def Let_def)
    then show ?thesis using port_sends(1) [OF x] by (simp add: oneMore_def)
  qed
next
  case (KCommand port t x)
  then have x: "length x < MaxFrameSize" "1 \<le> t" "t \<le> 6" using assms by (simp_all add: action_ok_def)
  have "kports (runAction b a) n = kports b n \<or> kports (runAction b a) n = SendCommand (kports b n) t x"
    by (simp add: runAction_def KCommand SendKISSCommand_def updPort_def split: option.split)
  then show ?thesis using port_sends(2) [OF x, of "kports b n"] by (auto simp: oneMore_def)
qed

text \<open>
  C13.  A shared TNC is protected: in every state the daemon and this frontend reach together,
  whatever bytes clients send, the daemon's own invariant holds; at most the configured number of clients is connected, each with
  bounded queues and a bounded number of frames in flight; and running a frame a client has in flight adds
  at most one frame to one transmit queue, which the TNC decodes as data or as one of the
  parameters 1 to 6: never the command that leaves KISS mode.
\<close>

theorem kisstcp_guards_tnc:
  assumes "bridge_init b0" "ktcp_step\<^sup>*\<^sup>* (b0, kServe m idle) (b, s)"
  shows "bridge_inv b \<and> (ksMaxClients s > 0 \<longrightarrow> int (length (ksClients s)) \<le> ksMaxClients s)
    \<and> (\<forall>i. length (kwriteCh (ksStore s i)) \<le> 256 \<and> length (kpending (ksStore s i)) \<le> 256
          \<and> (\<forall>a\<in>set (kpending (ksStore s i)). \<forall>n. oneMore (kports b n) (kports (runAction b a) n)))"
proof -
  have "ktcp_inv (b, s)" by (rule ktcp_system.reachable_inv [OF _ assms(2)]) (auto simp: assms(1))
  then have i: "bridge_inv b" "kserver_inv s" by (simp_all add: ktcp_inv_def)
  moreover have "length (kwriteCh (ksStore s i)) \<le> 256" "length (kpending (ksStore s i)) \<le> 256" "\<forall>a\<in>set (kpending (ksStore s i)). action_ok a" for i
    using kstore_inv [OF i(2), of i] by (simp_all add: kclient_inv_def kwriteCap_def kmaxInflight_def list_all_iff)
  ultimately show ?thesis using runAction_queue by (auto simp: kserver_inv_def)
qed

section \<open>Relaying\<close>

lemma port_byte:
  assumes "0 \<le> p" "p < 16"
  shows "shl (word_of_int p :: u8) 4 AND 0x0F = 0" "uint (shr (shl (word_of_int p :: u8) 4) 4) = p" "shl (word_of_int p :: u8) 4 = FEND \<longleftrightarrow> p = 12"
proof -
  have "p \<in> {0, 1, 2, 3, 4, 5, 6, 7, 8, 9, 10, 11, 12, 13, 14, 15}" using assms by simp presburger
  then show "shl (word_of_int p :: u8) 4 AND 0x0F = 0" "uint (shr (shl (word_of_int p :: u8) 4) 4) = p" "shl (word_of_int p :: u8) 4 = FEND \<longleftrightarrow> p = 12"
    by (elim insertE emptyE; simp add: shl_def shr_def kiss_bytes)+
qed

text \<open>
  C32.  Frames pass unaltered and in order, both ways.  Data frames a client writes for ports 0 to 15
  other than 12, however its stream is cut into reads, become exactly the transmissions of their
  payloads on those ports; and the frames heard on such ports while a client's queue has room reach
  its decoder with the port in the command byte.
\<close>

theorem kisstcp_relays:
  assumes ok: "\<forall>(p, x)\<in>set fs. 0 \<le> p \<and> p < 16 \<and> p \<noteq> 12 \<and> length x < MaxFrameSize"
    and c: "at_boundary (kdec c)" "kinflight c = length (kpending c)" "kinflight c + length fs \<le> 256"
    and ps: "concat ps = concat (map (\<lambda>(p, x). WrapData (word_of_int p) x) fs)"
    and s: "distinct (ksClients s)" "i \<in> set (ksClients s)" "\<not> kcClosed (ksStore s i)" "kwriteCh (ksStore s i) = []" "length fs \<le> 256"
  shows "kpending (kreads clk c ps) = kpending c @ map (\<lambda>(p, x). KData p x) fs
    \<and> snd (Feed newDecoder (concat (kwriteCh (ksStore (khears s fs) i)))) = map (\<lambda>(p, x). shl (word_of_int p) 4 # x) fs"
proof
  let ?w = "\<lambda>(p, x). (shl (word_of_int p) 4 :: u8, x)"
  have wrap: "concat (map (\<lambda>(p, x). WrapData (word_of_int p) x) fs) = concat (map (\<lambda>(cmd, data). [FEND, cmd] @ escapeBytes data @ [FEND]) (map ?w fs))"
    by (simp add: WrapData_def comp_def case_prod_unfold)
  have "\<forall>(cmd, data)\<in>set (map ?w fs). cmd \<noteq> FEND \<and> cmd \<noteq> FESC \<and> length data < MaxFrameSize"
  proof (clarsimp)
    fix p x
    assume "(p, x) \<in> set fs"
    then have "0 \<le> p" "p < 16" "p \<noteq> 12" "length x < MaxFrameSize" using ok by auto
    then show "shl (word_of_int p) 4 \<noteq> FEND \<and> shl (word_of_int p) 4 \<noteq> FESC \<and> length x < MaxFrameSize"
      using port_byte(3) [of p] data_cmd_byte(2) [of "word_of_int p"] by simp
  qed
  note F = Feed_frames [OF _ this, folded wrap]
  have "concat (map actionOf (map (\<lambda>(cmd, data). cmd # data) (map ?w fs))) = map (\<lambda>(p, x). KData p x) fs"
    using ok port_byte(1,2) by (induction fs) (auto simp: actionOf_def)
  then have "concat (map actionOf (snd (Feed (kdec c) (concat ps)))) = map (\<lambda>(p, x). KData p x) fs"
    using F [OF c(1)] by (simp add: ps)
  then show "kpending (kreads clk c ps) = kpending c @ map (\<lambda>(p, x). KData p x) fs"
    using kreads_actions [OF c(2), of ps clk] c(3) by (simp add: kmaxInflight_def)
  show "snd (Feed newDecoder (concat (kwriteCh (ksStore (khears s fs) i)))) = map (\<lambda>(p, x). shl (word_of_int p) 4 # x) fs"
    using F [of newDecoder] khears_queue [OF s(1-3), of fs] s(4,5)
    by (simp add: kwriteCap_def at_boundary_def newDecoder_def comp_def case_prod_unfold)
qed

theorem kisstcp_relays_witness:
  "kpending (kreads 0 (knewClient 0) [[0xC0, 0x10, 1], [2, 0xC0]]) = [KData 1 [1, 2]]"
proof -
  let ?s = "kaccept (kServe 4 0) 0"
  have "kpending (kreads 0 (knewClient 0) [[0xC0, 0x10, 1], [2, 0xC0]]) = kpending (knewClient 0) @ map (\<lambda>(p, x). KData p x) [(1, [1, 2])]"
    by (rule conjunct1 [OF kisstcp_relays [where s = ?s and i = 0]])
      (simp_all add: knewClient_def at_boundary_def newDecoder_def MaxFrameSize_def WrapData_def kiss_bytes shl_def kaccept_def kadd_def
        kServe_def updK_def Let_def)
  then show ?thesis by (simp add: knewClient_def)
qed

theorem kisstcp_guards_tnc_witness:
  "\<exists>b s. ktcp_step\<^sup>*\<^sup>* (b, kServe 4 0) (b, s) \<and> length (ksClients s) = 1 \<and> bridge_inv b"
proof -
  let ?cf = "\<lparr>cfgMaxClients = 8, cfgIdleTimeout = 300, cfgMaxWindow = 3, cfgN2Retry = 10, cfgT3Timeout = 180, cfgFrack = 3, cfgPorts = []\<rparr>"
  let ?b = "startBridge id asciiOnly id 0 ?cf"
  let ?s = "kaccept (kServe 4 0) 0"
  have b: "bridge_init ?b"
    unfolding bridge_init_def by (intro exI conjI, rule refl) (simp_all add: unicode_ok_asciiOnly)
  have st: "ktcp_step\<^sup>*\<^sup>* (?b, kServe 4 0) (?b, ?s)" by (intro r_into_rtranclp ktcp_step.kacc)
  have "length (ksClients ?s) = 1" by (simp add: kaccept_def kadd_def kServe_def Let_def)
  with kisstcp_guards_tnc [OF b st] st show ?thesis by blast
qed

end
