(* ===== verification/Sdp.thy ===== *)
theory Sdp
  imports Netutil
begin

text \<open>
  The parts of the Bluetooth transports that are not system calls: addresses, the service-discovery
  request and the parser of its response (\<^verbatim>\<open>src/kiss/bluetooth_sdp.go\<close>), the channel key
  (\<^verbatim>\<open>src/kiss/bluetooth.go\<close>), the Windows form of an address (\<^verbatim>\<open>src/kiss/bluetooth_windows.go\<close>,
  \<^verbatim>\<open>src/internal/ports/bluetooth_windows.go\<close>) and the path of a device (\<^verbatim>\<open>src/kiss/bluetooth_linux.go\<close>).

  A response is a tree of data elements, written as bytes. The parser is proved against a search on the
  tree itself.
\<close>

section \<open>Addresses and channels\<close>

definition removeChar :: "char \<Rightarrow> string \<Rightarrow> string" where
  "removeChar c s = filter (\<lambda>x. x \<noteq> c) s"

text \<open>\<open>strconv.ParseUint(s, 16, bits)\<close>.\<close>

definition ParseHex :: "nat \<Rightarrow> string \<Rightarrow> nat option" where
  "ParseHex bits s =
     (if s = [] \<or> list_ex (\<lambda>c. hexVal c = None) s then None
      else let n = foldl (\<lambda>acc c. 16 * acc + the (hexVal c)) 0 s in if n < 2 ^ bits then Some n else None)"

text \<open>The six octets, most significant first, that the loop of \<open>parseBTAddrLE\<close> reads.\<close>

fun hexPairs :: "string \<Rightarrow> nat list option" where
  "hexPairs (a # b # s) =
     (case ParseHex 8 [a, b] of None \<Rightarrow> None | Some n \<Rightarrow> map_option (\<lambda>ns. n # ns) (hexPairs s))"
| "hexPairs _ = Some []"

definition parseBTAddrLE :: "string \<Rightarrow> bytes option" where
  "parseBTAddrLE s =
     (let h = removeChar (CHR ''-'') (removeChar (CHR '':'') s)
      in if length h \<noteq> 12 then None else map_option (\<lambda>ns. rev (map word_of_nat ns)) (hexPairs h))"

definition parseBTAddr :: "string \<Rightarrow> 64 word option" where
  "parseBTAddr s =
     (let h = removeChar (CHR ''-'') (removeChar (CHR '':'') s)
      in if length h \<noteq> 12 then None else map_option word_of_nat (ParseHex 64 h))"

definition formatBTMAC :: "64 word \<Rightarrow> string" where
  "formatBTMAC a =
     hex02X (ucast (shr a 40)) @ '':'' @ hex02X (ucast (shr a 32)) @ '':'' @ hex02X (ucast (shr a 24)) @ '':'' @
     hex02X (ucast (shr a 16)) @ '':'' @ hex02X (ucast (shr a 8)) @ '':'' @ hex02X (ucast a)"

definition parseSPPChannel :: "unicode \<Rightarrow> string \<Rightarrow> (int \<times> bool) option" where
  "parseSPPChannel u s =
     (let s = TrimSpace u s
      in if s = [] then Some (0, False)
         else (case Atoi s of
                 None \<Rightarrow> None
               | Some ch \<Rightarrow> if ch < 1 \<or> ch > 30 then None else Some (ch, True)))"

definition bdaddrToPath :: "unicode \<Rightarrow> string \<Rightarrow> string option" where
  "bdaddrToPath u a =
     (if a = [] then None
      else Some (''/org/bluez/hci0/dev_'' @ ToUpper u (map (\<lambda>c. if c = CHR '':'' then CHR ''_'' else c) a)))"

definition adapterPathFor :: "string \<Rightarrow> string" where
  "adapterPathFor s =
     (case LastIndex (CHR ''/'') s of Some i \<Rightarrow> if i > 0 then take i s else ''/org/bluez/hci0'' | None \<Rightarrow> ''/org/bluez/hci0'')"

section \<open>Requests\<close>

definition uuid16Bytes :: "u16 \<Rightarrow> bytes" where
  "uuid16Bytes u = [ucast (shr u 8), ucast u]"

definition buildSSAReq :: "bytes \<Rightarrow> bytes" where
  "buildSSAReq uuid =
     (if length uuid \<noteq> 2 \<and> length uuid \<noteq> 16 then []
      else let elemType = (if length uuid = 2 then 0x19 else 0x1C);
               ssp = [0x35, word_of_nat (length uuid + 1), elemType] @ uuid;
               aidl = [0x35, 0x03, 0x09, 0x00, 0x04];
               params = ssp @ [0xFF, 0xFF] @ aidl @ [0x00]
           in [0x06] @ bePut16 1 @ bePut16 (word_of_nat (length params)) @ params)"

section \<open>Data elements\<close>

text \<open>\<open>int(n)\<close> of an unsigned number below 2^32, for an \<open>int\<close> of \<open>w\<close> bits.\<close>

definition goInt :: "nat \<Rightarrow> nat \<Rightarrow> int" where
  "goInt w n = (if n < 2 ^ (w - 1) then int n else int n - 2 ^ w)"

definition sdpLength :: "nat \<Rightarrow> bytes \<Rightarrow> nat \<Rightarrow> byte \<Rightarrow> (int \<times> nat) option" where
  "sdpLength w b p sizeIdx =
     (if sizeIdx < 5 then Some (2 ^ unat sizeIdx, p)
      else if sizeIdx = 5 then (if p \<ge> length b then None else Some (int (unat (b ! p)), p + 1))
      else if sizeIdx = 6 then (if p + 2 > length b then None else Some (int (unat (beUint16 (goSlice p (p + 2) b))), p + 2))
      else (if p + 4 > length b then None else Some (goInt w (unat (beUint32 (goSlice p (p + 4) b))), p + 4)))"

definition sdpElement :: "nat \<Rightarrow> bytes \<Rightarrow> nat \<Rightarrow> (byte \<times> nat \<times> nat) option" where
  "sdpElement w b off =
     (if off \<ge> length b then None
      else let desc = b ! off; etype = shr desc 3
           in (case sdpLength w b (off + 1) (desc AND 0x07) of
                 None \<Rightarrow> None
               | Some (valLen, p) \<Rightarrow>
                   let valLen = (if etype = 0 then 0 else valLen)
                   in if valLen < 0 \<or> valLen > int (length b) - int p then None else Some (etype, p, nat valLen)))"

lemma sdpLength_bounds: "\<lbrakk>sdpLength w b p si = Some (n, q); p \<le> length b\<rbrakk> \<Longrightarrow> p \<le> q \<and> q \<le> length b"
  by (auto simp: sdpLength_def split: if_splits)

lemma sdpElement_bounds:
  assumes "sdpElement w b off = Some (e, vo, vl)"
  shows "off < vo \<and> vo + vl \<le> length b"
proof -
  obtain n where n: "sdpLength w b (off + 1) (b ! off AND 0x07) = Some (n, vo)" "off < length b"
      "vl = nat (if e = 0 then 0 else n)" "(if e = 0 then 0 else n) \<le> int (length b) - int vo"
    using assms by (auto simp: sdpElement_def Let_def split: if_splits option.splits)
  then have "off + 1 \<le> vo \<and> vo \<le> length b" using sdpLength_bounds [OF n(1)] by simp
  then show ?thesis using n(3,4) by linarith
qed

definition isRFCOMMUUID :: "bytes \<Rightarrow> bool" where
  "isRFCOMMUUID v \<longleftrightarrow>
     (if length v = 2 then v ! 0 = 0 \<and> v ! 1 = 3
      else if length v = 4 \<or> length v = 16 then v ! 0 = 0 \<and> v ! 1 = 0 \<and> v ! 2 = 0 \<and> v ! 3 = 3 else False)"

text \<open>The loop of \<open>findRFCOMMChannel\<close>, from an offset and with what the element before was.\<close>

function sdpLoop :: "nat \<Rightarrow> bytes \<Rightarrow> nat \<Rightarrow> bool \<Rightarrow> nat option" where
  "sdpLoop w b off prev =
     (if off \<ge> length b then None
      else case sdpElement w b off of
        None \<Rightarrow> None
      | Some (etype, vo, vl) \<Rightarrow>
          (let val = goSlice vo (vo + vl) b
           in if etype = 3 then sdpLoop w b (vo + vl) (isRFCOMMUUID val)
              else if etype = 1 then
                (if prev \<and> vl \<ge> 1 then Some (unat (val ! (vl - 1))) else sdpLoop w b (vo + vl) False)
              else if etype = 6 \<or> etype = 7 then
                (case sdpLoop w val 0 False of
                   Some ch \<Rightarrow> Some ch
                 | None \<Rightarrow> sdpLoop w b (vo + vl) False)
              else sdpLoop w b (vo + vl) False))"
  by pat_completeness auto
termination
  by (relation "measures [\<lambda>(w, b, off, prev). length b, \<lambda>(w, b, off, prev). length b - off]")
    (auto dest!: sdpElement_bounds simp: goSlice_def)

declare sdpLoop.simps [simp del]

definition findRFCOMMChannel :: "nat \<Rightarrow> bytes \<Rightarrow> nat option" where
  "findRFCOMMChannel w b = sdpLoop w b 0 False"

datatype sdp_error = UnexpectedResponse | NoRFCOMMChannel

definition parseRFCOMMChannel :: "nat \<Rightarrow> bytes \<Rightarrow> sdp_error + nat" where
  "parseRFCOMMChannel w resp =
     (if length resp < 7 \<or> resp ! 0 \<noteq> 0x07 then Inl UnexpectedResponse
      else (case findRFCOMMChannel w (drop 7 resp) of Some ch \<Rightarrow> Inr ch | None \<Rightarrow> Inl NoRFCOMMChannel))"

section \<open>Trees of elements\<close>

text \<open>An element with its type and the index of its size, and a value or a sequence of elements.\<close>

datatype sdp = Leaf byte byte bytes | Node byte byte "sdp list"

definition sdpHeader :: "byte \<Rightarrow> byte \<Rightarrow> nat \<Rightarrow> bytes" where
  "sdpHeader ty si n =
     (ty * 8 + si) # (if si = 5 then [word_of_nat n] else if si = 6 then bePut16 (word_of_nat n)
                      else if si = 7 then bePut32 (word_of_nat n) else [])"

fun encElem :: "sdp \<Rightarrow> bytes" where
  "encElem (Leaf ty si v) = sdpHeader ty si (length v) @ v"
| "encElem (Node ty si es) =
     (let body = concat (map encElem es) in sdpHeader ty si (length body) @ body)"

definition fits :: "byte \<Rightarrow> nat \<Rightarrow> bool" where
  "fits si n \<longleftrightarrow> si < 8 \<and> (if si < 5 then n = 2 ^ unat si else if si = 5 then n < 256 else if si = 6 then n < 65536 else n < 2 ^ 31)"

fun wf_elem :: "sdp \<Rightarrow> bool" where
  "wf_elem (Leaf ty si v) \<longleftrightarrow> ty < 32 \<and> ty \<notin> {6, 7} \<and> (if ty = 0 then si < 5 \<and> v = [] else fits si (length v))"
| "wf_elem (Node ty si es) \<longleftrightarrow> ty \<in> {6, 7} \<and> fits si (length (concat (map encElem es))) \<and> list_all wf_elem es"

text \<open>The number that follows the RFCOMM protocol in some sequence, the first in depth-first order.\<close>

fun searchTree :: "sdp list \<Rightarrow> bool \<Rightarrow> nat option" where
  "searchTree [] prev = None"
| "searchTree (Leaf ty si v # es) prev =
     (if ty = 3 then searchTree es (isRFCOMMUUID v)
      else if ty = 1 \<and> prev \<and> v \<noteq> [] then Some (unat (last v))
      else searchTree es False)"
| "searchTree (Node ty si fs # es) prev =
     (case searchTree fs False of Some ch \<Rightarrow> Some ch | None \<Rightarrow> searchTree es False)"

section \<open>The parser finds what the tree holds\<close>

lemma descriptor:
  assumes "ty < (32 :: byte)" "si < (8 :: byte)"
  shows "shr (ty * 8 + si) 3 = ty" "(ty * 8 + si) AND 7 = si"
proof -
  have n: "unat ty < 32" "unat si < 8" using assms by (simp_all add: word_less_nat_alt)
  then have d: "unat (ty * 8 + si) = unat ty * 8 + unat si"
    by (simp add: unat_word_ariths unsigned_of_nat take_bit_eq_mod)
  show "shr (ty * 8 + si) 3 = ty"
    using n d by (simp add: shr_def word_unat_eq_iff drop_bit_eq_div unat_div)
  have "(ty * 8 + si) AND 7 = take_bit 3 (ty * 8 + si)" by (simp add: take_bit_eq_mask mask_eq_exp_minus_1)
  then show "(ty * 8 + si) AND 7 = si"
    using n d by (simp add: word_unat_eq_iff take_bit_eq_mod unat_mod)
qed

lemma size_cases:
  assumes "si < (8 :: byte)"
  obtains "si < 5" | "si = 5" | "si = 6" | "si = 7"
proof -
  have "unat si < 8" using assms by (simp add: word_less_nat_alt)
  then have "unat si < 5 \<or> unat si = 5 \<or> unat si = 6 \<or> unat si = 7" by arith
  then show ?thesis using that by (auto simp: word_less_nat_alt word_unat_eq_iff)
qed

lemma sdpLength_header:
  assumes "32 \<le> w" "if ty = 0 then si < 5 \<and> v = [] else fits si (length v)"
  shows "\<exists>n. sdpLength w (pre @ sdpHeader ty si (length v) @ v @ post) (length pre + 1) si
      = Some (n, length pre + length (sdpHeader ty si (length v))) \<and> (ty \<noteq> 0 \<longrightarrow> n = int (length v))"
proof -
  have si: "si < 8" using assms(2) by (auto simp: fits_def split: if_splits intro: less_trans)
  have p: "(2 :: nat) ^ 31 \<le> 2 ^ (w - 1)" using assms(1) by (intro power_increasing) auto
  show ?thesis
    using si
  proof (cases rule: size_cases)
    case 1
    then show ?thesis using assms(2) by (auto simp: sdpLength_def sdpHeader_def fits_def split: if_splits)
  next
    case 2
    then show ?thesis using assms(2) by (auto simp: sdpLength_def sdpHeader_def fits_def nth_append unat_of_nat)
  next
    case 3
    then have f: "length v < 65536" "ty \<noteq> 0" using assms(2) by (auto simp: fits_def split: if_splits)
    have "goSlice (length pre + 1) (length pre + 1 + 2) (pre @ sdpHeader ty si (length v) @ v @ post) = bePut16 (word_of_nat (length v))"
      using 3 by (simp add: goSlice_def sdpHeader_def bePut16_def)
    then show ?thesis using 3 f
      by (simp add: sdpLength_def beUint16_bePut16 del: of_nat_unat) (simp add: sdpHeader_def bePut16_def unat_of_nat del: of_nat_unat)
  next
    case 4
    then have f: "length v < 2 ^ 31" "ty \<noteq> 0" using assms(2) by (auto simp: fits_def split: if_splits)
    have "goSlice (length pre + 1) (length pre + 1 + 4) (pre @ sdpHeader ty si (length v) @ v @ post) = bePut32 (word_of_nat (length v))"
      using 4 by (simp add: goSlice_def sdpHeader_def bePut32_def)
    moreover have "goInt w (unat (word_of_nat (length v) :: u32)) = int (length v)"
      using f p by (simp add: goInt_def unat_of_nat)
    ultimately show ?thesis using 4 f
      by (simp add: sdpLength_def beUint32_bePut32) (simp add: sdpHeader_def bePut32_def)
  qed
qed

lemma sdpElement_header:
  assumes "32 \<le> w" "ty < 32" "if ty = 0 then si < 5 \<and> v = [] else fits si (length v)"
  shows "sdpElement w (pre @ sdpHeader ty si (length v) @ v @ post) (length pre)
    = Some (ty, length pre + length (sdpHeader ty si (length v)), length v)"
proof -
  have si: "si < 8" using assms(3) by (auto simp: fits_def split: if_splits intro: less_trans)
  have b: "(pre @ sdpHeader ty si (length v) @ v @ post) ! length pre = ty * 8 + si"
    by (simp add: nth_append sdpHeader_def)
  obtain n where n: "sdpLength w (pre @ sdpHeader ty si (length v) @ v @ post) (length pre + 1) si
      = Some (n, length pre + length (sdpHeader ty si (length v)))" "ty \<noteq> 0 \<Longrightarrow> n = int (length v)"
    using sdpLength_header [OF assms(1,3), of pre post] by blast
  have "\<not> length pre \<ge> length (pre @ sdpHeader ty si (length v) @ v @ post)" by (simp add: sdpHeader_def)
  then show ?thesis
    using n assms(3) unfolding sdpElement_def Let_def b descriptor [OF assms(2) si] by auto
qed

text \<open>One element of a tree, read at any place.\<close>

lemma sdpLoop_elem:
  assumes "32 \<le> w" "ty < 32" "if ty = 0 then si < 5 \<and> v = [] else fits si (length v)"
  shows "sdpLoop w (pre @ (sdpHeader ty si (length v) @ v) @ post) (length pre) prev =
     (let next = sdpLoop w ((pre @ sdpHeader ty si (length v) @ v) @ post) (length (pre @ sdpHeader ty si (length v) @ v))
      in if ty = 3 then next (isRFCOMMUUID v)
         else if ty = 1 then (if prev \<and> v \<noteq> [] then Some (unat (last v)) else next False)
         else if ty = 6 \<or> ty = 7 then (case sdpLoop w v 0 False of Some ch \<Rightarrow> Some ch | None \<Rightarrow> next False)
         else next False)"
proof -
  define h where "h = sdpHeader ty si (length v)"
  define b where "b = pre @ (h @ v) @ post"
  have e: "sdpElement w b (length pre) = Some (ty, length pre + length h, length v)"
    using sdpElement_header [OF assms, of pre post] by (simp add: b_def h_def)
  have "goSlice (length pre + length h) (length pre + length h + length v) b = v" by (simp add: goSlice_def b_def)
  moreover have "\<not> length pre \<ge> length b" by (simp add: b_def h_def sdpHeader_def)
  moreover have "v \<noteq> [] \<Longrightarrow> v ! (length v - 1) = last v" by (simp add: last_conv_nth)
  moreover have "length v \<ge> 1 \<longleftrightarrow> v \<noteq> []" by (cases v) auto
  ultimately have "sdpLoop w b (length pre) prev =
     (let next = sdpLoop w b (length pre + length h + length v)
      in if ty = 3 then next (isRFCOMMUUID v)
         else if ty = 1 then (if prev \<and> v \<noteq> [] then Some (unat (last v)) else next False)
         else if ty = 6 \<or> ty = 7 then (case sdpLoop w v 0 False of Some ch \<Rightarrow> Some ch | None \<Rightarrow> next False)
         else next False)"
    by (subst sdpLoop.simps) (auto simp: e Let_def)
  then show ?thesis by (simp add: b_def h_def add.assoc)
qed

lemma sdpLoop_tree:
  assumes "32 \<le> w"
  shows "list_all wf_elem es \<Longrightarrow> sdpLoop w (pre @ concat (map encElem es)) (length pre) prev = searchTree es prev"
proof (induction es prev arbitrary: pre rule: searchTree.induct)
  case (1 prev)
  then show ?case by (subst sdpLoop.simps) simp
next
  case (2 ty si v es prev)
  let ?pre = "pre @ sdpHeader ty si (length v) @ v"
  have v: "ty < 32" "ty \<noteq> 6" "ty \<noteq> 7" "if ty = 0 then si < 5 \<and> v = [] else fits si (length v)" "list_all wf_elem es"
    using 2(3) by auto
  have nx: "sdpLoop w (?pre @ concat (map encElem es)) (length ?pre) (isRFCOMMUUID v) = searchTree es (isRFCOMMUUID v)" if "ty = 3"
    using 2(1) [OF that v(5)] .
  have nx': "sdpLoop w (?pre @ concat (map encElem es)) (length ?pre) False = searchTree es False"
    if "ty \<noteq> 3" "\<not> (ty = 1 \<and> prev \<and> v \<noteq> [])" using 2(2) [OF that v(5)] .
  show ?case
    using sdpLoop_elem [OF assms v(1,4), of pre "concat (map encElem es)" prev] nx nx' v(2,3)
    by (auto simp: Let_def)
next
  case (3 ty si fs es prev)
  let ?v = "concat (map encElem fs)"
  let ?pre = "pre @ sdpHeader ty si (length ?v) @ ?v"
  have v: "ty < 32" "ty = 6 \<or> ty = 7" "if ty = 0 then si < 5 \<and> ?v = [] else fits si (length ?v)" "list_all wf_elem es"
      "list_all wf_elem fs" using 3(3) by auto
  have inner: "sdpLoop w ?v 0 False = searchTree fs False" using 3(1) [OF v(5), of "[]"] by simp
  have nx: "sdpLoop w (?pre @ concat (map encElem es)) (length ?pre) False = searchTree es False" if "searchTree fs False = None"
    using 3(2) [OF that v(4)] .
  show ?case
    using sdpLoop_elem [OF assms v(1,3), of pre "concat (map encElem es)" prev] v(2) inner nx
    by (auto simp: Let_def split: option.splits)
qed

lemma searchTree_nil: "searchTree (es @ [Leaf 0 0 []]) prev = searchTree es prev"
  by (induction es prev rule: searchTree.induct) (auto split: option.split)

text \<open>A response: the header, the attribute lists, and the empty continuation state.\<close>

lemma parse_response:
  assumes "32 \<le> w" "list_all wf_elem es" "length hdr = 6"
  shows "parseRFCOMMChannel w ([0x07] @ hdr @ concat (map encElem es) @ [0x00])
    = (case searchTree es False of Some ch \<Rightarrow> Inr ch | None \<Rightarrow> Inl NoRFCOMMChannel)"
proof -
  have "sdpLoop w ([] @ concat (map encElem (es @ [Leaf 0 0 []]))) (length ([] :: bytes)) False = searchTree (es @ [Leaf 0 0 []]) False"
    by (rule sdpLoop_tree [OF assms(1)]) (use assms(2) in simp)
  then show ?thesis
    using assms(3) by (simp add: parseRFCOMMChannel_def findRFCOMMChannel_def searchTree_nil sdpHeader_def)
qed

text \<open>A 32-bit build reads any response as a 64-bit build does.\<close>

lemma goInt_width:
  assumes "n < 2 ^ 32"
  shows "goInt 64 n = int n" "goInt 32 n = int n \<or> goInt 32 n < 0 \<and> 2 ^ 31 \<le> n"
proof -
  show "goInt 64 n = int n" using assms by (simp add: goInt_def)
  have "int n < int (2 ^ 32)" using assms by (simp only: of_nat_less_iff)
  then show "goInt 32 n = int n \<or> goInt 32 n < 0 \<and> 2 ^ 31 \<le> n" by (simp add: goInt_def not_less)
qed

lemma sdpLength_width:
  "sdpLength 32 b p si = sdpLength 64 b p si
   \<or> (\<exists>m n q. sdpLength 32 b p si = Some (m, q) \<and> sdpLength 64 b p si = Some (n, q) \<and> m < 0 \<and> 2 ^ 31 \<le> n)"
proof -
  have "unat (beUint32 (goSlice p (p + 4) b)) < 2 ^ LENGTH(32)" by (rule unsigned_less)
  then have n: "unat (beUint32 (goSlice p (p + 4) b)) < 2 ^ 32" by simp
  show ?thesis
    using goInt_width(2) [OF n]
  proof (elim disjE conjE)
    assume "2 ^ 31 \<le> unat (beUint32 (goSlice p (p + 4) b))"
    then have "int (2 ^ 31) \<le> int (unat (beUint32 (goSlice p (p + 4) b)))" by (simp only: of_nat_le_iff)
    moreover assume "goInt 32 (unat (beUint32 (goSlice p (p + 4) b))) < 0"
    ultimately show ?thesis by (simp add: sdpLength_def goInt_width(1) [OF n] del: of_nat_unat)
  qed (simp add: sdpLength_def goInt_width(1) [OF n] del: of_nat_unat)
qed

lemma sdpElement_width:
  assumes "length b < 2 ^ 31"
  shows "sdpElement 32 b off = sdpElement 64 b off"
  using sdpLength_width [of b "off + 1" "b ! off AND 0x07"]
proof (elim disjE exE conjE)
  fix m n q
  assume l: "sdpLength 32 b (off + 1) (b ! off AND 0x07) = Some (m, q)" "sdpLength 64 b (off + 1) (b ! off AND 0x07) = Some (n, q)"
    "m < 0" "2 ^ 31 \<le> n"
  have "int (length b) < int (2 ^ 31)" using assms by (simp only: of_nat_less_iff)
  then show ?thesis using l by (simp add: sdpElement_def Let_def)
qed (simp add: sdpElement_def)

lemma sdpLoop_width: "length b < 2 ^ 31 \<Longrightarrow> sdpLoop 32 b off prev = sdpLoop 64 b off prev"
proof (induction b arbitrary: off prev rule: length_induct)
  case (1 b)
  note inner = 1(1) [rule_format, OF _ less_trans [OF _ 1(2)]]
  show ?case
  proof (induction "length b - off" arbitrary: off prev rule: less_induct)
    case less
    show ?case
    proof (cases "off \<ge> length b \<or> sdpElement 64 b off = None")
      case True
      then show ?thesis using 1(2) by (subst (1 2) sdpLoop.simps) (auto simp: sdpElement_width)
    next
      case False
      then obtain e vo vl where e: "sdpElement 64 b off = Some (e, vo, vl)" "\<not> length b \<le> off" by auto
      have e': "sdpElement 32 b off = Some (e, vo, vl)" using e 1(2) by (simp add: sdpElement_width)
      have b: "off < vo" "vo + vl \<le> length b" using sdpElement_bounds [OF e(1)] by simp_all
      have rest: "sdpLoop 32 b (vo + vl) p = sdpLoop 64 b (vo + vl) p" for p using b e(2) by (intro less) linarith
      have "length (goSlice vo (vo + vl) b) < length b" using b by (simp add: goSlice_def)
      then have "sdpLoop 32 (goSlice vo (vo + vl) b) 0 False = sdpLoop 64 (goSlice vo (vo + vl) b) 0 False"
        by (intro inner)
      then show ?thesis by (subst (1 2) sdpLoop.simps) (simp only: e e' rest option.case prod.case Let_def if_False)
    qed
  qed
qed

section \<open>Printed addresses are read back\<close>

lemma hexVal_hexDigit [simp]: "n < 16 \<Longrightarrow> hexVal (hexDigit n) = Some n"
  by (auto simp: hexVal_def hexDigit_def Let_def)

lemma hexDigit_plain: "n < 16 \<Longrightarrow> hexDigit n \<noteq> CHR '':'' \<and> hexDigit n \<noteq> CHR ''-''"
  using hexVal_hexDigit [of n] by (auto simp: hexVal_def Let_def)

lemma unat_byte: "unat (b :: byte) < 256"
proof -
  have "unat b < 2 ^ LENGTH(8)" by (rule unsigned_less)
  then show ?thesis by simp
qed

lemma hex02X_digits: "hex02X b = [hexDigit (unat b div 16), hexDigit (unat b mod 16)]" "unat b div 16 < 16" "unat b mod 16 < 16"
  using unat_byte [of b] by (auto simp: hex02X_def)

lemma removeChar_simps [simp]: "removeChar c (s @ t) = removeChar c s @ removeChar c t" "removeChar c [] = []"
  "removeChar c (x # s) = (if x = c then removeChar c s else x # removeChar c s)"
  by (simp_all add: removeChar_def)

lemma removeChar_hex02X [simp]: "removeChar (CHR '':'') (hex02X b) = hex02X b" "removeChar (CHR ''-'') (hex02X b) = hex02X b"
  using hexDigit_plain [OF hex02X_digits(2)] hexDigit_plain [OF hex02X_digits(3)]
  by (simp_all add: hex02X_digits(1))

lemma ParseHex_hex02X: "ParseHex 8 (hex02X b) = Some (unat b)"
  using hex02X_digits(2,3) [of b] unat_byte [of b] by (simp add: hex02X_digits(1) ParseHex_def Let_def)

lemma hexPairs_hex02X [simp]: "hexPairs (hex02X b @ s) = map_option (\<lambda>ns. unat b # ns) (hexPairs s)"
  using ParseHex_hex02X [of b] by (simp add: hex02X_digits(1))

lemma hexPairs_hex02X_last [simp]: "hexPairs (hex02X b) = Some [unat b]"
  using hexPairs_hex02X [of b "[]"] by simp

lemma parse_format_LE:
  "parseBTAddrLE (formatBTMAC a)
   = Some [ucast a, ucast (shr a 8), ucast (shr a 16), ucast (shr a 24), ucast (shr a 32), ucast (shr a 40)]"
proof -
  have "length (hex02X b) = 2" for b by (simp add: hex02X_def)
  then show ?thesis by (simp add: parseBTAddrLE_def formatBTMAC_def Let_def)
qed

lemma fold_hex02X [simp]:
  "foldl (\<lambda>acc c. 16 * acc + the (hexVal c)) acc (hex02X b @ s) = foldl (\<lambda>acc c. 16 * acc + the (hexVal c)) (256 * acc + unat b) s"
  "foldl (\<lambda>acc c. 16 * acc + the (hexVal c)) acc (hex02X b) = 256 * acc + unat b"
  using hex02X_digits(2,3) [of b] by (simp_all add: hex02X_digits(1) add.commute)

lemma hex02X_no_none [simp]: "\<not> list_ex (\<lambda>c. hexVal c = None) (hex02X b)"
  using hex02X_digits(2,3) [of b] by (simp add: hex02X_digits(1))

lemma octet_at: "unat (ucast (shr (a :: 64 word) n) :: byte) = unat a div 2 ^ n mod 256"
proof -
  have "unat a < 2 ^ LENGTH(64)" by (rule unsigned_less)
  then show ?thesis
    by (simp add: shr_def unsigned_ucast_eq unsigned_drop_bit_eq take_bit_eq_mod [where 'a = nat] drop_bit_eq_div [where 'a = nat])
qed

lemma six_octets:
  fixes x :: nat
  shows "256 * (256 * (256 * (256 * (256 * (x div 2 ^ 40 mod 256) + x div 2 ^ 32 mod 256) + x div 2 ^ 24 mod 256)
    + x div 2 ^ 16 mod 256) + x div 2 ^ 8 mod 256) + x mod 256 = x mod 2 ^ 48"
proof -
  have s: "x div 2 ^ n mod (256 * m) = 256 * (x div 2 ^ (n + 8) mod m) + x div 2 ^ n mod 256" for n m
    by (simp add: mod_mult2_eq div_mult2_eq power_add)
  have "x mod 2 ^ 48 = x div 2 ^ 0 mod (256 * (256 * (256 * (256 * (256 * 256)))))" by simp
  then show ?thesis by (simp only: s) simp
qed

lemma parse_format: "parseBTAddr (formatBTMAC a) = Some (take_bit 48 a)"
proof -
  have l: "length (hex02X b) = 2" "hex02X b \<noteq> []" for b by (simp_all add: hex02X_def)
  have o: "unat (ucast a :: byte) = unat a mod 256" using octet_at [of a 0] by (simp add: shr_def)
  have m: "unat a mod 2 ^ 48 < 2 ^ 48" by simp
  then have b: "unat a mod 2 ^ 48 < 2 ^ 64" by (rule less_trans) simp
  have w: "word_of_nat (unat a mod 2 ^ 48) = take_bit 48 a"
    by (simp add: word_unat_eq_iff unsigned_take_bit_eq take_bit_eq_mod [where 'a = nat] unsigned_of_nat)
  let ?h = "hex02X (ucast (shr a 40)) @ hex02X (ucast (shr a 32)) @ hex02X (ucast (shr a 24)) @ hex02X (ucast (shr a 16)) @
     hex02X (ucast (shr a 8)) @ hex02X (ucast a)"
  have "foldl (\<lambda>acc c. 16 * acc + the (hexVal c)) 0 ?h = unat a mod 2 ^ 48"
    by (simp only: fold_hex02X octet_at o six_octets mult_0_right add_0_left)
  then have "ParseHex 64 ?h = Some (unat a mod 2 ^ 48)"
    using b l(2) unfolding ParseHex_def Let_def by (simp only:) simp
  moreover have "removeChar (CHR ''-'') (removeChar (CHR '':'') (formatBTMAC a)) = ?h" by (simp add: formatBTMAC_def)
  ultimately show ?thesis using w by (simp add: parseBTAddr_def Let_def l(1))
qed

end
