(* ===== verification/Bt_Link.thy ===== *)
theory Bt_Link
  imports Prelude
begin

text \<open>
  The Bluetooth links as byte streams: low energy (\<^verbatim>\<open>src/kiss/ble.go\<close>, \<open>Read\<close>, \<open>Write\<close>, \<open>Close\<close> and
  \<open>watchNotifications\<close> of \<^verbatim>\<open>src/kiss/ble_linux.go\<close>), the send loop and the connect loops of the Windows and FreeBSD
  transports (\<^verbatim>\<open>src/kiss/bluetooth_windows.go\<close>, \<^verbatim>\<open>src/kiss/bluetooth_freebsd.go\<close>), and for Linux the stall detector and
  the hand-over of a connected socket (\<^verbatim>\<open>src/kiss/bluetooth_linux.go\<close>).

  What a system call answers is an argument.
\<close>

section \<open>Low energy: writing\<close>

definition bleDefaultMTU :: nat where
  "bleDefaultMTU = 23"

definition bleATTOverhead :: nat where
  "bleATTOverhead = 3"

definition chunkSize :: "nat \<Rightarrow> nat" where
  "chunkSize mtu = (if mtu < bleDefaultMTU then bleDefaultMTU else mtu) - bleATTOverhead"

lemma chunkSize_pos [simp]: "0 < chunkSize mtu"
  by (simp add: chunkSize_def bleDefaultMTU_def bleATTOverhead_def)

function chunkLoop :: "nat \<Rightarrow> bytes \<Rightarrow> bytes list" where
  "chunkLoop m b = (if m > 0 \<and> length b > m then take m b # chunkLoop m (drop m b) else [b])"
  by pat_completeness auto
termination
  by (relation "measure (\<lambda>(m, b). length b)") auto

declare chunkLoop.simps [simp del]

definition chunkForMTU :: "bytes \<Rightarrow> nat \<Rightarrow> bytes list" where
  "chunkForMTU b mtu = (if b = [] then [] else chunkLoop (chunkSize mtu) b)"

text \<open>The loop of \<open>Write\<close>: one acknowledged write per chunk, up to the first that fails; \<open>acks\<close> says which succeed.\<close>

fun writeChunks :: "bytes list \<Rightarrow> bool list \<Rightarrow> nat \<Rightarrow> bytes \<Rightarrow> nat \<times> bool \<times> bytes" where
  "writeChunks [] acks n sent = (n, True, sent)"
| "writeChunks (c # cs) [] n sent = (n, False, sent)"
| "writeChunks (c # cs) (a # acks) n sent =
     (if a then writeChunks cs acks (n + length c) (sent @ c) else (n, False, sent))"

definition bleWrite :: "bool \<Rightarrow> nat \<Rightarrow> bytes \<Rightarrow> bool list \<Rightarrow> nat \<times> bool \<times> bytes" where
  "bleWrite open mtu p acks = (if \<not> open then (0, False, []) else writeChunks (chunkForMTU p mtu) acks 0 [])"

section \<open>Low energy: reading\<close>

record ble =
  bopen :: bool
  rxCh :: "bytes list"
  leftover :: bytes

definition bleRXQueue :: nat where
  "bleRXQueue = 64"

definition newBle :: ble where
  "newBle = \<lparr>bopen = True, rxCh = [], leftover = []\<rparr>"

text \<open>
  A notification: one that finds the queue full is dropped. When the link is closed, the \<open>select\<close> may still take the
  notification: \<open>sel\<close> says whether it does.
\<close>

definition bleNotify :: "bytes \<Rightarrow> bool \<Rightarrow> ble \<Rightarrow> ble \<times> bool" where
  "bleNotify d sel b =
     (if d = [] then (b, False)
      else if length (rxCh b) \<ge> bleRXQueue then (b, False)
      else if \<not> bopen b \<and> \<not> sel then (b, False)
      else (b\<lparr>rxCh := rxCh b @ [d]\<rparr>, True))"

datatype readResult = Bytes bytes | Blocks | EOF

text \<open>
  \<open>Read\<close> into a buffer of \<open>n\<close> bytes. When the link is closed and a notification is still queued, the \<open>select\<close> may take
  either: \<open>sel\<close> says whether it takes the notification.
\<close>

definition bleRead :: "nat \<Rightarrow> bool \<Rightarrow> ble \<Rightarrow> ble \<times> readResult" where
  "bleRead n sel b =
     (if n = 0 then (b, Bytes [])
      else if leftover b \<noteq> [] then (b\<lparr>leftover := drop n (leftover b)\<rparr>, Bytes (take n (leftover b)))
      else (case rxCh b of
              [] \<Rightarrow> (b, if bopen b then Blocks else EOF)
            | d # ds \<Rightarrow>
                if \<not> bopen b \<and> \<not> sel then (b, EOF)
                else (b\<lparr>rxCh := ds, leftover := (if n < length d then leftover b @ drop n d else leftover b)\<rparr>, Bytes (take n d))))"

definition bleClose :: "ble \<Rightarrow> ble" where
  "bleClose b = b\<lparr>bopen := False\<rparr>"

text \<open>A run of the link: notifications, reads and a close, with what was accepted and what was read.\<close>

datatype bleEvent = Notify bytes bool | ReadN nat bool | CloseLink

fun bleRun :: "bleEvent list \<Rightarrow> ble \<times> bytes \<times> bytes \<Rightarrow> ble \<times> bytes \<times> bytes" where
  "bleRun [] s = s"
| "bleRun (Notify d sel # es) (b, acc, got) =
     (case bleNotify d sel b of (b, ok) \<Rightarrow> bleRun es (b, if ok then acc @ d else acc, got))"
| "bleRun (ReadN n sel # es) (b, acc, got) =
     (case bleRead n sel b of (b, r) \<Rightarrow> bleRun es (b, acc, case r of Bytes x \<Rightarrow> got @ x | _ \<Rightarrow> got))"
| "bleRun (CloseLink # es) (b, acc, got) = bleRun es (bleClose b, acc, got)"

section \<open>Windows: the send loop\<close>

datatype sendResult = Sent nat | SendFailed

text \<open>\<open>send i\<close> is what the \<open>i\<close>-th call of \<open>WSASend\<close> answers.\<close>

function winWrite :: "(nat \<Rightarrow> sendResult) \<Rightarrow> nat \<Rightarrow> nat \<Rightarrow> nat \<Rightarrow> nat \<times> bool" where
  "winWrite send i len tot =
     (if tot < len then
        (case send i of
           SendFailed \<Rightarrow> (tot, False)
         | Sent n \<Rightarrow> if n = 0 then (tot, False) else winWrite send (i + 1) len (tot + n))
      else (tot, True))"
  by pat_completeness auto
termination
  by (relation "measure (\<lambda>(send, i, len, tot). len - tot)") auto

declare winWrite.simps [simp del]

section \<open>Connecting\<close>

datatype connectResult = ConnOk | ConnBusy | ConnErr | SockErr

definition btConnectAttempts :: nat where
  "btConnectAttempts = 3"

definition rfcommBusyRetries :: nat where
  "rfcommBusyRetries = 5"

text \<open>
  The Windows loop: sockets opened, sockets closed, and whether one is returned. Attempt \<open>i\<close> ends as \<open>conn i\<close>.
\<close>

fun winDial :: "(nat \<Rightarrow> connectResult) \<Rightarrow> nat \<Rightarrow> nat \<Rightarrow> nat \<times> nat \<times> bool" where
  "winDial conn i 0 = (0, 0, False)"
| "winDial conn i (Suc n) =
     (case conn i of
        SockErr \<Rightarrow> (0, 0, False)
      | ConnOk \<Rightarrow> (1, 0, True)
      | _ \<Rightarrow> (case winDial conn (i + 1) n of (opened, closed, ok) \<Rightarrow> (opened + 1, closed + 1, ok)))"

text \<open>The FreeBSD loop retries only a busy device.\<close>

fun bsdDial :: "(nat \<Rightarrow> connectResult) \<Rightarrow> nat \<Rightarrow> nat \<Rightarrow> nat \<times> nat \<times> bool" where
  "bsdDial conn i n =
     (case conn i of
        SockErr \<Rightarrow> (0, 0, False)
      | ConnOk \<Rightarrow> (1, 0, True)
      | ConnErr \<Rightarrow> (1, 1, False)
      | ConnBusy \<Rightarrow>
          (case n of 0 \<Rightarrow> (1, 1, False)
           | Suc m \<Rightarrow> (case bsdDial conn (i + 1) m of (opened, closed, ok) \<Rightarrow> (opened + 1, closed + 1, ok))))"

declare bsdDial.simps [simp del]

section \<open>Linux: a send queue that does not drain\<close>

definition txStallTimeout :: int where
  "txStallTimeout = 30 * 10 ^ 9"

definition observe :: "int option \<Rightarrow> int \<Rightarrow> int \<Rightarrow> int option \<times> int" where
  "observe since depth t =
     (if depth \<le> 0 then (None, 0) else (case since of None \<Rightarrow> (Some t, 0) | Some t0 \<Rightarrow> (since, t - t0)))"

text \<open>The depth from the size and the free space of the send buffer.\<close>

definition txQueueDepth :: "int \<Rightarrow> int \<Rightarrow> int" where
  "txQueueDepth sndbuf free = (if sndbuf - free > 0 then sndbuf - free else 0)"

text \<open>A depth of \<open>None\<close> is a query that failed.\<close>

definition checkTXDrain :: "int option \<Rightarrow> int option \<Rightarrow> int \<Rightarrow> int option \<times> bool" where
  "checkTXDrain since depth t =
     (case depth of None \<Rightarrow> (since, False) | Some d \<Rightarrow> (case observe since d t of (s, stalled) \<Rightarrow> (s, stalled \<ge> txStallTimeout)))"

fun drainRun :: "int option \<Rightarrow> (int option \<times> int) list \<Rightarrow> int option \<times> bool" where
  "drainRun since [] = (since, False)"
| "drainRun since [(d, t)] = checkTXDrain since d t"
| "drainRun since ((d, t) # xs) = drainRun (fst (checkTXDrain since d t)) xs"

section \<open>Linux: handing over a connected socket\<close>

text \<open>
  \<open>pendingMap\<close> holds the channel on which \<open>Open\<close> of a device waits. A channel is a number; \<open>chans\<close> is what was sent on it and
  \<open>waitingOn\<close> are the channels an \<open>Open\<close> still reads. \<open>taken\<close> and \<open>fdClosed\<close> are the descriptors a transport owns and those that were closed.
\<close>

record 'p handover =
  pendingMap :: "('p \<times> nat) list"
  delivering :: "(nat \<times> int) list"
  chans :: "nat \<Rightarrow> int option"
  waitingOn :: "('p \<times> nat) list"
  nchan :: nat
  taken :: "int list"
  fdClosed :: "int list"

definition noHandover :: "'p handover" where
  "noHandover = \<lparr>pendingMap = [], delivering = [], chans = Map.empty, waitingOn = [], nchan = 0, taken = [], fdClosed = []\<rparr>"

definition registerPending :: "'p \<Rightarrow> 'p handover \<Rightarrow> 'p handover" where
  "registerPending path h =
     h\<lparr>pendingMap := AList.update path (nchan h) (pendingMap h), waitingOn := waitingOn h @ [(path, nchan h)], nchan := nchan h + 1\<rparr>"

definition removePending :: "'p \<Rightarrow> 'p handover \<Rightarrow> 'p handover" where
  "removePending path h = h\<lparr>pendingMap := AList.delete path (pendingMap h)\<rparr>"

text \<open>\<open>NewConnection\<close>: \<open>lookupPending\<close> takes the channel out of the map; the send comes later.\<close>

definition newConnection :: "'p \<Rightarrow> int \<Rightarrow> 'p handover \<Rightarrow> 'p handover" where
  "newConnection path fd h =
     (case map_of (pendingMap h) path of
        None \<Rightarrow> h\<lparr>fdClosed := fdClosed h @ [fd]\<rparr>
      | Some ch \<Rightarrow> (removePending path h)\<lparr>delivering := delivering h @ [(ch, fd)]\<rparr>)"

definition deliverFd :: "nat \<Rightarrow> int \<Rightarrow> 'p handover \<Rightarrow> 'p handover" where
  "deliverFd ch fd h =
     (let h = h\<lparr>delivering := remove1 (ch, fd) (delivering h)\<rparr>
      in if chans h ch = None then h\<lparr>chans := (chans h)(ch \<mapsto> fd)\<rparr> else h\<lparr>fdClosed := fdClosed h @ [fd]\<rparr>)"

text \<open>The two ends of the wait in \<open>Open\<close>: the descriptor, or an error or the timeout.\<close>

definition openTakes :: "'p \<Rightarrow> nat \<Rightarrow> int \<Rightarrow> 'p handover \<Rightarrow> 'p handover" where
  "openTakes path ch fd h = h\<lparr>waitingOn := removeAll (path, ch) (waitingOn h), chans := (chans h)(ch := None), taken := taken h @ [fd]\<rparr>"

definition openGivesUp :: "'p \<Rightarrow> nat \<Rightarrow> 'p handover \<Rightarrow> 'p handover" where
  "openGivesUp path ch h = removePending path (h\<lparr>waitingOn := removeAll (path, ch) (waitingOn h)\<rparr>)"

section \<open>Chunks\<close>

lemma chunkLoop_facts:
  assumes "0 < m" "b \<noteq> []"
  shows "concat (chunkLoop m b) = b \<and> (\<forall>c\<in>set (chunkLoop m b). c \<noteq> [] \<and> length c \<le> m)"
  using assms
proof (induction m b rule: chunkLoop.induct)
  case (1 m b)
  show ?case
  proof (cases "length b > m")
    case True
    then have "drop m b \<noteq> []" by simp
    then have "concat (chunkLoop m (drop m b)) = drop m b \<and> (\<forall>c\<in>set (chunkLoop m (drop m b)). c \<noteq> [] \<and> length c \<le> m)"
      using 1(1) [OF conjI [OF 1(2) True] 1(2)] by blast
    moreover have "chunkLoop m b = take m b # chunkLoop m (drop m b)" using 1(2) True by (subst chunkLoop.simps) simp
    ultimately show ?thesis using 1(2,3) by auto
  next
    case False
    then have "chunkLoop m b = [b]" by (subst chunkLoop.simps) simp
    then show ?thesis using 1(3) False by simp
  qed
qed

lemma chunkForMTU_concat: "concat (chunkForMTU b mtu) = b"
  using chunkLoop_facts [of "chunkSize mtu" b] by (simp add: chunkForMTU_def)

lemma chunkForMTU_size: "c \<in> set (chunkForMTU b mtu) \<Longrightarrow> c \<noteq> [] \<and> length c \<le> chunkSize mtu"
  using chunkLoop_facts [of "chunkSize mtu" b] by (auto simp: chunkForMTU_def split: if_splits)

lemma writeChunks_prefix:
  "writeChunks cs acks n sent = (n', ok, sent') \<Longrightarrow> n = length sent \<Longrightarrow>
     n' = length sent' \<and> (\<exists>k. sent' = sent @ concat (take k cs)) \<and> (ok \<longrightarrow> sent' = sent @ concat cs)"
proof (induction cs acks n sent rule: writeChunks.induct)
  case (3 c cs a acks n sent)
  show ?case
  proof (cases a)
    case True
    then obtain k where "n' = length sent'" "sent' = (sent @ c) @ concat (take k cs)" "ok \<longrightarrow> sent' = (sent @ c) @ concat cs"
      using 3 by auto
    then show ?thesis by (auto intro: exI [of _ "Suc k"])
  qed (use 3 in \<open>auto intro: exI [of _ 0]\<close>)
qed (auto intro: exI [of _ 0])

text \<open>A write reports exactly how much was acknowledged, and success only for all of it.\<close>

lemma bleWrite_reports:
  assumes "bleWrite op mtu p acks = (n, ok, sent)"
  shows "n = length sent \<and> sent = take n p \<and> (ok \<longrightarrow> sent = p)"
proof (cases op)
  case True
  then have w: "writeChunks (chunkForMTU p mtu) acks 0 [] = (n, ok, sent)" using assms by (simp add: bleWrite_def)
  obtain k where k: "n = length sent" "sent = concat (take k (chunkForMTU p mtu))" "ok \<longrightarrow> sent = concat (chunkForMTU p mtu)"
    using writeChunks_prefix [OF w] by auto
  have "p = concat (take k (chunkForMTU p mtu)) @ concat (drop k (chunkForMTU p mtu))"
    using chunkForMTU_concat [of p mtu] by (metis append_take_drop_id concat_append)
  then have "take n p = sent" unfolding k(1,2) by (metis append_eq_conv_conj)
  then show ?thesis using k by (simp add: chunkForMTU_concat)
qed (use assms in \<open>auto simp: bleWrite_def\<close>)

section \<open>The stream read is the stream notified\<close>

lemma take_drop_append: "take n x @ drop n x @ y = x @ y"
  by (simp flip: append_assoc)

lemma bleRun_stream:
  assumes "bleRun es (b, acc, got) = (b', acc', got')" "acc = got @ leftover b @ concat (rxCh b)" "length (rxCh b) \<le> bleRXQueue"
  shows "acc' = got' @ leftover b' @ concat (rxCh b') \<and> length (rxCh b') \<le> bleRXQueue"
  using assms
proof (induction es "(b, acc, got)" arbitrary: b acc got rule: bleRun.induct)
  case (2 d sel es b acc got)
  obtain c ok where n: "bleNotify d sel b = (c, ok)" by (cases "bleNotify d sel b")
  have "(if ok then acc @ d else acc) = got @ leftover c @ concat (rxCh c)" "length (rxCh c) \<le> bleRXQueue"
    using n 2(3,4) by (auto simp: bleNotify_def split: if_splits)
  then show ?case using 2(1) [OF n [symmetric]] 2(2) n by simp
next
  case (3 n sel es b acc got)
  obtain c r where n: "bleRead n sel b = (c, r)" by (cases "bleRead n sel b")
  have "acc = (case r of Bytes x \<Rightarrow> got @ x | _ \<Rightarrow> got) @ leftover c @ concat (rxCh c)" "length (rxCh c) \<le> bleRXQueue"
    using n 3(3,4) by (auto simp: bleRead_def take_drop_append split: if_splits list.splits)
  then show ?case using 3(1) [OF n [symmetric]] 3(2) n by simp
qed (auto simp: bleClose_def)

section \<open>Loops that end\<close>

lemma winWrite_all: "winWrite send i n t = (t', True) \<Longrightarrow> t \<le> n \<Longrightarrow> n \<le> t'"
proof (induction send i n t rule: winWrite.induct)
  case (1 send i n t)
  show ?case
  proof (cases "t < n")
    case True
    then obtain k where k: "send i = Sent k" "k \<noteq> 0" "winWrite send (i + 1) n (t + k) = (t', True)"
      using 1(2) by (subst (asm) winWrite.simps) (auto split: sendResult.splits if_splits)
    show ?thesis
    proof (cases "t + k \<le> n")
      case False
      then have "t' = t + k" using k(3) by (subst (asm) winWrite.simps) simp
      then show ?thesis using False by simp
    qed (use 1(1) [OF True k(1,2)] k(3) in simp)
  next
    case False
    then show ?thesis using 1(2,3) by (subst (asm) winWrite.simps) simp
  qed
qed

lemma winDial_bounds: "winDial conn i n = (op, cl, ok) \<Longrightarrow> op \<le> n \<and> op = cl + (if ok then 1 else 0)"
  by (induction conn i n arbitrary: op cl ok rule: winDial.induct) (fastforce split: connectResult.splits prod.splits)+

lemma bsdDial_bounds: "bsdDial conn i n = (op, cl, ok) \<Longrightarrow> op \<le> n + 1 \<and> op = cl + (if ok then 1 else 0)"
proof (induction conn i n arbitrary: op cl ok rule: bsdDial.induct)
  case (1 conn i n)
  then show ?case
    by (subst (asm) (2) bsdDial.simps) (fastforce split: connectResult.splits prod.splits nat.splits)
qed

section \<open>A stall is thirty seconds of backlog\<close>

definition backedUp :: "int option \<times> int \<Rightarrow> bool" where
  "backedUp x \<longleftrightarrow> (case fst x of None \<Rightarrow> True | Some d \<Rightarrow> d > 0)"

lemma drainRun_stalled:
  assumes "drainRun since xs = (s, True)"
  shows "(\<exists>t0. since = Some t0 \<and> list_all backedUp xs \<and> snd (last xs) - t0 \<ge> txStallTimeout)
    \<or> (\<exists>ys d t zs. xs = ys @ (Some d, t) # zs \<and> d > 0 \<and> zs \<noteq> [] \<and> list_all backedUp zs \<and> snd (last zs) - t \<ge> txStallTimeout)"
  using assms
proof (induction since xs rule: drainRun.induct)
  case (2 since d t)
  then show ?case
    by (auto simp: checkTXDrain_def observe_def backedUp_def txStallTimeout_def split: option.splits if_splits)
next
  case (3 since d t x xs)
  let ?since = "fst (checkTXDrain since d t)" and ?xs = "x # xs"
  from 3(1) 3(2) consider
      (old) t0 where "?since = Some t0" "list_all backedUp ?xs" "snd (last ?xs) - t0 \<ge> txStallTimeout"
    | (later) ys e u zs where "?xs = ys @ (Some e, u) # zs" "e > 0" "zs \<noteq> []" "list_all backedUp zs" "snd (last zs) - u \<ge> txStallTimeout"
    by fastforce
  then show ?case
  proof cases
    case old
    show ?thesis
    proof (cases "since = Some t0")
      case True
      then have "backedUp (d, t)"
        using old(1) by (auto simp: checkTXDrain_def observe_def backedUp_def split: option.splits if_splits)
      then show ?thesis using True old(2,3) by simp
    next
      case False
      then obtain e where "d = Some e" "e > 0" "t0 = t"
        using old(1) by (auto simp: checkTXDrain_def observe_def split: option.splits if_splits)
      then have "(d, t) # ?xs = [] @ (Some e, t) # ?xs" "e > 0" "snd (last ?xs) - t \<ge> txStallTimeout" using old(3) by simp_all
      then show ?thesis using old(2) by blast
    qed
  next
    case later
    then have "(d, t) # ?xs = ((d, t) # ys) @ (Some e, u) # zs" by simp
    then show ?thesis using later(2-5) by blast
  qed
qed simp

section \<open>A socket that is lost\<close>

inductive ho_step :: "'p handover \<Rightarrow> 'p handover \<Rightarrow> bool" where
  openStarts: "ho_step h (registerPending path h)"
| connected: "ho_step h (newConnection path fd h)"
| delivers: "(ch, fd) \<in> set (delivering h) \<Longrightarrow> ho_step h (deliverFd ch fd h)"
| takes: "\<lbrakk>(path, ch) \<in> set (waitingOn h); chans h ch = Some fd\<rbrakk> \<Longrightarrow> ho_step h (openTakes path ch fd h)"
| givesUp: "(path, ch) \<in> set (waitingOn h) \<Longrightarrow> ho_step h (openGivesUp path ch h)"

text \<open>A descriptor in a channel that no \<open>Open\<close> reads any more is there for good, open and unread.\<close>

definition lostIn :: "'p handover \<Rightarrow> nat \<Rightarrow> int \<Rightarrow> bool" where
  "lostIn h ch fd \<longleftrightarrow> chans h ch = Some fd \<and> ch < nchan h \<and> (\<forall>path. (path, ch) \<notin> set (waitingOn h))"

lemma lost_step: "ho_step h h' \<Longrightarrow> lostIn h ch fd \<Longrightarrow> lostIn h' ch fd"
  by (induction rule: ho_step.induct)
    (auto simp: lostIn_def registerPending_def newConnection_def removePending_def deliverFd_def openTakes_def openGivesUp_def
      Let_def split: option.splits)

lemma lost_steps_stay:
  assumes "ho_step\<^sup>*\<^sup>* h h'" "lostIn h ch fd"
  shows "lostIn h' ch fd"
  using assms by (induction rule: rtranclp_induct) (auto intro: lost_step)

text \<open>
  The wait times out between the moment \<open>NewConnection\<close> takes the channel out of the map and its send.
\<close>

lemma timed_out_socket_lost:
  "\<exists>h :: 'p handover. ho_step\<^sup>*\<^sup>* noHandover h \<and> lostIn h 0 fd \<and> fd \<notin> set (taken h) \<and> fd \<notin> set (fdClosed h)"
proof -
  fix p :: 'p
  let ?a = "registerPending p (noHandover :: 'p handover)"
  let ?b = "newConnection p fd ?a"
  let ?c = "openGivesUp p 0 ?b"
  let ?d = "deliverFd 0 fd ?c"
  have "ho_step noHandover ?a" "ho_step ?a ?b" by (rule openStarts, rule connected)
  moreover have "ho_step ?b ?c"
    by (rule givesUp) (simp add: newConnection_def registerPending_def removePending_def noHandover_def)
  moreover have "ho_step ?c ?d"
    by (rule delivers) (simp add: openGivesUp_def newConnection_def registerPending_def removePending_def noHandover_def)
  ultimately have "ho_step\<^sup>*\<^sup>* noHandover ?d" by (meson rtranclp.rtrancl_into_rtrancl rtranclp.rtrancl_refl)
  moreover have "lostIn ?d 0 fd" "fd \<notin> set (taken ?d)" "fd \<notin> set (fdClosed ?d)"
    by (simp_all add: lostIn_def deliverFd_def openGivesUp_def newConnection_def registerPending_def removePending_def
        noHandover_def Let_def)
  ultimately show ?thesis by blast
qed

end
