(* ===== verification/Serial_Port.thy ===== *)
theory Serial_Port
  imports Config
begin

text \<open>
  Serial ports: references to devices (\<^verbatim>\<open>src/internal/ports/ports.go\<close>) and the serial transport
  (\<^verbatim>\<open>src/kiss/serial.go\<close>).

  What the operating system and the TNC do is an argument: the list of attached devices, the results of the
  calls that open a device, and for the open device what its reads will deliver and whether its writes succeed.
  \<open>fold\<close> is what Go's \<open>strings.ToLower\<close> and \<open>strings.EqualFold\<close> do to text that is not ASCII. Sleeping and
  log output are left out.
\<close>

section \<open>Case folding\<close>

record folding =
  fToLower :: "string \<Rightarrow> string"
  fEqualFold :: "string \<Rightarrow> string \<Rightarrow> bool"

definition ToLower :: "folding \<Rightarrow> string \<Rightarrow> string" where
  "ToLower fo s = (if ascii s then map lower_char s else fToLower fo s)"

definition EqualFold :: "folding \<Rightarrow> string \<Rightarrow> string \<Rightarrow> bool" where
  "EqualFold fo s t \<longleftrightarrow> (if ascii s \<and> ascii t then map lower_char s = map lower_char t else fEqualFold fo s t)"

section \<open>Device references\<close>

record portDetail =
  pdName :: string
  IsUSB :: bool
  pdVID :: string
  pdPID :: string
  pdSerial :: string
  Product :: string

record listedPort =
  lpRef :: string
  lpLabel :: string
  lpKind :: string
  lpDevice :: string
  lpVID :: string
  lpPID :: string
  lpSerial :: string

datatype ports_error = EnumerateFailed | BadUSBRef string | NoUSBPort string | AmbiguousUSBPort string "string list"

definition usbRef :: "string \<Rightarrow> string \<Rightarrow> string \<Rightarrow> string" where
  "usbRef vid pid ser = ''usb:'' @ vid @ '':'' @ pid @ (if ser \<noteq> [] then '':'' @ ser else [])"

fun contains :: "string \<Rightarrow> string \<Rightarrow> bool" where
  "contains [] t \<longleftrightarrow> t = []"
| "contains (c # s) t \<longleftrightarrow> take (length t) (c # s) = t \<or> contains s t"

text \<open>One entry of \<open>List\<close>.\<close>

definition listEntry :: "folding \<Rightarrow> portDetail \<Rightarrow> listedPort" where
  "listEntry fo d =
     (let p = \<lparr>lpRef = [], lpLabel = [], lpKind = ''serial'', lpDevice = pdName d, lpVID = [], lpPID = [], lpSerial = []\<rparr>
      in if IsUSB d \<and> pdVID d \<noteq> [] \<and> pdPID d \<noteq> [] then
           (let vid = ToLower fo (pdVID d); pid = ToLower fo (pdPID d);
                name = (if Product d = [] then ''USB serial'' else Product d)
            in p\<lparr>lpVID := vid, lpPID := pid, lpSerial := pdSerial d, lpRef := usbRef vid pid (pdSerial d),
                 lpLabel := (if contains name (pdName d) then ''USB: '' @ name
                           else ''USB: '' @ name @ '' ('' @ pdName d @ '')'')\<rparr>)
         else p\<lparr>lpRef := pdName d, lpLabel := ''Serial: '' @ pdName d\<rparr>)"

text \<open>\<open>List\<close>: \<open>srt\<close> sorts by device, \<open>bt\<close> are the known Bluetooth devices.\<close>

definition ListPorts ::
  "folding \<Rightarrow> (listedPort list \<Rightarrow> listedPort list) \<Rightarrow> listedPort list \<Rightarrow> portDetail list option \<Rightarrow> ports_error + listedPort list" where
  "ListPorts fo srt bt ds =
     (case ds of None \<Rightarrow> Inl EnumerateFailed | Some ds \<Rightarrow> Inr (srt (map (listEntry fo) ds) @ bt))"

text \<open>\<open>strings.SplitN(s, ":", 3)\<close>.\<close>

fun splitN :: "nat \<Rightarrow> char \<Rightarrow> string \<Rightarrow> string list" where
  "splitN 0 c s = []"
| "splitN (Suc 0) c s = [s]"
| "splitN (Suc (Suc n)) c s =
     (if c \<in> set s then takeWhile (\<lambda>x. x \<noteq> c) s # splitN (Suc n) c (tl (dropWhile (\<lambda>x. x \<noteq> c) s)) else [s])"

definition parseUSBRef :: "string \<Rightarrow> ports_error + string \<times> string \<times> string" where
  "parseUSBRef ref =
     (let body = (if take 4 ref = ''usb:'' then drop 4 ref else ref)
      in case splitN 3 (CHR '':'') body of
           [v, p] \<Rightarrow> if v = [] \<or> p = [] then Inl (BadUSBRef ref) else Inr (v, p, [])
         | [v, p, ser] \<Rightarrow> if v = [] \<or> p = [] \<or> ser = [] then Inl (BadUSBRef ref) else Inr (v, p, ser)
         | _ \<Rightarrow> Inl (BadUSBRef ref))"

definition matchesRef :: "folding \<Rightarrow> string \<Rightarrow> string \<Rightarrow> string \<Rightarrow> portDetail \<Rightarrow> bool" where
  "matchesRef fo vid pid ser d \<longleftrightarrow>
     IsUSB d \<and> EqualFold fo (pdVID d) vid \<and> EqualFold fo (pdPID d) pid \<and> (ser = [] \<or> EqualFold fo (pdSerial d) ser)"

definition Resolve :: "folding \<Rightarrow> portDetail list option \<Rightarrow> string \<Rightarrow> ports_error + string" where
  "Resolve fo ds ref =
     (if take 4 ref \<noteq> ''usb:'' then Inr ref
      else case parseUSBRef ref of
        Inl e \<Rightarrow> Inl e
      | Inr (vid, pid, ser) \<Rightarrow>
          (case ds of
             None \<Rightarrow> Inl EnumerateFailed
           | Some ds \<Rightarrow>
               (case map pdName (filter (matchesRef fo vid pid ser) ds) of
                  [] \<Rightarrow> Inl (NoUSBPort ref)
                | [n] \<Rightarrow> Inr n
                | ns \<Rightarrow> Inl (AmbiguousUSBPort ref ns))))"

section \<open>Opening a serial device\<close>

datatype parity = NoParity | EvenParity | OddParity
datatype stopBits = OneStopBit | OnePointFiveStopBits | TwoStopBits

definition parseParity :: "unicode \<Rightarrow> string \<Rightarrow> parity option" where
  "parseParity u p =
     (let q = ToUpper u p
      in if q = [] \<or> q = ''N'' then Some NoParity else if q = ''E'' then Some EvenParity
         else if q = ''O'' then Some OddParity else None)"

definition parseStopBits :: "rat \<Rightarrow> stopBits option" where
  "parseStopBits sb =
     (if sb = 0 \<or> sb = 1 then Some OneStopBit else if sb = 3 / 2 then Some OnePointFiveStopBits
      else if sb = 2 then Some TwoStopBits else None)"

record SerialConfig =
  scDevice :: string
  scBaud :: int
  scParity :: string
  scStopBits :: rat
  RTSCTS :: bool
  InitString :: string
  SendKISSExit :: bool
  HostExitString :: string

text \<open>What the operating system answers, and what the transport asked of it.\<close>

record osPort =
  osOpen :: "string \<Rightarrow> bool option"
  osTimeout :: bool
  osModem :: bool

datatype lineAct = OpenDev string int parity stopBits | SetDTR bool | SetRTS bool | SetTimeout | ApplyRTSCTS | CloseDev

datatype serial_error = BadParity | BadStopBits | ResolveFailed ports_error | PortBusy | OpenFailed | TimeoutFailed

text \<open>
  \<open>Open\<close>: the actions in order, and the device with the health check, or the error. \<open>osOpen\<close> is \<open>None\<close> for success and
  otherwise says whether the device is busy; \<open>SetDTR\<close>, \<open>SetRTS\<close> and \<open>applyRTSCTS\<close> may fail without effect.
\<close>

definition SerialOpen ::
  "unicode \<Rightarrow> SerialConfig \<Rightarrow> (string \<Rightarrow> ports_error + string) \<Rightarrow> osPort \<Rightarrow> lineAct list \<times> (serial_error + string \<times> bool)" where
  "SerialOpen u sc resolve os =
     (case parseParity u (scParity sc) of
        None \<Rightarrow> ([], Inl BadParity)
      | Some par \<Rightarrow>
          (case parseStopBits (scStopBits sc) of
             None \<Rightarrow> ([], Inl BadStopBits)
           | Some sb \<Rightarrow>
               (case resolve (scDevice sc) of
                  Inl e \<Rightarrow> ([], Inl (ResolveFailed e))
                | Inr dev \<Rightarrow>
                    (case osOpen os dev of
                       Some inUse \<Rightarrow> ([OpenDev dev (scBaud sc) par sb], Inl (if inUse then PortBusy else OpenFailed))
                     | None \<Rightarrow>
                         let acts = [OpenDev dev (scBaud sc) par sb, SetDTR True, SetRTS (RTSCTS sc), SetTimeout]
                         in if \<not> osTimeout os then (acts @ [CloseDev], Inl TimeoutFailed)
                            else (acts @ (if RTSCTS sc then [ApplyRTSCTS] else []), Inr (dev, osModem os))))))"

text \<open>
  \<open>Read\<close>: an empty read without an error asks for the modem status, at most once per interval, and reports
  a device that no longer answers. The result is the bytes, or the error, and the new time of the last check.
\<close>

definition SerialRead :: "bool \<Rightarrow> int \<Rightarrow> int \<Rightarrow> int \<Rightarrow> bool \<times> bytes \<Rightarrow> bool \<Rightarrow> int \<times> (bool \<times> bytes)" where
  "SerialRead healthCheck interval lastHealth clock rd modemOk =
     (case rd of (err, b) \<Rightarrow>
        if err \<or> b \<noteq> [] then (lastHealth, (err, b))
        else if healthCheck \<and> clock - lastHealth \<ge> interval then (clock, (\<not> modemOk, []))
        else (lastHealth, (False, [])))"

section \<open>Entering and leaving KISS mode\<close>

text \<open>The open device: what its reads will deliver, whether its writes succeed, and what was written.\<close>

record sport =
  rdq :: "bytes list"
  wrq :: "bool list"
  wlog :: "bytes list"

definition portRead :: "nat \<Rightarrow> sport \<Rightarrow> sport \<times> bytes" where
  "portRead n s =
     (case rdq s of
        [] \<Rightarrow> (s, [])
      | r # rs \<Rightarrow> (s\<lparr>rdq := (if length r > n then drop n r # rs else rs)\<rparr>, take n r))"

definition portWrite :: "bytes \<Rightarrow> sport \<Rightarrow> sport \<times> bool" where
  "portWrite b s =
     (case wrq s of
        [] \<Rightarrow> (s\<lparr>wlog := wlog s @ [b]\<rparr>, True)
      | ok # ws \<Rightarrow> (s\<lparr>wrq := ws, wlog := (if ok then wlog s @ [b] else wlog s)\<rparr>, ok))"

definition rdPending :: "sport \<Rightarrow> nat" where
  "rdPending s = sum_list (map (\<lambda>r. length r + 1) (rdq s))"

lemma portRead_pending: "portRead n s = (s', b) \<Longrightarrow> b \<noteq> [] \<Longrightarrow> rdPending s' < rdPending s"
  by (auto simp: portRead_def rdPending_def split: list.splits if_splits)

text \<open>The loop that drains what is pending.\<close>

function drainInput :: "sport \<Rightarrow> sport" where
  "drainInput s = (case portRead 256 s of (s', b) \<Rightarrow> if b = [] then s' else drainInput s')"
  by pat_completeness auto
termination
  by (relation "measure rdPending") (auto dest: portRead_pending [OF sym])

declare drainInput.simps [simp del]

definition isSpaceByte :: "byte \<Rightarrow> bool" where
  "isSpaceByte c \<longleftrightarrow> c \<in> {32, 9, 13, 10, 12, 11}"

definition trimSpaceBytes :: "bytes \<Rightarrow> bytes" where
  "trimSpaceBytes b = rev (dropWhile isSpaceByte (rev (dropWhile isSpaceByte b)))"

text \<open>What a response to the probe means: in command mode, and whether there was one.\<close>

definition classify :: "bytes \<Rightarrow> bool \<times> bool" where
  "classify resp =
     (if resp = [] then (False, False)
      else let filtered = trimSpaceBytes (filter (\<lambda>b. b \<noteq> 0xC0 \<and> b \<noteq> 0x00) resp)
           in if filtered = [] then (False, True)
              else if list_all (\<lambda>b. 0x20 \<le> b \<and> b < 0x7F \<or> b = 0x0A \<or> b = 0x0D) filtered then (True, True)
              else (False, True))"

definition probeCommandMode :: "sport \<Rightarrow> sport \<times> bool \<times> bool" where
  "probeCommandMode s =
     (let s = drainInput s; (s, _) = portWrite [0x0D] s; (s, resp) = portRead 1024 s in (s, classify resp))"

text \<open>\<open>strings.ReplaceAll\<close> of a backslash and a letter, and \<open>strings.Split\<close> at a backslash and an \<open>n\<close>.\<close>

fun replaceEsc :: "char \<Rightarrow> char \<Rightarrow> string \<Rightarrow> string" where
  "replaceEsc x c (a # b # s) =
     (if a = CHR 0x5C \<and> b = x then c # replaceEsc x c s else a # replaceEsc x c (b # s))"
| "replaceEsc x c s = s"

definition resolveEscapes :: "string \<Rightarrow> string" where
  "resolveEscapes s = replaceEsc (CHR ''n'') (CHR 0x0A) (replaceEsc (CHR ''r'') (CHR 0x0D) s)"

fun splitLines :: "string \<Rightarrow> string list" where
  "splitLines (a # b # s) =
     (if a = CHR 0x5C \<and> b = CHR ''n'' then [] # splitLines s
      else (case splitLines (b # s) of [] \<Rightarrow> [[a]] | l # ls \<Rightarrow> (a # l) # ls))"
| "splitLines s = [s]"

fun sendLines :: "string list \<Rightarrow> sport \<Rightarrow> sport \<times> bool" where
  "sendLines [] s = (s, True)"
| "sendLines (l # ls) s =
     (case portWrite (to_bytes (resolveEscapes l)) s of (s, ok) \<Rightarrow> if \<not> ok then (s, False) else sendLines ls s)"

definition sendInit :: "SerialConfig \<Rightarrow> sport \<Rightarrow> sport \<times> bool" where
  "sendInit sc s = sendLines (splitLines (InitString sc)) s"

definition probeAttempts :: nat where
  "probeAttempts = 3"

fun probeLoop :: "nat \<Rightarrow> bool \<Rightarrow> sport \<Rightarrow> sport \<times> bool \<times> bool" where
  "probeLoop 0 saw s = (s, False, saw)"
| "probeLoop (Suc n) saw s =
     (case probeCommandMode s of (s, c, saw') \<Rightarrow> if c then (s, True, saw \<or> saw') else probeLoop n (saw \<or> saw') s)"

datatype enterResult = Entered | InitWriteFailed | StillCommandMode

definition EnterKISS :: "SerialConfig \<Rightarrow> sport \<Rightarrow> sport \<times> enterResult" where
  "EnterKISS sc s =
     (if InitString sc = [] then (s, Entered)
      else case probeLoop probeAttempts False s of (s, inCmd, sawBytes) \<Rightarrow>
        if inCmd then
          (case sendInit sc s of (s, ok) \<Rightarrow>
             if \<not> ok then (s, InitWriteFailed)
             else (case probeCommandMode s of (s, c, _) \<Rightarrow> (s, if c then StillCommandMode else Entered)))
        else if sawBytes then (s, Entered)
        else (case sendInit sc s of (s, ok) \<Rightarrow> (s, if ok then Entered else InitWriteFailed)))"

text \<open>The lines of the host exit string are written whether or not the ones before were.\<close>

fun writeLines :: "string list \<Rightarrow> sport \<Rightarrow> sport" where
  "writeLines [] s = s"
| "writeLines (l # ls) s = writeLines ls (fst (portWrite (to_bytes (resolveEscapes l)) s))"

definition ExitKISS :: "SerialConfig \<Rightarrow> sport \<Rightarrow> sport" where
  "ExitKISS sc s =
     (let s = (if SendKISSExit sc then fst (portWrite [0xC0, 0xFF, 0xC0] s) else s)
      in if HostExitString sc \<noteq> [] then writeLines (splitLines (HostExitString sc)) s else s)"

section \<open>A listed reference resolves\<close>

lemma lower_char_idem [simp]: "lower_char (lower_char c) = lower_char c"
  by (simp add: lower_char_def)

lemma ascii_lower [simp]: "ascii (map lower_char s) = ascii s"
  by (induction s) (auto simp: lower_char_def)

lemma EqualFold_ToLower: "ascii s \<Longrightarrow> EqualFold fo s (ToLower fo s)"
  by (simp add: EqualFold_def ToLower_def)

lemma EqualFold_refl: "ascii s \<Longrightarrow> EqualFold fo s s"
  by (simp add: EqualFold_def)

lemma lower_colon: "lower_char c = CHR '':'' \<longleftrightarrow> c = CHR '':''"
proof (cases "65 \<le> (of_char c :: nat) \<and> (of_char c :: nat) \<le> 90")
  case True
  then have l: "lower_char c = char_of (of_char c + 32 :: nat)" by (simp add: lower_char_def)
  then have "of_char (lower_char c) = (of_char c + 32 :: nat)" using True by simp
  then have "lower_char c \<noteq> CHR '':''" using True by auto
  moreover have "c \<noteq> CHR '':''" using True by auto
  ultimately show ?thesis by simp
qed (auto simp: lower_char_def)

lemma ToLower_colon: "ascii s \<Longrightarrow> CHR '':'' \<in> set (ToLower fo s) \<longleftrightarrow> CHR '':'' \<in> set s"
  by (simp add: ToLower_def) (induction s; auto simp: lower_colon eq_commute [of "CHR '':''"])

lemma cut_at:
  assumes "c \<notin> set v"
  shows "takeWhile (\<lambda>x. x \<noteq> c) (v @ c # p) = v" "tl (dropWhile (\<lambda>x. x \<noteq> c) (v @ c # p)) = p"
  using assms by (induction v) auto

lemma splitN_two: "c \<notin> set v \<Longrightarrow> c \<notin> set p \<Longrightarrow> splitN 3 c (v @ c # p) = [v, p]"
  by (simp add: numeral_3_eq_3 cut_at)

lemma splitN_three: "c \<notin> set v \<Longrightarrow> c \<notin> set p \<Longrightarrow> splitN 3 c (v @ c # p @ c # r) = [v, p, r]"
  by (simp add: numeral_3_eq_3 cut_at)

lemma parse_usbRef:
  assumes "v \<noteq> []" "p \<noteq> []" "CHR '':'' \<notin> set v" "CHR '':'' \<notin> set p"
  shows "parseUSBRef (usbRef v p ser) = Inr (v, p, ser)"
  using assms splitN_two [of "CHR '':''" v p] splitN_three [of "CHR '':''" v p ser]
  by (simp add: parseUSBRef_def usbRef_def Let_def)

text \<open>The attached devices a listed device cannot be told apart from by its reference.\<close>

definition sameIds :: "folding \<Rightarrow> portDetail \<Rightarrow> portDetail \<Rightarrow> bool" where
  "sameIds fo d e \<longleftrightarrow> matchesRef fo (ToLower fo (pdVID d)) (ToLower fo (pdPID d)) (pdSerial d) e"

definition usbDevice :: "portDetail \<Rightarrow> bool" where
  "usbDevice d \<longleftrightarrow> IsUSB d \<and> pdVID d \<noteq> [] \<and> pdPID d \<noteq> [] \<and> ascii (pdVID d @ pdPID d @ pdSerial d)
     \<and> CHR '':'' \<notin> set (pdVID d @ pdPID d)"

lemma sameIds_refl: "usbDevice d \<Longrightarrow> sameIds fo d d"
  by (auto simp: usbDevice_def sameIds_def matchesRef_def EqualFold_ToLower EqualFold_refl)

lemma ToLower_nil [simp]: "ascii s \<Longrightarrow> ToLower fo s = [] \<longleftrightarrow> s = []"
  by (simp add: ToLower_def)

lemma resolve_listed:
  assumes "usbDevice d"
  shows "Resolve fo (Some ds) (lpRef (listEntry fo d)) =
    (case map pdName (filter (sameIds fo d) ds) of
       [] \<Rightarrow> Inl (NoUSBPort (lpRef (listEntry fo d))) | [n] \<Rightarrow> Inr n
     | ns \<Rightarrow> Inl (AmbiguousUSBPort (lpRef (listEntry fo d)) ns))"
proof -
  have r: "lpRef (listEntry fo d) = usbRef (ToLower fo (pdVID d)) (ToLower fo (pdPID d)) (pdSerial d)"
    using assms by (simp add: listEntry_def usbDevice_def Let_def)
  have "parseUSBRef (usbRef (ToLower fo (pdVID d)) (ToLower fo (pdPID d)) (pdSerial d))
      = Inr (ToLower fo (pdVID d), ToLower fo (pdPID d), pdSerial d)"
    using assms by (intro parse_usbRef) (auto simp: usbDevice_def ToLower_colon)
  moreover have "take 4 (usbRef v p r) = ''usb:''" for v p r by (simp add: usbRef_def)
  moreover have "matchesRef fo (ToLower fo (pdVID d)) (ToLower fo (pdPID d)) (pdSerial d) = sameIds fo d"
    by (simp add: sameIds_def fun_eq_iff)
  ultimately show ?thesis unfolding r by (simp add: Resolve_def)
qed

text \<open>A name that is not a reference resolves to itself, whatever is attached.\<close>

lemma resolve_plain: "\<not> (IsUSB d \<and> pdVID d \<noteq> [] \<and> pdPID d \<noteq> []) \<Longrightarrow> take 4 (pdName d) \<noteq> ''usb:'' \<Longrightarrow>
    Resolve fo ds (lpRef (listEntry fo d)) = Inr (pdName d)"
  by (auto simp: listEntry_def Resolve_def Let_def)

section \<open>A validated configuration opens\<close>

lemma parse_iff_valid:
  "parseParity u p \<noteq> None \<longleftrightarrow> ToUpper u p \<in> {[], ''N'', ''E'', ''O''}"
  "parseStopBits b \<noteq> None \<longleftrightarrow> b \<in> {0, 1, 3 / 2, 2}"
  by (auto simp: parseParity_def parseStopBits_def Let_def)

text \<open>The line that may key a transmitter is raised only for hardware flow control, and no error leaves a device open.\<close>

lemma SerialOpen_lines:
  assumes "SerialOpen u sc res os = (acts, x)"
  shows "SetRTS True \<in> set acts \<longrightarrow> RTSCTS sc" "SetDTR False \<notin> set acts"
    and "x = Inl e \<Longrightarrow> acts = [] \<or> last acts = CloseDev \<or> (\<exists>n b p t. acts = [OpenDev n b p t] \<and> osOpen os n \<noteq> None)"
  using assms by (auto simp: SerialOpen_def Let_def split: option.splits sum.splits if_splits)

section \<open>What entering KISS mode writes\<close>

lemma drainInput_keeps: "wlog (drainInput s) = wlog s \<and> wrq (drainInput s) = wrq s"
proof (induction s rule: drainInput.induct)
  case (1 s)
  obtain s' b where r: "portRead 256 s = (s', b)" by (cases "portRead 256 s")
  then have "wlog s' = wlog s" "wrq s' = wrq s" by (auto simp: portRead_def split: list.splits)
  then show ?case using 1 r by (subst (1 2) drainInput.simps) simp
qed

lemma portRead_keeps: "portRead n s = (s', b) \<Longrightarrow> wlog s' = wlog s \<and> wrq s' = wrq s"
  by (auto simp: portRead_def split: list.splits)

lemma probe_writes:
  assumes "probeCommandMode s = (s', c, w)" "wrq s = []"
  shows "wlog s' = wlog s @ [[0x0D]] \<and> wrq s' = []"
  using assms drainInput_keeps [of s]
  by (auto simp: probeCommandMode_def Let_def portWrite_def dest!: portRead_keeps split: prod.splits)

lemma probeLoop_writes:
  assumes "probeLoop n saw s = (s', c, w)" "wrq s = []"
  shows "\<exists>k\<le>n. wlog s' = wlog s @ replicate k [0x0D] \<and> wrq s' = [] \<and> (\<not> c \<longrightarrow> k = n)"
  using assms
proof (induction n saw s rule: probeLoop.induct)
  case (2 n saw s)
  obtain t d v where p: "probeCommandMode s = (t, d, v)" by (cases "probeCommandMode s") auto
  note w = probe_writes [OF p 2(3)]
  show ?case
  proof (cases d)
    case True
    then show ?thesis using 2(2) p w by (intro exI [of _ 1]) auto
  next
    case False
    then obtain k where "k \<le> n" "wlog s' = wlog t @ replicate k [0x0D]" "wrq s' = []" "\<not> c \<longrightarrow> k = n"
      using 2(1) [OF p [symmetric] refl False] 2(2) p w by auto
    then show ?thesis using w by (intro exI [of _ "Suc k"]) auto
  qed
qed auto

lemma sendLines_writes:
  "wrq s = [] \<Longrightarrow> sendLines ls s = (s\<lparr>wlog := wlog s @ map (\<lambda>l. to_bytes (resolveEscapes l)) ls\<rparr>, True)"
  by (induction ls s rule: sendLines.induct) (auto simp: portWrite_def)

text \<open>
  On a line that takes what is written, the commands are sent once, whole and in order, between the probes and the
  check, or not at all because the TNC answered as one in KISS mode does.
\<close>

lemma EnterKISS_writes:
  assumes "EnterKISS sc s = (s', r)" "wrq s = []" "InitString sc \<noteq> []"
  shows "\<exists>n\<le>3. \<exists>m\<le>1.
     wlog s' = wlog s @ replicate n [0x0D] @ map (\<lambda>l. to_bytes (resolveEscapes l)) (splitLines (InitString sc)) @ replicate m [0x0D]
     \<or> r = Entered \<and> n = 3 \<and> wlog s' = wlog s @ replicate n [0x0D]"
proof -
  obtain t c w where l: "probeLoop probeAttempts False s = (t, c, w)" by (cases "probeLoop probeAttempts False s") auto
  obtain n where n: "n \<le> 3" "wlog t = wlog s @ replicate n [0x0D]" "wrq t = []" "\<not> c \<longrightarrow> n = 3"
    using probeLoop_writes [OF l assms(2)] by (auto simp: probeAttempts_def)
  let ?L = "map (\<lambda>l. to_bytes (resolveEscapes l)) (splitLines (InitString sc))"
  have i: "sendInit sc t = (t\<lparr>wlog := wlog t @ ?L\<rparr>, True)" unfolding sendInit_def by (rule sendLines_writes [OF n(3)])
  show ?thesis
  proof (cases c)
    case True
    obtain v d x where p: "probeCommandMode (t\<lparr>wlog := wlog t @ ?L\<rparr>) = (v, d, x)" by (cases "probeCommandMode (t\<lparr>wlog := wlog t @ ?L\<rparr>)") auto
    have "wlog s' = wlog s @ replicate n [0x0D] @ ?L @ replicate 1 [0x0D]"
      using assms(1,3) True l i p probe_writes [OF p] n(2,3) by (simp add: EnterKISS_def)
    then show ?thesis using n(1) by blast
  next
    case False
    then have "wlog s' = wlog s @ replicate n [0x0D] @ ?L @ replicate 0 [0x0D] \<or> r = Entered \<and> wlog s' = wlog s @ replicate n [0x0D]"
      using assms(1,3) l i n(2) by (auto simp: EnterKISS_def split: if_splits)
    then show ?thesis using n(1,4) False by blast
  qed
qed

end
