(* ===== verification/Api.thy ===== *)
theory Api
  imports Serial_Port
begin

text \<open>
  The monitoring API (\<^verbatim>\<open>src/internal/frontend/api/server.go\<close>, \<^verbatim>\<open>encode.go\<close>): the guard on host names, the one request
  that changes the daemon, the clients of the event stream and the body of a frame event.

  A request is its host, method, path and the two headers that are read. HTTP itself, JSON and the page are not
  modelled; \<open>urlHost\<close> is the host that \<open>url.Parse\<close> finds in an origin, if it parses.
\<close>

section \<open>Requests\<close>

record apiRequest =
  rqHost :: string
  rqMethod :: string
  rqPath :: string
  rqRequestedWith :: string
  rqOrigin :: string

datatype apiResponse =
    StatusBody "PortStatus list"
  | ConnectionsBody "ConnInfo list"
  | Reconnecting int
  | NotFound
  | MethodNotAllowed
  | Forbidden
  | BadRequest
  | Conflict
  | OtherPage

definition hostOnly :: "string \<Rightarrow> string" where
  "hostOnly h =
     (case SplitHostPort h of
        Some host \<Rightarrow> host
      | None \<Rightarrow>
          let h = (if h \<noteq> [] \<and> hd h = CHR ''['' then tl h else h)
          in if h \<noteq> [] \<and> List.last h = CHR '']'' then butlast h else h)"

definition hostNames :: "folding \<Rightarrow> string list \<Rightarrow> string list" where
  "hostNames fo hosts = ''localhost'' # map (\<lambda>h. ToLower fo (hostOnly h)) hosts"

definition hostGuard :: "folding \<Rightarrow> string list \<Rightarrow> string \<Rightarrow> bool" where
  "hostGuard fo hosts host \<longleftrightarrow>
     (let h = ToLower fo (hostOnly host) in ParseAddr h \<noteq> None \<or> h \<in> set (hostNames fo hosts))"

definition handlePortAction ::
  "folding \<Rightarrow> (string \<Rightarrow> string option) \<Rightarrow> (ref list \<Rightarrow> ref list) \<Rightarrow> int \<Rightarrow> apiRequest \<Rightarrow> bridge \<Rightarrow> bridge \<times> apiResponse" where
  "handlePortAction fo urlHost ord clk rq b =
     (let parts = splitOn (CHR ''/'') (drop 11 (rqPath rq))
      in if length parts \<noteq> 2 \<or> parts ! 1 \<noteq> ''reconnect'' then (b, NotFound)
         else if rqMethod rq \<noteq> ''POST'' then (b, MethodNotAllowed)
         else if rqRequestedWith rq \<noteq> ''tncd'' then (b, Forbidden)
         else if rqOrigin rq \<noteq> [] \<and> (case urlHost (rqOrigin rq) of None \<Rightarrow> True | Some h \<Rightarrow> \<not> EqualFold fo h (rqHost rq))
         then (b, Forbidden)
         else (case Atoi (parts ! 0) of
                 None \<Rightarrow> (b, BadRequest)
               | Some p \<Rightarrow>
                   if p < 0 then (b, BadRequest)
                   else (case ReconnectPort ord clk b p of (ok, b) \<Rightarrow> (b, if ok then Reconnecting p else Conflict))))"

text \<open>The handlers behind the guard, for a path the multiplexer has cleaned.\<close>

definition serveRequest ::
  "folding \<Rightarrow> string list \<Rightarrow> (string \<Rightarrow> string option) \<Rightarrow> (ref list \<Rightarrow> ref list) \<Rightarrow> int \<Rightarrow> apiRequest \<Rightarrow> bridge \<Rightarrow> bridge \<times> apiResponse" where
  "serveRequest fo hosts urlHost ord clk rq b =
     (if \<not> hostGuard fo hosts (rqHost rq) then (b, Forbidden)
      else if rqPath rq = ''/api/status'' then (b, StatusBody (StatusPorts b))
      else if rqPath rq = ''/api/connections'' then (b, ConnectionsBody (Snapshot ord (l2 b)))
      else if take 11 (rqPath rq) = ''/api/ports/'' then handlePortAction fo urlHost ord clk rq b
      else (b, OtherPage))"

section \<open>The event stream\<close>

text \<open>A client is a number with the messages queued for it.\<close>

record sseServer =
  sseMax :: int
  sseClients :: "(nat \<times> string list) list"

definition sseQueue :: nat where
  "sseQueue = 256"

definition sseAdmit :: "nat \<Rightarrow> sseServer \<Rightarrow> sseServer \<times> bool" where
  "sseAdmit c s =
     (if sseMax s > 0 \<and> int (length (sseClients s)) \<ge> sseMax s then (s, False)
      else (s\<lparr>sseClients := sseClients s @ [(c, [])]\<rparr>, True))"

definition sseLeave :: "nat \<Rightarrow> sseServer \<Rightarrow> sseServer" where
  "sseLeave c s = s\<lparr>sseClients := filter (\<lambda>x. fst x \<noteq> c) (sseClients s)\<rparr>"

definition push :: "string \<Rightarrow> string \<Rightarrow> sseServer \<Rightarrow> sseServer" where
  "push ev data s =
     (let msg = ''event: '' @ ev @ [CHR 0x0A] @ ''data: '' @ data @ [CHR 0x0A, CHR 0x0A]
      in s\<lparr>sseClients := map (\<lambda>(c, q). (c, if length q < sseQueue then q @ [msg] else q)) (sseClients s)\<rparr>)"

text \<open>The loop of a handler takes one message.\<close>

definition sseTake :: "nat \<Rightarrow> sseServer \<Rightarrow> sseServer" where
  "sseTake c s = s\<lparr>sseClients := map (\<lambda>(d, q). (d, if d = c then tl q else q)) (sseClients s)\<rparr>"

definition sseClose :: "sseServer \<Rightarrow> sseServer" where
  "sseClose s = s\<lparr>sseClients := []\<rparr>"

inductive sse_step :: "sseServer \<Rightarrow> sseServer \<Rightarrow> bool" where
  admit: "c \<notin> fst ` set (sseClients s) \<Longrightarrow> sse_step s (fst (sseAdmit c s))"
| leave: "sse_step s (sseLeave c s)"
| push: "sse_step s (push ev data s)"
| take: "sse_step s (sseTake c s)"
| close: "sse_step s (sseClose s)"

definition sse_inv :: "sseServer \<Rightarrow> bool" where
  "sse_inv s \<longleftrightarrow> distinct (map fst (sseClients s)) \<and> (\<forall>x\<in>set (sseClients s). length (snd x) \<le> sseQueue)
     \<and> (sseMax s > 0 \<longrightarrow> int (length (sseClients s)) \<le> sseMax s)"

section \<open>Frame events\<close>

definition b64char :: "nat \<Rightarrow> char" where
  "b64char n = ''ABCDEFGHIJKLMNOPQRSTUVWXYZabcdefghijklmnopqrstuvwxyz0123456789+/'' ! n"

definition b64group :: "nat \<Rightarrow> string" where
  "b64group x = map b64char [x div 262144 mod 64, x div 4096 mod 64, x div 64 mod 64, x mod 64]"

text \<open>\<open>base64.StdEncoding.EncodeToString\<close>.\<close>

fun base64 :: "bytes \<Rightarrow> string" where
  "base64 (a # b # c # s) = b64group (unat a * 65536 + unat b * 256 + unat c) @ base64 s"
| "base64 [a, b] = take 3 (b64group (unat a * 65536 + unat b * 256)) @ ''=''"
| "base64 [a] = take 2 (b64group (unat a * 65536)) @ ''==''"
| "base64 [] = []"

record frameEvent =
  fePort :: int
  feFrom :: string
  feTo :: string
  feType :: string
  fePID :: "u8 option"
  feLen :: nat
  feVia :: "string list"
  feData :: string

definition encodeFrame :: "int \<Rightarrow> frame \<Rightarrow> frameEvent" where
  "encodeFrame port f =
     (let info = (Type f = I \<or> Type f = UI)
      in \<lparr>fePort = port, feFrom = addr_String (Src f), feTo = addr_String (Dst f), feType = FrameType_String (Type f),
          fePID = (if info then Some (PID f) else None), feLen = length (Info f), feVia = map addr_String (Via f),
          feData = (if info then base64 (Info f) else [])\<rparr>)"

section \<open>What the guards guarantee\<close>

lemma splitOn_nonempty: "splitOn c s \<noteq> []"
  by (cases s) (auto split: list.splits)

lemma join_splitOn: "splitOn c s = p # ps \<Longrightarrow> s = p @ concat (map (\<lambda>q. c # q) ps)"
proof (induction c s arbitrary: p ps rule: splitOn.induct)
  case (2 c x xs)
  obtain q qs where q: "splitOn c xs = q # qs" using splitOn_nonempty [of c xs] by (cases "splitOn c xs") auto
  then show ?case using 2 by (cases "x = c") auto
qed auto

lemma splitOn_two:
  assumes "length (splitOn c s) = 2" "splitOn c s ! 1 = r"
  shows "s = hd (splitOn c s) @ c # r"
proof -
  obtain p where "splitOn c s = [p, r]" using assms by (cases "splitOn c s"; cases "tl (splitOn c s)") auto
  then show ?thesis using join_splitOn [of c s p "[r]"] by simp
qed

text \<open>The daemon changes only for a request that passes every guard, and then as the operator's reconnect does.\<close>

lemma serveRequest_changes:
  assumes "serveRequest fo hosts urlHost ord clk rq b = (b', r)" "b' \<noteq> b"
  shows "hostGuard fo hosts (rqHost rq) \<and> rqMethod rq = ''POST'' \<and> rqRequestedWith rq = ''tncd''
     \<and> (rqOrigin rq = [] \<or> (\<exists>h. urlHost (rqOrigin rq) = Some h \<and> EqualFold fo h (rqHost rq)))
     \<and> (\<exists>n p. rqPath rq = ''/api/ports/'' @ n @ ''/reconnect'' \<and> Atoi n = Some p \<and> 0 \<le> p \<and> b' = snd (ReconnectPort ord clk b p))"
proof -
  let ?rest = "drop 11 (rqPath rq)"
  have g: "hostGuard fo hosts (rqHost rq)" "take 11 (rqPath rq) = ''/api/ports/''"
    "handlePortAction fo urlHost ord clk rq b = (b', r)"
    using assms by (auto simp: serveRequest_def split: if_splits)
  have h: "length (splitOn (CHR ''/'') ?rest) = 2" "splitOn (CHR ''/'') ?rest ! 1 = ''reconnect''"
    "rqMethod rq = ''POST''" "rqRequestedWith rq = ''tncd''"
    using g(3) assms(2) by (auto simp: handlePortAction_def Let_def split: if_splits)
  have o: "rqOrigin rq = [] \<or> (\<exists>h. urlHost (rqOrigin rq) = Some h \<and> EqualFold fo h (rqHost rq))"
    using g(3) assms(2) h by (auto simp: handlePortAction_def Let_def split: if_splits option.splits)
  obtain p where p: "Atoi (splitOn (CHR ''/'') ?rest ! 0) = Some p" "0 \<le> p" "b' = snd (ReconnectPort ord clk b p)"
    using g(3) assms(2) h
    by (auto simp: handlePortAction_def Let_def split: if_splits option.splits prod.splits)
  have "rqPath rq = ''/api/ports/'' @ ?rest" using append_take_drop_id [of 11 "rqPath rq"] g(2) by simp
  then have path: "rqPath rq = ''/api/ports/'' @ hd (splitOn (CHR ''/'') ?rest) @ ''/reconnect''"
    using splitOn_two [OF h(1,2)] by simp
  have "splitOn (CHR ''/'') ?rest ! 0 = hd (splitOn (CHR ''/'') ?rest)" using h(1) by (cases "splitOn (CHR ''/'') ?rest") auto
  then show ?thesis using g(1) h(3,4) o p path by (intro conjI exI) simp_all
qed

lemma sse_step_inv: "sse_step s s' \<Longrightarrow> sse_inv s \<Longrightarrow> sse_inv s'"
proof (induction rule: sse_step.induct)
  case (leave s c)
  have "int (length (filter (\<lambda>x. fst x \<noteq> c) (sseClients s))) \<le> sseMax s" if "int (length (sseClients s)) \<le> sseMax s"
    by (rule order_trans [OF of_nat_mono [OF length_filter_le] that])
  then show ?case using leave by (auto simp: sse_inv_def sseLeave_def distinct_map inj_on_def)
next
  case (push s ev data)
  then show ?case by (auto simp: sse_inv_def push_def Let_def comp_def case_prod_beta)
next
  case (take s c)
  then show ?case by (auto simp: sse_inv_def sseTake_def comp_def case_prod_beta)
qed (auto simp: sse_inv_def sseAdmit_def sseClose_def)

interpretation sse_system: invariant_system "\<lambda>s. sseClients s = []" sse_step sse_inv
proof unfold_locales
  show "sse_inv s" if "sseClients s = []" for s using that by (simp add: sse_inv_def)
qed (rule sse_step_inv)

end
