(* ===== verification/App.thy ===== *)
theory App
  imports Api Rig_Cache "HOL-Library.Multiset"
begin

text \<open>
  Start-up and shutdown of the daemon (\<^verbatim>\<open>src/internal/app/app.go\<close>): which listeners \<open>New\<close> opens and closes, the warning
  about exposed listeners, the check whether a port's radio speaks the control protocol, and the order of the teardown.

  Whether a listener can be opened is an argument; what is opened, closed and run is recorded in order.
\<close>

section \<open>Start-up\<close>

datatype listener = LAgwpe | LKiss | LApi | LRig nat

record appConfig =
  kissEnabled :: bool
  apiEnabled :: bool
  rigEnabled :: "bool list"

datatype app_error = BridgeStart | ListenerFailed listener

text \<open>The rigctl listeners, in order, up to the first that fails.\<close>

fun startRigs :: "(listener \<Rightarrow> bool) \<Rightarrow> nat \<Rightarrow> bool list \<Rightarrow> listener list \<times> listener option" where
  "startRigs ok i [] = ([], None)"
| "startRigs ok i (en # ens) =
     (if \<not> en then startRigs ok (i + 1) ens
      else if \<not> ok (LRig i) then ([], Some (LRig i))
      else (case startRigs ok (i + 1) ens of (ls, e) \<Rightarrow> (LRig i # ls, e)))"

definition New :: "appConfig \<Rightarrow> bool \<Rightarrow> (listener \<Rightarrow> bool) \<Rightarrow> listener list \<times> listener list \<times> app_error option" where
  "New c bridgeOk ok =
     (if \<not> bridgeOk then ([], [], Some BridgeStart)
      else if \<not> ok LAgwpe then ([], [], Some (ListenerFailed LAgwpe))
      else if kissEnabled c \<and> \<not> ok LKiss then ([LAgwpe], [LAgwpe], Some (ListenerFailed LKiss))
      else let kiss = (if kissEnabled c then [LKiss] else [])
           in if apiEnabled c \<and> \<not> ok LApi then (LAgwpe # kiss, kiss @ [LAgwpe], Some (ListenerFailed LApi))
              else let api = (if apiEnabled c then [LApi] else []); (rs, e) = startRigs ok 0 (rigEnabled c)
                   in (LAgwpe # kiss @ api @ rs,
                       case e of None \<Rightarrow> [] | Some l \<Rightarrow> rs @ api @ kiss @ [LAgwpe],
                       case e of None \<Rightarrow> None | Some l \<Rightarrow> Some (ListenerFailed l)))"

definition enabledListeners :: "appConfig \<Rightarrow> listener list" where
  "enabledListeners c =
     LAgwpe # (if kissEnabled c then [LKiss] else []) @ (if apiEnabled c then [LApi] else [])
       @ map (\<lambda>x. LRig (fst x)) (filter snd (enumerate 0 (rigEnabled c)))"

section \<open>Exposed listeners\<close>

text \<open>\<open>netip.Addr.IsLoopback\<close>, which unmaps an IPv4 address in an IPv6 one.\<close>

definition IsLoopback :: "netAddr \<Rightarrow> bool" where
  "IsLoopback a =
     (case a of
        V4 x \<Rightarrow> shr x 24 = 127
      | V6 x z \<Rightarrow> if shr x 32 = 0xFFFF then shr (ucast x :: u32) 24 = 127 else x = 1)"

datatype exposure = Local | Restricted | Unauthenticated

definition warnIfExposed :: "folding \<Rightarrow> string \<Rightarrow> Allowlist \<Rightarrow> exposure" where
  "warnIfExposed fo host allow =
     (let exposed = (if EqualFold fo host ''localhost'' then False
                     else (case ParseAddr host of Some ip \<Rightarrow> \<not> IsLoopback ip | None \<Rightarrow> True))
      in if \<not> exposed then Local else if Enabled allow then Restricted else Unauthenticated)"

section \<open>Does the radio speak the protocol\<close>

text \<open>
  What wakes the loop of \<open>gateRigCtl\<close>: the shutdown, the deadline, or a tick, at which the port has a rig or not.
\<close>

datatype gateWake = StopSignal | DeadlineSignal | TickNoRig | TickRig

datatype gateEnd = GateStopped | GaveUp | RadioIdentified | RigControlDisabled | StillWaiting

fun gateRigCtl :: "'e env \<Rightarrow> gateWake list \<Rightarrow> 'e \<times> rig \<Rightarrow> ('e \<times> rig) \<times> gateEnd" where
  "gateRigCtl env [] s = (s, StillWaiting)"
| "gateRigCtl env (StopSignal # ws) s = (s, GateStopped)"
| "gateRigCtl env (DeadlineSignal # ws) s = (s, GaveUp)"
| "gateRigCtl env (TickNoRig # ws) s = gateRigCtl env ws s"
| "gateRigCtl env (TickRig # ws) s =
     (case Identify env s of
        (s, Inr _) \<Rightarrow> (s, RadioIdentified)
      | (s, Inl e) \<Rightarrow> if e = ErrNotBenshi then (s, RigControlDisabled) else gateRigCtl env ws s)"

section \<open>Shutdown\<close>

datatype shutAct = StopGates | CloseRigServer nat | CloseClient nat | CloseListener listener | BridgeShutdown | EngineStop

text \<open>\<open>Shutdown\<close>, with the function it posts to the loop inlined: what is closed, in order.\<close>

definition AppShutdown :: "listener list \<Rightarrow> nat list \<Rightarrow> shutAct list" where
  "AppShutdown ls cls =
     StopGates # map CloseRigServer (concat (map (\<lambda>l. case l of LRig i \<Rightarrow> [i] | _ \<Rightarrow> []) ls))
     @ map CloseClient cls
     @ CloseListener LAgwpe # (if LKiss \<in> set ls then [CloseListener LKiss] else [])
     @ (if LApi \<in> set ls then [CloseListener LApi] else [])
     @ [BridgeShutdown, EngineStop]"

section \<open>All listeners or none\<close>

lemma startRigs_all: "startRigs ok i ens = (ls, None) \<Longrightarrow> ls = map (\<lambda>x. LRig (fst x)) (filter snd (enumerate i ens))"
  by (induction ens arbitrary: i ls) (auto split: if_splits prod.splits)

lemma New_all_or_nothing:
  assumes "New c bridgeOk ok = (ops, cls, e)"
  shows "e = None \<longrightarrow> ops = enabledListeners c \<and> cls = []" "e \<noteq> None \<longrightarrow> mset cls = mset ops"
proof -
  obtain rs r where r: "startRigs ok 0 (rigEnabled c) = (rs, r)" by (cases "startRigs ok 0 (rigEnabled c)")
  show "e = None \<longrightarrow> ops = enabledListeners c \<and> cls = []"
    using assms r startRigs_all [of ok 0 "rigEnabled c" rs]
    by (auto simp: New_def enabledListeners_def Let_def split: if_splits option.splits)
  show "e \<noteq> None \<longrightarrow> mset cls = mset ops"
    using assms r by (auto simp: New_def Let_def split: if_splits option.splits)
qed

text \<open>Every failure to identify is reported as a radio of another kind, so no failure is waited out.\<close>

lemma Identify_error: "Identify env s = (s', Inl e) \<Longrightarrow> e = ErrNotBenshi"
  by (auto simp: Identify_def bindR_def readRig_def attemptR_def throw_def ret_def modRig_def split: prod.splits if_splits sum.splits)

lemma first_probe_decides:
  "snd (gateRigCtl env (replicate n TickNoRig @ TickRig # ws) s) \<in> {RadioIdentified, RigControlDisabled}"
  by (induction n) (auto split: prod.splits sum.splits dest: Identify_error)

text \<open>Every key is released and every client closed while the ports still live, and the loop stops last.\<close>

lemma AppShutdown_order:
  "\<exists>pre. AppShutdown op cls = pre @ [BridgeShutdown, EngineStop] \<and> BridgeShutdown \<notin> set pre \<and> EngineStop \<notin> set pre
    \<and> (\<forall>i. LRig i \<in> set op \<longrightarrow> CloseRigServer i \<in> set pre) \<and> (\<forall>k\<in>set cls. CloseClient k \<in> set pre)"
  by (intro exI [of _ "butlast (butlast (AppShutdown op cls))"]) (force simp: AppShutdown_def butlast_append)

end
