(* ===== verification/Transports.thy ===== *)
theory Transports
  imports Sdp Bt_Link Serial_Port
begin

text \<open>
  How a configured port becomes an open transport: \<open>buildTransport\<close> (\<^verbatim>\<open>src/internal/bridge/transport.go\<close>), the opening of the
  Windows, FreeBSD and low-energy Bluetooth transports with the resources they take
  (\<^verbatim>\<open>src/kiss/bluetooth_windows.go\<close>, \<^verbatim>\<open>bluetooth_freebsd.go\<close>, \<^verbatim>\<open>ble_linux.go\<close>), the registration of the profile and the
  classification of errors on Linux (\<^verbatim>\<open>src/kiss/bluetooth_linux.go\<close>), and what a failed reconnect logs
  (\<^verbatim>\<open>src/internal/bridge/bridge.go\<close>).

  What the system answers to each call is an argument.
\<close>

section \<open>From a port of the configuration\<close>

text \<open>Durations are left out: they only bound how long the code sleeps.\<close>

datatype transport = SerialTr SerialConfig | TcpTr string int | BluetoothTr string string | BleTr string

definition buildTransport :: "portCfg \<Rightarrow> transport option" where
  "buildTransport pc =
     (if cpType pc = ''serial'' then
        Some (SerialTr \<lparr>scDevice = cpDevice pc, scBaud = cpSerialBaudrate pc, scParity = cpParity pc, scStopBits = cpStopBits pc,
                RTSCTS = cpRTSCTS pc, InitString = cpInitString pc, SendKISSExit = cpSendKISSExit pc, HostExitString = cpHostExitString pc\<rparr>)
      else if cpType pc = ''tcp'' then Some (TcpTr (cpHost pc) (cpTCPPort pc))
      else if cpType pc = ''bluetooth'' then Some (BluetoothTr (cpBDAddr pc) (cpChannel pc))
      else if cpType pc = ''ble'' then Some (BleTr (cpBDAddr pc))
      else None)"

section \<open>Windows\<close>

text \<open>\<open>refs\<close> counts the calls of \<open>WSAStartup\<close> that were not undone, \<open>socks\<close> the sockets that were not closed.\<close>

record winTr =
  wtStarted :: bool
  wtOpen :: bool
  refs :: nat
  socks :: nat

definition newWin :: winTr where
  "newWin = \<lparr>wtStarted = False, wtOpen = False, refs = 0, socks = 0\<rparr>"

datatype btOpenError = BadAddress | StartupFailed | BadChannel | ConnectFailed | DiscoveryFailed sdp_error

definition winCleanup :: "winTr \<Rightarrow> winTr" where
  "winCleanup s = s\<lparr>refs := refs s - 1, wtStarted := False\<rparr>"

definition winOpen ::
  "unicode \<Rightarrow> string \<Rightarrow> string \<Rightarrow> bool \<Rightarrow> (nat \<Rightarrow> connectResult) \<Rightarrow> winTr \<Rightarrow> winTr \<times> (btOpenError + 64 word \<times> int option)" where
  "winOpen u bdaddr channel startupOk conn s =
     (case parseBTAddr bdaddr of
        None \<Rightarrow> (s, Inl BadAddress)
      | Some addr \<Rightarrow>
          if \<not> startupOk then (s, Inl StartupFailed)
          else let s = s\<lparr>refs := refs s + 1, wtStarted := True\<rparr>
               in (case parseSPPChannel u channel of
                     None \<Rightarrow> (winCleanup s, Inl BadChannel)
                   | Some (ch, pinned) \<Rightarrow>
                       (case winDial conn 0 btConnectAttempts of (opened', closed', ok) \<Rightarrow>
                          let s = s\<lparr>socks := socks s + opened' - closed'\<rparr>
                          in if \<not> ok then (winCleanup s, Inl ConnectFailed)
                             else (s\<lparr>wtOpen := True\<rparr>, Inr (addr, if pinned then Some ch else None)))))"

definition winClose :: "winTr \<Rightarrow> winTr" where
  "winClose s =
     (let s = (if wtOpen s then s\<lparr>socks := socks s - 1, wtOpen := False\<rparr> else s)
      in if wtStarted s then winCleanup s else s)"

section \<open>FreeBSD\<close>

text \<open>\<open>sockaddr_rfcomm\<close> and \<open>sockaddr_l2cap\<close>.\<close>

definition rfcommAddr :: "bytes \<Rightarrow> int \<Rightarrow> bytes" where
  "rfcommAddr addr channel = [9, 36] @ addr @ [word_of_int channel]"

definition l2capAddr :: "bytes \<Rightarrow> bytes" where
  "l2capAddr addr = [14, 36, 0x01, 0x00] @ addr @ [0, 0, 0, 0]"

text \<open>The response read from the discovery socket, or \<open>None\<close> when a call failed; at most 4096 bytes of it are read.\<close>

definition sdpDiscoverSPPChannel :: "bytes option \<Rightarrow> btOpenError + int" where
  "sdpDiscoverSPPChannel resp =
     (case resp of
        None \<Rightarrow> Inl ConnectFailed
      | Some r \<Rightarrow> (case parseRFCOMMChannel 64 (take 4096 r) of Inl e \<Rightarrow> Inl (DiscoveryFailed e) | Inr ch \<Rightarrow> Inr (int ch)))"

definition bsdOpen ::
  "unicode \<Rightarrow> string \<Rightarrow> string \<Rightarrow> bytes option \<Rightarrow> (nat \<Rightarrow> connectResult) \<Rightarrow> nat \<times> nat \<times> (btOpenError + bytes)" where
  "bsdOpen u bdaddr channel resp conn =
     (case parseBTAddrLE bdaddr of
        None \<Rightarrow> (0, 0, Inl BadAddress)
      | Some addr \<Rightarrow>
          (case parseSPPChannel u channel of
             None \<Rightarrow> (0, 0, Inl BadChannel)
           | Some (ch, pinned) \<Rightarrow>
               (case (if pinned then Inr ch else sdpDiscoverSPPChannel resp) of
                  Inl e \<Rightarrow> (0, 0, Inl e)
                | Inr ch \<Rightarrow>
                    (case bsdDial conn 0 rfcommBusyRetries of (opened', closed', ok) \<Rightarrow>
                       (opened', closed', if ok then Inr (rfcommAddr addr ch) else Inl ConnectFailed)))))"

section \<open>Low energy on Linux\<close>

definition bleKISSTXChar :: string where "bleKISSTXChar = ''00000002-ba2a-46c9-ae49-01b0961f68bb''"
definition bleKISSRXChar :: string where "bleKISSRXChar = ''00000003-ba2a-46c9-ae49-01b0961f68bb''"

text \<open>An object: its path and, when it is a characteristic, the text of its UUID (empty when it has none).\<close>

type_synonym gattObj = "string \<times> string option"

definition isCharOf :: "string \<Rightarrow> gattObj \<Rightarrow> bool" where
  "isCharOf dev ob \<longleftrightarrow> take (length dev + 1) (fst ob) = dev @ ''/'' \<and> snd ob \<noteq> None"

definition charStep :: "folding \<Rightarrow> string \<Rightarrow> string \<times> string \<times> nat \<Rightarrow> gattObj \<Rightarrow> string \<times> string \<times> nat" where
  "charStep fo dev r ob =
     (case r of (txp, rxp, n) \<Rightarrow>
        if \<not> isCharOf dev ob then r
        else let uuid = ToLower fo (the (snd ob))
             in (if uuid = bleKISSTXChar then fst ob else txp, if uuid = bleKISSRXChar then fst ob else rxp, n + 1))"

text \<open>\<open>findKISSChars\<close> on what \<open>GetManagedObjects\<close> answered, in the order the map is ranged over; \<open>None\<close> when the call failed.\<close>

definition findKISSChars :: "folding \<Rightarrow> string \<Rightarrow> gattObj list option \<Rightarrow> string \<times> string \<times> nat" where
  "findKISSChars fo dev objects = (case objects of None \<Rightarrow> ([], [], 0) | Some obs \<Rightarrow> foldl (charStep fo dev) ([], [], 0) obs)"

datatype charError = NoGATT | NoKISSService nat

text \<open>One list of objects for every poll up to the deadline; there is always one.\<close>

fun waitKISSChars :: "folding \<Rightarrow> string \<Rightarrow> gattObj list option list \<Rightarrow> charError + string \<times> string" where
  "waitKISSChars fo dev [] = Inl NoGATT"
| "waitKISSChars fo dev (p # ps) =
     (case findKISSChars fo dev p of (txp, rxp, n) \<Rightarrow>
        if txp \<noteq> [] \<and> rxp \<noteq> [] then Inr (txp, rxp)
        else if ps = [] then Inl (if n = 0 then NoGATT else NoKISSService n)
        else waitKISSChars fo dev ps)"

text \<open>\<open>None\<close> when the property could not be read or has another type.\<close>

definition readCharMTU :: "u16 option \<Rightarrow> nat" where
  "readCharMTU v = (case v of Some m \<Rightarrow> if unat m > bleDefaultMTU then unat m else bleDefaultMTU | None \<Rightarrow> bleDefaultMTU)"

definition hasLiveATT :: "string \<Rightarrow> u16 option \<Rightarrow> bool" where
  "hasLiveATT charPath v \<longleftrightarrow> charPath \<noteq> [] \<and> (case v of Some m \<Rightarrow> unat m > 0 | None \<Rightarrow> False)"

definition noProfilesMsg :: string where "noProfilesMsg = ''no more profiles to connect to''"

definition isNoProfilesError :: "folding \<Rightarrow> string option \<Rightarrow> bool" where
  "isNoProfilesError fo err \<longleftrightarrow> (case err of None \<Rightarrow> False | Some e \<Rightarrow> contains (ToLower fo e) noProfilesMsg)"

text \<open>Whether \<open>connectDevice\<close> succeeds, for the error \<open>Device1.Connect\<close> answers.\<close>

definition connectDevice :: "folding \<Rightarrow> string option \<Rightarrow> bool" where
  "connectDevice fo err \<longleftrightarrow> err = None \<or> isNoProfilesError fo err"

record bleEnv =
  eBus :: bool
  eKnown :: bool
  eConnect :: "string option"
  eChars :: "gattObj list option list"
  eATT :: "u16 option"
  eConnectLE :: "string option"
  eCharsLE :: "gattObj list option list"
  eMTU :: "u16 option"
  eWatch :: bool
  eNotify :: bool

datatype bleError = EmptyAddress | NoBus | UnknownDevice | ConnectRefused | LERefused | CharsMissing charError | WatchFailed | NotifyFailed

text \<open>The characteristics, after the second try over low energy when the first gave none or no live link.\<close>

definition bleChars :: "folding \<Rightarrow> string \<Rightarrow> bleEnv \<Rightarrow> bleError + string \<times> string" where
  "bleChars fo dev e =
     (let r = waitKISSChars fo dev (eChars e)
      in case r of
           Inr (txp, rxp) \<Rightarrow> if hasLiveATT txp (eATT e) then Inr (txp, rxp)
             else if \<not> connectDevice fo (eConnectLE e) then Inl LERefused
             else (case waitKISSChars fo dev (eCharsLE e) of Inl x \<Rightarrow> Inl (CharsMissing x) | Inr c \<Rightarrow> Inr c)
         | Inl x \<Rightarrow>
             if \<not> connectDevice fo (eConnectLE e) then Inl (CharsMissing x)
             else (case waitKISSChars fo dev (eCharsLE e) of Inl x \<Rightarrow> Inl (CharsMissing x) | Inr c \<Rightarrow> Inr c))"

text \<open>\<open>Open\<close>: whether the bus connection is open afterwards, and the characteristics with the MTU, or the error.\<close>

definition bleOpen :: "unicode \<Rightarrow> folding \<Rightarrow> string \<Rightarrow> bleEnv \<Rightarrow> bool \<times> (bleError + string \<times> string \<times> nat)" where
  "bleOpen u fo bdaddr e =
     (case bdaddrToPath u bdaddr of
        None \<Rightarrow> (False, Inl EmptyAddress)
      | Some dev \<Rightarrow>
          if \<not> eBus e then (False, Inl NoBus)
          else if \<not> eKnown e then (False, Inl UnknownDevice)
          else if \<not> connectDevice fo (eConnect e) then (False, Inl ConnectRefused)
          else (case bleChars fo dev e of
                  Inl x \<Rightarrow> (False, Inl x)
                | Inr (txp, rxp) \<Rightarrow>
                    if \<not> eWatch e then (False, Inl WatchFailed)
                    else if \<not> eNotify e then (False, Inl NotifyFailed)
                    else (True, Inr (txp, rxp, readCharMTU (eMTU e)))))"

section \<open>The profile and errors on Linux\<close>

definition ensureProfile :: "bool \<Rightarrow> bool \<Rightarrow> bool \<times> bool" where
  "ensureProfile registers registered = (if registered then (True, True) else (registers, registers))"

definition isBenignConnectError :: "string \<Rightarrow> bool" where
  "isBenignConnectError s \<longleftrightarrow>
     contains s ''NoReply'' \<or> contains s ''Did not receive a reply'' \<or> contains s ''InProgress'' \<or> contains s ''br-connection-busy''"

datatype pairedAnswer = NoObject | NotABool | Paired bool

definition checkPaired :: "pairedAnswer \<Rightarrow> bool" where
  "checkPaired a = (case a of NoObject \<Rightarrow> False | NotABool \<Rightarrow> True | Paired b \<Rightarrow> b)"

section \<open>What a failed reconnect logs\<close>

definition reconnectLogRepeatEvery :: nat where
  "reconnectLogRepeatEvery = 60"

datatype logLine = NoLine | FirstLine string | RepeatLine nat string

definition logReconnectError :: "int \<Rightarrow> string \<Rightarrow> (int \<rightharpoonup> string \<times> nat) \<Rightarrow> (int \<rightharpoonup> string \<times> nat) \<times> logLine" where
  "logReconnectError port msg lg =
     (let same = (case lg port of Some (l, n) \<Rightarrow> l = msg | None \<Rightarrow> [] = msg);
          n = (if same then (case lg port of Some (l, n) \<Rightarrow> n | None \<Rightarrow> 0) + 1 else 1)
      in (lg(port \<mapsto> (msg, n)),
          if \<not> same then FirstLine msg else if n mod reconnectLogRepeatEvery = 0 then RepeatLine n msg else NoLine))"

section \<open>A loaded port opens\<close>

text \<open>Every port that loads has a transport, and a serial one is never refused for its parity or its stop bits.\<close>

lemma loaded_builds:
  assumes "port_ok u p"
  shows "buildTransport p \<noteq> None"
    and "buildTransport p = Some (SerialTr sc) \<Longrightarrow> SerialOpen u sc res os = (acts, Inl e) \<Longrightarrow> e \<noteq> BadParity \<and> e \<noteq> BadStopBits"
proof -
  show "buildTransport p \<noteq> None" using assms by (auto simp: port_ok_def validTypes_def buildTransport_def)
  assume b: "buildTransport p = Some (SerialTr sc)" and o: "SerialOpen u sc res os = (acts, Inl e)"
  have "cpType p = ''serial''" "scParity sc = cpParity p" "scStopBits sc = cpStopBits p"
    using b by (auto simp: buildTransport_def split: if_splits)
  then have "parseParity u (scParity sc) \<noteq> None" "parseStopBits (scStopBits sc) \<noteq> None"
    using assms parse_iff_valid(1) [of u "cpParity p"] parse_iff_valid(2) [of "cpStopBits p"] by (auto simp: port_ok_def)
  then show "e \<noteq> BadParity \<and> e \<noteq> BadStopBits"
    using o by (auto simp: SerialOpen_def Let_def split: option.splits sum.splits if_splits)
qed

section \<open>Nothing is left open\<close>

definition balanced :: "winTr \<Rightarrow> bool" where
  "balanced s \<longleftrightarrow> refs s = (if wtStarted s then 1 else 0) \<and> socks s = (if wtOpen s then 1 else 0) \<and> (wtOpen s \<longrightarrow> wtStarted s)"

text \<open>An \<open>Open\<close> that fails gives back what it took, and \<open>Close\<close> what one that succeeds took.\<close>

lemma winOpen_balanced:
  assumes "winOpen u a ch ok conn s = (t, r)" "balanced s" "\<not> wtStarted s"
  shows "balanced t" "wtOpen t \<longleftrightarrow> (\<exists>x. r = Inr x)" "wtStarted t \<longleftrightarrow> wtOpen t"
proof -
  obtain p c d where w: "winDial conn 0 btConnectAttempts = (p, c, d)" by (cases "winDial conn 0 btConnectAttempts")
  have "p = c + (if d then 1 else 0)" using winDial_bounds [OF w] by simp
  then show "balanced t" "wtOpen t \<longleftrightarrow> (\<exists>x. r = Inr x)" "wtStarted t \<longleftrightarrow> wtOpen t"
    using assms w by (auto simp: winOpen_def winCleanup_def balanced_def Let_def split: option.splits prod.splits if_splits)
qed

lemma winClose_balanced: "balanced s \<Longrightarrow> winClose s = newWin"
  by (cases s) (auto simp: balanced_def winClose_def winCleanup_def newWin_def Let_def split: if_splits)

lemma bsdOpen_sockets:
  assumes "bsdOpen u a ch resp conn = (op, cl, r)"
  shows "op = cl + (case r of Inl _ \<Rightarrow> 0 | Inr _ \<Rightarrow> 1)" "op \<le> 6"
    and "r = Inr sa \<Longrightarrow> \<exists>addr n. parseBTAddrLE a = Some addr \<and> sa = [9, 36] @ addr @ [n]"
proof -
  obtain p c d where w: "bsdDial conn 0 rfcommBusyRetries = (p, c, d)" by (cases "bsdDial conn 0 rfcommBusyRetries")
  note b = bsdDial_bounds [OF w] w
  show "op = cl + (case r of Inl _ \<Rightarrow> 0 | Inr _ \<Rightarrow> 1)" "op \<le> 6"
    using assms b by (auto simp: bsdOpen_def rfcommBusyRetries_def split: option.splits prod.splits if_splits sum.splits)
  show "r = Inr sa \<Longrightarrow> \<exists>addr n. parseBTAddrLE a = Some addr \<and> sa = [9, 36] @ addr @ [n]"
    using assms b by (auto simp: bsdOpen_def rfcommAddr_def split: option.splits prod.splits if_splits sum.splits)
qed

text \<open>A failed \<open>Open\<close> leaves no bus connection, and a successful one has the two characteristics of this device.\<close>

definition kissChar :: "folding \<Rightarrow> string \<Rightarrow> gattObj list \<Rightarrow> string \<Rightarrow> string \<Rightarrow> bool" where
  "kissChar fo dev obs uuid path \<longleftrightarrow> (\<exists>x. (path, Some x) \<in> set obs \<and> take (length dev + 1) path = dev @ ''/'' \<and> ToLower fo x = uuid)"

lemma foldl_chars:
  assumes "foldl (charStep fo dev) ([], [], 0) obs = (txp, rxp, n)"
  shows "n = length (filter (isCharOf dev) obs) \<and> (txp = [] \<or> kissChar fo dev obs bleKISSTXChar txp)
    \<and> (rxp = [] \<or> kissChar fo dev obs bleKISSRXChar rxp)"
  using assms
proof (induction obs arbitrary: txp rxp n rule: rev_induct)
  case (snoc ob obs)
  obtain t r k where f: "foldl (charStep fo dev) ([], [], 0) obs = (t, r, k)" by (cases "foldl (charStep fo dev) ([], [], 0) obs")
  note ih = snoc.IH [OF f]
  have mono: "kissChar fo dev obs v x \<Longrightarrow> kissChar fo dev (obs @ [ob]) v x" for v x by (auto simp: kissChar_def)
  have s: "charStep fo dev (t, r, k) ob = (txp, rxp, n)" using snoc.prems f by simp
  show ?case
  proof (cases "isCharOf dev ob")
    case True
    then obtain x where x: "snd ob = Some x" "take (length dev + 1) (fst ob) = dev @ ''/''" by (auto simp: isCharOf_def)
    have new: "kissChar fo dev (obs @ [ob]) (ToLower fo x) (fst ob)" using x by (auto simp: kissChar_def intro!: exI [of _ x]) (metis prod.collapse)
    show ?thesis using s True ih mono new x by (auto simp: charStep_def Let_def split: if_splits)
  qed (use s ih mono in \<open>auto simp: charStep_def\<close>)
qed simp

lemma waitKISSChars_found:
  "waitKISSChars fo dev ps = Inr (txp, rxp) \<Longrightarrow>
     \<exists>obs. Some obs \<in> set ps \<and> kissChar fo dev obs bleKISSTXChar txp \<and> kissChar fo dev obs bleKISSRXChar rxp"
proof (induction fo dev ps rule: waitKISSChars.induct)
  case (2 fo dev p ps)
  obtain t r n where f: "findKISSChars fo dev p = (t, r, n)" by (cases "findKISSChars fo dev p")
  show ?case
  proof (cases "t \<noteq> [] \<and> r \<noteq> []")
    case True
    then obtain obs where o: "p = Some obs" using f by (cases p) (auto simp: findKISSChars_def)
    then have "foldl (charStep fo dev) ([], [], 0) obs = (t, r, n)" using f by (simp add: findKISSChars_def)
    then show ?thesis using foldl_chars [of fo dev obs t r n] True 2(2) f o by auto
  next
    case False
    then show ?thesis using 2 f by (auto split: if_splits)
  qed
qed simp

lemma bleOpen_result:
  assumes "bleOpen u fo a e = (isOpen, r)"
  shows "isOpen \<longleftrightarrow> (\<exists>x. r = Inr x)"
    and "r = Inr (txp, rxp, mtu) \<Longrightarrow> bleDefaultMTU \<le> mtu \<and> (\<exists>dev obs. bdaddrToPath u a = Some dev
      \<and> Some obs \<in> set (eChars e @ eCharsLE e) \<and> kissChar fo dev obs bleKISSTXChar txp \<and> kissChar fo dev obs bleKISSRXChar rxp)"
proof -
  show "isOpen \<longleftrightarrow> (\<exists>x. r = Inr x)"
    using assms by (auto simp: bleOpen_def split: option.splits if_splits sum.splits prod.splits)
  assume r: "r = Inr (txp, rxp, mtu)"
  obtain dev where d: "bdaddrToPath u a = Some dev" "bleChars fo dev e = Inr (txp, rxp)" "mtu = readCharMTU (eMTU e)"
    using assms r by (auto simp: bleOpen_def split: option.splits if_splits sum.splits prod.splits)
  have "waitKISSChars fo dev (eChars e) = Inr (txp, rxp) \<or> waitKISSChars fo dev (eCharsLE e) = Inr (txp, rxp)"
    using d(2) by (auto simp: bleChars_def Let_def split: sum.splits prod.splits if_splits)
  moreover have "bleDefaultMTU \<le> mtu" unfolding d(3) by (auto simp: readCharMTU_def split: option.splits)
  ultimately show "bleDefaultMTU \<le> mtu \<and> (\<exists>dev obs. bdaddrToPath u a = Some dev
      \<and> Some obs \<in> set (eChars e @ eCharsLE e) \<and> kissChar fo dev obs bleKISSTXChar txp \<and> kissChar fo dev obs bleKISSRXChar rxp)"
    using d(1) waitKISSChars_found [of fo dev _ txp rxp] by fastforce
qed

text \<open>Of \<open>k\<close> equal errors in a row after another one, the first and every sixtieth are logged.\<close>

fun logAll :: "int \<Rightarrow> string \<Rightarrow> nat \<Rightarrow> (int \<rightharpoonup> string \<times> nat) \<Rightarrow> (int \<rightharpoonup> string \<times> nat) \<times> logLine list" where
  "logAll port msg 0 lg = (lg, [])"
| "logAll port msg (Suc k) lg =
     (case logAll port msg k lg of (lg, ls) \<Rightarrow> case logReconnectError port msg lg of (lg, l) \<Rightarrow> (lg, ls @ [l]))"

lemma logAll_lines:
  assumes "\<forall>n. lg port \<noteq> Some (msg, n)" "msg \<noteq> []"
  shows "snd (logAll port msg k lg) =
     map (\<lambda>i. if i = 1 then FirstLine msg else if i mod reconnectLogRepeatEvery = 0 then RepeatLine i msg else NoLine) [1..<Suc k]
   \<and> (0 < k \<longrightarrow> fst (logAll port msg k lg) port = Some (msg, k))"
proof (induction k)
  case (Suc k)
  obtain g ls where g: "logAll port msg k lg = (g, ls)" by (cases "logAll port msg k lg")
  show ?case
  proof (cases "k = 0")
    case True
    then show ?thesis using assms by (auto simp: logReconnectError_def Let_def split: option.splits)
  next
    case False
    then have "g port = Some (msg, k)" using Suc g by simp
    then show ?thesis using Suc g False by (auto simp: logReconnectError_def Let_def)
  qed
qed simp

end
