(* ===== verification/Port_Write.thy ===== *)
theory Port_Write
  imports Kiss_Port
begin

text \<open>
  The write side of a port with its goroutines (\<open>writerLoop\<close>, \<open>portControlChannel.Write\<close>, \<open>acquireTxSem\<close>,
  \<open>releaseTxSem\<close>, \<open>failTX\<close> and \<open>Close\<close> in \<^verbatim>\<open>src/kiss/port.go\<close>): KISS frames and control frames share one
  transport, a write runs in a goroutine of its own that holds the slot \<open>txSem\<close>, and whoever waits for it may give up.

  A write is a number, in the order in which the slot was taken. Every byte on the wire is recorded with the write it
  belongs to, or with none for what \<open>ExitKISS\<close> writes past the slot. The transport may take any part of what it is
  offered, may fail after taking any part of it, and takes nothing once it is closed. Timers may fire at any time.
\<close>

section \<open>State\<close>

datatype wkind = KissTX | CtlTX

text \<open>
  The goroutine of a write: in the transport's \<open>Write\<close>, returned from it, and then past the release of the slot and the
  report of the result, which the two kinds do in opposite orders.
\<close>

datatype wphase = Sending | Returned bool | Released bool | Reported bool | Over bool

record wjob =
  wkind :: wkind
  wframe :: bytes
  wdone :: nat
  wphase :: wphase

datatype writerAt = WLoop | WAcquire bytes | WAwait nat | WGone
datatype ctlAt = CAcquire bytes | CAwait nat | CEnd bool
datatype tearAt = NoTear | TearFail | TearClose | TearExited | TornDown

record pw =
  pport :: kport
  slot :: "nat option"
  wjobs :: "wjob list"
  wire :: "(nat option \<times> byte) list"
  wwriter :: writerAt
  wctls :: "ctlAt list"
  tear :: tearAt

definition newPw :: "kport \<Rightarrow> pw" where
  "newPw p = \<lparr>pport = p, slot = None, wjobs = [], wire = [], wwriter = WLoop, wctls = [], tear = NoTear\<rparr>"

fun holding :: "wphase \<Rightarrow> bool" where
  "holding (Released _) = False"
| "holding (Over _) = False"
| "holding _ = True"

fun reported :: "wphase \<Rightarrow> bool option" where
  "reported (Reported ok) = Some ok"
| "reported (Over ok) = Some ok"
| "reported _ = None"

section \<open>Operations\<close>

text \<open>The slot is taken and the goroutine of the write started.\<close>

definition beginWrite :: "wkind \<Rightarrow> bytes \<Rightarrow> pw \<Rightarrow> pw" where
  "beginWrite k f s =
     s\<lparr>slot := Some (length (wjobs s)), wjobs := wjobs s @ [\<lparr>wkind = k, wframe = f, wdone = 0, wphase = Sending\<rparr>]\<rparr>"

definition setPhase :: "nat \<Rightarrow> wphase \<Rightarrow> pw \<Rightarrow> pw" where
  "setPhase i ph s = s\<lparr>wjobs := (wjobs s)[i := (wjobs s ! i)\<lparr>wphase := ph\<rparr>]\<rparr>"

definition remaining :: "wjob \<Rightarrow> bytes" where
  "remaining j = drop (wdone j) (wframe j)"

text \<open>The transport takes the next \<open>n\<close> bytes of a write.\<close>

definition landBytes :: "nat \<Rightarrow> nat \<Rightarrow> pw \<Rightarrow> pw" where
  "landBytes i n s =
     (let j = wjobs s ! i
      in s\<lparr>wire := wire s @ map (Pair (Some i)) (take n (remaining j)),
           wjobs := (wjobs s)[i := j\<lparr>wdone := wdone j + n\<rparr>]\<rparr>)"

text \<open>After \<open>writeAll\<close>: a KISS write releases the slot and then reports, a control write reports and then releases it.\<close>

definition settle :: "nat \<Rightarrow> pw \<Rightarrow> pw" where
  "settle i s =
     (case (wkind (wjobs s ! i), wphase (wjobs s ! i)) of
        (KissTX, Returned ok) \<Rightarrow> (setPhase i (Released ok) s)\<lparr>slot := None\<rparr>
      | (KissTX, Released ok) \<Rightarrow> setPhase i (Over ok) s
      | (CtlTX, Returned ok) \<Rightarrow> setPhase i (Reported ok) s
      | (CtlTX, Reported ok) \<Rightarrow> (setPhase i (Over ok) s)\<lparr>slot := None\<rparr>
      | _ \<Rightarrow> s)"

text \<open>\<open>failTX\<close> and the reader's disconnect up to the close of the transport.\<close>

definition failStart :: "pw \<Rightarrow> pw" where
  "failStart s =
     (if kclosed (pport s) then s
      else s\<lparr>pport := (pport s)\<lparr>kclosed := True, online := False, stopped := True\<rparr>, tear := TearFail\<rparr>)"

text \<open>\<open>Close\<close> up to \<open>ExitKISS\<close>.\<close>

definition closeStart :: "pw \<Rightarrow> pw" where
  "closeStart s =
     (if kclosed (pport s) then s
      else if online (pport s)
      then s\<lparr>pport := (pport s)\<lparr>kclosed := True, stopped := True, online := False\<rparr>, tear := TearClose\<rparr>
      else s\<lparr>pport := (pport s)\<lparr>kclosed := True\<rparr>\<rparr>)"

definition exitWrites :: "bytes \<Rightarrow> pw \<Rightarrow> pw" where
  "exitWrites b s = s\<lparr>wire := wire s @ map (Pair None) b, tear := TearExited\<rparr>"

definition trClose :: "pw \<Rightarrow> pw" where
  "trClose s = s\<lparr>pport := (pport s)\<lparr>trOpen := False\<rparr>, tear := TornDown\<rparr>"

text \<open>The three parts make up the atomic operations of \<open>Kiss_Port\<close>.\<close>

lemma fail_parts: "fst (fail p) \<Longrightarrow> pport (trClose (failStart (newPw p))) = snd (fail p)"
  by (auto simp: fail_def failStart_def trClose_def newPw_def split: if_splits)

lemma Close_parts:
  "\<lbrakk>online p; \<not> kclosed p\<rbrakk> \<Longrightarrow> pport (trClose (exitWrites b (closeStart (newPw p)))) = Close p"
  by (auto simp: Close_def closeStart_def exitWrites_def trClose_def newPw_def)

text \<open>What a wait for a result does with it.\<close>

definition writerResult :: "bool \<Rightarrow> pw \<Rightarrow> pw" where
  "writerResult ok s = (if ok then s\<lparr>wwriter := WLoop\<rparr> else (failStart s)\<lparr>wwriter := WGone\<rparr>)"

definition setCtl :: "nat \<Rightarrow> ctlAt \<Rightarrow> pw \<Rightarrow> pw" where
  "setCtl c st s = s\<lparr>wctls := (wctls s)[c := st]\<rparr>"

section \<open>Steps\<close>

inductive pw_step :: "pw \<Rightarrow> pw \<Rightarrow> bool" where
  send: "pw_step s (s\<lparr>pport := Send (pport s) f\<rparr>)"
| sendCommand: "pw_step s (s\<lparr>pport := SendCommand (pport s) cmd val\<rparr>)"
| takes: "\<lbrakk>wwriter s = WLoop; txCh (pport s) = f # q\<rbrakk> \<Longrightarrow>
    pw_step s (s\<lparr>pport := (pport s)\<lparr>txCh := q\<rparr>, wwriter := WAcquire f\<rparr>)"
| acquires: "\<lbrakk>wwriter s = WAcquire f; slot s = None\<rbrakk> \<Longrightarrow>
    pw_step s ((beginWrite KissTX f s)\<lparr>wwriter := WAwait (length (wjobs s))\<rparr>)"
| writerDone: "\<lbrakk>wwriter s = WAwait i; reported (wphase (wjobs s ! i)) = Some ok\<rbrakk> \<Longrightarrow> pw_step s (writerResult ok s)"
| writerTimeout: "wwriter s = WAwait i \<Longrightarrow> pw_step s ((failStart s)\<lparr>wwriter := WGone\<rparr>)"
| writerStops: "stopped (pport s) \<Longrightarrow> pw_step s (s\<lparr>wwriter := WGone\<rparr>)"
| ctlCalls: "\<lbrakk>\<not> stopped (pport s); ctlWritable b\<rbrakk> \<Longrightarrow> pw_step s (s\<lparr>wctls := wctls s @ [CAcquire b]\<rparr>)"
| ctlAcquires: "\<lbrakk>c < length (wctls s); wctls s ! c = CAcquire b; slot s = None\<rbrakk> \<Longrightarrow>
    pw_step s (setCtl c (CAwait (length (wjobs s))) (beginWrite CtlTX b s))"
| ctlDone: "\<lbrakk>c < length (wctls s); wctls s ! c = CAwait i; reported (wphase (wjobs s ! i)) = Some ok\<rbrakk> \<Longrightarrow>
    pw_step s (setCtl c (CEnd ok) s)"
| ctlTimeout: "\<lbrakk>c < length (wctls s); wctls s ! c = CAwait i\<rbrakk> \<Longrightarrow> pw_step s (setCtl c (CEnd False) (failStart s))"
| ctlStops: "\<lbrakk>c < length (wctls s); stopped (pport s)\<rbrakk> \<Longrightarrow> pw_step s (setCtl c (CEnd False) s)"
| lands: "\<lbrakk>slot s = Some i; wphase (wjobs s ! i) = Sending; trOpen (pport s); 0 < n; n \<le> length (remaining (wjobs s ! i))\<rbrakk> \<Longrightarrow>
    pw_step s (landBytes i n s)"
| writeFails: "\<lbrakk>slot s = Some i; wphase (wjobs s ! i) = Sending; trOpen (pport s); n \<le> length (remaining (wjobs s ! i))\<rbrakk> \<Longrightarrow>
    pw_step s (setPhase i (Returned False) (landBytes i n s))"
| writeRefused: "\<lbrakk>slot s = Some i; wphase (wjobs s ! i) = Sending; \<not> trOpen (pport s); remaining (wjobs s ! i) \<noteq> []\<rbrakk> \<Longrightarrow>
    pw_step s (setPhase i (Returned False) s)"
| written: "\<lbrakk>slot s = Some i; wphase (wjobs s ! i) = Sending; remaining (wjobs s ! i) = []\<rbrakk> \<Longrightarrow>
    pw_step s (setPhase i (Returned True) s)"
| settles: "i < length (wjobs s) \<Longrightarrow> pw_step s (settle i s)"
| readerFails: "pw_step s (failStart s)"
| closes: "pw_step s (closeStart s)"
| exits: "\<lbrakk>tear s = TearClose; trOpen (pport s)\<rbrakk> \<Longrightarrow> pw_step s (exitWrites b s)"
| trCloses: "tear s \<in> {TearFail, TearExited} \<Longrightarrow> pw_step s (trClose s)"

section \<open>The invariant\<close>

text \<open>What a write put on the wire, and the bytes of the wire that belong to writes.\<close>

definition landed :: "wjob \<Rightarrow> bytes" where
  "landed j = take (wdone j) (wframe j)"

definition blocks :: "nat \<Rightarrow> wjob list \<Rightarrow> (nat option \<times> byte) list" where
  "blocks i js = concat (map (\<lambda>(k, j). map (Pair (Some k)) (landed j)) (enumerate i js))"

definition ofWrites :: "(nat option \<times> byte) list \<Rightarrow> (nat option \<times> byte) list" where
  "ofWrites w = filter (\<lambda>x. fst x \<noteq> None) w"

fun succeeded :: "wphase \<Rightarrow> bool" where
  "succeeded Sending = False"
| "succeeded (Returned ok) = ok"
| "succeeded (Released ok) = ok"
| "succeeded (Reported ok) = ok"
| "succeeded (Over ok) = ok"

definition job_ok :: "wjob \<Rightarrow> bool" where
  "job_ok j \<longleftrightarrow> wdone j \<le> length (wframe j) \<and> (succeeded (wphase j) \<longrightarrow> wdone j = length (wframe j))
     \<and> (case wphase j of Released _ \<Rightarrow> wkind j = KissTX | Reported _ \<Rightarrow> wkind j = CtlTX | _ \<Rightarrow> True)"

definition awaited :: "pw \<Rightarrow> nat \<Rightarrow> bool" where
  "awaited s i \<longleftrightarrow> wwriter s = WAwait i \<or> CAwait i \<in> set (wctls s)"

text \<open>Only the last write can hold the slot; it is waited for unless it has reported or the port is stopped.\<close>

definition pw_inv :: "pw \<Rightarrow> bool" where
  "pw_inv s \<longleftrightarrow>
     ofWrites (wire s) = blocks 0 (wjobs s)
     \<and> (\<forall>j\<in>set (wjobs s). job_ok j)
     \<and> (\<forall>i<length (wjobs s). holding (wphase (wjobs s ! i)) \<longleftrightarrow> slot s = Some i)
     \<and> (\<forall>i. slot s = Some i \<longrightarrow> Suc i = length (wjobs s))
     \<and> (\<forall>i<length (wjobs s). awaited s i \<or> reported (wphase (wjobs s ! i)) \<noteq> None \<or> stopped (pport s))
     \<and> (kclosed (pport s) \<longrightarrow> stopped (pport s)) \<and> (\<not> kclosed (pport s) \<longrightarrow> online (pport s))"

definition startedPort :: "kport \<Rightarrow> bool" where
  "startedPort p \<longleftrightarrow> online p \<and> trOpen p \<and> \<not> kclosed p \<and> \<not> stopped p"

lemma blocks_nil [simp]: "blocks k [] = []"
  by (simp add: blocks_def)

lemma blocks_snoc [simp]: "blocks k (js @ [j]) = blocks k js @ map (Pair (Some (k + length js))) (landed j)"
  by (simp add: blocks_def enumerate_append_eq)

lemma landed_phase [simp]: "landed (js[i := (js ! i)\<lparr>wphase := ph\<rparr>] ! k) = landed (js ! k)"
  by (cases "i < length js"; cases "k = i") (simp_all add: landed_def list_update_beyond)

lemma blocks_phase [simp]: "blocks k (js[i := (js ! i)\<lparr>wphase := ph\<rparr>]) = blocks k js"
proof -
  have "map (\<lambda>(n, j). map (Pair (Some n)) (landed j)) (enumerate k (js[i := (js ! i)\<lparr>wphase := ph\<rparr>]))
      = map (\<lambda>(n, j). map (Pair (Some n)) (landed j)) (enumerate k js)"
    by (intro nth_equalityI) (simp_all add: nth_enumerate_eq)
  then show ?thesis by (simp add: blocks_def)
qed

lemma ofWrites_append [simp]: "ofWrites (xs @ ys) = ofWrites xs @ ofWrites ys"
  by (simp add: ofWrites_def)

lemma ofWrites_tagged [simp]: "ofWrites (map (Pair (Some i)) b) = map (Pair (Some i)) b" "ofWrites (map (Pair None) b) = []"
  by (induction b) (simp_all add: ofWrites_def)

lemma snoc_update: "Suc i = length xs \<Longrightarrow> xs[i := x] = butlast xs @ [x]"
  by (cases xs rule: rev_cases) auto

lemma landed_more: "landed (j\<lparr>wdone := wdone j + n\<rparr>) = landed j @ take n (remaining j)"
  by (simp add: landed_def remaining_def take_add)

text \<open>Steps that leave the writes and the wire alone.\<close>

lemma inv_frame:
  assumes "pw_inv s" "slot t = slot s" "wjobs t = wjobs s" "ofWrites (wire t) = ofWrites (wire s)"
    and "\<And>i. awaited s i \<Longrightarrow> awaited t i \<or> reported (wphase (wjobs s ! i)) \<noteq> None \<or> stopped (pport t)"
    and "stopped (pport s) \<longrightarrow> stopped (pport t)"
    and "kclosed (pport t) \<longrightarrow> stopped (pport t)" "\<not> kclosed (pport t) \<longrightarrow> online (pport t)"
  shows "pw_inv t"
  using assms(1,5-8) unfolding pw_inv_def assms(2,3,4) by blast

lemma failStart_simps [simp]:
  "slot (failStart s) = slot s" "wjobs (failStart s) = wjobs s" "wire (failStart s) = wire s" "wctls (failStart s) = wctls s"
  "wwriter (failStart s) = wwriter s" "kclosed (pport (failStart s))"
  by (simp_all add: failStart_def)

lemma failStart_stops: "pw_inv s \<Longrightarrow> stopped (pport (failStart s))"
  by (auto simp: failStart_def pw_inv_def)

text \<open>The slot is free, so every write before has let go of it.\<close>

lemma inv_begin:
  assumes "pw_inv s" "slot s = None"
    and "wjobs t = wjobs (beginWrite k f s)" "slot t = slot (beginWrite k f s)" "wire t = wire s" "pport t = pport s"
    and "awaited t (length (wjobs s))" "\<And>i. awaited s i \<Longrightarrow> awaited t i"
  shows "pw_inv t"
  using assms
  by (auto simp: pw_inv_def beginWrite_def job_ok_def landed_def nth_append less_Suc_eq)

lemma job_phase_ok:
  assumes "pw_inv s" "j \<in> set ((wjobs s)[i := (wjobs s ! i)\<lparr>wphase := ph\<rparr>])" "i < length (wjobs s)"
    and "succeeded ph \<longrightarrow> wdone (wjobs s ! i) = length (wframe (wjobs s ! i))"
    and "case ph of Released _ \<Rightarrow> wkind (wjobs s ! i) = KissTX | Reported _ \<Rightarrow> wkind (wjobs s ! i) = CtlTX | _ \<Rightarrow> True"
  shows "job_ok j"
proof -
  have "job_ok (wjobs s ! i)" "\<forall>j\<in>set (wjobs s). job_ok j" using assms(1,3) by (auto simp: pw_inv_def)
  moreover have "j \<in> insert ((wjobs s ! i)\<lparr>wphase := ph\<rparr>) (set (wjobs s))"
    using assms(2) set_update_subset_insert by fastforce
  ultimately show ?thesis using assms(4,5) by (cases ph) (auto simp: job_ok_def)
qed

text \<open>A write moves to another phase: the slot, and whether it has reported, must follow.\<close>

lemma inv_phase:
  assumes "pw_inv s" "i < length (wjobs s)" "t = (setPhase i ph s)\<lparr>slot := sl\<rparr>"
    and "succeeded ph \<longrightarrow> wdone (wjobs s ! i) = length (wframe (wjobs s ! i))"
    and "case ph of Released _ \<Rightarrow> wkind (wjobs s ! i) = KissTX | Reported _ \<Rightarrow> wkind (wjobs s ! i) = CtlTX | _ \<Rightarrow> True"
    and "reported (wphase (wjobs s ! i)) \<noteq> None \<longrightarrow> reported ph \<noteq> None"
    and "if holding ph then slot s = Some i \<and> sl = slot s else sl = (if holding (wphase (wjobs s ! i)) then None else slot s)"
  shows "pw_inv t"
proof -
  note inv = assms(1) [unfolded pw_inv_def]
  have w: "ofWrites (wire t) = blocks 0 (wjobs t)" using inv by (simp add: assms(3) setPhase_def)
  have j: "\<forall>j\<in>set (wjobs t). job_ok j" using job_phase_ok [OF assms(1) _ assms(2,4,5)] by (simp add: assms(3) setPhase_def)
  have h: "holding (wphase (wjobs s ! k)) \<longleftrightarrow> slot s = Some k" if "k < length (wjobs s)" for k using inv that by blast
  have "holding (wphase (wjobs t ! k)) \<longleftrightarrow> slot t = Some k" if "k < length (wjobs t)" for k
    using that h [of k] h [of i] assms(2,7) by (cases "k = i") (auto simp: assms(3) setPhase_def split: if_splits)
  moreover have "slot t = Some k \<longrightarrow> Suc k = length (wjobs t)" for k
    using inv assms(7) by (auto simp: assms(3) setPhase_def split: if_splits)
  moreover have "awaited t k \<or> reported (wphase (wjobs t ! k)) \<noteq> None \<or> stopped (pport t)" if "k < length (wjobs t)" for k
    using inv that assms(2,6) by (cases "k = i") (auto simp: assms(3) setPhase_def awaited_def)
  ultimately show ?thesis using w j inv by (simp add: pw_inv_def assms(3) setPhase_def)
qed

lemma inv_land:
  assumes "pw_inv s" "slot s = Some i" "wphase (wjobs s ! i) = Sending" "n \<le> length (remaining (wjobs s ! i))"
  shows "pw_inv (landBytes i n s)"
proof -
  note inv = assms(1) [unfolded pw_inv_def]
  have i: "Suc i = length (wjobs s)" using inv assms(2) by blast
  obtain js j where js: "wjobs s = js @ [j]" "length js = i" "wjobs s ! i = j"
    using i by (cases "wjobs s" rule: rev_cases) auto
  have b: "ofWrites (wire (landBytes i n s)) = blocks 0 (wjobs (landBytes i n s))"
    using inv js by (simp add: landBytes_def Let_def snoc_update landed_more)
  have "job_ok j" using inv js by simp
  then have "job_ok (j\<lparr>wdone := wdone j + n\<rparr>)" using assms(3,4) js by (auto simp: job_ok_def remaining_def)
  then have "\<forall>j\<in>set (wjobs (landBytes i n s)). job_ok j" using inv js by (auto simp: landBytes_def Let_def snoc_update)
  moreover have "wphase (wjobs (landBytes i n s) ! k) = wphase (wjobs s ! k)" if "k < length (wjobs s)" for k
    using js that by (auto simp: landBytes_def Let_def snoc_update nth_append)
  moreover have "length (wjobs (landBytes i n s)) = length (wjobs s)" "slot (landBytes i n s) = slot s"
    "pport (landBytes i n s) = pport s" "awaited (landBytes i n s) = awaited s"
    by (simp_all add: landBytes_def Let_def awaited_def fun_eq_iff)
  ultimately show ?thesis using inv b by (simp add: pw_inv_def)
qed

lemma settle_inv:
  assumes "pw_inv s" "i < length (wjobs s)"
  shows "pw_inv (settle i s)"
proof -
  have ok: "job_ok (wjobs s ! i)" using assms by (simp add: pw_inv_def)
  have sl: "(setPhase i ph s)\<lparr>slot := slot s\<rparr> = setPhase i ph s" for ph by (simp add: setPhase_def)
  have h: "holding (wphase (wjobs s ! i)) \<longleftrightarrow> slot s = Some i" using assms by (simp add: pw_inv_def)
  consider (a) r where "wkind (wjobs s ! i) = KissTX" "wphase (wjobs s ! i) = Returned r"
    | (b) r where "wkind (wjobs s ! i) = KissTX" "wphase (wjobs s ! i) = Released r"
    | (c) r where "wkind (wjobs s ! i) = CtlTX" "wphase (wjobs s ! i) = Returned r"
    | (d) r where "wkind (wjobs s ! i) = CtlTX" "wphase (wjobs s ! i) = Reported r"
    | (e) "settle i s = s"
    by (cases "wkind (wjobs s ! i)"; cases "wphase (wjobs s ! i)") (auto simp: settle_def)
  then show ?thesis
  proof cases
    case a
    then have "settle i s = (setPhase i (Released r) s)\<lparr>slot := None\<rparr>" by (simp add: settle_def)
    then show ?thesis by (rule inv_phase [OF assms]) (use ok a in \<open>auto simp: job_ok_def\<close>)
  next
    case b
    then have "settle i s = (setPhase i (Over r) s)\<lparr>slot := slot s\<rparr>" by (simp add: settle_def sl)
    then show ?thesis by (rule inv_phase [OF assms]) (use ok b in \<open>auto simp: job_ok_def\<close>)
  next
    case c
    then have "settle i s = (setPhase i (Reported r) s)\<lparr>slot := slot s\<rparr>" by (simp add: settle_def sl)
    then show ?thesis by (rule inv_phase [OF assms]) (use ok c h in \<open>auto simp: job_ok_def\<close>)
  next
    case d
    then have "settle i s = (setPhase i (Over r) s)\<lparr>slot := None\<rparr>" by (simp add: settle_def)
    then show ?thesis by (rule inv_phase [OF assms]) (use ok d in \<open>auto simp: job_ok_def\<close>)
  qed (use assms in simp)
qed

lemma returned_inv:
  assumes "pw_inv s" "slot s = Some i" "wphase (wjobs s ! i) = Sending" "ok \<longrightarrow> remaining (wjobs s ! i) = []"
  shows "pw_inv (setPhase i (Returned ok) s)"
proof -
  have i: "i < length (wjobs s)" using assms(1,2) by (auto simp: pw_inv_def)
  then have "wdone (wjobs s ! i) \<le> length (wframe (wjobs s ! i))" using assms(1) by (auto simp: pw_inv_def job_ok_def)
  then have d: "ok \<longrightarrow> wdone (wjobs s ! i) = length (wframe (wjobs s ! i))" using assms(4) by (auto simp: remaining_def)
  have "setPhase i (Returned ok) s = (setPhase i (Returned ok) s)\<lparr>slot := slot s\<rparr>" by (simp add: setPhase_def)
  then show ?thesis by (rule inv_phase [OF assms(1) i]) (use d assms(2,3) in auto)
qed

lemma landBytes_phase:
  assumes "pw_inv s" "slot s = Some i"
  shows "slot (landBytes i n s) = Some i" "wphase (wjobs (landBytes i n s) ! i) = wphase (wjobs s ! i)"
proof -
  have "i < length (wjobs s)" using assms by (auto simp: pw_inv_def)
  then show "slot (landBytes i n s) = Some i" "wphase (wjobs (landBytes i n s) ! i) = wphase (wjobs s ! i)"
    using assms(2) by (simp_all add: landBytes_def Let_def)
qed

lemma awaited_setCtl:
  "\<lbrakk>awaited s i; wctls s ! c \<noteq> CAwait i\<rbrakk> \<Longrightarrow> awaited (setCtl c st s) i"
  by (auto simp: awaited_def setCtl_def in_set_conv_nth) (metis nth_list_update_neq)

lemma pw_step_inv: "pw_step s t \<Longrightarrow> pw_inv s \<Longrightarrow> pw_inv t"
proof (induction rule: pw_step.induct)
  case (acquires s f)
  show ?case by (rule inv_begin [OF acquires(3,2), where k = KissTX and f = f]) (use acquires(1) in \<open>auto simp: awaited_def beginWrite_def\<close>)
next
  case (ctlAcquires c s b)
  have "awaited (setCtl c (CAwait (length (wjobs s))) (beginWrite CtlTX b s)) i" if "awaited s i" for i
    using awaited_setCtl [of s i c "CAwait (length (wjobs s))"] that ctlAcquires(2) by (auto simp: awaited_def setCtl_def beginWrite_def)
  moreover have "awaited (setCtl c (CAwait (length (wjobs s))) (beginWrite CtlTX b s)) (length (wjobs s))"
    using ctlAcquires(1) by (auto simp: awaited_def setCtl_def beginWrite_def set_update_memI)
  ultimately show ?case
    by (intro inv_begin [OF ctlAcquires(4,3), where k = CtlTX and f = b]) (simp_all add: setCtl_def beginWrite_def)
next
  case (writerDone s i ok)
  show ?case
    by (rule inv_frame [OF writerDone(3)])
      (use writerDone failStart_stops [OF writerDone(3)] in \<open>auto simp: writerResult_def awaited_def pw_inv_def\<close>)
next
  case (ctlDone c s i ok)
  show ?case
    by (rule inv_frame [OF ctlDone(4)])
      (use ctlDone awaited_setCtl [of s _ c "CEnd ok"] in \<open>auto simp: setCtl_def pw_inv_def\<close>)
next
  case (lands s i n)
  then show ?case by (intro inv_land)
next
  case (writeFails s i n)
  have l: "pw_inv (landBytes i n s)" using writeFails by (intro inv_land)
  show ?case by (rule returned_inv [OF l]) (use landBytes_phase [OF writeFails(5,1)] writeFails(2) in simp_all)
next
  case (writeRefused s i)
  then show ?case by (intro returned_inv) simp_all
next
  case (written s i)
  then show ?case by (intro returned_inv) simp_all
next
  case (settles i s)
  then show ?case by (intro settle_inv)
next
  case (writerTimeout s i)
  show ?case by (rule inv_frame [OF writerTimeout(2)]) (use failStart_stops [OF writerTimeout(2)] in auto)
next
  case (ctlTimeout c s i)
  show ?case by (rule inv_frame [OF ctlTimeout(3)]) (use failStart_stops [OF ctlTimeout(3)] in \<open>auto simp: setCtl_def\<close>)
next
  case (readerFails s)
  show ?case by (rule inv_frame [OF readerFails]) (use failStart_stops [OF readerFails] in \<open>auto simp: awaited_def\<close>)
next
  case (send s f)
  show ?case by (rule inv_frame [OF send]) (use send in \<open>auto simp: awaited_def pw_inv_def Send_def Let_def\<close>)
next
  case (sendCommand s cmd val)
  show ?case by (rule inv_frame [OF sendCommand]) (use sendCommand in \<open>auto simp: awaited_def pw_inv_def SendCommand_def Let_def\<close>)
next
  case (takes s f q)
  show ?case by (rule inv_frame [OF takes(3)]) (use takes in \<open>auto simp: awaited_def pw_inv_def\<close>)
next
  case (writerStops s)
  show ?case by (rule inv_frame [OF writerStops(2)]) (use writerStops in \<open>auto simp: pw_inv_def\<close>)
next
  case (ctlCalls s b)
  show ?case by (rule inv_frame [OF ctlCalls(3)]) (use ctlCalls in \<open>auto simp: awaited_def pw_inv_def\<close>)
next
  case (ctlStops c s)
  show ?case by (rule inv_frame [OF ctlStops(3)]) (use ctlStops in \<open>auto simp: setCtl_def pw_inv_def\<close>)
next
  case (closes s)
  show ?case by (rule inv_frame [OF closes]) (use closes in \<open>auto simp: closeStart_def awaited_def pw_inv_def\<close>)
next
  case (exits s b)
  show ?case by (rule inv_frame [OF exits(3)]) (use exits in \<open>auto simp: exitWrites_def awaited_def pw_inv_def\<close>)
next
  case (trCloses s)
  show ?case by (rule inv_frame [OF trCloses(2)]) (use trCloses in \<open>auto simp: trClose_def awaited_def pw_inv_def\<close>)
qed

interpretation port_writes: invariant_system "\<lambda>s. \<exists>p. startedPort p \<and> s = newPw p" pw_step pw_inv
proof unfold_locales
  show "pw_inv s" if "\<exists>p. startedPort p \<and> s = newPw p" for s
    using that by (auto simp: pw_inv_def newPw_def startedPort_def ofWrites_def)
qed (rule pw_step_inv)

section \<open>What a truncated write is followed by\<close>

text \<open>
  A control write that fails part way reports the error and frees the slot, but the port goes on: the next frame follows
  the stump of the control frame. And \<open>ExitKISS\<close> does not take the slot: its bytes can land inside a frame under way.
\<close>

definition anyPort :: kport where
  "anyPort = fst (snd (Start True True (NewPort 0 \<lparr>TXDelay = None, Persistence = None, SlotTime = None, TXTail = None, FullDuplex = None, OTABaud = 0\<rparr>)))"

definition awaitKiss :: "bytes \<Rightarrow> pw \<Rightarrow> pw" where
  "awaitKiss f s = (beginWrite KissTX (WrapData 0 f) s)\<lparr>wwriter := WAwait (length (wjobs s))\<rparr>"

lemma anyPort_started: "startedPort anyPort"
  by (simp add: startedPort_def anyPort_def Start_def NewPort_def)

text \<open>A frame is queued, taken and its write begun.\<close>

lemma kiss_begins:
  assumes "wwriter s = WLoop" "txCh (pport s) = []" "slot s = None"
  shows "pw_step\<^sup>*\<^sup>* s (awaitKiss f s)"
proof -
  let ?a = "s\<lparr>pport := Send (pport s) f\<rparr>"
  let ?b = "?a\<lparr>pport := (pport ?a)\<lparr>txCh := []\<rparr>, wwriter := WAcquire (WrapData 0 f)\<rparr>"
  have a: "pw_step s ?a" by (rule pw_step.send)
  have b: "pw_step ?a ?b" using assms by (intro pw_step.takes) (simp_all add: Send_def txQueueSize_def)
  have "pw_step ?b ((beginWrite KissTX (WrapData 0 f) ?b)\<lparr>wwriter := WAwait (length (wjobs ?b))\<rparr>)"
    using assms(3) by (intro pw_step.acquires) simp_all
  moreover have "(beginWrite KissTX (WrapData 0 f) ?b)\<lparr>wwriter := WAwait (length (wjobs ?b))\<rparr> = awaitKiss f s"
    using assms(2) by (cases s; cases "pport s") (simp add: awaitKiss_def beginWrite_def Send_def txQueueSize_def Let_def)
  ultimately show ?thesis using a b by (auto intro: converse_rtranclp_into_rtranclp)
qed

definition exitRun :: "pw" where
  "exitRun = landBytes 0 3 (exitWrites [0xC0, 0xFF, 0xC0] (closeStart (landBytes 0 2 (awaitKiss [0x41, 0x42] (newPw anyPort)))))"

lemmas run_unfold = newPw_def anyPort_def Start_def NewPort_def awaitKiss_def beginWrite_def landBytes_def closeStart_def
  exitWrites_def remaining_def Let_def setCtl_def setPhase_def settle_def

lemma exit_inside_frame:
  "pw_step\<^sup>*\<^sup>* (newPw anyPort) exitRun"
  "map snd (wire exitRun) = take 2 (WrapData 0 [0x41, 0x42]) @ [0xC0, 0xFF, 0xC0] @ drop 2 (WrapData 0 [0x41, 0x42])"
proof -
  let ?a = "awaitKiss [0x41, 0x42] (newPw anyPort)"
  let ?b = "landBytes 0 2 ?a"
  let ?c = "closeStart ?b"
  let ?d = "exitWrites [0xC0, 0xFF, 0xC0] ?c"
  have f: "WrapData 0 [0x41, 0x42] = [0xC0, 0x00, 0x41, 0x42, 0xC0]" by code_simp
  have a: "pw_step\<^sup>*\<^sup>* (newPw anyPort) ?a" by (rule kiss_begins) (simp_all add: run_unfold)
  have b: "pw_step ?a ?b" by (rule pw_step.lands) (simp_all add: run_unfold f)
  have c: "pw_step ?b ?c" by (rule pw_step.closes)
  have d: "pw_step ?c ?d" by (rule pw_step.exits) (simp_all add: run_unfold)
  have "pw_step ?d exitRun" unfolding exitRun_def by (rule pw_step.lands) (simp_all add: run_unfold f)
  then show "pw_step\<^sup>*\<^sup>* (newPw anyPort) exitRun" using a b c d by (meson rtranclp.rtrancl_into_rtrancl)
  show "map snd (wire exitRun) = take 2 (WrapData 0 [0x41, 0x42]) @ [0xC0, 0xFF, 0xC0] @ drop 2 (WrapData 0 [0x41, 0x42])"
    unfolding f by (simp add: exitRun_def run_unfold f)
qed

definition stumpRun :: "bytes \<Rightarrow> pw" where
  "stumpRun f =
     awaitKiss f
       (settle 0 (settle 0 (setPhase 0 (Returned False)
          (landBytes 0 2 (setCtl 0 (CAwait 0) (beginWrite CtlTX [gaiaStart, gaiaVersion, 0, 0] ((newPw anyPort)\<lparr>wctls := [CAcquire [gaiaStart, gaiaVersion, 0, 0]]\<rparr>)))))))"

lemma stump_followed:
  "pw_step\<^sup>*\<^sup>* (newPw anyPort) (stumpRun f)" "\<not> stopped (pport (stumpRun f))"
  "map (\<lambda>j. (wkind j, wphase j, landed j)) (wjobs (stumpRun f)) = [(CtlTX, Over False, [gaiaStart, gaiaVersion]), (KissTX, Sending, [])]"
proof -
  let ?g = "[gaiaStart, gaiaVersion, 0, 0]"
  let ?a = "(newPw anyPort)\<lparr>wctls := [CAcquire ?g]\<rparr>"
  let ?b = "setCtl 0 (CAwait 0) (beginWrite CtlTX ?g ?a)"
  let ?c = "setPhase 0 (Returned False) (landBytes 0 2 ?b)"
  let ?d = "settle 0 (settle 0 ?c)"
  have "pw_step (newPw anyPort) ((newPw anyPort)\<lparr>wctls := wctls (newPw anyPort) @ [CAcquire ?g]\<rparr>)"
    by (rule pw_step.ctlCalls) (simp_all add: run_unfold ctlWritable_def)
  then have a: "pw_step (newPw anyPort) ?a" by (simp add: newPw_def)
  have "pw_step ?a (setCtl 0 (CAwait (length (wjobs ?a))) (beginWrite CtlTX ?g ?a))"
    by (rule pw_step.ctlAcquires) (simp_all add: run_unfold)
  then have b: "pw_step ?a ?b" by (simp add: newPw_def)
  have c: "pw_step ?b ?c" by (rule pw_step.writeFails) (simp_all add: run_unfold)
  have d: "pw_step ?c (settle 0 ?c)" "pw_step (settle 0 ?c) ?d" by (rule pw_step.settles, simp add: run_unfold)+
  have "pw_step\<^sup>*\<^sup>* ?d (stumpRun f)" unfolding stumpRun_def by (rule kiss_begins) (simp_all add: run_unfold)
  moreover have "pw_step\<^sup>*\<^sup>* (newPw anyPort) ?d" using a b c d by (meson rtranclp.rtrancl_into_rtrancl r_into_rtranclp)
  ultimately show "pw_step\<^sup>*\<^sup>* (newPw anyPort) (stumpRun f)" by (rule rtranclp_trans [rotated])
  show "\<not> stopped (pport (stumpRun f))"
    "map (\<lambda>j. (wkind j, wphase j, landed j)) (wjobs (stumpRun f)) = [(CtlTX, Over False, [gaiaStart, gaiaVersion]), (KissTX, Sending, [])]"
    by (simp_all add: stumpRun_def run_unfold landed_def)
qed

end
