(* ===== verification/Props_Edge.thy ===== *)
theory Props_Edge
  imports Sdp Bt_Link App Transports Port_Write
begin

text \<open>
  The properties at the edge of the daemon: the writes of a port, discovery of a Bluetooth channel, references to
  serial devices, and the requests of the monitoring API.
\<close>

section \<open>Writes of a port\<close>

text \<open>
  C10.  Writes never mix: whatever the radio does to them and whoever gives up waiting, in every state a started port reaches,
  the bytes its writes put on the wire are one block per write, KISS frames and control frames alike, in the order in which
  they took the slot; only the last can still be under way; a write that succeeded is there whole; and a write that nobody
  waits for any more and that has not reported either has stopped the port.
\<close>

theorem writes_never_interleave:
  assumes "startedPort p" "pw_step\<^sup>*\<^sup>* (newPw p) s"
  shows "ofWrites (wire s) = blocks 0 (wjobs s)
    \<and> (\<forall>i<length (wjobs s). holding (wphase (wjobs s ! i)) \<longrightarrow> Suc i = length (wjobs s))
    \<and> (\<forall>j\<in>set (wjobs s). succeeded (wphase j) \<longrightarrow> landed j = wframe j)
    \<and> (\<forall>i<length (wjobs s). awaited s i \<or> reported (wphase (wjobs s ! i)) \<noteq> None \<or> stopped (pport s))"
proof -
  have "pw_inv s" using port_writes.reachable_inv [OF _ assms(2)] assms(1) by blast
  then show ?thesis unfolding pw_inv_def by (auto simp: job_ok_def landed_def)
qed

theorem writes_never_interleave_witness:
  "ofWrites (wire exitRun) = map (Pair (Some 0)) (WrapData 0 [0x41, 0x42])"
proof -
  have f: "WrapData 0 [0x41, 0x42] = [0xC0, 0x00, 0x41, 0x42, 0xC0]" by code_simp
  have "blocks 0 (wjobs exitRun) = map (Pair (Some 0)) (WrapData 0 [0x41, 0x42])"
    unfolding f by (simp add: exitRun_def run_unfold f blocks_def landed_def)
  then show ?thesis using writes_never_interleave [OF anyPort_started exit_inside_frame(1)] by simp
qed

section \<open>Service discovery\<close>

text \<open>
  C34.  The channel of a radio is found wherever its record puts it: on every response that encodes a tree of data elements,
  in any of the size forms and any nesting, \<^verbatim>\<open>parseRFCOMMChannel\<close> returns the number that follows the RFCOMM protocol in the
  first sequence, depth first, that has one, and reports its absence otherwise; and any response at all, malformed ones
  included, is read alike by builds with 32-bit and 64-bit integers.
\<close>

theorem sdp_channel_found:
  assumes "w \<in> {32, 64}" "list_all wf_elem es" "length hdr = 6" "length resp < 2 ^ 31"
  shows "parseRFCOMMChannel w ([0x07] @ hdr @ concat (map encElem es) @ [0x00])
      = (case searchTree es False of Some ch \<Rightarrow> Inr ch | None \<Rightarrow> Inl NoRFCOMMChannel)
    \<and> parseRFCOMMChannel 32 resp = parseRFCOMMChannel 64 resp"
proof -
  have "32 \<le> w" using assms(1) by auto
  note p = parse_response [OF this assms(2,3)]
  have "length (drop 7 resp) < 2 ^ 31" using assms(4) by simp
  then have "sdpLoop 32 (drop 7 resp) 0 False = sdpLoop 64 (drop 7 resp) 0 False" by (rule sdpLoop_width)
  then show ?thesis unfolding p by (simp add: parseRFCOMMChannel_def findRFCOMMChannel_def)
qed

text \<open>The protocol list of a serial-port service: L2CAP, then RFCOMM on channel 3.\<close>

definition sppRecord :: "sdp list" where
  "sppRecord =
     [Node 6 5 [Leaf 1 1 [0x00, 0x04], Node 6 5 [Node 6 5 [Leaf 3 1 [0x01, 0x00]], Node 6 5 [Leaf 3 1 [0x00, 0x03], Leaf 1 0 [0x03]]]]]"

lemma sppRecord_facts: "list_all wf_elem sppRecord" "searchTree sppRecord False = Some 3"
  by code_simp+

theorem sdp_channel_found_witness:
  "parseRFCOMMChannel 32 ([0x07] @ [0, 1, 0, 22, 0, 19] @ concat (map encElem sppRecord) @ [0x00]) = Inr 3
   \<and> parseRFCOMMChannel 32 [0x07, 0, 1, 0, 5, 0, 2, 0x37, 0xFF, 0xFF, 0xFF, 0xFF] = parseRFCOMMChannel 64 [0x07, 0, 1, 0, 5, 0, 2, 0x37, 0xFF, 0xFF, 0xFF, 0xFF]"
  using sdp_channel_found [of 32 sppRecord "[0, 1, 0, 22, 0, 19]" "[0x07, 0, 1, 0, 5, 0, 2, 0x37, 0xFF, 0xFF, 0xFF, 0xFF]"] sppRecord_facts
  by simp

section \<open>Serial devices\<close>

lemma resolve_unique:
  assumes "take 4 ref = ''usb:''" "Resolve fo (Some ds) ref = Inr n"
  shows "\<exists>v q r e. parseUSBRef ref = Inr (v, q, r) \<and> filter (matchesRef fo v q r) ds = [e] \<and> n = pdName e"
  using assms by (auto simp: Resolve_def split: sum.splits list.splits)

lemma listed_entry: "ListPorts fo srt bt (Some ds) = Inr ps \<Longrightarrow> (\<And>xs. set (srt xs) = set xs) \<Longrightarrow> d \<in> set ds \<Longrightarrow> listEntry fo d \<in> set ps"
  by (auto simp: ListPorts_def)

lemma listEntry_device [simp]: "lpDevice (listEntry fo d) = pdName d"
  by (simp add: listEntry_def Let_def)

lemma filter_single: "x \<in> set xs \<Longrightarrow> P x \<Longrightarrow> length (filter P xs) = 1 \<Longrightarrow> filter P xs = [x]"
proof -
  assume "x \<in> set xs" "P x" "length (filter P xs) = 1"
  then have "x \<in> set (filter P xs)" "\<exists>y. filter P xs = [y]" by (simp_all add: length_Suc_conv)
  then show ?thesis by (auto simp del: set_filter)
qed

text \<open>
  C35.  A reference the daemon lists leads back to its device: every attached USB device that no other attached device
  shares its identifiers with is listed with a reference that resolves to it, whatever order the list is sorted in; and a
  reference never resolves to a guess: when it resolves, exactly one attached device has the identifiers it names.
\<close>

theorem usb_reference_resolves:
  assumes "ListPorts fo srt bt (Some ds) = Inr ps" "\<And>xs. set (srt xs) = set xs"
    and "d \<in> set ds" "usbDevice d" "length (filter (sameIds fo d) ds) = 1"
  shows "(\<exists>p\<in>set ps. lpDevice p = pdName d \<and> Resolve fo (Some ds) (lpRef p) = Inr (pdName d))
    \<and> (take 4 ref = ''usb:'' \<and> Resolve fo (Some ds) ref = Inr n \<longrightarrow>
        (\<exists>v q r e. parseUSBRef ref = Inr (v, q, r) \<and> filter (matchesRef fo v q r) ds = [e] \<and> n = pdName e))"
proof -
  have "filter (sameIds fo d) ds = [d]" using assms(3-5) by (intro filter_single sameIds_refl)
  then have "Resolve fo (Some ds) (lpRef (listEntry fo d)) = Inr (pdName d)" using resolve_listed [OF assms(4)] by simp
  then show ?thesis using listed_entry [OF assms(1,2,3)] resolve_unique by (meson listEntry_device)
qed

definition twoDevices :: "portDetail list" where
  "twoDevices =
     [\<lparr>pdName = ''/dev/ttyUSB0'', IsUSB = True, pdVID = ''0403'', pdPID = ''6001'', pdSerial = ''A50285BI'', Product = []\<rparr>,
      \<lparr>pdName = ''/dev/ttyUSB1'', IsUSB = True, pdVID = ''10C4'', pdPID = ''EA60'', pdSerial = [], Product = ''CP2102''\<rparr>]"

definition noFolding :: folding where
  "noFolding = \<lparr>fToLower = (\<lambda>s. s), fEqualFold = (\<lambda>s t. s = t)\<rparr>"

lemma twoDevices_facts:
  "\<forall>d\<in>set twoDevices. usbDevice d" "\<forall>d\<in>set twoDevices. length (filter (sameIds noFolding d) twoDevices) = 1"
  "Resolve noFolding (Some twoDevices) ''usb:10c4:Ea60'' = Inr ''/dev/ttyUSB1''" "length twoDevices = 2"
  by code_simp+

theorem usb_reference_resolves_witness:
  "(\<exists>p\<in>set (rev (map (listEntry noFolding) twoDevices)).
      lpDevice p = pdName (twoDevices ! 1) \<and> Resolve noFolding (Some twoDevices) (lpRef p) = Inr (pdName (twoDevices ! 1)))
   \<and> (\<exists>v q r e. parseUSBRef ''usb:10c4:Ea60'' = Inr (v, q, r) \<and> filter (matchesRef noFolding v q r) twoDevices = [e]
        \<and> ''/dev/ttyUSB1'' = pdName e)"
proof -
  have "twoDevices ! 1 \<in> set twoDevices" by (simp add: twoDevices_facts)
  then show ?thesis
    using usb_reference_resolves [of noFolding rev "[]" twoDevices "rev (map (listEntry noFolding) twoDevices)" "twoDevices ! 1"
        "''usb:10c4:Ea60''" "''/dev/ttyUSB1''"] twoDevices_facts
    by (simp add: ListPorts_def)
qed

section \<open>Requests of the monitoring API\<close>

text \<open>
  C14.  A web page cannot act on the daemon: whatever request the API serves, either the daemon's state is what it was, or the
  host named is one the daemon answers to, the method is POST, the header no foreign page can set is there, the origin (if
  there is one) is the same host, the path is that of the reconnect action with a port number, and the effect is the one the
  operator's reconnect of that port has.
\<close>

theorem reconnect_guarded:
  "fst (serveRequest fo hosts urlHost ord clk rq b) = b
   \<or> (hostGuard fo hosts (rqHost rq) \<and> rqMethod rq = ''POST'' \<and> rqRequestedWith rq = ''tncd''
      \<and> (rqOrigin rq = [] \<or> (\<exists>h. urlHost (rqOrigin rq) = Some h \<and> EqualFold fo h (rqHost rq)))
      \<and> (\<exists>n p. rqPath rq = ''/api/ports/'' @ n @ ''/reconnect'' \<and> Atoi n = Some p \<and> 0 \<le> p
           \<and> fst (serveRequest fo hosts urlHost ord clk rq b) = snd (ReconnectPort ord clk b p)))"
  using serveRequest_changes [OF prod.collapse [symmetric]] by blast

end
