(* ===== verification/Spec2Isabelle.thy ===== *)
theory Spec2Isabelle
  imports Props_Codec Props_Link Props_L2 Props_Bridge Props_Rig Props_Config Props_Kisstcp Props_Edge
begin

text \<open>
  A verification library for \<open>tncd\<close>, a packet-radio network daemon written in Go.

  \<^bold>\<open>The program.\<close> A radio delivers a KISS byte stream (\<open>kiss/framing.go\<close>), on some radios
  interleaved with a control protocol (\<open>kiss/demux.go\<close>, \<open>benshi/\<close>). The frames are AX.25 frames
  (\<open>ax25/\<close>); the bridge (\<open>internal/bridge\<close>) hands them to the connected-mode layer
  (\<open>ax25/l2\<close>), which keeps one connection per port and pair of callsigns and reports through hooks.
  Client programs talk AGWPE over TCP (\<open>agwpe/\<close>, \<open>internal/frontend/agwpe\<close>), raw KISS over TCP
  (\<open>internal/frontend/kisstcp\<close>), the rigctl line protocol (\<open>internal/frontend/rigctl\<close>) or HTTP
  (\<open>internal/frontend/api\<close>). All protocol state is owned by one goroutine, the event loop of
  \<open>internal/engine\<close>, to which socket readers, radio readers and timers post functions. \<open>internal/config\<close> reads the
  configuration and \<open>internal/app\<close> puts the parts together.

  \<^bold>\<open>Theories.\<close>
  \<^item> \<open>Prelude\<close>: byte and list lemmas, the results of fallible code (\<open>'e + 'a\<close>), Go strings as
    character lists, the parameter \<open>unicode\<close> for what the standard library does to non-ASCII text.
  \<^item> \<open>Address\<close>, \<open>Ax25_Frame\<close>, \<open>Xid\<close> model \<open>ax25/address.go\<close>, \<open>ax25/frame.go\<close>, \<open>ax25/xid.go\<close>; their
    properties are in \<open>Props_Codec\<close>.
  \<^item> \<open>Engine\<close> models \<open>internal/engine/engine.go\<close> twice: as the pure operations on the queue and the
    timers that the connected-mode layer uses (\<open>Do\<close>, \<open>After\<close>, \<open>Cancel\<close>, and a timer callback in its
    two halves, \<open>Fire\<close> for the test of the cancelled flag and \<open>Post\<close> for the post that may come
    later), and as the step relation \<open>loop_step\<close> of the loop with any number of concurrent posters.
  \<^item> \<open>L2_Conn\<close>, \<open>L2_Table\<close>, \<open>L2_Data\<close>, \<open>L2_Dispatch\<close> model \<open>ax25/l2\<close> method by method, in the
    order of the source: the connection record and timing, the table, timers and establishment, the
    sending side, and the receive dispatch. \<open>L2_Invariant\<close> closes them with \<open>l2_step\<close>, one rule for every way
    a posted function can change the table, and \<open>runClosure\<close> for the timer functions.
  \<^item> \<open>Seq_Space\<close> holds the arithmetic of sequence numbers; \<open>L2_Inv\<close>, \<open>L2_Transfer\<close>, \<open>L2_Handlers\<close>
    and \<open>L2_Invariant\<close> prove the invariant of the table operation by operation.
  \<^item> \<open>L2_Delivery\<close> states the abstract receivers (in order, and with a reorder set) and proves that
    the two receivers of the code refine them; \<open>L2_Sending\<close> does the sending side, \<open>L2_Estimator\<close> compares the
    round-trip estimator with an exact reference. \<open>L2_Timers\<close> proves that a timer whose id a connection stores is always
    armed, firing or posted and that cancelling one timer stops no other; \<open>L2_Tended\<close> that every reachable connection
    that waits for an answer stores T1; \<open>L2_Silent\<close> follows runs in which a peer says nothing (\<open>quiet_step\<close>: the
    clock, the timers and the loop) to the end of the connection. The properties of the layer are in \<open>Props_L2\<close>.
  \<^item> \<open>Kiss_Framing\<close>, \<open>Demux\<close>, \<open>Agwpe\<close>, \<open>Benshi_Frame\<close>, \<open>Benshi_Records\<close> model \<open>kiss/framing.go\<close>,
    \<open>kiss/demux.go\<close>, \<open>agwpe/agwpe.go\<close> with the reassembly loop of
    \<open>internal/frontend/agwpe/server.go\<close>, and \<open>benshi/\<close>; their properties, with those of the event
    loop, are in \<open>Props_Link\<close>.
  \<^item> \<open>Kiss_Port\<close> models the transmit queue, pacing, reader and control channel of \<open>kiss/port.go\<close> and
    \<open>kiss/pacing.go\<close>; \<open>Agwpe_Client\<close> the queues and flags of a client of
    \<open>internal/frontend/agwpe/server.go\<close>; \<open>Bridge\<close> \<open>internal/bridge/bridge.go\<close> and \<open>events.go\<close>;
    \<open>Agwpe_Handler\<close> the commands of \<open>handler.go\<close> with the monitor and raw sinks.
  \<^item> \<open>L2_Owner\<close> and \<open>Bridge_Frame\<close> show which parts of the daemon each operation leaves alone;
    \<open>Bridge_Inv\<close> is the invariant of the daemon, and \<open>Bridge_System\<close> the step relation
    \<open>bridge_step\<close>: one rule for every function another goroutine can post (a frame from a radio,
    a read or a write of a client, a timer, a connect attempt that ends, an operator request), in any order.
    \<open>Echo\<close>, \<open>Isolation\<close>, \<open>Bridge_Delivery\<close>, \<open>Reconnect\<close> and \<open>Reconnect_Race\<close> prove echo suppression,
    the separation of clients, end-to-end delivery (over a locale \<open>receiver\<close> that both receivers of
    the layer below interpret) and the discipline of connect attempts. Properties: \<open>Props_Bridge\<close>.
  \<^item> \<open>Rig\<close> models \<open>internal/rig\<close>; \<open>Rig_Radio\<close> the contract of a radio that stores its records (the
    locale \<open>radio_link\<close>) and the projection of every operation to it; \<open>Rig_Session\<close> that a session is
    undone. \<open>Rigctl\<close> models \<open>internal/frontend/rigctl\<close> and \<open>Rig_Gate\<close> \<open>internal/bridge/riggate.go\<close>, both with
    a step relation for their goroutines and timers. \<open>Rig_Link\<close> models the link of a rig in time (\<open>request\<close>, its timers, the
    reader), \<open>Rig_Cache\<close> the rigs a bridge hands out and the sessions it carries from one to the next, \<open>Rig_Shutdown\<close>
    the two locks of a gate and the event loop at shutdown, \<open>Rigctl_Server\<close> the connections of a rigctl server with the
    gate that counts them. Properties: \<open>Props_Rig\<close>.
  \<^item> \<open>Netutil\<close> models the allow lists of \<open>internal/netutil\<close>; \<open>Config_Keys\<close> the keys and the hint for misspelt ones,
    \<open>Config\<close> the loading and validation of \<open>internal/config/config.go\<close> over any INI file. Properties: \<open>Props_Config\<close>.
  \<^item> \<open>Kisstcp\<close> models \<open>internal/frontend/kisstcp\<close> and the frontend together with the daemon as one step
    relation. Properties: \<open>Props_Kisstcp\<close>.
  \<^item> At the edge: \<open>Port_Write\<close> the concurrent writes of a port (\<open>kiss/port.go\<close>) as a step relation; \<open>Sdp\<close> the addresses and the service discovery of \<open>kiss/bluetooth_sdp.go\<close>, with the trees of
    elements a response encodes; \<open>Bt_Link\<close> the byte streams, connect loops, stall detector and socket hand-over of the
    Bluetooth transports; \<open>Serial_Port\<close> \<open>internal/ports/ports.go\<close> and \<open>kiss/serial.go\<close>; \<open>Transports\<close>
    \<open>internal/bridge/transport.go\<close> and what opening a transport takes and gives back; \<open>Api\<close>
    \<open>internal/frontend/api\<close>; \<open>App\<close> \<open>internal/app/app.go\<close>. Properties: \<open>Props_Edge\<close>.

  \<^bold>\<open>State and effects.\<close> A Go map is an association list with distinct keys; code that ranges over
  one takes the iteration order as a parameter \<open>ord\<close> about which only \<open>map_order\<close> (it permutes its
  argument) is assumed. A pointer to a connection is an index into the table's cell store, so that a
  function still holding a removed connection reads and writes its cell as in Go. Every hook call is
  appended to \<open>out\<close>, and a hook field that may be nil is a flag. Timer functions are values of the
  datatype \<open>closure\<close>. Errors are values of one datatype per package.

  \<^bold>\<open>Numbers.\<close> Wire bytes and the sequence variables of a link are 8-bit words, which wrap at 256 before the
  source's remainder reduces them; lengths are natural numbers, other Go integers are integers, durations in nanoseconds. Go's
  \<open>float64\<close> arithmetic in \<open>DeriveParams\<close> is a rounding parameter \<open>fl\<close> (monotone, idempotent, exact
  below 2^53), applied after every operation; a compiler that fuses a multiplication and an addition
  rounds once where the model rounds twice.

  \<^bold>\<open>Hypotheses.\<close> The properties of the connected-mode layer ask that a port's \<open>MaxWindow\<close> is between 0 and 7;
  \<open>loaded_config_safe\<close> proves that every configuration that loads has it. The retransmission loop
  has a fuel of 256 rounds in the model; \<open>retransmission_terminates\<close> shows that every connection of a reachable
  table needs fewer, so the bound is never met. \<open>reply_attributed\<close> asks that the radio answers less than four request
  timeouts after the write, the sum of the reply timeout and the quiet period. \<open>silent_peer_given_up\<close> asks that no T1 function
  of the connection stays on its way for ever: the runtime fires a due timer, and the loop runs what is posted, which is
  \<open>loop_fifo\<close> and \<open>no_lost_wakeup\<close>.

  \<^bold>\<open>Parameters.\<close> \<open>quote\<close> and \<open>ts\<close> stand for the text of log and monitor lines that Go's \<open>fmt\<close> and
  clock produce, \<open>clk\<close> for the clock, \<open>ord\<close> for the order in which a map is ranged over, \<open>env\<close> for the exchange of one rig
  command with a radio (answered, timed out, failed or closed), \<open>ops\<close> for the rigs a rigctl server resolves, the record
  \<open>unicode\<close> and the record \<open>folding\<close> for what the standard library does to text that is not ASCII, \<open>fl\<close> for rounding, \<open>urlHost\<close> for
  \<open>url.Parse\<close>, and a function of the keys for the INI library. What the operating system answers (the list of attached
  devices, the results of opening, reading, writing and connecting) is an argument. Nothing is assumed about them but what a
  theorem's hypotheses say.

  \<^bold>\<open>Interleavings.\<close> Step relations over-approximate the schedules: a timer may fire at any time
  after it was armed, a posted function may run at any time after it was posted, and a radio may
  answer anything. A critical section of a mutex is one step.

  \<^bold>\<open>Hooks.\<close> The connected-mode layer reports through hooks that the bridge implements. The model
  runs an operation of the layer to its end and replays the hook calls it appended, in order; the
  hooks of the bridge do not call back into the table except as the replay does.

  \<^bold>\<open>Not modelled.\<close> The calls of devices and sockets themselves (D-Bus objects, Winsock, termios, the TCP dial and the
  accept loops): they are input and output, and what they answer is an argument. HTTP and JSON, which are the standard
  library's. The command line, the installers, the service managers and the graphical dialogs of
  \<open>cmd/tncd\<close>: they drive operating-system facilities and keep no state of the daemon. Log output and tracing.
\<close>

end
